(* ===== verification/Prelude.thy ===== *)
theory Prelude
  imports Complex_Main "HOL-Library.Word"
begin

text \<open>
  What the components share: the names of the machine types, results of fallible code, and
  the lemmas on byte lists, positional numbers, bit fields and rounding that several
  components need.

  Conventions of the whole development.  A \<open>u8\<close>, \<open>u16\<close>, \<open>u64\<close> of the Rust code is a word
  of that width; a \<open>usize\<close> (a length or an index) is a \<open>nat\<close>, whose truncated subtraction is
  Rust's \<open>saturating_sub\<close>.  An \<open>f64\<close> is a \<open>real\<close>: arithmetic is exact and there is no
  NaN and no infinity.  A \<open>&str\<close> is the list of its UTF-8 bytes as characters.  A
  \<open>Result<T, E>\<close> is \<open>E + T\<close>, with \<open>Inl\<close> for the error.
\<close>

unbundle bit_operations_syntax

type_synonym u8 = "8 word"
type_synonym u16 = "16 word"
type_synonym u32 = "32 word"
type_synonym u64 = "64 word"
type_synonym f64 = real
type_synonym bytes = "u8 list"

named_theorems wire_simps \<open>the encoders and decoders, unfolded\<close>

section \<open>Results\<close>

text \<open>Rust's \<open>?\<close>: go on with the value, return early with the error.\<close>

fun and_then :: "'e + 'a \<Rightarrow> ('a \<Rightarrow> 'e + 'b) \<Rightarrow> 'e + 'b" where
  "and_then (Inl e) f = Inl e"
| "and_then (Inr x) f = f x"

lemma and_then_Inr_iff [simp]:
  "and_then r f = Inr y \<longleftrightarrow> (\<exists>x. r = Inr x \<and> f x = Inr y)"
  by (cases r) auto

text \<open>Rust's \<open>map_err\<close>.\<close>

fun map_err :: "('e \<Rightarrow> 'f) \<Rightarrow> 'e + 'a \<Rightarrow> 'f + 'a" where
  "map_err f (Inl e) = Inl (f e)"
| "map_err f (Inr x) = Inr x"

lemma map_err_Inr_iff [simp]: "map_err f r = Inr x \<longleftrightarrow> r = Inr x"
  by (cases r) auto

text \<open>Collecting an iterator of results: the first error wins.\<close>

fun collect :: "('e + 'a) list \<Rightarrow> 'e + 'a list" where
  "collect [] = Inr []"
| "collect (Inl e # rs) = Inl e"
| "collect (Inr x # rs) = and_then (collect rs) (\<lambda>xs. Inr (x # xs))"

lemma collect_Inr_iff: "collect rs = Inr xs \<longleftrightarrow> rs = map Inr xs"
  by (induction rs arbitrary: xs rule: collect.induct) (auto simp: Cons_eq_map_conv)

lemma collect_map_Inr [simp]: "collect (map (\<lambda>x. Inr (f x)) xs) = Inr (map f xs)"
  by (induction xs) auto

section \<open>Big-endian sixteen-bit fields\<close>

definition be16 :: "u16 \<Rightarrow> bytes" where
  "be16 w = [ucast (drop_bit 8 w), ucast w]"

definition of_be16 :: "u8 \<Rightarrow> u8 \<Rightarrow> u16" where
  "of_be16 hi lo = push_bit 8 (ucast hi) OR ucast lo"

lemma length_be16 [simp]: "length (be16 w) = 2"
  by (simp add: be16_def)

lemma of_be16_be16 [simp]: "of_be16 (ucast (drop_bit 8 w)) (ucast w) = w"
  by (rule bit_eqI) (auto simp: of_be16_def bit_simps)

lemma unat_of_be16: "unat (of_be16 hi lo) = 256 * unat hi + unat lo"
proof -
  have "of_be16 hi lo = push_bit 8 (ucast hi) + (ucast lo :: u16)"
    unfolding of_be16_def
    by (rule disjunctive_add [symmetric]) (auto simp: bit_simps dest: bit_imp_le_length)
  moreover have "unat hi < 256" "unat lo < 256"
    using unsigned_less [of hi, where ?'a = nat] unsigned_less [of lo, where ?'a = nat] by simp_all
  ultimately show ?thesis
    by (simp add: push_bit_eq_mult unat_word_ariths unsigned_ucast_eq take_bit_nat_eq_self)
qed

section \<open>Bit fields of a byte\<close>

lemma byte_eq_iff:
  fixes a b :: u8
  shows "a = b \<longleftrightarrow> (bit a 0 = bit b 0 \<and> bit a 1 = bit b 1 \<and> bit a 2 = bit b 2 \<and> bit a 3 = bit b 3 \<and>
    bit a 4 = bit b 4 \<and> bit a 5 = bit b 5 \<and> bit a 6 = bit b 6 \<and> bit a 7 = bit b 7)"
    (is "_ \<longleftrightarrow> ?R")
proof
  assume R: ?R
  show "a = b"
  proof (rule bit_word_eqI)
    fix n :: nat
    assume "n < LENGTH(8)"
    then have "n \<in> {0, 1, 2, 3, 4, 5, 6, 7}"
      by auto
    with R show "bit a n = bit b n"
      by auto
  qed
qed simp

lemma bit_above:
  fixes x :: "'a::len word"
  assumes "unat x < 2 ^ k" and "k \<le> n"
  shows "\<not> bit x n"
proof -
  have "uint x < 2 ^ k"
    using assms(1) by (metis of_nat_less_iff of_nat_numeral of_nat_power uint_nat)
  then have "x AND mask k = x"
    by (simp add: mask_eq_iff)
  then have "bit x n \<longleftrightarrow> bit (x AND mask k) n"
    by simp
  with assms(2) show ?thesis
    by (simp add: bit_simps)
qed

lemma byte_tests:
  fixes b :: u8
  shows "b AND 1 = 0 \<longleftrightarrow> \<not> bit b 0" "b AND 2 = 0 \<longleftrightarrow> \<not> bit b 1" "b AND 4 = 0 \<longleftrightarrow> \<not> bit b 2"
    "b AND 8 = 0 \<longleftrightarrow> \<not> bit b 3" "b AND 0x40 = 0 \<longleftrightarrow> \<not> bit b 6" "b AND 0x80 = 0 \<longleftrightarrow> \<not> bit b 7"
  using and_exp_eq_0_iff_not_bit [of b 0] and_exp_eq_0_iff_not_bit [of b 1]
    and_exp_eq_0_iff_not_bit [of b 2] and_exp_eq_0_iff_not_bit [of b 3]
    and_exp_eq_0_iff_not_bit [of b 6] and_exp_eq_0_iff_not_bit [of b 7]
  by (simp_all del: and_exp_eq_0_iff_not_bit)

lemma bit_min7: "bit (min c 7 :: u8) n \<Longrightarrow> n < 3"
proof (rule ccontr)
  assume b: "bit (min c 7 :: u8) n" and "\<not> n < 3"
  moreover have "unat (min c 7 :: u8) < 2 ^ 3"
    by (simp add: min_def word_le_nat_alt not_le word_less_nat_alt)
  ultimately show False
    using bit_above [of "min c 7" 3 n] by simp
qed

section \<open>Rounding\<close>

text \<open>\<open>f64::round_ties_even\<close>, \<open>f64::clamp\<close> and \<open>f64::ceil\<close>.\<close>

definition round_ties_even :: "real \<Rightarrow> int" where
  "round_ties_even x =
     (let f = \<lfloor>x\<rfloor>; d = x - of_int f
      in if d < 1/2 then f else if d > 1/2 then f + 1 else if even f then f else f + 1)"

text \<open>\<open>f64::round\<close>, ties away from zero.\<close>

definition round_away :: "real \<Rightarrow> int" where
  "round_away x = (if 0 \<le> x then \<lfloor>x + 1/2\<rfloor> else \<lceil>x - 1/2\<rceil>)"

definition clamp :: "'a::linorder \<Rightarrow> 'a \<Rightarrow> 'a \<Rightarrow> 'a" where
  "clamp x lo hi = (if x < lo then lo else if hi < x then hi else x)"

lemma clamp_bounds: "lo \<le> hi \<Longrightarrow> lo \<le> clamp x lo hi \<and> clamp x lo hi \<le> hi"
  by (auto simp: clamp_def)

lemma round_ties_even_of_int [simp]: "round_ties_even (of_int k) = k"
  by (simp add: round_ties_even_def)

lemma round_ties_even_near: "\<bar>of_int (round_ties_even x) - x\<bar> \<le> 1/2"
  unfolding round_ties_even_def Let_def by (simp add: abs_le_iff) linarith?

lemma round_ties_even_mono: "x \<le> y \<Longrightarrow> round_ties_even x \<le> round_ties_even y"
proof -
  assume xy: "x \<le> y"
  then have f: "\<lfloor>x\<rfloor> \<le> \<lfloor>y\<rfloor>"
    by (rule floor_mono)
  show ?thesis
  proof (cases "\<lfloor>x\<rfloor> = \<lfloor>y\<rfloor>")
    case True
    with xy show ?thesis
      by (auto simp: round_ties_even_def Let_def)
  next
    case False
    with f have "\<lfloor>x\<rfloor> + 1 \<le> \<lfloor>y\<rfloor>"
      by simp
    then show ?thesis
      by (auto simp: round_ties_even_def Let_def)
  qed
qed

section \<open>Positional numbers\<close>

text \<open>
  The callsign codec packs nine base-64 digits into seven base-256 digits; both directions are
  Horner evaluations and digit extractions.
\<close>

definition horner :: "nat \<Rightarrow> nat list \<Rightarrow> nat" where
  "horner b ds = foldl (\<lambda>v d. v * b + d) 0 ds"

lemma horner_Nil [simp]: "horner b [] = 0"
  by (simp add: horner_def)

lemma horner_snoc [simp]: "horner b (ds @ [d]) = horner b ds * b + d"
  by (simp add: horner_def)

lemma horner_less: "\<forall>d\<in>set ds. d < b \<Longrightarrow> horner b ds < b ^ length ds"
proof (induction ds rule: rev_induct)
  case (snoc d ds)
  then have "horner b ds + 1 \<le> b ^ length ds" and "d < b"
    by auto
  then have "(horner b ds + 1) * b \<le> b ^ length ds * b"
    by (intro mult_right_mono) auto
  with \<open>d < b\<close> show ?case
    by (simp add: algebra_simps)
qed simp

definition digit :: "nat \<Rightarrow> nat \<Rightarrow> nat \<Rightarrow> nat" where
  "digit b v i = v div b ^ i mod b"

lemma digit_horner:
  assumes "\<forall>d\<in>set ds. d < b" and "i < length ds"
  shows "digit b (horner b ds) (length ds - 1 - i) = ds ! i"
  using assms
proof (induction ds rule: rev_induct)
  case (snoc d ds)
  then have d: "d < b" and b: "0 < b"
    by auto
  show ?case
  proof (cases "i = length ds")
    case True
    with d show ?thesis
      by (simp add: digit_def)
  next
    case False
    with snoc.prems have i: "i < length ds"
      by simp
    then have e: "length (ds @ [d]) - 1 - i = Suc (length ds - 1 - i)"
      by simp
    have "(horner b ds * b + d) div (b * b ^ (length ds - 1 - i)) =
          horner b ds div b ^ (length ds - 1 - i)"
      using d b by (simp add: div_mult2_eq)
    moreover have "digit b (horner b ds) (length ds - 1 - i) = ds ! i"
      using snoc.IH snoc.prems i by simp
    ultimately show ?thesis
      using i unfolding e digit_def by (simp add: nth_append)
  qed
qed simp

lemma horner_digits: "horner b (map (digit b v) (rev [0..<n])) = v mod b ^ n"
proof (induction n arbitrary: v)
  case (Suc n)
  have "map (digit b v) (rev [0..<Suc n]) = map (digit b (v div b)) (rev [0..<n]) @ [v mod b]"
  proof -
    have "map (digit b v) (rev [0..<Suc n]) = map (digit b v) (rev (0 # map Suc [0..<n]))"
      by (simp only: map_Suc_upt upt_conv_Cons zero_less_Suc)
    then show ?thesis
      by (simp add: rev_map digit_def div_mult2_eq o_def)
  qed
  then have "horner b (map (digit b v) (rev [0..<Suc n])) = (v div b mod b ^ n) * b + v mod b"
    using Suc by simp
  also have "\<dots> = v mod b ^ Suc n"
    by (simp add: mod_mult2_eq)
  finally show ?case .
qed simp

section \<open>Words as positional numbers\<close>

lemma unat_shift_or:
  fixes v :: "'a::len word"
  assumes "d < 2 ^ k" and "unat v * 2 ^ k + d < 2 ^ LENGTH('a)"
  shows "unat (push_bit k v OR of_nat d) = unat v * 2 ^ k + d"
proof -
  have d: "unat (of_nat d :: 'a word) = d"
    using assms(2) by (simp add: unat_of_nat take_bit_nat_eq_self)
  have "push_bit k v OR of_nat d = push_bit k v + (of_nat d :: 'a word)"
    using bit_above [of "of_nat d :: 'a word" k] assms(1) d
    by (intro disjunctive_add [symmetric]) (auto simp: bit_simps)
  then have "push_bit k v OR of_nat d = of_nat (unat v * 2 ^ k + d)"
    by (simp add: push_bit_eq_mult)
  then have "unat (push_bit k v OR of_nat d) = unat (of_nat (unat v * 2 ^ k + d) :: 'a word)"
    by (rule arg_cong)
  also have "\<dots> = unat v * 2 ^ k + d"
    using assms(2) by (simp only: unat_of_nat take_bit_nat_eq_self mod_less)
  finally show ?thesis .
qed

text \<open>\<open>u64::to_be_bytes\<close> (its last \<open>n\<close> bytes) and the loop that reads such bytes back.\<close>

definition be_bytes :: "nat \<Rightarrow> 'a::len word \<Rightarrow> bytes" where
  "be_bytes n v = map (\<lambda>i. ucast (drop_bit (8 * i) v)) (rev [0..<n])"

definition of_be_bytes :: "bytes \<Rightarrow> u64" where
  "of_be_bytes bs = foldl (\<lambda>v b. push_bit 8 v OR ucast b) 0 bs"

lemma length_be_bytes [simp]: "length (be_bytes n v) = n"
  by (simp add: be_bytes_def)

lemma unat_be_bytes: "map unat (be_bytes n v) = map (digit 256 (unat v)) (rev [0..<n])"
proof -
  have "unat (ucast (drop_bit (8 * i) v) :: u8) = digit 256 (unat v) i" for i
  proof -
    have "unat (drop_bit (8 * i) v) = unat v div 256 ^ i"
      by (simp only: unat_drop_bit_eq drop_bit_eq_div [of "8 * i" "unat v"] power_mult) simp
    then show ?thesis
      by (simp only: digit_def unsigned_ucast_eq take_bit_eq_mod) simp
  qed
  then show ?thesis
    by (simp add: be_bytes_def)
qed

lemma unat_of_be_bytes:
  "length bs \<le> 8 \<Longrightarrow> unat (of_be_bytes bs) = horner 256 (map unat bs)"
proof (induction bs rule: rev_induct)
  case Nil
  then show ?case
    by (simp add: of_be_bytes_def)
next
  case (snoc b bs)
  have b: "unat b < 256"
    using unsigned_less [of b, where ?'a = nat] by simp
  have "horner 256 (map unat bs) < 256 ^ length bs"
    using horner_less [of "map unat bs" 256] unsigned_less [where ?'a = nat and 'b = 8]
    by simp
  also have "\<dots> \<le> (256::nat) ^ 7"
    using snoc.prems by (intro power_increasing) auto
  finally have "unat (of_be_bytes bs) * 2 ^ 8 + unat b < 2 ^ 64"
    using snoc b by simp
  then have "unat (push_bit 8 (of_be_bytes bs) OR of_nat (unat b)) = unat (of_be_bytes bs) * 2 ^ 8 + unat b"
    using b by (intro unat_shift_or) simp_all
  with snoc show ?case
    by (simp add: of_be_bytes_def)
qed

section \<open>Lists\<close>

text \<open>Rust's \<open>Iterator::position\<close>.\<close>

fun position :: "('a \<Rightarrow> bool) \<Rightarrow> 'a list \<Rightarrow> nat option" where
  "position P [] = None"
| "position P (x # xs) = (if P x then Some 0 else map_option Suc (position P xs))"

lemma position_SomeD: "position P xs = Some i \<Longrightarrow> i < length xs \<and> P (xs ! i)"
  by (induction xs arbitrary: i) (auto split: if_splits)

lemma position_None_iff: "position P xs = None \<longleftrightarrow> (\<forall>x\<in>set xs. \<not> P x)"
  by (induction xs) auto

lemma position_least: "position P xs = Some i \<Longrightarrow> j < i \<Longrightarrow> \<not> P (xs ! j)"
proof (induction xs arbitrary: i j)
  case (Cons x xs)
  then show ?case
    by (cases j) (auto split: if_splits)
qed simp

lemma map_enumerate: "map f (enumerate 0 xs) = map (\<lambda>i. f (i, xs ! i)) [0..<length xs]"
  by (rule nth_equalityI) (simp_all add: nth_enumerate_eq)

lemma map_eq_transfer:
  "map f xs = map g is \<Longrightarrow> (\<And>x i. i \<in> set is \<Longrightarrow> f x = g i \<Longrightarrow> f' x = g' i) \<Longrightarrow> map f' xs = map g' is"
proof (induction xs arbitrary: "is")
  case (Cons x xs)
  then show ?case
    by (cases "is") auto
qed simp

lemma position_append:
  "\<forall>x\<in>set xs. \<not> P x \<Longrightarrow> P y \<Longrightarrow> position P (xs @ y # ys) = Some (length xs)"
  by (induction xs) auto

section \<open>Text\<close>

text \<open>Rust's formatting of a number, \<open>{}\<close> and \<open>{:02X}\<close>.\<close>

definition digit_char :: "nat \<Rightarrow> char" where
  "digit_char d = ''0123456789ABCDEF'' ! d"

fun decimal :: "nat \<Rightarrow> string" where
  "decimal n = (if n < 10 then [digit_char n] else decimal (n div 10) @ [digit_char (n mod 10)])"

declare decimal.simps [simp del]

definition hex2 :: "u8 \<Rightarrow> string" where
  "hex2 b = [digit_char (unat b div 16), digit_char (unat b mod 16)]"

text \<open>
  \<open>{:.d}\<close> of a float, the nearest decimal with ties to even; and \<open>{}\<close> of a float, the shortest decimal
  that reads back as it: here, of the ideal number, the shortest that is it, if one of 17 places is.
\<close>

definition fixed_str :: "nat \<Rightarrow> f64 \<Rightarrow> string" where
  "fixed_str d x =
     (let n = nat (round_ties_even (\<bar>x\<bar> * 10 ^ d));
          frac = decimal (n mod 10 ^ d)
      in (if x < 0 then ''-'' else []) @ decimal (n div 10 ^ d) @
         (if d = 0 then [] else ''.'' @ replicate (d - length frac) CHR ''0'' @ frac))"

definition plain_str :: "f64 \<Rightarrow> string" where
  "plain_str x =
     (case List.find (\<lambda>d. of_int \<lfloor>x * 10 ^ d\<rfloor> = x * 10 ^ d) [0..<17] of Some d \<Rightarrow> fixed_str d x | None \<Rightarrow> fixed_str 17 x)"

text \<open>The characters outside ASCII that the texts use, and \<open>Vec::join\<close>.\<close>

definition em_dash :: string where "em_dash = [CHR 0xE2, CHR 0x80, CHR 0x94]"
definition en_dash :: string where "en_dash = [CHR 0xE2, CHR 0x80, CHR 0x93]"
definition section_sign :: string where "section_sign = [CHR 0xC2, CHR 0xA7]"

fun join_with :: "string \<Rightarrow> string list \<Rightarrow> string" where
  "join_with sep [] = []"
| "join_with sep [s] = s"
| "join_with sep (s # t # ss) = s @ sep @ join_with sep (t # ss)"

section \<open>Soft bits\<close>

text \<open>A soft value agrees with a bit, weakly (not against it) or strictly.\<close>

definition leans :: "f64 \<Rightarrow> u8 \<Rightarrow> bool" where
  "leans v b \<longleftrightarrow> (if b = 1 then v \<le> 0 else 0 \<le> v)"

definition agrees :: "f64 \<Rightarrow> u8 \<Rightarrow> bool" where
  "agrees v b \<longleftrightarrow> (if b = 1 then v < 0 else 0 < v)"

lemma agrees_leans: "agrees v b \<Longrightarrow> leans v b"
  by (auto simp: agrees_def leans_def)

lemma agrees_add: "agrees v b \<Longrightarrow> leans w b \<Longrightarrow> agrees (v + w) b" "agrees v b \<Longrightarrow> leans w b \<Longrightarrow> agrees (w + v) b"
  by (auto simp: agrees_def leans_def split: if_splits)

lemma leans_add: "leans v b \<Longrightarrow> leans w b \<Longrightarrow> leans (v + w) b"
  by (auto simp: leans_def split: if_splits)

section \<open>The contract of a wire codec\<close>

text \<open>
  An encoder that may refuse, and a decoder that gives back the canonical form of whatever was
  encoded.  Every wire format of the link layer keeps it; its clients need no more.
\<close>

locale wire_codec =
  fixes enc :: "'a \<Rightarrow> 'e + 'r"
    and dec :: "'r \<Rightarrow> 'f + 'b"
    and canon :: "'a \<Rightarrow> 'b"
  assumes dec_enc: "enc x = Inr r \<Longrightarrow> dec r = Inr (canon x)"
begin

lemma same_wire: "enc x = Inr r \<Longrightarrow> enc y = Inr r \<Longrightarrow> canon x = canon y"
  using dec_enc by (metis sum.inject(2))

lemma dec_all: "collect (map enc xs) = Inr rs \<Longrightarrow> map dec rs = map (\<lambda>x. Inr (canon x)) xs"
  unfolding collect_Inr_iff
proof (induction xs arbitrary: rs)
  case (Cons x xs)
  then show ?case
    by (cases rs) (auto dest: dec_enc)
qed simp

end

text \<open>A codec that loses nothing.\<close>

locale exact_codec = wire_codec enc dec "\<lambda>x. x"
  for enc :: "'a \<Rightarrow> 'e + 'r" and dec :: "'r \<Rightarrow> 'f + 'a"
begin

lemma enc_inj: "enc x = Inr r \<Longrightarrow> enc y = Inr r \<Longrightarrow> x = y"
  by (rule same_wire)

lemma dec_all_exact: "collect (map enc xs) = Inr rs \<Longrightarrow> map dec rs = map Inr xs"
  by (drule dec_all) simp

end

end
