(* ===== verification/Callsign.thy ===== *)
theory Callsign
  imports Prelude
begin

text \<open>
  The callsign codec of \<open>core/aether-link/src/frames.rs\<close>: nine characters of six bits in seven
  bytes.  \<open>pack_callsign\<close> trims and upper-cases its argument; \<open>unpack_callsign\<close> reads the
  seven bytes back and drops the padding character.
\<close>

section \<open>The strings of the Rust code\<close>

text \<open>
  \<open>str::trim\<close> drops leading and trailing Unicode white space.  A string is its UTF-8 bytes,
  so a white space character is one of the byte sequences below.
\<close>

definition white_char :: "string \<Rightarrow> bool" where
  "white_char cs =
     (case map of_char cs :: nat list of
        [a] \<Rightarrow> 9 \<le> a \<and> a \<le> 13 \<or> a = 32
      | [a, b] \<Rightarrow> a = 194 \<and> (b = 133 \<or> b = 160)
      | [a, b, c] \<Rightarrow> a = 225 \<and> b = 154 \<and> c = 128
          \<or> a = 226 \<and> b = 128 \<and> (128 \<le> c \<and> c \<le> 138 \<or> c = 168 \<or> c = 169 \<or> c = 175)
          \<or> a = 226 \<and> b = 129 \<and> c = 159
          \<or> a = 227 \<and> b = 128 \<and> c = 128
      | _ \<Rightarrow> False)"

definition lead_white :: "string \<Rightarrow> nat option" where
  "lead_white cs = List.find (\<lambda>k. white_char (take k cs)) [1, 2, 3]"

definition trail_white :: "string \<Rightarrow> nat option" where
  "trail_white cs = List.find (\<lambda>k. white_char (drop (length cs - k) cs)) [1, 2, 3]"

lemma lead_white_pos: "lead_white cs = Some k \<Longrightarrow> 0 < k \<and> cs \<noteq> []"
  by (auto simp: lead_white_def white_char_def split: if_splits)

lemma trail_white_pos: "trail_white cs = Some k \<Longrightarrow> 0 < k \<and> cs \<noteq> []"
  by (auto simp: trail_white_def white_char_def split: if_splits)

function trim_start :: "string \<Rightarrow> string" where
  "trim_start cs = (case lead_white cs of None \<Rightarrow> cs | Some k \<Rightarrow> trim_start (drop k cs))"
  by pat_completeness auto
termination
  by (relation "measure length") (auto dest: lead_white_pos)

function trim_end :: "string \<Rightarrow> string" where
  "trim_end cs = (case trail_white cs of None \<Rightarrow> cs | Some k \<Rightarrow> trim_end (take (length cs - k) cs))"
  by pat_completeness auto
termination
  by (relation "measure length") (auto dest: trail_white_pos)

declare trim_start.simps [simp del] trim_end.simps [simp del]

definition trim :: "string \<Rightarrow> string" where
  "trim cs = trim_end (trim_start cs)"

text \<open>\<open>str::to_ascii_uppercase\<close>.\<close>

definition upper_char :: "char \<Rightarrow> char" where
  "upper_char c = (let n = of_char c :: nat in if 97 \<le> n \<and> n \<le> 122 then char_of (n - 32) else c)"

definition to_ascii_uppercase :: "string \<Rightarrow> string" where
  "to_ascii_uppercase cs = map upper_char cs"

section \<open>Packing and unpacking\<close>

text \<open>Anything malformed in a received frame.\<close>

datatype frame_error = TooShort | UnknownKind u8 | BadLength | BadCallsign | OutOfRange

definition CALL_MAX_CHARS :: nat where [simp]: "CALL_MAX_CHARS = 9"
definition CALL_BYTES :: nat where [simp]: "CALL_BYTES = 7"

definition CALL_ALPHABET :: string where
  "CALL_ALPHABET = CHR 0x00 # ''ABCDEFGHIJKLMNOPQRSTUVWXYZ0123456789-/''"

text \<open>The loop of \<open>pack_callsign\<close> over the character indices.\<close>

fun pack_chars :: "string \<Rightarrow> nat list \<Rightarrow> u64 \<Rightarrow> frame_error + u64" where
  "pack_chars upper [] value = Inr value"
| "pack_chars upper (index # rest) value =
     (let character = (if index < length upper then upper ! index else CHR 0x00)
      in case position (\<lambda>c. c = character) CALL_ALPHABET of
           None \<Rightarrow> Inl BadCallsign
         | Some p \<Rightarrow> pack_chars upper rest (push_bit 6 value OR of_nat p))"

definition pack_callsign :: "string \<Rightarrow> frame_error + bytes" where
  "pack_callsign call =
     (let upper = to_ascii_uppercase (trim call)
      in if upper = [] \<or> CALL_MAX_CHARS < length upper then Inl BadCallsign
         else and_then (pack_chars upper [0..<CALL_MAX_CHARS] 0)
           (\<lambda>value. Inr (be_bytes CALL_BYTES (push_bit 2 value))))"

text \<open>The loop of \<open>unpack_callsign\<close>.\<close>

fun unpack_chars :: "u64 \<Rightarrow> nat list \<Rightarrow> string \<Rightarrow> frame_error + string" where
  "unpack_chars value [] out = Inr out"
| "unpack_chars value (index # rest) out =
     (let code = unat (drop_bit (6 * (CALL_MAX_CHARS - 1 - index)) value AND 0x3F)
      in if code < length CALL_ALPHABET
         then let character = CALL_ALPHABET ! code
              in unpack_chars value rest (if character \<noteq> CHR 0x00 then out @ [character] else out)
         else Inl BadCallsign)"

definition unpack_callsign :: "bytes \<Rightarrow> frame_error + string" where
  "unpack_callsign raw =
     (if length raw < CALL_BYTES then Inl TooShort
      else unpack_chars (drop_bit 2 (of_be_bytes (take CALL_BYTES raw))) [0..<CALL_MAX_CHARS] [])"

section \<open>What the codec does\<close>

lemma length_alphabet [simp]: "length CALL_ALPHABET = 39"
  by (simp add: CALL_ALPHABET_def)

lemma alphabet_pad [simp]: "CALL_ALPHABET ! 0 = CHR 0x00"
  by (simp add: CALL_ALPHABET_def)

text \<open>The code points of the characters packed, from the positions in the alphabet.\<close>

definition char_at :: "string \<Rightarrow> nat \<Rightarrow> char" where
  "char_at upper i = (if i < length upper then upper ! i else CHR 0x00)"

lemma pack_chars_Inr:
  assumes "pack_chars upper is value = Inr w" and "unat value < 64 ^ k" and "k + length is \<le> 10"
  shows "\<exists>ds. length ds = length is \<and> (\<forall>d\<in>set ds. d < 39) \<and>
    map ((!) CALL_ALPHABET) ds = map (char_at upper) is \<and>
    unat w = foldl (\<lambda>v d. v * 64 + d) (unat value) ds"
  using assms
proof (induction "is" arbitrary: "value" k)
  case (Cons i rest)
  then obtain p where p: "position (\<lambda>c. c = char_at upper i) CALL_ALPHABET = Some p"
    and w: "pack_chars upper rest (push_bit 6 value OR of_nat p) = Inr w"
    by (auto simp: char_at_def Let_def split: option.splits)
  from p have pn: "p < 39" "CALL_ALPHABET ! p = char_at upper i"
    by (auto dest: position_SomeD)
  have "(unat value + 1) * 64 \<le> 64 ^ k * (64::nat)"
    using Cons.prems(2) by (intro mult_right_mono) auto
  moreover have "(64::nat) ^ k * 64 \<le> 64 ^ 10"
    using Cons.prems(3) power_increasing [of "Suc k" 10 "64::nat"] by simp
  ultimately have small: "unat value * 64 + p < 64 ^ Suc k" "unat value * 2 ^ 6 + p < 2 ^ 64"
    using pn(1) by simp_all
  then have v: "unat (push_bit 6 value OR of_nat p) = unat value * 64 + p"
    using pn(1) unat_shift_or [of p 6 "value"] by simp
  with Cons.IH [OF w, of "Suc k"] small Cons.prems(3) obtain ds where
    "length ds = length rest" "\<forall>d\<in>set ds. d < 39"
    "map ((!) CALL_ALPHABET) ds = map (char_at upper) rest"
    "unat w = foldl (\<lambda>v d. v * 64 + d) (unat value * 64 + p) ds"
    by auto
  with pn show ?case
    by (intro exI [of _ "p # ds"]) simp
qed simp

lemma unat_and_63: "unat (x AND 0x3F :: u64) = unat x mod 64"
proof -
  have "x AND 0x3F = take_bit 6 x"
    by (simp add: take_bit_eq_mask mask_eq_exp_minus_1)
  then have "unat (x AND 0x3F) = take_bit 6 (unat x)"
    by (simp only: unsigned_take_bit_eq)
  then show ?thesis
    by (simp only: take_bit_eq_mod [of 6 "unat x"]) simp
qed

lemma unpack_chars_eq:
  assumes "\<forall>i\<in>set is. digit 64 (unat value) (8 - i) < 39"
  shows "unpack_chars value is out =
    Inr (out @ filter (\<lambda>c. c \<noteq> CHR 0x00) (map (\<lambda>i. CALL_ALPHABET ! digit 64 (unat value) (8 - i)) is))"
  using assms
proof (induction "is" arbitrary: out)
  case (Cons i rest)
  have "unat (drop_bit (6 * (8 - i)) value AND 0x3F) = digit 64 (unat value) (8 - i)"
    by (simp only: unat_and_63 digit_def unat_drop_bit_eq drop_bit_eq_div [of "6 * (8 - i)" "unat value"]
        power_mult) simp
  with Cons show ?case
    by (simp add: Let_def del: One_nat_def)
qed simp

lemma pack_unpack_codes:
  fixes w :: u64
  assumes "length ds = 9" and "\<forall>d\<in>set ds. d < 39" and "unat w = horner 64 ds"
  shows "unpack_callsign (be_bytes 7 (push_bit 2 w)) =
    Inr (filter (\<lambda>c. c \<noteq> CHR 0x00) (map ((!) CALL_ALPHABET) ds))"
proof -
  have "unat w < 64 ^ 9"
    using horner_less [of ds 64] assms by force
  then have w4: "unat (push_bit 2 w) = unat w * 4"
    using unat_shift_or [of 0 2 w] by simp
  let ?v = "drop_bit 2 (of_be_bytes (be_bytes 7 (push_bit 2 w)))"
  have "unat (of_be_bytes (be_bytes 7 (push_bit 2 w))) = unat w * 4 mod 256 ^ 7"
    by (simp add: unat_of_be_bytes unat_be_bytes horner_digits w4)
  then have "unat (of_be_bytes (be_bytes 7 (push_bit 2 w))) = unat w * 4"
    using \<open>unat w < 64 ^ 9\<close> by simp
  then have v: "unat ?v = horner 64 ds"
    using assms(3) by (simp only: unat_drop_bit_eq drop_bit_eq_div [where ?'a = nat]) simp
  have dig: "digit 64 (unat ?v) (8 - i) = ds ! i" if "i < 9" for i
    using digit_horner [of ds 64 i] assms that v by force
  have "map (\<lambda>i. CALL_ALPHABET ! digit 64 (unat ?v) (8 - i)) [0..<9] = map ((!) CALL_ALPHABET) ds"
    using assms(1) dig by (intro nth_equalityI) simp_all
  with unpack_chars_eq [of "[0..<9]" ?v "[]"] dig assms(1,2) show ?thesis
    by (simp add: unpack_callsign_def)
qed

text \<open>
  What \<open>pack_callsign\<close> accepts, \<open>unpack_callsign\<close> reads back: the trimmed, upper-cased
  callsign, less the zero bytes in it, which are the alphabet's padding character.
\<close>

lemma pack_callsign_length: "pack_callsign call = Inr raw \<Longrightarrow> length raw = CALL_BYTES"
  by (auto simp: pack_callsign_def Let_def split: if_splits)

lemma unpack_pack_callsign:
  assumes "pack_callsign call = Inr raw"
  shows "unpack_callsign raw = Inr (filter (\<lambda>c. c \<noteq> CHR 0x00) (to_ascii_uppercase (trim call)))"
proof -
  let ?u = "to_ascii_uppercase (trim call)"
  from assms obtain w where w: "pack_chars ?u [0..<9] 0 = Inr w" and len: "length ?u \<le> 9"
    and raw: "raw = be_bytes 7 (push_bit 2 w)"
    by (auto simp: pack_callsign_def Let_def not_less split: if_splits)
  from pack_chars_Inr [OF w, of 0] obtain ds where ds: "length ds = 9" "\<forall>d\<in>set ds. d < 39"
    "map ((!) CALL_ALPHABET) ds = map (char_at ?u) [0..<9]" "unat w = horner 64 ds"
    by (auto simp: horner_def)
  have "map (char_at ?u) [0..<9] = ?u @ replicate (9 - length ?u) (CHR 0x00)"
    using len by (intro nth_equalityI) (auto simp: char_at_def nth_append)
  with pack_unpack_codes [OF ds(1,2,4)] ds(3) raw show ?thesis
    by simp
qed

text \<open>What \<open>pack_callsign\<close> accepts, exactly.\<close>

lemma pack_chars_total:
  "(\<exists>w. pack_chars upper is value = Inr w) \<longleftrightarrow> (\<forall>i\<in>set is. char_at upper i \<in> set CALL_ALPHABET)"
proof (induction "is" arbitrary: "value")
  case (Cons i rest)
  show ?case
  proof (cases "position (\<lambda>c. c = char_at upper i) CALL_ALPHABET")
    case None
    then have "char_at upper i \<notin> set CALL_ALPHABET"
      by (auto simp: position_None_iff)
    with None show ?thesis
      by (simp add: char_at_def Let_def)
  next
    case (Some p)
    then have "char_at upper i \<in> set CALL_ALPHABET"
      using position_SomeD [OF Some] by (metis nth_mem)
    with Some Cons.IH show ?thesis
      by (simp add: char_at_def Let_def)
  qed
qed simp

lemma pack_callsign_accepts:
  "(\<exists>raw. pack_callsign call = Inr raw) \<longleftrightarrow>
     (let upper = to_ascii_uppercase (trim call)
      in upper \<noteq> [] \<and> length upper \<le> 9 \<and> set upper \<subseteq> set CALL_ALPHABET)"
proof -
  let ?u = "to_ascii_uppercase (trim call)"
  have pad: "CHR 0x00 \<in> set CALL_ALPHABET"
    by (simp add: CALL_ALPHABET_def)
  have codes: "(\<forall>i\<in>set [0..<9]. char_at ?u i \<in> set CALL_ALPHABET) \<longleftrightarrow> set ?u \<subseteq> set CALL_ALPHABET"
    if len: "length ?u \<le> 9"
  proof
    assume all: "\<forall>i\<in>set [0..<9]. char_at ?u i \<in> set CALL_ALPHABET"
    show "set ?u \<subseteq> set CALL_ALPHABET"
    proof
      fix c
      assume "c \<in> set ?u"
      then obtain i where "i < length ?u" "c = ?u ! i"
        by (auto simp: in_set_conv_nth)
      with all len show "c \<in> set CALL_ALPHABET"
        by (auto simp: char_at_def dest: bspec [of _ _ i])
    qed
  next
    assume "set ?u \<subseteq> set CALL_ALPHABET"
    with pad show "\<forall>i\<in>set [0..<9]. char_at ?u i \<in> set CALL_ALPHABET"
      by (auto simp: char_at_def)
  qed
  show ?thesis
  proof (cases "?u = [] \<or> 9 < length ?u")
    case True
    then show ?thesis
      by (auto simp: pack_callsign_def Let_def)
  next
    case False
    then have "(\<exists>raw. pack_callsign call = Inr raw) \<longleftrightarrow> (\<exists>w. pack_chars ?u [0..<9] 0 = Inr w)"
      unfolding pack_callsign_def Let_def by simp
    with False codes pack_chars_total [of ?u "[0..<9]" 0] show ?thesis
      by (simp add: Let_def not_less del: upt_rec_numeral)
  qed
qed

section \<open>Properties\<close>


end
