(* ===== verification/Frames.thy ===== *)
theory Frames
  imports Callsign
begin

text \<open>
  The wire formats of \<open>core/aether-link/src/frames.rs\<close>: the DATA container with its three-byte
  header, the pieces of a body too long for a rung, the connect and probe bodies, the
  seven-byte CONTROL container of granted slots, and sequence number arithmetic.

  The round trips are stated without a hypothesis where the encoder is total: encoding
  rounds and clamps what the wire cannot hold, so decoding gives the canonical form of what
  was encoded, defined here field by field (\<open>snr_canon\<close>, \<open>grant_canon\<close>).
\<close>

section \<open>Constants\<close>

definition WINDOW :: nat where [simp]: "WINDOW = 16"
definition SEQ_MOD :: nat where [simp]: "SEQ_MOD = 256"
definition MAX_BURST :: nat where [simp]: "MAX_BURST = 16"
definition DATA_HEADER :: nat where [simp]: "DATA_HEADER = 3"
definition CONTROL_BYTES :: nat where [simp]: "CONTROL_BYTES = 7"
definition SNR_UNKNOWN :: u8 where [simp]: "SNR_UNKNOWN = 0x7F"
definition PARTIAL :: u8 where [simp]: "PARTIAL = 0x01"
definition FRAGMENT :: u8 where [simp]: "FRAGMENT = 0x02"
definition FRAGMENT_HEADER :: nat where [simp]: "FRAGMENT_HEADER = 2"
definition FRAGMENT_MAX_OFFSET :: u16 where [simp]: "FRAGMENT_MAX_OFFSET = 0x0FFF"

section \<open>The DATA container\<close>

datatype data_kind = Data | ConnectReq | ConnectAck | Beacon | Probe | ProbeAck | Datagram | Measure

definition outside_sessions :: "data_kind \<Rightarrow> bool" where
  "outside_sessions k = (case k of Beacon \<Rightarrow> True | Probe \<Rightarrow> True | ProbeAck \<Rightarrow> True | Datagram \<Rightarrow> True
     | _ \<Rightarrow> False)"

fun to_bits :: "data_kind \<Rightarrow> u8" where
  "to_bits Data = 0"
| "to_bits ConnectReq = 1"
| "to_bits ConnectAck = 2"
| "to_bits Beacon = 3"
| "to_bits Probe = 4"
| "to_bits ProbeAck = 5"
| "to_bits Datagram = 6"
| "to_bits Measure = 7"

definition from_bits :: "u8 \<Rightarrow> data_kind option" where
  "from_bits b =
     (if b = 0 then Some Data else if b = 1 then Some ConnectReq else if b = 2 then Some ConnectAck
      else if b = 3 then Some Beacon else if b = 4 then Some Probe else if b = 5 then Some ProbeAck
      else if b = 6 then Some Datagram else if b = 7 then Some Measure else None)"

record piece =
  pc_offset :: u16
  pc_last :: bool

record data_header =
  dh_kind :: data_kind
  dh_seq :: u8
  dh_session :: u8
  dh_piece :: "piece option"

text \<open>A piece's two header bytes.\<close>

definition piece_word :: "piece \<Rightarrow> u16" where
  "piece_word p = push_bit 4 (pc_offset p) OR push_bit 3 (if pc_last p then 1 else 0)"

text \<open>
  The early returns come in the code's order: the offset is checked when the piece's header
  is written, then the length of a partial frame, then the whole.
\<close>

definition encode_data :: "data_header \<Rightarrow> bytes \<Rightarrow> nat \<Rightarrow> frame_error + bytes" where
  "encode_data header body capacity =
     (let extra = (if dh_piece header \<noteq> None then FRAGMENT_HEADER else 0);
          room = capacity - (DATA_HEADER + extra);
          partial = length body < room;
          flags = (if partial then PARTIAL else 0) OR (if dh_piece header \<noteq> None then FRAGMENT else 0);
          start = [push_bit 5 (to_bits (dh_kind header)) OR (flags AND 0x1F),
                   dh_seq header, dh_session header]
      in and_then
           (case dh_piece header of
              None \<Rightarrow> Inr start
            | Some p \<Rightarrow> if FRAGMENT_MAX_OFFSET < pc_offset p then Inl OutOfRange
                       else Inr (start @ be16 (piece_word p)))
           (\<lambda>out. and_then
             (if \<not> partial then Inr out
              else if room - 2 < length body then Inl BadLength
              else if 65536 \<le> length body then Inl BadLength
              else Inr (out @ be16 (of_nat (length body))))
             (\<lambda>out. let out = out @ body
                    in if capacity < length out then Inl BadLength
                       else Inr (out @ replicate (capacity - length out) 0))))"

definition data_kind_of :: "bytes \<Rightarrow> data_kind option" where
  "data_kind_of payload = (case payload of [] \<Rightarrow> None | b # _ \<Rightarrow> from_bits (drop_bit 5 b))"

definition decode_data :: "bytes \<Rightarrow> frame_error + (data_header \<times> bytes)" where
  "decode_data payload =
     (if length payload < DATA_HEADER then Inl TooShort
      else let kind_bits = drop_bit 5 (payload ! 0)
        in case from_bits kind_bits of
             None \<Rightarrow> Inl (UnknownKind kind_bits)
           | Some kind \<Rightarrow>
               (let flags = payload ! 0 AND 0x1F; pos = DATA_HEADER
                in and_then
                  (if flags AND FRAGMENT \<noteq> 0
                   then if length payload < pos + FRAGMENT_HEADER then Inl TooShort
                     else let word = of_be16 (payload ! pos) (payload ! (pos + 1))
                       in Inr (Some \<lparr>pc_offset = drop_bit 4 word, pc_last = (word AND 0x08 \<noteq> 0)\<rparr>,
                            pos + FRAGMENT_HEADER)
                   else Inr (None, pos))
                  (\<lambda>(piece, pos). let header = \<lparr>dh_kind = kind, dh_seq = payload ! 1,
                                     dh_session = payload ! 2, dh_piece = piece\<rparr>
                     in if flags AND PARTIAL \<noteq> 0
                        then if length payload < pos + 2 then Inl TooShort
                          else let len = unat (of_be16 (payload ! pos) (payload ! (pos + 1)))
                            in if length payload - (pos + 2) < len then Inl BadLength
                               else Inr (header, take len (drop (pos + 2) payload))
                        else Inr (header, drop pos payload))))"

definition data_capacity :: "nat \<Rightarrow> nat" where
  "data_capacity phy_payload_bytes = phy_payload_bytes - DATA_HEADER"

subsection \<open>Its round trip\<close>

lemma from_to_bits [simp]: "from_bits (to_bits k) = Some k"
  by (cases k) (simp_all add: from_bits_def)

lemma to_from_bits: "from_bits b = Some k \<Longrightarrow> to_bits k = b"
  by (auto simp: from_bits_def split: if_splits)

lemma first_byte:
  "drop_bit 5 (push_bit 5 (to_bits k) OR (((if p then 1 else 0) OR (if f then 2 else 0)) AND 0x1F)) =
     to_bits k"
  "(push_bit 5 (to_bits k) OR (((if p then 1 else 0) OR (if f then 2 else 0)) AND 0x1F)) AND 0x1F =
     ((if p then 1 else 0) OR (if f then 2 else 0) :: u8)"
  by (cases k; cases p; cases f; simp)+

lemma flag_bits [simp]:
  "(((if p then 1 else 0) OR (if f then 2 else 0)) AND 1 :: u8) \<noteq> 0 \<longleftrightarrow> p"
  "(((if p then 1 else 0) OR (if f then 2 else 0)) AND 2 :: u8) \<noteq> 0 \<longleftrightarrow> f"
  by (cases p; cases f; simp)+

lemma piece_word_offset: "pc_offset p \<le> 0x0FFF \<Longrightarrow> drop_bit 4 (piece_word p) = pc_offset p"
proof -
  assume "pc_offset p \<le> 0x0FFF"
  then have "unat (pc_offset p) < 2 ^ 12"
    by (simp add: word_le_nat_alt)
  then have "\<not> bit (pc_offset p) n" if "12 \<le> n" for n
    using that bit_above by blast
  then have "n < 12" if "bit (pc_offset p) n" for n
    using that not_le by blast
  then show ?thesis
    by (intro bit_word_eqI) (auto simp: piece_word_def bit_simps)
qed

lemma piece_word_last: "piece_word p AND 0x08 \<noteq> 0 \<longleftrightarrow> pc_last p"
proof -
  have "piece_word p AND 2 ^ 3 \<noteq> 0 \<longleftrightarrow> bit (piece_word p) 3"
    by (simp only: and_exp_eq_0_iff_not_bit not_not)
  then show ?thesis
    by (simp add: piece_word_def bit_simps)
qed

text \<open>
  When the encoder accepts: the header fits, the offset is twelve bits, and the body is a
  full frame's worth, or at least two bytes short of it (a partial frame spends two bytes
  on its length).
\<close>

definition header_bytes :: "data_header \<Rightarrow> nat" where
  "header_bytes h = DATA_HEADER + (if dh_piece h \<noteq> None then FRAGMENT_HEADER else 0)"

definition fits :: "data_header \<Rightarrow> nat \<Rightarrow> nat \<Rightarrow> bool" where
  "fits h len capacity \<longleftrightarrow>
     header_bytes h \<le> capacity \<and>
     (\<forall>p. dh_piece h = Some p \<longrightarrow> pc_offset p \<le> FRAGMENT_MAX_OFFSET) \<and>
     (len = capacity - header_bytes h \<or> len + 2 \<le> capacity - header_bytes h \<and> len < 65536)"

lemma encode_data_accepts:
  "(\<exists>frame. encode_data h body capacity = Inr frame) \<longleftrightarrow> fits h (length body) capacity"
  by (cases "dh_piece h"; cases "length body < capacity - header_bytes h")
    (auto simp: encode_data_def fits_def header_bytes_def Let_def split: if_splits)

lemma encode_data_length: "encode_data h body capacity = Inr frame \<Longrightarrow> length frame = capacity"
  by (auto simp: encode_data_def Let_def split: if_splits option.splits)

lemma unat_of_nat_u16: "n < 65536 \<Longrightarrow> unat (of_nat n :: u16) = n"
  by (simp add: unat_of_nat)

lemma decode_encode_data:
  assumes "encode_data h body capacity = Inr frame"
  shows "decode_data frame = Inr (h, body)"
proof -
  let ?p = "length body < capacity - header_bytes h" and ?f = "dh_piece h \<noteq> None"
  let ?flags = "((if ?p then 1 else 0) OR (if ?f then 2 else 0)) :: u8"
  let ?b = "push_bit 5 (to_bits (dh_kind h)) OR (?flags AND 0x1F)"
  have fit: "fits h (length body) capacity"
    using assms encode_data_accepts by blast
  let ?len = "if ?p then be16 (of_nat (length body)) else []"
  let ?off = "case dh_piece h of None \<Rightarrow> [] | Some q \<Rightarrow> be16 (piece_word q)"
  let ?out = "[?b, dh_seq h, dh_session h] @ ?off @ ?len @ body"
  have frame: "frame = ?out @ replicate (capacity - length ?out) 0"
    using assms
    by (auto simp: encode_data_def header_bytes_def Let_def split: if_splits option.splits)
  have pad: "?p \<or> replicate (capacity - length ?out) 0 = ([] :: bytes)"
    using fit by (auto simp: fits_def header_bytes_def split: option.splits)
  have b: "drop_bit 5 ?b = to_bits (dh_kind h)" "?b AND 0x1F = ?flags"
    by (rule first_byte)+
  have small: "?p \<Longrightarrow> length body < 65536"
    using fit by (auto simp: fits_def)
  have fl: "?flags AND 2 \<noteq> 0 \<longleftrightarrow> ?f" "?flags AND 1 \<noteq> 0 \<longleftrightarrow> ?p"
    by (rule flag_bits)+
  show ?thesis
  proof (cases "dh_piece h")
    case None
    with b fl pad small show ?thesis
      unfolding frame
      by (cases ?p) (simp_all add: decode_data_def Let_def be16_def unat_of_nat_u16)
  next
    case (Some q)
    then have "pc_offset q \<le> 0x0FFF"
      using fit by (simp add: fits_def)
    with Some b fl pad small piece_word_offset [of q] piece_word_last [of q] show ?thesis
      unfolding frame
      by (cases ?p) (simp_all add: decode_data_def Let_def be16_def unat_of_nat_u16)
  qed
qed

section \<open>A body in pieces\<close>

text \<open>
  The loop of \<open>pieces\<close>, from offset \<open>pos\<close>: a full frame's worth at a time; a last piece one
  byte short of full, the one length the container cannot carry, goes as two.  (A loop with
  \<open>room < 3\<close> is never entered: \<open>pieces\<close> refuses it first.)
\<close>

definition piece_take :: "nat \<Rightarrow> nat \<Rightarrow> nat \<Rightarrow> nat" where
  "piece_take room len pos =
     (let tk = min room (len - pos) in if tk = room - 1 \<and> pos + tk = len then tk - 1 else tk)"

lemma piece_take_le: "piece_take room len pos \<le> len - pos"
  by (auto simp: piece_take_def Let_def)

lemma piece_take_pos: "3 \<le> room \<Longrightarrow> pos < len \<Longrightarrow> 0 < piece_take room len pos"
  by (auto simp: piece_take_def Let_def min_def split: if_splits)

lemma piece_take_fits: "3 \<le> room \<Longrightarrow> piece_take room len pos = room \<or> piece_take room len pos + 2 \<le> room"
  by (auto simp: piece_take_def Let_def min_def)

lemma piece_take_short:
  "3 \<le> room \<Longrightarrow> pos + piece_take room len pos < len \<Longrightarrow>
     piece_take room len pos = room \<or> len - pos = room - 1 \<and> piece_take room len pos = room - 2"
  by (auto simp: piece_take_def Let_def min_def split: if_splits)

function pieces_from :: "bytes \<Rightarrow> nat \<Rightarrow> nat \<Rightarrow> (piece \<times> bytes) list \<Rightarrow>
    frame_error + (piece \<times> bytes) list" where
  "pieces_from body room pos out =
     (let len = length body; tk = piece_take room len pos
      in if 0x0FFF < pos then Inl OutOfRange
         else let out = out @ [(\<lparr>pc_offset = of_nat pos, pc_last = (pos + tk = len)\<rparr>,
                               take tk (drop pos body))]
           in if len \<le> pos + tk \<or> room < 3 then Inr out else pieces_from body room (pos + tk) out)"
  by pat_completeness auto
termination
  by (relation "measure (\<lambda>(body, room, pos, out). length body - pos)")
    (auto simp: not_le intro!: diff_less_mono2 piece_take_pos)

declare pieces_from.simps [simp del]

definition pieces :: "bytes \<Rightarrow> nat \<Rightarrow> frame_error + (piece \<times> bytes) list" where
  "pieces body phy_payload_bytes =
     (let room = phy_payload_bytes - (DATA_HEADER + FRAGMENT_HEADER)
      in if room < 3 then Inl BadLength else pieces_from body room 0 [])"

text \<open>Pieces laid end to end from an offset: each starts where the last ended, only the end is last.\<close>

fun laid_out :: "nat \<Rightarrow> nat \<Rightarrow> (piece \<times> bytes) list \<Rightarrow> bool" where
  "laid_out pos n [] \<longleftrightarrow> False"
| "laid_out pos n [(p, bs)] \<longleftrightarrow> unat (pc_offset p) = pos \<and> pc_last p \<and> pos + length bs = n"
| "laid_out pos n ((p, bs) # ps) \<longleftrightarrow>
     unat (pc_offset p) = pos \<and> \<not> pc_last p \<and> bs \<noteq> [] \<and> laid_out (pos + length bs) n ps"

definition piece_ok :: "nat \<Rightarrow> piece \<times> bytes \<Rightarrow> bool" where
  "piece_ok room q \<longleftrightarrow> pc_offset (fst q) \<le> FRAGMENT_MAX_OFFSET \<and>
     (length (snd q) = room \<or> length (snd q) + 2 \<le> room)"

lemma pieces_from_spec:
  assumes "pieces_from body room pos out = Inr all" and "3 \<le> room" and "pos \<le> length body"
  shows "\<exists>ps. all = out @ ps \<and> laid_out pos (length body) ps \<and> concat (map snd ps) = drop pos body \<and>
    list_all (piece_ok room) ps \<and> length ps * room \<le> (length body - pos) + room + 1"
  using assms
proof (induction body room pos out rule: pieces_from.induct)
  case (1 body room pos out)
  let ?n = "length body"
  define tk where "tk = piece_take room ?n pos"
  define q where "q = (\<lparr>pc_offset = of_nat pos, pc_last = (pos + tk = ?n)\<rparr> :: piece, take tk (drop pos body))"
  note tk = piece_take_le [of room ?n pos, folded tk_def]
    piece_take_fits [OF "1.prems"(2), of ?n pos, folded tk_def]
    piece_take_short [OF "1.prems"(2), of pos ?n, folded tk_def]
    piece_take_pos [OF "1.prems"(2), of pos ?n, folded tk_def]
  note unf = pieces_from.simps [of body room pos out, unfolded Let_def, folded tk_def, folded q_def]
  have pos: "pos \<le> 0x0FFF"
    using "1.prems"(1) unf by (auto split: if_splits)
  then have off: "unat (of_nat pos :: u16) = pos"
    by (simp add: unat_of_nat)
  have lq: "length (snd q) = tk"
    using tk(1) by (simp add: q_def)
  have ok: "piece_ok room q"
    using pos off lq tk(2) by (simp add: piece_ok_def q_def word_le_nat_alt)
  show ?case
  proof (cases "?n \<le> pos + tk")
    case True
    then have "all = out @ [q]" "pos + tk = ?n"
      using "1.prems" pos unf tk(1) by auto
    with off ok lq "1.prems"(2) show ?thesis
      by (intro exI [of _ "[q]"]) (auto simp: q_def)
  next
    case False
    then have rec: "pieces_from body room (pos + tk) (out @ [q]) = Inr all"
      using "1.prems" pos unf by auto
    have "\<exists>ps. all = (out @ [q]) @ ps \<and> laid_out (pos + tk) ?n ps \<and>
        concat (map snd ps) = drop (pos + tk) body \<and>
        list_all (piece_ok room) ps \<and> length ps * room \<le> (?n - (pos + tk)) + room + 1"
      by (rule "1.IH" [OF refl refl _ refl, folded tk_def, folded q_def])
        (use pos False "1.prems"(2) rec in auto)
    then obtain ps where ps: "all = (out @ [q]) @ ps" "laid_out (pos + tk) ?n ps"
      "concat (map snd ps) = drop (pos + tk) body" "list_all (piece_ok room) ps"
      "length ps * room \<le> (?n - (pos + tk)) + room + 1"
      by blast
    have "laid_out pos ?n (q # ps)"
      using ps(2) False off lq tk(1,4) by (cases ps) (auto simp: q_def)
    moreover have "concat (map snd (q # ps)) = drop pos body"
      using ps(3) append_take_drop_id [of tk "drop pos body"] by (simp add: q_def add.commute)
    moreover have "length (q # ps) * room \<le> (?n - pos) + room + 1"
    proof (cases "tk = room")
      case True
      with ps(5) False show ?thesis
        by simp
    next
      case short: False
      with tk(3) False have m: "?n - pos = room - 1" "tk = room - 2"
        by auto
      then have "?n - (pos + tk) = 1"
        using "1.prems"(2) False by linarith
      with ps(5) "1.prems"(2) have "length ps * room < 2 * room"
        by linarith
      then have "length ps \<le> 1"
        by simp
      then have "length (q # ps) * room \<le> 2 * room"
        by simp
      with m(1) "1.prems"(2) show ?thesis
        by simp
    qed
    ultimately show ?thesis
      using ps(1,4) ok by (intro exI [of _ "q # ps"]) auto
  qed
qed

section \<open>The container as a codec\<close>

interpretation data: exact_codec "\<lambda>(h, body). encode_data h body capacity" decode_data
  for capacity
  by unfold_locales (auto dest: decode_encode_data)

section \<open>Properties\<close>

text \<open>
  C17: the DATA container loses nothing: a header and a body are encoded exactly when they fit the
  frame, the frame fills its capacity, and decoding it gives the same header and body.
\<close>

theorem data_round_trip:
  "(case encode_data h body capacity of
      Inr frame \<Rightarrow> length frame = capacity \<and> decode_data frame = Inr (h, body)
    | Inl _ \<Rightarrow> \<not> fits h (length body) capacity)"
  using encode_data_accepts [of h body capacity]
  by (auto split: sum.split dest: encode_data_length decode_encode_data)

text \<open>
  C27: a body cut into pieces is covered by them: laid end to end from offset zero, the last one
  marked, each a size the container can carry, and their bytes put together are the body.
\<close>

theorem pieces_cover:
  assumes "pieces body n = Inr ps"
  shows "laid_out 0 (length body) ps \<and> concat (map snd ps) = body \<and>
    (\<forall>(p, bs)\<in>set ps. \<forall>k s. fits \<lparr>dh_kind = k, dh_seq = s, dh_session = 0, dh_piece = Some p\<rparr> (length bs) n \<or> 65536 \<le> n)"
proof -
  let ?room = "n - (DATA_HEADER + FRAGMENT_HEADER)"
  from assms have room: "3 \<le> ?room" and "pieces_from body ?room 0 [] = Inr ps"
    by (auto simp: pieces_def Let_def simp del: DATA_HEADER_def FRAGMENT_HEADER_def split: if_splits)
  from pieces_from_spec [OF this(2,1)]
  have ps: "laid_out 0 (length body) ps" "concat (map snd ps) = body" and ok: "list_all (piece_ok ?room) ps"
    by auto
  have "fits \<lparr>dh_kind = k, dh_seq = s, dh_session = 0, dh_piece = Some p\<rparr> (length bs) n \<or> 65536 \<le> n"
    if "(p, bs) \<in> set ps" for p bs k s
    using ok that room by (fastforce simp: list_all_iff piece_ok_def fits_def header_bytes_def)
  with ps show ?thesis
    by blast
qed

theorem pieces_cover_witness:
  "\<exists>ps. pieces (replicate 20 7) 12 = Inr ps \<and> length ps = 4 \<and> laid_out 0 20 ps"
proof -
  have "(case pieces (replicate 20 7) 12 of Inr ps \<Rightarrow> length ps = 4 | Inl _ \<Rightarrow> False)"
    by code_simp
  then obtain ps where p: "pieces (replicate 20 7) 12 = Inr ps" and "length ps = 4"
    by (auto split: sum.splits)
  then show ?thesis
    using pieces_cover [OF p] by simp
qed

end
