(* ===== verification/Control.thy ===== *)
theory Control
  imports Frames
begin

text \<open>
  The bodies of the connect and probe frames and the CONTROL container of granted slots
  (\<open>ConnectBody\<close>, \<open>ProbeBody\<close>, \<open>GrantFrame\<close> of \<open>core/aether-link/src/frames.rs\<close>), the
  capability byte, and sequence number arithmetic.
\<close>

section \<open>The capability byte\<close>

definition CAP_COMPRESSION :: u8 where [simp]: "CAP_COMPRESSION = 0x01"
definition CAP_BANDWIDTH_SHIFT :: nat where [simp]: "CAP_BANDWIDTH_SHIFT = 1"
definition CAP_BANDWIDTH_MASK :: u8 where [simp]: "CAP_BANDWIDTH_MASK = push_bit CAP_BANDWIDTH_SHIFT 0x03"
definition CAP_LEVEL_SHIFT :: nat where [simp]: "CAP_LEVEL_SHIFT = 3"
definition CAP_LEVEL_MASK :: u8 where [simp]: "CAP_LEVEL_MASK = push_bit CAP_LEVEL_SHIFT 0x03"

definition bandwidth_code :: "u8 \<Rightarrow> u8" where
  "bandwidth_code caps = drop_bit CAP_BANDWIDTH_SHIFT (caps AND CAP_BANDWIDTH_MASK)"

definition bandwidth_code_of :: "nat \<Rightarrow> u8 option" where
  "bandwidth_code_of hz =
     (if hz = 2300 then Some 0 else if hz = 500 then Some 1 else if hz = 2750 then Some 2 else None)"

definition bandwidth_hz_of :: "u8 \<Rightarrow> nat option" where
  "bandwidth_hz_of caps =
     (let c = bandwidth_code caps
      in if c = 0 then Some 2300 else if c = 1 then Some 500 else if c = 2 then Some 2750 else None)"

text \<open>\<open>None\<close> is the panic on a bandwidth the air interface does not name.\<close>

definition with_bandwidth :: "u8 \<Rightarrow> nat \<Rightarrow> u8 option" where
  "with_bandwidth caps hz =
     (case bandwidth_code_of hz of None \<Rightarrow> None
      | Some code \<Rightarrow> Some ((caps AND NOT CAP_BANDWIDTH_MASK) OR push_bit CAP_BANDWIDTH_SHIFT code))"

definition with_level :: "u8 \<Rightarrow> u8 \<Rightarrow> u8" where
  "with_level caps level = (caps AND NOT CAP_LEVEL_MASK) OR push_bit CAP_LEVEL_SHIFT (level AND 0x03)"

definition level_of :: "u8 \<Rightarrow> u8" where
  "level_of caps = drop_bit CAP_LEVEL_SHIFT (caps AND CAP_LEVEL_MASK)"

lemma bandwidth_code_of_cases:
  assumes "bandwidth_code_of hz = Some code"
  obtains "hz = 2300" "code = 0" | "hz = 500" "code = 1" | "hz = 2750" "code = 2"
  using assms by (auto simp: bandwidth_code_of_def split: if_splits)

lemma bandwidth_of_with_bandwidth:
  "with_bandwidth caps hz = Some caps' \<Longrightarrow> bandwidth_hz_of caps' = Some hz"
proof -
  assume "with_bandwidth caps hz = Some caps'"
  then obtain code where code: "bandwidth_code_of hz = Some code"
    and caps': "caps' = (caps AND NOT 6) OR push_bit 1 code"
    by (auto simp: with_bandwidth_def split: option.splits)
  have "bandwidth_code caps' = code"
    using code unfolding caps' bandwidth_code_def
    by (elim bandwidth_code_of_cases; hypsubst; simp add: byte_eq_iff bit_simps)
  with code show ?thesis
    by (auto simp: bandwidth_hz_of_def elim!: bandwidth_code_of_cases)
qed

lemma level_of_with_level: "level_of (with_level caps level) = level AND 0x03"
  by (simp add: level_of_def with_level_def byte_eq_iff bit_simps)

lemma with_level_keeps: "bandwidth_code (with_level caps level) = bandwidth_code caps"
  by (simp add: bandwidth_code_def with_level_def byte_eq_iff bit_simps)

lemma with_bandwidth_keeps:
  assumes "with_bandwidth caps hz = Some caps'"
  shows "level_of caps' = level_of caps"
proof -
  from assms obtain code where "bandwidth_code_of hz = Some code"
    and caps': "caps' = (caps AND NOT 6) OR push_bit 1 code"
    by (auto simp: with_bandwidth_def split: option.splits)
  then show ?thesis
    unfolding caps' level_of_def
    by (elim bandwidth_code_of_cases; hypsubst; simp add: byte_eq_iff bit_simps)
qed

section \<open>The SNR byte\<close>

definition snr_byte :: "f64 option \<Rightarrow> u8" where
  "snr_byte snr_db =
     (case snr_db of None \<Rightarrow> SNR_UNKNOWN
      | Some v \<Rightarrow> word_of_int (clamp (round_ties_even v) (-40) 40))"

definition snr_from_byte :: "u8 \<Rightarrow> f64 option" where
  "snr_from_byte b = (if b \<noteq> SNR_UNKNOWN then Some (of_int (sint b)) else None)"

text \<open>What the wire keeps of a reading: whole decibels within a limit.\<close>

definition snr_canon :: "int \<Rightarrow> f64 option \<Rightarrow> f64 option" where
  "snr_canon most = map_option (\<lambda>v. of_int (clamp (round_ties_even v) (-most) most))"

lemma sint_small: "-128 \<le> k \<Longrightarrow> k < 128 \<Longrightarrow> sint (word_of_int k :: u8) = k"
  by (simp add: sint_sbintrunc' signed_take_bit_int_eq_self)

lemma snr_from_byte_snr_byte: "snr_from_byte (snr_byte snr) = snr_canon 40 snr"
proof (cases snr)
  case (Some v)
  let ?k = "clamp (round_ties_even v) (-40) 40"
  have k: "-40 \<le> ?k" "?k \<le> 40"
    using clamp_bounds [of "-40" 40 "round_ties_even v"] by simp_all
  then have "sint (word_of_int ?k :: u8) = ?k"
    by (intro sint_small) simp_all
  moreover have "(word_of_int ?k :: u8) \<noteq> 0x7F"
  proof
    assume "(word_of_int ?k :: u8) = 0x7F"
    then have "sint (word_of_int ?k :: u8) = 127"
      by simp
    with \<open>sint (word_of_int ?k :: u8) = ?k\<close> k show False
      by simp
  qed
  ultimately show ?thesis
    using Some by (simp add: snr_byte_def snr_from_byte_def snr_canon_def)
qed (simp add: snr_byte_def snr_from_byte_def snr_canon_def)

section \<open>Probe and connect bodies\<close>

definition PROBE_BODY_BYTES :: nat where [simp]: "PROBE_BODY_BYTES = 2 * CALL_BYTES + 2"
definition CONNECT_BODY_BYTES :: nat where [simp]: "CONNECT_BODY_BYTES = 2 * CALL_BYTES + 3"
definition CONNECT_BODY_8_BYTES :: nat where [simp]: "CONNECT_BODY_8_BYTES = CONNECT_BODY_BYTES + 2"
definition GRANTED_VERSION :: u8 where [simp]: "GRANTED_VERSION = 8"
definition PROTOCOL_VERSION :: u8 where [simp]: "PROTOCOL_VERSION = 12"
definition MAX_FOLLOWS :: u8 where [simp]: "MAX_FOLLOWS = 3"
definition MISSED_UNKNOWN :: u8 where [simp]: "MISSED_UNKNOWN = 7"

record probe_body =
  pb_src :: string
  pb_dst :: string
  pb_snr_db :: "f64 option"
  pb_caps :: u8

definition probe_encode :: "probe_body \<Rightarrow> frame_error + bytes" where
  "probe_encode b =
     and_then (pack_callsign (pb_src b)) (\<lambda>src.
     and_then (pack_callsign (pb_dst b)) (\<lambda>dst.
       Inr (src @ dst @ [snr_byte (pb_snr_db b), pb_caps b])))"

definition probe_decode :: "bytes \<Rightarrow> frame_error + probe_body" where
  "probe_decode body =
     (if length body < PROBE_BODY_BYTES then Inl TooShort
      else and_then (unpack_callsign (take CALL_BYTES body)) (\<lambda>src.
           and_then (unpack_callsign (take CALL_BYTES (drop CALL_BYTES body))) (\<lambda>dst.
             Inr \<lparr>pb_src = src, pb_dst = dst, pb_snr_db = snr_from_byte (body ! (2 * CALL_BYTES)),
                  pb_caps = body ! (2 * CALL_BYTES + 1)\<rparr>)))"

record connect_body =
  cb_src :: string
  cb_dst :: string
  cb_caps :: u8
  cb_version :: u8
  cb_snr_db :: "f64 option"
  cb_turnaround_s :: f64
  cb_identifier_s :: f64

text \<open>Whole steps up, less a hair, within the field: the steps of a declared duration.\<close>

definition steps_up :: "f64 \<Rightarrow> f64 \<Rightarrow> int \<Rightarrow> int" where
  "steps_up seconds per_second most = clamp \<lceil>seconds * per_second - 1 / 10 ^ 9\<rceil> 0 most"

definition connect_encode :: "connect_body \<Rightarrow> frame_error + bytes" where
  "connect_encode b =
     and_then (pack_callsign (cb_src b)) (\<lambda>src.
     and_then (pack_callsign (cb_dst b)) (\<lambda>dst.
       let out = src @ dst @ [cb_caps b, cb_version b, snr_byte (cb_snr_db b)]
       in if GRANTED_VERSION \<le> cb_version b
          then Inr (out @ [word_of_int (steps_up (cb_turnaround_s b) 10 15),
                           word_of_int (steps_up (cb_identifier_s b) 2 255)])
          else Inr out))"

definition connect_decode :: "bytes \<Rightarrow> frame_error + connect_body" where
  "connect_decode body =
     (if length body < 2 * CALL_BYTES + 2 then Inl TooShort
      else let version = body ! (2 * CALL_BYTES + 1);
               (turnaround_s, identifier_s) =
                 (if GRANTED_VERSION \<le> version \<and> CONNECT_BODY_8_BYTES \<le> length body
                  then (of_nat (unat (body ! (2 * CALL_BYTES + 3) AND 0x0F)) / 10,
                        of_nat (unat (body ! (2 * CALL_BYTES + 4))) / 2)
                  else (0, 0))
        in and_then (unpack_callsign (take CALL_BYTES body)) (\<lambda>src.
           and_then (unpack_callsign (take CALL_BYTES (drop CALL_BYTES body))) (\<lambda>dst.
             Inr \<lparr>cb_src = src, cb_dst = dst, cb_caps = body ! (2 * CALL_BYTES),
                  cb_version = version,
                  cb_snr_db = (if 2 * CALL_BYTES + 2 < length body
                               then snr_from_byte (body ! (2 * CALL_BYTES + 2)) else None),
                  cb_turnaround_s = turnaround_s, cb_identifier_s = identifier_s\<rparr>)))"

text \<open>What the wire keeps of a callsign, and of the bodies.\<close>

definition call_canon :: "string \<Rightarrow> string" where
  "call_canon call = filter (\<lambda>c. c \<noteq> CHR 0x00) (to_ascii_uppercase (trim call))"

definition probe_canon :: "probe_body \<Rightarrow> probe_body" where
  "probe_canon b = b\<lparr>pb_src := call_canon (pb_src b), pb_dst := call_canon (pb_dst b),
     pb_snr_db := snr_canon 40 (pb_snr_db b)\<rparr>"

definition connect_canon :: "connect_body \<Rightarrow> connect_body" where
  "connect_canon b = b\<lparr>cb_src := call_canon (cb_src b), cb_dst := call_canon (cb_dst b),
     cb_snr_db := snr_canon 40 (cb_snr_db b),
     cb_turnaround_s := (if 8 \<le> cb_version b then of_int (steps_up (cb_turnaround_s b) 10 15) / 10 else 0),
     cb_identifier_s := (if 8 \<le> cb_version b then of_int (steps_up (cb_identifier_s b) 2 255) / 2 else 0)\<rparr>"

lemma probe_decode_encode: "probe_encode b = Inr raw \<Longrightarrow> probe_decode raw = Inr (probe_canon b)"
proof -
  assume "probe_encode b = Inr raw"
  then obtain src dst where src: "pack_callsign (pb_src b) = Inr src" and dst: "pack_callsign (pb_dst b) = Inr dst"
    and raw: "raw = src @ dst @ [snr_byte (pb_snr_db b), pb_caps b]"
    by (auto simp: probe_encode_def)
  have "length src = 7" "length dst = 7"
    using src dst by (auto dest: pack_callsign_length)
  then show ?thesis
    using unpack_pack_callsign [OF src] unpack_pack_callsign [OF dst]
    unfolding raw
    by (cases b) (simp add: probe_decode_def probe_canon_def call_canon_def nth_append snr_from_byte_snr_byte)
qed

lemma steps_up_bounds: "0 \<le> most \<Longrightarrow> 0 \<le> steps_up s p most \<and> steps_up s p most \<le> most"
  unfolding steps_up_def by (rule clamp_bounds)

lemma unat_of_int_byte: "0 \<le> k \<Longrightarrow> k \<le> 255 \<Longrightarrow> unat (word_of_int k :: u8) = nat k"
  by (simp add: unsigned_of_int take_bit_int_eq_self)

lemma nibble_of_int: "0 \<le> k \<Longrightarrow> k \<le> 15 \<Longrightarrow> unat (word_of_int k AND 0x0F :: u8) = nat k"
proof -
  assume k: "0 \<le> k" "k \<le> 15"
  have "(word_of_int k :: u8) AND mask 4 = word_of_int k"
    using k by (simp add: mask_eq_iff unsigned_of_int take_bit_int_eq_self)
  moreover have "(mask 4 :: u8) = 0x0F"
    by (simp add: mask_eq_exp_minus_1)
  ultimately show ?thesis
    using k by (simp add: unat_of_int_byte)
qed

lemma connect_decode_encode: "connect_encode b = Inr raw \<Longrightarrow> connect_decode raw = Inr (connect_canon b)"
proof -
  assume "connect_encode b = Inr raw"
  then obtain src dst where src: "pack_callsign (cb_src b) = Inr src" and dst: "pack_callsign (cb_dst b) = Inr dst"
    and raw: "raw = src @ dst @ [cb_caps b, cb_version b, snr_byte (cb_snr_db b)] @
      (if 8 \<le> cb_version b then [word_of_int (steps_up (cb_turnaround_s b) 10 15),
         word_of_int (steps_up (cb_identifier_s b) 2 255)] else [])"
    by (auto simp: connect_encode_def Let_def split: if_splits)
  have len: "length src = 7" "length dst = 7"
    using src dst by (auto dest: pack_callsign_length)
  have "unat (word_of_int (steps_up (cb_turnaround_s b) 10 15) AND 0x0F :: u8) =
        nat (steps_up (cb_turnaround_s b) 10 15)"
    using steps_up_bounds [of 15] by (intro nibble_of_int) auto
  moreover have "unat (word_of_int (steps_up (cb_identifier_s b) 2 255) :: u8) =
        nat (steps_up (cb_identifier_s b) 2 255)"
    using steps_up_bounds [of 255] by (intro unat_of_int_byte) auto
  ultimately show ?thesis
    using len unpack_pack_callsign [OF src] unpack_pack_callsign [OF dst]
      steps_up_bounds [of 15 "cb_turnaround_s b" 10] steps_up_bounds [of 255 "cb_identifier_s b" 2]
    unfolding raw
    by (cases b) (simp add: connect_decode_def connect_canon_def call_canon_def nth_append
        snr_from_byte_snr_byte Let_def)
qed

text \<open>A declared duration is never understated by more than the code's hair, nor overstated by a step.\<close>

lemma steps_up_near:
  assumes "0 \<le> s" and "0 < p" and "s * p \<le> of_int most"
  shows "s * p - 1 / 10 ^ 9 \<le> of_int (steps_up s p most)" and "of_int (steps_up s p most) < s * p + 1"
proof -
  let ?c = "\<lceil>s * p - 1 / 10 ^ 9\<rceil>"
  have sp: "0 \<le> s * p"
    using assms by simp
  have "?c \<le> most"
    using assms(3) by (simp add: ceiling_le_iff)
  moreover have "0 \<le> ?c"
    using sp by (simp add: le_ceiling_iff)
  ultimately have c: "steps_up s p most = ?c"
    by (simp add: steps_up_def clamp_def)
  show "s * p - 1 / 10 ^ 9 \<le> of_int (steps_up s p most)" "of_int (steps_up s p most) < s * p + 1"
    using ceiling_correct [of "s * p - 1 / 10 ^ 9"] zero_less_divide_1_iff [of "10 ^ 9 :: real"]
    unfolding c by simp_all
qed

section \<open>The CONTROL container\<close>

datatype grant_kind = Header | Answer | Disc | DiscAck

fun grant_to_bits :: "grant_kind \<Rightarrow> u8" where
  "grant_to_bits Header = 0"
| "grant_to_bits Answer = 1"
| "grant_to_bits Disc = 2"
| "grant_to_bits DiscAck = 3"

definition grant_from_bits :: "u8 \<Rightarrow> grant_kind" where
  "grant_from_bits b =
     (let b = b AND 0x03
      in if b = 0 then Header else if b = 1 then Answer else if b = 2 then Disc else DiscAck)"

definition GRANT_SNR_UNKNOWN :: u8 where [simp]: "GRANT_SNR_UNKNOWN = 0x20"
definition REPORT :: u16 where [simp]: "REPORT = 0x0001"

record grant_frame =
  gf_kind :: grant_kind
  gf_session :: u8
  gf_count :: u8
  gf_data_floor :: bool
  gf_level :: u8
  gf_fam :: bool
  gf_flag :: bool
  gf_ident :: bool
  gf_measure :: bool
  gf_base :: u8
  gf_bitmap :: u16
  gf_snr_db :: "f64 option"
  gf_slot_floor :: bool
  gf_missed :: u8
  gf_n :: u8

definition grant_new :: "grant_kind \<Rightarrow> u8 \<Rightarrow> grant_frame" where
  "grant_new kind session = \<lparr>gf_kind = kind, gf_session = session, gf_count = 0, gf_data_floor = False,
     gf_level = 0, gf_fam = False, gf_flag = False, gf_ident = False, gf_measure = False, gf_base = 0,
     gf_bitmap = 0, gf_snr_db = None, gf_slot_floor = False, gf_missed = 0, gf_n = 0\<rparr>"

text \<open>\<open>u8::from(bool)\<close>.\<close>

definition u8_of_bool :: "bool \<Rightarrow> u8" where
  "u8_of_bool b = (if b then 1 else 0)"

definition grant_snr_bits :: "f64 option \<Rightarrow> u8" where
  "grant_snr_bits snr_db =
     (case snr_db of None \<Rightarrow> GRANT_SNR_UNKNOWN
      | Some v \<Rightarrow> word_of_int (clamp (round_ties_even v) (-31) 31) AND 0x3F)"

definition grant_encode :: "grant_frame \<Rightarrow> bytes" where
  "grant_encode g =
     [push_bit 6 (grant_to_bits (gf_kind g)) OR push_bit 3 (min (gf_count g) 7)
        OR push_bit 2 (u8_of_bool (gf_data_floor g)) OR (gf_level g AND 0x03),
      push_bit 1 (gf_session g AND 0x7F) OR u8_of_bool (gf_fam g),
      push_bit 7 (u8_of_bool (gf_flag g)) OR push_bit 6 (u8_of_bool (gf_ident g \<or> gf_measure g))
        OR grant_snr_bits (gf_snr_db g),
      gf_base g,
      ucast (drop_bit 8 (gf_bitmap g) AND 0xFF),
      ucast (gf_bitmap g AND 0xFF),
      push_bit 7 (u8_of_bool (gf_slot_floor g)) OR push_bit 4 (min (gf_missed g) MISSED_UNKNOWN)
        OR (min (gf_n g) 7 AND 0x07)]"

definition grant_snr_of_bits :: "u8 \<Rightarrow> f64 option" where
  "grant_snr_of_bits raw =
     (if raw \<noteq> GRANT_SNR_UNKNOWN
      then Some (of_int (if 32 \<le> raw then uint raw - 64 else uint raw)) else None)"

definition closing :: "grant_kind \<Rightarrow> bool" where
  "closing kind = (kind = Disc \<or> kind = DiscAck)"

definition grant_decode :: "bytes \<Rightarrow> frame_error + grant_frame" where
  "grant_decode payload =
     (if length payload < CONTROL_BYTES then Inl TooShort
      else let raw = payload ! 2 AND 0x3F;
               kind = grant_from_bits (drop_bit 6 (payload ! 0));
               b = (payload ! 2 AND 0x40 \<noteq> 0)
        in Inr \<lparr>gf_kind = kind, gf_session = drop_bit 1 (payload ! 1),
             gf_count = drop_bit 3 (payload ! 0) AND 0x07,
             gf_data_floor = (payload ! 0 AND 0x04 \<noteq> 0), gf_level = payload ! 0 AND 0x03,
             gf_fam = (payload ! 1 AND 0x01 \<noteq> 0), gf_flag = (payload ! 2 AND 0x80 \<noteq> 0),
             gf_ident = (b \<and> closing kind), gf_measure = (b \<and> \<not> closing kind),
             gf_base = payload ! 3,
             gf_bitmap = push_bit 8 (ucast (payload ! 4)) OR ucast (payload ! 5),
             gf_snr_db = grant_snr_of_bits raw, gf_slot_floor = (payload ! 6 AND 0x80 \<noteq> 0),
             gf_missed = drop_bit 4 (payload ! 6) AND 0x07, gf_n = payload ! 6 AND 0x07\<rparr>)"

text \<open>What the seven bytes keep of a control frame.\<close>

definition grant_canon :: "grant_frame \<Rightarrow> grant_frame" where
  "grant_canon g = g\<lparr>gf_session := gf_session g AND 0x7F, gf_count := min (gf_count g) 7,
     gf_level := gf_level g AND 0x03,
     gf_ident := (gf_ident g \<or> gf_measure g) \<and> closing (gf_kind g),
     gf_measure := (gf_ident g \<or> gf_measure g) \<and> \<not> closing (gf_kind g),
     gf_snr_db := snr_canon 31 (gf_snr_db g),
     gf_missed := min (gf_missed g) 7, gf_n := min (gf_n g) 7\<rparr>"

subsection \<open>Its round trip, field by field\<close>

lemma bit_u8_of_bool [simp]: "bit (u8_of_bool b) n \<longleftrightarrow> n = 0 \<and> b"
  by (simp add: u8_of_bool_def bit_1_iff)

lemma min7_bits [simp]: "3 \<le> n \<Longrightarrow> \<not> bit (min c 7 :: u8) n"
  using bit_min7 not_le by blast

lemma grant_bits_high [simp]: "2 \<le> n \<Longrightarrow> \<not> bit (grant_to_bits k) n"
  by (rule bit_above [of _ 2]) (cases k; simp)

lemma grant_from_to_bits [simp]: "grant_from_bits (grant_to_bits k) = k"
  by (cases k) (simp_all add: grant_from_bits_def)

lemma grant_snr_high [simp]:
  assumes "6 \<le> n"
  shows "\<not> bit (grant_snr_bits s) n"
proof -
  have "x AND 0x3F \<le> 0x3F" for x :: u8
    by (rule word_and_le1)
  then have "unat (x AND 0x3F) \<le> 63" for x :: u8
    using \<open>\<And>x. x AND 0x3F \<le> 0x3F\<close> [of x] by (simp add: word_le_nat_alt)
  then have "unat (grant_snr_bits s) < 2 ^ 6"
    by (cases s) (simp_all add: grant_snr_bits_def le_imp_less_Suc [where n = 63, simplified])
  with assms show ?thesis
    using bit_above by blast
qed

lemma byte0:
  fixes c l :: u8 and k :: grant_kind and f :: bool
  defines "b \<equiv> push_bit 6 (grant_to_bits k) OR push_bit 3 (min c 7) OR push_bit 2 (u8_of_bool f) OR (l AND 0x03)"
  shows "drop_bit 6 b = grant_to_bits k" and "drop_bit 3 b AND 7 = min c 7"
    and "b AND 4 \<noteq> 0 \<longleftrightarrow> f" and "b AND 3 = l AND 3"
  unfolding b_def by (simp_all add: byte_eq_iff byte_tests bit_simps)

lemma byte1:
  fixes se :: u8 and f :: bool
  defines "b \<equiv> push_bit 1 (se AND 0x7F) OR u8_of_bool f"
  shows "drop_bit 1 b = se AND 0x7F" and "b AND 1 \<noteq> 0 \<longleftrightarrow> f"
  unfolding b_def byte_eq_iff byte_tests bit_simps by (simp_all add: numeral_2_eq_2)

lemma byte2:
  fixes f i :: bool and s :: "f64 option"
  defines "b \<equiv> push_bit 7 (u8_of_bool f) OR push_bit 6 (u8_of_bool i) OR grant_snr_bits s"
  shows "b AND 0x80 \<noteq> 0 \<longleftrightarrow> f" and "b AND 0x40 \<noteq> 0 \<longleftrightarrow> i" and "b AND 0x3F = grant_snr_bits s"
  unfolding b_def by (simp_all add: byte_eq_iff byte_tests bit_simps)

lemma byte6:
  fixes f :: bool and m n :: u8
  defines "b \<equiv> push_bit 7 (u8_of_bool f) OR push_bit 4 (min m 7) OR (min n 7 AND 0x07)"
  shows "b AND 0x80 \<noteq> 0 \<longleftrightarrow> f" and "drop_bit 4 b AND 7 = min m 7" and "b AND 7 = min n 7"
  unfolding b_def by (simp_all add: byte_eq_iff byte_tests bit_simps)

lemma bytes45:
  fixes w :: u16
  shows "push_bit 8 (ucast (ucast (drop_bit 8 w AND 0xFF) :: u8)) OR ucast (ucast (w AND 0xFF) :: u8) = w"
proof -
  have m: "x AND 0xFF = take_bit 8 x" for x :: u16
    by (simp add: take_bit_eq_mask mask_eq_exp_minus_1)
  show ?thesis
    unfolding m by (rule bit_word_eqI) (auto simp: bit_simps)
qed

lemma grant_snr_round: "grant_snr_of_bits (grant_snr_bits s) = snr_canon 31 s"
proof (cases s)
  case (Some v)
  let ?k = "clamp (round_ties_even v) (-31) 31"
  let ?b = "word_of_int ?k AND 0x3F :: u8"
  have k: "-31 \<le> ?k" "?k \<le> 31"
    using clamp_bounds [of "-31" 31 "round_ties_even v"] by simp_all
  have "uint ?b = ?k mod 64"
  proof -
    have "?b = take_bit 6 (word_of_int ?k)"
      by (simp add: take_bit_eq_mask mask_eq_exp_minus_1)
    then have "uint ?b = take_bit 6 (take_bit 8 ?k)"
      by (simp only: unsigned_take_bit_eq unsigned_of_int) simp
    then show ?thesis
      by (simp only: take_bit_take_bit) (simp add: take_bit_eq_mod)
  qed
  moreover have "?k mod 64 = (if ?k < 0 then ?k + 64 else ?k)"
    using k mod_pos_pos_trivial [of "?k + 64" 64] mod_pos_pos_trivial [of ?k 64] by auto
  ultimately have u: "uint ?b = (if ?k < 0 then ?k + 64 else ?k)"
    by simp
  then have "?b \<noteq> 0x20"
    using k by (auto split: if_splits)
  moreover have "32 \<le> ?b \<longleftrightarrow> ?k < 0"
    using u k by (auto simp: word_le_def)
  ultimately show ?thesis
    using Some u by (simp add: grant_snr_bits_def grant_snr_of_bits_def snr_canon_def)
qed (simp add: grant_snr_bits_def grant_snr_of_bits_def snr_canon_def)

lemma grant_decode_encode: "grant_decode (grant_encode g) = Inr (grant_canon g)"
proof -
  define b0 where "b0 = push_bit 6 (grant_to_bits (gf_kind g)) OR push_bit 3 (min (gf_count g) 7)
    OR push_bit 2 (u8_of_bool (gf_data_floor g)) OR (gf_level g AND 0x03)"
  define b1 where "b1 = push_bit 1 (gf_session g AND 0x7F) OR u8_of_bool (gf_fam g)"
  define b2 where "b2 = push_bit 7 (u8_of_bool (gf_flag g))
    OR push_bit 6 (u8_of_bool (gf_ident g \<or> gf_measure g)) OR grant_snr_bits (gf_snr_db g)"
  define b4 where "b4 = (ucast (drop_bit 8 (gf_bitmap g) AND 0xFF) :: u8)"
  define b5 where "b5 = (ucast (gf_bitmap g AND 0xFF) :: u8)"
  define b6 where "b6 = push_bit 7 (u8_of_bool (gf_slot_floor g)) OR push_bit 4 (min (gf_missed g) 7)
    OR (min (gf_n g) 7 AND 0x07)"
  have "grant_encode g = [b0, b1, b2, gf_base g, b4, b5, b6]"
    by (simp only: grant_encode_def b0_def b1_def b2_def b4_def b5_def b6_def MISSED_UNKNOWN_def)
  moreover have "drop_bit 6 b0 = grant_to_bits (gf_kind g)" "drop_bit 3 b0 AND 7 = min (gf_count g) 7"
    "b0 AND 4 \<noteq> 0 \<longleftrightarrow> gf_data_floor g" "b0 AND 3 = gf_level g AND 3"
    unfolding b0_def by (rule byte0)+
  moreover have "drop_bit 1 b1 = gf_session g AND 0x7F" "b1 AND 1 \<noteq> 0 \<longleftrightarrow> gf_fam g"
    unfolding b1_def by (rule byte1)+
  moreover have "b2 AND 0x80 \<noteq> 0 \<longleftrightarrow> gf_flag g" "b2 AND 0x40 \<noteq> 0 \<longleftrightarrow> gf_ident g \<or> gf_measure g"
    "b2 AND 0x3F = grant_snr_bits (gf_snr_db g)"
    unfolding b2_def by (rule byte2)+
  moreover have "push_bit 8 (ucast b4) OR ucast b5 = gf_bitmap g"
    unfolding b4_def b5_def by (rule bytes45)
  moreover have "b6 AND 0x80 \<noteq> 0 \<longleftrightarrow> gf_slot_floor g" "drop_bit 4 b6 AND 7 = min (gf_missed g) 7"
    "b6 AND 7 = min (gf_n g) 7"
    unfolding b6_def by (rule byte6)+
  ultimately show ?thesis
    by (simp add: grant_decode_def grant_canon_def grant_snr_round Let_def)
qed

lemma grant_encode_length: "length (grant_encode g) = CONTROL_BYTES"
  by (simp add: grant_encode_def)

section \<open>Acknowledgements and sequence numbers\<close>

definition seq_after :: "u8 \<Rightarrow> u8 \<Rightarrow> u8" where
  "seq_after seq n = seq + n"

definition seq_distance :: "u8 \<Rightarrow> u8 \<Rightarrow> nat" where
  "seq_distance seq base = unat (seq - base)"

definition in_window :: "u8 \<Rightarrow> u8 \<Rightarrow> nat \<Rightarrow> bool" where
  "in_window seq base width = (seq_distance seq base < width)"

definition reports :: "grant_frame \<Rightarrow> bool" where
  "reports g = (gf_bitmap g AND REPORT \<noteq> 0)"

definition received :: "grant_frame \<Rightarrow> u8 \<Rightarrow> bool" where
  "received g seq =
     (let distance = seq_distance seq (gf_base g)
      in if WINDOW \<le> distance then SEQ_MOD div 2 \<le> distance
         else \<not> reports g \<and> drop_bit distance (gf_bitmap g) AND 1 = 1)"

definition measured :: "grant_frame \<Rightarrow> nat \<Rightarrow> bool" where
  "measured g index =
     (reports g \<and> index < WINDOW - 1 \<and> drop_bit (index + 1) (gf_bitmap g) AND 1 = 1)"

lemma seq_distance_less: "seq_distance seq base < SEQ_MOD"
  using unsigned_less [of "seq - base", where ?'a = nat] by (simp add: seq_distance_def)

lemma seq_distance_self [simp]: "seq_distance s s = 0"
  by (simp add: seq_distance_def)

lemma seq_distance_after [simp]: "seq_distance (seq_after base n) base = unat n"
  by (simp add: seq_distance_def seq_after_def)

lemma seq_after_distance: "seq_after base (of_nat (seq_distance seq base)) = seq"
  by (simp add: seq_distance_def seq_after_def)

lemma seq_distance_inj: "seq_distance a base = seq_distance b base \<Longrightarrow> a = b"
  by (metis seq_after_distance)

lemma reports_bit: "reports g \<longleftrightarrow> bit (gf_bitmap g) 0"
  by (simp add: reports_def and_one_eq odd_iff_mod_2_eq_one bit_0 flip: even_iff_mod_2_eq_zero)

lemma drop_bit_and_1: "drop_bit n w AND 1 = (1 :: 'a::len word) \<longleftrightarrow> bit w n"
  by (simp add: bit_iff_and_drop_bit_eq_1 and.commute)

text \<open>
  What an acknowledgement says: the frames from \<open>base\<close> less half the sequence space up to
  \<open>base\<close> are received, and, in a plain acknowledgement, those whose bit is set.
\<close>

lemma received_iff:
  "received g seq \<longleftrightarrow>
     128 \<le> seq_distance seq (gf_base g) \<or>
     seq_distance seq (gf_base g) < 16 \<and> \<not> reports g \<and> bit (gf_bitmap g) (seq_distance seq (gf_base g))"
  by (auto simp: received_def Let_def drop_bit_and_1)

lemma measured_iff:
  "measured g i \<longleftrightarrow> bit (gf_bitmap g) 0 \<and> i < 15 \<and> bit (gf_bitmap g) (Suc i)"
  by (simp add: measured_def drop_bit_and_1 reports_bit)

text \<open>The base itself is never acknowledged: it is the first frame not received.\<close>

lemma base_not_received: "\<not> received g (gf_base g)"
  by (simp add: received_iff reports_bit)

section \<open>The formats as codecs\<close>

interpretation call: wire_codec pack_callsign unpack_callsign call_canon
  by unfold_locales (simp add: call_canon_def unpack_pack_callsign)

interpretation probe: wire_codec probe_encode probe_decode probe_canon
  by unfold_locales (rule probe_decode_encode)

interpretation conn: wire_codec connect_encode connect_decode connect_canon
  by unfold_locales (rule connect_decode_encode)

interpretation grant: wire_codec "\<lambda>g. Inr (grant_encode g)" grant_decode grant_canon
  by unfold_locales (auto simp: grant_decode_encode)

section \<open>Properties\<close>

text \<open>
  C18: every grant, of any kind and with any fields, becomes seven bytes that decode to it, with
  its SNR in whole decibels and its fields cut to the widths they have on the air.
\<close>

theorem grant_round_trip:
  "length (grant_encode g) = CONTROL_BYTES \<and> grant_decode (grant_encode g) = Inr (grant_canon g)"
  using grant_encode_length grant_decode_encode by blast

text \<open>
  what a grant acknowledges: every frame before its base, and of the sixteen from the base the
  ones its bitmap names; never the base itself, and with the reporting form none past it.
\<close>

theorem grant_acknowledges:
  "received g seq \<longleftrightarrow>
     128 \<le> seq_distance seq (gf_base g) \<or>
     seq_distance seq (gf_base g) \<in> {1..<16} \<and> \<not> reports g \<and> bit (gf_bitmap g) (seq_distance seq (gf_base g))"
proof -
  have "\<not> (seq_distance seq (gf_base g) = 0 \<and> received g seq)"
    using base_not_received [of g] seq_distance_inj [of seq "gf_base g" "gf_base g"] by auto
  then show ?thesis
    using received_iff [of g seq] by force
qed



end
