(* ===== verification/Datagrams.thy ===== *)
theory Datagrams
  imports Control
begin

text \<open>
  Datagrams (\<open>core/aether-link/src/datagram.rs\<close>): another program's frame, split into at most
  sixteen DATA frames and joined again by every station that decodes them all.
\<close>

section \<open>Splitting\<close>

definition MAX_FRAGMENTS :: nat where [simp]: "MAX_FRAGMENTS = 16"
definition PARTIAL_LENGTH :: nat where [simp]: "PARTIAL_LENGTH = 2"
definition FRAME_TYPES :: "u8 list" where [simp]: "FRAME_TYPES = [0, 1, 2]"
definition HEADER_BYTES :: nat where [simp]: "HEADER_BYTES = CALL_BYTES + 1"

datatype datagram_error = Empty | BadNumber | NoRoom | TooLong nat | BadType u8 | BadCall | Frame frame_error

definition max_payload :: "nat \<Rightarrow> nat" where
  "max_payload capacity = MAX_FRAGMENTS * (capacity - DATA_HEADER)"

text \<open>The loop that takes full frames off the front; with \<open>full = 0\<close> it is never entered.\<close>

function full_frames :: "nat \<Rightarrow> bytes \<Rightarrow> bytes list \<times> bytes" where
  "full_frames full rest =
     (if 0 < full \<and> full < length rest
      then let (ps, final) = full_frames full (drop full rest) in (take full rest # ps, final)
      else ([], rest))"
  by pat_completeness auto
termination
  by (relation "measure (\<lambda>(full, rest). length rest)") auto

declare full_frames.simps [simp del]

definition split :: "bytes \<Rightarrow> nat \<Rightarrow> datagram_error + bytes list" where
  "split payload capacity =
     (let full = capacity - DATA_HEADER
      in if full \<le> PARTIAL_LENGTH then Inl NoRoom
         else let (ps, rest) = full_frames full payload
           in if length rest = full - 1
              then Inr (ps @ [take (full - PARTIAL_LENGTH) rest, drop (full - PARTIAL_LENGTH) rest])
              else Inr (ps @ [rest]))"

definition fragment_header :: "u8 \<Rightarrow> u8 \<Rightarrow> u8 \<Rightarrow> data_header" where
  "fragment_header number final index =
     \<lparr>dh_kind = Datagram, dh_seq = push_bit 4 index OR final, dh_session = number, dh_piece = None\<rparr>"

text \<open>Where the number of pieces is at most sixteen, the conversions to \<open>u8\<close> never fail.\<close>

definition fragments :: "bytes \<Rightarrow> u8 \<Rightarrow> nat \<Rightarrow> datagram_error + bytes list" where
  "fragments payload number capacity =
     (if number = 0 then Inl BadNumber
      else if payload = [] then Inl Empty
      else and_then (split payload capacity) (\<lambda>pieces.
        if MAX_FRAGMENTS < length pieces then Inl (TooLong (max_payload capacity))
        else let final = of_nat (length pieces - 1)
          in collect (map (\<lambda>(index, piece).
               map_err Frame (encode_data (fragment_header number final (of_nat index)) piece capacity))
               (enumerate 0 pieces))))"

record fragment =
  fr_number :: u8
  fr_index :: u8
  fr_last :: u8
  fr_body :: bytes

definition read_fragment :: "bytes \<Rightarrow> fragment option" where
  "read_fragment payload =
     (case decode_data payload of
        Inl _ \<Rightarrow> None
      | Inr (header, body) \<Rightarrow>
          if dh_kind header \<noteq> Datagram \<or> dh_session header = 0 then None
          else let index = drop_bit 4 (dh_seq header); final = dh_seq header AND 0x0F
            in if final < index then None
               else Some \<lparr>fr_number = dh_session header, fr_index = index, fr_last = final, fr_body = body\<rparr>)"

section \<open>What a datagram carries\<close>

definition dg_body :: "string \<Rightarrow> u8 \<Rightarrow> bytes \<Rightarrow> datagram_error + bytes" where
  "dg_body source frame_type frame =
     (if frame_type \<notin> set FRAME_TYPES then Inl (BadType frame_type)
      else case pack_callsign source of
             Inl _ \<Rightarrow> Inl BadCall
           | Inr call \<Rightarrow> Inr (call @ [frame_type] @ frame))"

definition parse_body :: "bytes \<Rightarrow> (string \<times> u8 \<times> bytes) option" where
  "parse_body payload =
     (if length payload \<le> HEADER_BYTES \<or> payload ! CALL_BYTES \<notin> set FRAME_TYPES then None
      else case unpack_callsign (take CALL_BYTES payload) of
             Inl _ \<Rightarrow> None
           | Inr source \<Rightarrow> if source = [] then None
               else Some (source, payload ! CALL_BYTES, drop HEADER_BYTES payload))"

lemma parse_dg_body:
  assumes "dg_body source frame_type frame = Inr payload" and "frame \<noteq> []" and "call_canon source \<noteq> []"
  shows "parse_body payload = Some (call_canon source, frame_type, frame)"
proof -
  from assms(1) obtain call where call: "pack_callsign source = Inr call" and
    p: "payload = call @ frame_type # frame" and t: "frame_type \<in> set FRAME_TYPES"
    by (auto simp: dg_body_def split: if_splits sum.splits)
  have "length call = 7"
    using call by (auto dest: pack_callsign_length)
  with p t assms(2,3) call.dec_enc [OF call] show ?thesis
    by (simp add: parse_body_def nth_append)
qed

section \<open>Joining\<close>

record partial =
  pt_last :: u8
  pt_pieces :: "bytes option list"
  pt_first_s :: f64

record reassembler =
  ra_timeout_s :: f64
  ra_keep :: nat
  ra_waiting :: "((u8 \<times> u8) \<times> partial) list"
  ra_dropped :: nat

definition reassembler_new :: "f64 \<Rightarrow> nat \<Rightarrow> reassembler" where
  "reassembler_new timeout_s keep =
     \<lparr>ra_timeout_s = timeout_s, ra_keep = max keep 1, ra_waiting = [], ra_dropped = 0\<rparr>"

definition reassembler_default :: reassembler where
  "reassembler_default = reassembler_new 120 8"

definition expire :: "f64 \<Rightarrow> reassembler \<Rightarrow> reassembler" where
  "expire now_s r =
     (let kept = filter (\<lambda>(_, p). now_s - pt_first_s p \<le> ra_timeout_s r) (ra_waiting r)
      in r\<lparr>ra_waiting := kept, ra_dropped := ra_dropped r + (length (ra_waiting r) - length kept)\<rparr>)"

text \<open>\<open>Iterator::min_by\<close> on the time of the first piece: the first of the earliest.\<close>

fun oldest_from :: "nat \<Rightarrow> nat \<Rightarrow> f64 \<Rightarrow> ((u8 \<times> u8) \<times> partial) list \<Rightarrow> nat" where
  "oldest_from i best t [] = best"
| "oldest_from i best t ((_, p) # ws) =
     (if pt_first_s p < t then oldest_from (Suc i) i (pt_first_s p) ws else oldest_from (Suc i) best t ws)"

definition oldest :: "((u8 \<times> u8) \<times> partial) list \<Rightarrow> nat" where
  "oldest ws = (case ws of [] \<Rightarrow> 0 | (_, p) # rest \<Rightarrow> oldest_from 1 0 (pt_first_s p) rest)"

text \<open>\<open>Vec::remove\<close>.\<close>

definition remove_at :: "nat \<Rightarrow> 'a list \<Rightarrow> 'a list" where
  "remove_at i xs = take i xs @ drop (Suc i) xs"

definition make_room :: "reassembler \<Rightarrow> reassembler" where
  "make_room r =
     (if ra_keep r \<le> length (ra_waiting r)
      then r\<lparr>ra_waiting := remove_at (oldest (ra_waiting r)) (ra_waiting r), ra_dropped := Suc (ra_dropped r)\<rparr>
      else r)"

definition fresh_partial :: "u8 \<Rightarrow> f64 \<Rightarrow> partial" where
  "fresh_partial final now_s =
     \<lparr>pt_last = final, pt_pieces = replicate (unat final + 1) None, pt_first_s = now_s\<rparr>"

text \<open>A piece seen twice counts once.\<close>

definition fill_piece :: "bytes option list \<Rightarrow> nat \<Rightarrow> bytes \<Rightarrow> bytes option list" where
  "fill_piece ps i body = (if ps ! i = None then ps[i := Some body] else ps)"

lemma length_fill_piece [simp]: "length (fill_piece ps i body) = length ps"
  by (simp add: fill_piece_def)

text \<open>
  \<open>add\<close>: \<open>None\<close> is the panic of indexing past the pieces, which a fragment from
  \<open>read_fragment\<close> never causes; otherwise the new state and the datagram this piece completes.
\<close>

definition add_fragment :: "fragment \<Rightarrow> f64 \<Rightarrow> reassembler \<Rightarrow> (reassembler \<times> bytes option) option" where
  "add_fragment f now_s r =
     (let r = expire now_s r;
          key = (fr_number f, fr_last f);
          (r, at') = (case position (\<lambda>(k, _). k = key) (ra_waiting r) of
             Some i \<Rightarrow> (r, i)
           | None \<Rightarrow> (let r = make_room r;
                          r = r\<lparr>ra_waiting := ra_waiting r @ [(key, fresh_partial (fr_last f) now_s)]\<rparr>
                      in (r, length (ra_waiting r) - 1)));
          p = snd (ra_waiting r ! at');
          i = unat (fr_index f)
      in if length (pt_pieces p) \<le> i then None
         else let ps = fill_piece (pt_pieces p) i (fr_body f)
           in if None \<in> set ps
              then Some (r\<lparr>ra_waiting := (ra_waiting r)[at' := (key, p\<lparr>pt_pieces := ps\<rparr>)]\<rparr>, None)
              else Some (r\<lparr>ra_waiting := remove_at at' (ra_waiting r)\<rparr>, Some (concat (map the ps))))"

section \<open>What splitting gives\<close>

lemma full_frames_spec:
  assumes "0 < full" and "full_frames full rest = (ps, final)"
  shows "concat ps @ final = rest \<and> list_all (\<lambda>p. length p = full) ps \<and> length final \<le> full \<and>
    (rest \<noteq> [] \<longrightarrow> final \<noteq> [] \<and> length ps = (length rest - 1) div full)"
  using assms
proof (induction full rest arbitrary: ps rule: full_frames.induct)
  case (1 full rest)
  show ?case
  proof (cases "full < length rest")
    case True
    with "1.prems" obtain qs where qs: "full_frames full (drop full rest) = (qs, final)" and
      ps: "ps = take full rest # qs"
      by (subst (asm) (2) full_frames.simps) (auto split: prod.splits)
    have IH: "concat qs @ final = drop full rest" "list_all (\<lambda>p. length p = full) qs" "length final \<le> full"
      "final \<noteq> []" "length qs = (length rest - full - 1) div full"
      using "1.IH" [OF _ _ qs] "1.prems"(1) True by auto
    have "(length rest - 1) div full = (length rest - full - 1 + full) div full"
      using True by (intro arg_cong [where f = "\<lambda>n. n div full"]) simp
    also have "\<dots> = Suc (length qs)"
      using "1.prems"(1) IH(5) by (simp only: div_add_self2)
    finally have "length ps = (length rest - 1) div full"
      by (simp add: ps)
    moreover have "concat ps @ final = rest"
      using IH(1) append_take_drop_id [of full rest] by (simp only: ps concat.simps append_assoc)
    ultimately show ?thesis
      using IH(2-4) True by (simp add: ps)
  next
    case False
    then have "ps = []" "final = rest"
      using "1.prems"(2) by (auto simp: full_frames.simps [of full rest])
    with False "1.prems"(1) show ?thesis
      by (cases rest) auto
  qed
qed

text \<open>The pieces of a payload of \<open>n\<close> bytes in frames of \<open>full\<close> bytes.\<close>

definition piece_count :: "nat \<Rightarrow> nat \<Rightarrow> nat" where
  "piece_count n full = (n - 1) div full + (if n mod full = full - 1 then 2 else 1)"

lemma split_spec:
  assumes "split payload capacity = Inr ps" and "payload \<noteq> []"
  shows "concat ps = payload \<and> 5 < capacity \<and> length ps = piece_count (length payload) (capacity - 3) \<and>
    list_all (\<lambda>p. length p = capacity - 3 \<or> length p + 2 \<le> capacity - 3) ps"
proof -
  define full where "full = capacity - 3"
  obtain qs rest where f: "full_frames full payload = (qs, rest)"
    by fastforce
  have cap: "2 < full"
    using assms(1) by (auto simp: split_def Let_def full_def split: if_splits)
  then have spec: "concat qs @ rest = payload" "list_all (\<lambda>p. length p = full) qs" "length rest \<le> full"
    "rest \<noteq> []" "length qs = (length payload - 1) div full"
    using full_frames_spec [OF _ f] assms(2) by auto
  have "length (concat qs) = length qs * full"
    using spec(2) by (induction qs) auto
  then have n: "length payload = length qs * full + length rest"
    using spec(1) by (metis length_append)
  have m: "length payload mod full = full - 1 \<longleftrightarrow> length rest = full - 1"
  proof (cases "length rest = full")
    case True
    then have "length payload mod full = 0"
      by (simp add: n)
    with True cap show ?thesis
      by simp
  qed (use n spec(3) in auto)
  have "ps = (if length rest = full - 1 then qs @ [take (full - 2) rest, drop (full - 2) rest] else qs @ [rest])"
    using assms(1) f cap by (auto simp: split_def Let_def full_def split: if_splits)
  with cap spec m show ?thesis
    unfolding full_def [symmetric] piece_count_def
    by (auto simp: list_all_iff full_def)
qed

lemma split_total: "5 < capacity \<Longrightarrow> \<exists>ps. split payload capacity = Inr ps"
  by (auto simp: split_def Let_def split: prod.splits)

text \<open>
  Sixteen pieces carry \<open>max_payload\<close> bytes and every shorter payload but one: a byte less than
  the maximum needs a seventeenth, since its last piece is one byte short of full.
\<close>

lemma piece_count_max:
  assumes "3 \<le> full" and "0 < n"
  shows "piece_count n full \<le> 16 \<longleftrightarrow> n \<le> 16 * full \<and> n \<noteq> 16 * full - 1"
proof -
  define q r where "q = (n - 1) div full" and "r = (n - 1) mod full"
  have n: "n = q * full + r + 1" and r: "r < full"
    using assms by (auto simp: q_def r_def)
  have m: "n mod full = full - 1 \<longleftrightarrow> r + 2 = full"
  proof (cases "r + 1 = full")
    case True
    then have "n = (q + 1) * full"
      by (simp add: n)
    with True assms(1) show ?thesis
      by simp
  next
    case False
    with r have "n mod full = r + 1"
      by (simp add: n)
    with assms(1) show ?thesis
      by auto
  qed
  have "q \<le> 15 \<longleftrightarrow> n \<le> 16 * full"
  proof
    assume "q \<le> 15"
    then have "q * full \<le> 15 * full"
      by (rule mult_le_mono1)
    with n r show "n \<le> 16 * full"
      by linarith
  next
    assume "n \<le> 16 * full"
    then have "q * full < 16 * full"
      using n by linarith
    then have "q < 16"
      by (simp only: mult_less_cancel2)
    then show "q \<le> 15"
      by simp
  qed
  moreover have "r + 2 = full \<Longrightarrow> q = 15 \<longleftrightarrow> n = 16 * full - 1"
  proof -
    assume "r + 2 = full"
    with n assms(1) have "n = 16 * full - 1 \<longleftrightarrow> q * full = 15 * full"
      by linarith
    with assms(1) show ?thesis
      by (simp only: mult_cancel2) auto
  qed
  moreover have "n = 16 * full - 1 \<Longrightarrow> r + 2 = full"
  proof -
    assume "n = 16 * full - 1"
    then have "q * full + (r + 2) = 16 * full"
      using n assms(1) by simp
    then have "(r + 2) mod full = 0"
      by (metis mod_mult_self2_is_0 mod_mult_self3)
    moreover have "(full + 1) mod full = 1"
      using assms(1) by (simp only: mod_add_self1) simp
    then have "(full + 1) mod full \<noteq> 0"
      by simp
    ultimately have "r + 2 \<noteq> full + 1" "\<not> r + 2 < full"
      by (metis, metis add_is_0 mod_less zero_neq_numeral)
    with r show "r + 2 = full"
      by simp
  qed
  ultimately show ?thesis
    unfolding piece_count_def q_def [symmetric] m by auto
qed

section \<open>The fragments on the air, and read back\<close>

interpretation frag: wire_codec
  "\<lambda>(index, piece). map_err Frame (encode_data (fragment_header number final (of_nat index)) piece capacity)"
  decode_data "\<lambda>(index, piece). (fragment_header number final (of_nat index), piece)"
  for number final capacity
  by unfold_locales (auto dest: decode_encode_data)

lemma nibbles:
  assumes "i \<le> n" and "n < 16"
  shows "drop_bit 4 (push_bit 4 (of_nat i) OR of_nat n :: u8) = of_nat i"
    and "(push_bit 4 (of_nat i) OR of_nat n :: u8) AND 0x0F = of_nat n"
proof -
  have "\<not> bit (of_nat k :: u8) m" if "k < 16" "4 \<le> m" for k m
    using bit_above [of "of_nat k :: u8" 4 m] that by (simp add: unat_of_nat)
  then have "4 \<le> m \<Longrightarrow> \<not> bit (of_nat i :: u8) m" "4 \<le> m \<Longrightarrow> \<not> bit (of_nat n :: u8) m" for m
    using assms by auto
  then show "drop_bit 4 (push_bit 4 (of_nat i) OR of_nat n :: u8) = of_nat i"
    "(push_bit 4 (of_nat i) OR of_nat n :: u8) AND 0x0F = of_nat n"
    unfolding byte_eq_iff by (simp_all add: bit_simps)
qed

definition last_index :: "bytes list \<Rightarrow> u8" where
  "last_index ps = of_nat (length ps - 1)"

definition nth_fragment :: "u8 \<Rightarrow> bytes list \<Rightarrow> nat \<Rightarrow> fragment" where
  "nth_fragment number ps i =
     \<lparr>fr_number = number, fr_index = of_nat i, fr_last = last_index ps, fr_body = ps ! i\<rparr>"

lemma of_nat_le_u8: "i \<le> n \<Longrightarrow> n < 256 \<Longrightarrow> (of_nat i :: u8) \<le> of_nat n"
  by (simp add: word_le_nat_alt unat_of_nat)

lemma read_fragment_header:
  assumes "i \<le> n" and "n < 16" and "number \<noteq> 0"
    and "decode_data frame = Inr (fragment_header number (of_nat n) (of_nat i), b)"
  shows "read_fragment frame =
    Some \<lparr>fr_number = number, fr_index = of_nat i, fr_last = of_nat n, fr_body = b\<rparr>"
proof -
  define si sn :: u8 where "si = of_nat i" and "sn = of_nat n"
  have "drop_bit 4 (push_bit 4 si OR sn) = si" "(push_bit 4 si OR sn) AND 0x0F = sn" "\<not> sn < si"
    using nibbles [OF assms(1,2)] of_nat_le_u8 [of i n] assms(1,2) by (auto simp: si_def sn_def not_less)
  with assms(3,4) show ?thesis
    unfolding si_def [symmetric] sn_def [symmetric]
    by (simp add: read_fragment_def fragment_header_def Let_def)
qed

lemma read_fragments:
  assumes "fragments payload number capacity = Inr frames"
  shows "\<exists>ps. split payload capacity = Inr ps \<and> 0 < length ps \<and> length ps \<le> 16 \<and>
    concat ps = payload \<and> map read_fragment frames = map (\<lambda>i. Some (nth_fragment number ps i)) [0..<length ps]"
proof -
  from assms obtain ps where ps: "split payload capacity = Inr ps" "length ps \<le> 16" and
    n: "number \<noteq> 0" "payload \<noteq> []" and
    enc: "collect (map (\<lambda>(index, piece).
       map_err Frame (encode_data (fragment_header number (of_nat (length ps - 1)) (of_nat index)) piece capacity))
       (enumerate 0 ps)) = Inr frames"
    by (auto simp: fragments_def Let_def split: if_splits)
  have spec: "concat ps = payload" "0 < length ps"
    using split_spec [OF ps(1) n(2)] by (auto simp: piece_count_def)
  have "map decode_data frames = map (\<lambda>(i, p).
      Inr (fragment_header number (of_nat (length ps - 1)) (of_nat i), p)) (enumerate 0 ps)"
    using frag.dec_all [OF enc] by (simp add: case_prod_beta')
  then have "map decode_data frames = map (\<lambda>i.
      Inr (fragment_header number (of_nat (length ps - 1)) (of_nat i), ps ! i)) [0..<length ps]"
    by (simp add: map_enumerate)
  then have "map read_fragment frames = map (\<lambda>i. Some (nth_fragment number ps i)) [0..<length ps]"
  proof (rule map_eq_transfer)
    fix frame i
    assume i: "i \<in> set [0..<length ps]" and
      d: "decode_data frame = Inr (fragment_header number (of_nat (length ps - 1)) (of_nat i), ps ! i)"
    have "i \<le> length ps - 1" "length ps - 1 < 16"
      using i ps(2) by auto
    then show "read_fragment frame = Some (nth_fragment number ps i)"
      unfolding nth_fragment_def last_index_def using n(1) d by (rule read_fragment_header)
  qed
  with ps spec show ?thesis
    by blast
qed

section \<open>The reassembler\<close>

subsection \<open>Its invariant\<close>

text \<open>
  At most \<open>keep\<close> datagrams wait, one per key, each with a place for every piece its key says
  there are.
\<close>

definition entry_ok :: "(u8 \<times> u8) \<times> partial \<Rightarrow> bool" where
  "entry_ok w \<longleftrightarrow> pt_last (snd w) = snd (fst w) \<and> length (pt_pieces (snd w)) = unat (snd (fst w)) + 1"

definition waiting_ok :: "((u8 \<times> u8) \<times> partial) list \<Rightarrow> bool" where
  "waiting_ok ws \<longleftrightarrow> distinct (map fst ws) \<and> (\<forall>w\<in>set ws. entry_ok w)"

definition ra_inv :: "reassembler \<Rightarrow> bool" where
  "ra_inv r \<longleftrightarrow> 1 \<le> ra_keep r \<and> length (ra_waiting r) \<le> ra_keep r \<and> waiting_ok (ra_waiting r)"

lemma ra_inv_new: "ra_inv (reassembler_new timeout keep)"
  by (simp add: ra_inv_def waiting_ok_def reassembler_new_def)

lemma set_remove_at: "set (remove_at i xs) \<subseteq> set xs"
  by (auto simp: remove_at_def dest: in_set_takeD in_set_dropD)

lemma length_remove_at: "i < length xs \<Longrightarrow> length (remove_at i xs) = length xs - 1"
  by (simp add: remove_at_def)

lemma waiting_ok_remove_at: "waiting_ok ws \<Longrightarrow> waiting_ok (remove_at i ws)"
proof (cases "i < length ws")
  case True
  assume "waiting_ok ws"
  with id_take_nth_drop [OF True] have "waiting_ok (take i ws @ ws ! i # drop (Suc i) ws)"
    by simp
  then show ?thesis
    by (simp add: waiting_ok_def remove_at_def ball_Un)
qed (simp add: remove_at_def)

lemma waiting_ok_filter: "waiting_ok ws \<Longrightarrow> waiting_ok (filter P ws)"
  by (simp add: waiting_ok_def distinct_map_filter)

lemma waiting_ok_snoc: "waiting_ok ws \<Longrightarrow> fst w \<notin> fst ` set ws \<Longrightarrow> entry_ok w \<Longrightarrow> waiting_ok (ws @ [w])"
  by (simp add: waiting_ok_def)

lemma waiting_ok_update:
  assumes "waiting_ok ws" and "i < length ws" and "fst w = fst (ws ! i)" and "entry_ok w"
  shows "waiting_ok (ws[i := w])"
proof -
  have "map fst (ws[i := w]) = map fst ws"
    using assms(2,3) by (simp add: map_update list_update_same_conv)
  with assms(1,4) show ?thesis
    using set_update_subset_insert [of ws i w] by (auto simp: waiting_ok_def)
qed

lemma oldest_from_less: "best < i + length ws \<Longrightarrow> oldest_from i best t ws < i + length ws"
  by (induction i best t ws rule: oldest_from.induct) auto

lemma oldest_less: "ws \<noteq> [] \<Longrightarrow> oldest ws < length ws"
  using oldest_from_less [of 0 1 "tl ws"] by (cases ws) (auto simp: oldest_def)

lemma ra_inv_expire: "ra_inv r \<Longrightarrow> ra_inv (expire now r)"
  by (auto simp: ra_inv_def expire_def Let_def waiting_ok_filter intro: order_trans [OF length_filter_le])

lemma ra_inv_make_room:
  assumes "ra_inv r"
  shows "ra_inv (make_room r) \<and> length (ra_waiting (make_room r)) < ra_keep (make_room r)"
proof (cases "ra_keep r \<le> length (ra_waiting r)")
  case True
  then have "ra_waiting r \<noteq> []"
    using assms by (auto simp: ra_inv_def)
  then have "length (remove_at (oldest (ra_waiting r)) (ra_waiting r)) < length (ra_waiting r)"
    using length_remove_at [OF oldest_less] by simp
  with True assms show ?thesis
    by (auto simp: ra_inv_def make_room_def waiting_ok_remove_at)
next
  case False
  with assms show ?thesis
    by (simp add: make_room_def)
qed

lemma make_room_keys: "key \<notin> fst ` set (ra_waiting r) \<Longrightarrow> key \<notin> fst ` set (ra_waiting (make_room r))"
  using set_remove_at [of "oldest (ra_waiting r)" "ra_waiting r"] by (auto simp: make_room_def)

text \<open>The entry a fragment goes to, and the state it is in.\<close>

definition place_for :: "fragment \<Rightarrow> f64 \<Rightarrow> reassembler \<Rightarrow> reassembler \<times> nat" where
  "place_for f now_s r =
     (let key = (fr_number f, fr_last f)
      in case position (\<lambda>(k, _). k = key) (ra_waiting r) of
           Some i \<Rightarrow> (r, i)
         | None \<Rightarrow> (let r = make_room r;
                        r = r\<lparr>ra_waiting := ra_waiting r @ [(key, fresh_partial (fr_last f) now_s)]\<rparr>
                    in (r, length (ra_waiting r) - 1)))"

definition file_piece :: "fragment \<Rightarrow> reassembler \<times> nat \<Rightarrow> (reassembler \<times> bytes option) option" where
  "file_piece f = (\<lambda>(r, at').
     (let key = (fr_number f, fr_last f); p = snd (ra_waiting r ! at'); i = unat (fr_index f)
      in if length (pt_pieces p) \<le> i then None
         else let ps = fill_piece (pt_pieces p) i (fr_body f)
           in if None \<in> set ps
              then Some (r\<lparr>ra_waiting := (ra_waiting r)[at' := (key, p\<lparr>pt_pieces := ps\<rparr>)]\<rparr>, None)
              else Some (r\<lparr>ra_waiting := remove_at at' (ra_waiting r)\<rparr>, Some (concat (map the ps)))))"

lemma add_fragment_steps: "add_fragment f now r = file_piece f (place_for f now (expire now r))"
  by (simp add: add_fragment_def place_for_def file_piece_def Let_def split: prod.splits option.splits)

lemma place_for_inv:
  assumes "ra_inv r" and "place_for f now r = (r', i)"
  shows "ra_inv r'" and "i < length (ra_waiting r')" and "fst (ra_waiting r' ! i) = (fr_number f, fr_last f)"
proof -
  let ?key = "(fr_number f, fr_last f)"
  have "ra_inv r' \<and> i < length (ra_waiting r') \<and> fst (ra_waiting r' ! i) = ?key"
  proof (cases "position (\<lambda>(k, _). k = ?key) (ra_waiting r)")
    case None
    then have new: "?key \<notin> fst ` set (ra_waiting r)"
      by (force simp: position_None_iff)
    have "entry_ok (?key, fresh_partial (fr_last f) now)"
      by (simp add: entry_ok_def fresh_partial_def)
    with assms None ra_inv_make_room [OF assms(1)] make_room_keys [OF new] show ?thesis
      by (auto simp: place_for_def Let_def ra_inv_def waiting_ok_snoc nth_append)
  next
    case (Some j)
    then show ?thesis
      using assms position_SomeD [OF Some] by (auto simp: place_for_def Let_def split: prod.splits)
  qed
  then show "ra_inv r'" "i < length (ra_waiting r')" "fst (ra_waiting r' ! i) = ?key"
    by auto
qed

lemma file_piece_inv:
  assumes "ra_inv r" and "i < length (ra_waiting r)" and "fst (ra_waiting r ! i) = (fr_number f, fr_last f)"
    and "fr_index f \<le> fr_last f"
  shows "\<exists>r' out. file_piece f (r, i) = Some (r', out) \<and> ra_inv r'"
proof -
  obtain p where p: "ra_waiting r ! i = ((fr_number f, fr_last f), p)"
    using assms(3) by (cases "ra_waiting r ! i") auto
  then have "((fr_number f, fr_last f), p) \<in> set (ra_waiting r)"
    using assms(2) nth_mem by metis
  with assms(1) have p': "pt_last p = fr_last f" "length (pt_pieces p) = unat (fr_last f) + 1"
    by (auto simp: ra_inv_def waiting_ok_def entry_ok_def)
  have idx: "\<not> length (pt_pieces p) \<le> unat (fr_index f)"
    using assms(4) p'(2) by (simp add: word_le_nat_alt)
  have upd: "waiting_ok ((ra_waiting r)[i := ((fr_number f, fr_last f), p\<lparr>pt_pieces := ps\<rparr>)])"
    if "length ps = length (pt_pieces p)" for ps
    using assms(1,2) p p' that by (intro waiting_ok_update) (auto simp: ra_inv_def entry_ok_def)
  show ?thesis
    using assms(1,2) p idx upd [of "fill_piece (pt_pieces p) (unat (fr_index f)) (fr_body f)"]
    by (auto simp: file_piece_def Let_def ra_inv_def length_remove_at waiting_ok_remove_at)
qed

lemma add_fragment_inv:
  assumes "ra_inv r" and "fr_index f \<le> fr_last f"
  shows "\<exists>r' out. add_fragment f now r = Some (r', out) \<and> ra_inv r'"
proof -
  obtain r1 i where r1: "place_for f now (expire now r) = (r1, i)"
    by fastforce
  show ?thesis
    using file_piece_inv [OF place_for_inv [OF ra_inv_expire [OF assms(1)] r1] assms(2)]
    by (simp add: add_fragment_steps r1)
qed

lemma read_fragment_index: "read_fragment payload = Some f \<Longrightarrow> fr_index f \<le> fr_last f"
  by (auto simp: read_fragment_def Let_def not_less split: sum.splits if_splits)

subsection \<open>Joining gives back what was split\<close>

text \<open>Feeding a reassembler: the state at the end, and the datagrams completed on the way.\<close>

fun add_all :: "(fragment \<times> f64) list \<Rightarrow> reassembler \<Rightarrow> (reassembler \<times> bytes list) option" where
  "add_all [] r = Some (r, [])"
| "add_all ((f, t) # fs) r =
     (case add_fragment f t r of
        None \<Rightarrow> None
      | Some (r', out) \<Rightarrow>
          (case add_all fs r' of
             None \<Rightarrow> None
           | Some (r'', outs) \<Rightarrow> Some (r'', (case out of None \<Rightarrow> outs | Some b \<Rightarrow> b # outs))))"

definition holding :: "reassembler \<Rightarrow> u8 \<times> u8 \<Rightarrow> partial \<Rightarrow> bool" where
  "holding r key p \<longleftrightarrow>
     (\<exists>ws1 ws2. ra_waiting r = ws1 @ (key, p) # ws2 \<and> key \<notin> fst ` set (ws1 @ ws2))"

definition have_pieces :: "bytes list \<Rightarrow> nat set \<Rightarrow> bytes option list" where
  "have_pieces ps S = map (\<lambda>j. if j \<in> S then Some (ps ! j) else None) [0..<length ps]"

lemma have_pieces_insert:
  assumes "i < length ps"
  shows "fill_piece (have_pieces ps S) i (ps ! i) = have_pieces ps (insert i S)"
proof (rule nth_equalityI)
  fix j
  assume "j < length (fill_piece (have_pieces ps S) i (ps ! i))"
  then show "fill_piece (have_pieces ps S) i (ps ! i) ! j = have_pieces ps (insert i S) ! j"
    using assms by (cases "i \<in> S"; cases "j = i") (simp_all add: have_pieces_def fill_piece_def)
qed (simp add: have_pieces_def)

lemma have_pieces_None: "None \<in> set (have_pieces ps S) \<longleftrightarrow> \<not> {..<length ps} \<subseteq> S"
proof -
  have "None \<in> set (have_pieces ps S) \<longleftrightarrow> (\<exists>j<length ps. j \<notin> S)"
    by (auto simp: have_pieces_def image_iff split: if_splits)
  then show ?thesis
    by blast
qed

lemma have_pieces_all:
  assumes "{..<length ps} \<subseteq> S"
  shows "map the (have_pieces ps S) = ps"
proof (rule nth_equalityI)
  fix j
  assume "j < length (map the (have_pieces ps S))"
  then show "map the (have_pieces ps S) ! j = ps ! j"
    using assms by (auto simp: have_pieces_def)
qed (simp add: have_pieces_def)

lemma holding_expire:
  assumes "holding r key p" and "now - pt_first_s p \<le> ra_timeout_s r"
  shows "holding (expire now r) key p"
proof -
  from assms(1) obtain ws1 ws2 where "ra_waiting r = ws1 @ (key, p) # ws2" "key \<notin> fst ` set (ws1 @ ws2)"
    by (auto simp: holding_def)
  with assms(2) show ?thesis
    unfolding holding_def expire_def Let_def
    by (intro exI [of _ "filter (\<lambda>(_, p). now - pt_first_s p \<le> ra_timeout_s r) ws1"]
        exI [of _ "filter (\<lambda>(_, p). now - pt_first_s p \<le> ra_timeout_s r) ws2"]) auto
qed

lemma expire_timeout [simp]: "ra_timeout_s (expire now r) = ra_timeout_s r"
  by (simp add: expire_def Let_def)

text \<open>One piece of a datagram already begun.\<close>

lemma file_held:
  assumes "ra_waiting r = ws1 @ (key, p) # ws2" and "key \<notin> fst ` set (ws1 @ ws2)"
    and "key = (fr_number f, fr_last f)" and "pt_pieces p = have_pieces ps S"
    and "unat (fr_index f) < length ps" and "fr_body f = ps ! unat (fr_index f)"
  shows "file_piece f (r, length ws1) =
    (let S' = insert (unat (fr_index f)) S
     in if {..<length ps} \<subseteq> S'
        then Some (r\<lparr>ra_waiting := ws1 @ ws2\<rparr>, Some (concat ps))
        else Some (r\<lparr>ra_waiting := ws1 @ (key, p\<lparr>pt_pieces := have_pieces ps S'\<rparr>) # ws2\<rparr>, None))"
proof -
  have "ra_waiting r ! length ws1 = (key, p)"
    "remove_at (length ws1) (ra_waiting r) = ws1 @ ws2"
    "(ra_waiting r)[length ws1 := x] = ws1 @ x # ws2" for x
    by (simp_all add: assms(1) remove_at_def)
  moreover have "length (have_pieces ps S) = length ps"
    by (simp add: have_pieces_def)
  moreover note have_pieces_insert [OF assms(5), of S]
  ultimately show ?thesis
    using assms(3-6) have_pieces_all [of ps] by (simp add: file_piece_def Let_def have_pieces_None)
qed

lemma add_held:
  assumes "holding r (fr_number f, fr_last f) p" and "now - pt_first_s p \<le> ra_timeout_s r"
    and "pt_pieces p = have_pieces ps S" and "unat (fr_index f) < length ps"
    and "fr_body f = ps ! unat (fr_index f)"
  shows "\<exists>r'. ra_timeout_s r' = ra_timeout_s r \<and>
    (let S' = insert (unat (fr_index f)) S
     in if {..<length ps} \<subseteq> S'
        then add_fragment f now r = Some (r', Some (concat ps)) \<and>
          (fr_number f, fr_last f) \<notin> fst ` set (ra_waiting r')
        else add_fragment f now r = Some (r', None) \<and>
          holding r' (fr_number f, fr_last f) (p\<lparr>pt_pieces := have_pieces ps S'\<rparr>))"
proof -
  let ?key = "(fr_number f, fr_last f)"
  from holding_expire [OF assms(1,2)] obtain ws1 ws2 where
    ws: "ra_waiting (expire now r) = ws1 @ (?key, p) # ws2" "?key \<notin> fst ` set (ws1 @ ws2)"
    by (auto simp: holding_def)
  have "position (\<lambda>(k, _). k = ?key) (ra_waiting (expire now r)) = Some (length ws1)"
    unfolding ws(1) by (rule position_append) (use ws(2) in force)+
  then have "place_for f now (expire now r) = (expire now r, length ws1)"
    by (simp add: place_for_def Let_def)
  then have add: "add_fragment f now r = file_piece f (expire now r, length ws1)"
    by (simp add: add_fragment_steps)
  show ?thesis
  proof (cases "{..<length ps} \<subseteq> insert (unat (fr_index f)) S")
    case True
    with add file_held [OF ws refl assms(3-5)] ws(2) show ?thesis
      by (simp add: Let_def)
  next
    case False
    let ?p = "p\<lparr>pt_pieces := have_pieces ps (insert (unat (fr_index f)) S)\<rparr>"
    have "holding (expire now r\<lparr>ra_waiting := ws1 @ (?key, ?p) # ws2\<rparr>) ?key ?p"
      using ws(2) unfolding holding_def by (intro exI [of _ ws1] exI [of _ ws2]) simp
    with False add file_held [OF ws refl assms(3-5)] show ?thesis
      by (simp add: Let_def)
  qed
qed

text \<open>The first piece of a datagram, with room for it.\<close>

lemma add_first:
  assumes "(fr_number f, fr_last f) \<notin> fst ` set (ra_waiting r)" and "length (ra_waiting r) < ra_keep r"
    and "length ps = unat (fr_last f) + 1" and "unat (fr_index f) < length ps"
    and "fr_body f = ps ! unat (fr_index f)"
  shows "\<exists>r' p. ra_timeout_s r' = ra_timeout_s r \<and> pt_first_s p = now \<and>
    (let S' = {unat (fr_index f)}
     in if {..<length ps} \<subseteq> S'
        then add_fragment f now r = Some (r', Some (concat ps)) \<and>
          (fr_number f, fr_last f) \<notin> fst ` set (ra_waiting r')
        else add_fragment f now r = Some (r', None) \<and>
          holding r' (fr_number f, fr_last f) p \<and> pt_pieces p = have_pieces ps S')"
proof -
  let ?key = "(fr_number f, fr_last f)" and ?r = "expire now r" and ?p = "fresh_partial (fr_last f) now"
  have sub: "set (ra_waiting ?r) \<subseteq> set (ra_waiting r)" "length (ra_waiting ?r) \<le> length (ra_waiting r)"
    "ra_keep ?r = ra_keep r"
    by (auto simp: expire_def Let_def)
  then have new: "?key \<notin> fst ` set (ra_waiting ?r)" and room: "\<not> ra_keep ?r \<le> length (ra_waiting ?r)"
    using assms(1,2) by auto
  let ?r' = "?r\<lparr>ra_waiting := ra_waiting ?r @ [(?key, ?p)]\<rparr>"
  have "position (\<lambda>(k, _). k = ?key) (ra_waiting ?r) = None"
    using new by (force simp: position_None_iff)
  then have place: "place_for f now ?r = (?r', length (ra_waiting ?r))"
    using room by (simp add: place_for_def make_room_def Let_def)
  have fresh: "pt_pieces ?p = have_pieces ps {}" "pt_first_s ?p = now"
    using assms(3) by (simp_all add: fresh_partial_def have_pieces_def map_replicate_const)
  have r': "ra_waiting ?r' = ra_waiting ?r @ (?key, ?p) # []" "?key \<notin> fst ` set (ra_waiting ?r @ [])"
    using new by auto
  let ?p' = "?p\<lparr>pt_pieces := have_pieces ps {unat (fr_index f)}\<rparr>"
  show ?thesis
  proof (cases "{..<length ps} \<subseteq> {unat (fr_index f)}")
    case True
    with file_held [OF r' refl fresh(1) assms(4,5)] new fresh(2) show ?thesis
      by (intro exI [of _ "?r'\<lparr>ra_waiting := ra_waiting ?r\<rparr>"] exI [of _ ?p'])
        (simp add: add_fragment_steps place Let_def)
  next
    case False
    have "holding (?r'\<lparr>ra_waiting := ra_waiting ?r @ [(?key, ?p')]\<rparr>) ?key ?p'"
      using new unfolding holding_def by (intro exI [of _ "ra_waiting ?r"] exI [of _ "[]"]) simp
    with False file_held [OF r' refl fresh(1) assms(4,5)] fresh(2) show ?thesis
      by (intro exI [of _ "?r'\<lparr>ra_waiting := ra_waiting ?r @ [(?key, ?p')]\<rparr>"] exI [of _ ?p'])
        (simp add: add_fragment_steps place Let_def)
  qed
qed

text \<open>
  Arrivals \<open>xs\<close> (an index and a time each) complete \<open>k\<close> pieces of which \<open>S\<close> are held: the last
  of them brings the last missing piece.
\<close>

definition completes :: "nat set \<Rightarrow> nat \<Rightarrow> (nat \<times> f64) list \<Rightarrow> bool" where
  "completes S k xs \<longleftrightarrow> xs \<noteq> [] \<and> \<not> {..<k} \<subseteq> S \<union> fst ` set (butlast xs) \<and> {..<k} \<subseteq> S \<union> fst ` set xs"

lemma completes_Cons:
  "completes S k ((i, t) # xs) \<Longrightarrow>
     if {..<k} \<subseteq> insert i S then xs = [] else completes (insert i S) k xs"
  by (cases xs) (auto simp: completes_def)

abbreviation arrivals :: "u8 \<Rightarrow> bytes list \<Rightarrow> (nat \<times> f64) list \<Rightarrow> (fragment \<times> f64) list" where
  "arrivals number ps xs \<equiv> map (\<lambda>(i, t). (nth_fragment number ps i, t)) xs"

abbreviation key_of :: "u8 \<Rightarrow> bytes list \<Rightarrow> u8 \<times> u8" where
  "key_of number ps \<equiv> (number, last_index ps)"

lemma nth_fragment_simps [simp]:
  "fr_number (nth_fragment number ps i) = number"
  "fr_last (nth_fragment number ps i) = last_index ps"
  "fr_body (nth_fragment number ps i) = ps ! i"
  by (simp_all add: nth_fragment_def)

lemma nth_fragment_index [simp]:
  "i < length ps \<Longrightarrow> length ps \<le> 16 \<Longrightarrow> unat (fr_index (nth_fragment number ps i)) = i"
  by (simp add: nth_fragment_def unat_of_nat)

lemma unat_last_index: "0 < length ps \<Longrightarrow> length ps \<le> 16 \<Longrightarrow> length ps = unat (last_index ps) + 1"
  by (simp add: last_index_def unat_of_nat del: of_nat_diff)

lemma add_all_held:
  assumes "holding r (key_of number ps) p" and "pt_pieces p = have_pieces ps S"
    and "completes S (length ps) xs" and "length ps \<le> 16"
    and "\<forall>(i, t)\<in>set xs. i < length ps \<and> t - pt_first_s p \<le> ra_timeout_s r"
  shows "\<exists>r'. add_all (arrivals number ps xs) r = Some (r', [concat ps]) \<and>
    key_of number ps \<notin> fst ` set (ra_waiting r')"
  using assms
proof (induction xs arbitrary: r p S)
  case Nil
  then show ?case
    by (simp add: completes_def)
next
  case (Cons x xs)
  obtain i t where x: "x = (i, t)"
    by fastforce
  let ?f = "nth_fragment number ps i"
  have i: "i < length ps" "t - pt_first_s p \<le> ra_timeout_s r"
    using Cons.prems(5) x by auto
  from add_held [of r ?f p t ps S, unfolded nth_fragment_simps nth_fragment_index [OF i(1) Cons.prems(4)]]
    Cons.prems(1,2) i obtain r1 where
    r1: "ra_timeout_s r1 = ra_timeout_s r" and
    step: "if {..<length ps} \<subseteq> insert i S
      then add_fragment ?f t r = Some (r1, Some (concat ps)) \<and> key_of number ps \<notin> fst ` set (ra_waiting r1)
      else add_fragment ?f t r = Some (r1, None) \<and>
        holding r1 (key_of number ps) (p\<lparr>pt_pieces := have_pieces ps (insert i S)\<rparr>)"
    by (auto simp: Let_def)
  show ?case
  proof (cases "{..<length ps} \<subseteq> insert i S")
    case True
    with completes_Cons [of S "length ps" i t xs] Cons.prems(3) x step show ?thesis
      by simp
  next
    case False
    with completes_Cons [of S "length ps" i t xs] Cons.prems(3) x have "completes (insert i S) (length ps) xs"
      by simp
    with Cons.IH [of r1 "p\<lparr>pt_pieces := have_pieces ps (insert i S)\<rparr>" "insert i S"] step False r1
      Cons.prems(4,5) x obtain r' where
      "add_all (arrivals number ps xs) r1 = Some (r', [concat ps])" "key_of number ps \<notin> fst ` set (ra_waiting r')"
      by auto
    with step False x show ?thesis
      by simp
  qed
qed

lemma add_all_joins:
  assumes "key_of number ps \<notin> fst ` set (ra_waiting r)" and "length (ra_waiting r) < ra_keep r"
    and "completes {} (length ps) xs" and "length ps \<le> 16"
    and "\<forall>(i, t)\<in>set xs. i < length ps \<and> t - snd (hd xs) \<le> ra_timeout_s r"
  shows "\<exists>r'. add_all (arrivals number ps xs) r = Some (r', [concat ps]) \<and>
    key_of number ps \<notin> fst ` set (ra_waiting r')"
proof -
  from assms(3) obtain i t ys where xs: "xs = (i, t) # ys"
    by (cases xs) (auto simp: completes_def)
  let ?f = "nth_fragment number ps i"
  have i: "i < length ps"
    using assms(5) xs by simp
  have len: "length ps = unat (fr_last ?f) + 1"
    using unat_last_index [of ps] i assms(4) by (cases ps) auto
  from add_first [of ?f r ps t, unfolded nth_fragment_simps nth_fragment_index [OF i assms(4)]]
    assms(1,2) i len obtain r1 p where
    r1: "ra_timeout_s r1 = ra_timeout_s r" "pt_first_s p = t" and
    step: "if {..<length ps} \<subseteq> {i}
      then add_fragment ?f t r = Some (r1, Some (concat ps)) \<and> key_of number ps \<notin> fst ` set (ra_waiting r1)
      else add_fragment ?f t r = Some (r1, None) \<and> holding r1 (key_of number ps) p \<and>
        pt_pieces p = have_pieces ps {i}"
    by (auto simp: Let_def)
  show ?thesis
  proof (cases "{..<length ps} \<subseteq> {i}")
    case True
    with completes_Cons [of "{}" "length ps" i t ys] assms(3) xs step show ?thesis
      by simp
  next
    case False
    with completes_Cons [of "{}" "length ps" i t ys] assms(3) xs have "completes {i} (length ps) ys"
      by simp
    with add_all_held [of r1 number ps p "{i}" ys] step False r1 assms(4,5) xs obtain r' where
      "add_all (arrivals number ps ys) r1 = Some (r', [concat ps])" "key_of number ps \<notin> fst ` set (ra_waiting r')"
      by auto
    with step False xs show ?thesis
      by simp
  qed
qed

text \<open>When a datagram is taken, exactly, at a rung whose frames fit the container's length field.\<close>

lemma fragments_accepts:
  assumes "number \<noteq> 0" and "payload \<noteq> []" and "5 < capacity" and "capacity \<le> 65536"
  shows "(\<exists>frames. fragments payload number capacity = Inr frames) \<longleftrightarrow>
    length payload \<le> max_payload capacity \<and> length payload \<noteq> max_payload capacity - 1"
proof -
  obtain ps where ps: "split payload capacity = Inr ps"
    using split_total [OF assms(3)] by blast
  note spec = split_spec [OF ps assms(2)]
  have "length p + 2 \<le> capacity - 3 \<Longrightarrow> length p < 65536" for p :: bytes
    using assms(4) by linarith
  with spec assms(3) have "\<forall>p\<in>set ps. fits (fragment_header number final idx) (length p) capacity" for final idx
    by (auto simp: fits_def header_bytes_def fragment_header_def list_all_iff)
  then have enc: "\<exists>frame. encode_data (fragment_header number final idx) p capacity = Inr frame"
    if "p \<in> set ps" for p final idx
    using that encode_data_accepts by blast
  have all: "\<exists>frames. collect (map (\<lambda>(index, piece).
       map_err Frame (encode_data (fragment_header number final (of_nat index)) piece capacity)) ips) = Inr frames"
    if "snd ` set ips \<subseteq> set ps" for final and ips :: "(nat \<times> bytes) list"
    using that
  proof (induction ips)
    case (Cons ip ips)
    then show ?case
      using enc [of "snd ip" final "of_nat (fst ip)"] by (cases ip) force
  qed simp
  have "snd ` set (enumerate 0 ps) = set ps"
    by (metis list.set_map map_snd_enumerate)
  then have "(\<exists>frames. fragments payload number capacity = Inr frames) \<longleftrightarrow> length ps \<le> 16"
    using all [of "enumerate 0 ps" "of_nat (length ps - 1)"] assms(1,2)
    by (auto simp: fragments_def ps Let_def)
  also have "\<dots> \<longleftrightarrow> length payload \<le> max_payload capacity \<and> length payload \<noteq> max_payload capacity - 1"
    using piece_count_max [of "capacity - 3" "length payload"] spec assms(2,3)
    by (simp add: max_payload_def)
  finally show ?thesis .
qed

text \<open>
  A datagram's frames, read and joined in any order, with copies and whatever else already
  waits, give the datagram back once.
\<close>

lemma datagram_joined:
  assumes "fragments payload number capacity = Inr frames"
    and "completes {} (length frames) xs" and "fst ` set xs \<subseteq> {..<length frames}"
    and "(number, of_nat (length frames - 1)) \<notin> fst ` set (ra_waiting r)"
    and "length (ra_waiting r) < ra_keep r"
    and "\<forall>(i, t)\<in>set xs. t - snd (hd xs) \<le> ra_timeout_s r"
  shows "\<exists>r'. add_all (map (\<lambda>(i, t). (the (read_fragment (frames ! i)), t)) xs) r = Some (r', [payload])"
proof -
  from read_fragments [OF assms(1)] obtain ps where ps: "length ps \<le> 16" "concat ps = payload" and
    read: "map read_fragment frames = map (\<lambda>i. Some (nth_fragment number ps i)) [0..<length ps]"
    by auto
  have len: "length frames = length ps"
    using read by (metis length_map map_nth)
  have "the (read_fragment (frames ! i)) = nth_fragment number ps i" if "i < length ps" for i
    using read that len by (metis (no_types, lifting) add_0 diff_zero length_map length_upt nth_map nth_upt option.sel)
  then have "map (\<lambda>(i, t). (the (read_fragment (frames ! i)), t)) xs = arrivals number ps xs"
    using assms(3) len by auto
  moreover have "key_of number ps \<notin> fst ` set (ra_waiting r)"
    using assms(4) unfolding len last_index_def .
  moreover have "\<forall>(i, t)\<in>set xs. i < length ps \<and> t - snd (hd xs) \<le> ra_timeout_s r"
    using assms(3,6) len by fastforce
  ultimately show ?thesis
    using add_all_joins [of number ps r xs] assms(2,5) ps unfolding len by metis
qed

section \<open>Properties\<close>

text \<open>
  C14: a datagram the sender accepts is whole at the receiver whatever the order its frames arrive
  in, however often each is repeated and however many of them are lost and sent again: the frame
  that completes the set yields the payload, once and unchanged.
\<close>

theorem datagram_any_order:
  assumes "fragments payload number capacity = Inr frames"
    and "completes {} (length frames) xs" and "fst ` set xs \<subseteq> {..<length frames}"
    and "(number, of_nat (length frames - 1)) \<notin> fst ` set (ra_waiting r)"
    and "length (ra_waiting r) < ra_keep r"
    and "\<forall>(i, t)\<in>set xs. t - snd (hd xs) \<le> ra_timeout_s r"
  shows "\<exists>r'. add_all (map (\<lambda>(i, t). (the (read_fragment (frames ! i)), t)) xs) r = Some (r', [payload])"
  by (rule datagram_joined [OF assms])

theorem datagram_any_order_witness:
  "\<exists>frames r'. fragments [1, 2, 3, 4, 5, 6, 7, 8] 9 10 = Inr frames \<and>
     add_all (map (\<lambda>(i, t). (the (read_fragment (frames ! i)), t)) [(1, 0), (1, 2), (0, 3)]) reassembler_default =
       Some (r', [[1, 2, 3, 4, 5, 6, 7, 8]])"
proof -
  let ?frames = "[[192, 1, 9, 1, 2, 3, 4, 5, 6, 7], [193, 17, 9, 0, 1, 8, 0, 0, 0, 0]]"
  have "replicate 4 (0 :: u8) = [0, 0, 0, 0]"
    by (simp add: numeral_eq_Suc)
  then have f: "fragments [1, 2, 3, 4, 5, 6, 7, 8] 9 10 = Inr ?frames"
    by (simp add: fragments_def split_def full_frames.simps encode_data_def header_bytes_def fragment_header_def
        Let_def be16_def)
  have c: "completes {} (length ?frames) [(1, 0 :: f64), (1, 2), (0, 3)]"
    by (auto simp: completes_def numeral_2_eq_2 lessThan_Suc)
  have "\<exists>r'. add_all (map (\<lambda>(i, t). (the (read_fragment (?frames ! i)), t)) [(1, 0), (1, 2), (0, 3)])
      reassembler_default = Some (r', [[1, 2, 3, 4, 5, 6, 7, 8]])"
    by (rule datagram_any_order [OF f c]) (simp_all add: reassembler_default_def reassembler_new_def)
  then show ?thesis
    using f by blast
qed

text \<open>
  which datagrams the sender accepts: those no longer than the documented most, except the one
  length a byte short of it, which would need a seventeenth piece.
\<close>

theorem fragments_limit:
  assumes "number \<noteq> 0" and "payload \<noteq> []" and "5 < capacity" and "capacity \<le> 65536"
  shows "(\<exists>frames. fragments payload number capacity = Inr frames) \<longleftrightarrow>
    length payload \<le> max_payload capacity \<and> length payload \<noteq> max_payload capacity - 1"
  by (rule fragments_accepts [OF assms])

theorem fragments_limit_witness:
  "\<not> (\<exists>frames. fragments (replicate 111 1) 9 10 = Inr frames) \<and> (\<exists>frames. fragments (replicate 112 1) 9 10 = Inr frames)"
  using fragments_limit [of 9 "replicate 111 1" 10] fragments_limit [of 9 "replicate 112 1" 10]
  by (simp add: max_payload_def)

text \<open>The states a receiver's reassembler can be in.\<close>

inductive ra_reachable :: "reassembler \<Rightarrow> bool" where
  new: "ra_reachable (reassembler_new timeout keep)"
| heard: "ra_reachable r \<Longrightarrow> read_fragment payload = Some f \<Longrightarrow> add_fragment f now r = Some (r', out) \<Longrightarrow> ra_reachable r'"
| tick: "ra_reachable r \<Longrightarrow> ra_reachable (expire now r)"

lemma ra_reachable_inv: "ra_reachable r \<Longrightarrow> ra_inv r"
proof (induction rule: ra_reachable.induct)
  case (new timeout keep)
  show ?case by (rule ra_inv_new)
next
  case (heard r payload f now r' out)
  then show ?case
    using add_fragment_inv [OF heard.IH read_fragment_index [OF heard.hyps(2)], of now] by auto
next
  case (tick r now)
  then show ?case by (simp add: ra_inv_expire)
qed

text \<open>
  C22: whatever has been heard before, a frame off the air never makes the reassembler panic, and
  it never holds more unfinished datagrams than it was told to keep.
\<close>

theorem reassembler_safe:
  assumes "ra_reachable r" and "read_fragment payload = Some f"
  shows "\<exists>r' out. add_fragment f now r = Some (r', out) \<and> length (ra_waiting r') \<le> ra_keep r' \<and> 1 \<le> ra_keep r'"
  using add_fragment_inv [OF ra_reachable_inv [OF assms(1)] read_fragment_index [OF assms(2)], of now]
  by (auto simp: ra_inv_def)

theorem reassembler_safe_witness:
  "\<exists>f r' out. read_fragment [192, 1, 9, 1, 2, 3, 4, 5, 6, 7] = Some f \<and>
     add_fragment f 0 (reassembler_new 120 0) = Some (r', out) \<and> length (ra_waiting r') \<le> ra_keep r'"
proof -
  have f: "read_fragment [192, 1, 9, 1, 2, 3, 4, 5, 6, 7] = Some \<lparr>fr_number = 9, fr_index = 0, fr_last = 1,
      fr_body = [1, 2, 3, 4, 5, 6, 7]\<rparr>"
    by (simp add: read_fragment_def decode_data_def data_kind_of_def Let_def from_bits_def)
  show ?thesis
    using f reassembler_safe [OF ra_reachable.new f, of 0 120 0] by auto
qed

end
