(* ===== verification/Kiss.thy ===== *)
theory Kiss
  imports Datagrams
begin

text \<open>
  The KISS port: \<open>core/aetherd/src/kiss/framing.rs\<close>, the byte stream a KISS client and the modem
  exchange, and \<open>core/aetherd/src/kiss/dialect.rs\<close>, what its frames mean.

  The decoder keeps its state between reads, a byte at a time.  What it promises is stated
  against a batch specification (\<open>frames_of\<close>): cut the stream at \<open>FEND\<close>, undo the escapes of
  each segment, drop a segment whole when that fails.
\<close>

section \<open>Framing\<close>

definition FEND :: u8 where [simp]: "FEND = 0xC0"
definition FESC :: u8 where [simp]: "FESC = 0xDB"
definition TFEND :: u8 where [simp]: "TFEND = 0xDC"
definition TFESC :: u8 where [simp]: "TFESC = 0xDD"

definition CMD_DATA :: u8 where [simp]: "CMD_DATA = 0x00"
definition TX_DELAY :: u8 where [simp]: "TX_DELAY = 0x01"
definition PERSISTENCE :: u8 where [simp]: "PERSISTENCE = 0x02"
definition SLOT_TIME :: u8 where [simp]: "SLOT_TIME = 0x03"
definition TX_TAIL :: u8 where [simp]: "TX_TAIL = 0x04"
definition FULL_DUPLEX :: u8 where [simp]: "FULL_DUPLEX = 0x05"
definition SET_HARDWARE :: u8 where [simp]: "SET_HARDWARE = 0x06"
definition ACK_MODE :: u8 where [simp]: "ACK_MODE = 0x0C"
definition RETURN :: u8 where [simp]: "RETURN = 0xFF"

record kiss_frame =
  kf_port :: u8
  kf_command :: u8
  kf_data :: bytes

datatype malformed = BadEscape u8 | DanglingEscape | FrameTooLong

datatype decoded = KFrame kiss_frame | Malformed malformed

record kiss_decoder =
  kd_limit :: nat
  kd_in_frame :: bool
  kd_escaped :: bool
  kd_condemned :: "malformed option"
  kd_buffer :: bytes

definition decoder_new :: "nat \<Rightarrow> kiss_decoder" where
  "decoder_new limit = \<lparr>kd_limit = limit, kd_in_frame = False, kd_escaped = False,
     kd_condemned = None, kd_buffer = []\<rparr>"

text \<open>The type byte and what follows it.\<close>

definition frame_of_bytes :: "bytes \<Rightarrow> decoded option" where
  "frame_of_bytes bs =
     (case bs of [] \<Rightarrow> None
      | kind # data \<Rightarrow>
          let (port, command) = (if kind = RETURN then (0, RETURN) else (drop_bit 4 kind, kind AND 0x0F))
          in Some (KFrame \<lparr>kf_port = port, kf_command = command, kf_data = data\<rparr>))"

definition finish :: "kiss_decoder \<Rightarrow> kiss_decoder \<times> decoded option" where
  "finish d =
     (d\<lparr>kd_condemned := None, kd_escaped := False, kd_buffer := []\<rparr>,
      (case kd_condemned d of
         Some reason \<Rightarrow> Some (Malformed reason)
       | None \<Rightarrow> if kd_escaped d then Some (Malformed DanglingEscape) else frame_of_bytes (kd_buffer d)))"

text \<open>The end of the loop body: the byte's value goes to the buffer, unless that is full.\<close>

definition keep_value :: "u8 \<Rightarrow> kiss_decoder \<Rightarrow> kiss_decoder" where
  "keep_value v d =
     (if kd_limit d \<le> length (kd_buffer d) then d\<lparr>kd_condemned := Some FrameTooLong, kd_buffer := []\<rparr>
      else d\<lparr>kd_buffer := kd_buffer d @ [v]\<rparr>)"

definition push_byte :: "kiss_decoder \<Rightarrow> u8 \<Rightarrow> kiss_decoder \<times> decoded option" where
  "push_byte d b =
     (if b = FEND
      then let (d, out) = (if kd_in_frame d then finish d else (d, None))
        in (d\<lparr>kd_in_frame := True\<rparr>, out)
      else if \<not> kd_in_frame d \<or> kd_condemned d \<noteq> None then (d, None)
      else if kd_escaped d
      then let d = d\<lparr>kd_escaped := False\<rparr>
        in if b = TFEND then (keep_value FEND d, None)
           else if b = TFESC then (keep_value FESC d, None)
           else (d\<lparr>kd_condemned := Some (BadEscape b)\<rparr>, None)
      else if b = FESC then (d\<lparr>kd_escaped := True\<rparr>, None)
      else (keep_value b d, None))"

fun push :: "kiss_decoder \<Rightarrow> bytes \<Rightarrow> kiss_decoder \<times> decoded list" where
  "push d [] = (d, [])"
| "push d (b # bs) =
     (let (d', out) = push_byte d b; (d'', outs) = push d' bs
      in (d'', (case out of None \<Rightarrow> outs | Some f \<Rightarrow> f # outs)))"

fun escape :: "bytes \<Rightarrow> bytes" where
  "escape [] = []"
| "escape (b # bs) =
     (if b = FEND then [FESC, TFEND] else if b = FESC then [FESC, TFESC] else [b]) @ escape bs"

definition kind_byte :: "u8 \<Rightarrow> u8 \<Rightarrow> u8" where
  "kind_byte port command =
     (if command = RETURN then RETURN else push_bit 4 (port AND 0x0F) OR (command AND 0x0F))"

definition kiss_encode :: "u8 \<Rightarrow> u8 \<Rightarrow> bytes \<Rightarrow> bytes" where
  "kiss_encode port command data = [FEND] @ escape (kind_byte port command # data) @ [FEND]"

subsection \<open>The batch specification\<close>

text \<open>Undoing the escapes of a segment, at most \<open>n\<close> values; the first thing wrong decides.\<close>

fun unescape :: "nat \<Rightarrow> bytes \<Rightarrow> malformed + bytes"
and unescape_value :: "nat \<Rightarrow> u8 \<Rightarrow> bytes \<Rightarrow> malformed + bytes" where
  "unescape n [] = Inr []"
| "unescape n [b] = (if b = 0xDB then Inl DanglingEscape else unescape_value n b [])"
| "unescape n (b # c # bs) =
     (if b = 0xDB
      then if c = 0xDC then unescape_value n 0xC0 bs
           else if c = 0xDD then unescape_value n 0xDB bs
           else Inl (BadEscape c)
      else unescape_value n b (c # bs))"
| "unescape_value 0 v bs = Inl FrameTooLong"
| "unescape_value (Suc n) v bs = and_then (unescape n bs) (\<lambda>vs. Inr (v # vs))"

definition read_segment :: "nat \<Rightarrow> bytes \<Rightarrow> decoded option" where
  "read_segment limit seg =
     (case unescape limit seg of Inl reason \<Rightarrow> Some (Malformed reason) | Inr vs \<Rightarrow> frame_of_bytes vs)"

text \<open>A stream cut at its \<open>FEND\<close>s: noise before the first, an unfinished segment after the last.\<close>

fun cut :: "bytes \<Rightarrow> bytes list" where
  "cut [] = [[]]"
| "cut (b # bs) = (if b = 0xC0 then [] # cut bs else (b # hd (cut bs)) # tl (cut bs))"

definition opt_list :: "'a option \<Rightarrow> 'a list" where
  "opt_list x = (case x of None \<Rightarrow> [] | Some y \<Rightarrow> [y])"

definition frames_of :: "nat \<Rightarrow> bytes \<Rightarrow> decoded list" where
  "frames_of limit bs = concat (map (\<lambda>seg. opt_list (read_segment limit seg)) (butlast (tl (cut bs))))"

subsection \<open>The decoder implements it\<close>

lemma cut_not_Nil [simp]: "cut bs \<noteq> []"
  by (cases bs) auto

text \<open>What the segment a decoder is in comes to, once \<open>seg\<close> more of it has arrived.\<close>

definition seg_result :: "kiss_decoder \<Rightarrow> bytes \<Rightarrow> decoded option" where
  "seg_result d seg =
     (case kd_condemned d of
        Some reason \<Rightarrow> Some (Malformed reason)
      | None \<Rightarrow>
          (case unescape (kd_limit d - length (kd_buffer d)) (if kd_escaped d then 0xDB # seg else seg) of
             Inl reason \<Rightarrow> Some (Malformed reason)
           | Inr vs \<Rightarrow> frame_of_bytes (kd_buffer d @ vs)))"

lemma finish_seg_result: "snd (finish d) = seg_result d []"
  by (simp add: finish_def seg_result_def split: option.splits)

lemma unescape_plain: "b \<noteq> 0xDB \<Longrightarrow> unescape n (b # bs) = unescape_value n b bs"
  by (cases bs) auto

lemma seg_result_keep:
  assumes "kd_condemned d = None" and "\<not> kd_escaped d" and "length (kd_buffer d) \<le> kd_limit d"
  shows "seg_result (keep_value v d) seg =
    (case unescape_value (kd_limit d - length (kd_buffer d)) v seg of
       Inl reason \<Rightarrow> Some (Malformed reason) | Inr vs \<Rightarrow> frame_of_bytes (kd_buffer d @ vs))"
proof (cases "kd_limit d - length (kd_buffer d)")
  case 0
  with assms show ?thesis
    by (simp add: keep_value_def seg_result_def)
next
  case (Suc m)
  with assms have "\<not> kd_limit d \<le> length (kd_buffer d)" "kd_limit d - Suc (length (kd_buffer d)) = m"
    by auto
  with assms Suc show ?thesis
    by (cases "unescape m seg") (simp_all add: keep_value_def seg_result_def)
qed

lemma push_byte_seg_result:
  assumes "kd_in_frame d" and "b \<noteq> 0xC0" and "length (kd_buffer d) \<le> kd_limit d"
  shows "snd (push_byte d b) = None \<and> seg_result (fst (push_byte d b)) seg = seg_result d (b # seg)"
proof (cases "kd_condemned d")
  case (Some m)
  with assms show ?thesis
    by (simp add: push_byte_def seg_result_def)
next
  case None
  let ?d = "d\<lparr>kd_escaped := False\<rparr>"
  note keep = seg_result_keep [of d]
  show ?thesis
  proof (cases "kd_escaped d")
    case True
    from None assms have k: "seg_result (keep_value v ?d) seg =
      (case unescape_value (kd_limit d - length (kd_buffer d)) v seg of
         Inl reason \<Rightarrow> Some (Malformed reason) | Inr vs \<Rightarrow> frame_of_bytes (kd_buffer d @ vs))" for v
      using seg_result_keep [of ?d v seg] by (simp cong: sum.case_cong)
    consider "b = 0xDC" | "b = 0xDD" | "b \<noteq> 0xDC" "b \<noteq> 0xDD"
      by blast
    then show ?thesis
    proof cases
      case 3
      with True None assms show ?thesis
        by (simp add: push_byte_def seg_result_def)
    qed (use True None assms in \<open>simp_all add: push_byte_def k seg_result_def [of d] Let_def\<close>)
  next
    case False
    show ?thesis
    proof (cases "b = 0xDB")
      case True
      with None False assms show ?thesis
        by (simp add: push_byte_def seg_result_def cong: sum.case_cong)
    next
      case plain: False
      with None False assms keep show ?thesis
        by (simp add: push_byte_def seg_result_def [of d] unescape_plain)
    qed
  qed
qed

lemma keep_value_frame [simp]:
  "kd_in_frame (keep_value v d) = kd_in_frame d" "kd_limit (keep_value v d) = kd_limit d"
  "length (kd_buffer d) \<le> kd_limit d \<Longrightarrow> length (kd_buffer (keep_value v d)) \<le> kd_limit d"
  by (auto simp: keep_value_def)

lemma push_byte_keeps:
  assumes "length (kd_buffer d) \<le> kd_limit d"
  shows "kd_limit (fst (push_byte d b)) = kd_limit d"
    and "length (kd_buffer (fst (push_byte d b))) \<le> kd_limit d"
    and "kd_in_frame (fst (push_byte d b)) \<longleftrightarrow> kd_in_frame d \<or> b = 0xC0"
  using assms keep_value_frame(3) [of "d\<lparr>kd_escaped := False\<rparr>"]
  by (auto simp: push_byte_def finish_def Let_def)

text \<open>A decoder that has just seen a \<open>FEND\<close>.\<close>

definition between :: "kiss_decoder \<Rightarrow> bool" where
  "between d \<longleftrightarrow> kd_in_frame d \<and> \<not> kd_escaped d \<and> kd_condemned d = None \<and> kd_buffer d = []"

lemma push_byte_FEND:
  "kd_in_frame d \<Longrightarrow> push_byte d 0xC0 = (fst (push_byte d 0xC0), seg_result d []) \<and> between (fst (push_byte d 0xC0))"
  by (simp add: push_byte_def finish_seg_result [symmetric] between_def) (simp add: finish_def)

lemma seg_result_between: "between d \<Longrightarrow> seg_result d seg = read_segment (kd_limit d) seg"
  by (simp add: between_def seg_result_def read_segment_def split: sum.splits)

lemma push_in_frame:
  assumes "kd_in_frame d" and "length (kd_buffer d) \<le> kd_limit d"
  shows "snd (push d bs) =
    (if tl (cut bs) = [] then []
     else opt_list (seg_result d (hd (cut bs))) @
       concat (map (\<lambda>seg. opt_list (read_segment (kd_limit d) seg)) (butlast (tl (cut bs)))))"
  using assms
proof (induction bs arbitrary: d)
  case (Cons b bs)
  let ?d = "fst (push_byte d b)"
  have IH: "kd_in_frame ?d \<Longrightarrow> snd (push ?d bs) =
    (if tl (cut bs) = [] then []
     else opt_list (seg_result ?d (hd (cut bs))) @
       concat (map (\<lambda>seg. opt_list (read_segment (kd_limit d) seg)) (butlast (tl (cut bs)))))"
    using Cons.IH [of ?d] push_byte_keeps [OF Cons.prems(2), of b] by simp
  have out: "snd (push d (b # bs)) = opt_list (snd (push_byte d b)) @ snd (push ?d bs)"
    by (simp add: opt_list_def split: prod.splits option.splits)
  have fr: "kd_in_frame ?d"
    using Cons.prems push_byte_keeps(3) [OF Cons.prems(2)] by simp
  show ?case
  proof (cases "b = 0xC0")
    case True
    with push_byte_FEND [OF Cons.prems(1)] have
      "snd (push_byte d b) = seg_result d []" and bt: "between ?d"
      by (simp_all, metis snd_conv)
    moreover have "kd_limit ?d = kd_limit d"
      using push_byte_keeps(1) [OF Cons.prems(2)] .
    ultimately show ?thesis
      using True IH [OF fr] out seg_result_between [OF bt]
      by (cases "cut bs") (simp_all add: opt_list_def)
  next
    case False
    from push_byte_seg_result [OF Cons.prems(1) False Cons.prems(2)]
    show ?thesis
      using False IH [OF fr] out by (simp add: opt_list_def)
  qed
qed simp

lemma push_not_in_frame:
  assumes "\<not> kd_in_frame d" and "kd_buffer d = []" and "\<not> kd_escaped d" and "kd_condemned d = None"
  shows "snd (push d bs) = frames_of (kd_limit d) bs"
  using assms
proof (induction bs arbitrary: d)
  case (Cons b bs)
  show ?case
  proof (cases "b = 0xC0")
    case True
    have "between (d\<lparr>kd_in_frame := True\<rparr>)"
      using Cons.prems by (simp add: between_def)
    with True Cons.prems push_in_frame [of "d\<lparr>kd_in_frame := True\<rparr>" bs]
      seg_result_between [of "d\<lparr>kd_in_frame := True\<rparr>"] show ?thesis
      by (cases "cut bs") (auto simp: push_byte_def frames_of_def split: prod.splits)
  next
    case False
    with Cons show ?thesis
      by (simp add: push_byte_def frames_of_def split: prod.splits)
  qed
qed (simp add: frames_of_def)

text \<open>The decoder, fed a whole stream, gives exactly the frames of the specification.\<close>

lemma decoder_refines: "snd (push (decoder_new limit) bs) = frames_of limit bs"
  using push_not_in_frame [of "decoder_new limit" bs] by (simp add: decoder_new_def)

text \<open>How the stream is cut into reads does not matter.\<close>

lemma push_append:
  "push d (xs @ ys) = (let (d', o1) = push d xs; (d'', o2) = push d' ys in (d'', o1 @ o2))"
  by (induction xs arbitrary: d) (auto simp: Let_def split: prod.splits option.splits)

subsection \<open>Round trip\<close>

lemma unescape_escape_aux:
  "unescape n (escape bs) = (if length bs \<le> n then Inr bs else Inl FrameTooLong) \<and>
   unescape_value n v (escape bs) = (if length bs < n then Inr (v # bs) else Inl FrameTooLong)"
proof (induction bs arbitrary: n v)
  case Nil
  show ?case
    by (cases n) auto
next
  case (Cons b bs)
  have 1: "unescape n (escape (b # bs)) = (if length (b # bs) \<le> n then Inr (b # bs) else Inl FrameTooLong)" for n
    using Cons.IH [of n] by (auto simp: unescape_plain)
  with Cons.IH show ?case
    by (cases n) auto
qed

lemma unescape_escape: "unescape n (escape bs) = (if length bs \<le> n then Inr bs else Inl FrameTooLong)"
  using unescape_escape_aux by blast

lemma escape_no_FEND: "0xC0 \<notin> set (escape bs)"
  by (induction bs) auto

lemma cut_append: "0xC0 \<notin> set xs \<Longrightarrow> cut (xs @ bs) = (xs @ hd (cut bs)) # tl (cut bs)"
  by (induction xs) auto

text \<open>The frame a decoder finds in what \<open>kiss_encode\<close> wrote.\<close>

definition kiss_canon :: "u8 \<times> u8 \<times> bytes \<Rightarrow> kiss_frame" where
  "kiss_canon = (\<lambda>(port, command, data).
     if kind_byte port command = RETURN then \<lparr>kf_port = 0, kf_command = RETURN, kf_data = data\<rparr>
     else \<lparr>kf_port = port AND 0x0F, kf_command = command AND 0x0F, kf_data = data\<rparr>)"

lemma kind_nibbles:
  "drop_bit 4 (push_bit 4 (p AND 0x0F) OR (c AND 0x0F)) = (p AND 0x0F :: u8)"
  "(push_bit 4 (p AND 0x0F) OR (c AND 0x0F)) AND 0x0F = (c AND 0x0F :: u8)"
  by (simp_all only: byte_eq_iff) (simp_all add: bit_simps)

lemma frame_of_bytes_kind:
  "frame_of_bytes (kind_byte port command # data) = Some (KFrame (kiss_canon (port, command, data)))"
proof (cases "kind_byte port command = RETURN")
  case True
  then show ?thesis
    by (simp add: frame_of_bytes_def kiss_canon_def)
next
  case False
  then have "kind_byte port command = push_bit 4 (port AND 0x0F) OR (command AND 0x0F)"
    by (auto simp: kind_byte_def split: if_splits)
  with False show ?thesis
    using kind_nibbles [of port command] by (simp add: frame_of_bytes_def kiss_canon_def)
qed

text \<open>A port and a command of four bits come back as they were, but for the pair that spells RETURN.\<close>

lemma kiss_canon_exact:
  assumes "port < 16" and "command < 16" and "\<not> (port = 15 \<and> command = 15)"
  shows "kiss_canon (port, command, data) = \<lparr>kf_port = port, kf_command = command, kf_data = data\<rparr>"
proof -
  have m: "x AND 0x0F = x" if "x < 16" for x :: u8
  proof -
    have "unat x < 2 ^ 4"
      using that by (simp add: word_less_nat_alt)
    then show ?thesis
      using bit_above [of x 4 4] bit_above [of x 4 5] bit_above [of x 4 6] bit_above [of x 4 7]
      by (simp add: byte_eq_iff bit_simps)
  qed
  have "port = 15 \<and> command = 15" if "kind_byte port command = RETURN"
  proof -
    have "command \<noteq> RETURN"
      using assms(2) by (rule contrapos_pn) simp
    with that have k: "push_bit 4 (port AND 0x0F) OR (command AND 0x0F) = (0xFF :: u8)"
      unfolding kind_byte_def RETURN_def by (simp only: if_False)
    have "port AND 0x0F = drop_bit 4 (0xFF :: u8) \<and> command AND 0x0F = (0xFF :: u8) AND 0x0F"
      using kind_nibbles [of port command] unfolding k by (intro conjI, simp_all only:)
    then show ?thesis
      by (simp add: m [OF assms(1)] m [OF assms(2)])
  qed
  with assms(3) have "kind_byte port command \<noteq> RETURN"
    by blast
  then show ?thesis
    by (simp only: kiss_canon_def prod.case if_False m [OF assms(1)] m [OF assms(2)])
qed

definition kiss_wire :: "u8 \<times> u8 \<times> bytes \<Rightarrow> bytes" where
  "kiss_wire = (\<lambda>(port, command, data). kiss_encode port command data)"

lemma cut_kiss_wire:
  "cut (kiss_wire (port, command, data) @ rest) =
     [] # escape (kind_byte port command # data) # cut rest"
  by (simp add: kiss_wire_def kiss_encode_def cut_append escape_no_FEND del: escape.simps)

lemma read_segment_escape:
  "length data < limit \<Longrightarrow>
   read_segment limit (escape (kind_byte port command # data)) = Some (KFrame (kiss_canon (port, command, data)))"
  by (simp add: read_segment_def unescape_escape frame_of_bytes_kind del: escape.simps)

lemma tl_cut_wires:
  assumes "\<forall>(p, c, data)\<in>set fs. length data < limit"
  shows "concat (map (\<lambda>seg. opt_list (read_segment limit seg)) (butlast (cut (concat (map kiss_wire fs))))) =
           map (\<lambda>f. KFrame (kiss_canon f)) fs"
  using assms
proof (induction fs)
  case (Cons f fs)
  obtain p c data where f: "f = (p, c, data)"
    by (cases f)
  with Cons show ?case
    by (simp add: cut_kiss_wire opt_list_def read_segment_escape read_segment_def [of _ "[]"]
        frame_of_bytes_def [of "[]"] del: escape.simps)
qed simp

lemma frames_of_wires:
  assumes "\<forall>(p, c, data)\<in>set fs. length data < limit"
  shows "frames_of limit (concat (map kiss_wire fs)) = map (\<lambda>f. KFrame (kiss_canon f)) fs"
proof (cases fs)
  case (Cons f gs)
  obtain p c data where f: "f = (p, c, data)"
    by (cases f)
  have "frames_of limit (concat (map kiss_wire fs)) =
    concat (map (\<lambda>seg. opt_list (read_segment limit seg)) (butlast (cut (concat (map kiss_wire fs)))))"
    by (simp add: frames_of_def Cons f cut_kiss_wire opt_list_def read_segment_def [of _ "[]"]
        frame_of_bytes_def [of "[]"])
  with tl_cut_wires [OF assms] show ?thesis
    by simp
qed (simp add: frames_of_def)

text \<open>The longest frame a decoder passes on, and what it does not.\<close>

lemma frames_of_limit:
  "KFrame f \<in> set (frames_of limit bs) \<Longrightarrow> length (kf_data f) < limit"
proof -
  have len: "unescape n xs = Inr vs \<Longrightarrow> length vs \<le> n" 
    and "unescape_value n v xs = Inr vs \<Longrightarrow> length vs \<le> n" for n v xs vs
    by (induction n xs and n v xs arbitrary: vs and vs rule: unescape_unescape_value.induct)
      (auto split: if_splits)
  assume "KFrame f \<in> set (frames_of limit bs)"
  then obtain seg where "read_segment limit seg = Some (KFrame f)"
    by (auto simp: frames_of_def opt_list_def split: option.splits)
  then show ?thesis
    by (auto simp: read_segment_def frame_of_bytes_def split: sum.splits list.splits if_splits dest!: len)
qed

text \<open>Pieces of a stream, one read after another.\<close>

fun push_reads :: "kiss_decoder \<Rightarrow> bytes list \<Rightarrow> decoded list" where
  "push_reads d [] = []"
| "push_reads d (r # rs) = (let (d', out) = push d r in out @ push_reads d' rs)"

lemma push_reads_concat: "push_reads d rs = snd (push d (concat rs))"
  by (induction rs arbitrary: d) (simp_all add: push_append split: prod.splits)

section \<open>Properties\<close>

text \<open>
  C15: the incremental decoder is the specification: fed a stream of octets in any pieces at all,
  the frames and errors it reports are those of cutting the whole stream at its \<open>FEND\<close>s.
\<close>

theorem decoder_any_reads: "push_reads (decoder_new limit) reads = frames_of limit (concat reads)"
  by (simp add: push_reads_concat decoder_refines)

text \<open>
  C16: what an application writes is what the modem reads: any sequence of frames shorter than the
  limit, encoded one after another and read in any pieces, decodes to exactly these frames, but for
  the port and command that together spell \<open>RETURN\<close>.
\<close>

theorem kiss_round_trip:
  assumes "\<forall>(p, c, data)\<in>set fs. length data < limit \<and> p < 16 \<and> c < 16 \<and> \<not> (p = 15 \<and> c = 15)"
    and "concat reads = concat (map kiss_wire fs)"
  shows "push_reads (decoder_new limit) reads =
    map (\<lambda>(p, c, data). KFrame \<lparr>kf_port = p, kf_command = c, kf_data = data\<rparr>) fs"
proof -
  have "push_reads (decoder_new limit) reads = map (\<lambda>f. KFrame (kiss_canon f)) fs"
    using frames_of_wires [of fs limit] assms by (fastforce simp: push_reads_concat decoder_refines)
  also have "\<dots> = map (\<lambda>(p, c, data). KFrame \<lparr>kf_port = p, kf_command = c, kf_data = data\<rparr>) fs"
    using assms(1) by (auto simp: kiss_canon_exact)
  finally show ?thesis .
qed

theorem kiss_round_trip_witness:
  "push_reads (decoder_new 4) [[0xC0, 0, 1], [0xDB], [0xDC, 0xC0]] =
     [KFrame \<lparr>kf_port = 0, kf_command = 0, kf_data = [1, 0xC0]\<rparr>]"
  using kiss_round_trip [of "[(0, 0, [1, 0xC0])]" 4 "[[0xC0, 0, 1], [0xDB], [0xDC, 0xC0]]"]
  by (simp add: kiss_wire_def kiss_encode_def kind_byte_def)

text \<open>no frame the decoder passes on carries as many data octets as its limit, so memory is bounded.\<close>

theorem kiss_bounded:
  assumes "KFrame f \<in> set (push_reads (decoder_new limit) reads)"
  shows "length (kf_data f) < limit"
  using assms by (auto simp: push_reads_concat decoder_refines dest: frames_of_limit)

theorem kiss_bounded_witness: "length [1 :: u8, 2] < (3 :: nat)"
proof -
  have "KFrame \<lparr>kf_port = 0, kf_command = 0, kf_data = [1, 2]\<rparr> \<in> set (push_reads (decoder_new 3) [[0xC0, 0, 1, 2, 0xC0]])"
    by code_simp
  from kiss_bounded [OF this] show ?thesis by simp
qed

end
