(* ===== verification/Dialect.thy ===== *)
theory Dialect
  imports Kiss
begin

text \<open>
  What a KISS frame means, the VARA-compatible way: \<open>core/aetherd/src/kiss/dialect.rs\<close>.  A TXDELAY
  or P parameter and a VARA frame of type 1 or 2 share a command number and are told apart by
  length.
\<close>

datatype kiss_input =
    DataIn (in_frame_type: u8) (in_frame: bytes) (in_ack: "(u8 \<times> u8) option")
  | Persistence u8
  | SlotTime u8
  | Ignored string
  | Refused string

definition data :: "u8 \<Rightarrow> bytes \<Rightarrow> (u8 \<times> u8) option \<Rightarrow> kiss_input" where
  "data frame_type bs ack = (if bs = [] then Refused ''an empty frame'' else DataIn frame_type bs ack)"

definition one_byte :: "kiss_frame \<Rightarrow> string \<Rightarrow> kiss_input" where
  "one_byte frame name =
     (if length (kf_data frame) = 1 then Ignored name
      else Refused (name @ '' with '' @ decimal (length (kf_data frame)) @ '' bytes''))"

definition classify :: "kiss_frame \<Rightarrow> kiss_input" where
  "classify frame =
     (let one = one_byte frame; command = kf_command frame; len = length (kf_data frame) in
      if command = RETURN then Ignored ''RETURN: a TCP port has no KISS mode to leave''
      else if kf_port frame \<noteq> 0 then
        Refused (''a frame for port '' @ decimal (unat (kf_port frame)) @ '': this modem has one port, 0'')
      else if command = CMD_DATA then data 0 (kf_data frame) None
      else if command = TX_DELAY \<and> len = 1 then Ignored ''TXDELAY: the modem keys with its own lead''
      else if command = PERSISTENCE \<and> len = 1 then Persistence (kf_data frame ! 0)
      else if command = TX_DELAY \<or> command = PERSISTENCE then data command (kf_data frame) None
      else if command = SLOT_TIME \<and> len = 1 then SlotTime (kf_data frame ! 0)
      else if command = SLOT_TIME then one ''SLOTTIME''
      else if command = TX_TAIL then one ''TXTAIL: the modem holds the key with its own tail''
      else if command = FULL_DUPLEX then one ''FULLDUPLEX: the radio is half duplex''
      else if command = SET_HARDWARE then Ignored ''SETHARDWARE''
      else if command = ACK_MODE \<and> len > 2 then
        data 0 (drop 2 (kf_data frame)) (Some (kf_data frame ! 0, kf_data frame ! 1))
      else if command = ACK_MODE then Refused ''an ACKMODE frame with no frame in it''
      else Refused (''command 0x'' @ hex2 command @ '' is not one this modem takes''))"

definition persistence_of :: "u8 \<Rightarrow> f64" where
  "persistence_of value = (real (unat value) + 1) / 256"

definition slot_of :: "u8 \<Rightarrow> f64" where
  "slot_of value = real (unat value) * 0.01"

definition guess_client :: "u8 \<Rightarrow> bytes \<Rightarrow> bool \<Rightarrow> string" where
  "guess_client frame_type frame ack =
     (if frame_type = 1 then ''VarAC''
      else if ack then ''a packet program (ACKMODE)''
      else if frame_type = 0 \<and> length frame \<ge> 2 \<and> drop_bit 1 (frame ! 0) = 0x41 \<and> drop_bit 1 (frame ! 1) = 0x50
      then ''an APRS program''
      else ''a KISS client'')"

section \<open>What is taken for the air\<close>

lemma data_DataIn: "data t bs a = DataIn t' f a' \<longleftrightarrow> bs \<noteq> [] \<and> t' = t \<and> f = bs \<and> a' = a"
  by (auto simp: data_def)

text \<open>
  Exactly these frames go on the air: a DATA frame, a TXDELAY or P frame longer or shorter than
  its parameter, an ACKMODE frame with a frame in it.
\<close>

lemma classify_DataIn:
  "classify frame = DataIn t f a \<longleftrightarrow>
     kf_port frame = 0 \<and> f \<noteq> [] \<and>
     (kf_command frame = 0 \<and> t = 0 \<and> a = None \<and> f = kf_data frame \<or>
      kf_command frame \<in> {1, 2} \<and> t = kf_command frame \<and> a = None \<and> f = kf_data frame \<and> length f \<noteq> 1 \<or>
      kf_command frame = 12 \<and> t = 0 \<and>
        (\<exists>x y. a = Some (x, y) \<and> kf_data frame = x # y # f))"
  (is "_ \<longleftrightarrow> ?R")
proof -
  define c where "c = kf_command frame"
  define d where "d = kf_data frame"
  consider "c = 0" | "c = 1" | "c = 2" | "c = 12" | "c \<notin> {0, 1, 2, 12}"
    by blast
  then show ?thesis
  proof cases
    case 4
    show ?thesis
      unfolding classify_def Let_def one_byte_def c_def [symmetric] d_def [symmetric]
      using 4 by (cases d; cases "tl d"; cases "tl (tl d)") (auto simp: data_DataIn)
  next
    case 5
    then show ?thesis
      unfolding classify_def Let_def one_byte_def c_def [symmetric] d_def [symmetric] by auto
  qed (unfold classify_def Let_def one_byte_def c_def [symmetric] d_def [symmetric],
      auto simp: data_DataIn)
qed

text \<open>What it lets through is what a datagram can carry: the frame type fits its header.\<close>

lemma classify_type: "classify frame = DataIn t f a \<Longrightarrow> f \<noteq> [] \<and> t \<in> {0, 1, 2}"
  by (auto simp: classify_DataIn)

lemma persistence_of_range: "0 < persistence_of v \<and> persistence_of v \<le> 1"
proof -
  have "unat v < 256"
    using unsigned_less [of v, where ?'a = nat] by simp
  then have "real (unat v) \<le> 255" "0 \<le> real (unat v)"
    by linarith+
  then show ?thesis
    unfolding persistence_of_def by (intro conjI divide_pos_pos) (linarith, simp, simp only: divide_le_eq_1, linarith)
qed

section \<open>Properties\<close>

text \<open>
  exactly what a KISS client can put on the air: data on port 0, by the data command, by the two
  frame types, or by the acknowledged command with its two-byte tag in front; never an empty frame.
\<close>

theorem classify_transmits:
  "classify frame = DataIn t f a \<longleftrightarrow>
     kf_port frame = 0 \<and> f \<noteq> [] \<and>
     (kf_command frame = 0 \<and> t = 0 \<and> a = None \<and> f = kf_data frame \<or>
      kf_command frame \<in> {1, 2} \<and> t = kf_command frame \<and> a = None \<and> f = kf_data frame \<and> length f \<noteq> 1 \<or>
      kf_command frame = 12 \<and> t = 0 \<and>
        (\<exists>x y. a = Some (x, y) \<and> kf_data frame = x # y # f))"
  by (rule classify_DataIn)

end
