(* ===== verification/Crc.thy ===== *)
theory Crc
  imports Prelude
begin

text \<open>
  The cyclic redundancy checks of \<open>core/aether-fec/src/crc.rs\<close>: the register, the parity it
  leaves, attaching and checking it.  The register is linear over GF(2) and never loses a nonzero
  state; from that comes what a receiver relies on, that a burst no longer than the parity is
  never missed.
\<close>

record crc =
  crc_name :: string
  crc_poly :: u32
  crc_width :: nat

definition CRC24A :: crc where
  "CRC24A = \<lparr>crc_name = ''CRC24A'', crc_poly = 0x00864CFB, crc_width = 24\<rparr>"
definition CRC24B :: crc where
  "CRC24B = \<lparr>crc_name = ''CRC24B'', crc_poly = 0x00800063, crc_width = 24\<rparr>"
definition CRC24C :: crc where
  "CRC24C = \<lparr>crc_name = ''CRC24C'', crc_poly = 0x00B2B117, crc_width = 24\<rparr>"
definition CRC16 :: crc where
  "CRC16 = \<lparr>crc_name = ''CRC16'', crc_poly = 0x00001021, crc_width = 16\<rparr>"
definition CRC11 :: crc where
  "CRC11 = \<lparr>crc_name = ''CRC11'', crc_poly = 0x00000621, crc_width = 11\<rparr>"
definition CRC6 :: crc where
  "CRC6 = \<lparr>crc_name = ''CRC6'', crc_poly = 0x00000021, crc_width = 6\<rparr>"

text \<open>One turn of the first loop; the second loop is the same with a zero for the bit.\<close>

definition crc_step :: "crc \<Rightarrow> u32 \<Rightarrow> u8 \<Rightarrow> u32" where
  "crc_step c reg b =
     (let top = push_bit (crc_width c) 1; mask = top - 1;
          reg = (push_bit 1 reg OR ucast (b AND 1)) AND (mask OR top)
      in if reg AND top \<noteq> 0 then reg XOR top XOR crc_poly c else reg)"

definition crc_feed :: "crc \<Rightarrow> u32 \<Rightarrow> bytes \<Rightarrow> u32" where
  "crc_feed c reg bs = foldl (crc_step c) reg bs"

definition remainder :: "crc \<Rightarrow> bytes \<Rightarrow> bytes" where
  "remainder c bs =
     (let top = push_bit (crc_width c) 1; mask = top - 1;
          reg = crc_feed c (crc_feed c 0 bs) (replicate (crc_width c) 0);
          reg = reg AND mask
      in map (\<lambda>i. ucast (drop_bit (crc_width c - 1 - i) reg AND 1)) [0..<crc_width c])"

definition attach :: "crc \<Rightarrow> bytes \<Rightarrow> bytes" where
  "attach c bs = bs @ remainder c bs"

definition check :: "crc \<Rightarrow> bytes \<Rightarrow> bool" where
  "check c bs =
     (if length bs < crc_width c then False
      else let cut = length bs - crc_width c in remainder c (take cut bs) = drop cut bs)"

section \<open>The register\<close>

text \<open>What makes the six constants usable: the polynomial fits its width and ends in 1.\<close>

definition crc_ok :: "crc \<Rightarrow> bool" where
  "crc_ok c \<longleftrightarrow> 0 < crc_width c \<and> crc_width c < 32 \<and> unat (crc_poly c) < 2 ^ crc_width c \<and> odd (crc_poly c)"

lemma crc_ok_constants:
  "crc_ok CRC24A" "crc_ok CRC24B" "crc_ok CRC24C" "crc_ok CRC16" "crc_ok CRC11" "crc_ok CRC6"
  by (simp_all add: crc_ok_def CRC24A_def CRC24B_def CRC24C_def CRC16_def CRC11_def CRC6_def)

definition small :: "crc \<Rightarrow> u32 \<Rightarrow> bool" where
  "small c r \<longleftrightarrow> (\<forall>n\<ge>crc_width c. \<not> bit r n)"

lemma small_0 [simp]: "small c 0"
  by (simp add: small_def)

lemma poly_bits:
  assumes "crc_ok c"
  shows "bit (crc_poly c) n \<Longrightarrow> n < crc_width c" and "bit (crc_poly c) 0"
  using assms bit_above [of "crc_poly c" "crc_width c" n]
  by (auto simp: crc_ok_def bit_0 intro: ccontr)

lemma bit_top: "crc_width c < 32 \<Longrightarrow> bit (push_bit (crc_width c) 1 :: u32) n \<longleftrightarrow> n = crc_width c"
  by (auto simp: bit_simps)

lemma bit_top_mask: "crc_width c < 32 \<Longrightarrow> bit (push_bit (crc_width c) 1 - 1 :: u32) n \<longleftrightarrow> n < crc_width c"
proof -
  assume "crc_width c < 32"
  moreover have "push_bit (crc_width c) 1 - 1 = (mask (crc_width c) :: u32)"
    by (simp add: mask_eq_exp_minus_1 push_bit_eq_mult)
  ultimately show ?thesis
    by (auto simp: bit_simps)
qed

lemma bit_crc_step:
  assumes ok: "crc_ok c" and r: "small c r"
  shows "bit (crc_step c r b) n \<longleftrightarrow>
    n < crc_width c \<and> ((if n = 0 then odd b else bit r (n - 1)) \<noteq> (bit r (crc_width c - 1) \<and> bit (crc_poly c) n))"
proof -
  define w where "w = crc_width c"
  define top :: u32 where "top = push_bit w 1"
  define reg where "reg = (push_bit 1 r OR ucast (b AND 1)) AND ((top - 1) OR top)"
  have w: "0 < w" "w < 32"
    using ok by (auto simp: crc_ok_def w_def)
  have top: "bit top m \<longleftrightarrow> m = w" "bit (top - 1) m \<longleftrightarrow> m < w" for m
    using bit_top [of c m] bit_top_mask [of c m] w by (simp_all add: top_def w_def)
  have reg: "bit reg m \<longleftrightarrow> m \<le> w \<and> (if m = 0 then odd b else bit r (m - 1))" for m
  proof -
    have "bit (ucast (b AND 1) :: u32) m \<longleftrightarrow> m = 0 \<and> odd b"
      by (auto simp: bit_simps bit_0 bit_1_iff)
    moreover have "\<not> bit r (m - 1)" if "w < m"
      using r that by (simp add: small_def w_def)
    ultimately show ?thesis
      using w unfolding reg_def bit_and_iff bit_or_iff bit_push_bit_iff top
      by (cases m) (auto simp: bit_imp_le_length)
  qed
  have "reg AND top \<noteq> 0 \<longleftrightarrow> bit reg w"
    using w by (auto simp: bit_eq_iff [of "reg AND top"] bit_simps top)
  also have "\<dots> \<longleftrightarrow> bit r (w - 1)"
    using w by (simp add: reg)
  finally have t: "reg AND top \<noteq> 0 \<longleftrightarrow> bit r (w - 1)" .
  have s: "crc_step c r b = (if bit r (w - 1) then reg XOR top XOR crc_poly c else reg)"
    unfolding crc_step_def Let_def w_def [symmetric] top_def [symmetric] reg_def [symmetric] t ..
  show ?thesis
    unfolding s w_def [symmetric]
    using poly_bits(1) [OF ok, of n] w
    by (cases "n = w") (auto simp: bit_xor_iff top reg w_def [symmetric])
qed

lemma small_step: "crc_ok c \<Longrightarrow> small c r \<Longrightarrow> small c (crc_step c r b)"
  by (simp add: small_def [of c "crc_step c r b"] bit_crc_step)

lemma small_feed: "crc_ok c \<Longrightarrow> small c r \<Longrightarrow> small c (crc_feed c r bs)"
  by (induction bs arbitrary: r) (simp_all add: crc_feed_def small_step)

lemma crc_feed_Nil [simp]: "crc_feed c r [] = r"
  by (simp add: crc_feed_def)

lemma crc_feed_Cons: "crc_feed c r (b # bs) = crc_feed c (crc_step c r b) bs"
  by (simp add: crc_feed_def)

lemma crc_feed_append: "crc_feed c r (xs @ ys) = crc_feed c (crc_feed c r xs) ys"
  by (simp add: crc_feed_def)

lemma small_xor: "small c r \<Longrightarrow> small c s \<Longrightarrow> small c (r XOR s)"
  by (simp add: small_def bit_simps)

text \<open>The register is linear.\<close>

lemma crc_step_xor:
  assumes "crc_ok c" and "small c r" and "small c s"
  shows "crc_step c (r XOR s) (a XOR b) = crc_step c r a XOR crc_step c s b"
proof (rule bit_eqI)
  fix n
  have "odd (a XOR b) \<longleftrightarrow> odd a \<noteq> odd b"
    by (simp flip: bit_0 add: bit_simps)
  with assms show "bit (crc_step c (r XOR s) (a XOR b)) n = bit (crc_step c r a XOR crc_step c s b) n"
    by (auto simp: bit_crc_step small_xor bit_simps)
qed

definition xor_bits :: "bytes \<Rightarrow> bytes \<Rightarrow> bytes" where
  "xor_bits xs ys = map2 (XOR) xs ys"

lemma crc_feed_xor:
  assumes "crc_ok c" and "length xs = length ys" and "small c r" and "small c s"
  shows "crc_feed c (r XOR s) (xor_bits xs ys) = crc_feed c r xs XOR crc_feed c s ys"
  using assms(2-4)
proof (induction xs ys arbitrary: r s rule: list_induct2)
  case (Cons x xs y ys)
  then show ?case
    by (simp add: crc_feed_def xor_bits_def crc_step_xor [OF assms(1)] small_step [OF assms(1)])
qed (simp add: xor_bits_def)

text \<open>A register that is not zero never becomes zero by shifting: the polynomial ends in 1.\<close>

lemma crc_step_zero:
  assumes "crc_ok c" and "small c r" and "crc_step c r 0 = 0"
  shows "r = 0"
proof (rule bit_eqI)
  fix n
  have w: "0 < crc_width c"
    using assms(1) by (simp add: crc_ok_def)
  have z: "\<not> bit (crc_step c r 0) m" for m
    using assms(3) by simp
  have t: "\<not> bit r (crc_width c - 1)"
    using z [of 0] w poly_bits(2) [OF assms(1)] by (simp add: bit_crc_step [OF assms(1,2)])
  have "\<not> bit r n"
  proof (cases "n + 1 < crc_width c")
    case True
    then show ?thesis
      using z [of "n + 1"] t by (simp add: bit_crc_step [OF assms(1,2)])
  next
    case False
    then have "n = crc_width c - 1 \<or> crc_width c \<le> n"
      by linarith
    with t assms(2) show ?thesis
      by (auto simp: small_def)
  qed
  then show "bit r n = bit 0 n"
    by simp
qed

lemma crc_feed_zeros:
  "crc_ok c \<Longrightarrow> small c r \<Longrightarrow> crc_feed c r (replicate n 0) = 0 \<longleftrightarrow> r = 0"
proof (induction n arbitrary: r)
  case (Suc n)
  have "crc_step c 0 0 = 0"
    using Suc.prems(1) by (intro bit_eqI) (simp add: bit_crc_step)
  with Suc crc_step_zero [of c r] show ?case
    by (auto simp: crc_feed_Cons small_step)
qed simp

text \<open>As long as nothing reaches the top, the register is the number the bits spell.\<close>

lemma bit_crc_feed_short:
  assumes "crc_ok c" and "length bs \<le> crc_width c"
  shows "bit (crc_feed c 0 bs) n \<longleftrightarrow> n < length bs \<and> odd (bs ! (length bs - 1 - n))"
  using assms(2)
proof (induction bs arbitrary: n rule: rev_induct)
  case (snoc b bs)
  have step: "crc_feed c 0 (bs @ [b]) = crc_step c (crc_feed c 0 bs) b"
    by (simp add: crc_feed_def)
  have top: "\<not> bit (crc_feed c 0 bs) (crc_width c - 1)"
    using snoc.prems by (simp add: snoc.IH del: One_nat_def) linarith
  have IH: "bit (crc_feed c 0 bs) m \<longleftrightarrow> m < length bs \<and> odd (bs ! (length bs - 1 - m))" for m
    using snoc by simp
  have "n < crc_width c" if "n < length (bs @ [b])"
    using that snoc.prems by linarith
  then show ?case
    unfolding step bit_crc_step [OF assms(1) small_feed [OF assms(1) small_0]]
    using snoc.prems by (cases n) (auto simp: top nth_append IH)
qed simp

section \<open>Parity\<close>

lemma length_remainder [simp]: "length (remainder c bs) = crc_width c"
  by (simp add: remainder_def)

lemma remainder_nth:
  assumes "crc_ok c" and "i < crc_width c"
  shows "remainder c bs ! i =
    (if bit (crc_feed c (crc_feed c 0 bs) (replicate (crc_width c) 0)) (crc_width c - 1 - i) then 1 else 0)"
proof -
  define reg where "reg = crc_feed c (crc_feed c 0 bs) (replicate (crc_width c) 0)"
  have "small c reg"
    unfolding reg_def using assms(1) by (simp add: small_feed)
  then have "bit reg n \<Longrightarrow> n < crc_width c" for n
    using not_le by (auto simp: small_def)
  then have "reg AND (push_bit (crc_width c) 1 - 1) = reg"
    using assms(1) by (intro bit_eqI) (simp only: bit_and_iff bit_top_mask crc_ok_def, blast)
  then have "remainder c bs ! i = ucast (drop_bit (crc_width c - 1 - i) reg AND 1)"
    using assms(2) unfolding remainder_def Let_def reg_def [symmetric] by simp
  also have "\<dots> = (if bit reg (crc_width c - 1 - i) then 1 else 0)"
    by (simp add: and_one_eq bit_iff_odd_drop_bit mod_2_eq_odd)
  finally show ?thesis
    unfolding reg_def .
qed

lemma remainder_bits: "crc_ok c \<Longrightarrow> set (remainder c bs) \<subseteq> {0, 1}"
  by (auto simp: in_set_conv_nth remainder_nth split: if_splits)

lemma feed_remainder:
  assumes "crc_ok c"
  shows "crc_feed c 0 (remainder c bs) = crc_feed c (crc_feed c 0 bs) (replicate (crc_width c) 0)"
    (is "_ = ?r")
proof (rule bit_eqI)
  fix n
  have "small c ?r"
    using assms by (simp add: small_feed)
  show "bit (crc_feed c 0 (remainder c bs)) n = bit ?r n"
  proof (cases "n < crc_width c")
    case True
    then have "crc_width c - 1 - (crc_width c - 1 - n) = n"
      by simp
    with True show ?thesis
      using bit_crc_feed_short [OF assms, of "remainder c bs" n]
        remainder_nth [OF assms, of "crc_width c - 1 - n" bs] by simp
  next
    case False
    with \<open>small c ?r\<close> show ?thesis
      using bit_crc_feed_short [OF assms, of "remainder c bs" n] by (simp add: small_def)
  qed
qed

lemma bits_eq_iff_feed:
  assumes "crc_ok c" and "length xs = crc_width c" "length ys = crc_width c"
    and "set xs \<subseteq> {0, 1}" "set ys \<subseteq> {0, 1}" and "crc_feed c 0 xs = crc_feed c 0 ys"
  shows "xs = ys"
proof (rule nth_equalityI)
  fix i
  assume i: "i < length xs"
  have "bit (crc_feed c 0 xs) (crc_width c - 1 - i) = bit (crc_feed c 0 ys) (crc_width c - 1 - i)"
    using assms(6) by simp
  then have "odd (xs ! i) = odd (ys ! i)"
    using assms(1-3) i by (simp add: bit_crc_feed_short)
  moreover have "xs ! i \<in> {0, 1}" "ys ! i \<in> {0, 1}"
    using assms(2-5) i nth_mem by (metis subsetD)+
  ultimately show "xs ! i = ys ! i"
    by auto
qed (use assms in simp)

text \<open>The check is one test on the register: fed the whole frame, parity included, it ends at zero.\<close>

lemma check_iff_feed:
  assumes ok: "crc_ok c" and len: "crc_width c \<le> length bs" and bits: "set bs \<subseteq> {0, 1}"
  shows "check c bs \<longleftrightarrow> crc_feed c 0 bs = 0"
proof -
  define k where "k = length bs - crc_width c"
  define msg where "msg = take k bs"
  define par where "par = drop k bs"
  have bs: "bs = msg @ par" and lp: "length par = crc_width c"
    using len by (auto simp: msg_def par_def k_def)
  have pb: "set par \<subseteq> {0, 1}"
    using bits bs by auto
  let ?r = "crc_feed c (crc_feed c 0 msg) (replicate (crc_width c) 0)"
  have "xor_bits (replicate (crc_width c) 0) par = par"
    using lp by (intro nth_equalityI) (simp_all add: xor_bits_def)
  then have "crc_feed c 0 bs = ?r XOR crc_feed c 0 par"
    using crc_feed_xor [OF ok, of "replicate (crc_width c) 0" par "crc_feed c 0 msg" 0] lp
      small_feed [OF ok small_0]
    by (simp add: bs crc_feed_append)
  then have "crc_feed c 0 bs = 0 \<longleftrightarrow> crc_feed c 0 (remainder c msg) = crc_feed c 0 par"
    unfolding feed_remainder [OF ok] bit_eq_iff by (simp add: bit_xor_iff)
  also have "\<dots> \<longleftrightarrow> remainder c msg = par"
    using bits_eq_iff_feed [OF ok _ lp remainder_bits [OF ok] pb] by auto
  finally show ?thesis
    using len by (simp add: check_def msg_def par_def k_def Let_def)
qed

lemma xor_bits_bits:
  "set xs \<subseteq> {0, 1} \<Longrightarrow> set ys \<subseteq> {0, 1} \<Longrightarrow> set (xor_bits xs ys) \<subseteq> {0, 1}"
proof -
  assume "set xs \<subseteq> {0, 1}" "set ys \<subseteq> {0, 1}"
  then have "x XOR y \<in> {0, 1}" if "(x, y) \<in> set (zip xs ys)" for x y
  proof -
    have "x = 0 \<or> x = 1" "y = 0 \<or> y = 1"
      using set_zip_leftD [OF that] set_zip_rightD [OF that] \<open>set xs \<subseteq> _\<close> \<open>set ys \<subseteq> _\<close> by blast+
    then show ?thesis
      by auto
  qed
  moreover obtain B :: "u8 set" where B: "B = {0, 1}"
    by blast
  ultimately have "set (xor_bits xs ys) \<subseteq> B"
    unfolding B [symmetric] by (auto simp: xor_bits_def)
  then show ?thesis
    by (simp add: B)
qed

lemma length_xor_bits [simp]: "length (xor_bits xs ys) = min (length xs) (length ys)"
  by (simp add: xor_bits_def)

text \<open>An error goes unnoticed exactly when it is itself a frame with good parity.\<close>

lemma check_error:
  assumes ok: "crc_ok c" and cw: "check c cw" and "length e = length cw"
    and "set cw \<subseteq> {0, 1}" and "set e \<subseteq> {0, 1}"
  shows "check c (xor_bits cw e) \<longleftrightarrow> check c e"
proof -
  have len: "crc_width c \<le> length cw"
    using cw by (auto simp: check_def split: if_splits)
  have "crc_feed c 0 (xor_bits cw e) = crc_feed c 0 cw XOR crc_feed c 0 e"
    using crc_feed_xor [OF ok, of cw e 0 0] assms(3) by simp
  moreover have "crc_feed c 0 cw = 0"
    using check_iff_feed [OF ok len assms(4)] cw by simp
  ultimately show ?thesis
    using assms len check_iff_feed [OF ok] by (simp add: xor_bits_bits)
qed

lemma check_attach: "crc_ok c \<Longrightarrow> check c (attach c bs)"
  by (simp add: check_def attach_def)

lemma burst_not_codeword:
  assumes ok: "crc_ok c" and "length b \<le> crc_width c" and "set b \<subseteq> {0, 1}" and "1 \<in> set b"
    and "crc_width c \<le> m + length b + n"
  shows "\<not> check c (replicate m 0 @ b @ replicate n 0)"
proof -
  have nz: "crc_feed c 0 b \<noteq> 0"
  proof -
    from assms(4) obtain i where i: "i < length b" "b ! i = 1"
      by (auto simp: in_set_conv_nth)
    then have "bit (crc_feed c 0 b) (length b - 1 - i)"
      using bit_crc_feed_short [OF ok assms(2)] by simp
    then show ?thesis
      by auto
  qed
  have z: "crc_feed c 0 (replicate m 0) = 0"
    using crc_feed_zeros [OF ok small_0, of m] by blast
  have "crc_feed c 0 (replicate m 0 @ b @ replicate n 0) \<noteq> 0"
    unfolding crc_feed_append z using nz crc_feed_zeros [OF ok small_feed [OF ok small_0]] by blast
  moreover have "set (replicate m 0 @ b @ replicate n 0) \<subseteq> {0, 1}"
    using assms(3) by auto
  ultimately show ?thesis
    using check_iff_feed [OF ok, of "replicate m 0 @ b @ replicate n 0"] assms(5) by simp
qed

lemma attach_bits: "crc_ok c \<Longrightarrow> set bs \<subseteq> {0, 1} \<Longrightarrow> set (attach c bs) \<subseteq> {0, 1}"
  using remainder_bits by (auto simp: attach_def)

lemma burst_detected:
  assumes ok: "crc_ok c" and "set bs \<subseteq> {0, 1}"
    and "length b \<le> crc_width c" and "set b \<subseteq> {0, 1}" and "1 \<in> set b"
    and "m + length b + n = length bs + crc_width c"
  shows "\<not> check c (xor_bits (attach c bs) (replicate m 0 @ b @ replicate n 0))"
proof -
  let ?e = "replicate m 0 @ b @ replicate n 0"
  have "length ?e = length (attach c bs)"
    using assms(6) by (simp add: attach_def)
  moreover have "set ?e \<subseteq> {0, 1}"
    using assms(4) by (simp add: set_replicate_conv_if)
  ultimately have "check c (xor_bits (attach c bs) ?e) \<longleftrightarrow> check c ?e"
    by (rule check_error [OF ok check_attach [OF ok] _ attach_bits [OF ok assms(2)]])
  moreover have "\<not> check c ?e"
    using assms(6) by (intro burst_not_codeword [OF ok assms(3-5)]) simp
  ultimately show ?thesis
    by blast
qed

section \<open>Properties\<close>

text \<open>
  C19: a burst of errors no longer than the checksum is always detected, wherever it falls in the
  frame and whatever the frame holds, for each of the six polynomials.
\<close>

theorem crc_detects_bursts:
  assumes "c \<in> {CRC24A, CRC24B, CRC24C, CRC16, CRC11, CRC6}" and "set bs \<subseteq> {0, 1}"
    and "length b \<le> crc_width c" and "set b \<subseteq> {0, 1}" and "1 \<in> set b"
    and "m + length b + n = length bs + crc_width c"
  shows "check c (attach c bs) \<and> \<not> check c (xor_bits (attach c bs) (replicate m 0 @ b @ replicate n 0))"
proof -
  have "crc_ok c"
    using assms(1) crc_ok_constants by auto
  then show ?thesis
    using burst_detected [OF _ assms(2-6)] check_attach by blast
qed

theorem crc_detects_bursts_witness:
  "\<not> check CRC6 (xor_bits (attach CRC6 [1, 0, 1, 1]) (replicate 1 0 @ [1, 0, 1] @ replicate 6 0))"
  using crc_detects_bursts [of CRC6 "[1, 0, 1, 1]" "[1, 0, 1]" 1 6] by (simp add: CRC6_def)

text \<open>
  the checksum is linear: an error pattern goes unnoticed on one frame exactly when it does on
  every frame, and that is when it leaves the register at zero.
\<close>

theorem crc_undetected:
  assumes "crc_ok c" and "check c cw" and "length e = length cw" and "crc_width c \<le> length cw"
    and "set cw \<subseteq> {0, 1}" and "set e \<subseteq> {0, 1}"
  shows "check c (xor_bits cw e) \<longleftrightarrow> crc_feed c 0 e = 0"
  using check_error [OF assms(1-3,5,6)] check_iff_feed [OF assms(1) _ assms(6)] assms(3,4) by simp

theorem crc_undetected_witness:
  "check CRC6 (xor_bits (attach CRC6 [1, 0]) (attach CRC6 [1, 1])) \<longleftrightarrow> crc_feed CRC6 0 (attach CRC6 [1, 1]) = 0"
proof (rule crc_undetected)
  show "crc_ok CRC6" by (rule crc_ok_constants)
  then show "check CRC6 (attach CRC6 [1, 0])" by (rule check_attach)
qed (code_simp)+

end
