(* ===== verification/Ldpc.thy ===== *)
theory Ldpc
  imports Prelude
begin

text \<open>
  The low-density parity-check codes of \<open>core/aether-fec/src/ldpc.rs\<close>: choosing a lifting size
  and a base graph, building a code, systematic encoding, the parity check and the layered
  min-sum decoder.

  The base-graph tables are a parameter: \<open>build.rs\<close> generates them.  A code is a value of
  \<open>fec_code\<close>; a \<open>panic!\<close> of the source (an index out of range, the \<open>expect\<close> of
  \<open>compute_p1_shift\<close>) is \<open>None\<close>.
\<close>

section \<open>Lifting sizes and base graphs\<close>

definition FILLER_LLR :: f64 where "FILLER_LLR = 1000"

definition LIFTING_SETS :: "nat list list" where
  "LIFTING_SETS =
    [[2, 4, 8, 16, 32, 64, 128, 256],
     [3, 6, 12, 24, 48, 96, 192, 384],
     [5, 10, 20, 40, 80, 160, 320],
     [7, 14, 28, 56, 112, 224],
     [9, 18, 36, 72, 144, 288],
     [11, 22, 44, 88, 176, 352],
     [13, 26, 52, 104, 208],
     [15, 30, 60, 120, 240]]"

definition all_lifting_sizes :: "nat list" where
  "all_lifting_sizes = sort (concat LIFTING_SETS)"

definition lifting_set_index :: "nat \<Rightarrow> nat option" where
  "lifting_set_index z = position (\<lambda>s. z \<in> set s) LIFTING_SETS"

definition kb_for :: "u8 \<Rightarrow> nat \<Rightarrow> nat" where
  "kb_for bg info_len =
     (if bg = 1 then 22
      else if info_len > 640 then 10
      else if info_len > 560 then 9
      else if info_len > 192 then 8
      else 6)"

datatype fec_error =
    BadBaseGraph u8
  | BadLiftingSize nat
  | BadLength nat nat
  | BlockTooLong nat nat
  | BadRedundancyVersion u8

definition select_lifting_size :: "u8 \<Rightarrow> nat \<Rightarrow> fec_error + nat" where
  "select_lifting_size bg info_len =
     (let kb = kb_for bg info_len
      in case find (\<lambda>z. kb * z \<ge> info_len) all_lifting_sizes of
           Some z \<Rightarrow> Inr z
         | None \<Rightarrow> Inl (BlockTooLong info_len (kb * 384)))"

definition select_base_graph :: "nat \<Rightarrow> f64 \<Rightarrow> u8" where
  "select_base_graph payload_bits rate =
     (if payload_bits \<le> 292 \<or> (payload_bits \<le> 3824 \<and> rate \<le> 0.67) \<or> rate \<le> 0.25 then 2 else 1)"

lemma find_sorted:
  "sorted xs \<Longrightarrow> find P xs = Some x \<Longrightarrow> x \<in> set xs \<and> P x \<and> (\<forall>y\<in>set xs. P y \<longrightarrow> x \<le> y)"
  by (induction xs) (auto split: if_splits)

lemma sorted_lifting_sizes: "sorted all_lifting_sizes" "set all_lifting_sizes = set (concat LIFTING_SETS)"
  by (simp_all add: all_lifting_sizes_def)

lemma lifting_max: "z \<in> set all_lifting_sizes \<Longrightarrow> z \<le> 384" "384 \<in> set all_lifting_sizes"
  by (auto simp: sorted_lifting_sizes LIFTING_SETS_def)

lemma lifting_pos: "z \<in> set all_lifting_sizes \<Longrightarrow> 2 \<le> z"
  by (auto simp: sorted_lifting_sizes LIFTING_SETS_def)

lemma select_lifting_size_cases:
  "(case select_lifting_size bg n of
      Inr z \<Rightarrow> z \<in> set all_lifting_sizes \<and> n \<le> kb_for bg n * z \<and>
        (\<forall>z'\<in>set all_lifting_sizes. z' < z \<longrightarrow> kb_for bg n * z' < n)
    | Inl e \<Rightarrow> e = BlockTooLong n (kb_for bg n * 384) \<and> kb_for bg n * 384 < n)"
proof (cases "find (\<lambda>z. n \<le> kb_for bg n * z) all_lifting_sizes")
  case None
  then have "kb_for bg n * 384 < n"
    using lifting_max(2) by (auto simp: find_None_iff)
  with None show ?thesis
    by (simp add: select_lifting_size_def)
next
  case (Some z)
  with find_sorted [OF sorted_lifting_sizes(1) Some] show ?thesis
    by (auto simp: select_lifting_size_def not_le [symmetric])
qed

lemma lifting_set_index_iff: "lifting_set_index z = None \<longleftrightarrow> z \<notin> set all_lifting_sizes"
  by (auto simp: lifting_set_index_def position_None_iff sorted_lifting_sizes)

section \<open>Building a code\<close>

text \<open>A base graph: rows, columns, and per nonzero block its place and the shift for each set.\<close>

type_synonym base_graph = "nat \<times> nat \<times> (nat \<times> nat \<times> nat list) list"

record fec_code =
  fc_bg :: u8
  fc_z :: nat
  fc_kb :: nat
  fc_rows :: nat
  fc_k :: nat
  fc_n_full :: nat
  fc_n_cb :: nat
  fc_block_rows :: "(nat \<times> nat) list list"
  fc_p1_shift :: nat

definition rotate_into :: "bytes \<Rightarrow> bytes \<Rightarrow> nat \<Rightarrow> bytes" where
  "rotate_into dst src shift =
     map (\<lambda>r. dst ! r XOR src ! ((r + shift) mod length src)) [0..<length dst]"

definition compute_p1_shift :: "fec_code \<Rightarrow> nat option" where
  "compute_p1_shift c =
     (let z = fc_z c; unit = (replicate z 0)[0 := 1];
          acc = foldl (\<lambda>acc row. foldl (\<lambda>acc (col, shift). if col = fc_kb c then rotate_into acc unit shift else acc) acc row)
                  (replicate z 0) (take 4 (fc_block_rows c))
      in if length (fc_block_rows c) < 4 then None
         else case position (\<lambda>b. b \<noteq> 0) acc of
                None \<Rightarrow> None
              | Some pos \<Rightarrow> Some ((z - pos) mod z))"

text \<open>The loop that files the entries under their rows; a row past the end panics.\<close>

definition file_entry :: "nat \<Rightarrow> nat \<Rightarrow> (nat \<times> nat) list list option \<Rightarrow> nat \<times> nat \<times> nat list \<Rightarrow> (nat \<times> nat) list list option" where
  "file_entry i z rows entry =
     (case rows of None \<Rightarrow> None
      | Some rows \<Rightarrow>
          let (row, col, shifts) = entry
          in if row < length rows \<and> i < length shifts
             then Some (rows[row := rows ! row @ [(col, shifts ! i mod z)]])
             else None)"

definition code_new :: "base_graph \<Rightarrow> base_graph \<Rightarrow> u8 \<Rightarrow> nat \<Rightarrow> (fec_error + fec_code) option" where
  "code_new bg1 bg2 bg z =
     (if bg \<noteq> 1 \<and> bg \<noteq> 2 then Some (Inl (BadBaseGraph bg))
      else let (rows, cols, entries) = (if bg = 1 then bg1 else bg2)
      in case lifting_set_index z of
           None \<Rightarrow> Some (Inl (BadLiftingSize z))
         | Some i \<Rightarrow>
             let kb = (if bg = 1 then 22 else 10) in
             case foldl (file_entry i z) (Some (replicate rows [])) entries of
               None \<Rightarrow> None
             | Some block_rows \<Rightarrow>
                 let code = \<lparr>fc_bg = bg, fc_z = z, fc_kb = kb, fc_rows = rows, fc_k = kb * z,
                   fc_n_full = cols * z, fc_n_cb = (cols - 2) * z, fc_block_rows = block_rows, fc_p1_shift = 0\<rparr>
                 in (case compute_p1_shift code of
                       None \<Rightarrow> None
                     | Some p \<Rightarrow> Some (Inr (code\<lparr>fc_p1_shift := p\<rparr>))))"

section \<open>Encoding and the parity check\<close>

definition block :: "fec_code \<Rightarrow> bytes \<Rightarrow> nat \<Rightarrow> bytes" where
  "block c blocks col = take (fc_z c) (drop (col * fc_z c) blocks)"

definition row_sum :: "fec_code \<Rightarrow> bytes \<Rightarrow> nat \<Rightarrow> (nat \<Rightarrow> bool) \<Rightarrow> bytes" where
  "row_sum c blocks row keep =
     foldl (\<lambda>acc (col, shift). if keep col then rotate_into acc (block c blocks col) shift else acc)
       (replicate (fc_z c) 0) (fc_block_rows c ! row)"

text \<open>\<open>copy_from_slice\<close> into the codeword from a position on.\<close>

definition copy_into :: "bytes \<Rightarrow> nat \<Rightarrow> bytes \<Rightarrow> bytes" where
  "copy_into cw pos vs = take pos cw @ vs @ drop (pos + length vs) cw"

text \<open>The first parity block: sum the four core rows, undo the shift.\<close>

definition core_sum :: "fec_code \<Rightarrow> bytes \<Rightarrow> bytes" where
  "core_sum c cw =
     foldl (\<lambda>acc row. map2 (XOR) acc (row_sum c cw row (\<lambda>col. col < fc_kb c))) (replicate (fc_z c) 0) [0..<4]"

definition first_parity :: "fec_code \<Rightarrow> bytes \<Rightarrow> bytes" where
  "first_parity c cw =
     (let z = fc_z c; s0123 = core_sum c cw
      in foldl (\<lambda>cw r. cw[fc_kb c * z + r := s0123 ! ((r + z - fc_p1_shift c mod z) mod z)]) cw [0..<z])"

text \<open>The other three core parities: a round finds the first row with one block unknown and solves it.\<close>

definition unknown_in :: "fec_code \<Rightarrow> bool list \<Rightarrow> nat \<Rightarrow> nat list" where
  "unknown_in c known row =
     filter (\<lambda>col. col < fc_kb c + 4 \<and> \<not> known ! col) (map fst (fc_block_rows c ! row))"

definition core_round :: "fec_code \<Rightarrow> bytes \<times> bool list \<Rightarrow> bytes \<times> bool list" where
  "core_round c st =
     (let (cw, known) = st
      in case find (\<lambda>row. length (unknown_in c known row) = 1) [0..<4] of
           None \<Rightarrow> (cw, known)
         | Some row \<Rightarrow>
             let target = hd (unknown_in c known row);
                 v = row_sum c cw row (\<lambda>col. col < fc_kb c + 4 \<and> known ! col)
             in (copy_into cw (target * fc_z c) v, known[target := True]))"

definition ext_step :: "fec_code \<Rightarrow> bytes \<times> bool list \<Rightarrow> nat \<Rightarrow> bytes \<times> bool list" where
  "ext_step c st row =
     (let (cw, known) = st; target = fc_kb c + row;
          v = row_sum c cw row (\<lambda>col. known ! col)
      in (copy_into cw (target * fc_z c) v, known[target := True]))"

definition fec_encode :: "fec_code \<Rightarrow> bytes \<Rightarrow> fec_error + bytes" where
  "fec_encode c info =
     (if length info \<noteq> fc_k c then Inl (BadLength (fc_k c) (length info))
      else
        let cw = copy_into (replicate (fc_n_full c) 0) 0 info;
            cw = first_parity c cw;
            known = map (\<lambda>i. i < fc_kb c + 1) [0..<fc_kb c + 4];
            (cw, known) = core_round c (core_round c (core_round c (cw, known)));
            known_any = map (\<lambda>col. col < fc_kb c + 4 \<and> known ! col) [0..<fc_n_full c div fc_z c];
            (cw, known_any) = foldl (ext_step c) (cw, known_any) [4..<fc_rows c]
        in Inr cw)"

definition syndrome_ok :: "fec_code \<Rightarrow> bytes \<Rightarrow> fec_error + bool" where
  "syndrome_ok c cw =
     (if length cw \<noteq> fc_n_full c then Inl (BadLength (fc_n_full c) (length cw))
      else Inr (\<forall>row\<in>set [0..<fc_rows c]. \<forall>b\<in>set (row_sum c cw row (\<lambda>_. True)). b = 0))"

section \<open>Sums over GF(2)\<close>

definition xsum :: "bytes \<Rightarrow> u8" where
  "xsum xs = foldr (XOR) xs 0"

lemma xsum_simps [simp]: "xsum [] = 0" "xsum (x # xs) = x XOR xsum xs" "xsum (xs @ ys) = xsum xs XOR xsum ys"
  by (simp_all add: xsum_def) (induction xs; simp add: xsum_def xor.assoc)

lemma xsum_split:
  "xsum (map f xs) = xsum (map f (filter P xs)) XOR xsum (map f (filter (\<lambda>x. \<not> P x) xs))"
  by (induction xs) (auto simp: ac_simps)

text \<open>What one block contributes to element \<open>r\<close> of a row.\<close>

definition term_at :: "fec_code \<Rightarrow> bytes \<Rightarrow> nat \<Rightarrow> nat \<times> nat \<Rightarrow> u8" where
  "term_at c cw r = (\<lambda>(col, shift). cw ! (col * fc_z c + (r + shift) mod fc_z c))"

definition row_at :: "fec_code \<Rightarrow> bytes \<Rightarrow> nat \<Rightarrow> (nat \<Rightarrow> bool) \<Rightarrow> nat \<Rightarrow> u8" where
  "row_at c cw row keep r = xsum (map (term_at c cw r) (filter (\<lambda>e. keep (fst e)) (fc_block_rows c ! row)))"

lemma length_rotate_into [simp]: "length (rotate_into dst src shift) = length dst"
  by (simp add: rotate_into_def)

lemma block_nth:
  "(col + 1) * fc_z c \<le> length cw \<Longrightarrow> i < fc_z c \<Longrightarrow> block c cw col ! i = cw ! (col * fc_z c + i)"
  by (simp add: block_def)

lemma length_block: "(col + 1) * fc_z c \<le> length cw \<Longrightarrow> length (block c cw col) = fc_z c"
  by (simp add: block_def)

lemma row_sum_foldl:
  assumes "0 < fc_z c" and "length acc = fc_z c"
    and "\<forall>(col, s)\<in>set es. (col + 1) * fc_z c \<le> length cw"
  shows "length (foldl (\<lambda>acc (col, shift). if keep col then rotate_into acc (block c cw col) shift else acc) acc es) = fc_z c \<and>
    (\<forall>r<fc_z c. foldl (\<lambda>acc (col, shift). if keep col then rotate_into acc (block c cw col) shift else acc) acc es ! r =
      acc ! r XOR xsum (map (term_at c cw r) (filter (\<lambda>e. keep (fst e)) es)))"
  using assms(2,3)
proof (induction es arbitrary: acc)
  case (Cons e es)
  obtain col s where e: "e = (col, s)"
    by (cases e)
  let ?acc = "if keep col then rotate_into acc (block c cw col) s else acc"
  have "length ?acc = fc_z c"
    using Cons.prems by simp
  moreover have "rotate_into acc (block c cw col) s ! r = acc ! r XOR term_at c cw r (col, s)" if "r < fc_z c" for r
    using Cons.prems that assms(1)
    by (simp add: e rotate_into_def length_block block_nth term_at_def del: mult_Suc mult_Suc_right)
  ultimately show ?case
    using Cons.IH [of ?acc] Cons.prems by (simp add: e xor.assoc)
qed simp

definition in_range :: "fec_code \<Rightarrow> bytes \<Rightarrow> nat \<Rightarrow> bool" where
  "in_range c cw row \<longleftrightarrow> (\<forall>(col, s)\<in>set (fc_block_rows c ! row). (col + 1) * fc_z c \<le> length cw)"

lemma row_sum_nth:
  assumes "0 < fc_z c" and "in_range c cw row"
  shows "length (row_sum c cw row keep) = fc_z c"
    and "r < fc_z c \<Longrightarrow> row_sum c cw row keep ! r = row_at c cw row keep r"
  using row_sum_foldl [OF assms(1), of "replicate (fc_z c) 0" "fc_block_rows c ! row" cw keep] assms(2)
  by (simp_all add: row_sum_def row_at_def in_range_def)

lemma copy_into_nth:
  assumes "pos + length vs \<le> length cw"
  shows "length (copy_into cw pos vs) = length cw"
    and "copy_into cw pos vs ! i = (if pos \<le> i \<and> i < pos + length vs then vs ! (i - pos) else cw ! i)"
  using assms by (auto simp: copy_into_def nth_append)

end
