(* ===== verification/Ldpc_Encode.thy ===== *)
theory Ldpc_Encode
  imports Ldpc
begin

text \<open>
  The LDPC encoder is correct: what it writes begins with the information bits and satisfies
  every parity check, and it is the only word that does.  The structure of the base graphs that
  this takes is \<open>code_ok\<close>: a dual-diagonal core whose first parity column sums to a
  single rotation, and one identity block per extension row.
\<close>

section \<open>The structure of a code\<close>

definition core_pattern :: "nat \<Rightarrow> (nat \<times> nat) list list" where
  "core_pattern kb =
     [[(kb + 1, 0)], [(kb + 1, 0), (kb + 2, 0)], [(kb + 2, 0), (kb + 3, 0)], [(kb + 3, 0)]]"

definition first_column :: "fec_code \<Rightarrow> nat list" where
  "first_column c =
     concat (map (\<lambda>row. map snd (filter (\<lambda>e. fst e = fc_kb c) (fc_block_rows c ! row))) [0..<4])"

definition code_ok :: "fec_code \<Rightarrow> bool" where
  "code_ok c \<longleftrightarrow>
     0 < fc_z c \<and> 4 \<le> fc_rows c \<and> length (fc_block_rows c) = fc_rows c \<and>
     fc_k c = fc_kb c * fc_z c \<and> fc_n_full c = (fc_kb c + fc_rows c) * fc_z c \<and>
     fc_n_cb c = (fc_kb c + fc_rows c - 2) * fc_z c \<and> 2 \<le> fc_kb c \<and>
     (\<forall>row<4. \<forall>e\<in>set (fc_block_rows c ! row). fst e < fc_kb c + 4) \<and>
     map (\<lambda>row. filter (\<lambda>e. fc_kb c < fst e) (fc_block_rows c ! row)) [0..<4] = core_pattern (fc_kb c) \<and>
     (\<forall>row. 4 \<le> row \<and> row < fc_rows c \<longrightarrow>
        filter (\<lambda>e. fc_kb c + 4 \<le> fst e) (fc_block_rows c ! row) = [(fc_kb c + row, 0)]) \<and>
     (\<exists>a. first_column c = [a, fc_p1_shift c, a]) \<and> fc_p1_shift c < fc_z c \<and>
     (\<forall>row<fc_rows c. 2 \<le> length (fc_block_rows c ! row))"

lemma code_okD:
  assumes "code_ok c"
  shows "0 < fc_z c" "4 \<le> fc_rows c" "length (fc_block_rows c) = fc_rows c"
    "fc_k c = fc_kb c * fc_z c" "fc_n_full c = (fc_kb c + fc_rows c) * fc_z c" "fc_p1_shift c < fc_z c"
    "fc_n_cb c = (fc_kb c + fc_rows c - 2) * fc_z c" "2 \<le> fc_kb c"
  using assms by (auto simp: code_ok_def)

lemma row_degree: "code_ok c \<Longrightarrow> row < fc_rows c \<Longrightarrow> 2 \<le> length (fc_block_rows c ! row)"
  by (simp add: code_ok_def)

lemma upto_4: "[0..<4] = [0, 1, 2, 3 :: nat]"
  by (simp add: numeral_eq_Suc)

lemma core_rows:
  assumes "code_ok c"
  shows "filter (\<lambda>e. fc_kb c < fst e) (fc_block_rows c ! 0) = [(fc_kb c + 1, 0)]"
    "filter (\<lambda>e. fc_kb c < fst e) (fc_block_rows c ! 1) = [(fc_kb c + 1, 0), (fc_kb c + 2, 0)]"
    "filter (\<lambda>e. fc_kb c < fst e) (fc_block_rows c ! 2) = [(fc_kb c + 2, 0), (fc_kb c + 3, 0)]"
    "filter (\<lambda>e. fc_kb c < fst e) (fc_block_rows c ! 3) = [(fc_kb c + 3, 0)]"
  using assms by (simp_all add: code_ok_def core_pattern_def upto_4)

lemma core_cols: "code_ok c \<Longrightarrow> row < 4 \<Longrightarrow> e \<in> set (fc_block_rows c ! row) \<Longrightarrow> fst e < fc_kb c + 4"
  by (auto simp: code_ok_def)

lemma ext_rows:
  assumes "code_ok c" and "4 \<le> row" and "row < fc_rows c"
  shows "filter (\<lambda>e. fc_kb c + 4 \<le> fst e) (fc_block_rows c ! row) = [(fc_kb c + row, 0)]"
  using assms by (simp add: code_ok_def)

lemma ext_cols:
  assumes "code_ok c" and "4 \<le> row" and "row < fc_rows c" and "e \<in> set (fc_block_rows c ! row)"
  shows "fst e < fc_kb c + 4 \<or> e = (fc_kb c + row, 0)"
proof (cases "fst e < fc_kb c + 4")
  case False
  with assms(4) have "e \<in> set (filter (\<lambda>e. fc_kb c + 4 \<le> fst e) (fc_block_rows c ! row))"
    by simp
  then show ?thesis
    unfolding ext_rows [OF assms(1-3)] by simp
qed simp

lemma cols_bound:
  assumes "code_ok c" and "row < fc_rows c" and "e \<in> set (fc_block_rows c ! row)"
  shows "fst e < fc_kb c + fc_rows c"
  using core_cols [OF assms(1) _ assms(3)] ext_cols [OF assms(1) _ assms(2,3)] assms(2) code_okD(2) [OF assms(1)]
  by (cases "row < 4") fastforce+

lemma in_range:
  assumes "code_ok c" and "row < fc_rows c" and "length cw = fc_n_full c"
  shows "in_range c cw row"
proof -
  have "(col + 1) * fc_z c \<le> (fc_kb c + fc_rows c) * fc_z c" if "(col, s) \<in> set (fc_block_rows c ! row)" for col s
    using cols_bound [OF assms(1,2) that] by (intro mult_right_mono) auto
  with assms show ?thesis
    by (auto simp: in_range_def code_okD)
qed

section \<open>Blocks\<close>

definition blk :: "fec_code \<Rightarrow> bytes \<Rightarrow> nat \<Rightarrow> nat \<Rightarrow> u8" where
  "blk c cw col r = cw ! (col * fc_z c + r)"

lemma term_at_blk: "term_at c cw r (col, s) = blk c cw col ((r + s) mod fc_z c)"
  by (simp add: term_at_def blk_def)

lemma row_at_cong:
  assumes "0 < fc_z c"
    and "\<And>e r. e \<in> set (fc_block_rows c ! row) \<Longrightarrow> keep (fst e) \<Longrightarrow> r < fc_z c \<Longrightarrow> blk c cw (fst e) r = blk c cw' (fst e) r"
  shows "row_at c cw row keep r = row_at c cw' row keep r"
proof -
  have "map (term_at c cw r) (filter (\<lambda>e. keep (fst e)) (fc_block_rows c ! row)) =
        map (term_at c cw' r) (filter (\<lambda>e. keep (fst e)) (fc_block_rows c ! row))"
    using assms by (intro map_cong) (auto simp: term_at_blk)
  then show ?thesis
    unfolding row_at_def by (rule arg_cong)
qed

lemma row_at_filter_cong:
  assumes "\<And>e. e \<in> set (fc_block_rows c ! row) \<Longrightarrow> keep (fst e) = keep' (fst e)"
  shows "row_at c cw row keep r = row_at c cw row keep' r"
proof -
  have "filter (\<lambda>e. keep (fst e)) (fc_block_rows c ! row) = filter (\<lambda>e. keep' (fst e)) (fc_block_rows c ! row)"
    using assms by (intro filter_cong) auto
  then show ?thesis
    by (simp add: row_at_def)
qed

lemma row_at_split:
  assumes "\<And>col. keep col \<longleftrightarrow> keep1 col \<or> keep2 col" and "\<And>col. \<not> (keep1 col \<and> keep2 col)"
  shows "row_at c cw row keep r = row_at c cw row keep1 r XOR row_at c cw row keep2 r"
proof -
  let ?es = "filter (\<lambda>e. keep (fst e)) (fc_block_rows c ! row)"
  have "filter (\<lambda>e. keep1 (fst e)) ?es = filter (\<lambda>e. keep1 (fst e)) (fc_block_rows c ! row)"
    "filter (\<lambda>e. \<not> keep1 (fst e)) ?es = filter (\<lambda>e. keep2 (fst e)) (fc_block_rows c ! row)"
    using assms by (auto intro!: filter_cong)
  with xsum_split [of "term_at c cw r" ?es "\<lambda>e. keep1 (fst e)"] show ?thesis
    by (simp add: row_at_def)
qed

lemma block_disjoint:
  fixes col target r z :: nat
  assumes "col \<noteq> target" and "r < z"
  shows "\<not> (target * z \<le> col * z + r \<and> col * z + r < target * z + z)"
proof (cases "col < target")
  case True
  then have "(col + 1) * z \<le> target * z"
    by (intro mult_right_mono) auto
  with assms show ?thesis
    by simp
next
  case False
  with assms have "(target + 1) * z \<le> col * z"
    by (intro mult_right_mono) auto
  then show ?thesis
    by simp
qed

lemma blk_copy_into:
  assumes "(target + 1) * fc_z c \<le> length cw" and "length v = fc_z c" and "r < fc_z c"
  shows "blk c (copy_into cw (target * fc_z c) v) col r = (if col = target then v ! r else blk c cw col r)"
  using assms block_disjoint [of col target r "fc_z c"]
  by (cases "col = target") (auto simp: blk_def copy_into_nth)

text \<open>A word satisfies the checks when every row sums to zero.\<close>

definition row_zero :: "fec_code \<Rightarrow> bytes \<Rightarrow> nat \<Rightarrow> bool" where
  "row_zero c cw row \<longleftrightarrow> (\<forall>r<fc_z c. row_at c cw row (\<lambda>_. True) r = 0)"

lemma syndrome_iff:
  assumes "code_ok c" and "length cw = fc_n_full c"
  shows "syndrome_ok c cw = Inr (\<forall>row<fc_rows c. row_zero c cw row)"
proof -
  have "(\<forall>b\<in>set (row_sum c cw row (\<lambda>_. True)). b = 0) \<longleftrightarrow> row_zero c cw row" if "row < fc_rows c" for row
    using row_sum_nth [OF code_okD(1) [OF assms(1)] in_range [OF assms(1) that assms(2)]]
    by (auto simp: row_zero_def all_set_conv_all_nth)
  with assms(2) show ?thesis
    by (auto simp: syndrome_ok_def)
qed

text \<open>An extension row, as an equation for its own parity block.\<close>

lemma ext_row_at:
  assumes "code_ok c" and "4 \<le> row" and "row < fc_rows c" and "r < fc_z c"
  shows "row_at c cw row (\<lambda>_. True) r = row_at c cw row (\<lambda>col. col < fc_kb c + 4) r XOR blk c cw (fc_kb c + row) r"
proof -
  have "row_at c cw row (\<lambda>_. True) r =
    row_at c cw row (\<lambda>col. col < fc_kb c + 4) r XOR row_at c cw row (\<lambda>col. fc_kb c + 4 \<le> col) r"
    by (rule row_at_split) auto
  then show ?thesis
    using assms(4) by (simp add: row_at_def ext_rows [OF assms(1-3)] term_at_blk)
qed

text \<open>The core rows, as equations over the information and the four core parity blocks.\<close>

definition info_at :: "fec_code \<Rightarrow> bytes \<Rightarrow> nat \<Rightarrow> nat \<Rightarrow> u8" where
  "info_at c cw row r = row_at c cw row (\<lambda>col. col < fc_kb c) r"

definition first_at :: "fec_code \<Rightarrow> bytes \<Rightarrow> nat \<Rightarrow> nat \<Rightarrow> u8" where
  "first_at c cw row r = row_at c cw row (\<lambda>col. col = fc_kb c) r"

lemma core_row_at:
  assumes "code_ok c" and "row < 4"
  shows "row_at c cw row (\<lambda>_. True) r =
    (info_at c cw row r XOR first_at c cw row r) XOR row_at c cw row (\<lambda>col. fc_kb c < col) r"
proof -
  have "row_at c cw row (\<lambda>_. True) r =
    row_at c cw row (\<lambda>col. col \<le> fc_kb c) r XOR row_at c cw row (\<lambda>col. fc_kb c < col) r"
    by (rule row_at_split) auto
  moreover have "row_at c cw row (\<lambda>col. col \<le> fc_kb c) r = info_at c cw row r XOR first_at c cw row r"
    unfolding info_at_def first_at_def by (rule row_at_split) auto
  ultimately show ?thesis
    by simp
qed

lemma core_tail:
  assumes "code_ok c" and "r < fc_z c"
  shows "row_at c cw 0 (\<lambda>col. fc_kb c < col) r = blk c cw (fc_kb c + 1) r"
    "row_at c cw 1 (\<lambda>col. fc_kb c < col) r = blk c cw (fc_kb c + 1) r XOR blk c cw (fc_kb c + 2) r"
    "row_at c cw 2 (\<lambda>col. fc_kb c < col) r = blk c cw (fc_kb c + 2) r XOR blk c cw (fc_kb c + 3) r"
    "row_at c cw 3 (\<lambda>col. fc_kb c < col) r = blk c cw (fc_kb c + 3) r"
  using assms(2) unfolding row_at_def core_rows [OF assms(1)] by (simp_all add: term_at_blk)

text \<open>The first parity column: two of its three blocks cancel.\<close>

lemma xsum_concat: "xsum (concat xss) = xsum (map xsum xss)"
  by (induction xss) auto

lemma first_at_eq:
  "first_at c cw row r = xsum (map (\<lambda>s. blk c cw (fc_kb c) ((r + s) mod fc_z c))
     (map snd (filter (\<lambda>e. fst e = fc_kb c) (fc_block_rows c ! row))))"
proof -
  have "map (term_at c cw r) (filter (\<lambda>e. fst e = fc_kb c) es) =
    map (\<lambda>s. blk c cw (fc_kb c) ((r + s) mod fc_z c)) (map snd (filter (\<lambda>e. fst e = fc_kb c) es))" for es
    by (induction es) (auto simp: term_at_blk)
  then show ?thesis
    unfolding first_at_def row_at_def by (rule arg_cong)
qed

lemma first_at_sum:
  assumes "code_ok c"
  shows "first_at c cw 0 r XOR first_at c cw 1 r XOR first_at c cw 2 r XOR first_at c cw 3 r =
    blk c cw (fc_kb c) ((r + fc_p1_shift c) mod fc_z c)"
proof -
  let ?t = "\<lambda>s. blk c cw (fc_kb c) ((r + s) mod fc_z c)"
  obtain a where a: "first_column c = [a, fc_p1_shift c, a]"
    using assms by (auto simp: code_ok_def)
  have "first_at c cw 0 r XOR first_at c cw 1 r XOR first_at c cw 2 r XOR first_at c cw 3 r =
    xsum (map ?t (first_column c))"
    by (simp add: first_at_eq first_column_def upto_4 xor.assoc del: map_map)
  also have "\<dots> = ?t (fc_p1_shift c)"
    by (simp add: a ac_simps)
  finally show ?thesis .
qed

section \<open>The core parities\<close>

lemma fold_update_nth:
  "length (foldl (\<lambda>cw r. cw[k + r := f r]) cw [0..<n]) = length cw \<and>
   (k + n \<le> length cw \<longrightarrow> (\<forall>i. foldl (\<lambda>cw r. cw[k + r := f r]) cw [0..<n] ! i =
     (if k \<le> i \<and> i < k + n then f (i - k) else cw ! i)))"
proof (induction n)
  case (Suc n)
  show ?case
    using Suc by (auto simp: nth_list_update less_Suc_eq)
qed auto

lemma blk_first_parity:
  assumes "code_ok c" and "length cw = fc_n_full c" and "r < fc_z c"
  shows "length (first_parity c cw) = fc_n_full c"
    and "blk c (first_parity c cw) col r =
      (if col = fc_kb c then core_sum c cw ! ((r + fc_z c - fc_p1_shift c mod fc_z c) mod fc_z c) else blk c cw col r)"
proof -
  define f where "f r = core_sum c cw ! ((r + fc_z c - fc_p1_shift c mod fc_z c) mod fc_z c)" for r
  have fp: "first_parity c cw = foldl (\<lambda>cw r. cw[fc_kb c * fc_z c + r := f r]) cw [0..<fc_z c]"
    by (simp add: first_parity_def Let_def f_def)
  note n = fold_update_nth [of "fc_kb c * fc_z c" f cw "fc_z c", folded fp]
  show "length (first_parity c cw) = fc_n_full c"
    using n assms by simp
  have "(fc_kb c + 1) * fc_z c \<le> (fc_kb c + fc_rows c) * fc_z c"
    using code_okD(2) [OF assms(1)] by (intro mult_right_mono) auto
  then have "fc_kb c * fc_z c + fc_z c \<le> length cw"
    using assms code_okD(5) [OF assms(1)] by simp
  then have "first_parity c cw ! (col * fc_z c + r) =
    (if fc_kb c * fc_z c \<le> col * fc_z c + r \<and> col * fc_z c + r < fc_kb c * fc_z c + fc_z c
     then f (col * fc_z c + r - fc_kb c * fc_z c) else cw ! (col * fc_z c + r))"
    using n by blast
  with assms(3) block_disjoint [of col "fc_kb c" r "fc_z c"]
  show "blk c (first_parity c cw) col r = (if col = fc_kb c then f r else blk c cw col r)"
    by (cases "col = fc_kb c") (auto simp: blk_def)
qed

lemma core_sum_nth:
  assumes "code_ok c" and "length cw = fc_n_full c" and "r < fc_z c"
  shows "core_sum c cw ! r = info_at c cw 0 r XOR info_at c cw 1 r XOR info_at c cw 2 r XOR info_at c cw 3 r"
proof -
  have "row < 4 \<Longrightarrow> row < fc_rows c" for row
    using code_okD(2) [OF assms(1)] by simp
  then have "length (row_sum c cw row (\<lambda>col. col < fc_kb c)) = fc_z c \<and>
    row_sum c cw row (\<lambda>col. col < fc_kb c) ! r = info_at c cw row r" if "row < 4" for row
    using row_sum_nth [OF code_okD(1) [OF assms(1)] in_range [OF assms(1) _ assms(2)]] that assms(3)
    by (simp add: info_at_def)
  from this [of 0] this [of 1] this [of 2] this [of 3] show ?thesis
    using assms(3) by (simp add: core_sum_def upto_4 xor.assoc)
qed

text \<open>The first parity block makes the four core rows add up to zero.\<close>

lemma first_parity_rotation:
  fixes r z s :: nat
  assumes "r < z" and "s < z"
  shows "((r + s) mod z + z - s mod z) mod z = r"
proof (cases "r + s < z")
  case False
  with assms have "(r + s) mod z = r + s - z"
    by (simp add: mod_if)
  with assms False show ?thesis
    by simp
qed (use assms in simp)

lemma first_parity_eq:
  assumes "code_ok c" and "length cw = fc_n_full c" and "r < fc_z c"
  shows "blk c (first_parity c cw) (fc_kb c) ((r + fc_p1_shift c) mod fc_z c) =
    info_at c cw 0 r XOR info_at c cw 1 r XOR info_at c cw 2 r XOR info_at c cw 3 r"
  using blk_first_parity(2) [OF assms(1,2), of "(r + fc_p1_shift c) mod fc_z c" "fc_kb c"]
    code_okD(1,6) [OF assms(1)] first_parity_rotation [OF assms(3) code_okD(6) [OF assms(1)]]
    core_sum_nth [OF assms]
  by simp

text \<open>The rounds of substitution: with the blocks up to \<open>kb + i\<close> known, round \<open>i\<close> solves row \<open>i\<close>.\<close>

definition known_upto :: "fec_code \<Rightarrow> nat \<Rightarrow> bool list" where
  "known_upto c n = map (\<lambda>i. i < fc_kb c + n) [0..<fc_kb c + 4]"

lemma unknown_in_core:
  assumes "code_ok c" and "row < 4" and "1 \<le> n"
  shows "unknown_in c (known_upto c n) row =
    filter (\<lambda>col. fc_kb c + n \<le> col) (map fst (filter (\<lambda>e. fc_kb c < fst e) (fc_block_rows c ! row)))"
proof -
  have "filter (\<lambda>col. col < fc_kb c + 4 \<and> \<not> known_upto c n ! col) (map fst (fc_block_rows c ! row)) =
    filter (\<lambda>col. fc_kb c < col \<and> fc_kb c + n \<le> col) (map fst (fc_block_rows c ! row))"
    using core_cols [OF assms(1,2)] assms(3) by (intro filter_cong) (auto simp: known_upto_def)
  then show ?thesis
    by (simp add: unknown_in_def filter_map o_def conj_commute)
qed

lemma known_upto_update:
  "n < 4 \<Longrightarrow> (known_upto c n)[fc_kb c + n := True] = known_upto c (Suc n)"
  by (intro nth_equalityI) (auto simp: known_upto_def nth_list_update less_Suc_eq)

text \<open>What round \<open>n\<close> (1, 2 or 3) does.\<close>

lemma core_round_eq:
  assumes "code_ok c" and "n \<in> {1, 2, 3}"
  shows "core_round c (cw, known_upto c n) =
    (copy_into cw ((fc_kb c + n) * fc_z c)
       (row_sum c cw (n - 1) (\<lambda>col. col < fc_kb c + 4 \<and> known_upto c n ! col)),
     known_upto c (Suc n))"
proof -
  note u = unknown_in_core [OF assms(1)]
  have n: "n < 4" "1 \<le> n"
    using assms(2) by auto
  have u0: "unknown_in c (known_upto c n) 0 = (if n = 1 then [fc_kb c + 1] else [])"
    using u [of 0 n] n by (simp add: core_rows [OF assms(1)])
  have u1: "unknown_in c (known_upto c n) 1 = (if n = 1 then [fc_kb c + 1, fc_kb c + 2] else if n = 2 then [fc_kb c + 2] else [])"
    using u [of 1 n] n unfolding core_rows [OF assms(1)] by (auto simp: less_Suc_eq numeral_eq_Suc)
  have u2: "unknown_in c (known_upto c n) 2 = (if n \<le> 2 then [fc_kb c + 2, fc_kb c + 3] else [fc_kb c + 3])"
    using u [of 2 n] n by (simp add: core_rows [OF assms(1)])
  have "find (\<lambda>row. length (unknown_in c (known_upto c n) row) = 1) [0..<4] = Some (n - 1)"
    using assms(2) u1 [unfolded One_nat_def] by (auto simp: upto_4 u0 u2)
  moreover have "hd (unknown_in c (known_upto c n) (n - 1)) = fc_kb c + n"
    using assms(2) u0 u1 u2 by auto
  ultimately show ?thesis
    using known_upto_update [OF n(1)] by (simp add: core_round_def)
qed

text \<open>The value a round writes, in terms of the row it solves.\<close>

lemma round_value:
  assumes "code_ok c" and "length cw = fc_n_full c" and "n \<in> {1, 2, 3}" and "r < fc_z c"
  shows "length (row_sum c cw (n - 1) (\<lambda>col. col < fc_kb c + 4 \<and> known_upto c n ! col)) = fc_z c"
    and "row_sum c cw (n - 1) (\<lambda>col. col < fc_kb c + 4 \<and> known_upto c n ! col) ! r =
      info_at c cw (n - 1) r XOR first_at c cw (n - 1) r XOR (if n = 1 then 0 else blk c cw (fc_kb c + (n - 1)) r)"
proof -
  have row: "n - 1 < 4" "n - 1 < fc_rows c"
    using assms(3) code_okD(2) [OF assms(1)] by auto
  note rs = row_sum_nth [OF code_okD(1) [OF assms(1)] in_range [OF assms(1) row(2) assms(2)]]
  show "length (row_sum c cw (n - 1) (\<lambda>col. col < fc_kb c + 4 \<and> known_upto c n ! col)) = fc_z c"
    by (rule rs(1))
  let ?mid = "row_at c cw (n - 1) (\<lambda>col. fc_kb c < col \<and> col < fc_kb c + n) r"
  have "row_at c cw (n - 1) (\<lambda>col. col < fc_kb c + 4 \<and> known_upto c n ! col) r =
    row_at c cw (n - 1) (\<lambda>col. col < fc_kb c + n) r"
    using core_cols [OF assms(1) row(1)] by (intro row_at_filter_cong) (auto simp: known_upto_def)
  also have "\<dots> = row_at c cw (n - 1) (\<lambda>col. col \<le> fc_kb c) r XOR ?mid"
    using assms(3) by (intro row_at_split) auto
  also have "row_at c cw (n - 1) (\<lambda>col. col \<le> fc_kb c) r = info_at c cw (n - 1) r XOR first_at c cw (n - 1) r"
    unfolding info_at_def first_at_def by (rule row_at_split) auto
  also have "?mid = (if n = 1 then 0 else blk c cw (fc_kb c + (n - 1)) r)"
  proof -
    have "filter (\<lambda>e. fc_kb c < fst e \<and> fst e < fc_kb c + n) es =
      filter (\<lambda>e. fst e < fc_kb c + n) (filter (\<lambda>e. fc_kb c < fst e) es)" for es :: "(nat \<times> nat) list"
      by (simp add: conj_commute)
    then show ?thesis
      using assms(3,4) unfolding row_at_def
      by (auto simp: core_rows [OF assms(1)] core_rows(2) [OF assms(1), unfolded One_nat_def] term_at_blk
          simp del: filter_filter)
  qed
  finally show "row_sum c cw (n - 1) (\<lambda>col. col < fc_kb c + 4 \<and> known_upto c n ! col) ! r =
      info_at c cw (n - 1) r XOR first_at c cw (n - 1) r XOR (if n = 1 then 0 else blk c cw (fc_kb c + (n - 1)) r)"
    unfolding rs(2) [OF assms(4)] by (simp add: xor.assoc)
qed

text \<open>Two words with the same first \<open>m\<close> blocks.\<close>

definition agree :: "fec_code \<Rightarrow> nat \<Rightarrow> bytes \<Rightarrow> bytes \<Rightarrow> bool" where
  "agree c m cw cw' \<longleftrightarrow> (\<forall>col<m. \<forall>r<fc_z c. blk c cw col r = blk c cw' col r)"

lemma agree_trans: "agree c m cw cw' \<Longrightarrow> agree c n cw' cw'' \<Longrightarrow> agree c (min m n) cw cw''"
  by (simp add: agree_def)

lemma agree_mono: "agree c m cw cw' \<Longrightarrow> n \<le> m \<Longrightarrow> agree c n cw cw'"
  by (simp add: agree_def)

lemma agree_row_at:
  assumes "code_ok c" and "agree c m cw cw'" and "\<And>col. keep col \<Longrightarrow> col < m"
  shows "row_at c cw row keep r = row_at c cw' row keep r"
  using assms code_okD(1) by (intro row_at_cong) (auto simp: agree_def)

lemma agree_core:
  assumes "code_ok c" and "agree c (fc_kb c + 1) cw cw'"
  shows "info_at c cw row r = info_at c cw' row r" "first_at c cw row r = first_at c cw' row r"
  unfolding info_at_def first_at_def by (rule agree_row_at [OF assms]; simp)+

lemma target_in:
  assumes "code_ok c" and "m < fc_kb c + fc_rows c"
  shows "(m + 1) * fc_z c \<le> fc_n_full c"
  using assms unfolding code_okD(5) [OF assms(1)] by (intro mult_right_mono) auto

lemma core_round_step:
  assumes "code_ok c" and "length cw = fc_n_full c" and "n \<in> {1, 2, 3}"
  obtains cw' where "core_round c (cw, known_upto c n) = (cw', known_upto c (Suc n))"
    and "length cw' = fc_n_full c" and "agree c (fc_kb c + n) cw cw'"
    and "\<forall>r<fc_z c. blk c cw' (fc_kb c + n) r =
      info_at c cw (n - 1) r XOR first_at c cw (n - 1) r XOR (if n = 1 then 0 else blk c cw (fc_kb c + (n - 1)) r)"
proof -
  let ?v = "row_sum c cw (n - 1) (\<lambda>col. col < fc_kb c + 4 \<and> known_upto c n ! col)"
  have t: "(fc_kb c + n + 1) * fc_z c \<le> length cw"
    using target_in [OF assms(1), of "fc_kb c + n"] code_okD(2) [OF assms(1)] assms(2,3) by auto
  have l: "length ?v = fc_z c"
    using round_value(1) [OF assms(1-3) code_okD(1) [OF assms(1)]] .
  show thesis
  proof (rule that [OF core_round_eq [OF assms(1,3)]])
    show "length (copy_into cw ((fc_kb c + n) * fc_z c) ?v) = fc_n_full c"
      using t l assms(2) by (subst copy_into_nth) (auto simp: algebra_simps)
    show "agree c (fc_kb c + n) cw (copy_into cw ((fc_kb c + n) * fc_z c) ?v)"
      by (simp add: agree_def blk_copy_into [OF t l] del: One_nat_def)
    show "\<forall>r<fc_z c. blk c (copy_into cw ((fc_kb c + n) * fc_z c) ?v) (fc_kb c + n) r =
      info_at c cw (n - 1) r XOR first_at c cw (n - 1) r XOR (if n = 1 then 0 else blk c cw (fc_kb c + (n - 1)) r)"
      by (simp add: blk_copy_into [OF t l] round_value(2) [OF assms] del: One_nat_def)
  qed
qed

lemma xor_telescope:
  fixes a0 a1 a2 a3 k0 k1 k2 k3 :: u8
  assumes "k0 XOR k1 XOR k2 XOR k3 = a0 XOR a1 XOR a2 XOR a3"
  shows "(a3 XOR k3) XOR (a2 XOR k2 XOR (a1 XOR k1 XOR (a0 XOR k0))) = 0"
proof -
  have "(a3 XOR k3) XOR (a2 XOR k2 XOR (a1 XOR k1 XOR (a0 XOR k0))) =
    (k0 XOR k1 XOR k2 XOR k3) XOR (a0 XOR a1 XOR a2 XOR a3)"
    by (simp add: ac_simps)
  then show ?thesis
    by (simp add: assms)
qed

lemma core_rounds:
  assumes ok: "code_ok c" and len: "length cw = fc_n_full c"
    and p1: "\<forall>r<fc_z c. first_at c cw 0 r XOR first_at c cw 1 r XOR first_at c cw 2 r XOR first_at c cw 3 r =
      info_at c cw 0 r XOR info_at c cw 1 r XOR info_at c cw 2 r XOR info_at c cw 3 r"
  obtains cw' where
    "core_round c (core_round c (core_round c (cw, known_upto c 1))) = (cw', known_upto c 4)"
    and "length cw' = fc_n_full c" and "agree c (fc_kb c + 1) cw cw'" and "\<forall>row<4. row_zero c cw' row"
proof -
  obtain c1 where c1: "core_round c (cw, known_upto c 1) = (c1, known_upto c 2)" "length c1 = fc_n_full c"
    "agree c (fc_kb c + 1) cw c1" "\<forall>r<fc_z c. blk c c1 (fc_kb c + 1) r = info_at c cw 0 r XOR first_at c cw 0 r"
    using core_round_step [OF ok len, of 1] by (auto simp: numeral_2_eq_2)
  obtain c2 where c2: "core_round c (c1, known_upto c 2) = (c2, known_upto c 3)" "length c2 = fc_n_full c"
    "agree c (fc_kb c + 2) c1 c2"
    "\<forall>r<fc_z c. blk c c2 (fc_kb c + 2) r = info_at c c1 1 r XOR first_at c c1 1 r XOR blk c c1 (fc_kb c + 1) r"
    using core_round_step [OF ok c1(2), of 2] by (auto simp: numeral_3_eq_3 numeral_2_eq_2)
  obtain c3 where c3: "core_round c (c2, known_upto c 3) = (c3, known_upto c 4)" "length c3 = fc_n_full c"
    "agree c (fc_kb c + 3) c2 c3"
    "\<forall>r<fc_z c. blk c c3 (fc_kb c + 3) r = info_at c c2 2 r XOR first_at c c2 2 r XOR blk c c2 (fc_kb c + 2) r"
    using core_round_step [OF ok c2(2), of 3] by (auto simp: numeral_eq_Suc)
  have a2: "agree c (fc_kb c + 1) cw c2"
    using agree_trans [OF c1(3) c2(3)] by simp
  have a3: "agree c (fc_kb c + 1) cw c3"
    using agree_trans [OF a2 c3(3)] by simp
  note same = agree_core [OF ok c1(3)] agree_core [OF ok a2] agree_core [OF ok a3]
  have b: "blk c c3 (fc_kb c + 1) r = info_at c cw 0 r XOR first_at c cw 0 r"
    "blk c c3 (fc_kb c + 2) r = info_at c cw 1 r XOR first_at c cw 1 r XOR (info_at c cw 0 r XOR first_at c cw 0 r)"
    "blk c c3 (fc_kb c + 3) r = info_at c cw 2 r XOR first_at c cw 2 r XOR
      (info_at c cw 1 r XOR first_at c cw 1 r XOR (info_at c cw 0 r XOR first_at c cw 0 r))" if "r < fc_z c" for r
    using c1(3,4) c2(3,4) c3(3,4) that by (simp_all add: agree_def same [symmetric])
  have "row_at c c3 row (\<lambda>_. True) r = 0" if "row < 4" "r < fc_z c" for row r
  proof -
    note eq = core_row_at [OF ok that(1), of c3 r] core_tail [OF ok that(2), of c3] b [OF that(2)]
      same(5,6) [symmetric]
    have "row = 0 \<or> row = 1 \<or> row = 2 \<or> row = 3"
      using that(1) by linarith
    then show ?thesis
    proof (elim disjE)
      assume "row = 3"
      with eq xor_telescope p1 that(2) show ?thesis
        by simp
    qed (use eq in \<open>simp_all add: ac_simps\<close>)
  qed
  then show thesis
    using that [of c3] c1(1) c2(1) c3(1,2) a3 by (simp add: row_zero_def)
qed

section \<open>The extension rows\<close>

definition known_any_upto :: "fec_code \<Rightarrow> nat \<Rightarrow> bool list" where
  "known_any_upto c n = map (\<lambda>col. col < fc_kb c + n) [0..<fc_kb c + fc_rows c]"

lemma known_any_update:
  "n < fc_rows c \<Longrightarrow> (known_any_upto c n)[fc_kb c + n := True] = known_any_upto c (Suc n)"
  by (intro nth_equalityI) (auto simp: known_any_upto_def nth_list_update less_Suc_eq)

text \<open>One extension row: its block becomes what the row needs.\<close>

lemma ext_step_eq:
  assumes ok: "code_ok c" and len: "length cw = fc_n_full c" and row: "4 \<le> row" "row < fc_rows c"
  obtains cw' where "ext_step c (cw, known_any_upto c row) row = (cw', known_any_upto c (Suc row))"
    and "length cw' = fc_n_full c" and "agree c (fc_kb c + row) cw cw'" and "row_zero c cw' row"
proof -
  let ?v = "row_sum c cw row (\<lambda>col. known_any_upto c row ! col)"
  let ?cw = "copy_into cw ((fc_kb c + row) * fc_z c) ?v"
  note rs = row_sum_nth [OF code_okD(1) [OF ok] in_range [OF ok row(2) len]]
  have t: "(fc_kb c + row + 1) * fc_z c \<le> length cw"
    using target_in [OF ok, of "fc_kb c + row"] row len by auto
  have l: "length ?v = fc_z c"
    by (rule rs(1))
  have a: "agree c (fc_kb c + row) cw ?cw"
    by (simp add: agree_def blk_copy_into [OF t l])
  have "row_at c ?cw row (\<lambda>_. True) r = 0" if r: "r < fc_z c" for r
  proof -
    have "?v ! r = row_at c cw row (\<lambda>col. known_any_upto c row ! col) r"
      by (rule rs(2) [OF r])
    also have "\<dots> = row_at c cw row (\<lambda>col. col < fc_kb c + 4) r"
    proof (rule row_at_filter_cong)
      fix e
      assume "e \<in> set (fc_block_rows c ! row)"
      from ext_cols [OF ok row this] row show "known_any_upto c row ! fst e = (fst e < fc_kb c + 4)"
        by (auto simp: known_any_upto_def)
    qed
    also have "\<dots> = row_at c ?cw row (\<lambda>col. col < fc_kb c + 4) r"
      using row by (intro agree_row_at [OF ok a]) simp
    finally show ?thesis
      using ext_row_at [OF ok row r, of ?cw] by (simp add: blk_copy_into [OF t l r])
  qed
  moreover have "length ?cw = fc_n_full c"
    using t l len by (subst copy_into_nth) (auto simp: algebra_simps)
  ultimately show thesis
    using that [of ?cw] a known_any_update [OF row(2)] by (simp add: ext_step_def row_zero_def)
qed

lemma row_zero_agree:
  assumes ok: "code_ok c" and a: "agree c (fc_kb c + m) cw cw'" and "row < m" "row < fc_rows c" "4 \<le> m"
    and "row_zero c cw row"
  shows "row_zero c cw' row"
proof -
  have "fst e < fc_kb c + m" if "e \<in> set (fc_block_rows c ! row)" for e
  proof (cases "row < 4")
    case True
    then show ?thesis
      using core_cols [OF ok True that] assms(5) by simp
  next
    case False
    then show ?thesis
      using ext_cols [OF ok _ assms(4) that] assms(3,5) by auto
  qed
  with a have "row_at c cw row (\<lambda>_. True) r = row_at c cw' row (\<lambda>_. True) r" for r
    using code_okD(1) [OF ok] by (intro row_at_cong) (auto simp: agree_def)
  with assms(6) show ?thesis
    by (simp add: row_zero_def)
qed

lemma ext_fold:
  assumes ok: "code_ok c" and "length cw = fc_n_full c" and "\<forall>row<4. row_zero c cw row"
    and "4 \<le> m" and "m \<le> fc_rows c"
  shows "\<exists>cw'. foldl (ext_step c) (cw, known_any_upto c 4) [4..<m] = (cw', known_any_upto c m) \<and>
    length cw' = fc_n_full c \<and> agree c (fc_kb c + 4) cw cw' \<and> (\<forall>row<m. row_zero c cw' row)"
  using assms(4,5)
proof (induction m rule: dec_induct)
  case base
  show ?case
    using assms(2,3) by (simp add: agree_def)
next
  case (step m)
  then obtain cw' where cw': "foldl (ext_step c) (cw, known_any_upto c 4) [4..<m] = (cw', known_any_upto c m)"
    "length cw' = fc_n_full c" "agree c (fc_kb c + 4) cw cw'" "\<forall>row<m. row_zero c cw' row"
    by auto
  obtain cw'' where cw'': "ext_step c (cw', known_any_upto c m) m = (cw'', known_any_upto c (Suc m))"
    "length cw'' = fc_n_full c" "agree c (fc_kb c + m) cw' cw''" "row_zero c cw'' m"
    using ext_step_eq [OF ok cw'(2) step.hyps(1)] step.prems by auto
  have "row_zero c cw'' row" if "row < Suc m" for row
    using row_zero_agree [OF ok cw''(3), of row] cw'(4) cw''(4) that step by (auto simp: less_Suc_eq)
  moreover have "agree c (fc_kb c + 4) cw cw''"
    using agree_trans [OF cw'(3) cw''(3)] step.hyps by simp
  ultimately show ?case
    using step.hyps cw'(1) cw'' by (intro exI [of _ cw'']) (simp add: upt_Suc)
qed

section \<open>The encoder\<close>

lemma agree_take:
  assumes ok: "code_ok c" and "length cw = fc_n_full c" and "length cw' = fc_n_full c"
    and "agree c m cw cw'"
  shows "take (m * fc_z c) cw = take (m * fc_z c) cw'"
proof (rule nth_equalityI)
  fix i
  assume "i < length (take (m * fc_z c) cw)"
  then have i: "i < m * fc_z c"
    by simp
  then have "i div fc_z c < m" "i mod fc_z c < fc_z c"
    using code_okD(1) [OF ok] by (auto simp: less_mult_imp_div_less)
  with assms(4) have "blk c cw (i div fc_z c) (i mod fc_z c) = blk c cw' (i div fc_z c) (i mod fc_z c)"
    by (simp add: agree_def)
  with i show "take (m * fc_z c) cw ! i = take (m * fc_z c) cw' ! i"
    by (simp add: blk_def)
qed (use assms in simp)

lemma encode_correct:
  assumes ok: "code_ok c" and info: "length info = fc_k c"
  shows "\<exists>cw. fec_encode c info = Inr cw \<and> length cw = fc_n_full c \<and> take (fc_k c) cw = info \<and>
    syndrome_ok c cw = Inr True"
proof -
  define cw0 where "cw0 = copy_into (replicate (fc_n_full c) 0) 0 info"
  define cw1 where "cw1 = first_parity c cw0"
  have "fc_k c \<le> fc_n_full c"
    by (simp add: code_okD(4,5) [OF ok])
  then have l0: "length cw0 = fc_n_full c" and t0: "take (fc_k c) cw0 = info"
    using info by (auto simp: cw0_def copy_into_def)
  have l1: "length cw1 = fc_n_full c"
    using blk_first_parity(1) [OF ok l0 code_okD(1) [OF ok]] by (simp add: cw1_def)
  have a1: "agree c (fc_kb c) cw0 cw1"
    using blk_first_parity(2) [OF ok l0] by (simp add: agree_def cw1_def)
  have i1: "info_at c cw1 row r = info_at c cw0 row r" for row r
    unfolding info_at_def by (rule agree_row_at [OF ok a1, symmetric])
  have "first_at c cw1 0 r XOR first_at c cw1 1 r XOR first_at c cw1 2 r XOR first_at c cw1 3 r =
      info_at c cw1 0 r XOR info_at c cw1 1 r XOR info_at c cw1 2 r XOR info_at c cw1 3 r" if "r < fc_z c" for r
    unfolding first_at_sum [OF ok] i1 by (rule first_parity_eq [OF ok l0 that, folded cw1_def])
  then obtain cw2 where cw2: "core_round c (core_round c (core_round c (cw1, known_upto c 1))) = (cw2, known_upto c 4)"
    "length cw2 = fc_n_full c" "agree c (fc_kb c + 1) cw1 cw2" "\<forall>row<4. row_zero c cw2 row"
    using core_rounds [OF ok l1] by blast
  obtain cw3 where cw3: "foldl (ext_step c) (cw2, known_any_upto c 4) [4..<fc_rows c] = (cw3, known_any_upto c (fc_rows c))"
    "length cw3 = fc_n_full c" "agree c (fc_kb c + 4) cw2 cw3" "\<forall>row<fc_rows c. row_zero c cw3 row"
    using ext_fold [OF ok cw2(2,4) code_okD(2) [OF ok]] by auto
  have "fc_n_full c div fc_z c = fc_kb c + fc_rows c"
    using code_okD(1,5) [OF ok] by simp
  then have k4: "map (\<lambda>col. col < fc_kb c + 4 \<and> known_upto c 4 ! col) [0..<fc_n_full c div fc_z c] = known_any_upto c 4"
    by (auto simp: known_any_upto_def known_upto_def)
  have "fec_encode c info = Inr cw3"
    using info cw2(1) cw3(1) k4
    unfolding fec_encode_def Let_def cw0_def [symmetric] cw1_def [symmetric] known_upto_def [of c 1, symmetric]
    by (simp only: if_False not_True_eq_False prod.case refl simp_thms)
  moreover have "agree c (fc_kb c) cw0 cw3"
    using agree_trans [OF agree_trans [OF a1 cw2(3)] cw3(3)] by simp
  then have "take (fc_k c) cw3 = info"
    using agree_take [OF ok l0 cw3(2)] t0 by (simp add: code_okD(4) [OF ok])
  moreover have "syndrome_ok c cw3 = Inr True"
    using syndrome_iff [OF ok cw3(2)] cw3(4) by simp
  ultimately show ?thesis
    using cw3(2) by blast
qed

text \<open>The information bits determine the codeword.\<close>

lemma xor_eq_0_iff: "x XOR y = 0 \<longleftrightarrow> x = (y :: u8)"
  by (simp only: bit_eq_iff [of "x XOR y" 0] bit_eq_iff [of x y] bit_xor_iff bit_0_eq) auto

lemma xor_left_cancel: "x XOR y = x XOR z \<longleftrightarrow> y = (z :: u8)"
  by (simp only: bit_eq_iff [of "x XOR y"] bit_eq_iff [of y] bit_xor_iff) auto

lemma codeword_unique:
  assumes ok: "code_ok c" and "length cw = fc_n_full c" "length cw' = fc_n_full c"
    and "syndrome_ok c cw = Inr True" "syndrome_ok c cw' = Inr True" and "take (fc_k c) cw = take (fc_k c) cw'"
  shows "cw = cw'"
proof -
  have z: "row_at c w row (\<lambda>_. True) r = 0" if "w \<in> {cw, cw'}" "row < fc_rows c" "r < fc_z c" for w row r
    using assms that syndrome_iff [OF ok] by (auto simp: row_zero_def)
  have len: "fc_k c \<le> fc_n_full c"
    by (simp add: code_okD(4,5) [OF ok])
  have a0: "agree c (fc_kb c) cw cw'"
    unfolding agree_def
  proof (intro allI impI)
    fix col r
    assume "col < fc_kb c" "r < fc_z c"
    then have "(col + 1) * fc_z c \<le> fc_k c"
      unfolding code_okD(4) [OF ok] by (intro mult_right_mono) auto
    with \<open>r < fc_z c\<close> have "col * fc_z c + r < fc_k c"
      by simp
    then show "blk c cw col r = blk c cw' col r"
      using arg_cong [OF assms(6), of "\<lambda>w. w ! (col * fc_z c + r)"] by (simp add: blk_def)
  qed
  have info: "info_at c cw row r = info_at c cw' row r" for row r
    unfolding info_at_def by (rule agree_row_at [OF ok a0])
  have rows: "row < 4 \<Longrightarrow> row < fc_rows c" for row
    using code_okD(2) [OF ok] by simp
  have core: "info_at c w row r XOR first_at c w row r = row_at c w row (\<lambda>col. fc_kb c < col) r"
    if "w \<in> {cw, cw'}" "row < 4" "r < fc_z c" for w row r
    using z [OF that(1) rows [OF that(2)] that(3)] core_row_at [OF ok that(2), of w r] xor_eq_0_iff by metis
  have tot: "blk c w (fc_kb c) ((r + fc_p1_shift c) mod fc_z c) =
      info_at c w 0 r XOR info_at c w 1 r XOR info_at c w 2 r XOR info_at c w 3 r"
    if "w \<in> {cw, cw'}" "r < fc_z c" for w r
  proof -
    have "(info_at c w 0 r XOR first_at c w 0 r) XOR (info_at c w 1 r XOR first_at c w 1 r) XOR
      (info_at c w 2 r XOR first_at c w 2 r) XOR (info_at c w 3 r XOR first_at c w 3 r) = 0"
      using core [OF that(1) _ that(2)] core_tail [OF ok that(2), of w] by (simp add: ac_simps)
    then have "(first_at c w 0 r XOR first_at c w 1 r XOR first_at c w 2 r XOR first_at c w 3 r) XOR
      (info_at c w 0 r XOR info_at c w 1 r XOR info_at c w 2 r XOR info_at c w 3 r) = 0"
      by (simp add: ac_simps)
    then show ?thesis
      unfolding first_at_sum [OF ok] xor_eq_0_iff .
  qed
  have "blk c cw (fc_kb c) r = blk c cw' (fc_kb c) r" if r: "r < fc_z c" for r
  proof -
    let ?q = "(r + fc_z c - fc_p1_shift c) mod fc_z c"
    have q: "?q < fc_z c" "(?q + fc_p1_shift c) mod fc_z c = r"
      using code_okD(1,6) [OF ok] r by (simp_all add: mod_add_left_eq)
    show ?thesis
      using tot [of cw, OF _ q(1)] tot [of cw', OF _ q(1)] info unfolding q(2) by simp
  qed
  with a0 have a1: "agree c (fc_kb c + 1) cw cw'"
    by (auto simp: agree_def less_Suc_eq)
  have first: "first_at c cw row r = first_at c cw' row r" for row r
    by (rule agree_core(2) [OF ok a1])
  have tail: "row_at c cw row (\<lambda>col. fc_kb c < col) r = row_at c cw' row (\<lambda>col. fc_kb c < col) r"
    if "row < 4" "r < fc_z c" for row r
    using core [of cw row r] core [of cw' row r] that info first by simp
  have b: "blk c cw (fc_kb c + i) r = blk c cw' (fc_kb c + i) r" if "r < fc_z c" "i \<in> {1, 2, 3}" for i r
    using tail [of 0, OF _ that(1)] tail [of 1, OF _ that(1)] tail [of 3, OF _ that(1)] that(2)
      core_tail [OF ok that(1), of cw] core_tail [OF ok that(1), of cw'] by (auto simp: xor_left_cancel)
  have a4: "agree c (fc_kb c + 4) cw cw'"
    unfolding agree_def
  proof (intro allI impI)
    fix col r
    assume "col < fc_kb c + 4" "r < fc_z c"
    then have "col < fc_kb c + 1 \<or> (\<exists>i\<in>{1, 2, 3}. col = fc_kb c + i)"
      by (auto simp: less_Suc_eq numeral_eq_Suc)
    then show "blk c cw col r = blk c cw' col r"
      using a1 b [OF \<open>r < fc_z c\<close>] \<open>r < fc_z c\<close> by (elim disjE bexE) (simp_all add: agree_def)
  qed
  have "blk c cw (fc_kb c + row) r = blk c cw' (fc_kb c + row) r" if "4 \<le> row" "row < fc_rows c" "r < fc_z c" for row r
  proof -
    have "row_at c cw row (\<lambda>col. col < fc_kb c + 4) r = row_at c cw' row (\<lambda>col. col < fc_kb c + 4) r"
      by (rule agree_row_at [OF ok a4])
    then show ?thesis
      using ext_row_at [OF ok that] z [OF _ that(2,3)] xor_eq_0_iff by (metis insertCI)
  qed
  note ext = this
  have "agree c (fc_kb c + fc_rows c) cw cw'"
    unfolding agree_def
  proof (intro allI impI)
    fix col r
    assume cr: "col < fc_kb c + fc_rows c" "r < fc_z c"
    show "blk c cw col r = blk c cw' col r"
    proof (cases "col < fc_kb c + 4")
      case True
      with a4 cr show ?thesis
        by (simp add: agree_def)
    next
      case False
      with cr ext [of "col - fc_kb c" r] show ?thesis
        by simp
    qed
  qed
  from agree_take [OF ok assms(2,3) this] show ?thesis
    using assms(2,3) by (simp add: code_okD(5) [OF ok])
qed

text \<open>Bits in, bits out: the low bits of a codeword are a codeword with the same information.\<close>

lemma xsum_low: "xsum (map (\<lambda>x. f x AND 1) xs) = xsum (map f xs) AND 1"
proof (induction xs)
  case (Cons x xs)
  have "(a AND 1) XOR (b AND 1) = (a XOR b) AND 1" for a b :: u8
    by (rule bit_eqI) (auto simp: bit_simps)
  with Cons show ?case
    by simp
qed simp

lemma row_at_low:
  assumes ok: "code_ok c" and "row < fc_rows c" and len: "length cw = fc_n_full c" and "r < fc_z c"
  shows "row_at c (map (\<lambda>b. b AND 1) cw) row keep r = row_at c cw row keep r AND 1"
proof -
  have "term_at c (map (\<lambda>b. b AND 1) cw) r e = term_at c cw r e AND 1"
    if "e \<in> set (filter (\<lambda>e. keep (fst e)) (fc_block_rows c ! row))" for e
  proof -
    have "(fst e + 1) * fc_z c \<le> length cw"
      using in_range [OF assms(1-3)] that by (fastforce simp: in_range_def)
    moreover have "(r + snd e) mod fc_z c < fc_z c"
      using code_okD(1) [OF ok] by simp
    ultimately show ?thesis
      by (cases e) (simp add: term_at_def)
  qed
  then have "map (term_at c (map (\<lambda>b. b AND 1) cw) r) (filter (\<lambda>e. keep (fst e)) (fc_block_rows c ! row)) =
    map (\<lambda>e. term_at c cw r e AND 1) (filter (\<lambda>e. keep (fst e)) (fc_block_rows c ! row))"
    by (rule map_cong [OF refl])
  then show ?thesis
    unfolding row_at_def xsum_low [symmetric] by (rule arg_cong)
qed

lemma codeword_bits:
  assumes ok: "code_ok c" and len: "length cw = fc_n_full c" and syn: "syndrome_ok c cw = Inr True"
    and "set (take (fc_k c) cw) \<subseteq> {0, 1}"
  shows "set cw \<subseteq> {0, 1}"
proof -
  let ?low = "map (\<lambda>b. b AND 1) cw"
  have l: "length ?low = fc_n_full c"
    using len by simp
  have "row_zero c ?low row" if "row < fc_rows c" for row
    using syndrome_iff [OF ok len] syn row_at_low [OF ok that len] that by (simp add: row_zero_def)
  then have "syndrome_ok c ?low = Inr True"
    using syndrome_iff [OF ok l] by simp
  moreover have "take (fc_k c) cw = take (fc_k c) ?low"
  proof -
    have "b AND 1 = b" if "b \<in> set (take (fc_k c) cw)" for b
    proof -
      have "b = 0 \<or> b = 1"
        using assms(4) that by blast
      then show ?thesis
        by auto
    qed
    then show ?thesis
      unfolding take_map by (rule map_idI [symmetric])
  qed
  ultimately have e: "cw = ?low"
    by (rule codeword_unique [OF ok len l syn])
  have "b AND 1 = 0 \<or> b AND 1 = 1" for b :: u8
    by (simp add: and_one_eq mod_2_eq_odd)
  then have "set ?low \<subseteq> {0, 1}"
    by auto
  then show ?thesis
    by (simp add: e [symmetric])
qed

end
