(* ===== verification/Ldpc_Decode.thy ===== *)
theory Ldpc_Decode
  imports Ldpc_Encode
begin

text \<open>
  The layered normalised min-sum decoder of \<open>core/aether-fec/src/ldpc.rs\<close>.  \<open>f64::INFINITY\<close>, the
  starting value of the two minima, is \<open>None\<close>; where an infinite message would be sent (a check
  on fewer than two bits, which no base graph has) the decoder's result is \<open>None\<close>.

  What is shown: a word reported as converged satisfies every check, and a received word whose
  hard decisions already satisfy them is returned as it is after one iteration.
\<close>

section \<open>The decoder\<close>

record fec_decoded =
  fd_bits :: bytes
  fd_converged :: bool
  fd_iterations :: nat

definition hard_bits :: "f64 list \<Rightarrow> bytes" where
  "hard_bits post = map (\<lambda>v. if v < 0 then 1 else 0) post"

text \<open>Smallest and second smallest magnitude, where the smallest was, and the product of the signs.\<close>

definition below :: "f64 \<Rightarrow> f64 option \<Rightarrow> bool" where
  "below x m = (case m of None \<Rightarrow> True | Some y \<Rightarrow> x < y)"

definition scan_edge :: "f64 option \<times> f64 option \<times> nat \<times> f64 \<Rightarrow> nat \<times> f64 \<Rightarrow> f64 option \<times> f64 option \<times> nat \<times> f64" where
  "scan_edge st e =
     (let (min1, min2, argmin, sign) = st; (edge, value) = e;
          magnitude = \<bar>value\<bar>;
          sign = (if value < 0 then - sign else sign)
      in if below magnitude min1 then (Some magnitude, min1, edge, sign)
         else if below magnitude min2 then (min1, Some magnitude, argmin, sign)
         else (min1, min2, argmin, sign))"

definition scan_check :: "f64 list \<Rightarrow> f64 option \<times> f64 option \<times> nat \<times> f64" where
  "scan_check vs = foldl scan_edge (None, None, 0, 1) (enumerate 0 vs)"

text \<open>A check sends each of its bits a new message and moves the bit's posterior.\<close>

definition send :: "fec_code \<Rightarrow> f64 \<Rightarrow> (nat \<times> nat) list \<Rightarrow> f64 list \<Rightarrow> nat \<Rightarrow>
    f64 option \<times> f64 option \<times> nat \<times> f64 \<Rightarrow> (f64 list \<times> f64 list) option \<Rightarrow> nat \<Rightarrow> (f64 list \<times> f64 list) option" where
  "send c alpha row incoming r minima st edge =
     (case st of None \<Rightarrow> None
      | Some (msg, post) \<Rightarrow>
          let (min1, min2, argmin, sign) = minima;
              value = incoming ! (edge * fc_z c + r);
              own_sign = (if value < 0 then -1 else 1)
          in case (if edge = argmin then min2 else min1) of
               None \<Rightarrow> None
             | Some magnitude \<Rightarrow>
                 let c2v = alpha * magnitude * sign * own_sign; (col, shift) = row ! edge
                 in Some (msg[edge * fc_z c + r := c2v],
                          post[col * fc_z c + (r + shift) mod fc_z c := value + c2v]))"

definition check_step :: "fec_code \<Rightarrow> f64 \<Rightarrow> (nat \<times> nat) list \<Rightarrow> f64 list \<Rightarrow> (f64 list \<times> f64 list) option \<Rightarrow> nat \<Rightarrow> (f64 list \<times> f64 list) option" where
  "check_step c alpha row incoming st r =
     (let minima = scan_check (map (\<lambda>edge. incoming ! (edge * fc_z c + r)) [0..<length row])
      in foldl (send c alpha row incoming r minima) st [0..<length row])"

definition incoming_of :: "fec_code \<Rightarrow> (nat \<times> nat) list \<Rightarrow> f64 list \<Rightarrow> f64 list \<Rightarrow> f64 list" where
  "incoming_of c row msg post =
     map (\<lambda>k. let edge = k div fc_z c; r = k mod fc_z c; (col, shift) = row ! edge
              in post ! (col * fc_z c + (r + shift) mod fc_z c) - msg ! k)
       [0..<length row * fc_z c]"

definition row_step :: "fec_code \<Rightarrow> f64 \<Rightarrow> (f64 list list \<times> f64 list) option \<Rightarrow> nat \<Rightarrow> (f64 list list \<times> f64 list) option" where
  "row_step c alpha st i =
     (case st of None \<Rightarrow> None
      | Some (messages, post) \<Rightarrow>
          let row = fc_block_rows c ! i; incoming = incoming_of c row (messages ! i) post
          in case foldl (check_step c alpha row incoming) (Some (messages ! i, post)) [0..<fc_z c] of
               None \<Rightarrow> None
             | Some (msg, post) \<Rightarrow> Some (messages[i := msg], post))"

fun decode_loop :: "fec_code \<Rightarrow> f64 \<Rightarrow> nat \<Rightarrow> nat \<Rightarrow> f64 list list \<times> f64 list \<Rightarrow> (fec_error + fec_decoded) option" where
  "decode_loop c alpha 0 done (messages, post) =
     Some (Inr \<lparr>fd_bits = hard_bits post, fd_converged = False, fd_iterations = done\<rparr>)"
| "decode_loop c alpha (Suc left) done (messages, post) =
     (case foldl (row_step c alpha) (Some (messages, post)) [0..<length (fc_block_rows c)] of
        None \<Rightarrow> None
      | Some (messages, post) \<Rightarrow>
          (case syndrome_ok c (hard_bits post) of
             Inl e \<Rightarrow> Some (Inl e)
           | Inr True \<Rightarrow> Some (Inr \<lparr>fd_bits = hard_bits post, fd_converged = True, fd_iterations = done + 1\<rparr>)
           | Inr False \<Rightarrow> decode_loop c alpha left (done + 1) (messages, post)))"

definition fec_decode :: "fec_code \<Rightarrow> f64 list \<Rightarrow> nat \<Rightarrow> f64 \<Rightarrow> (fec_error + fec_decoded) option" where
  "fec_decode c llr max_iter alpha =
     (if length llr \<noteq> fc_n_full c then Some (Inl (BadLength (fc_n_full c) (length llr)))
      else decode_loop c alpha max_iter 0
             (map (\<lambda>row. replicate (length row * fc_z c) 0) (fc_block_rows c), llr))"

section \<open>What it reports\<close>

lemma decode_loop_reports:
  assumes "decode_loop c alpha left n st = Some (Inr d)"
  shows "n \<le> fd_iterations d \<and> fd_iterations d \<le> n + left \<and>
    (if fd_converged d then syndrome_ok c (fd_bits d) = Inr True \<and> n < fd_iterations d
     else fd_iterations d = n + left)"
  using assms
proof (induction c alpha left n st rule: decode_loop.induct)
  case (2 c alpha left n messages post)
  from "2.prems" obtain m p where st: "foldl (row_step c alpha) (Some (messages, post)) [0..<length (fc_block_rows c)] = Some (m, p)"
    by (auto split: option.splits)
  show ?case
  proof (cases "syndrome_ok c (hard_bits p)")
    case (Inr b)
    show ?thesis
    proof (cases b)
      case True
      with "2.prems" st Inr show ?thesis
        by auto
    next
      case False
      with "2.prems" st Inr have "decode_loop c alpha left (n + 1) (m, p) = Some (Inr d)"
        by simp
      with "2.IH" [OF st refl Inr] False show ?thesis
        by (auto split: if_splits)
    qed
  qed (use "2.prems" st in simp)
qed auto

lemma hard_bits_01: "set (hard_bits post) \<subseteq> {0, 1}"
  by (auto simp: hard_bits_def)

text \<open>No step changes the number of posteriors.\<close>

lemma foldl_option_keeps:
  assumes "\<And>st x st'. f (Some st) x = Some st' \<Longrightarrow> P st \<Longrightarrow> P st'" and "\<And>x. f None x = None"
  shows "foldl f (Some st) xs = Some st' \<Longrightarrow> P st \<Longrightarrow> P st'"
proof (induction xs arbitrary: st)
  case (Cons x xs)
  have n: "foldl f None ys = None" for ys
    using assms(2) by (induction ys) auto
  obtain st1 where "f (Some st) x = Some st1"
    using Cons.prems(1) n by (cases "f (Some st) x") auto
  with Cons assms(1) show ?case
    by simp
qed simp

lemma send_length: "send c alpha row incoming r minima (Some (msg, post)) edge = Some (msg', post') \<Longrightarrow> length post' = length post"
  by (auto simp: send_def Let_def split: option.splits prod.splits)

lemma check_step_length:
  assumes "check_step c alpha row incoming (Some (msg, post)) r = Some (msg', post')"
  shows "length post' = length post"
proof -
  let ?m = "scan_check (map (\<lambda>edge. incoming ! (edge * fc_z c + r)) [0..<length row])"
  have "\<And>st x st'. send c alpha row incoming r ?m (Some st) x = Some st' \<Longrightarrow> length (snd st) = length post \<Longrightarrow>
      length (snd st') = length post"
    by (metis prod.collapse send_length)
  moreover have "\<And>x. send c alpha row incoming r ?m None x = None"
    by (simp add: send_def)
  ultimately show ?thesis
    using foldl_option_keeps [of "send c alpha row incoming r ?m" "\<lambda>st. length (snd st) = length post" "(msg, post)"
        "[0..<length row]" "(msg', post')"] assms
    by (simp add: check_step_def Let_def)
qed

lemma row_step_length:
  assumes "row_step c alpha (Some (messages, post)) i = Some (messages', post')"
  shows "length post' = length post"
proof -
  let ?row = "fc_block_rows c ! i"
  let ?inc = "incoming_of c ?row (messages ! i) post"
  obtain msg where f: "foldl (check_step c alpha ?row ?inc) (Some (messages ! i, post)) [0..<fc_z c] = Some (msg, post')"
    using assms by (auto simp: row_step_def Let_def split: option.splits)
  have n: "send c alpha ?row ?inc r m None x = None" for r m x
    by (simp add: send_def)
  have "foldl (send c alpha ?row ?inc r m) None xs = None" for r m xs
    by (induction xs) (simp_all add: n)
  then have "\<And>x. check_step c alpha ?row ?inc None x = None"
    by (simp add: check_step_def Let_def)
  moreover have "\<And>st x st'. check_step c alpha ?row ?inc (Some st) x = Some st' \<Longrightarrow> length (snd st) = length post \<Longrightarrow>
      length (snd st') = length post"
    by (metis prod.collapse check_step_length)
  ultimately show ?thesis
    using foldl_option_keeps [of "check_step c alpha ?row ?inc" "\<lambda>st. length (snd st) = length post"
        "(messages ! i, post)" "[0..<fc_z c]" "(msg, post')"] f
    by simp
qed

lemma rows_length:
  assumes "foldl (row_step c alpha) (Some (messages, post)) is = Some (messages', post')"
  shows "length post' = length post"
proof -
  have "\<And>st x st'. row_step c alpha (Some st) x = Some st' \<Longrightarrow> length (snd st) = length post \<Longrightarrow>
      length (snd st') = length post"
    by (metis prod.collapse row_step_length)
  moreover have "\<And>x. row_step c alpha None x = None"
    by (simp add: row_step_def)
  ultimately show ?thesis
    using foldl_option_keeps [of "row_step c alpha" "\<lambda>st. length (snd st) = length post" "(messages, post)" "is"
        "(messages', post')"] assms
    by simp
qed

lemma decode_loop_bits:
  assumes "decode_loop c alpha left n st = Some (Inr d)"
  shows "length (fd_bits d) = length (snd st) \<and> set (fd_bits d) \<subseteq> {0, 1}"
  using assms
proof (induction c alpha left n st rule: decode_loop.induct)
  case (1 c alpha n messages post)
  then show ?case
    using hard_bits_01 by (auto simp: hard_bits_def)
next
  case (2 c alpha left n messages post)
  from "2.prems" obtain m p where st: "foldl (row_step c alpha) (Some (messages, post)) [0..<length (fc_block_rows c)] = Some (m, p)"
    by (auto split: option.splits)
  note len = rows_length [OF st]
  from "2.prems" st obtain b where b: "syndrome_ok c (hard_bits p) = Inr b"
    by (auto split: sum.splits)
  show ?case
  proof (cases b)
    case True
    with "2.prems" st b len show ?thesis
      using hard_bits_01 [of p] by (auto simp: hard_bits_def)
  next
    case False
    with "2.prems" st b have "decode_loop c alpha left (n + 1) (m, p) = Some (Inr d)"
      by simp
    with "2.IH" [OF st refl b] False len show ?thesis
      by simp
  qed
qed

lemma fec_decode_bits:
  assumes "fec_decode c llr max_iter alpha = Some (Inr d)"
  shows "length (fd_bits d) = fc_n_full c" "set (fd_bits d) \<subseteq> {0, 1}" "length llr = fc_n_full c"
  using assms decode_loop_bits by (fastforce simp: fec_decode_def split: if_splits)+

section \<open>A word that satisfies the checks\<close>

lemma scan_check_snoc:
  "scan_check (vs @ [v]) = scan_edge (scan_check vs) (length vs, v)"
  by (simp add: scan_check_def enumerate_append_eq)

lemma scan_check_minima:
  "(case scan_check vs of (min1, min2, argmin, sign) \<Rightarrow>
     (min1 = None \<longleftrightarrow> vs = []) \<and> (min2 = None \<longleftrightarrow> length vs < 2) \<and>
     (\<forall>m. min1 = Some m \<longrightarrow> 0 \<le> m) \<and> (\<forall>m. min2 = Some m \<longrightarrow> 0 \<le> m) \<and>
     sign = (if xsum (hard_bits vs) = 0 then 1 else -1) \<and> xsum (hard_bits vs) \<in> {0, 1})"
proof (induction vs rule: rev_induct)
  case Nil
  show ?case
    by (simp add: scan_check_def hard_bits_def)
next
  case (snoc v vs)
  obtain min1 min2 argmin sign where s: "scan_check vs = (min1, min2, argmin, sign)"
    using prod_cases4 by blast
  have x: "xsum (hard_bits (vs @ [v])) = xsum (hard_bits vs) XOR (if v < 0 then 1 else 0)"
    by (simp add: hard_bits_def)
  have xs: "xsum (hard_bits vs) = 0 \<or> xsum (hard_bits vs) = 1"
    using snoc by (simp add: s)
  have sign: "sign = (if xsum (hard_bits vs) = 0 then 1 else -1)"
    using snoc by (simp add: s)
  have "(if v < 0 then - sign else sign) = (if xsum (hard_bits (vs @ [v])) = 0 then 1 else -1) \<and>
    xsum (hard_bits (vs @ [v])) \<in> {0, 1}"
    using xs unfolding x sign by auto
  moreover have "(min1 = None) = (vs = [])" "(min2 = None) = (length vs < 2)"
    "\<forall>m. min1 = Some m \<longrightarrow> 0 \<le> m" "\<forall>m. min2 = Some m \<longrightarrow> 0 \<le> m"
    using snoc by (simp_all add: s)
  ultimately show ?case
    unfolding scan_check_snoc s scan_edge_def Let_def prod.case
    by (auto simp: below_def split: option.splits if_splits)
qed

text \<open>The posteriors keep the signs \<open>b\<close>; the messages keep their lengths.\<close>

lemma send_keeps:
  assumes "scan_check vs = (min1, min2, argmin, 1)" and "2 \<le> length vs" and "0 \<le> alpha"
    and "hard_bits post = b" and "col * fc_z c + (r + shift) mod fc_z c = k"
    and "row ! edge = (col, shift)" and "k < length b"
    and "(incoming ! (edge * fc_z c + r) < 0) = (b ! k = 1)" and "length msg = n"
  shows "\<exists>msg' post'. send c alpha row incoming r (scan_check vs) (Some (msg, post)) edge = Some (msg', post') \<and>
    hard_bits post' = b \<and> length msg' = n"
proof -
  let ?v = "incoming ! (edge * fc_z c + r)"
  obtain m1 m2 where m: "min1 = Some m1" "min2 = Some m2" "0 \<le> m1" "0 \<le> m2"
    using scan_check_minima [of vs] assms(1,2) by (cases min1; cases min2) auto
  define mag where "mag = (if edge = argmin then m2 else m1)"
  have "0 \<le> alpha * mag"
    using assms(3) m by (simp add: mag_def)
  then have s: "?v + alpha * mag * (if ?v < 0 then -1 else 1) < 0 \<longleftrightarrow> ?v < 0"
    by auto
  have "hard_bits (post[k := ?v + alpha * mag * (if ?v < 0 then -1 else 1)]) = b"
  proof -
    have "b ! k = (if ?v < 0 then 1 else 0)"
      using assms(4,7,8) by (auto simp: hard_bits_def split: if_splits)
    then show ?thesis
      using assms(4,7) s by (simp add: hard_bits_def map_update) (simp add: list_update_same_conv)
  qed
  moreover have "send c alpha row incoming r (scan_check vs) (Some (msg, post)) edge =
    Some (msg[edge * fc_z c + r := alpha * mag * (if ?v < 0 then -1 else 1)],
      post[k := ?v + alpha * mag * (if ?v < 0 then -1 else 1)])"
    using assms(1,5,6) m by (cases "edge = argmin") (simp_all add: send_def mag_def Let_def)
  ultimately show ?thesis
    using assms(9) by simp
qed

text \<open>What a check sees when its row has sent no message yet.\<close>

lemma incoming_nth:
  assumes "edge < length row" and "r < fc_z c" and "row ! edge = (col, shift)"
  shows "incoming_of c row (replicate (length row * fc_z c) 0) post ! (edge * fc_z c + r) =
    post ! (col * fc_z c + (r + shift) mod fc_z c)"
proof -
  have "(edge + 1) * fc_z c \<le> length row * fc_z c"
    using assms(1) by (intro mult_right_mono) auto
  then have "edge * fc_z c + r < length row * fc_z c"
    using assms(2) by simp
  with assms(2,3) show ?thesis
    by (simp add: incoming_of_def Let_def)
qed

lemma hard_bits_values: "xsum (map (\<lambda>v. if v < 0 then 1 else 0) vs) = xsum (hard_bits vs)"
  by (simp add: hard_bits_def)

lemma check_step_keeps:
  assumes ok: "code_ok c" and i: "i < fc_rows c" and r: "r < fc_z c" and alpha: "0 \<le> alpha"
    and row: "row = fc_block_rows c ! i" and inc: "incoming = incoming_of c row (replicate (length row * fc_z c) 0) post0"
    and post0: "hard_bits post0 = b" and b: "length b = fc_n_full c" and zero: "row_zero c b i"
    and post: "hard_bits post = b" and msg: "length msg = n"
  shows "\<exists>msg' post'. check_step c alpha row incoming (Some (msg, post)) r = Some (msg', post') \<and>
    hard_bits post' = b \<and> length msg' = n"
proof -
  define vs where "vs = map (\<lambda>edge. incoming ! (edge * fc_z c + r)) [0..<length row]"
  have len: "length vs = length row" "2 \<le> length row"
    using row_degree [OF ok i] by (simp_all add: vs_def row)
  have place: "fst (row ! edge) * fc_z c + (r + snd (row ! edge)) mod fc_z c < length b \<and>
    incoming ! (edge * fc_z c + r) = post0 ! (fst (row ! edge) * fc_z c + (r + snd (row ! edge)) mod fc_z c)"
    if e: "edge < length row" for edge
  proof -
    have "(fst (row ! edge) + 1) * fc_z c \<le> length b"
      using in_range [OF ok i b] nth_mem [OF e] by (fastforce simp: in_range_def row)
    moreover have "(r + snd (row ! edge)) mod fc_z c < fc_z c"
      using code_okD(1) [OF ok] by simp
    ultimately have "fst (row ! edge) * fc_z c + (r + snd (row ! edge)) mod fc_z c < length b"
      by simp
    with incoming_nth [OF e r, of "fst (row ! edge)" "snd (row ! edge)"] show ?thesis
      by (simp add: inc)
  qed
  have pb: "length post0 = length b" "k < length b \<Longrightarrow> (post0 ! k < 0) = (b ! k = 1) \<and> b ! k \<in> {0, 1}" for k
    using post0 by (auto simp: hard_bits_def split: if_splits)
  have "hard_bits vs = map (term_at c b r) row"
  proof (rule nth_equalityI)
    fix e
    assume "e < length (hard_bits vs)"
    then have e: "e < length row"
      by (simp add: hard_bits_def len)
    with place [OF e] pb(2) [of "fst (row ! e) * fc_z c + (r + snd (row ! e)) mod fc_z c"]
    show "hard_bits vs ! e = map (term_at c b r) row ! e"
      by (auto simp: hard_bits_def vs_def term_at_def split: prod.splits)
  qed (simp add: hard_bits_def len)
  then have "xsum (hard_bits vs) = 0"
    using zero r by (simp add: row_zero_def row_at_def row)
  then obtain min1 min2 argmin where s: "scan_check vs = (min1, min2, argmin, 1)"
    using scan_check_minima [of vs] by (cases "scan_check vs") auto
  have "\<exists>msg' post'. foldl (send c alpha row incoming r (scan_check vs)) (Some (msg, post)) [0..<k] = Some (msg', post') \<and>
    hard_bits post' = b \<and> length msg' = n" if "k \<le> length row" for k
    using that
  proof (induction k)
    case (Suc k)
    then obtain msg' post' where IH:
      "foldl (send c alpha row incoming r (scan_check vs)) (Some (msg, post)) [0..<k] = Some (msg', post')"
      "hard_bits post' = b" "length msg' = n"
      by auto
    have k: "k < length row"
      using Suc.prems by simp
    obtain col shift where cs: "row ! k = (col, shift)"
      by (cases "row ! k")
    from send_keeps [OF s _ alpha IH(2) refl cs, where r = r and c = c and incoming = incoming and msg = msg' and n = n] place [OF k] pb(2) IH(3) len cs
    show ?case
      by (simp add: IH(1))
  qed (use post msg in simp)
  from this [of "length row"] show ?thesis
    by (simp add: check_step_def vs_def [symmetric])
qed

lemma row_step_keeps:
  assumes ok: "code_ok c" and i: "i < fc_rows c" and alpha: "0 \<le> alpha"
    and m: "messages ! i = replicate (length (fc_block_rows c ! i) * fc_z c) 0"
    and post: "hard_bits post = b" and b: "length b = fc_n_full c" and zero: "row_zero c b i"
  shows "\<exists>msg' post'. row_step c alpha (Some (messages, post)) i = Some (messages[i := msg'], post') \<and>
    hard_bits post' = b"
proof -
  let ?row = "fc_block_rows c ! i"
  let ?inc = "incoming_of c ?row (messages ! i) post"
  have "\<exists>msg' post'. foldl (check_step c alpha ?row ?inc) (Some (messages ! i, post)) [0..<k] = Some (msg', post') \<and>
    hard_bits post' = b \<and> length msg' = length ?row * fc_z c" if "k \<le> fc_z c" for k
    using that
  proof (induction k)
    case (Suc k)
    then obtain msg' post' where IH:
      "foldl (check_step c alpha ?row ?inc) (Some (messages ! i, post)) [0..<k] = Some (msg', post')"
      "hard_bits post' = b" "length msg' = length ?row * fc_z c"
      by auto
    from check_step_keeps [OF ok i _ alpha refl _ post b zero IH(2,3), of k ?inc] Suc.prems
    show ?case
      by (simp add: IH(1) [unfolded m] m)
  qed (use post m in simp)
  from this [of "fc_z c"] show ?thesis
    by (auto simp: row_step_def Let_def)
qed

lemma rows_keep:
  assumes ok: "code_ok c" and alpha: "0 \<le> alpha" and "hard_bits post = b" and b: "length b = fc_n_full c"
    and zero: "\<forall>row<fc_rows c. row_zero c b row" and "k \<le> fc_rows c"
    and m: "messages = map (\<lambda>row. replicate (length row * fc_z c) 0) (fc_block_rows c)"
  shows "\<exists>messages' post'. foldl (row_step c alpha) (Some (messages, post)) [0..<k] = Some (messages', post') \<and>
    hard_bits post' = b \<and> length messages' = fc_rows c \<and>
    (\<forall>i. k \<le> i \<and> i < fc_rows c \<longrightarrow> messages' ! i = replicate (length (fc_block_rows c ! i) * fc_z c) 0)"
  using assms(6)
proof (induction k)
  case 0
  then show ?case
    using assms(3) code_okD(3) [OF ok] by (simp add: m)
next
  case (Suc k)
  then obtain messages' post' where IH:
    "foldl (row_step c alpha) (Some (messages, post)) [0..<k] = Some (messages', post')"
    "hard_bits post' = b" "length messages' = fc_rows c"
    "\<forall>i. k \<le> i \<and> i < fc_rows c \<longrightarrow> messages' ! i = replicate (length (fc_block_rows c ! i) * fc_z c) 0"
    by auto
  have k: "k < fc_rows c"
    using Suc.prems by simp
  with row_step_keeps [OF ok k alpha _ IH(2) b, of messages'] zero IH(4) obtain msg post'' where
    "row_step c alpha (Some (messages', post')) k = Some (messages'[k := msg], post'')" "hard_bits post'' = b"
    by auto
  with IH k show ?case
    by (intro exI [of _ "messages'[k := msg]"] exI [of _ post'']) auto
qed

lemma decode_codeword:
  assumes ok: "code_ok c" and alpha: "0 \<le> alpha" and len: "length llr = fc_n_full c"
    and cw: "syndrome_ok c (hard_bits llr) = Inr True" and "0 < max_iter"
  shows "fec_decode c llr max_iter alpha =
    Some (Inr \<lparr>fd_bits = hard_bits llr, fd_converged = True, fd_iterations = 1\<rparr>)"
proof -
  have b: "length (hard_bits llr) = fc_n_full c"
    using len by (simp add: hard_bits_def)
  have zero: "\<forall>row<fc_rows c. row_zero c (hard_bits llr) row"
    using cw syndrome_iff [OF ok b] by simp
  obtain m where m: "max_iter = Suc m"
    using assms(5) by (cases max_iter) auto
  from rows_keep [OF ok alpha refl b zero order_refl refl] show ?thesis
    using len cw code_okD(3) [OF ok] by (auto simp: fec_decode_def m)
qed

end
