(* ===== verification/Base_Graphs.thy ===== *)
theory Base_Graphs
  imports Ldpc_Encode
begin

text \<open>
  From the tables to the codes: whatever base graphs have the structure of TS 38.212
  (\<open>graph_ok\<close>, a computable test), \<open>code_new\<close> builds for every lifting size a code the encoder
  is correct for.  The tables themselves are in \<open>Nr_Tables\<close>.
\<close>

section \<open>The structure of a base graph\<close>

definition graph_row :: "(nat \<times> nat \<times> nat list) list \<Rightarrow> nat \<Rightarrow> (nat \<times> nat list) list" where
  "graph_row es i = map snd (filter (\<lambda>e. fst e = i) es)"

definition zero_shifts :: "nat list" where
  "zero_shifts = [0, 0, 0, 0, 0, 0, 0, 0]"

definition core_ok :: "nat \<Rightarrow> (nat \<times> nat list) list list \<Rightarrow> bool" where
  "core_ok kb rs \<longleftrightarrow>
     list_all (list_all (\<lambda>e. fst e < kb + 4)) rs \<and>
     map (filter (\<lambda>e. kb < fst e)) rs =
       [[(kb + 1, zero_shifts)], [(kb + 1, zero_shifts), (kb + 2, zero_shifts)],
        [(kb + 2, zero_shifts), (kb + 3, zero_shifts)], [(kb + 3, zero_shifts)]] \<and>
     (case map snd (concat (map (filter (\<lambda>e. fst e = kb)) rs)) of
        [a, s, a'] \<Rightarrow> a = a' \<and> length a = 8 \<and> length s = 8 | _ \<Rightarrow> False)"

definition ext_ok :: "nat \<Rightarrow> (nat \<times> nat \<times> nat list) list \<Rightarrow> nat \<Rightarrow> bool" where
  "ext_ok kb es i \<longleftrightarrow> filter (\<lambda>e. kb + 4 \<le> fst e) (graph_row es i) = [(kb + i, zero_shifts)]"

definition graph_ok :: "nat \<Rightarrow> base_graph \<Rightarrow> bool" where
  "graph_ok kb g \<longleftrightarrow>
     (let (rows, cols, es) = g in
      4 \<le> rows \<and> cols = kb + rows \<and>
      list_all (\<lambda>e. fst e < rows \<and> length (snd (snd e)) = 8) es \<and>
      core_ok kb (map (graph_row es) [0..<4]) \<and>
      list_all (ext_ok kb es) [4..<rows] \<and>
      list_all (\<lambda>i. 2 \<le> length (graph_row es i)) [0..<rows])"

section \<open>Building the block rows\<close>

definition lift_entry :: "nat \<Rightarrow> nat \<Rightarrow> nat \<times> nat list \<Rightarrow> nat \<times> nat" where
  "lift_entry i z e = (fst e, snd e ! i mod z)"

lemma fst_lift_entry [simp]: "fst (lift_entry i z e) = fst e"
  by (simp add: lift_entry_def)

lemma file_entries:
  assumes "i < 8" and "list_all (\<lambda>e. fst e < length rows \<and> length (snd (snd e)) = 8) es"
  shows "\<exists>rows'. foldl (file_entry i z) (Some rows) es = Some rows' \<and> length rows' = length rows \<and>
    (\<forall>j<length rows. rows' ! j = rows ! j @ map (lift_entry i z) (graph_row es j))"
  using assms(2)
proof (induction es arbitrary: rows)
  case (Cons e es)
  obtain row col shifts where e: "e = (row, col, shifts)"
    by (cases e)
  let ?rows = "rows[row := rows ! row @ [(col, shifts ! i mod z)]]"
  have "list_all (\<lambda>e. fst e < length ?rows \<and> length (snd (snd e)) = 8) es"
    using Cons.prems by simp
  from Cons.IH [OF this] obtain rows' where
    "foldl (file_entry i z) (Some ?rows) es = Some rows'" "length rows' = length rows"
    "\<forall>j<length rows. rows' ! j = ?rows ! j @ map (lift_entry i z) (graph_row es j)"
    by auto
  moreover have "file_entry i z (Some rows) e = Some ?rows"
    using Cons.prems assms(1) by (simp add: e file_entry_def)
  ultimately show ?case
    using Cons.prems
    by (intro exI [of _ rows']) (auto simp: e graph_row_def lift_entry_def nth_list_update)
qed (simp add: graph_row_def)

lemma filter_lift:
  "filter (\<lambda>e. P (fst e)) (map (lift_entry i z) xs) = map (lift_entry i z) (filter (\<lambda>e. P (fst e)) xs)"
  by (simp add: filter_map o_def)

lemma lift_zero: "i < 8 \<Longrightarrow> lift_entry i z (col, zero_shifts) = (col, 0)"
  by (simp add: lift_entry_def zero_shifts_def nth_Cons' )

section \<open>The first parity column\<close>

lemma foldl_concat: "foldl (\<lambda>acc xs. foldl f acc xs) a xss = foldl f a (concat xss)"
  by (induction xss arbitrary: a) auto

lemma rotate_unit_sum:
  assumes "0 < z" and "length acc = z" and "length unit = z"
  shows "length (foldl (\<lambda>acc (col, shift). if col = k then rotate_into acc unit shift else acc) acc es) = z \<and>
    (\<forall>r<z. foldl (\<lambda>acc (col, shift). if col = k then rotate_into acc unit shift else acc) acc es ! r =
      acc ! r XOR xsum (map (\<lambda>s. unit ! ((r + s) mod z)) (map snd (filter (\<lambda>e. fst e = k) es))))"
  using assms(2)
proof (induction es arbitrary: acc)
  case (Cons e es)
  obtain col s where e: "e = (col, s)"
    by (cases e)
  let ?acc = "if col = k then rotate_into acc unit s else acc"
  have "length ?acc = z"
    using Cons.prems by simp
  moreover have "rotate_into acc unit s ! r = acc ! r XOR unit ! ((r + s) mod z)" if "r < z" for r
    using Cons.prems assms that by (simp add: rotate_into_def)
  ultimately show ?case
    using Cons.IH [of ?acc] by (simp add: e xor.assoc)
qed simp

lemma position_unique:
  "i < length xs \<Longrightarrow> P (xs ! i) \<Longrightarrow> (\<And>j. j < i \<Longrightarrow> \<not> P (xs ! j)) \<Longrightarrow> position P xs = Some i"
proof (induction xs arbitrary: i)
  case (Cons x xs)
  show ?case
  proof (cases i)
    case (Suc m)
    have "\<not> P x"
      using Cons.prems(3) [of 0] Suc by simp
    moreover have "position P xs = Some m"
      using Cons.prems(1,2) Cons.prems(3) [of "Suc _"] Suc by (intro Cons.IH) auto
    ultimately show ?thesis
      by (simp add: Suc)
  qed (use Cons.prems(2) in simp)
qed simp

lemma compute_p1:
  assumes z: "0 < fc_z c" and len: "4 \<le> length (fc_block_rows c)"
    and col: "first_column c = [a, s, a]" and "s < fc_z c"
  shows "compute_p1_shift c = Some s"
proof -
  define unit :: bytes where "unit = (replicate (fc_z c) 0)[0 := 1]"
  define acc where "acc = foldl (\<lambda>acc (col, shift). if col = fc_kb c then rotate_into acc unit shift else acc)
    (replicate (fc_z c) 0) (concat (take 4 (fc_block_rows c)))"
  have "take 4 (fc_block_rows c) = map (\<lambda>i. fc_block_rows c ! i) [0..<4]"
    using len by (intro nth_equalityI) auto
  then have "map snd (filter (\<lambda>e. fst e = fc_kb c) (concat (take 4 (fc_block_rows c)))) = [a, s, a]"
    using col by (simp add: first_column_def filter_concat map_concat o_def)
  with rotate_unit_sum [OF z, of "replicate (fc_z c) 0" unit "fc_kb c" "concat (take 4 (fc_block_rows c))"]
  have la: "length acc = fc_z c" and "\<forall>r<fc_z c. acc ! r = unit ! ((r + s) mod fc_z c)"
    by (simp_all add: acc_def unit_def ac_simps)
  moreover have "unit ! i = (if i = 0 then 1 else 0)" if "i < fc_z c" for i
    using that by (simp add: unit_def nth_list_update)
  ultimately have a: "r < fc_z c \<Longrightarrow> acc ! r \<noteq> 0 \<longleftrightarrow> (r + s) mod fc_z c = 0" for r
    using z by simp
  let ?pos = "(fc_z c - s) mod fc_z c"
  have "position (\<lambda>b. b \<noteq> 0) acc = Some ?pos"
  proof (rule position_unique)
    show "?pos < length acc"
      using la z by simp
    show "acc ! ?pos \<noteq> 0"
      using a [of ?pos] z assms(4) by (simp add: mod_add_left_eq)
    fix j
    assume "j < ?pos"
    moreover from this have "s \<noteq> 0" "j < fc_z c - s"
      using assms(4) by (auto simp: mod_if split: if_splits)
    ultimately show "\<not> acc ! j \<noteq> 0"
      using a [of j] assms(4) by (simp add: mod_less)
  qed
  moreover have "(fc_z c - ?pos) mod fc_z c = s"
    using assms(4) by (cases "s = 0") simp_all
  ultimately show ?thesis
    using len unfolding compute_p1_shift_def Let_def foldl_concat unit_def [symmetric] acc_def [symmetric] by simp
qed

section \<open>Every code is one the encoder is correct for\<close>

lemma lifting_set_index_less: "lifting_set_index z = Some i \<Longrightarrow> i < 8"
  unfolding lifting_set_index_def by (drule position_SomeD) (simp add: LIFTING_SETS_def)

lemma build_ok:
  assumes g: "graph_ok k (rows, cols, es)" and i: "i < 8" and z: "0 < z"
    and bg: "bg = 1 \<and> k = 22 \<and> bg1 = (rows, cols, es) \<or> bg = 2 \<and> k = 10 \<and> bg2 = (rows, cols, es)"
    and idx: "lifting_set_index z = Some i"
  shows "\<exists>c. code_new bg1 bg2 bg z = Some (Inr c) \<and> code_ok c \<and> fc_z c = z \<and> fc_kb c = k \<and> fc_rows c = rows"
proof -
  let ?lift = "lift_entry i z"
  have es: "list_all (\<lambda>e. fst e < length (replicate rows ([] :: (nat \<times> nat) list)) \<and> length (snd (snd e)) = 8) es"
    using g by (simp add: graph_ok_def)
  have rows: "4 \<le> rows" "cols = k + rows"
    and core: "core_ok k (map (graph_row es) [0..<4])" and ext: "list_all (ext_ok k es) [4..<rows]"
    using g by (simp_all add: graph_ok_def)
  obtain br where br: "foldl (file_entry i z) (Some (replicate rows [])) es = Some br" "length br = rows"
    "\<forall>j<rows. br ! j = map ?lift (graph_row es j)"
    using file_entries [OF i es, of z] by auto
  define c0 where "c0 = \<lparr>fc_bg = bg, fc_z = z, fc_kb = k, fc_rows = rows, fc_k = k * z, fc_n_full = cols * z,
    fc_n_cb = (cols - 2) * z, fc_block_rows = br, fc_p1_shift = 0\<rparr>"
  have f: "filter (\<lambda>e. P (fst e)) (br ! j) = map ?lift (filter (\<lambda>e. P (fst e)) (graph_row es j))" if "j < rows" for P j
    using br(3) that by (simp only: filter_lift)
  have f4: "map (\<lambda>j. filter (\<lambda>e. P (fst e)) (br ! j)) [0..<4] =
    map (map ?lift) (map (filter (\<lambda>e. P (fst e))) (map (graph_row es) [0..<4]))" for P
    using rows(1) f by simp
  from core obtain a s where as: "map snd (concat (map (filter (\<lambda>e. fst e = k)) (map (graph_row es) [0..<4]))) = [a, s, a]"
    by (auto simp: core_ok_def split: list.splits)
  have col: "first_column c0 = [a ! i mod z, s ! i mod z, a ! i mod z]"
  proof -
    have "first_column c0 = map snd (concat (map (\<lambda>j. filter (\<lambda>e. fst e = k) (br ! j)) [0..<4]))"
      by (simp add: first_column_def c0_def map_concat o_def)
    also have "\<dots> = map (\<lambda>sh. sh ! i mod z) (map snd (concat (map (filter (\<lambda>e. fst e = k)) (map (graph_row es) [0..<4]))))"
      unfolding f4 [of "\<lambda>c. c = k"] by (simp add: map_concat o_def lift_entry_def)
    finally show ?thesis
      unfolding as by simp
  qed
  have p1: "compute_p1_shift c0 = Some (s ! i mod z)"
  proof (rule compute_p1)
    show "first_column c0 = [a ! i mod z, s ! i mod z, a ! i mod z]"
      by (rule col)
  qed (use z rows br(2) in \<open>simp_all add: c0_def\<close>)
  let ?c = "c0\<lparr>fc_p1_shift := s ! i mod z\<rparr>"
  have "code_new bg1 bg2 bg z = Some (Inr ?c)"
    using bg idx br(1) p1 by (auto simp: code_new_def c0_def)
  moreover have "code_ok ?c"
    unfolding code_ok_def
  proof (intro conjI)
    have "\<forall>j<4. list_all (\<lambda>e. fst e < k + 4) (graph_row es j)"
      using core by (simp add: core_ok_def list_all_iff)
    then show "\<forall>row<4. \<forall>e\<in>set (fc_block_rows ?c ! row). fst e < fc_kb ?c + 4"
      using br(3) rows(1) by (auto simp: c0_def list_all_iff)
    have "map (\<lambda>j. filter (\<lambda>e. k < fst e) (br ! j)) [0..<4] = core_pattern k"
      unfolding f4 using core lift_zero [OF i] by (simp add: core_ok_def core_pattern_def)
    then show "map (\<lambda>row. filter (\<lambda>e. fc_kb ?c < fst e) (fc_block_rows ?c ! row)) [0..<4] = core_pattern (fc_kb ?c)"
      by (simp add: c0_def)
    show "\<forall>row. 4 \<le> row \<and> row < fc_rows ?c \<longrightarrow>
        filter (\<lambda>e. fc_kb ?c + 4 \<le> fst e) (fc_block_rows ?c ! row) = [(fc_kb ?c + row, 0)]"
      using ext f [of _ "\<lambda>col. k + 4 \<le> col"] lift_zero [OF i] by (auto simp: c0_def ext_ok_def list_all_iff)
    show "\<exists>a. first_column ?c = [a, fc_p1_shift ?c, a]"
      using col by (simp add: first_column_def)
    show "\<forall>row<fc_rows ?c. 2 \<le> length (fc_block_rows ?c ! row)"
      using g br(3) by (simp add: c0_def graph_ok_def list_all_iff)
  qed (use z rows br(2) bg in \<open>auto simp: c0_def\<close>)
  ultimately show ?thesis
    by (intro exI [of _ ?c]) (simp add: c0_def)
qed

text \<open>What the codes ask of their base graphs.\<close>

locale base_graphs =
  fixes bg1 bg2 :: base_graph
  assumes bg1: "graph_ok 22 bg1" and bg2: "graph_ok 10 bg2"
begin

lemma code_new_ok:
  assumes "bg = 1 \<or> bg = 2" and "z \<in> set all_lifting_sizes"
  obtains c where "code_new bg1 bg2 bg z = Some (Inr c)" and "code_ok c" and "fc_z c = z"
    and "fc_kb c = (if bg = 1 then 22 else 10)"
proof -
  obtain i where i: "lifting_set_index z = Some i"
    using assms(2) lifting_set_index_iff by blast
  have "\<exists>c. code_new bg1 bg2 bg z = Some (Inr c) \<and> code_ok c \<and> fc_z c = z \<and> fc_kb c = (if bg = 1 then 22 else 10)"
  proof (cases "bg = 1")
    case True
    with build_ok [of 22 "fst bg1" "fst (snd bg1)" "snd (snd bg1)" i z bg] bg1 i lifting_set_index_less [OF i]
      lifting_pos [OF assms(2)] show ?thesis
      by fastforce
  next
    case False
    with assms(1) build_ok [of 10 "fst bg2" "fst (snd bg2)" "snd (snd bg2)" i z bg] bg2 i lifting_set_index_less [OF i]
      lifting_pos [OF assms(2)] show ?thesis
      by fastforce
  qed
  with that show thesis
    by blast
qed

lemma code_new_cases:
  "(case code_new bg1 bg2 bg z of
      None \<Rightarrow> False
    | Some (Inr c) \<Rightarrow> bg \<in> {1, 2} \<and> z \<in> set all_lifting_sizes \<and> code_ok c \<and> fc_z c = z
    | Some (Inl e) \<Rightarrow> bg \<notin> {1, 2} \<and> e = BadBaseGraph bg \<or>
        bg \<in> {1, 2} \<and> z \<notin> set all_lifting_sizes \<and> e = BadLiftingSize z)"
proof (cases "bg \<in> {1, 2} \<and> z \<in> set all_lifting_sizes")
  case True
  then obtain c where "code_new bg1 bg2 bg z = Some (Inr c)" "code_ok c" "fc_z c = z"
    using code_new_ok [of bg z] by auto
  with True show ?thesis
    by simp
next
  case False
  then show ?thesis
    using lifting_set_index_iff [of z] by (auto simp: code_new_def split: prod.splits)
qed

end

end
