(* ===== verification/Ldpc_Peel.thy ===== *)
theory Ldpc_Peel
  imports Ldpc_Decode Base_Graphs
begin

text \<open>
  What the layered decoder does with bits it has not received.  A block of the codeword that was
  never sent enters with soft value zero.  A check with one such bit and every other bit known
  gives it its value; a check with more of them changes nothing.  One pass over the rows therefore
  resolves the two columns that are never sent (from the second and third core rows) and, row by
  row, each parity block that was not sent: a frame received clean is decoded in one iteration.
\<close>

section \<open>Smallest magnitudes, with zeros\<close>

lemma xsum_update: "i < length b \<Longrightarrow> xsum (b[i := x]) = xsum b XOR b ! i XOR x"
proof (induction b arbitrary: i)
  case (Cons a b)
  then show ?case
    by (cases i) (simp_all add: xor.assoc xor.commute xor.left_commute)
qed simp


definition zeros :: "f64 list \<Rightarrow> nat list" where
  "zeros vs = filter (\<lambda>i. vs ! i = 0) [0..<length vs]"

lemma zeros_snoc: "zeros (vs @ [v]) = zeros vs @ (if v = 0 then [length vs] else [])"
  by (auto simp: zeros_def nth_append intro: filter_cong)

definition zero_minima :: "f64 list \<Rightarrow> f64 option \<times> f64 option \<times> nat \<times> f64 \<Rightarrow> bool" where
  "zero_minima vs st = (case st of (min1, min2, argmin, sign) \<Rightarrow>
     (zeros vs = [] \<longrightarrow> (\<forall>m. min1 = Some m \<longrightarrow> 0 < m) \<and> (\<forall>m. min2 = Some m \<longrightarrow> 0 < m)) \<and>
     (\<forall>e. zeros vs = [e] \<longrightarrow> min1 = Some 0 \<and> argmin = e \<and> (\<forall>m. min2 = Some m \<longrightarrow> 0 < m)) \<and>
     (2 \<le> length (zeros vs) \<longrightarrow> min1 = Some 0 \<and> min2 = Some 0))"

lemma zero_minima_step:
  assumes IH: "zero_minima vs (min1, min2, argmin, sign)" and "min1 = None \<longleftrightarrow> vs = []"
    and pos: "\<forall>m. min1 = Some m \<longrightarrow> 0 \<le> m" "\<forall>m. min2 = Some m \<longrightarrow> 0 \<le> m"
  shows "zero_minima (vs @ [v]) (scan_edge (min1, min2, argmin, sign) (length vs, v))"
proof -
  consider "zeros vs = []" | e where "zeros vs = [e]" | "2 \<le> length (zeros vs)"
    by (cases "zeros vs" rule: list.exhaust [case_product list.exhaust [of "tl (zeros vs)"]]) auto
  then show ?thesis
  proof cases
    case 1
    with IH pos show ?thesis
      by (cases "v = 0"; cases min1; cases min2) (auto simp: zero_minima_def zeros_snoc scan_edge_def Let_def below_def)
  next
    case 2
    with IH pos show ?thesis
      by (cases "v = 0"; cases min2) (auto simp: zero_minima_def zeros_snoc scan_edge_def Let_def below_def)
  next
    case 3
    with IH pos show ?thesis
      by (auto simp: zero_minima_def zeros_snoc scan_edge_def Let_def below_def)
  qed
qed

lemma scan_check_zeros: "zero_minima vs (scan_check vs)"
proof (induction vs rule: rev_induct)
  case Nil
  show ?case
    by (simp add: zero_minima_def scan_check_def zeros_def)
next
  case (snoc v vs)
  obtain min1 min2 argmin sign where s: "scan_check vs = (min1, min2, argmin, sign)"
    using prod_cases4 by blast
  show ?case
    unfolding scan_check_snoc s
    by (rule zero_minima_step [OF snoc [unfolded s]]) (use scan_check_minima [of vs] s in auto)
qed

text \<open>
  What a check tells its bits: \<open>told vs alpha e\<close> is the new soft value of edge \<open>e\<close>.  It leans the
  way of its bit; it agrees with it if it did before, or if every other edge did.
\<close>

definition told :: "f64 list \<Rightarrow> f64 \<Rightarrow> nat \<Rightarrow> f64 option" where
  "told vs alpha e =
     (case scan_check vs of (min1, min2, argmin, sign) \<Rightarrow>
        map_option (\<lambda>magnitude. vs ! e + alpha * magnitude * sign * (if vs ! e < 0 then -1 else 1))
          (if e = argmin then min2 else min1))"

lemma told_sound:
  assumes len: "2 \<le> length vs" "length b = length vs" and e: "e < length vs" and alpha: "0 < alpha"
    and lean: "\<forall>i<length vs. leans (vs ! i) (b ! i)" and b: "set b \<subseteq> {0, 1}" and zero: "xsum b = 0"
  shows "\<exists>w. told vs alpha e = Some w \<and> leans w (b ! e) \<and> (vs ! e \<noteq> 0 \<longrightarrow> agrees w (b ! e)) \<and>
    (zeros vs = [e] \<longrightarrow> agrees w (b ! e))"
proof -
  obtain min1 min2 argmin sign where s: "scan_check vs = (min1, min2, argmin, sign)"
    using prod_cases4 by blast
  note minima = scan_check_minima [of vs, unfolded s prod.case] and z = scan_check_zeros [of vs, unfolded s zero_minima_def prod.case]
  obtain m1 m2 where m: "min1 = Some m1" "min2 = Some m2" "0 \<le> m1" "0 \<le> m2"
    using minima len(1) by (cases min1; cases min2) auto
  define mag where "mag = (if e = argmin then m2 else m1)"
  define own where "own = (if vs ! e < 0 then -1 else 1 :: f64)"
  have told: "told vs alpha e = Some (vs ! e + alpha * mag * sign * own)"
    by (simp add: told_def s m mag_def own_def)
  have b01: "b ! i = 0 \<or> b ! i = 1" if "i < length vs" for i
  proof -
    have "b ! i \<in> set b"
      using that len(2) by simp
    then show ?thesis
      using b by blast
  qed
  have hard: "hard_bits vs ! i = b ! i" if "i < length vs" "vs ! i \<noteq> 0" for i
    using lean that b01 [OF that(1)] by (auto simp: hard_bits_def leans_def)
  have le: "leans (vs ! e) (b ! e)"
    using lean e by blast
  note be = b01 [OF e]
  consider (none) "zeros vs = []" | (one) i where "zeros vs = [i]" | (many) "2 \<le> length (zeros vs)"
    by (cases "zeros vs" rule: list.exhaust [case_product list.exhaust [of "tl (zeros vs)"]]) auto
  then show ?thesis
  proof cases
    case none
    then have nz: "vs ! i \<noteq> 0" if "i < length vs" for i
      using that by (auto simp: zeros_def filter_empty_conv)
    have "hard_bits vs = b"
      using hard nz len(2) by (intro nth_equalityI) (simp_all add: hard_bits_def)
    then have "sign = 1"
      using minima zero by simp
    moreover have "0 \<le> alpha * mag"
      using alpha m by (simp add: mag_def)
    ultimately show ?thesis
      unfolding told using le nz [OF e] be none by (auto simp: own_def leans_def agrees_def)
  next
    case (one i)
    have only: "vs ! j = 0 \<longleftrightarrow> j = i" if "j < length vs" for j
    proof -
      have "j \<in> set (zeros vs) \<longleftrightarrow> j = i"
        by (simp add: one)
      then show ?thesis
        using that by (simp add: zeros_def)
    qed
    have "i \<in> set (zeros vs)"
      by (simp add: one)
    then have i: "i < length vs"
      by (simp add: zeros_def)
    show ?thesis
    proof (cases "e = i")
      case False
      then have "mag = 0"
        using z one m by (auto simp: mag_def)
      then show ?thesis
        unfolding told using le False only [OF e] one be by (auto simp: leans_def agrees_def)
    next
      case True
      then have "0 < mag"
        using z one m by (auto simp: mag_def)
      then have mag: "0 < alpha * mag"
        using alpha by simp
      have v: "vs ! e = 0"
        using only [OF e] True by simp
      have "hard_bits vs = b[i := 0]"
      proof (rule nth_equalityI)
        fix j
        assume "j < length (hard_bits vs)"
        then have j: "j < length vs"
          by (simp add: hard_bits_def)
        show "hard_bits vs ! j = b[i := 0] ! j"
          using hard [OF j] only [OF j] j len(2) by (cases "j = i") (simp_all add: hard_bits_def)
      qed (simp add: hard_bits_def len(2))
      then have "xsum (hard_bits vs) = b ! i"
        using zero xsum_update [of i b 0] i len(2) by simp
      then have "sign = (if b ! e = 0 then 1 else -1)"
        using minima True by simp
      then show ?thesis
        unfolding told using mag v be by (auto simp: own_def leans_def agrees_def)
    qed
  next
    case many
    then have "mag = 0"
      using z m by (auto simp: mag_def)
    then show ?thesis
      unfolding told using le many be by (auto simp: leans_def agrees_def)
  qed
qed

section \<open>One check\<close>

lemma choice_nat: "(\<And>e. e < n \<Longrightarrow> \<exists>w. P e w) \<Longrightarrow> \<exists>f. \<forall>e<n. P e (f e)" for n :: nat
  by metis

lemma filter_eq_upt: "e < n \<Longrightarrow> filter (\<lambda>j. j = e) [0..<n] = [e]"
  by (induction n) (auto simp: less_Suc_eq filter_empty_conv)


lemma fold_updates:
  "length (foldl (\<lambda>p e. p[f e := w e]) xs es) = length xs"
  "q < length xs \<Longrightarrow> foldl (\<lambda>p e. p[f e := w e]) xs es ! q = xs ! q \<and> q \<notin> f ` set es \<or>
     (\<exists>e\<in>set es. f e = q \<and> foldl (\<lambda>p e. p[f e := w e]) xs es ! q = w e)"
proof (induction es rule: rev_induct)
  case (snoc e es)
  { case 1 show ?case using snoc(1) by simp }
  { case 2
    with snoc show ?case
      by (cases "q = f e") (auto simp: nth_list_update) }
qed simp_all

text \<open>Where edge \<open>e\<close> of check \<open>r\<close> points, and the values the check sees.\<close>

definition edge_at :: "fec_code \<Rightarrow> nat \<Rightarrow> nat \<Rightarrow> nat \<Rightarrow> nat" where
  "edge_at c i r e = (let (col, shift) = fc_block_rows c ! i ! e in col * fc_z c + (r + shift) mod fc_z c)"

definition seen :: "fec_code \<Rightarrow> nat \<Rightarrow> f64 list \<Rightarrow> nat \<Rightarrow> f64 list" where
  "seen c i post r = map (\<lambda>e. post ! edge_at c i r e) [0..<length (fc_block_rows c ! i)]"

lemma edge_at_less:
  assumes ok: "code_ok c" and i: "i < fc_rows c" and e: "e < length (fc_block_rows c ! i)"
  shows "edge_at c i r e < fc_n_full c"
proof -
  obtain col shift where cs: "fc_block_rows c ! i ! e = (col, shift)"
    by fastforce
  have "(col + 1) * fc_z c \<le> fc_n_full c"
    using in_range [OF ok i, of "replicate (fc_n_full c) 0"] nth_mem [OF e] by (fastforce simp: in_range_def cs)
  moreover have "(r + shift) mod fc_z c < fc_z c"
    using code_okD(1) [OF ok] by simp
  ultimately show ?thesis
    by (simp add: edge_at_def cs)
qed

text \<open>A codeword's bits at a check add up to zero.\<close>

lemma check_zero:
  assumes "row_zero c b i" and "r < fc_z c"
  shows "xsum (map (\<lambda>e. b ! edge_at c i r e) [0..<length (fc_block_rows c ! i)]) = 0"
proof -
  have "map (\<lambda>e. b ! edge_at c i r e) [0..<length (fc_block_rows c ! i)] = map (term_at c b r) (fc_block_rows c ! i)"
    by (intro nth_equalityI) (auto simp: edge_at_def term_at_def split: prod.splits)
  then show ?thesis
    using assms by (simp add: row_zero_def row_at_def)
qed

text \<open>When no message has been sent yet, a check replaces each bit's value by what it tells it.\<close>

lemma check_step_tells:
  assumes ok: "code_ok c" and i: "i < fc_rows c" and r: "r < fc_z c"
    and row: "row = fc_block_rows c ! i" and inc: "incoming = incoming_of c row (replicate (length row * fc_z c) 0) post0"
    and told: "\<forall>e<length row. told (seen c i post0 r) alpha e = Some (w e)"
  shows "\<exists>msg'. check_step c alpha row incoming (Some (msg, post)) r =
    Some (msg', foldl (\<lambda>p e. p[edge_at c i r e := w e]) post [0..<length row])"
proof -
  have value_at: "incoming ! (e * fc_z c + r) = seen c i post0 r ! e" if "e < length row" for e
    using incoming_nth [OF that r, of "fst (row ! e)" "snd (row ! e)"] that
    by (auto simp: inc seen_def edge_at_def row split: prod.splits)
  have vs: "map (\<lambda>edge. incoming ! (edge * fc_z c + r)) [0..<length row] = seen c i post0 r"
    using value_at by (intro nth_equalityI) (simp_all add: seen_def row)
  have one: "\<exists>msg'. send c alpha row incoming r (scan_check (seen c i post0 r)) (Some (msg, post)) e =
      Some (msg', post[edge_at c i r e := w e])" if e: "e < length row" for e msg post
  proof -
    obtain min1 min2 argmin sign where s: "scan_check (seen c i post0 r) = (min1, min2, argmin, sign)"
      using prod_cases4 by blast
    have "told (seen c i post0 r) alpha e = Some (w e)"
      using told e by blast
    then show ?thesis
      using value_at [OF e] e
      by (auto simp: told_def s send_def edge_at_def row Let_def split: prod.splits)
  qed
  have "\<exists>msg'. foldl (send c alpha row incoming r (scan_check (seen c i post0 r))) (Some (msg, post)) [0..<k] =
      Some (msg', foldl (\<lambda>p e. p[edge_at c i r e := w e]) post [0..<k])" if "k \<le> length row" for k
    using that
  proof (induction k)
    case (Suc k)
    then obtain msg' where IH: "foldl (send c alpha row incoming r (scan_check (seen c i post0 r))) (Some (msg, post)) [0..<k] =
      Some (msg', foldl (\<lambda>p e. p[edge_at c i r e := w e]) post [0..<k])"
      by auto
    show ?case
      using one [of k msg' "foldl (\<lambda>p e. p[edge_at c i r e := w e]) post [0..<k]"] Suc.prems by (simp add: IH)
  qed simp
  then show ?thesis
    by (simp add: check_step_def vs)
qed

section \<open>One row, one pass\<close>

text \<open>
  \<open>known b post K\<close>: no value leans the wrong way, and those in \<open>K\<close> agree with their bits.
\<close>

definition known :: "bytes \<Rightarrow> f64 list \<Rightarrow> nat set \<Rightarrow> bool" where
  "known b post K \<longleftrightarrow> length post = length b \<and> (\<forall>k<length b. leans (post ! k) (b ! k)) \<and>
     (\<forall>k<length b. k \<in> K \<longrightarrow> agrees (post ! k) (b ! k))"

text \<open>The bits of column \<open>col\<close>, and the ones a row can resolve: its one edge into a column with all others known.\<close>

definition column :: "fec_code \<Rightarrow> nat \<Rightarrow> nat set" where
  "column c col = {col * fc_z c..<(col + 1) * fc_z c}"

definition resolves :: "fec_code \<Rightarrow> nat \<Rightarrow> nat set \<Rightarrow> nat \<Rightarrow> bool" where
  "resolves c i K col \<longleftrightarrow> (\<exists>shift. filter (\<lambda>e. fst e = col) (fc_block_rows c ! i) = [(col, shift)]) \<and>
     (\<forall>e\<in>set (fc_block_rows c ! i). fst e \<noteq> col \<longrightarrow> column c (fst e) \<subseteq> K)"

lemma edge_at_column: "code_ok c \<Longrightarrow> edge_at c i r e \<in> column c (fst (fc_block_rows c ! i ! e))"
  using code_okD(1) [of c] by (auto simp: edge_at_def column_def split: prod.splits)

lemma column_div: "k \<in> column c col \<Longrightarrow> k div fc_z c = col"
  by (intro div_nat_eqI) (auto simp: column_def mult.commute)

lemma column_disjoint: "k \<in> column c col \<Longrightarrow> k \<in> column c col' \<Longrightarrow> col = col'"
  using column_div by metis

lemma filter_single:
  assumes "filter P xs = [x]"
  obtains e where "e < length xs" and "xs ! e = x" and "\<And>j. j < length xs \<Longrightarrow> P (xs ! j) \<Longrightarrow> j = e"
proof -
  have "length (filter P xs) = card {j. j < length xs \<and> P (xs ! j)}"
    by (rule length_filter_conv_card)
  then have "card {j. j < length xs \<and> P (xs ! j)} = 1"
    using assms by simp
  then obtain e where e: "{j. j < length xs \<and> P (xs ! j)} = {e}"
    by (rule card_1_singletonE)
  then have "e < length xs" "P (xs ! e)"
    by auto
  then have "xs ! e \<in> set (filter P xs)"
    by simp
  then have "xs ! e = x"
    by (simp add: assms)
  with e \<open>e < length xs\<close> that show thesis
    by blast
qed

lemma rotation_onto:
  fixes z :: nat
  assumes "0 < z" and "col * z \<le> k" and "k < (col + 1) * z"
  shows "\<exists>r<z. k = col * z + (r + shift) mod z"
proof (intro exI conjI)
  define j where "j = k - col * z"
  have j: "j < z" "k = col * z + j"
    using assms by (auto simp: j_def)
  let ?r = "(j + (z - shift mod z)) mod z"
  have "(?r + shift) mod z = (j + (z - shift mod z) + shift mod z) mod z"
    by (simp add: mod_simps)
  also have "j + (z - shift mod z) + shift mod z = j + z"
    using mod_less_divisor [OF assms(1), of shift] by simp
  also have "(j + z) mod z = j"
    using j(1) by simp
  finally show "k = col * z + (?r + shift) mod z"
    using j(2) by simp
  show "?r < z"
    using assms(1) by simp
qed

text \<open>What one check, of the row's \<open>fc_z c\<close>, does to the values.\<close>

lemma check_known:
  assumes ok: "code_ok c" and i: "i < fc_rows c" and r: "r < fc_z c" and alpha: "0 < alpha"
    and inc: "incoming = incoming_of c (fc_block_rows c ! i) (replicate (length (fc_block_rows c ! i) * fc_z c) 0) post0"
    and b: "length b = fc_n_full c" "set b \<subseteq> {0, 1}" and zero: "row_zero c b i"
    and post0: "known b post0 K" and post: "known b post K"
  shows "\<exists>msg' post'. check_step c alpha (fc_block_rows c ! i) incoming (Some (msg, post)) r = Some (msg', post') \<and>
    known b post' K \<and>
    (\<forall>k<length b. k \<notin> edge_at c i r ` {..<length (fc_block_rows c ! i)} \<longrightarrow> post' ! k = post ! k) \<and>
    (\<forall>e<length (fc_block_rows c ! i). (\<forall>j<length (fc_block_rows c ! i). j \<noteq> e \<longrightarrow> edge_at c i r j \<in> K \<and> edge_at c i r j \<noteq> edge_at c i r e) \<longrightarrow>
       agrees (post' ! edge_at c i r e) (b ! edge_at c i r e))"
proof -
  let ?n = "length (fc_block_rows c ! i)" and ?at = "edge_at c i r"
  let ?vs = "seen c i post0 r" and ?b = "map (\<lambda>e. b ! ?at e) [0..<?n]"
  have less: "?at e < length b" if "e < ?n" for e
    using edge_at_less [OF ok i that] b(1) by simp
  have lv: "length ?vs = ?n"
    by (simp add: seen_def)
  have lean: "\<forall>e<length ?vs. leans (?vs ! e) (?b ! e)"
    using post0 less by (auto simp: seen_def known_def)
  have bits: "set ?b \<subseteq> {0, 1}"
    using b(2) less nth_mem by fastforce
  have "\<exists>w. \<forall>e<?n. told ?vs alpha e = Some (w e) \<and> leans (w e) (?b ! e) \<and>
      (?vs ! e \<noteq> 0 \<longrightarrow> agrees (w e) (?b ! e)) \<and> (zeros ?vs = [e] \<longrightarrow> agrees (w e) (?b ! e))"
  proof (rule choice_nat)
    fix e
    assume "e < ?n"
    then show "\<exists>w. told ?vs alpha e = Some w \<and> leans w (?b ! e) \<and> (?vs ! e \<noteq> 0 \<longrightarrow> agrees w (?b ! e)) \<and>
        (zeros ?vs = [e] \<longrightarrow> agrees w (?b ! e))"
      using told_sound [of ?vs ?b e alpha] row_degree [OF ok i] lean bits check_zero [OF zero r] alpha by (simp add: lv)
  qed
  then obtain w where w: "\<forall>e<?n. told ?vs alpha e = Some (w e)" "\<And>e. e < ?n \<Longrightarrow> leans (w e) (b ! ?at e)"
    "\<And>e. e < ?n \<Longrightarrow> ?vs ! e \<noteq> 0 \<Longrightarrow> agrees (w e) (b ! ?at e)" "\<And>e. e < ?n \<Longrightarrow> zeros ?vs = [e] \<Longrightarrow> agrees (w e) (b ! ?at e)"
    by auto
  define post' where "post' = foldl (\<lambda>p e. p[?at e := w e]) post [0..<?n]"
  obtain msg' where step: "check_step c alpha (fc_block_rows c ! i) incoming (Some (msg, post)) r = Some (msg', post')"
    using check_step_tells [OF ok i r refl inc w(1), of msg post] unfolding post'_def by blast
  have upd: "post' ! q = post ! q \<and> q \<notin> ?at ` {..<?n} \<or> (\<exists>e<?n. ?at e = q \<and> post' ! q = w e)" if "q < length b" for q
    using fold_updates(2) [of q post ?at w "[0..<?n]"] that post unfolding post'_def known_def by (auto simp: atLeast0LessThan)
  have keep: "agrees (w e) (b ! ?at e)" if "e < ?n" "?at e \<in> K" for e
  proof -
    have "agrees (post0 ! ?at e) (b ! ?at e)"
      using post0 less [OF that(1)] that(2) by (auto simp: known_def)
    then have "?vs ! e \<noteq> 0"
      using that(1) by (auto simp: seen_def agrees_def split: if_splits)
    then show ?thesis
      by (rule w(3) [OF that(1)])
  qed
  have "known b post' K"
    unfolding known_def
  proof (intro conjI allI impI)
    show "length post' = length b"
      using post fold_updates(1) [of ?at w post "[0..<?n]"] by (simp add: post'_def known_def)
    show "leans (post' ! k) (b ! k)" if "k < length b" for k
      using upd [OF that] w(2) post that by (auto simp: known_def)
    show "agrees (post' ! k) (b ! k)" if "k < length b" "k \<in> K" for k
      using upd [OF that(1)] keep post that by (auto simp: known_def)
  qed
  moreover have "post' ! k = post ! k" if "k < length b" "k \<notin> ?at ` {..<?n}" for k
    using upd [OF that(1)] that(2) by auto
  moreover have "agrees (post' ! ?at e) (b ! ?at e)"
    if e: "e < ?n" and others: "\<forall>j<?n. j \<noteq> e \<longrightarrow> ?at j \<in> K \<and> ?at j \<noteq> ?at e" for e
  proof -
    have "agrees (w e) (b ! ?at e)"
    proof (cases "?vs ! e = 0")
      case True
      have "?vs ! j \<noteq> 0" if "j < ?n" "j \<noteq> e" for j
        using post0 less [OF that(1)] others that by (auto simp: seen_def known_def agrees_def split: if_splits)
      then have "zeros ?vs = filter (\<lambda>j. j = e) [0..<?n]"
        unfolding zeros_def lv using True by (intro filter_cong) auto
      also have "\<dots> = [e]"
        using e by (simp add: filter_eq_upt)
      finally show ?thesis
        by (rule w(4) [OF e])
    qed (use w(3) [OF e] in simp)
    moreover have "post' ! ?at e = w e"
      using upd [OF less [OF e]] e others by auto
    ultimately show ?thesis
      by simp
  qed
  ultimately show ?thesis
    using step by blast
qed

text \<open>The one edge by which a row resolves a column stands apart from the others.\<close>

definition sole :: "fec_code \<Rightarrow> nat \<Rightarrow> nat set \<Rightarrow> nat \<Rightarrow> bool" where
  "sole c i K e \<longleftrightarrow> e < length (fc_block_rows c ! i) \<and>
     (\<forall>j<length (fc_block_rows c ! i). \<forall>r r'. j \<noteq> e \<longrightarrow> edge_at c i r j \<in> K \<and> edge_at c i r j \<noteq> edge_at c i r' e)"

lemma resolves_sole:
  assumes ok: "code_ok c" and "resolves c i K col"
  obtains e shift where "sole c i K e" and "fc_block_rows c ! i ! e = (col, shift)"
proof -
  let ?row = "fc_block_rows c ! i"
  from assms(2) obtain shift where f: "filter (\<lambda>e. fst e = col) ?row = [(col, shift)]"
    and others: "\<forall>e\<in>set ?row. fst e \<noteq> col \<longrightarrow> column c (fst e) \<subseteq> K"
    unfolding resolves_def by blast
  from f obtain e where e: "e < length ?row" "?row ! e = (col, shift)"
    and uniq: "\<And>j. j < length ?row \<Longrightarrow> fst (?row ! j) = col \<Longrightarrow> j = e"
    by (rule filter_single) blast
  have "edge_at c i r j \<in> K \<and> edge_at c i r j \<noteq> edge_at c i r' e" if "j < length ?row" "j \<noteq> e" for j r r'
  proof -
    have ne: "fst (?row ! j) \<noteq> col"
      using uniq that by blast
    then have "edge_at c i r j \<in> K"
      using others that(1) edge_at_column [OF ok, of i r j] by fastforce
    moreover have "edge_at c i r j \<noteq> edge_at c i r' e"
      using edge_at_column [OF ok, of i r j] edge_at_column [OF ok, of i r' e] column_disjoint ne e(2) by fastforce
    ultimately show ?thesis
      by blast
  qed
  then have "sole c i K e"
    using e(1) unfolding sole_def by blast
  then show thesis
    using e(2) by (rule that)
qed

lemma edge_at_turn:
  assumes "code_ok c" and "r < n" and "n < fc_z c"
  shows "edge_at c i r e \<noteq> edge_at c i n e"
proof
  assume "edge_at c i r e = edge_at c i n e"
  then have "(r + snd (fc_block_rows c ! i ! e)) mod fc_z c = (n + snd (fc_block_rows c ! i ! e)) mod fc_z c"
    by (auto simp: edge_at_def split: prod.splits)
  then have "fc_z c dvd (n + snd (fc_block_rows c ! i ! e)) - (r + snd (fc_block_rows c ! i ! e))"
    using assms(2) by (intro mod_eq_dvd_iff_nat [THEN iffD1]) simp_all
  then have "fc_z c dvd n - r"
    by simp
  then show False
    using assms(2,3) dvd_imp_le [of "fc_z c" "n - r"] by simp
qed

lemma checks_known:
  assumes ok: "code_ok c" and i: "i < fc_rows c" and alpha: "0 < alpha"
    and inc: "incoming = incoming_of c (fc_block_rows c ! i) (replicate (length (fc_block_rows c ! i) * fc_z c) 0) post"
    and b: "length b = fc_n_full c" "set b \<subseteq> {0, 1}" and zero: "row_zero c b i" and post: "known b post K"
    and E: "\<forall>e\<in>E. sole c i K e" and n: "n \<le> fc_z c"
  shows "\<exists>msg' post'. foldl (check_step c alpha (fc_block_rows c ! i) incoming) (Some (msg, post)) [0..<n] = Some (msg', post') \<and>
    known b post' (K \<union> {edge_at c i r e | r e. r < n \<and> e \<in> E})"
  using n
proof (induction n)
  case 0
  then show ?case
    using post by simp
next
  case (Suc n)
  let ?done = "\<lambda>n. {edge_at c i r e | r e. r < n \<and> e \<in> E}" and ?row = "fc_block_rows c ! i"
  from Suc obtain msg1 post1 where IH: "foldl (check_step c alpha ?row incoming) (Some (msg, post)) [0..<n] = Some (msg1, post1)"
    "known b post1 (K \<union> ?done n)"
    by auto
  have n: "n < fc_z c"
    using Suc.prems by simp
  have k1: "known b post1 K"
    using IH(2) by (simp add: known_def)
  from check_known [OF ok i n alpha inc b zero post k1, of msg1] obtain msg2 post2 where
    step: "check_step c alpha ?row incoming (Some (msg1, post1)) n = Some (msg2, post2)" "known b post2 K"
    and frame: "\<forall>k<length b. k \<notin> edge_at c i n ` {..<length ?row} \<longrightarrow> post2 ! k = post1 ! k"
    and new: "\<forall>e<length ?row. (\<forall>j<length ?row. j \<noteq> e \<longrightarrow> edge_at c i n j \<in> K \<and> edge_at c i n j \<noteq> edge_at c i n e) \<longrightarrow>
      agrees (post2 ! edge_at c i n e) (b ! edge_at c i n e)"
    by blast
  have "agrees (post2 ! edge_at c i r e) (b ! edge_at c i r e)" if r: "r < Suc n" and e: "e \<in> E" for r e
  proof (cases "r = n")
    case True
    have "sole c i K e"
      using E e by blast
    then show ?thesis
      using new unfolding True sole_def by blast
  next
    case False
    then have "r < n"
      using r by simp
    have s: "sole c i K e"
      using E e by blast
    then have "edge_at c i r e \<notin> edge_at c i n ` {..<length ?row}"
      using edge_at_turn [OF ok \<open>r < n\<close> n, of i e] unfolding sole_def by (metis imageE lessThan_iff)
    moreover have l: "edge_at c i r e < length b"
      using edge_at_less [OF ok i] s b(1) by (simp add: sole_def)
    ultimately have "post2 ! edge_at c i r e = post1 ! edge_at c i r e"
      using frame by blast
    moreover have "edge_at c i r e \<in> ?done n"
      using \<open>r < n\<close> e by blast
    ultimately show ?thesis
      using IH(2) l by (simp add: known_def)
  qed
  then have "known b post2 (K \<union> ?done (Suc n))"
    using step(2) by (auto simp: known_def)
  then show ?case
    using step(1) by (simp add: IH(1))
qed

text \<open>A row keeps what is known, and resolves the column it can.\<close>

lemma row_known:
  assumes ok: "code_ok c" and i: "i < fc_rows c" and alpha: "0 < alpha"
    and m: "messages ! i = replicate (length (fc_block_rows c ! i) * fc_z c) 0"
    and b: "length b = fc_n_full c" "set b \<subseteq> {0, 1}" and zero: "row_zero c b i" and post: "known b post K"
  shows "\<exists>msg' post'. row_step c alpha (Some (messages, post)) i = Some (messages[i := msg'], post') \<and>
    known b post' (K \<union> (if resolves c i K col then column c col else {}))"
proof -
  let ?row = "fc_block_rows c ! i"
  let ?inc = "incoming_of c ?row (messages ! i) post"
  have inc: "?inc = incoming_of c ?row (replicate (length ?row * fc_z c) 0) post"
    by (simp add: m)
  obtain E where E: "\<forall>e\<in>E. sole c i K e"
    and cover: "(if resolves c i K col then column c col else {}) \<subseteq> {edge_at c i r e | r e. r < fc_z c \<and> e \<in> E}"
  proof (cases "resolves c i K col")
    case True
    then obtain e shift where e: "sole c i K e" "?row ! e = (col, shift)"
      by (rule resolves_sole [OF ok])
    have "column c col \<subseteq> {edge_at c i r e | r. r < fc_z c}"
      using rotation_onto [OF code_okD(1) [OF ok], where col = col and shift = shift]
      by (fastforce simp: edge_at_def e(2) column_def)
    with True e(1) show thesis
      by (intro that [of "{e}"]) auto
  qed (auto intro: that [of "{}"])
  from checks_known [OF ok i alpha inc b zero post E order_refl, of "messages ! i"] obtain msg' post' where
    s: "foldl (check_step c alpha ?row ?inc) (Some (messages ! i, post)) [0..<fc_z c] = Some (msg', post')"
    "known b post' (K \<union> {edge_at c i r e | r e. r < fc_z c \<and> e \<in> E})"
    by blast
  have "known b post' (K \<union> (if resolves c i K col then column c col else {}))"
    using s(2) cover unfolding known_def by blast
  with s(1) show ?thesis
    by (auto simp: row_step_def Let_def)
qed

section \<open>A pass\<close>

text \<open>
  What a code must look like for one pass to be enough: the second core row has the first
  information column and not the second, the third core row has the second one once.
\<close>

definition peels :: "fec_code \<Rightarrow> bool" where
  "peels c \<longleftrightarrow> code_ok c \<and>
     (\<exists>s. filter (\<lambda>e. fst e < 2) (fc_block_rows c ! 1) = [(0, s)]) \<and>
     (\<exists>s. filter (\<lambda>e. fst e = 1) (fc_block_rows c ! 2) = [(1, s)])"

text \<open>The columns known when the rows below \<open>n\<close> have been visited.\<close>

definition resolved :: "fec_code \<Rightarrow> nat \<Rightarrow> nat set" where
  "resolved c n = {2..<fc_kb c + 4} \<union> {col. col = 0 \<and> 2 \<le> n} \<union> {col. col = 1 \<and> 3 \<le> n} \<union> {fc_kb c + 4..<fc_kb c + n}"

definition next_column :: "fec_code \<Rightarrow> nat \<Rightarrow> nat" where
  "next_column c i = (if i = 1 then 0 else if i = 2 then 1 else fc_kb c + i)"

lemma filter_cols:
  assumes "filter P xs = [(a, s)]" and "\<And>e. e \<in> set xs \<Longrightarrow> P e \<longleftrightarrow> fst e = a"
  shows "filter (\<lambda>e. fst e = a) xs = [(a, s)]"
proof -
  have "filter (\<lambda>e. fst e = a) xs = filter P xs"
    by (rule filter_cong) (simp_all add: assms(2))
  with assms(1) show ?thesis
    by simp
qed

lemma filter_single_iff:
  assumes "filter P xs = [x]" and "e \<in> set xs" and "P e"
  shows "e = x"
proof -
  have "e \<in> set (filter P xs)"
    using assms(2,3) by simp
  then show ?thesis
    by (simp add: assms(1))
qed

lemma resolved_step:
  assumes "peels c" and i: "i < fc_rows c" and K: "(\<Union>col\<in>resolved c i. column c col) \<subseteq> K"
  shows "(\<Union>col\<in>resolved c (Suc i). column c col) \<subseteq>
    K \<union> (if resolves c i K (next_column c i) then column c (next_column c i) else {})"
proof -
  have ok: "code_ok c"
    using assms(1) by (simp add: peels_def)
  have sub: "column c col \<subseteq> K" if "col \<in> resolved c i" for col
    using K that by blast
  consider "i = 0 \<or> i = 3" | "i = 1" | "i = 2" | "4 \<le> i"
    by linarith
  then have "resolved c (Suc i) = resolved c i \<or>
    resolves c i K (next_column c i) \<and> resolved c (Suc i) = insert (next_column c i) (resolved c i)"
  proof cases
    case 1
    then show ?thesis
      by (auto simp: resolved_def)
  next
    case 2
    obtain s where f: "filter (\<lambda>e. fst e < 2) (fc_block_rows c ! 1) = [(0, s)]"
      using assms(1) by (auto simp: peels_def)
    have "fst e < 2 \<longleftrightarrow> fst e = 0" if "e \<in> set (fc_block_rows c ! 1)" for e
      using filter_single_iff [OF f that] by auto
    with f have "filter (\<lambda>e. fst e = 0) (fc_block_rows c ! 1) = [(0, s)]"
      by (rule filter_cols)
    moreover have "fst e \<in> resolved c i" if "e \<in> set (fc_block_rows c ! 1)" "fst e \<noteq> 0" for e
      using filter_single_iff [OF f that(1)] core_cols [OF ok _ that(1)] that(2) by (auto simp: resolved_def)
    ultimately have "resolves c i K 0"
      using sub 2 by (auto simp: resolves_def)
    then show ?thesis
      using 2 by (auto simp: resolved_def next_column_def)
  next
    case 3
    obtain s where "filter (\<lambda>e. fst e = 1) (fc_block_rows c ! 2) = [(1, s)]"
      using assms(1) by (auto simp: peels_def)
    moreover have "fst e \<in> resolved c i" if "e \<in> set (fc_block_rows c ! 2)" "fst e \<noteq> 1" for e
      using core_cols [OF ok _ that(1)] that(2) 3 by (auto simp: resolved_def)
    ultimately have "resolves c i K 1"
      using sub 3 by (auto simp: resolves_def)
    then show ?thesis
      using 3 by (auto simp: resolved_def next_column_def)
  next
    case 4
    have f: "filter (\<lambda>e. fc_kb c + 4 \<le> fst e) (fc_block_rows c ! i) = [(fc_kb c + i, 0)]"
      by (rule ext_rows [OF ok 4 i])
    have "fc_kb c + 4 \<le> fst e \<longleftrightarrow> fst e = fc_kb c + i" if "e \<in> set (fc_block_rows c ! i)" for e
      using filter_single_iff [OF f that] 4 by auto
    with f have "filter (\<lambda>e. fst e = fc_kb c + i) (fc_block_rows c ! i) = [(fc_kb c + i, 0)]"
      by (rule filter_cols)
    moreover have "fst e \<in> resolved c i" if "e \<in> set (fc_block_rows c ! i)" "fst e \<noteq> fc_kb c + i" for e
      using ext_cols [OF ok 4 i that(1)] that(2) 4 by (auto simp: resolved_def)
    ultimately have "resolves c i K (fc_kb c + i)"
      using sub by (auto simp: resolves_def)
    then show ?thesis
      using 4 by (auto simp: resolved_def next_column_def)
  qed
  then show ?thesis
  proof
    assume "resolved c (Suc i) = resolved c i"
    then show ?thesis
      using K by auto
  next
    assume "resolves c i K (next_column c i) \<and> resolved c (Suc i) = insert (next_column c i) (resolved c i)"
    then show ?thesis
      using K by auto
  qed
qed

text \<open>The rows below \<open>n\<close>, visited in order.\<close>

lemma pass_known:
  assumes p: "peels c" and alpha: "0 < alpha" and b: "length b = fc_n_full c" "set b \<subseteq> {0, 1}"
    and zero: "\<forall>row<fc_rows c. row_zero c b row" and post: "known b post (\<Union>col\<in>resolved c 0. column c col)"
    and m: "messages = map (\<lambda>row. replicate (length row * fc_z c) 0) (fc_block_rows c)" and "n \<le> fc_rows c"
  shows "\<exists>messages' post'. foldl (row_step c alpha) (Some (messages, post)) [0..<n] = Some (messages', post') \<and>
    known b post' (\<Union>col\<in>resolved c n. column c col) \<and> length messages' = fc_rows c \<and>
    (\<forall>i. n \<le> i \<and> i < fc_rows c \<longrightarrow> messages' ! i = replicate (length (fc_block_rows c ! i) * fc_z c) 0)"
  using assms(8)
proof (induction n)
  case 0
  have "code_ok c"
    using p by (simp add: peels_def)
  then show ?case
    using post code_okD(3) by (simp add: m)
next
  case (Suc n)
  have ok: "code_ok c"
    using p by (simp add: peels_def)
  from Suc obtain messages' post' where
    IH: "foldl (row_step c alpha) (Some (messages, post)) [0..<n] = Some (messages', post')"
    "known b post' (\<Union>col\<in>resolved c n. column c col)" "length messages' = fc_rows c"
    "\<forall>i. n \<le> i \<and> i < fc_rows c \<longrightarrow> messages' ! i = replicate (length (fc_block_rows c ! i) * fc_z c) 0"
    by auto
  have n: "n < fc_rows c"
    using Suc.prems by simp
  let ?K = "\<Union>col\<in>resolved c n. column c col"
  have mn: "messages' ! n = replicate (length (fc_block_rows c ! n) * fc_z c) 0"
    using IH(4) n by simp
  have zn: "row_zero c b n"
    using zero n by blast
  from row_known [OF ok n alpha mn b zn IH(2)] obtain msg post'' where
    step: "row_step c alpha (Some (messages', post')) n = Some (messages'[n := msg], post'')"
    "known b post'' (?K \<union> (if resolves c n ?K (next_column c n) then column c (next_column c n) else {}))"
    by blast
  have "known b post'' (\<Union>col\<in>resolved c (Suc n). column c col)"
    using step(2) resolved_step [OF p n order_refl] unfolding known_def by blast
  with step(1) IH show ?case
    by (intro exI [of _ "messages'[n := msg]"] exI [of _ post'']) auto
qed

text \<open>The hard decisions of values that all agree.\<close>

lemma hard_bits_agrees:
  assumes "length post = length cw" and "set cw \<subseteq> {0, 1}" and "\<And>k. k < length cw \<Longrightarrow> agrees (post ! k) (cw ! k)"
  shows "hard_bits post = cw"
proof (rule nth_equalityI)
  fix k
  assume "k < length (hard_bits post)"
  then have k: "k < length cw"
    using assms(1) by (simp add: hard_bits_def)
  then have "cw ! k \<in> {0, 1}"
    using assms(2) nth_mem by blast
  then show "hard_bits post ! k = cw ! k"
    using assms(3) [OF k] k assms(1) by (auto simp: hard_bits_def agrees_def split: if_splits)
qed (simp add: hard_bits_def assms(1))

text \<open>A word whose unsent bits are the two first columns and parity blocks of extension rows.\<close>

lemma decode_erased:
  assumes p: "peels c" and alpha: "0 < alpha" and cw: "length cw = fc_n_full c" "set cw \<subseteq> {0, 1}"
    "syndrome_ok c cw = Inr True" and len: "length soft = fc_n_full c" and "0 < max_iter"
    and lean: "\<forall>k<fc_n_full c. leans (soft ! k) (cw ! k)"
    and sent: "\<forall>k. 2 * fc_z c \<le> k \<and> k < (fc_kb c + 4) * fc_z c \<longrightarrow> agrees (soft ! k) (cw ! k)"
  shows "fec_decode c soft max_iter alpha = Some (Inr \<lparr>fd_bits = cw, fd_converged = True, fd_iterations = 1\<rparr>)"
proof -
  have ok: "code_ok c"
    using p by (simp add: peels_def)
  have rows: "4 \<le> fc_rows c" and n: "fc_n_full c = (fc_kb c + fc_rows c) * fc_z c" and z: "0 < fc_z c"
    using code_okD [OF ok] by simp_all
  have zero: "\<forall>row<fc_rows c. row_zero c cw row"
    using cw(3) syndrome_iff [OF ok cw(1)] by simp
  have k0: "known cw soft (\<Union>col\<in>resolved c 0. column c col)"
    unfolding known_def
  proof (intro conjI allI impI)
    fix k
    assume "k < length cw" and "k \<in> (\<Union>col\<in>resolved c 0. column c col)"
    then obtain col where col: "2 \<le> col" "col < fc_kb c + 4" "col * fc_z c \<le> k" "k < (col + 1) * fc_z c"
      by (auto simp: resolved_def column_def)
    have "2 * fc_z c \<le> col * fc_z c"
      using col(1) by simp
    moreover have "(col + 1) * fc_z c \<le> (fc_kb c + 4) * fc_z c"
      using col(2) by (intro mult_right_mono) auto
    ultimately show "agrees (soft ! k) (cw ! k)"
      using sent le_trans [OF _ col(3)] less_le_trans [OF col(4)] by blast
  qed (use lean cw(1) len in auto)
  from pass_known [OF p alpha cw(1,2) zero k0 refl order_refl] obtain messages post where
    pass: "foldl (row_step c alpha) (Some (map (\<lambda>row. replicate (length row * fc_z c) 0) (fc_block_rows c), soft)) [0..<fc_rows c] =
      Some (messages, post)" "known cw post (\<Union>col\<in>resolved c (fc_rows c). column c col)"
    by blast
  have "agrees (post ! k) (cw ! k)" if k: "k < length cw" for k
  proof -
    have "k \<in> column c (k div fc_z c)"
      using z by (simp add: column_def) (metis add.commute mod_less_divisor mult.commute mod_mult_div_eq add_less_cancel_left)
    moreover have "k div fc_z c < fc_kb c + fc_rows c"
      using k cw(1) n by (simp add: less_mult_imp_div_less)
    then have "k div fc_z c \<in> resolved c (fc_rows c)"
      using rows by (auto simp: resolved_def)
    ultimately show ?thesis
      using pass(2) k unfolding known_def by blast
  qed
  then have hard: "hard_bits post = cw"
    using pass(2) cw(2) by (intro hard_bits_agrees) (simp_all add: known_def)
  obtain m where m: "max_iter = Suc m"
    using assms(7) by (cases max_iter) auto
  show ?thesis
    using len pass(1) cw(3) code_okD(3) [OF ok] hard by (simp add: fec_decode_def m)
qed

section \<open>The graphs whose codes peel\<close>

definition graph_peels :: "base_graph \<Rightarrow> bool" where
  "graph_peels g \<longleftrightarrow>
     map fst (filter (\<lambda>e. fst e < 2) (graph_row (snd (snd g)) 1)) = [0] \<and>
     map fst (filter (\<lambda>e. fst e = 1) (graph_row (snd (snd g)) 2)) = [1]"

lemma code_new_rows:
  assumes new: "code_new bg1 bg2 bg z = Some (Inr c)"
    and g: "g = (if bg = 1 then bg1 else bg2)" "graph_ok k g" and j: "j < fst g"
  shows "\<exists>i. fc_block_rows c ! j = map (lift_entry i z) (graph_row (snd (snd g)) j)"
proof -
  obtain i where idx: "lifting_set_index z = Some i"
    using new by (auto simp: code_new_def split: option.splits if_splits prod.splits)
  have es: "list_all (\<lambda>e. fst e < length (replicate (fst g) ([] :: (nat \<times> nat) list)) \<and> length (snd (snd e)) = 8) (snd (snd g))"
    using g(2) by (auto simp: graph_ok_def)
  obtain br where br: "foldl (file_entry i z) (Some (replicate (fst g) [])) (snd (snd g)) = Some br"
    "\<forall>j<fst g. br ! j = map (lift_entry i z) (graph_row (snd (snd g)) j)"
    using file_entries [OF lifting_set_index_less [OF idx] es, of z] by auto
  have "fc_block_rows c = br"
    using new idx br(1) g(1) by (auto simp: code_new_def Let_def split: option.splits if_splits prod.splits)
  with br(2) j show ?thesis
    by blast
qed

lemma lifted_single:
  assumes "map fst (filter (\<lambda>e. P (fst e)) row) = [a]"
  shows "\<exists>s. filter (\<lambda>e. P (fst e)) (map (lift_entry i z) row) = [(a, s)]"
proof -
  have "map fst (filter (\<lambda>e. P (fst e)) (map (lift_entry i z) row)) = [a]"
    using assms by (simp add: filter_lift o_def)
  then show ?thesis
    by (cases "filter (\<lambda>e. P (fst e)) (map (lift_entry i z) row)") auto
qed

locale peeling_graphs = base_graphs +
  assumes peel1: "graph_peels bg1" and peel2: "graph_peels bg2"
begin

lemma code_peels:
  assumes new: "code_new bg1 bg2 bg z = Some (Inr c)"
  shows "peels c"
proof -
  define g where "g = (if bg = 1 then bg1 else bg2)"
  have ok: "code_ok c"
    using code_new_cases [of bg z] new by simp
  obtain k where gk: "graph_ok k g"
    using bg1 bg2 by (cases "bg = 1") (auto simp: g_def)
  then have four: "1 < fst g" "2 < fst g"
    by (auto simp: graph_ok_def)
  have p: "graph_peels g"
    using peel1 peel2 by (simp add: g_def)
  obtain i i' where "fc_block_rows c ! 1 = map (lift_entry i z) (graph_row (snd (snd g)) 1)"
    "fc_block_rows c ! 2 = map (lift_entry i' z) (graph_row (snd (snd g)) 2)"
    using code_new_rows [OF new g_def gk four(1)] code_new_rows [OF new g_def gk four(2)] by blast
  then show ?thesis
    using ok p lifted_single [of "\<lambda>col. col < 2"] lifted_single [of "\<lambda>col. col = 1"]
    by (simp add: peels_def graph_peels_def)
qed

end

end
