(* ===== verification/Rate_Match.thy ===== *)
theory Rate_Match
  imports Ldpc_Encode
begin

text \<open>
  Rate matching, \<open>core/aether-fec/src/rate_match.rs\<close>: which bits of the circular buffer each
  redundancy version sends, and the soft inverse that adds received values back where they came
  from.  Adding into an earlier transmission's buffer is the link's hybrid ARQ.
\<close>

definition K0_NUMERATORS :: "nat list list" where
  "K0_NUMERATORS = [[0, 17, 33, 56], [0, 13, 25, 43]]"

record rate_matcher =
  rm_info_len :: nat
  rm_e :: nat
  rm_rv :: u8
  rm_n_cb :: nat
  rm_n_full :: nat
  rm_k :: nat
  rm_two_z :: nat
  rm_positions :: "nat list"

text \<open>\<open>slice::partition_point\<close>, on a slice the predicate partitions.\<close>

definition partition_point :: "('a \<Rightarrow> bool) \<Rightarrow> 'a list \<Rightarrow> nat" where
  "partition_point P xs = length (takeWhile P xs)"

text \<open>The loop that repeats the order until \<open>e\<close> positions are chosen; over an empty order it does not end.\<close>

partial_function (option) fill_positions :: "nat list \<Rightarrow> nat \<Rightarrow> nat list \<Rightarrow> nat list option" where
  "fill_positions order e positions =
     (if length positions < e
      then fill_positions order e (positions @ take (e - length positions) order)
      else Some positions)"

definition usable :: "fec_code \<Rightarrow> nat \<Rightarrow> nat list" where
  "usable c info_len =
     (let filler_start = info_len - 2 * fc_z c; filler_end = fc_k c - 2 * fc_z c
      in filter (\<lambda>index. index < filler_start \<or> filler_end \<le> index) [0..<fc_n_cb c])"

definition k0 :: "fec_code \<Rightarrow> u8 \<Rightarrow> nat" where
  "k0 c rv = K0_NUMERATORS ! (if fc_bg c = 2 then 1 else 0) ! unat rv * fc_z c"

definition selection_order :: "fec_code \<Rightarrow> nat \<Rightarrow> u8 \<Rightarrow> nat list" where
  "selection_order c info_len rv =
     (let us = usable c info_len; start = partition_point (\<lambda>index. index < k0 c rv) us
      in drop start us @ take start us)"

definition matcher_new :: "fec_code \<Rightarrow> nat \<Rightarrow> nat \<Rightarrow> u8 \<Rightarrow> (fec_error + rate_matcher) option" where
  "matcher_new c info_len e rv =
     (if rv > 3 then Some (Inl (BadRedundancyVersion rv))
      else if info_len < 2 * fc_z c \<or> fc_k c < info_len then Some (Inl (BadLength (fc_k c) info_len))
      else case fill_positions (selection_order c info_len rv) e [] of
             None \<Rightarrow> None
           | Some positions \<Rightarrow> Some (Inr \<lparr>rm_info_len = info_len, rm_e = e, rm_rv = rv, rm_n_cb = fc_n_cb c,
               rm_n_full = fc_n_full c, rm_k = fc_k c, rm_two_z = 2 * fc_z c, rm_positions = positions\<rparr>))"

definition match_bits :: "rate_matcher \<Rightarrow> bytes \<Rightarrow> fec_error + bytes" where
  "match_bits m codeword =
     (if length codeword \<noteq> rm_n_full m then Inl (BadLength (rm_n_full m) (length codeword))
      else let d = drop (rm_two_z m) codeword in Inr (map (\<lambda>index. d ! index) (rm_positions m)))"

definition fresh_buffer :: "rate_matcher \<Rightarrow> f64 list" where
  "fresh_buffer m =
     replicate (rm_info_len m) 0 @ replicate (rm_k m - rm_info_len m) FILLER_LLR @ replicate (rm_n_full m - rm_k m) 0"

definition accumulate :: "nat list \<Rightarrow> f64 list \<Rightarrow> f64 list \<Rightarrow> f64 list" where
  "accumulate positions llr acc =
     foldl (\<lambda>acc (index, value). acc[index := acc ! index + value]) acc (zip positions llr)"

definition recover :: "rate_matcher \<Rightarrow> f64 list \<Rightarrow> f64 list option \<Rightarrow> fec_error + f64 list" where
  "recover m llr_e buffer =
     (if length llr_e \<noteq> rm_e m then Inl (BadLength (rm_e m) (length llr_e))
      else
        and_then
          (case buffer of
             Some previous \<Rightarrow>
               if length previous \<noteq> rm_n_full m then Inl (BadLength (rm_n_full m) (length previous)) else Inr previous
           | None \<Rightarrow> Inr (fresh_buffer m))
          (\<lambda>full.
             let accumulator = accumulate (rm_positions m) llr_e (replicate (rm_n_cb m) 0)
             in Inr (take (rm_two_z m) full @ map2 (+) (drop (rm_two_z m) full) accumulator)))"

section \<open>The positions\<close>

lemma fill_positions_eq:
  assumes "order \<noteq> []" and "positions = map (\<lambda>i. order ! (i mod length order)) [0..<n]"
    and "n \<le> e" and "n = e \<or> length order dvd n"
  shows "fill_positions order e positions = Some (map (\<lambda>i. order ! (i mod length order)) [0..<e])"
  using assms(2-4)
proof (induction "e - n" arbitrary: n positions rule: less_induct)
  case less
  have len: "length positions = n"
    using less.prems(1) by simp
  show ?case
  proof (cases "n < e")
    case False
    with less.prems show ?thesis
      by (subst fill_positions.simps) simp
  next
    case True
    let ?k = "min (e - n) (length order)"
    have dvd: "length order dvd n"
      using less.prems(3) True by simp
    have k: "0 < ?k"
      using True assms(1) by simp
    have "take (e - n) order = map (\<lambda>i. order ! (i mod length order)) [n..<n + ?k]"
    proof (rule nth_equalityI)
      fix i
      assume "i < length (take (e - n) order)"
      moreover from this have "(n + i) mod length order = i"
        using dvd by (simp add: mod_add_eq [of n "length order" i, symmetric])
      ultimately show "take (e - n) order ! i = map (\<lambda>i. order ! (i mod length order)) [n..<n + ?k] ! i"
        by simp
    qed simp
    moreover have "[0..<n + ?k] = [0..<n] @ [n..<n + ?k]"
      by (rule upt_add_eq_append) simp
    ultimately have "positions @ take (e - n) order = map (\<lambda>i. order ! (i mod length order)) [0..<n + ?k]"
      by (simp add: less.prems(1))
    moreover have "n + ?k = e \<or> length order dvd n + ?k"
      using dvd True by (auto simp: min_def)
    ultimately have "fill_positions order e (positions @ take (e - n) order) =
        Some (map (\<lambda>i. order ! (i mod length order)) [0..<e])"
    proof (intro less.hyps [of "n + ?k"])
      show "e - (n + ?k) < e - n"
        using k True by linarith
      show "n + ?k \<le> e"
        using True by linarith
    qed auto
    then show ?thesis
      using True by (subst fill_positions.simps) (simp add: len)
  qed
qed

lemma fill_positions_all:
  "order \<noteq> [] \<Longrightarrow> fill_positions order e [] = Some (map (\<lambda>i. order ! (i mod length order)) [0..<e])"
  by (rule fill_positions_eq [of _ _ 0]) auto

lemma set_selection_order: "set (selection_order c info_len rv) = set (usable c info_len)"
  by (simp add: selection_order_def Let_def) (metis append_take_drop_id set_append sup_commute)

lemma distinct_selection_order: "distinct (selection_order c info_len rv)"
proof -
  have "distinct (usable c info_len)"
    by (simp add: usable_def)
  then have "distinct (take n (usable c info_len) @ drop n (usable c info_len))" for n
    by simp
  then show ?thesis
    unfolding selection_order_def Let_def distinct_append by blast
qed

lemma usable_nonempty:
  assumes "code_ok c"
  shows "usable c info_len \<noteq> []"
proof -
  note d = code_okD [OF assms]
  have "fc_k c - 2 * fc_z c = (fc_kb c - 2) * fc_z c"
    by (simp add: d(4) diff_mult_distrib)
  also have "\<dots> < fc_n_cb c"
    unfolding d(7) using d(1,2,8) by (intro mult_strict_right_mono) auto
  finally have "fc_k c - 2 * fc_z c \<in> set (usable c info_len)"
    by (simp add: usable_def)
  then show ?thesis
    by auto
qed

text \<open>What a matcher that was built holds.\<close>

definition matcher_ok :: "rate_matcher \<Rightarrow> bool" where
  "matcher_ok m \<longleftrightarrow>
     length (rm_positions m) = rm_e m \<and> rm_n_full m = rm_n_cb m + rm_two_z m \<and>
     rm_info_len m \<le> rm_k m \<and> rm_two_z m \<le> rm_info_len m \<and> rm_k m \<le> rm_n_full m \<and>
     (\<forall>p\<in>set (rm_positions m). p < rm_n_cb m \<and>
        (rm_two_z m + p < rm_info_len m \<or> rm_k m \<le> rm_two_z m + p))"

lemma matcher_new_eq:
  assumes "code_ok c" and "\<not> rv > 3" and "2 * fc_z c \<le> info_len" and "info_len \<le> fc_k c"
  shows "matcher_new c info_len e rv = Some (Inr \<lparr>rm_info_len = info_len, rm_e = e, rm_rv = rv, rm_n_cb = fc_n_cb c,
    rm_n_full = fc_n_full c, rm_k = fc_k c, rm_two_z = 2 * fc_z c,
    rm_positions = map (\<lambda>i. selection_order c info_len rv ! (i mod length (selection_order c info_len rv))) [0..<e]\<rparr>)"
proof -
  have "selection_order c info_len rv \<noteq> []"
    using usable_nonempty [OF assms(1)] set_selection_order by (metis set_empty)
  with assms show ?thesis
    by (simp add: matcher_new_def fill_positions_all)
qed

lemma matcher_new_ok:
  assumes ok: "code_ok c" and m: "matcher_new c info_len e rv = Some (Inr m)"
  shows "matcher_ok m" "rm_n_full m = fc_n_full c" "rm_e m = e" "rm_info_len m = info_len" "rm_k m = fc_k c"
    "rm_two_z m = 2 * fc_z c"
proof -
  note d = code_okD [OF ok]
  let ?o = "selection_order c info_len rv"
  from m have v: "\<not> rv > 3" "2 * fc_z c \<le> info_len" "info_len \<le> fc_k c"
    by (auto simp: matcher_new_def split: if_splits option.splits)
  note eq = matcher_new_eq [OF ok v, of e, unfolded m]
  have "?o ! (i mod length ?o) \<in> set (usable c info_len)" for i
    using usable_nonempty [OF ok, of info_len] set_selection_order [of c info_len rv] by (metis length_greater_0_conv mod_less_divisor nth_mem set_empty)
  then have "?o ! (i mod length ?o) < fc_n_cb c \<and> (2 * fc_z c + ?o ! (i mod length ?o) < info_len \<or> fc_k c \<le> 2 * fc_z c + ?o ! (i mod length ?o))" for i
  proof -
    define p where "p = ?o ! (i mod length ?o)"
    have "p \<in> set (usable c info_len)"
      using \<open>\<And>i. ?o ! (i mod length ?o) \<in> set (usable c info_len)\<close> by (simp add: p_def)
    then show ?thesis
      using v unfolding p_def [symmetric] by (auto simp: usable_def)
  qed
  moreover have "fc_n_full c = fc_n_cb c + 2 * fc_z c"
  proof -
    have "fc_kb c + fc_rows c = (fc_kb c + fc_rows c - 2) + 2"
      using d(2) by simp
    then have "fc_n_full c = ((fc_kb c + fc_rows c - 2) + 2) * fc_z c"
      by (simp only: d(5))
    then show ?thesis
      by (simp only: add_mult_distrib d(7))
  qed
  moreover have "fc_k c \<le> fc_n_full c"
    using d by simp
  ultimately show "matcher_ok m"
    using eq v by (auto simp: matcher_ok_def)
  show "rm_n_full m = fc_n_full c" "rm_e m = e" "rm_info_len m = info_len" "rm_k m = fc_k c" "rm_two_z m = 2 * fc_z c"
    using eq by auto
qed

section \<open>Selecting and recovering\<close>

text \<open>What position \<open>p\<close> of the circular buffer collects.\<close>

definition collected :: "nat list \<Rightarrow> f64 list \<Rightarrow> nat \<Rightarrow> f64" where
  "collected positions llr p = sum_list (map snd (filter (\<lambda>e. fst e = p) (zip positions llr)))"

lemma accumulate_nth:
  assumes "\<forall>p\<in>set positions. p < length acc"
  shows "length (accumulate positions llr acc) = length acc \<and>
    (\<forall>p<length acc. accumulate positions llr acc ! p = acc ! p + collected positions llr p)"
  using assms
proof (induction positions arbitrary: llr acc)
  case (Cons i positions)
  show ?case
  proof (cases llr)
    case (Cons v vs)
    have "\<forall>p\<in>set positions. p < length (acc[i := acc ! i + v])"
      using Cons.prems by simp
    from Cons.IH [OF this, of vs] Cons.prems show ?thesis
      by (auto simp: accumulate_def collected_def Cons nth_list_update)
  qed (simp add: accumulate_def collected_def)
qed (simp add: accumulate_def collected_def)

lemma recover_nth:
  assumes "matcher_ok m" and "length llr = rm_e m" and "length base = rm_n_full m"
    and "buffer = Some base \<or> buffer = None \<and> base = fresh_buffer m"
  shows "\<exists>full. recover m llr buffer = Inr full \<and> length full = rm_n_full m \<and>
    (\<forall>i<rm_two_z m. full ! i = base ! i) \<and>
    (\<forall>p<rm_n_cb m. full ! (rm_two_z m + p) = base ! (rm_two_z m + p) + collected (rm_positions m) llr p)"
proof -
  let ?acc = "accumulate (rm_positions m) llr (replicate (rm_n_cb m) 0)"
  have a: "length ?acc = rm_n_cb m" "\<forall>p<rm_n_cb m. ?acc ! p = collected (rm_positions m) llr p"
    using accumulate_nth [of "rm_positions m" "replicate (rm_n_cb m) 0" llr] assms(1) by (auto simp: matcher_ok_def)
  have n: "rm_n_full m = rm_n_cb m + rm_two_z m"
    using assms(1) by (simp add: matcher_ok_def)
  have "recover m llr buffer = Inr (take (rm_two_z m) base @ map2 (+) (drop (rm_two_z m) base) ?acc)"
    using assms(2-4) by (auto simp: recover_def Let_def)
  then show ?thesis
    using a n assms(3)
    by (intro exI [of _ "take (rm_two_z m) base @ map2 (+) (drop (rm_two_z m) base) ?acc"]) (auto simp: nth_append)
qed

lemma fresh_buffer_nth:
  assumes "matcher_ok m"
  shows "length (fresh_buffer m) = rm_n_full m"
    and "i < rm_n_full m \<Longrightarrow> fresh_buffer m ! i = (if rm_info_len m \<le> i \<and> i < rm_k m then FILLER_LLR else 0)"
  using assms by (auto simp: fresh_buffer_def matcher_ok_def nth_append)

lemma collected_leans:
  assumes "list_all2 (\<lambda>p v. agrees v (d ! p)) positions llr"
  shows "leans (collected positions llr p) (d ! p) \<and>
    (p \<in> set positions \<longrightarrow> agrees (collected positions llr p) (d ! p))"
  using assms
proof (induction positions llr rule: list_all2_induct)
  case (Cons i positions v llr)
  then show ?case
    using agrees_add agrees_leans leans_add by (auto simp: collected_def)
qed (simp add: collected_def leans_def)

text \<open>
  What was sent and received without a wrong sign comes back with the right sign at every place
  that was sent, whatever else (not against it) the buffer already held.
\<close>

lemma recover_agrees:
  assumes ok: "matcher_ok m" and cw: "match_bits m cw = Inr sent"
    and llr: "list_all2 agrees llr sent"
    and base: "length base = rm_n_full m" "buffer = Some base \<or> buffer = None \<and> base = fresh_buffer m"
    and lean: "\<forall>i<rm_n_full m. leans (base ! i) (cw ! i)"
  shows "\<exists>full. recover m llr buffer = Inr full \<and> length full = rm_n_full m \<and>
    (\<forall>i<rm_n_full m. leans (full ! i) (cw ! i)) \<and>
    (\<forall>i<rm_n_full m. agrees (base ! i) (cw ! i) \<longrightarrow> agrees (full ! i) (cw ! i)) \<and>
    (\<forall>p\<in>set (rm_positions m). agrees (full ! (rm_two_z m + p)) (cw ! (rm_two_z m + p)))"
proof -
  from cw have len: "length cw = rm_n_full m" and sent: "sent = map (\<lambda>p. drop (rm_two_z m) cw ! p) (rm_positions m)"
    by (auto simp: match_bits_def Let_def split: if_splits)
  have n: "rm_n_full m = rm_n_cb m + rm_two_z m" and e: "length (rm_positions m) = rm_e m"
    and pos: "\<forall>p\<in>set (rm_positions m). p < rm_n_cb m"
    using ok by (auto simp: matcher_ok_def)
  have "length llr = rm_e m"
    using llr sent e by (simp add: list_all2_lengthD)
  from recover_nth [OF ok this base] obtain full where full: "recover m llr buffer = Inr full" "length full = rm_n_full m"
    "\<forall>i<rm_two_z m. full ! i = base ! i"
    "\<forall>p<rm_n_cb m. full ! (rm_two_z m + p) = base ! (rm_two_z m + p) + collected (rm_positions m) llr p"
    by blast
  have "list_all2 (\<lambda>p v. agrees v (drop (rm_two_z m) cw ! p)) (rm_positions m) llr"
    using llr unfolding sent by (auto simp: list_all2_conv_all_nth)
  note c = collected_leans [OF this]
  have d: "drop (rm_two_z m) cw ! p = cw ! (rm_two_z m + p)" for p
    using len n by simp
  have "leans (full ! i) (cw ! i) \<and> (agrees (base ! i) (cw ! i) \<longrightarrow> agrees (full ! i) (cw ! i))"
    if "i < rm_n_full m" for i
  proof (cases "i < rm_two_z m")
    case True
    with full(3) lean that show ?thesis
      by simp
  next
    case False
    then obtain p where p: "i = rm_two_z m + p"
      by (metis le_Suc_ex not_le)
    with that n have "p < rm_n_cb m"
      by simp
    with full(4) lean that c [of p] show ?thesis
      unfolding p d by (metis leans_add agrees_add(1))
  qed
  moreover have "agrees (full ! (rm_two_z m + p)) (cw ! (rm_two_z m + p))" if "p \<in> set (rm_positions m)" for p
    using full(4) pos lean c [of p] that n unfolding d by (simp add: agrees_add)
  ultimately show ?thesis
    using full(1,2) by blast
qed

text \<open>Combining two transmissions: the order does not matter.\<close>

lemma recover_commute:
  assumes "matcher_ok m1" "matcher_ok m2" and "rm_n_full m1 = rm_n_full m2" "rm_two_z m1 = rm_two_z m2"
    and "length l1 = rm_e m1" "length l2 = rm_e m2" "length base = rm_n_full m1"
  shows "and_then (recover m1 l1 (Some base)) (\<lambda>b. recover m2 l2 (Some b)) =
    and_then (recover m2 l2 (Some base)) (\<lambda>b. recover m1 l1 (Some b))"
proof -
  have n: "rm_n_cb m1 = rm_n_cb m2" "rm_n_full m1 = rm_n_cb m1 + rm_two_z m1"
    using assms(1-4) by (auto simp: matcher_ok_def)
  obtain a where a: "recover m1 l1 (Some base) = Inr a" "length a = rm_n_full m1"
    "\<forall>i<rm_two_z m1. a ! i = base ! i"
    "\<forall>p<rm_n_cb m1. a ! (rm_two_z m1 + p) = base ! (rm_two_z m1 + p) + collected (rm_positions m1) l1 p"
    using recover_nth [OF assms(1,5,7), of "Some base"] by auto
  obtain b where b: "recover m2 l2 (Some base) = Inr b" "length b = rm_n_full m1"
    "\<forall>i<rm_two_z m1. b ! i = base ! i"
    "\<forall>p<rm_n_cb m1. b ! (rm_two_z m1 + p) = base ! (rm_two_z m1 + p) + collected (rm_positions m2) l2 p"
    using recover_nth [OF assms(2,6), of base "Some base"] assms(3,4,7) n by auto
  obtain ab where ab: "recover m2 l2 (Some a) = Inr ab" "length ab = rm_n_full m1"
    "\<forall>i<rm_two_z m1. ab ! i = a ! i"
    "\<forall>p<rm_n_cb m1. ab ! (rm_two_z m1 + p) = a ! (rm_two_z m1 + p) + collected (rm_positions m2) l2 p"
    using recover_nth [OF assms(2,6), of a "Some a"] assms(3,4) a(2) n by auto
  obtain ba where ba: "recover m1 l1 (Some b) = Inr ba" "length ba = rm_n_full m1"
    "\<forall>i<rm_two_z m1. ba ! i = b ! i"
    "\<forall>p<rm_n_cb m1. ba ! (rm_two_z m1 + p) = b ! (rm_two_z m1 + p) + collected (rm_positions m1) l1 p"
    using recover_nth [OF assms(1,5) b(2), of "Some b"] by auto
  have "ab = ba"
  proof (rule nth_equalityI)
    fix i
    assume "i < length ab"
    then have i: "i < rm_two_z m1 + rm_n_cb m1"
      using ab(2) n by simp
    show "ab ! i = ba ! i"
    proof (cases "i < rm_two_z m1")
      case False
      then obtain p where "i = rm_two_z m1 + p"
        by (metis le_Suc_ex not_le)
      with i ab(4) ba(4) a(4) b(4) show ?thesis
        by simp
    qed (use ab(3) ba(3) a(3) b(3) in simp)
  qed (use ab(2) ba(2) in simp)
  then show ?thesis
    by (simp add: a(1) b(1) ab(1) ba(1))
qed

end
