(* ===== verification/Waveform.thy ===== *)
theory Waveform
  imports Prelude
begin

text \<open>
  The OFDM numerology: \<open>core/aether-phy/src/waveform.rs\<close>.  The modulations, the bandwidths and what
  derives from the parameters of a waveform.
\<close>

section \<open>Modulations and bandwidths\<close>

datatype modulation = Bpsk | Qpsk | Psk8 | Qam16 | Qam64

fun bits_per_symbol :: "modulation \<Rightarrow> nat" where
  "bits_per_symbol Bpsk = 1"
| "bits_per_symbol Qpsk = 2"
| "bits_per_symbol Psk8 = 3"
| "bits_per_symbol Qam16 = 4"
| "bits_per_symbol Qam64 = 6"

definition modulation_order :: "modulation \<Rightarrow> nat" where
  "modulation_order m = push_bit (bits_per_symbol m) 1"

fun modulation_name :: "modulation \<Rightarrow> string" where
  "modulation_name Bpsk = ''BPSK''"
| "modulation_name Qpsk = ''QPSK''"
| "modulation_name Psk8 = ''PSK8''"
| "modulation_name Qam16 = ''QAM16''"
| "modulation_name Qam64 = ''QAM64''"

datatype bandwidth = Narrow500 | Wide2300 | Wide2750

fun bandwidth_hz :: "bandwidth \<Rightarrow> nat" where
  "bandwidth_hz Narrow500 = 500"
| "bandwidth_hz Wide2300 = 2300"
| "bandwidth_hz Wide2750 = 2750"

section \<open>The parameters of a waveform\<close>

record waveform_params =
  wp_bandwidth :: bandwidth
  wp_fs_baseband :: f64
  wp_fft_size :: nat
  wp_cp_samples :: nat
  wp_centre_hz :: f64
  wp_pilot_carrier_spacing :: nat
  wp_pilot_symbol_period :: nat
  wp_taper_samples :: nat
  wp_audio_rate :: nat

definition WIDE_2300 :: waveform_params where
  "WIDE_2300 = \<lparr>wp_bandwidth = Wide2300, wp_fs_baseband = 8000, wp_fft_size = 200, wp_cp_samples = 48,
     wp_centre_hz = 1500, wp_pilot_carrier_spacing = 4, wp_pilot_symbol_period = 8, wp_taper_samples = 8,
     wp_audio_rate = 48000\<rparr>"

definition NARROW_500 :: waveform_params where
  "NARROW_500 = WIDE_2300\<lparr>wp_bandwidth := Narrow500\<rparr>"

definition subcarrier_spacing_hz :: "waveform_params \<Rightarrow> f64" where
  "subcarrier_spacing_hz p = wp_fs_baseband p / real (wp_fft_size p)"

definition useful_symbol_s :: "waveform_params \<Rightarrow> f64" where
  "useful_symbol_s p = real (wp_fft_size p) / wp_fs_baseband p"

definition cp_s :: "waveform_params \<Rightarrow> f64" where
  "cp_s p = real (wp_cp_samples p) / wp_fs_baseband p"

definition symbol_samples :: "waveform_params \<Rightarrow> nat" where
  "symbol_samples p = wp_fft_size p + wp_cp_samples p"

definition symbol_period_s :: "waveform_params \<Rightarrow> f64" where
  "symbol_period_s p = real (symbol_samples p) / wp_fs_baseband p"

definition symbol_rate_bd :: "waveform_params \<Rightarrow> f64" where
  "symbol_rate_bd p = 1 / symbol_period_s p"

definition effective_cp_s :: "waveform_params \<Rightarrow> f64" where
  "effective_cp_s p = real (wp_cp_samples p - wp_taper_samples p) / wp_fs_baseband p"

definition n_carriers :: "waveform_params \<Rightarrow> nat" where
  "n_carriers p = nat \<lfloor>real (bandwidth_hz (wp_bandwidth p)) / subcarrier_spacing_hz p\<rfloor>"

definition occupied_bandwidth_hz :: "waveform_params \<Rightarrow> f64" where
  "occupied_bandwidth_hz p = real (n_carriers p) * subcarrier_spacing_hz p"

definition n_pilot_carriers :: "waveform_params \<Rightarrow> nat" where
  "n_pilot_carriers p =
     (let top = n_carriers p - 1; on_grid = top div wp_pilot_carrier_spacing p + 1
      in on_grid + (if top mod wp_pilot_carrier_spacing p \<noteq> 0 then 1 else 0))"

definition n_data_carriers :: "waveform_params \<Rightarrow> nat" where
  "n_data_carriers p = n_carriers p - n_pilot_carriers p"

definition pilot_symbol_fraction :: "waveform_params \<Rightarrow> f64" where
  "pilot_symbol_fraction p =
     (if wp_pilot_symbol_period p = 0 then 0 else 1 / real (wp_pilot_symbol_period p))"

text \<open>The \<open>assert!\<close> is \<open>None\<close>.\<close>

definition resample_factor :: "waveform_params \<Rightarrow> nat option" where
  "resample_factor p =
     (let ratio = real (wp_audio_rate p) / wp_fs_baseband p
      in if \<bar>ratio - of_int (round_away ratio)\<bar> < 1 / 10 ^ 9 then Some (nat (round_away ratio)) else None)"

section \<open>The two waveforms\<close>

lemma wide_carriers [simp]:
  "n_carriers WIDE_2300 = 57" "n_pilot_carriers WIDE_2300 = 15" "n_data_carriers WIDE_2300 = 42"
proof -
  show c: "n_carriers WIDE_2300 = 57"
    by (simp add: n_carriers_def subcarrier_spacing_hz_def WIDE_2300_def)
  show p: "n_pilot_carriers WIDE_2300 = 15"
    by (simp add: n_pilot_carriers_def c Let_def) (simp add: WIDE_2300_def)
  show "n_data_carriers WIDE_2300 = 42"
    by (simp add: n_data_carriers_def c p)
qed

lemma narrow_carriers [simp]:
  "n_carriers NARROW_500 = 12" "n_pilot_carriers NARROW_500 = 4" "n_data_carriers NARROW_500 = 8"
proof -
  show c: "n_carriers NARROW_500 = 12"
    by (simp add: n_carriers_def subcarrier_spacing_hz_def NARROW_500_def WIDE_2300_def)
  show p: "n_pilot_carriers NARROW_500 = 4"
    by (simp add: n_pilot_carriers_def c Let_def) (simp add: NARROW_500_def WIDE_2300_def)
  show "n_data_carriers NARROW_500 = 8"
    by (simp add: n_data_carriers_def c p)
qed

lemma wide_numerology:
  "symbol_samples WIDE_2300 = 248" "symbol_period_s WIDE_2300 = 0.031"
  "subcarrier_spacing_hz WIDE_2300 = 40" "effective_cp_s WIDE_2300 = 0.005"
  "resample_factor WIDE_2300 = Some 6"
  by (simp_all add: symbol_samples_def symbol_period_s_def subcarrier_spacing_hz_def effective_cp_s_def
      resample_factor_def round_away_def WIDE_2300_def Let_def)

text \<open>The carriers stay inside the nominal bandwidth.\<close>

lemma occupied_inside:
  assumes "0 < wp_fs_baseband p" and "0 < wp_fft_size p"
  shows "occupied_bandwidth_hz p \<le> real (bandwidth_hz (wp_bandwidth p))"
proof -
  have s: "0 < subcarrier_spacing_hz p"
    using assms by (simp add: subcarrier_spacing_hz_def)
  let ?q = "real (bandwidth_hz (wp_bandwidth p)) / subcarrier_spacing_hz p"
  have "0 \<le> ?q"
    using s by simp
  then have "real (n_carriers p) \<le> ?q"
    by (simp add: n_carriers_def)
  then show ?thesis
    using s by (simp add: occupied_bandwidth_hz_def pos_le_divide_eq)
qed

end
