(* ===== verification/Modes.thy ===== *)
theory Modes
  imports Waveform Ldpc
begin

text \<open>
  Frame layouts, mode tables, the ladder and the two air interfaces:
  \<open>core/aether-phy/src/modes.rs\<close>, with the part of \<open>tone.rs\<close> the ladder uses.  The tone-floor
  tables are generated by \<open>build.rs\<close> and are a parameter (\<open>tone_tables\<close>).  A \<open>usize\<close> subtraction that
  would go below zero is \<open>None\<close>, and so is a \<open>panic!\<close>.
\<close>

section \<open>Layouts\<close>

definition PREAMBLE_SYMBOLS :: nat where [simp]: "PREAMBLE_SYMBOLS = 2"

record frame_layout =
  fl_name :: string
  fl_data_symbols :: nat
  fl_waveform :: waveform_params
  fl_preamble_symbols :: nat
  fl_pilot_smoothing :: nat

definition LONG :: frame_layout where
  "LONG = \<lparr>fl_name = ''long'', fl_data_symbols = 32, fl_waveform = WIDE_2300,
     fl_preamble_symbols = PREAMBLE_SYMBOLS, fl_pilot_smoothing = 1\<rparr>"
definition SHORT :: frame_layout where
  "SHORT = \<lparr>fl_name = ''short'', fl_data_symbols = 12, fl_waveform = WIDE_2300,
     fl_preamble_symbols = PREAMBLE_SYMBOLS, fl_pilot_smoothing = 1\<rparr>"
definition NARROW_LONG :: frame_layout where
  "NARROW_LONG = \<lparr>fl_name = ''long'', fl_data_symbols = 32, fl_waveform = NARROW_500,
     fl_preamble_symbols = PREAMBLE_SYMBOLS, fl_pilot_smoothing = 1\<rparr>"
definition NARROW_SHORT :: frame_layout where
  "NARROW_SHORT = \<lparr>fl_name = ''short'', fl_data_symbols = 12, fl_waveform = NARROW_500,
     fl_preamble_symbols = PREAMBLE_SYMBOLS, fl_pilot_smoothing = 1\<rparr>"

definition pilot_symbol_indices :: "frame_layout \<Rightarrow> nat list" where
  "pilot_symbol_indices l =
     (let period = wp_pilot_symbol_period (fl_waveform l)
      in if period = 0 then [] else filter (\<lambda>i. i mod period = 0) [0..<fl_data_symbols l])"

definition n_pilot_symbols :: "frame_layout \<Rightarrow> nat" where
  "n_pilot_symbols l = length (pilot_symbol_indices l)"

definition n_payload_symbols :: "frame_layout \<Rightarrow> nat" where
  "n_payload_symbols l = fl_data_symbols l - n_pilot_symbols l"

definition qam_symbols :: "frame_layout \<Rightarrow> nat" where
  "qam_symbols l = n_payload_symbols l * n_data_carriers (fl_waveform l)"

definition total_symbols :: "frame_layout \<Rightarrow> nat" where
  "total_symbols l = fl_preamble_symbols l + fl_data_symbols l"

definition layout_duration_s :: "frame_layout \<Rightarrow> f64" where
  "layout_duration_s l = real (total_symbols l) * symbol_period_s (fl_waveform l)"

definition layout_samples :: "frame_layout \<Rightarrow> nat" where
  "layout_samples l = total_symbols l * symbol_samples (fl_waveform l)"

section \<open>Modes\<close>

definition CRC24_WIDTH :: nat where [simp]: "CRC24_WIDTH = 24"

record mode =
  md_index :: nat
  md_modulation :: modulation
  md_rate_num :: nat
  md_rate_den :: nat

definition checked_sub :: "nat \<Rightarrow> nat \<Rightarrow> nat option" where
  "checked_sub a b = (if b \<le> a then Some (a - b) else None)"

definition mode_name :: "mode \<Rightarrow> string" where
  "mode_name m = modulation_name (md_modulation m) @ ''-'' @ decimal (md_rate_num m) @ ''/'' @ decimal (md_rate_den m)"

definition code_rate :: "mode \<Rightarrow> f64" where
  "code_rate m = real (md_rate_num m) / real (md_rate_den m)"

definition coded_bits :: "mode \<Rightarrow> frame_layout \<Rightarrow> nat" where
  "coded_bits m l = qam_symbols l * bits_per_symbol (md_modulation m)"

definition info_bits :: "mode \<Rightarrow> frame_layout \<Rightarrow> nat option" where
  "info_bits m l =
     (let raw = coded_bits m l * md_rate_num m div md_rate_den m
      in case checked_sub raw CRC24_WIDTH of
           None \<Rightarrow> None
         | Some rest \<Rightarrow> Some (rest div 8 * 8 + CRC24_WIDTH))"

definition payload_bytes :: "mode \<Rightarrow> frame_layout \<Rightarrow> nat option" where
  "payload_bytes m l = map_option (\<lambda>bits. (bits - CRC24_WIDTH) div 8) (info_bits m l)"

definition mode_base_graph :: "mode \<Rightarrow> frame_layout \<Rightarrow> u8 option" where
  "mode_base_graph m l = map_option (\<lambda>bytes. select_base_graph (bytes * 8) (code_rate m)) (payload_bytes m l)"

definition lifting_size :: "mode \<Rightarrow> frame_layout \<Rightarrow> nat option" where
  "lifting_size m l =
     (case (mode_base_graph m l, info_bits m l) of
        (Some bg, Some bits) \<Rightarrow> (case select_lifting_size bg bits of Inr z \<Rightarrow> Some z | Inl _ \<Rightarrow> None)
      | _ \<Rightarrow> None)"

definition net_bit_rate :: "mode \<Rightarrow> frame_layout \<Rightarrow> f64 option" where
  "net_bit_rate m l = map_option (\<lambda>bytes. 8 * real bytes / layout_duration_s l) (payload_bytes m l)"

definition mk_mode :: "nat \<Rightarrow> modulation \<Rightarrow> nat \<Rightarrow> nat \<Rightarrow> mode" where
  "mk_mode i modu num den = \<lparr>md_index = i, md_modulation = modu, md_rate_num = num, md_rate_den = den\<rparr>"

definition MODES :: "mode list" where
  "MODES =
     [mk_mode 0 Bpsk 1 5, mk_mode 1 Bpsk 1 3, mk_mode 2 Bpsk 1 2, mk_mode 3 Qpsk 1 3, mk_mode 4 Qpsk 1 2,
      mk_mode 5 Qpsk 2 3, mk_mode 6 Psk8 1 2, mk_mode 7 Psk8 2 3, mk_mode 8 Qam16 1 2, mk_mode 9 Qam16 2 3,
      mk_mode 10 Qam16 3 4, mk_mode 11 Qam64 2 3, mk_mode 12 Qam64 3 4, mk_mode 13 Qam64 5 6]"

definition CONTROL_MODE :: mode where "CONTROL_MODE = MODES ! 0"

definition NARROW_MODES :: "mode list" where
  "NARROW_MODES =
     [mk_mode 0 Qpsk 1 10, mk_mode 1 Qpsk 1 5, mk_mode 2 Qpsk 1 3, mk_mode 3 Qpsk 1 2, mk_mode 4 Qpsk 2 3,
      mk_mode 5 Psk8 1 2, mk_mode 6 Psk8 2 3, mk_mode 7 Qam16 1 2, mk_mode 8 Qam16 2 3, mk_mode 9 Qam16 3 4,
      mk_mode 10 Qam64 2 3, mk_mode 11 Qam64 3 4, mk_mode 12 Qam64 5 6]"

definition NARROW_CONTROL_MODE_INDEX :: nat where "NARROW_CONTROL_MODE_INDEX = 3"
definition NARROW_CONTROL_MODE :: mode where "NARROW_CONTROL_MODE = NARROW_MODES ! NARROW_CONTROL_MODE_INDEX"
definition WIDE_OFDM_LADDER :: "nat list" where "WIDE_OFDM_LADDER = [0, 1, 2, 3, 4, 5, 6, 7, 8, 9, 10, 11, 12, 13]"
definition NARROW_OFDM_LADDER :: "nat list" where "NARROW_OFDM_LADDER = [3, 4, 5, 6, 7, 8, 9, 10, 11, 12]"

section \<open>The tone floor's kinds\<close>

record tone_kind =
  tk_name :: string
  tk_payload_bytes :: nat
  tk_data_symbols :: nat
  tk_patterns :: "nat list"
  tk_control :: bool
  tk_data_symbol_samples :: nat
  tk_data_ramp_samples :: nat
  tk_data_tones :: nat

record tone_tables =
  tt_fs :: f64
  tt_symbol_samples :: nat
  tt_tones :: nat
  tt_ramp_samples :: nat
  tt_edge_samples :: nat
  tt_gain_db :: f64
  tt_hop_div :: nat
  tt_announce_lookahead :: nat
  tt_sync_patterns :: "nat list list"
  tt_control :: tone_kind
  tt_data :: "tone_kind list"
  tt_fast :: "tone_kind list"
  tt_narrow :: "tone_kind list"

definition SYNC_SYMBOLS :: nat where [simp]: "SYNC_SYMBOLS = 8"

definition symbol_s :: "tone_tables \<Rightarrow> f64" where
  "symbol_s t = real (tt_symbol_samples t) / tt_fs t"

definition speed :: "tone_tables \<Rightarrow> tone_kind \<Rightarrow> nat" where
  "speed t k = tt_symbol_samples t div tk_data_symbol_samples k"

definition data_slots :: "tone_tables \<Rightarrow> tone_kind \<Rightarrow> nat" where
  "data_slots t k = tk_data_symbols k div speed t k"

definition kind_symbols :: "tone_tables \<Rightarrow> tone_kind \<Rightarrow> nat" where
  "kind_symbols t k = data_slots t k + 3 * SYNC_SYMBOLS"

definition kind_duration_s :: "tone_tables \<Rightarrow> tone_kind \<Rightarrow> f64" where
  "kind_duration_s t k = real (kind_symbols t k) * symbol_s t"

section \<open>The ladder\<close>

datatype rung = Tone tone_kind | Ofdm mode frame_layout

fun rung_is_floor :: "rung \<Rightarrow> bool" where
  "rung_is_floor (Tone _) = True"
| "rung_is_floor (Ofdm _ _) = False"

fun rung_name :: "rung \<Rightarrow> string" where
  "rung_name (Tone k) = tk_name k"
| "rung_name (Ofdm m _) = mode_name m"

fun rung_payload_bytes :: "rung \<Rightarrow> nat option" where
  "rung_payload_bytes (Tone k) = Some (tk_payload_bytes k)"
| "rung_payload_bytes (Ofdm m l) = payload_bytes m l"

fun rung_duration_s :: "tone_tables \<Rightarrow> rung \<Rightarrow> f64" where
  "rung_duration_s t (Tone k) = kind_duration_s t k"
| "rung_duration_s t (Ofdm _ l) = layout_duration_s l"

definition rung_net_bps :: "tone_tables \<Rightarrow> rung \<Rightarrow> f64 option" where
  "rung_net_bps t r = map_option (\<lambda>bytes. 8 * real bytes / rung_duration_s t r) (rung_payload_bytes r)"

fun rung_ofdm_mode :: "rung \<Rightarrow> mode option" where
  "rung_ofdm_mode (Tone _) = None"
| "rung_ofdm_mode (Ofdm m _) = Some m"

datatype middle_tones = Fast | Quad

fun middle_kinds :: "tone_tables \<Rightarrow> middle_tones \<Rightarrow> tone_kind list" where
  "middle_kinds t Fast = tt_fast t"
| "middle_kinds t Quad = tt_narrow t"

record air_interface =
  ai_params :: waveform_params
  ai_long :: frame_layout
  ai_short :: frame_layout
  ai_modes :: "mode list"
  ai_chip_correlation_bound :: f64
  ai_acquisition_threshold :: f64
  ai_ofdm_ladder :: "nat list"
  ai_control_mode_index :: nat
  ai_middle_tones :: middle_tones

definition control_mode :: "air_interface \<Rightarrow> mode" where
  "control_mode a = ai_modes a ! ai_control_mode_index a"

definition tone_data :: "tone_tables \<Rightarrow> air_interface \<Rightarrow> tone_kind list" where
  "tone_data t a = tt_data t @ middle_kinds t (ai_middle_tones a)"

definition tone_kinds :: "tone_tables \<Rightarrow> air_interface \<Rightarrow> tone_kind list" where
  "tone_kinds t a = tt_control t # tone_data t a"

definition floor_modes :: "tone_tables \<Rightarrow> air_interface \<Rightarrow> nat" where
  "floor_modes t a = length (tt_data t) + length (middle_kinds t (ai_middle_tones a))"

definition ladder :: "tone_tables \<Rightarrow> air_interface \<Rightarrow> rung list" where
  "ladder t a = map Tone (tone_data t a) @ map (\<lambda>m. Ofdm (ai_modes a ! m) (ai_long a)) (ai_ofdm_ladder a)"

definition rung_at :: "tone_tables \<Rightarrow> air_interface \<Rightarrow> nat \<Rightarrow> rung option" where
  "rung_at t a index =
     (let fl = floor_modes t a in
      if index < fl then Some (Tone (tone_data t a ! index))
      else if index - fl < length (ai_ofdm_ladder a)
      then Some (Ofdm (ai_modes a ! (ai_ofdm_ladder a ! (index - fl))) (ai_long a))
      else None)"

definition n_rungs :: "tone_tables \<Rightarrow> air_interface \<Rightarrow> nat" where
  "n_rungs t a = floor_modes t a + length (ai_ofdm_ladder a)"

definition n_modes :: "air_interface \<Rightarrow> nat" where
  "n_modes a = length (ai_modes a)"

definition is_floor :: "tone_tables \<Rightarrow> air_interface \<Rightarrow> nat \<Rightarrow> bool" where
  "is_floor t a r \<longleftrightarrow> r < floor_modes t a"

definition rung_of :: "tone_tables \<Rightarrow> air_interface \<Rightarrow> nat \<Rightarrow> nat option" where
  "rung_of t a ofdm_mode =
     map_option (\<lambda>j. floor_modes t a + j) (position (\<lambda>m. m = ofdm_mode) (ai_ofdm_ladder a))"

definition control_rung :: "tone_tables \<Rightarrow> air_interface \<Rightarrow> nat option" where
  "control_rung t a = rung_of t a (ai_control_mode_index a)"

definition layout_for :: "air_interface \<Rightarrow> bool \<Rightarrow> frame_layout" where
  "layout_for a data = (if data then ai_long a else ai_short a)"

definition layouts :: "air_interface \<Rightarrow> frame_layout list" where
  "layouts a = [ai_long a, ai_short a]"

definition air_bandwidth_hz :: "air_interface \<Rightarrow> nat" where
  "air_bandwidth_hz a = bandwidth_hz (wp_bandwidth (ai_params a))"

definition WIDE :: air_interface where
  "WIDE = \<lparr>ai_params = WIDE_2300, ai_long = LONG, ai_short = SHORT, ai_modes = MODES,
     ai_chip_correlation_bound = 0.2, ai_acquisition_threshold = 0.36, ai_ofdm_ladder = WIDE_OFDM_LADDER,
     ai_control_mode_index = 0, ai_middle_tones = Fast\<rparr>"

definition NARROW :: air_interface where
  "NARROW = \<lparr>ai_params = NARROW_500, ai_long = NARROW_LONG, ai_short = NARROW_SHORT, ai_modes = NARROW_MODES,
     ai_chip_correlation_bound = 0.25, ai_acquisition_threshold = 0.56, ai_ofdm_ladder = NARROW_OFDM_LADDER,
     ai_control_mode_index = NARROW_CONTROL_MODE_INDEX, ai_middle_tones = Quad\<rparr>"

definition air_interface_of :: "waveform_params \<Rightarrow> air_interface option" where
  "air_interface_of p =
     (case (case wp_bandwidth p of Wide2300 \<Rightarrow> Some WIDE | Narrow500 \<Rightarrow> Some NARROW | Wide2750 \<Rightarrow> None) of
        None \<Rightarrow> None
      | Some air \<Rightarrow> if ai_params air = p then Some air else None)"

section \<open>The ladder's two views agree\<close>

lemma length_ladder: "length (ladder t a) = n_rungs t a"
  by (simp add: ladder_def n_rungs_def floor_modes_def tone_data_def)

text \<open>\<open>rung_at\<close> is the ladder's entry, and panics exactly past its end.\<close>

lemma rung_at_ladder: "rung_at t a i = (if i < n_rungs t a then Some (ladder t a ! i) else None)"
proof -
  have f: "length (tone_data t a) = floor_modes t a"
    by (simp add: floor_modes_def tone_data_def)
  consider "i < floor_modes t a" | "floor_modes t a \<le> i" "i < n_rungs t a" | "n_rungs t a \<le> i"
    by linarith
  then show ?thesis
    by cases (auto simp: rung_at_def ladder_def n_rungs_def nth_append f Let_def)
qed

lemma rung_of_ladder:
  assumes "rung_of t a m = Some r"
  shows "r < n_rungs t a" and "ladder t a ! r = Ofdm (ai_modes a ! m) (ai_long a)" and "\<not> is_floor t a r"
proof -
  from assms obtain j where j: "position (\<lambda>x. x = m) (ai_ofdm_ladder a) = Some j" "r = floor_modes t a + j"
    by (auto simp: rung_of_def)
  from position_SomeD [OF j(1)] have "j < length (ai_ofdm_ladder a)" "ai_ofdm_ladder a ! j = m"
    by auto
  moreover have "length (tone_data t a) = floor_modes t a"
    by (simp add: floor_modes_def tone_data_def)
  ultimately show "r < n_rungs t a" "ladder t a ! r = Ofdm (ai_modes a ! m) (ai_long a)" "\<not> is_floor t a r"
    using j(2) by (auto simp: n_rungs_def ladder_def nth_append is_floor_def)
qed

lemma ladder_floor: "r < n_rungs t a \<Longrightarrow> rung_is_floor (ladder t a ! r) \<longleftrightarrow> is_floor t a r"
proof -
  have "length (tone_data t a) = floor_modes t a"
    by (simp add: floor_modes_def tone_data_def)
  then show "r < n_rungs t a \<Longrightarrow> rung_is_floor (ladder t a ! r) \<longleftrightarrow> is_floor t a r"
    by (auto simp: ladder_def nth_append is_floor_def n_rungs_def)
qed

section \<open>What the fixed tables come to\<close>

lemma upt_numeral: "[0..<32] = [0,1,2,3,4,5,6,7,8,9,10,11,12,13,14,15,16,17,18,19,20,21,22,23,24,25,26,27,28,29,30,31::nat]"
  "[0..<12] = [0,1,2,3,4,5,6,7,8,9,10,11::nat]"
  by (simp_all add: upt_conv_Cons)

lemma slots [simp]:
  "qam_symbols LONG = 1176" "qam_symbols SHORT = 420" "qam_symbols NARROW_LONG = 224" "qam_symbols NARROW_SHORT = 80"
  by (simp_all add: qam_symbols_def n_payload_symbols_def n_pilot_symbols_def pilot_symbol_indices_def Let_def
      LONG_def SHORT_def NARROW_LONG_def NARROW_SHORT_def)
    (simp_all add: WIDE_2300_def NARROW_500_def upt_numeral)

lemma layout_times:
  "total_symbols LONG = 34" "layout_samples LONG = 8432" "layout_duration_s LONG = 1.054"
  "total_symbols SHORT = 14" "layout_samples SHORT = 3472" "layout_duration_s SHORT = 0.434"
  by (simp_all add: total_symbols_def layout_samples_def layout_duration_s_def symbol_period_s_def symbol_samples_def
      LONG_def SHORT_def WIDE_2300_def)

section \<open>Properties\<close>

text \<open>
  \<open>rung_at\<close> agrees with the ladder it never builds, panicking exactly past its end; and the
  ladder's floor is the tone rungs, its top the OFDM modes.
\<close>

theorem ladder_views:
  "(case rung_at t a i of
      None \<Rightarrow> n_rungs t a \<le> i
    | Some r \<Rightarrow> i < n_rungs t a \<and> r = ladder t a ! i \<and> (rung_is_floor r \<longleftrightarrow> is_floor t a i))"
  by (simp add: rung_at_ladder ladder_floor)

end
