(* ===== verification/Constellation.thy ===== *)
theory Constellation
  imports Waveform
begin

text \<open>
  Gray-labelled constellations and the max-log demapper: \<open>core/aether-phy/src/constellation.rs\<close>.
  A minimum over no points (the source's \<open>f64::INFINITY\<close>) and a failed \<open>assert!\<close> are \<open>None\<close>.

  What is shown: a symbol received as it was sent demaps, hard and soft, to the bits it carries,
  for every modulation.
\<close>

type_synonym sample = "f64 \<times> f64"

section \<open>Points\<close>

definition bits_of :: "nat \<Rightarrow> nat \<Rightarrow> bytes" where
  "bits_of index m = map (\<lambda>i. of_nat (drop_bit (m - 1 - i) index AND 1)) [0..<m]"

definition bit_sign :: "nat \<Rightarrow> nat \<Rightarrow> nat \<Rightarrow> f64" where
  "bit_sign m index pos = 1 - 2 * real (unat (bits_of index m ! pos))"

definition gray_label :: "nat \<Rightarrow> nat" where
  "gray_label k = k XOR drop_bit 1 k"

fun points_for :: "modulation \<Rightarrow> sample list" where
  "points_for Bpsk = map (\<lambda>k. (bit_sign 1 k 0, 0)) [0..<2]"
| "points_for Qpsk =
     (let scale = 1 / sqrt 2 in map (\<lambda>k. (bit_sign 2 k 0 * scale, bit_sign 2 k 1 * scale)) [0..<4])"
| "points_for Psk8 =
     foldl (\<lambda>out k. let angle = 2 * pi * real k / 8 in out[gray_label k := (cos angle, sin angle)])
       (replicate 8 (0, 0)) [0..<8]"
| "points_for Qam16 =
     (let scale = 1 / sqrt 10; s = bit_sign 4
      in map (\<lambda>k. (s k 0 * (2 - s k 2) * scale, s k 1 * (2 - s k 3) * scale)) [0..<16])"
| "points_for Qam64 =
     (let scale = 1 / sqrt 42; s = bit_sign 6
      in map (\<lambda>k. (s k 0 * (4 - s k 2 * (2 - s k 4)) * scale, s k 1 * (4 - s k 3 * (2 - s k 5)) * scale)) [0..<64])"

record constellation =
  cn_modulation :: modulation
  cn_bits :: nat
  cn_points :: "sample list"
  cn_zero :: "nat list list"
  cn_one :: "nat list list"

definition constellation_new :: "modulation \<Rightarrow> constellation" where
  "constellation_new modu =
     (let m = bits_per_symbol modu; points = points_for modu
      in \<lparr>cn_modulation = modu, cn_bits = m, cn_points = points,
          cn_zero = map (\<lambda>pos. filter (\<lambda>index. bits_of index m ! pos = 0) [0..<length points]) [0..<m],
          cn_one = map (\<lambda>pos. filter (\<lambda>index. bits_of index m ! pos \<noteq> 0) [0..<length points]) [0..<m]\<rparr>)"

section \<open>Mapping\<close>

text \<open>\<open>chunks_exact\<close>: whole chunks, a shorter rest dropped.\<close>

function chunks_exact :: "nat \<Rightarrow> 'a list \<Rightarrow> 'a list list" where
  "chunks_exact n xs = (if 0 < n \<and> n \<le> length xs then take n xs # chunks_exact n (drop n xs) else [])"
  by auto
termination
  by (relation "measure (\<lambda>(n, xs). length xs)") auto

declare chunks_exact.simps [simp del]

definition symbol_index :: "bytes \<Rightarrow> nat" where
  "symbol_index chunk = foldl (\<lambda>acc b. push_bit 1 acc OR unat (b AND 1)) 0 chunk"

definition map_bits :: "constellation \<Rightarrow> bytes \<Rightarrow> sample list option" where
  "map_bits c bs =
     (if length bs mod cn_bits c = 0
      then Some (map (\<lambda>chunk. cn_points c ! symbol_index chunk) (chunks_exact (cn_bits c) bs))
      else None)"

section \<open>Demapping\<close>

definition distance2 :: "sample \<Rightarrow> sample \<Rightarrow> f64" where
  "distance2 y p = (fst y - fst p) ^ 2 + (snd y - snd p) ^ 2"

text \<open>The loop that keeps the first nearest point.\<close>

definition nearest :: "sample list \<Rightarrow> sample \<Rightarrow> nat" where
  "nearest points y =
     fst (foldl (\<lambda>(best, best_d2) (index, p).
            let d2 = distance2 y p
            in if (case best_d2 of None \<Rightarrow> True | Some b \<Rightarrow> d2 < b) then (index, Some d2) else (best, best_d2))
          (0, None) (enumerate 0 points))"

definition hard :: "constellation \<Rightarrow> sample list \<Rightarrow> bytes" where
  "hard c symbols = concat (map (\<lambda>y. bits_of (nearest (cn_points c) y) (cn_bits c)) symbols)"

datatype noise_var = Uniform f64 | PerSymbol "f64 list"

fun noise_ok :: "noise_var \<Rightarrow> sample list \<Rightarrow> bool" where
  "noise_ok (Uniform _) symbols = True"
| "noise_ok (PerSymbol vs) symbols = (length vs = length symbols)"

fun noise_at :: "noise_var \<Rightarrow> nat \<Rightarrow> f64" where
  "noise_at (Uniform v) i = v"
| "noise_at (PerSymbol vs) i = vs ! i"

definition fold_min :: "f64 list \<Rightarrow> f64 option" where
  "fold_min vs = foldl (\<lambda>acc v. case acc of None \<Rightarrow> Some v | Some a \<Rightarrow> Some (min a v)) None vs"

definition llr_at :: "constellation \<Rightarrow> sample \<Rightarrow> f64 \<Rightarrow> nat \<Rightarrow> f64 option" where
  "llr_at c y nv pos =
     (let distances = map (distance2 y) (cn_points c);
          min_one = fold_min (map (\<lambda>i. distances ! i) (cn_one c ! pos));
          min_zero = fold_min (map (\<lambda>i. distances ! i) (cn_zero c ! pos))
      in case (min_one, min_zero) of (Some a, Some b) \<Rightarrow> Some ((a - b) / nv) | _ \<Rightarrow> None)"

definition llr :: "constellation \<Rightarrow> sample list \<Rightarrow> noise_var \<Rightarrow> f64 list option" where
  "llr c symbols nv =
     (if noise_ok nv symbols
      then those (concat (map (\<lambda>(i, y). map (llr_at c y (noise_at nv i)) [0..<cn_bits c]) (enumerate 0 symbols)))
      else None)"

section \<open>Indices and bits\<close>

lemma length_bits_of [simp]: "length (bits_of index m) = m"
  by (simp add: bits_of_def)

lemma bits_of_01: "set (bits_of index m) \<subseteq> {0, 1}"
  by (auto simp: bits_of_def and_one_eq mod_2_eq_odd)

lemma symbol_index_snoc: "symbol_index (bs @ [b]) = 2 * symbol_index bs + (if odd b then 1 else 0)"
proof -
  have "unat (b AND 1) = (if odd b then 1 else 0)"
    by (simp add: and_one_eq mod_2_eq_odd)
  moreover have "push_bit 1 n = 2 * n" for n :: nat
    by (simp add: push_bit_eq_mult)
  moreover have "symbol_index (bs @ [b]) = push_bit 1 (symbol_index bs) OR unat (b AND 1)"
    by (simp add: symbol_index_def)
  ultimately show ?thesis
    by (simp add: or_Suc_0_eq)
qed

lemma symbol_index_less: "symbol_index bs < 2 ^ length bs"
proof (induction bs rule: rev_induct)
  case Nil
  then show ?case
    by (simp add: symbol_index_def)
next
  case (snoc b bs)
  then show ?case
    by (simp add: symbol_index_snoc)
qed

lemma bits_of_snoc: "bits_of (2 * n + d) (Suc m) = bits_of n m @ [of_nat (d mod 2)]" if "d < 2"
proof -
  have "drop_bit (Suc k) (2 * n + d) = drop_bit k n" for k
    using that by (simp add: drop_bit_Suc)
  then have "map (\<lambda>i. of_nat (drop_bit (m - i) (2 * n + d) AND 1)) [0..<m] = (bits_of n m :: bytes)"
  proof -
    assume k: "\<And>k. drop_bit (Suc k) (2 * n + d) = drop_bit k n"
    have "drop_bit (m - i) (2 * n + d) = drop_bit (m - 1 - i) n" if "i < m" for i
      using k [of "m - 1 - i"] that by (simp add: Suc_diff_Suc)
    then show ?thesis
      by (simp add: bits_of_def)
  qed
  moreover have "(2 * n + d) AND 1 = d mod 2"
    by (simp add: and_one_eq)
  ultimately show ?thesis
    by (simp add: bits_of_def)
qed

lemma bits_of_symbol_index: "set bs \<subseteq> {0, 1} \<Longrightarrow> bits_of (symbol_index bs) (length bs) = bs"
proof (induction bs rule: rev_induct)
  case Nil
  then show ?case
    by (simp add: bits_of_def)
next
  case (snoc b bs)
  then have "b = 0 \<or> b = 1"
    by auto
  with snoc show ?case
    using bits_of_snoc [of 0 "symbol_index bs" "length bs"] bits_of_snoc [of 1 "symbol_index bs" "length bs"]
    by (auto simp: symbol_index_snoc)
qed

lemma bits_of_inj:
  assumes "i < 2 ^ m" "j < 2 ^ m" "bits_of i m = bits_of j m"
  shows "i = j"
  using assms
proof (induction m arbitrary: i j)
  case (Suc m)
  have "i = 2 * (i div 2) + i mod 2" "j = 2 * (j div 2) + j mod 2"
    by simp_all
  then have "bits_of i (Suc m) = bits_of (i div 2) m @ [of_nat (i mod 2)]"
    "bits_of j (Suc m) = bits_of (j div 2) m @ [of_nat (j mod 2)]"
    using bits_of_snoc [of "i mod 2" "i div 2" m] bits_of_snoc [of "j mod 2" "j div 2" m] by simp_all
  with Suc have "bits_of (i div 2) m = bits_of (j div 2) m" "(of_nat (i mod 2) :: u8) = of_nat (j mod 2)"
    by auto
  with Suc.IH [of "i div 2" "j div 2"] Suc.prems(1,2) have "i div 2 = j div 2" "i mod 2 = j mod 2"
    by (auto simp: mod_2_eq_odd split: if_splits)
  then show ?case
    by (metis mult_div_mod_eq)
qed simp

lemma concat_chunks:
  "length xs mod n = 0 \<Longrightarrow> 0 < n \<Longrightarrow> concat (chunks_exact n xs) = xs \<and> (\<forall>c\<in>set (chunks_exact n xs). length c = n)"
proof (induction n xs rule: chunks_exact.induct)
  case (1 n xs)
  show ?case
  proof (cases "n \<le> length xs")
    case True
    then have e: "chunks_exact n xs = take n xs # chunks_exact n (drop n xs)"
      using 1(3) by (subst chunks_exact.simps) simp
    have "length (drop n xs) mod n = 0"
      unfolding length_drop le_mod_geq [OF True, symmetric] by (rule 1(2))
    note IH = 1(1) [OF conjI [OF 1(3) True] this 1(3)]
    show ?thesis
    proof
      show "concat (chunks_exact n xs) = xs"
        by (simp only: e concat.simps conjunct1 [OF IH] append_take_drop_id)
      have "length (take n xs) = n"
        using True by (simp only: length_take min_absorb2)
      then show "\<forall>c\<in>set (chunks_exact n xs). length c = n"
        unfolding e list.set(2) using conjunct2 [OF IH] by blast
    qed
  next
    case False
    with 1 have "xs = []"
      by simp
    with False have "chunks_exact n xs = []"
      by (subst chunks_exact.simps) simp
    with \<open>xs = []\<close> show ?thesis
      by simp
  qed
qed

section \<open>The points are distinct\<close>

lemma bit_sign_cases:
  assumes "pos < m"
  shows "bit_sign m k pos = 1 \<and> bits_of k m ! pos = 0 \<or> bit_sign m k pos = -1 \<and> bits_of k m ! pos = 1"
proof -
  have "bits_of k m ! pos \<in> {0, 1}"
    using bits_of_01 [of k m] assms by (metis length_bits_of nth_mem subsetD)
  then show ?thesis
    by (auto simp: bit_sign_def)
qed

lemma bit_sign_inj:
  assumes "k < 2 ^ m" "j < 2 ^ m" and "\<forall>pos<m. bit_sign m k pos = bit_sign m j pos"
  shows "k = j"
proof -
  have "bits_of k m = bits_of j m"
  proof (rule nth_equalityI)
    fix i
    assume "i < length (bits_of k m)"
    then have "i < m"
      by simp
    then show "bits_of k m ! i = bits_of j m ! i"
      using bit_sign_cases [of i m k] bit_sign_cases [of i m j] assms(3) by auto
  qed simp
  then show ?thesis
    using bits_of_inj assms(1,2) by blast
qed

lemma level_16: "a \<in> {1, -1} \<Longrightarrow> b \<in> {1, -1} \<Longrightarrow> a' \<in> {1, -1} \<Longrightarrow> b' \<in> {1, -1} \<Longrightarrow>
  a * (2 - b) = a' * (2 - b') \<Longrightarrow> a = a' \<and> b = (b' :: real)"
  by auto

lemma level_64: "a \<in> {1, -1} \<Longrightarrow> b \<in> {1, -1} \<Longrightarrow> c \<in> {1, -1} \<Longrightarrow> a' \<in> {1, -1} \<Longrightarrow> b' \<in> {1, -1} \<Longrightarrow> c' \<in> {1, -1} \<Longrightarrow>
  a * (4 - b * (2 - c)) = a' * (4 - b' * (2 - c')) \<Longrightarrow> a = a' \<and> b = b' \<and> c = (c' :: real)"
  by (elim insertE emptyE; simp)

lemma bit_sign_pm: "pos < m \<Longrightarrow> bit_sign m k pos \<in> {1, -1}"
  using bit_sign_cases [of pos m k] by auto

lemma all_less_numeral:
  "(\<forall>i<1. P i) \<longleftrightarrow> P (0::nat)" "(\<forall>i<2. P i) \<longleftrightarrow> P 0 \<and> P (1::nat)"
  "(\<forall>i<4. P i) \<longleftrightarrow> P 0 \<and> P 1 \<and> P 2 \<and> P (3::nat)"
  "(\<forall>i<6. P i) \<longleftrightarrow> P 0 \<and> P 1 \<and> P 2 \<and> P 3 \<and> P 4 \<and> P (5::nat)"
  by (simp_all add: numeral_eq_Suc All_less_Suc conj_ac)

lemma distinct_qam16: "distinct (points_for Qam16)"
proof -
  have "k = j" if "k < 16" "j < 16"
    and "bit_sign 4 k 0 * (2 - bit_sign 4 k 2) = bit_sign 4 j 0 * (2 - bit_sign 4 j 2)"
    and "bit_sign 4 k 1 * (2 - bit_sign 4 k 3) = bit_sign 4 j 1 * (2 - bit_sign 4 j 3)" for k j
  proof (rule bit_sign_inj [of _ 4])
    show "\<forall>pos<4. bit_sign 4 k pos = bit_sign 4 j pos"
      unfolding all_less_numeral
      using level_16 [OF bit_sign_pm bit_sign_pm bit_sign_pm bit_sign_pm that(3)]
        level_16 [OF bit_sign_pm bit_sign_pm bit_sign_pm bit_sign_pm that(4)] by simp
  qed (use that in simp_all)
  then show ?thesis
    by (simp add: distinct_map inj_on_def Let_def)
qed

lemma distinct_qam64: "distinct (points_for Qam64)"
proof -
  have "k = j" if "k < 64" "j < 64"
    and "bit_sign 6 k 0 * (4 - bit_sign 6 k 2 * (2 - bit_sign 6 k 4)) = bit_sign 6 j 0 * (4 - bit_sign 6 j 2 * (2 - bit_sign 6 j 4))"
    and "bit_sign 6 k 1 * (4 - bit_sign 6 k 3 * (2 - bit_sign 6 k 5)) = bit_sign 6 j 1 * (4 - bit_sign 6 j 3 * (2 - bit_sign 6 j 5))" for k j
  proof (rule bit_sign_inj [of _ 6])
    show "\<forall>pos<6. bit_sign 6 k pos = bit_sign 6 j pos"
      unfolding all_less_numeral
      using level_64 [OF bit_sign_pm bit_sign_pm bit_sign_pm bit_sign_pm bit_sign_pm bit_sign_pm that(3)]
        level_64 [OF bit_sign_pm bit_sign_pm bit_sign_pm bit_sign_pm bit_sign_pm bit_sign_pm that(4)] by simp
  qed (use that in simp_all)
  then show ?thesis
    by (simp add: distinct_map inj_on_def Let_def)
qed

definition circle :: "nat \<Rightarrow> sample" where
  "circle k = (let angle = 2 * pi * real k / 8 in (cos angle, sin angle))"

lemma psk8_points: "points_for Psk8 = map circle [0, 1, 3, 2, 7, 6, 4, 5]"
proof -
  have u: "[0..<8] = [0, 1, 2, 3, 4, 5, 6, 7::nat]"
    by (simp add: upt_conv_Cons)
  have g: "gray_label 0 = 0" "gray_label 1 = 1" "gray_label 2 = 3" "gray_label 3 = 2" "gray_label 4 = 6"
    "gray_label 5 = 7" "gray_label 6 = 5" "gray_label 7 = 4"
    by (simp_all add: gray_label_def)
  have r: "replicate 8 x = [x, x, x, x, x, x, x, x]" for x :: sample
    by (simp add: numeral_eq_Suc)
  have "points_for Psk8 = foldl (\<lambda>out k. out[gray_label k := circle k]) (replicate 8 (0, 0)) [0..<8]"
    by (simp add: circle_def Let_def)
  also have "\<dots> = map circle [0, 1, 3, 2, 7, 6, 4, 5]"
    unfolding u r foldl.simps g by simp
  finally show ?thesis .
qed

lemma circle_inj:
  assumes "k < 8" "j < 8" and "circle k = circle j"
  shows "k = j"
proof -
  have "sin (2 * pi * real k / 8) = sin (2 * pi * real j / 8) \<and> cos (2 * pi * real k / 8) = cos (2 * pi * real j / 8)"
    using assms(3) by (simp add: circle_def Let_def)
  then obtain n :: int where "2 * pi * real k / 8 = 2 * pi * real j / 8 + 2 * pi * of_int n"
    unfolding sin_cos_eq_iff by auto
  then have "2 * pi * (real k - real j - 8 * of_int n) = 0"
    by (simp add: field_simps)
  then have "real k = real j + 8 * of_int n"
    by simp
  then have "int k = int j + 8 * n"
    by linarith
  with assms(1,2) show ?thesis
    by presburger
qed

lemma distinct_psk8: "distinct (points_for Psk8)"
proof -
  have "inj_on circle {0, 1, 3, 2, 7, 6, 4, 5}"
    by (rule inj_onI) (rule circle_inj; auto)
  then show ?thesis
    unfolding psk8_points distinct_map by simp
qed

lemma distinct_points: "distinct (points_for modu)" "length (points_for modu) = 2 ^ bits_per_symbol modu"
proof -
  have "distinct (points_for Bpsk)"
    using bit_sign_inj [of _ 1] by (simp add: distinct_map inj_on_def all_less_numeral)
  moreover have "distinct (points_for Qpsk)"
    using bit_sign_inj [of _ 2] by (simp add: distinct_map inj_on_def all_less_numeral Let_def)
  ultimately show "distinct (points_for modu)"
    using distinct_psk8 distinct_qam16 distinct_qam64 by (cases modu) blast+
  show "length (points_for modu) = 2 ^ bits_per_symbol modu"
  proof (cases modu)
    case Psk8
    then show ?thesis
      by (simp add: psk8_points del: points_for.simps)
  qed (simp_all add: Let_def)
qed

section \<open>A symbol received as it was sent\<close>

lemma distance2_nonneg: "0 \<le> distance2 y p"
  by (simp add: distance2_def)

lemma distance2_0: "distance2 y p = 0 \<longleftrightarrow> p = y"
  by (auto simp: distance2_def sum_power2_eq_zero_iff prod_eq_iff)

lemma nearest_least:
  assumes "points \<noteq> []"
  shows "nearest points y < length points \<and>
    (\<forall>i<length points. distance2 y (points ! nearest points y) \<le> distance2 y (points ! i))"
proof -
  let ?step = "\<lambda>(best, best_d2) (index, p). let d2 = distance2 y p
    in if (case best_d2 of None \<Rightarrow> True | Some b \<Rightarrow> d2 < b) then (index, Some d2) else (best, best_d2)"
  have "ps \<noteq> [] \<Longrightarrow> \<exists>b. foldl ?step (0, None) (enumerate 0 ps) = (b, Some (distance2 y (ps ! b))) \<and> b < length ps \<and>
    (\<forall>i<length ps. distance2 y (ps ! b) \<le> distance2 y (ps ! i))" for ps
  proof (induction ps rule: rev_induct)
    case (snoc p ps)
    show ?case
    proof (cases "ps = []")
      case False
      with snoc.IH obtain b where b: "foldl ?step (0, None) (enumerate 0 ps) = (b, Some (distance2 y (ps ! b)))"
        "b < length ps" "\<forall>i<length ps. distance2 y (ps ! b) \<le> distance2 y (ps ! i)"
        by blast
      show ?thesis
      proof (cases "distance2 y p < distance2 y (ps ! b)")
        case True
        with b show ?thesis
          by (intro exI [of _ "length ps"]) (fastforce simp: enumerate_append_eq nth_append less_Suc_eq)
      next
        case False
        with b show ?thesis
          by (intro exI [of _ b]) (auto simp: enumerate_append_eq nth_append less_Suc_eq)
      qed
    qed simp
  qed simp
  from this [OF assms] show ?thesis
    by (auto simp: nearest_def)
qed

lemma nearest_point:
  assumes "distinct points" and "k < length points"
  shows "nearest points (points ! k) = k"
proof -
  have "points \<noteq> []"
    using assms(2) by auto
  from nearest_least [OF this, of "points ! k"] assms(2) have n: "nearest points (points ! k) < length points"
    and "distance2 (points ! k) (points ! nearest points (points ! k)) \<le> distance2 (points ! k) (points ! k)"
    by blast+
  moreover have "distance2 (points ! k) (points ! k) = 0"
    by (simp add: distance2_0)
  ultimately have "points ! nearest points (points ! k) = points ! k"
    using distance2_nonneg distance2_0 by (metis order_antisym)
  with n assms show ?thesis
    by (simp add: nth_eq_iff_index_eq)
qed

lemma fold_min_Some:
  "vs \<noteq> [] \<Longrightarrow> \<exists>v\<in>set vs. fold_min vs = Some v \<and> (\<forall>w\<in>set vs. v \<le> w)"
proof (induction vs rule: rev_induct)
  case (snoc w vs)
  show ?case
  proof (cases "vs = []")
    case False
    with snoc.IH obtain v where "v \<in> set vs" "fold_min vs = Some v" "\<forall>w\<in>set vs. v \<le> w"
      by blast
    then show ?thesis
      by (cases "v \<le> w") (auto simp: fold_min_def min_def)
  qed (simp add: fold_min_def)
qed simp

text \<open>The smallest distance to a set of points: zero when the point sent is one of them.\<close>

lemma fold_min_distances:
  assumes "distinct points" and "k < length points" and "is \<noteq> []" and "\<forall>i\<in>set is. i < length points"
  shows "\<exists>v. fold_min (map (\<lambda>i. map (distance2 (points ! k)) points ! i) is) = Some v \<and> (if k \<in> set is then v = 0 else 0 < v)"
proof -
  from fold_min_Some [of "map (\<lambda>i. map (distance2 (points ! k)) points ! i) is"] assms(3) obtain v i where
    v: "fold_min (map (\<lambda>i. map (distance2 (points ! k)) points ! i) is) = Some v" and i: "i \<in> set is"
    "v = map (distance2 (points ! k)) points ! i" and
    least: "\<forall>j\<in>set is. v \<le> map (distance2 (points ! k)) points ! j"
    by auto
  have vd: "v = distance2 (points ! k) (points ! i)"
    using i assms(4) by simp
  show ?thesis
  proof (cases "k \<in> set is")
    case True
    then have "v \<le> distance2 (points ! k) (points ! k)"
      using least assms(2) by auto
    with True v vd show ?thesis
      using distance2_nonneg [of "points ! k" "points ! i"] distance2_0 [of "points ! k" "points ! k"] by simp
  next
    case False
    then have "points ! i \<noteq> points ! k"
      using i(1) assms by (auto simp: nth_eq_iff_index_eq)
    with False v vd show ?thesis
      using distance2_nonneg [of "points ! k" "points ! i"] distance2_0 [of "points ! k" "points ! i"] by simp
  qed
qed

lemma bit_index:
  assumes "pos < m"
  shows "bits_of 0 m ! pos = 0" "2 ^ (m - 1 - pos) < (2 :: nat) ^ m" "bits_of (2 ^ (m - 1 - pos)) m ! pos = 1"
proof -
  show "bits_of 0 m ! pos = 0"
    using assms by (simp add: bits_of_def)
  show "2 ^ (m - 1 - pos) < (2 :: nat) ^ m"
    using assms by (intro power_strict_increasing) auto
  have "drop_bit (m - 1 - pos) (2 ^ (m - 1 - pos) :: nat) = 1"
    by (simp add: drop_bit_eq_div)
  then show "bits_of (2 ^ (m - 1 - pos)) m ! pos = 1"
    using assms by (simp add: bits_of_def)
qed

lemma constellation_simps [simp]:
  "cn_bits (constellation_new modu) = bits_per_symbol modu"
  "cn_points (constellation_new modu) = points_for modu"
  by (simp_all add: constellation_new_def Let_def)

lemma llr_clean:
  assumes "k < 2 ^ bits_per_symbol modu" and "pos < bits_per_symbol modu" and "0 < nv"
  shows "\<exists>v. llr_at (constellation_new modu) (points_for modu ! k) nv pos = Some v \<and>
    agrees v (bits_of k (bits_per_symbol modu) ! pos)"
proof -
  define m where "m = bits_per_symbol modu"
  define points where "points = points_for modu"
  define ones where "ones = filter (\<lambda>index. bits_of index m ! pos \<noteq> 0) [0..<length points]"
  define zeros where "zeros = filter (\<lambda>index. bits_of index m ! pos = 0) [0..<length points]"
  have p: "distinct points" "length points = 2 ^ m" "pos < m" "k < length points"
    using distinct_points [of modu] assms(1,2) by (simp_all add: points_def m_def)
  have "0 \<in> set zeros" "2 ^ (m - 1 - pos) \<in> set ones"
    using bit_index [OF p(3)] p(2) by (simp_all add: zeros_def ones_def)
  then have ne: "zeros \<noteq> []" "ones \<noteq> []"
    by auto
  obtain a where a: "fold_min (map (\<lambda>i. map (distance2 (points ! k)) points ! i) ones) = Some a"
    "if k \<in> set ones then a = 0 else 0 < a"
    using fold_min_distances [OF p(1,4) ne(2)] by (auto simp: ones_def)
  obtain b where b: "fold_min (map (\<lambda>i. map (distance2 (points ! k)) points ! i) zeros) = Some b"
    "if k \<in> set zeros then b = 0 else 0 < b"
    using fold_min_distances [OF p(1,4) ne(1)] by (auto simp: zeros_def)
  have "cn_one (constellation_new modu) ! pos = ones" "cn_zero (constellation_new modu) ! pos = zeros"
    using p(3) by (simp_all add: constellation_new_def Let_def ones_def zeros_def m_def points_def)
  then have "llr_at (constellation_new modu) (points ! k) nv pos = Some ((a - b) / nv)"
    using a(1) b(1) by (simp add: llr_at_def Let_def points_def)
  moreover have "agrees ((a - b) / nv) (bits_of k m ! pos)"
    using a(2) b(2) p assms(3) bit_sign_cases [OF p(3), of k]
    by (auto simp: ones_def zeros_def agrees_def divide_less_0_iff split: if_splits)
  ultimately show ?thesis
    by (auto simp: points_def m_def)
qed

text \<open>Hard decisions on what was sent give back the bits.\<close>

lemma hard_map_bits:
  assumes "set bs \<subseteq> {0, 1}" and "map_bits (constellation_new modu) bs = Some symbols"
  shows "hard (constellation_new modu) symbols = bs"
proof -
  define m where "m = bits_per_symbol modu"
  have m: "0 < m"
    by (cases modu) (simp_all add: m_def)
  from assms(2) have len: "length bs mod m = 0"
    and sy: "symbols = map (\<lambda>chunk. points_for modu ! symbol_index chunk) (chunks_exact m bs)"
    by (auto simp: map_bits_def m_def split: if_splits)
  note cc = concat_chunks [OF len m]
  have "bits_of (nearest (points_for modu) (points_for modu ! symbol_index chunk)) m = chunk" if "chunk \<in> set (chunks_exact m bs)" for chunk
  proof -
    have l: "length chunk = m"
      using cc that by blast
    have "set chunk \<subseteq> set (concat (chunks_exact m bs))"
      using that by auto
    then have b: "set chunk \<subseteq> {0, 1}"
      using assms(1) cc by simp
    have "symbol_index chunk < length (points_for modu)"
      using symbol_index_less [of chunk] distinct_points(2) [of modu] l by (simp add: m_def)
    then show ?thesis
      using nearest_point [OF distinct_points(1)] bits_of_symbol_index [OF b] l by simp
  qed
  then have "map ((\<lambda>y. bits_of (nearest (points_for modu) y) m) \<circ> (\<lambda>chunk. points_for modu ! symbol_index chunk)) (chunks_exact m bs) = chunks_exact m bs"
    by (intro map_idI) simp
  with cc show ?thesis
    by (simp add: hard_def sy m_def [symmetric])
qed

section \<open>Properties\<close>

text \<open>
  for every modulation, hard decisions on the points a bit string is mapped to are that bit
  string: the labelling is a bijection between the bit groups and the points.
\<close>

theorem demap_map:
  assumes "set bs \<subseteq> {0, 1}" and "map_bits (constellation_new modu) bs = Some symbols"
  shows "hard (constellation_new modu) symbols = bs"
  by (rule hard_map_bits [OF assms])

theorem demap_map_witness:
  "\<exists>symbols. map_bits (constellation_new Qpsk) [1, 0, 0, 1] = Some symbols \<and> hard (constellation_new Qpsk) symbols = [1, 0, 0, 1]"
  using demap_map [of "[1, 0, 0, 1]" Qpsk] by (auto simp: map_bits_def)

end
