(* ===== verification/Codec.thy ===== *)
theory Codec
  imports Crc Nr_Tables Ldpc_Decode Rate_Match Modes Constellation
begin

text \<open>
  The frame codec of \<open>core/aether-phy/src/codec.rs\<close>: payload bytes to constellation symbols and
  back, for one mode on one layout.  The base-graph tables are the arguments \<open>g1\<close> and \<open>g2\<close>.  The
  result type is \<open>(error + value) option\<close>: \<open>None\<close> is a panic.
\<close>

section \<open>The interleaver's stride\<close>

definition PHI :: f64 where "PHI = 1.618033988749895"

text \<open>Euclid's loop.\<close>

fun gcd_loop :: "nat \<Rightarrow> nat \<Rightarrow> nat" where
  "gcd_loop a b = (if b \<noteq> 0 then gcd_loop b (a mod b) else a)"

declare gcd_loop.simps [simp del]

definition wrapping_sub :: "nat \<Rightarrow> nat \<Rightarrow> nat" where
  "wrapping_sub a b = (a + 2 ^ 64 - b) mod 2 ^ 64"

definition stride_candidates :: "nat \<Rightarrow> nat \<Rightarrow> nat list" where
  "stride_candidates ideal e = concat (map (\<lambda>delta. [wrapping_sub ideal delta, ideal + delta]) [0..<e])"

definition coprime_stride :: "nat \<Rightarrow> nat" where
  "coprime_stride e =
     (if e \<le> 1 then 1
      else let ideal = max (nat (round_away (real e / PHI))) 1
        in case find (\<lambda>c. 1 \<le> c \<and> c < e \<and> gcd_loop c e = 1) (stride_candidates ideal e) of
             Some c \<Rightarrow> c
           | None \<Rightarrow> 1)"

section \<open>The codec\<close>

record frame_codec =
  cd_mode :: mode
  cd_layout :: frame_layout
  cd_payload_bytes :: nat
  cd_info_bits :: nat
  cd_coded_bits :: nat
  cd_code :: fec_code
  cd_constellation :: constellation
  cd_permutation :: "nat list"
  cd_inverse :: "nat list"
  cd_stride :: nat

definition stride_permutation :: "nat \<Rightarrow> nat \<Rightarrow> nat list" where
  "stride_permutation n stride = map (\<lambda>k. (k * stride) mod n) [0..<n]"

definition inverse_of :: "nat list \<Rightarrow> nat list" where
  "inverse_of perm = foldl (\<lambda>inv (k, p). inv[p := k]) (replicate (length perm) 0) (enumerate 0 perm)"

definition codec_new :: "base_graph \<Rightarrow> base_graph \<Rightarrow> mode \<Rightarrow> frame_layout \<Rightarrow> (fec_error + frame_codec) option" where
  "codec_new g1 g2 m l =
     (case (payload_bytes m l, info_bits m l, mode_base_graph m l, lifting_size m l) of
        (Some payload, Some info, Some bg, Some z) \<Rightarrow>
          (case code_new g1 g2 bg z of
             None \<Rightarrow> None
           | Some (Inl e) \<Rightarrow> Some (Inl e)
           | Some (Inr code) \<Rightarrow>
               if fc_k code < info then Some (Inl (BadLength (fc_k code) info))
               else
                 let coded = coded_bits m l; stride = coprime_stride coded;
                     permutation = stride_permutation coded stride
                 in Some (Inr \<lparr>cd_mode = m, cd_layout = l, cd_payload_bytes = payload, cd_info_bits = info,
                      cd_coded_bits = coded, cd_code = code, cd_constellation = constellation_new (md_modulation m),
                      cd_permutation = permutation, cd_inverse = inverse_of permutation, cd_stride = stride\<rparr>))
      | _ \<Rightarrow> None)"

definition bits_of_bytes :: "bytes \<Rightarrow> bytes" where
  "bits_of_bytes payload = concat (map (\<lambda>byte. map (\<lambda>shift. drop_bit shift byte AND 1) (rev [0..<8])) payload)"

definition push_in :: "u8 \<Rightarrow> u8 \<Rightarrow> u8" where
  "push_in acc b = push_bit 1 acc OR (b AND 1)"

definition bytes_of_bits :: "bytes \<Rightarrow> bytes" where
  "bytes_of_bits bits = map (\<lambda>chunk. foldl push_in 0 chunk) (chunks_exact 8 bits)"

definition resize :: "nat \<Rightarrow> 'a \<Rightarrow> 'a list \<Rightarrow> 'a list" where
  "resize n v xs = take n xs @ replicate (n - length xs) v"

text \<open>Payload to the selected bits of the codeword, shared with the tone floor's codec.\<close>

definition coded_block :: "fec_code \<Rightarrow> nat \<Rightarrow> nat \<Rightarrow> bytes \<Rightarrow> u8 \<Rightarrow> (fec_error + bytes) option" where
  "coded_block code info_n coded_n payload rv =
     (let with_crc = attach CRC24A (bits_of_bytes payload); info = resize (fc_k code) 0 with_crc
      in case fec_encode code info of
           Inl e \<Rightarrow> Some (Inl e)
         | Inr codeword \<Rightarrow>
             (case matcher_new code info_n coded_n rv of
                None \<Rightarrow> None
              | Some (Inl e) \<Rightarrow> Some (Inl e)
              | Some (Inr matcher) \<Rightarrow> Some (match_bits matcher codeword)))"

definition interleave :: "nat \<Rightarrow> nat list \<Rightarrow> bytes \<Rightarrow> bytes" where
  "interleave n permutation selected =
     foldl (\<lambda>out (k, b). out[permutation ! k := b]) (replicate n 0) (enumerate 0 selected)"

definition encode_bits :: "frame_codec \<Rightarrow> bytes \<Rightarrow> u8 \<Rightarrow> (fec_error + bytes) option" where
  "encode_bits c payload rv =
     (if length payload \<noteq> cd_payload_bytes c then Some (Inl (BadLength (cd_payload_bytes c) (length payload)))
      else map_option (\<lambda>r. and_then r (\<lambda>selected. Inr (interleave (cd_coded_bits c) (cd_permutation c) selected)))
             (coded_block (cd_code c) (cd_info_bits c) (cd_coded_bits c) payload rv))"

definition codec_encode :: "frame_codec \<Rightarrow> bytes \<Rightarrow> u8 \<Rightarrow> (fec_error + sample list) option" where
  "codec_encode c payload rv =
     (case encode_bits c payload rv of
        None \<Rightarrow> None
      | Some (Inl e) \<Rightarrow> Some (Inl e)
      | Some (Inr bits) \<Rightarrow> map_option Inr (map_bits (cd_constellation c) bits))"

text \<open>The decoded block to a payload: the checksum and the all-zero word.\<close>

definition read_block :: "bytes \<Rightarrow> bytes option" where
  "read_block bits =
     (if \<not> check CRC24A bits then None
      else if \<forall>b\<in>set bits. b = 0 then None
      else Some (bytes_of_bits (take (length bits - crc_width CRC24A) bits)))"

text \<open>Soft bits to a payload and the buffer a retransmission combines with.\<close>

definition decode_block :: "fec_code \<Rightarrow> nat \<Rightarrow> nat \<Rightarrow> nat \<Rightarrow> nat list \<Rightarrow> f64 list \<Rightarrow> u8 \<Rightarrow> f64 list option \<Rightarrow>
    (fec_error + bytes option \<times> f64 list) option" where
  "decode_block code info_n coded_n iterations permutation interleaved rv buffer =
     (let llr_e = map (\<lambda>k. interleaved ! (permutation ! k)) [0..<coded_n]
      in case matcher_new code info_n coded_n rv of
           None \<Rightarrow> None
         | Some (Inl e) \<Rightarrow> Some (Inl e)
         | Some (Inr matcher) \<Rightarrow>
             (case recover matcher llr_e buffer of
                Inl e \<Rightarrow> Some (Inl e)
              | Inr full \<Rightarrow>
                  (case fec_decode code full iterations 0.8 of
                     None \<Rightarrow> None
                   | Some (Inl e) \<Rightarrow> Some (Inl e)
                   | Some (Inr decoded) \<Rightarrow> Some (Inr (read_block (take info_n (fd_bits decoded)), full)))))"

definition codec_decode :: "frame_codec \<Rightarrow> sample list \<Rightarrow> noise_var \<Rightarrow> u8 \<Rightarrow> f64 list option \<Rightarrow>
    (fec_error + bytes option \<times> f64 list) option" where
  "codec_decode c symbols nv rv buffer =
     (let expected = qam_symbols (cd_layout c)
      in if length symbols \<noteq> expected then Some (Inl (BadLength expected (length symbols)))
         else case llr (cd_constellation c) symbols nv of
                None \<Rightarrow> None
              | Some interleaved \<Rightarrow>
                  decode_block (cd_code c) (cd_info_bits c) (cd_coded_bits c) 25 (cd_permutation c) interleaved rv buffer)"

section \<open>The stride is coprime, the interleaver a permutation\<close>

lemma gcd_loop_gcd: "gcd_loop a b = gcd a b"
proof (induction a b rule: gcd_loop.induct)
  case (1 a b)
  then show ?case
    by (subst gcd_loop.simps) (auto simp: gcd_red_nat [symmetric])
qed

lemma ideal_bounds:
  assumes "2 \<le> e"
  shows "1 \<le> max (nat (round_away (real e / PHI))) 1" and "max (nat (round_away (real e / PHI))) 1 \<le> e"
proof -
  have "real e / PHI + 1 / 2 < real e + 1"
    using assms by (simp add: PHI_def field_simps)
  then have "\<lfloor>real e / PHI + 1 / 2\<rfloor> \<le> int e"
    by (simp add: floor_le_iff)
  then show "max (nat (round_away (real e / PHI))) 1 \<le> e"
    using assms by (simp add: round_away_def PHI_def)
qed simp

lemma coprime_stride_ok:
  assumes "2 \<le> e"
  shows "1 \<le> coprime_stride e" "coprime_stride e < e" "coprime (coprime_stride e) e"
proof -
  let ?P = "\<lambda>c. 1 \<le> c \<and> c < e \<and> gcd_loop c e = 1"
  define ideal where "ideal = max (nat (round_away (real e / PHI))) 1"
  have i: "1 \<le> ideal" "ideal \<le> e"
    using ideal_bounds [OF assms] by (simp_all add: ideal_def)
  have "wrapping_sub ideal (ideal - 1) = 1"
    using i by (simp add: wrapping_sub_def)
  moreover have "wrapping_sub ideal (ideal - 1) \<in> set (stride_candidates ideal e)"
    using i by (force simp: stride_candidates_def)
  moreover have "?P 1"
    using assms by (simp add: gcd_loop_gcd)
  ultimately have "find ?P (stride_candidates ideal e) \<noteq> None"
    unfolding find_None_iff by metis
  then obtain c where c: "find ?P (stride_candidates ideal e) = Some c"
    by blast
  then have "?P c"
    unfolding find_Some_iff by blast
  moreover have "coprime_stride e = c"
    using assms c unfolding coprime_stride_def Let_def ideal_def [symmetric] by simp
  ultimately show "1 \<le> coprime_stride e" "coprime_stride e < e" "coprime (coprime_stride e) e"
    by (simp_all add: gcd_loop_gcd coprime_iff_gcd_eq_1)
qed

lemma stride_permutation_ok:
  assumes "coprime s n"
  shows "distinct (stride_permutation n s)" "set (stride_permutation n s) = {..<n}" "length (stride_permutation n s) = n"
proof -
  have "inj_on (\<lambda>k. k * s mod n) {0..<n}"
  proof (rule inj_onI)
    fix i j
    assume ij: "i \<in> {0..<n}" "j \<in> {0..<n}" "i * s mod n = j * s mod n"
    have dvd: "a = b" if "b \<le> a" "a < n" "a * s mod n = b * s mod n" for a b
    proof -
      have "n dvd (a - b) * s"
        using that by (simp add: mod_eq_dvd_iff_nat diff_mult_distrib)
      then have "n dvd a - b"
        using assms by (metis coprime_commute coprime_dvd_mult_left_iff)
      moreover have "a - b < n"
        using that(2) by simp
      ultimately have "a - b = 0"
        using nat_dvd_not_less by blast
      with that(1) show ?thesis
        by simp
    qed
    show "i = j"
      using dvd [of i j] dvd [of j i] ij by (metis atLeastLessThan_iff nat_le_linear)
  qed
  then show d: "distinct (stride_permutation n s)"
    by (simp add: stride_permutation_def distinct_map)
  show l: "length (stride_permutation n s) = n"
    by (simp add: stride_permutation_def)
  have "set (stride_permutation n s) \<subseteq> {..<n}"
    by (cases "n = 0") (auto simp: stride_permutation_def)
  moreover have "card (set (stride_permutation n s)) = n"
    using d l distinct_card by fastforce
  ultimately show "set (stride_permutation n s) = {..<n}"
    by (intro card_subset_eq) auto
qed

section \<open>Interleaving\<close>

lemma scatter_nth:
  assumes "distinct perm" and "length bs \<le> length perm" and "\<forall>p\<in>set perm. p < length out"
  shows "length (foldl (\<lambda>out (k, b). out[perm ! k := f k b]) out (enumerate 0 bs)) = length out \<and>
    (\<forall>k<length bs. foldl (\<lambda>out (k, b). out[perm ! k := f k b]) out (enumerate 0 bs) ! (perm ! k) = f k (bs ! k))"
  using assms(2)
proof (induction bs rule: rev_induct)
  case (snoc b bs)
  then have b: "length bs < length perm"
    by simp
  with assms(3) have p: "perm ! length bs < length out"
    by simp
  have "perm ! length bs \<noteq> perm ! k" if "k < length bs" for k
    using that b assms(1) by (simp add: nth_eq_iff_index_eq)
  with snoc b p show ?case
    by (auto simp: enumerate_append_eq nth_append less_Suc_eq)
qed simp

lemma interleave_nth:
  assumes "distinct perm" "set perm = {..<n}" "length perm = n" "length bs = n"
  shows "length (interleave n perm bs) = n" "k < n \<Longrightarrow> interleave n perm bs ! (perm ! k) = bs ! k"
  using scatter_nth [of perm bs "replicate n 0" "\<lambda>_ b. b"] assms by (simp_all add: interleave_def)

lemma inverse_of_nth:
  assumes "distinct perm" "set perm = {..<length perm}" "k < length perm"
  shows "inverse_of perm ! (perm ! k) = k"
proof -
  have "foldl (\<lambda>inv (k, p). inv[p := k]) out (enumerate n xs) =
    foldl (\<lambda>inv (k, p). inv[perm ! k := k]) out (enumerate n xs)"
    if "\<forall>i<length xs. perm ! (n + i) = xs ! i" for out n xs
    using that
  proof (induction xs arbitrary: out n)
    case (Cons x xs)
    have "perm ! n = x"
      using Cons.prems by force
    moreover have "\<forall>i<length xs. perm ! (Suc n + i) = xs ! i"
      using Cons.prems by fastforce
    ultimately show ?case
      using Cons.IH [of "Suc n"] by simp
  qed simp
  from this [of perm 0] scatter_nth [of perm perm "replicate (length perm) 0" "\<lambda>k _. k"] assms
  show ?thesis
    by (simp add: inverse_of_def)
qed

section \<open>Bits and bytes\<close>

lemma length_bits_of_bytes [simp]: "length (bits_of_bytes bs) = 8 * length bs"
  by (induction bs) (simp_all add: bits_of_bytes_def)

lemma bits_of_bytes_01: "set (bits_of_bytes bs) \<subseteq> {0, 1}"
  by (auto simp: bits_of_bytes_def and_one_eq mod_2_eq_odd)

lemma bit_push_in: "bit (push_in x b) n \<longleftrightarrow> (if n = 0 then odd b else n < 8 \<and> bit x (n - 1))"
  unfolding push_in_def bit_or_iff bit_push_bit_iff bit_and_iff bit_1_iff
  by (cases n) (auto simp: bit_0)

lemma bit_fold_push_in:
  "length bs \<le> 8 \<Longrightarrow> bit (foldl push_in 0 bs) n \<longleftrightarrow> n < length bs \<and> odd (bs ! (length bs - 1 - n))"
proof (induction bs arbitrary: n rule: rev_induct)
  case (snoc b bs)
  have IH: "bit (foldl push_in 0 bs) m \<longleftrightarrow> m < length bs \<and> odd (bs ! (length bs - 1 - m))" for m
    using snoc by simp
  show ?case
    using snoc.prems by (cases n) (auto simp: bit_push_in IH nth_append)
qed simp

lemma and_1_bit: "x AND 1 = (if odd x then 1 else (0 :: u8))"
  by (simp add: and_one_eq mod_2_eq_odd)

lemma unfold_bits: "length bs = 8 \<Longrightarrow> set bs \<subseteq> {0, 1} \<Longrightarrow> map (\<lambda>s. drop_bit s (foldl push_in 0 bs) AND 1) (rev [0..<8]) = bs"
proof (rule nth_equalityI)
  fix i
  assume len: "length bs = 8" and "set bs \<subseteq> {0, 1}" and "i < length (map (\<lambda>s. drop_bit s (foldl push_in 0 bs) AND 1) (rev [0..<8]))"
  then have i: "i < 8"
    by simp
  then have "bs ! i \<in> {0, 1}"
    using len \<open>set bs \<subseteq> {0, 1}\<close> nth_mem [of i bs] by (metis subsetD)
  then have b: "bs ! i = 0 \<or> bs ! i = 1"
    by blast
  have "odd (drop_bit (7 - i) (foldl push_in 0 bs)) \<longleftrightarrow> odd (bs ! i)"
    using i len bit_fold_push_in [of bs "7 - i"] by (simp add: bit_iff_odd_drop_bit [symmetric] less_imp_diff_less)
  with i b show "map (\<lambda>s. drop_bit s (foldl push_in 0 bs) AND 1) (rev [0..<8]) ! i = bs ! i"
    by (auto simp: and_1_bit rev_nth)
qed simp

lemma fold_byte: "foldl push_in 0 (map (\<lambda>s. drop_bit s x AND 1) (rev [0..<8])) = (x :: u8)"
proof (rule bit_eqI)
  fix n
  show "bit (foldl push_in 0 (map (\<lambda>s. drop_bit s x AND 1) (rev [0..<8]))) n = bit x n"
    using bit_imp_le_length [of x n]
    by (auto simp: bit_fold_push_in and_1_bit rev_nth bit_iff_odd_drop_bit [symmetric])
qed

lemma chunks_exact_map:
  "(\<And>x. length (f x) = n) \<Longrightarrow> 0 < n \<Longrightarrow> chunks_exact n (concat (map f xs)) = map f xs"
proof (induction xs)
  case Nil
  then show ?case
    by (subst chunks_exact.simps) simp
next
  case (Cons x xs)
  then show ?case
    by (subst chunks_exact.simps) simp
qed

lemma bytes_of_bits_of_bytes: "bytes_of_bits (bits_of_bytes bs) = bs"
  unfolding bytes_of_bits_def bits_of_bytes_def
  by (subst chunks_exact_map) (simp_all add: o_def fold_byte del: upt_rec_numeral)

section \<open>The coded block\<close>

lemma length_attach: "length (attach c bs) = length bs + crc_width c"
  by (simp add: attach_def)

lemma resize_longer: "length xs \<le> n \<Longrightarrow> length (resize n v xs) = n \<and> take (length xs) (resize n v xs) = xs"
  by (simp add: resize_def)

text \<open>A code a block of \<open>info\<close> bits fits, as the codecs choose it.\<close>

definition block_fits :: "fec_code \<Rightarrow> nat \<Rightarrow> bool" where
  "block_fits code info \<longleftrightarrow> code_ok code \<and> 2 * fc_z code \<le> info \<and> info \<le> fc_k code"

lemma coded_block_ok:
  assumes fits: "block_fits code info" and info: "info = 8 * length payload + 24" and rv: "\<not> rv > 3"
  obtains cw m where "coded_block code info n payload rv = Some (match_bits m cw)"
    and "matcher_new code info n rv = Some (Inr m)" and "length cw = fc_n_full code"
    and "syndrome_ok code cw = Inr True" and "take info cw = attach CRC24A (bits_of_bytes payload)"
    and "match_bits m cw = Inr (map (\<lambda>p. cw ! (rm_two_z m + p)) (rm_positions m))"
    and "\<forall>i. info \<le> i \<and> i < fc_k code \<longrightarrow> cw ! i = 0" and "set cw \<subseteq> {0, 1}"
proof -
  have ok: "code_ok code" and k: "2 * fc_z code \<le> info" "info \<le> fc_k code"
    using fits by (simp_all add: block_fits_def)
  let ?crc = "attach CRC24A (bits_of_bytes payload)"
  have len: "length ?crc = info"
    by (simp add: length_attach info CRC24A_def)
  have r: "length (resize (fc_k code) 0 ?crc) = fc_k code" "take info (resize (fc_k code) 0 ?crc) = ?crc"
    using resize_longer [of ?crc "fc_k code" 0] k len by auto
  obtain cw where cw: "fec_encode code (resize (fc_k code) 0 ?crc) = Inr cw" "length cw = fc_n_full code"
    "take (fc_k code) cw = resize (fc_k code) 0 ?crc" "syndrome_ok code cw = Inr True"
    using encode_correct [OF ok r(1)] by blast
  obtain m where m: "matcher_new code info n rv = Some (Inr m)"
    using matcher_new_eq [OF ok rv k] by blast
  note mo = matcher_new_ok [OF ok m]
  have t: "take info cw = ?crc"
    using arg_cong [OF cw(3), of "take info"] k(2) r(2) by (simp add: min_absorb1)
  have "match_bits m cw = Inr (map (\<lambda>p. cw ! (rm_two_z m + p)) (rm_positions m))"
    using mo(1,2) cw(2) by (auto simp: match_bits_def matcher_ok_def Let_def)
  moreover have "coded_block code info n payload rv = Some (match_bits m cw)"
    by (simp add: coded_block_def Let_def cw(1) m)
  moreover have "cw ! i = 0" if "info \<le> i" "i < fc_k code" for i
    using arg_cong [OF cw(3), of "\<lambda>w. w ! i"] that len by (simp add: resize_def nth_append)
  moreover have "set cw \<subseteq> {0, 1}"
  proof (rule codeword_bits [OF ok cw(2,4)])
    have "set (resize (fc_k code) 0 ?crc) \<subseteq> set ?crc \<union> {0}"
      using set_take_subset by (fastforce simp: resize_def)
    moreover have "set ?crc \<subseteq> {0, 1}"
      using attach_bits [OF crc_ok_constants(1) bits_of_bytes_01] .
    ultimately show "set (take (fc_k code) cw) \<subseteq> {0, 1}"
      unfolding cw(3) by blast
  qed
  ultimately show thesis
    using that m cw(2,4) t by blast
qed

text \<open>The part of a codec that both families share: the block, its code and the interleaver.\<close>

definition codec_core :: "frame_codec \<Rightarrow> bool" where
  "codec_core c \<longleftrightarrow>
     block_fits (cd_code c) (cd_info_bits c) \<and> cd_info_bits c = 8 * cd_payload_bytes c + 24 \<and>
     distinct (cd_permutation c) \<and> set (cd_permutation c) = {..<cd_coded_bits c} \<and>
     length (cd_permutation c) = cd_coded_bits c"

text \<open>A codec as \<open>codec_new\<close> builds it.\<close>

definition codec_ok :: "frame_codec \<Rightarrow> bool" where
  "codec_ok c \<longleftrightarrow> codec_core c \<and>
     cd_constellation c = constellation_new (md_modulation (cd_mode c)) \<and>
     cd_coded_bits c = coded_bits (cd_mode c) (cd_layout c) \<and> cd_inverse c = inverse_of (cd_permutation c)"

lemma codec_ok_core: "codec_ok c \<Longrightarrow> codec_core c"
  by (simp add: codec_ok_def)

lemma encode_bits_ok:
  assumes c: "codec_core c" and len: "length payload = cd_payload_bytes c" and rv: "\<not> rv > 3"
  obtains cw m bits where "encode_bits c payload rv = Some (Inr bits)" and "length bits = cd_coded_bits c"
    and "matcher_new (cd_code c) (cd_info_bits c) (cd_coded_bits c) rv = Some (Inr m)"
    and "length cw = fc_n_full (cd_code c)" and "syndrome_ok (cd_code c) cw = Inr True"
    and "take (cd_info_bits c) cw = attach CRC24A (bits_of_bytes payload)"
    and "match_bits m cw = Inr (map (\<lambda>k. bits ! (cd_permutation c ! k)) [0..<cd_coded_bits c])"
    and "\<forall>k<cd_coded_bits c. bits ! (cd_permutation c ! k) = cw ! (rm_two_z m + rm_positions m ! k)"
    and "\<forall>i. cd_info_bits c \<le> i \<and> i < fc_k (cd_code c) \<longrightarrow> cw ! i = 0" and "set bits \<subseteq> {0, 1}"
    and "set cw \<subseteq> {0, 1}"
proof -
  have fits: "block_fits (cd_code c) (cd_info_bits c)" and info: "cd_info_bits c = 8 * length payload + 24"
    and perm: "distinct (cd_permutation c)" "set (cd_permutation c) = {..<cd_coded_bits c}"
      "length (cd_permutation c) = cd_coded_bits c"
    using c len unfolding codec_core_def by (blast, simp, blast+)
  obtain cw m where b: "coded_block (cd_code c) (cd_info_bits c) (cd_coded_bits c) payload rv = Some (match_bits m cw)"
    "matcher_new (cd_code c) (cd_info_bits c) (cd_coded_bits c) rv = Some (Inr m)"
    "length cw = fc_n_full (cd_code c)" "syndrome_ok (cd_code c) cw = Inr True"
    "take (cd_info_bits c) cw = attach CRC24A (bits_of_bytes payload)"
    "match_bits m cw = Inr (map (\<lambda>p. cw ! (rm_two_z m + p)) (rm_positions m))"
    "\<forall>i. cd_info_bits c \<le> i \<and> i < fc_k (cd_code c) \<longrightarrow> cw ! i = 0" "set cw \<subseteq> {0, 1}"
    by (rule coded_block_ok [OF fits info rv])
  let ?sel = "map (\<lambda>p. cw ! (rm_two_z m + p)) (rm_positions m)"
  have l: "length ?sel = cd_coded_bits c"
    using matcher_new_ok(1,3) [of "cd_code c" _ _ rv m] b(2) fits by (auto simp: block_fits_def matcher_ok_def)
  note i = interleave_nth [OF perm l]
  have e: "encode_bits c payload rv = Some (Inr (interleave (cd_coded_bits c) (cd_permutation c) ?sel))"
    by (simp add: encode_bits_def len b(1,6))
  have s: "?sel = map (\<lambda>k. interleave (cd_coded_bits c) (cd_permutation c) ?sel ! (cd_permutation c ! k)) [0..<cd_coded_bits c]"
    using l i(2) by (intro nth_equalityI) auto
  have mo: "rm_n_full m = fc_n_full (cd_code c)" "matcher_ok m"
    using matcher_new_ok [of "cd_code c" _ _ rv m] b(2) fits by (auto simp: block_fits_def)
  have sel: "cw ! (rm_two_z m + p) \<in> {0, 1}" if "p \<in> set (rm_positions m)" for p
  proof -
    have "rm_two_z m + p < length cw"
      using mo b(3) that by (auto simp: matcher_ok_def)
    then show ?thesis
      using b(8) nth_mem by blast
  qed
  let ?bits = "interleave (cd_coded_bits c) (cd_permutation c) ?sel"
  have "?bits ! j \<in> {0, 1}" if "j < cd_coded_bits c" for j
  proof -
    have "j \<in> set (cd_permutation c)"
      using perm(2) that by simp
    then obtain k where k: "k < cd_coded_bits c" "cd_permutation c ! k = j"
      unfolding in_set_conv_nth perm(3) by blast
    have "?bits ! (cd_permutation c ! k) = ?sel ! k"
      by (rule i(2) [OF k(1)])
    moreover have "?sel ! k \<in> {0, 1}"
    proof -
      have "k < length (rm_positions m)"
        using l k(1) by simp
      then show ?thesis
        using sel [OF nth_mem] by (simp only: nth_map)
    qed
    ultimately show ?thesis
      unfolding k(2) by simp
  qed
  then have b01: "set ?bits \<subseteq> {0, 1}"
    unfolding set_conv_nth i(1) by blast
  show thesis
    by (rule that [OF e i(1) b(2-5)]) (use b(6,7,8) s i(2) l b01 in auto)
qed

section \<open>What a decoder accepts\<close>

lemma read_block_sound:
  assumes "read_block bits = Some payload" and "set bits \<subseteq> {0, 1}" and "length bits = 8 * n + 24"
  shows "length payload = n" and "bits = attach CRC24A (bits_of_bytes payload)" and "1 \<in> set bits"
proof -
  let ?d = "take (8 * n) bits"
  from assms(1) have chk: "check CRC24A bits" and nz: "\<exists>b\<in>set bits. b \<noteq> 0" and p: "payload = bytes_of_bits ?d"
    using assms(3) by (auto simp: read_block_def CRC24A_def split: if_splits)
  have len: "length ?d mod 8 = 0" "length ?d = 8 * n"
    using assms(3) by simp_all
  note cc = concat_chunks [OF len(1), simplified]
  have "bits_of_bytes payload = ?d"
  proof -
    have "map (\<lambda>shift. drop_bit shift (foldl push_in 0 chunk) AND 1) (rev [0..<8]) = chunk"
      if "chunk \<in> set (chunks_exact 8 ?d)" for chunk :: bytes
    proof -
      have l: "length chunk = 8"
        using cc that by blast
      have "set chunk \<subseteq> set (concat (chunks_exact 8 ?d))"
        using that by auto
      then have "set chunk \<subseteq> set bits"
        using cc set_take_subset by (metis order_trans)
      then show ?thesis
        using unfold_bits [OF l] assms(2) by blast
    qed
    then have "map (\<lambda>byte. map (\<lambda>shift. drop_bit shift byte AND 1) (rev [0..<8])) (map (\<lambda>chunk. foldl push_in 0 chunk) (chunks_exact 8 ?d)) = chunks_exact 8 ?d"
      unfolding map_map by (intro map_idI) simp
    with cc show ?thesis
      unfolding p bits_of_bytes_def bytes_of_bits_def by simp
  qed
  note bb = this
  then show "length payload = n"
    using len(2) by (metis length_bits_of_bytes mult_left_cancel zero_neq_numeral)
  have "drop (8 * n) bits = remainder CRC24A ?d"
    using chk assms(3) by (simp add: check_def CRC24A_def Let_def)
  then show "bits = attach CRC24A (bits_of_bytes payload)"
    unfolding bb attach_def by (metis append_take_drop_id)
  show "1 \<in> set bits"
    using nz assms(2) by auto
qed

section \<open>The codec exists for every mode\<close>

text \<open>Half of every lifting size, or more, is a lifting size or less than two.\<close>

lemma lifting_dense:
  assumes "z \<in> set all_lifting_sizes"
  shows "z = 2 \<or> (\<exists>z'\<in>set all_lifting_sizes. z' < z \<and> z \<le> 2 * z')"
proof -
  have "list_all (\<lambda>z. z = 2 \<or> list_ex (\<lambda>z'. z' < z \<and> z \<le> 2 * z') (concat LIFTING_SETS)) (concat LIFTING_SETS)"
    by (simp add: LIFTING_SETS_def)
  with assms show ?thesis
    by (auto simp: list_all_iff list_ex_iff sorted_lifting_sizes simp del: set_concat)
qed

lemma kb_for_range: "6 \<le> kb_for bg n" "bg = 1 \<Longrightarrow> kb_for bg n = 22" "bg \<noteq> 1 \<Longrightarrow> kb_for bg n \<le> 10"
  by (simp_all add: kb_for_def)

lemma selected_size:
  assumes "select_lifting_size bg n = Inr z" and "4 \<le> n"
  shows "z \<in> set all_lifting_sizes" "n \<le> (if bg = 1 then 22 else 10) * z" "2 * z \<le> n"
proof -
  have s: "z \<in> set all_lifting_sizes" "n \<le> kb_for bg n * z"
    "\<forall>z'\<in>set all_lifting_sizes. z' < z \<longrightarrow> kb_for bg n * z' < n"
    using select_lifting_size_cases [where bg = bg and n = n] assms(1) by auto
  show "z \<in> set all_lifting_sizes"
    by (rule s(1))
  have "kb_for bg n \<le> (if bg = 1 then 22 else 10)"
    using kb_for_range(2,3) by (cases "bg = 1") auto
  then have "kb_for bg n * z \<le> (if bg = 1 then 22 else 10) * z"
    by (rule mult_right_mono) simp
  with s(2) show "n \<le> (if bg = 1 then 22 else 10) * z"
    by (rule order_trans)
  show "2 * z \<le> n"
  proof (cases "z = 2")
    case False
    then obtain z' where z': "z' \<in> set all_lifting_sizes" "z' < z" "z \<le> 2 * z'"
      using lifting_dense [OF s(1)] by blast
    have "6 * z' \<le> kb_for bg n * z'"
      using kb_for_range(1) by (rule mult_right_mono) simp
    moreover have "kb_for bg n * z' < n"
      using s(3) z'(1,2) by blast
    ultimately show ?thesis
      using z'(3) by linarith
  qed (use assms(2) in simp)
qed

text \<open>A mode's block fits its code when the base graph is large enough for it.\<close>

definition mode_fits :: "mode \<Rightarrow> frame_layout \<Rightarrow> bool" where
  "mode_fits m l \<longleftrightarrow>
     2 \<le> coded_bits m l \<and>
     (case (info_bits m l, mode_base_graph m l) of
        (Some info, Some bg) \<Rightarrow> info \<le> kb_for bg info * 384 | _ \<Rightarrow> False)"

lemma info_bits_payload:
  "info_bits m l = Some info \<Longrightarrow> \<exists>n. payload_bytes m l = Some n \<and> info = 8 * n + 24"
  by (auto simp: info_bits_def payload_bytes_def checked_sub_def Let_def split: option.splits if_splits)

lemma select_base_graph_12: "select_base_graph n r = 1 \<or> select_base_graph n r = 2"
  by (simp add: select_base_graph_def)

context base_graphs
begin

text \<open>A block that is not too long for its base graph has a code, the smallest it fits.\<close>

lemma code_for_block:
  assumes b12: "bg = 1 \<or> bg = 2" and "4 \<le> info" and le: "info \<le> kb_for bg info * 384"
  obtains z code where "select_lifting_size bg info = Inr z" and "code_new bg1 bg2 bg z = Some (Inr code)"
    and "fc_z code = z" and "block_fits code info"
proof -
  obtain z where z: "select_lifting_size bg info = Inr z"
    using select_lifting_size_cases [where bg = bg and n = info] le by (cases "select_lifting_size bg info") auto
  note sz = selected_size [OF z assms(2)]
  obtain code where code: "code_new bg1 bg2 bg z = Some (Inr code)" "code_ok code" "fc_z code = z"
    "fc_kb code = (if bg = 1 then 22 else 10)"
    using code_new_ok [OF b12 sz(1)] by metis
  have k: "fc_k code = (if bg = 1 then 22 else 10) * z"
    using code_okD(4) [OF code(2)] code(3,4) by simp
  then have "info \<le> fc_k code"
    using sz(2) by simp
  then have "block_fits code info"
    using code(2,3) sz(3) by (simp add: block_fits_def)
  with that z code(1,3) show thesis
    by blast
qed

lemma codec_new_ok:
  assumes "mode_fits m l"
  obtains c where "codec_new bg1 bg2 m l = Some (Inr c)" and "codec_ok c" and "cd_mode c = m" and "cd_layout c = l"
proof -
  obtain info bg where i: "info_bits m l = Some info" and bg: "mode_base_graph m l = Some bg"
    and le: "info \<le> kb_for bg info * 384" and two: "2 \<le> coded_bits m l"
    using assms by (auto simp: mode_fits_def split: option.splits)
  obtain n where n: "payload_bytes m l = Some n" "info = 8 * n + 24"
    using info_bits_payload [OF i] by blast
  have "4 \<le> info"
    using n by simp
  moreover have "bg = 1 \<or> bg = 2"
    using bg select_base_graph_12 by (auto simp: mode_base_graph_def)
  ultimately obtain z code where z: "select_lifting_size bg info = Inr z"
    and code: "code_new bg1 bg2 bg z = Some (Inr code)" and fits: "block_fits code info"
    using code_for_block le by blast
  have "info \<le> fc_k code"
    using fits by (simp add: block_fits_def)
  let ?perm = "stride_permutation (coded_bits m l) (coprime_stride (coded_bits m l))"
  let ?c = "\<lparr>cd_mode = m, cd_layout = l, cd_payload_bytes = n, cd_info_bits = info,
    cd_coded_bits = coded_bits m l, cd_code = code, cd_constellation = constellation_new (md_modulation m),
    cd_permutation = ?perm, cd_inverse = inverse_of ?perm, cd_stride = coprime_stride (coded_bits m l)\<rparr>"
  note perm = stride_permutation_ok [OF coprime_stride_ok(3) [OF two]]
  have "codec_new bg1 bg2 m l = Some (Inr ?c)"
    using \<open>info \<le> fc_k code\<close> by (simp add: codec_new_def i n(1) bg lifting_size_def z code Let_def)
  moreover have "codec_ok ?c"
    using fits n(2) perm by (simp add: codec_ok_def codec_core_def)
  ultimately show thesis
    using that by simp
qed

end

definition table_modes :: "(mode \<times> frame_layout) list" where
  "table_modes = map (\<lambda>m. (m, LONG)) MODES @ map (\<lambda>m. (m, SHORT)) MODES @
     map (\<lambda>m. (m, NARROW_LONG)) NARROW_MODES @ map (\<lambda>m. (m, NARROW_SHORT)) (tl NARROW_MODES)"

lemma wide_modes_fit: "list_all (\<lambda>m. mode_fits m LONG \<and> mode_fits m SHORT) MODES"
  by (simp add: MODES_def mode_fits_def mode_base_graph_def payload_bytes_def info_bits_def coded_bits_def
      mk_mode_def checked_sub_def select_base_graph_def code_rate_def kb_for_def)

lemma narrow_modes_fit:
  "list_all (\<lambda>m. mode_fits m NARROW_LONG) NARROW_MODES" "list_all (\<lambda>m. mode_fits m NARROW_SHORT) (tl NARROW_MODES)"
  by (simp_all add: NARROW_MODES_def mode_fits_def mode_base_graph_def payload_bytes_def info_bits_def coded_bits_def
      mk_mode_def checked_sub_def select_base_graph_def code_rate_def kb_for_def)

lemma table_modes_fit: "(m, l) \<in> set table_modes \<Longrightarrow> mode_fits m l"
  using wide_modes_fit narrow_modes_fit by (auto simp: table_modes_def list_all_iff)

text \<open>The one combination of the tables that has no codec: too few bits for the checksum.\<close>

lemma narrow_0_short: "info_bits (NARROW_MODES ! 0) NARROW_SHORT = None"
  by (simp add: NARROW_MODES_def info_bits_def coded_bits_def mk_mode_def checked_sub_def)

section \<open>A frame received as it was sent\<close>

lemma attach_zeros:
  assumes "crc_ok c"
  shows "attach c (replicate n 0) = replicate (n + crc_width c) 0"
proof -
  have "crc_feed c (crc_feed c 0 (replicate n 0)) (replicate (crc_width c) 0) = 0"
    using crc_feed_zeros [OF assms small_0] by simp
  then have "remainder c (replicate n 0) = replicate (crc_width c) 0"
    using remainder_nth [OF assms] by (intro nth_equalityI) simp_all
  then show ?thesis
    by (simp add: attach_def replicate_add)
qed

lemma bits_of_zero_bytes: "(\<forall>b\<in>set bs. b = 0) \<Longrightarrow> bits_of_bytes bs = replicate (8 * length bs) 0"
proof -
  assume "\<forall>b\<in>set bs. b = 0"
  then have "set (bits_of_bytes bs) \<subseteq> {0}"
    by (auto simp: bits_of_bytes_def)
  then show ?thesis
    by (metis length_bits_of_bytes replicate_eqI singletonD subsetD)
qed

lemma coded_nonzero:
  assumes "1 \<in> set (attach CRC24A (bits_of_bytes payload))"
  shows "\<exists>b\<in>set payload. b \<noteq> 0"
proof (rule ccontr)
  assume "\<not> (\<exists>b\<in>set payload. b \<noteq> 0)"
  with bits_of_zero_bytes have "bits_of_bytes payload = replicate (8 * length payload) 0"
    by blast
  with assms attach_zeros [OF crc_ok_constants(1)] show False
    by simp
qed

lemma length_chunks: "0 < n \<Longrightarrow> length (chunks_exact n xs) = length xs div n"
proof (induction n xs rule: chunks_exact.induct)
  case (1 n xs)
  show ?case
  proof (cases "n \<le> length xs")
    case True
    then have "length (chunks_exact n xs) = Suc (length (chunks_exact n (drop n xs)))"
      using 1(2) by (subst chunks_exact.simps) simp
    also have "\<dots> = Suc ((length xs - n) div n)"
      using 1 True by simp
    also have "\<dots> = length xs div n"
      using True 1(2) by (simp add: le_div_geq)
    finally show ?thesis .
  next
    case False
    then show ?thesis
      by (subst chunks_exact.simps) simp
  qed
qed

lemma codec_encode_ok:
  assumes c: "codec_ok c" and len: "length payload = cd_payload_bytes c" and rv: "\<not> rv > 3"
  shows "\<exists>symbols. codec_encode c payload rv = Some (Inr symbols) \<and> length symbols = qam_symbols (cd_layout c)"
proof -
  obtain bits where b: "encode_bits c payload rv = Some (Inr bits)" "length bits = cd_coded_bits c"
    by (rule encode_bits_ok [OF codec_ok_core [OF c] len rv])
  have cn: "cd_constellation c = constellation_new (md_modulation (cd_mode c))"
    and n: "cd_coded_bits c = coded_bits (cd_mode c) (cd_layout c)"
    using c unfolding codec_ok_def codec_core_def by blast+
  have "0 < bits_per_symbol (md_modulation (cd_mode c))"
    by (cases "md_modulation (cd_mode c)") simp_all
  then show ?thesis
    by (simp add: codec_encode_def b map_bits_def cn n coded_bits_def length_chunks)
qed

lemma codec_encode_refuses:
  assumes c: "codec_ok c" and bad: "\<not> (length payload = cd_payload_bytes c \<and> rv \<le> 3)"
  shows "\<exists>e. codec_encode c payload rv = Some (Inl e)"
proof (cases "length payload = cd_payload_bytes c")
  case True
  have ok: "code_ok (cd_code c)"
    using c by (simp add: codec_ok_def codec_core_def block_fits_def)
  have "length (resize (fc_k (cd_code c)) 0 xs) = fc_k (cd_code c)" for xs :: bytes
    by (simp add: resize_def)
  from encode_correct [OF ok this] obtain cw where
    "fec_encode (cd_code c) (resize (fc_k (cd_code c)) 0 (attach CRC24A (bits_of_bytes payload))) = Inr cw"
    by blast
  moreover have "rv > 3"
    using True bad by (simp add: not_le)
  ultimately show ?thesis
    using True by (simp add: codec_encode_def encode_bits_def coded_block_def matcher_new_def)
qed (simp add: codec_encode_def encode_bits_def)

lemma those_all: "(\<And>x. x \<in> set xs \<Longrightarrow> \<exists>v. f x = Some v \<and> P x v) \<Longrightarrow> \<exists>vs. those (map f xs) = Some vs \<and> list_all2 P xs vs"
proof (induction xs)
  case (Cons x xs)
  then obtain v vs where "f x = Some v" "P x v" "those (map f xs) = Some vs" "list_all2 P xs vs"
    by (metis list.set_intros)
  then show ?case
    by simp
qed simp

lemma llr_map_bits:
  assumes "set bs \<subseteq> {0, 1}" and "map_bits (constellation_new modu) bs = Some symbols" and "0 < nv"
  shows "\<exists>vs. llr (constellation_new modu) symbols (Uniform nv) = Some vs \<and> list_all2 agrees vs bs"
proof -
  define m where "m = bits_per_symbol modu"
  have m: "0 < m"
    by (cases modu) (simp_all add: m_def)
  define c where "c = constellation_new modu"
  define chunks where "chunks = chunks_exact m bs"
  from assms(2) have len: "length bs mod m = 0"
    and sy: "symbols = map (\<lambda>chunk. points_for modu ! symbol_index chunk) chunks"
    by (auto simp: map_bits_def m_def chunks_def split: if_splits)
  have cc: "concat chunks = bs" "\<forall>ch\<in>set chunks. length ch = m"
    using concat_chunks [OF len m] by (simp_all add: chunks_def)
  have "concat (map (\<lambda>(i, y). map (llr_at c y (noise_at (Uniform nv) i)) [0..<m]) (enumerate 0 symbols)) =
    concat (map (\<lambda>y. map (llr_at c y nv) [0..<m]) symbols)"
    by (simp add: map_enumerate) (simp add: list_eq_iff_nth_eq [of "map _ [0..<length symbols]"] map_nth [symmetric]
        arg_cong [of "map _ [0..<length symbols]" "map _ symbols" concat] nth_equalityI)
  also have "\<dots> = map (\<lambda>(ch, i). llr_at c (points_for modu ! symbol_index ch) nv i) (concat (map (\<lambda>ch. map (Pair ch) [0..<m]) chunks))"
    by (simp add: sy map_concat o_def)
  finally have e: "llr c symbols (Uniform nv) = those (map (\<lambda>(ch, i). llr_at c (points_for modu ! symbol_index ch) nv i)
      (concat (map (\<lambda>ch. map (Pair ch) [0..<m]) chunks)))"
    by (simp add: llr_def c_def m_def)
  have "\<exists>vs. those (map (\<lambda>(ch, i). llr_at c (points_for modu ! symbol_index ch) nv i)
      (concat (map (\<lambda>ch. map (Pair ch) [0..<m]) chunks))) = Some vs \<and>
    list_all2 (\<lambda>(ch, i) v. agrees v (ch ! i)) (concat (map (\<lambda>ch. map (Pair ch) [0..<m]) chunks)) vs"
  proof (rule those_all)
    fix p
    assume "p \<in> set (concat (map (\<lambda>ch. map (Pair ch) [0..<m]) chunks))"
    then obtain ch i where p: "p = (ch, i)" "ch \<in> set chunks" "i < m"
      by auto
    have "set ch \<subseteq> set (concat chunks)"
      using p(2) by auto
    then have b: "set ch \<subseteq> {0, 1}"
      using assms(1) cc(1) by simp
    have l: "length ch = m"
      using cc(2) p(2) by blast
    have "symbol_index ch < 2 ^ m"
      using symbol_index_less [of ch] l by simp
    from llr_clean [OF this [unfolded m_def] p(3) [unfolded m_def] assms(3)] bits_of_symbol_index [OF b] l
    show "\<exists>v. (case p of (ch, i) \<Rightarrow> llr_at c (points_for modu ! symbol_index ch) nv i) = Some v \<and>
      (case p of (ch, i) \<Rightarrow> \<lambda>v. agrees v (ch ! i)) v"
      by (simp add: p(1) c_def m_def)
  qed
  then obtain vs where vs: "llr c symbols (Uniform nv) = Some vs"
    "list_all2 (\<lambda>(ch, i) v. agrees v (ch ! i)) (concat (map (\<lambda>ch. map (Pair ch) [0..<m]) chunks)) vs"
    unfolding e by blast
  have "map (\<lambda>(ch, i). ch ! i) (concat (map (\<lambda>ch. map (Pair ch) [0..<m]) chunks)) = concat (map (\<lambda>ch. map (\<lambda>i. ch ! i) [0..<m]) chunks)"
    by (simp add: map_concat o_def)
  also have "\<dots> = concat chunks"
    using cc(2) by (intro arg_cong [of _ _ concat] map_idI) (metis map_nth)
  finally have "map (\<lambda>(ch, i). ch ! i) (concat (map (\<lambda>ch. map (Pair ch) [0..<m]) chunks)) = bs"
    using cc(1) by simp
  then have "list_all2 (\<lambda>v b. agrees v b) vs bs"
    using vs(2) by (auto simp: list_all2_conv_all_nth split: prod.splits)
  with vs(1) show ?thesis
    by (auto simp: c_def)
qed

text \<open>The coded bits are bits.\<close>

lemma mult_mod: "(a * m :: nat) mod m = 0"
  by simp

lemma agrees_deinterleave:
  assumes "list_all2 agrees vs bits" and "length bits = n" and "set perm = {..<n}" and "length perm = n"
  shows "list_all2 agrees (map (\<lambda>k. vs ! (perm ! k)) [0..<n]) (map (\<lambda>k. bits ! (perm ! k)) [0..<n])"
proof -
  have "perm ! k < n" if "k < n" for k
    using assms(3,4) nth_mem [of k perm] that by auto
  with assms(1,2) show ?thesis
    by (auto simp: list_all2_conv_all_nth)
qed

text \<open>
  Bits received as they were sent: after deinterleaving and rate recovery, every bit of the
  codeword that was on the air is on its right side, and no other is on its wrong one.
\<close>

lemma soft_reception:
  assumes c: "codec_core c" and len: "length payload = cd_payload_bytes c" and rv: "\<not> rv > 3"
    and bits: "encode_bits c payload rv = Some (Inr bits)" and soft: "list_all2 agrees soft bits"
  obtains m full cw where "matcher_new (cd_code c) (cd_info_bits c) (cd_coded_bits c) rv = Some (Inr m)"
    and "recover m (map (\<lambda>k. soft ! (cd_permutation c ! k)) [0..<cd_coded_bits c]) None = Inr full"
    and "syndrome_ok (cd_code c) cw = Inr True"
    and "take (cd_info_bits c) cw = attach CRC24A (bits_of_bytes payload)"
    and "\<forall>i<fc_n_full (cd_code c). leans (full ! i) (cw ! i)"
    and "\<forall>p\<in>set (rm_positions m). agrees (full ! (rm_two_z m + p)) (cw ! (rm_two_z m + p))"
    and "\<forall>i. cd_info_bits c \<le> i \<and> i < fc_k (cd_code c) \<longrightarrow> agrees (full ! i) (cw ! i)"
    and "length full = fc_n_full (cd_code c)" and "length cw = fc_n_full (cd_code c)" and "set cw \<subseteq> {0, 1}"
proof -
  obtain cw m bits' where e: "encode_bits c payload rv = Some (Inr bits')" "length bits' = cd_coded_bits c"
    "matcher_new (cd_code c) (cd_info_bits c) (cd_coded_bits c) rv = Some (Inr m)"
    "length cw = fc_n_full (cd_code c)" "syndrome_ok (cd_code c) cw = Inr True"
    "take (cd_info_bits c) cw = attach CRC24A (bits_of_bytes payload)"
    "match_bits m cw = Inr (map (\<lambda>k. bits' ! (cd_permutation c ! k)) [0..<cd_coded_bits c])"
    "\<forall>k<cd_coded_bits c. bits' ! (cd_permutation c ! k) = cw ! (rm_two_z m + rm_positions m ! k)"
    "\<forall>i. cd_info_bits c \<le> i \<and> i < fc_k (cd_code c) \<longrightarrow> cw ! i = 0" "set bits' \<subseteq> {0, 1}" "set cw \<subseteq> {0, 1}"
    by (rule encode_bits_ok [OF c len rv])
  have same: "bits' = bits" using e(1) bits by simp
  have perm: "set (cd_permutation c) = {..<cd_coded_bits c}" "length (cd_permutation c) = cd_coded_bits c"
    and fits: "block_fits (cd_code c) (cd_info_bits c)"
    using c unfolding codec_core_def by blast+
  have ok: "code_ok (cd_code c)"
    using fits by (simp add: block_fits_def)
  note mo = matcher_new_ok [OF ok e(3)]
  have "leans (fresh_buffer m ! i) (cw ! i)" if "i < rm_n_full m" for i
    using fresh_buffer_nth(2) [OF mo(1) that] e(9) mo(4,5) by (auto simp: leans_def FILLER_LLR_def)
  with recover_agrees [OF mo(1) e(7) [unfolded same] agrees_deinterleave [OF soft e(2) [unfolded same] perm]
      fresh_buffer_nth(1) [OF mo(1)], of None]
  obtain full where full: "recover m (map (\<lambda>k. soft ! (cd_permutation c ! k)) [0..<cd_coded_bits c]) None = Inr full"
    "\<forall>i<rm_n_full m. leans (full ! i) (cw ! i)"
    "\<forall>p\<in>set (rm_positions m). agrees (full ! (rm_two_z m + p)) (cw ! (rm_two_z m + p))"
    "\<forall>i<rm_n_full m. agrees (fresh_buffer m ! i) (cw ! i) \<longrightarrow> agrees (full ! i) (cw ! i)"
    "length full = rm_n_full m"
    by blast
  have "agrees (full ! i) (cw ! i)" if i: "cd_info_bits c \<le> i" "i < fc_k (cd_code c)" for i
  proof -
    have "i < rm_n_full m"
      using i(2) mo(1,5) by (simp add: matcher_ok_def)
    moreover have "agrees (fresh_buffer m ! i) (cw ! i)"
      using fresh_buffer_nth(2) [OF mo(1) \<open>i < rm_n_full m\<close>] e(9) i mo(4,5) by (simp add: agrees_def FILLER_LLR_def)
    ultimately show ?thesis
      using full(4) by blast
  qed
  then have filler: "\<forall>i. cd_info_bits c \<le> i \<and> i < fc_k (cd_code c) \<longrightarrow> agrees (full ! i) (cw ! i)"
    by blast
  show thesis
    by (rule that [OF e(3) full(1) e(5,6) _ full(3) filler _ e(4,11)]) (use full(2,5) mo(2) in simp_all)
qed

text \<open>A frame of symbols received as it was sent is one whose soft bits agree with its bits.\<close>

lemma clean_symbols:
  assumes c: "codec_ok c" and len: "length payload = cd_payload_bytes c" and rv: "\<not> rv > 3" and nv: "0 < nv"
  obtains bits symbols soft where "encode_bits c payload rv = Some (Inr bits)"
    and "codec_encode c payload rv = Some (Inr symbols)" and "length symbols = qam_symbols (cd_layout c)"
    and "llr (cd_constellation c) symbols (Uniform nv) = Some soft" and "list_all2 agrees soft bits"
proof -
  obtain bits where e: "encode_bits c payload rv = Some (Inr bits)" "length bits = cd_coded_bits c" "set bits \<subseteq> {0, 1}"
    by (rule encode_bits_ok [OF codec_ok_core [OF c] len rv])
  have cn: "cd_constellation c = constellation_new (md_modulation (cd_mode c))"
    and n: "cd_coded_bits c = coded_bits (cd_mode c) (cd_layout c)"
    using c unfolding codec_ok_def by blast+
  have "length bits mod cn_bits (cd_constellation c) = 0"
    by (simp add: e(2) n cn coded_bits_def)
  then obtain symbols where sy: "map_bits (cd_constellation c) bits = Some symbols"
    by (simp add: map_bits_def)
  from llr_map_bits [OF e(3) sy [unfolded cn] nv] obtain soft where
    soft: "llr (cd_constellation c) symbols (Uniform nv) = Some soft" "list_all2 agrees soft bits"
    unfolding cn by blast
  have encoded: "codec_encode c payload rv = Some (Inr symbols)"
    using e(1) sy by (simp add: codec_encode_def)
  then have "length symbols = qam_symbols (cd_layout c)"
    using codec_encode_ok [OF c len rv] by auto
  with that e(1) encoded soft show thesis
    by blast
qed

section \<open>Decoding\<close>

lemma decode_block_sound:
  assumes "decode_block code info n iterations perm soft rv buffer = Some (Inr (Some payload, full))"
    and "info = 8 * k + 24" and "info \<le> fc_n_full code"
  shows "length payload = k \<and> check CRC24A (attach CRC24A (bits_of_bytes payload)) \<and>
    (\<exists>d. fec_decode code full iterations 0.8 = Some (Inr d) \<and>
       take info (fd_bits d) = attach CRC24A (bits_of_bytes payload) \<and> 1 \<in> set (take info (fd_bits d)))"
proof -
  from assms(1) obtain m d where m: "matcher_new code info n rv = Some (Inr m)"
    and d: "fec_decode code full iterations 0.8 = Some (Inr d)" and p: "read_block (take info (fd_bits d)) = Some payload"
    by (auto simp: decode_block_def Let_def split: option.splits sum.splits)
  note bits = fec_decode_bits [OF d]
  have "set (take info (fd_bits d)) \<subseteq> {0, 1}"
    using bits(2) set_take_subset by fastforce
  moreover have "length (take info (fd_bits d)) = 8 * k + 24"
    using bits(1) assms(2,3) by simp
  ultimately have rs: "length payload = k" "take info (fd_bits d) = attach CRC24A (bits_of_bytes payload)"
    "1 \<in> set (take info (fd_bits d))"
    using read_block_sound [OF p] by blast+
  then show ?thesis
    using d check_attach [OF crc_ok_constants(1)] by blast
qed

text \<open>What \<open>codec_decode\<close> accepted went through the decoder and the checksum.\<close>

lemma codec_decode_sound:
  assumes c: "codec_ok c" and d: "codec_decode c symbols noise rv buffer = Some (Inr (Some payload, full))"
  shows "length payload = cd_payload_bytes c \<and> (\<exists>b\<in>set payload. b \<noteq> 0) \<and>
    (\<exists>d. fec_decode (cd_code c) full 25 0.8 = Some (Inr d) \<and>
       take (cd_info_bits c) (fd_bits d) = attach CRC24A (bits_of_bytes payload))"
proof -
  from d obtain soft where "decode_block (cd_code c) (cd_info_bits c) (cd_coded_bits c) 25 (cd_permutation c) soft rv buffer =
      Some (Inr (Some payload, full))"
    by (auto simp: codec_decode_def Let_def split: if_splits option.splits)
  moreover have "cd_info_bits c = 8 * cd_payload_bytes c + 24"
    and fits: "block_fits (cd_code c) (cd_info_bits c)"
    using c unfolding codec_ok_def codec_core_def by blast+
  moreover have "cd_info_bits c \<le> fc_n_full (cd_code c)"
    using fits code_okD(4,5) [of "cd_code c"]
    by (auto simp: block_fits_def add_mult_distrib intro: order_trans)
  ultimately show ?thesis
    using decode_block_sound coded_nonzero by metis
qed

end
