(* ===== verification/Round_Trip.thy ===== *)
theory Round_Trip
  imports Codec
begin

text \<open>
  The frame codec of codec.rs end to end: with redundancy version 0 the positions sent cover the
  information bits and the core parities, every mode of the tables has room for them, and so one
  pass of the decoder turns a frame received clean back into its payload.  The properties of the
  decoder, the rate matcher and the codec are at the end.
\<close>

section \<open>Which bits are on the air\<close>

lemma filter_ends:
  fixes a b n :: nat
  assumes "a \<le> b" and "b \<le> n"
  shows "filter (\<lambda>i. i < a \<or> b \<le> i) [0..<n] = [0..<a] @ [b..<n]"
proof -
  have "[0..<n] = [0..<a] @ [a..<b] @ [b..<n]"
    using assms upt_add_eq_append [of 0 a "b - a"] upt_add_eq_append [of 0 b "n - b"] by simp
  moreover have "filter (\<lambda>i. i < a \<or> b \<le> i) [0..<a] = [0..<a]" "filter (\<lambda>i. i < a \<or> b \<le> i) [a..<b] = []"
    "filter (\<lambda>i. i < a \<or> b \<le> i) [b..<n] = [b..<n]"
    using assms by (auto simp: filter_id_conv filter_empty_conv)
  ultimately show ?thesis
    by simp
qed

text \<open>With redundancy version 0 the positions sent begin with all of the information bits, then the core parities.\<close>

lemma first_positions:
  assumes ok: "code_ok c" and info: "2 * fc_z c \<le> info" "info \<le> fc_k c" and e: "info + 2 * fc_z c \<le> e"
    and m: "matcher_new c info e 0 = Some (Inr m)"
    and i: "2 * fc_z c \<le> i" "i < (fc_kb c + 4) * fc_z c" and filler: "\<not> (info \<le> i \<and> i < fc_k c)"
  shows "\<exists>p\<in>set (rm_positions m). i = rm_two_z m + p"
proof -
  let ?z = "fc_z c" and ?us = "usable c info"
  let ?P = "\<lambda>index. index < info - 2 * ?z \<or> fc_k c - 2 * ?z \<le> index"
  note d = code_okD [OF ok]
  have two: "?z * 2 \<le> fc_kb c * ?z"
    using d(8) by (simp add: mult.commute)
  have ncb: "(fc_kb c + 2) * ?z \<le> fc_n_cb c"
    unfolding d(7) by (intro mult_right_mono) (use d(2,8) in auto)
  have order: "selection_order c info 0 = ?us"
    by (cases "usable c info") (simp_all add: selection_order_def partition_point_def k0_def K0_NUMERATORS_def)
  have split: "?us = filter ?P [0..<(fc_kb c + 2) * ?z] @ filter ?P [(fc_kb c + 2) * ?z..<fc_n_cb c]"
    using ncb upt_add_eq_append [of 0 "(fc_kb c + 2) * ?z" "fc_n_cb c - (fc_kb c + 2) * ?z"]
    by (simp add: usable_def Let_def)
  define front where "front = [0..<info - 2 * ?z] @ [fc_k c - 2 * ?z..<(fc_kb c + 2) * ?z]"
  have "filter ?P [0..<(fc_kb c + 2) * ?z] = front"
    unfolding front_def by (rule filter_ends) (use info d(4) in \<open>auto simp: add_mult_distrib\<close>)
  then have us: "?us = front @ filter ?P [(fc_kb c + 2) * ?z..<fc_n_cb c]"
    using split by simp
  have "length front = info + 2 * ?z"
    using info two d(4) by (simp add: front_def add_mult_distrib)
  then have "take (info + 2 * ?z) ?us = front"
    unfolding us by simp
  have "i - 2 * ?z \<in> set (take (info + 2 * ?z) ?us)"
  proof -
    have "i - 2 * ?z < info - 2 * ?z \<or> fc_k c - 2 * ?z \<le> i - 2 * ?z \<and> i - 2 * ?z < (fc_kb c + 2) * ?z"
      using i filler info by (auto simp: add_mult_distrib)
    then show ?thesis
      unfolding \<open>take (info + 2 * ?z) ?us = front\<close> by (auto simp: front_def)
  qed
  then obtain j where j: "j < info + 2 * ?z" "j < length ?us" "?us ! j = i - 2 * ?z"
    by (auto simp: in_set_conv_nth)
  have "rm_positions m = map (\<lambda>i. ?us ! (i mod length ?us)) [0..<e]" and tz: "rm_two_z m = 2 * ?z"
    using m matcher_new_eq [OF ok _ info, of 0 e] by (auto simp: order)
  then have "rm_positions m ! j = i - 2 * ?z" "j < length (rm_positions m)"
    using j e by simp_all
  then have "i - 2 * ?z \<in> set (rm_positions m)"
    by (metis nth_mem)
  then show ?thesis
    by (intro bexI [of _ "i - 2 * ?z"]) (use i(1) tz in simp_all)
qed

text \<open>What a receiver reads off the codeword of a payload.\<close>

lemma read_block_attach:
  assumes "\<exists>b\<in>set payload. b \<noteq> 0"
  shows "read_block (attach CRC24A (bits_of_bytes payload)) = Some payload"
proof -
  let ?bits = "attach CRC24A (bits_of_bytes payload)"
  have "bytes_of_bits (take (length ?bits - crc_width CRC24A) ?bits) = payload"
    by (simp add: attach_def bytes_of_bits_of_bytes)
  moreover have "\<not> (\<forall>b\<in>set ?bits. b = 0)"
  proof
    assume "\<forall>b\<in>set ?bits. b = 0"
    then have "bits_of_bytes payload = replicate (8 * length payload) 0"
      by (intro replicate_eqI) (simp_all add: attach_def)
    then have "bits_of_bytes payload = bits_of_bytes (replicate (length payload) 0)"
      using bits_of_zero_bytes [of "replicate (length payload) 0"] by simp
    then have "payload = replicate (length payload) 0"
      by (metis bytes_of_bits_of_bytes)
    with assms show False
      by (metis in_set_replicate)
  qed
  ultimately show ?thesis
    using check_attach [OF crc_ok_constants(1), of "bits_of_bytes payload"] by (simp add: read_block_def)
qed

text \<open>
  A codec whose code peels and whose frame has room for the information and the core parities: soft
  bits that agree with the bits sent are decoded, in one iteration, to the payload that was sent.
\<close>

lemma soft_decoding:
  assumes c: "codec_core c" and p: "peels (cd_code c)" and room: "cd_info_bits c + 2 * fc_z (cd_code c) \<le> cd_coded_bits c"
    and len: "length payload = cd_payload_bytes c" and nz: "\<exists>b\<in>set payload. b \<noteq> 0"
    and bits: "encode_bits c payload 0 = Some (Inr bits)" and soft: "list_all2 agrees soft bits" and "0 < iterations"
  shows "\<exists>full. decode_block (cd_code c) (cd_info_bits c) (cd_coded_bits c) iterations (cd_permutation c) soft 0 None =
    Some (Inr (Some payload, full))"
proof -
  obtain m full cw where e: "matcher_new (cd_code c) (cd_info_bits c) (cd_coded_bits c) 0 = Some (Inr m)"
    "recover m (map (\<lambda>k. soft ! (cd_permutation c ! k)) [0..<cd_coded_bits c]) None = Inr full"
    "syndrome_ok (cd_code c) cw = Inr True" "take (cd_info_bits c) cw = attach CRC24A (bits_of_bytes payload)"
    "\<forall>i<fc_n_full (cd_code c). leans (full ! i) (cw ! i)"
    "\<forall>p\<in>set (rm_positions m). agrees (full ! (rm_two_z m + p)) (cw ! (rm_two_z m + p))"
    "\<forall>i. cd_info_bits c \<le> i \<and> i < fc_k (cd_code c) \<longrightarrow> agrees (full ! i) (cw ! i)"
    "length full = fc_n_full (cd_code c)" "length cw = fc_n_full (cd_code c)" "set cw \<subseteq> {0, 1}"
    by (rule soft_reception [OF c len _ bits soft]) auto
  have fits: "code_ok (cd_code c)" "2 * fc_z (cd_code c) \<le> cd_info_bits c" "cd_info_bits c \<le> fc_k (cd_code c)"
    using c unfolding codec_core_def block_fits_def by blast+
  have "agrees (full ! i) (cw ! i)" if i: "2 * fc_z (cd_code c) \<le> i" "i < (fc_kb (cd_code c) + 4) * fc_z (cd_code c)" for i
  proof (cases "cd_info_bits c \<le> i \<and> i < fc_k (cd_code c)")
    case False
    then show ?thesis
      using first_positions [OF fits room e(1) i] e(6) by blast
  qed (use e(7) in blast)
  then have "fec_decode (cd_code c) full iterations 0.8 = Some (Inr \<lparr>fd_bits = cw, fd_converged = True, fd_iterations = 1\<rparr>)"
    using \<open>0 < iterations\<close> by (intro decode_erased [OF p _ e(9,10,3,8) _ e(5)]) auto
  then show ?thesis
    using e(1,2,4) by (simp add: decode_block_def Let_def read_block_attach [OF nz])
qed

lemma clean_decoding:
  assumes c: "codec_ok c" and p: "peels (cd_code c)" and room: "cd_info_bits c + 2 * fc_z (cd_code c) \<le> cd_coded_bits c"
    and len: "length payload = cd_payload_bytes c" and nz: "\<exists>b\<in>set payload. b \<noteq> 0" and nv: "0 < nv"
  shows "\<exists>symbols full. codec_encode c payload 0 = Some (Inr symbols) \<and>
    codec_decode c symbols (Uniform nv) 0 None = Some (Inr (Some payload, full))"
proof -
  obtain bits symbols soft where e: "encode_bits c payload 0 = Some (Inr bits)"
    "codec_encode c payload 0 = Some (Inr symbols)" "length symbols = qam_symbols (cd_layout c)"
    "llr (cd_constellation c) symbols (Uniform nv) = Some soft" "list_all2 agrees soft bits"
    by (rule clean_symbols [OF c len _ nv, of 0]) auto
  from soft_decoding [OF codec_ok_core [OF c] p room len nz e(1,5), of 25] e(2,3,4) show ?thesis
    by (auto simp: codec_decode_def Let_def)
qed

text \<open>Every mode of the tables has the room.\<close>

definition block_room :: "nat \<Rightarrow> nat \<Rightarrow> u8 \<Rightarrow> bool" where
  "block_room bits coded bg \<longleftrightarrow>
     (let z = (coded - bits) div 2
      in bits \<le> coded \<and> list_ex (\<lambda>s. s \<le> z \<and> bits \<le> kb_for bg bits * s) (concat LIFTING_SETS))"

lemma block_room_lifting:
  assumes "block_room bits coded bg" and sel: "select_lifting_size bg bits = Inr z"
  shows "bits + 2 * z \<le> coded"
proof -
  obtain s where s: "s \<in> set all_lifting_sizes" "s \<le> (coded - bits) div 2" "bits \<le> kb_for bg bits * s"
    and le: "bits \<le> coded"
    using assms(1) sorted_lifting_sizes(2) by (auto simp: block_room_def Let_def list_ex_iff)
  have "z \<le> s"
    using select_lifting_size_cases [where bg = bg and n = bits] s sel by (fastforce simp: not_le [symmetric])
  with s(2) le show ?thesis
    by linarith
qed

definition mode_room :: "mode \<Rightarrow> frame_layout \<Rightarrow> bool" where
  "mode_room m l \<longleftrightarrow>
     (case (info_bits m l, mode_base_graph m l) of
        (Some bits, Some bg) \<Rightarrow> block_room bits (coded_bits m l) bg
      | _ \<Rightarrow> False)"

lemma room_lifting:
  assumes "mode_room m l" and "info_bits m l = Some bits" and "lifting_size m l = Some z"
  shows "bits + 2 * z \<le> coded_bits m l"
  using assms by (auto simp: mode_room_def lifting_size_def intro: block_room_lifting split: option.splits sum.splits)

lemmas mode_numbers = mode_base_graph_def payload_bytes_def info_bits_def coded_bits_def mk_mode_def checked_sub_def
  select_base_graph_def code_rate_def kb_for_def

lemma wide_modes_room: "list_all (\<lambda>m. mode_room m LONG) MODES" "list_all (\<lambda>m. mode_room m SHORT) MODES"
  by (simp_all add: MODES_def mode_room_def block_room_def mode_numbers LIFTING_SETS_def Let_def)

lemma narrow_modes_room:
  "list_all (\<lambda>m. mode_room m NARROW_LONG) NARROW_MODES" "list_all (\<lambda>m. mode_room m NARROW_SHORT) (tl NARROW_MODES)"
  by (simp_all add: NARROW_MODES_def mode_room_def block_room_def mode_numbers LIFTING_SETS_def Let_def)

lemma table_modes_room: "(m, l) \<in> set table_modes \<Longrightarrow> mode_room m l"
  using wide_modes_room narrow_modes_room by (auto simp: table_modes_def list_all_iff)

lemma codec_of_mode:
  assumes "(m, l) \<in> set table_modes" and new: "codec_new BG1 BG2 m l = Some (Inr c)"
  shows "codec_ok c" and "peels (cd_code c)" and "cd_info_bits c + 2 * fc_z (cd_code c) \<le> cd_coded_bits c"
proof -
  obtain c' where c': "codec_new BG1 BG2 m l = Some (Inr c')" "codec_ok c'"
    by (rule nr.codec_new_ok [OF table_modes_fit [OF assms(1)]])
  then show "codec_ok c"
    using new by simp
  from new obtain bg z where code: "code_new BG1 BG2 bg z = Some (Inr (cd_code c))"
    and z: "lifting_size m l = Some z" and i: "info_bits m l = Some (cd_info_bits c)"
    and n: "cd_coded_bits c = coded_bits m l"
    by (auto simp: codec_new_def Let_def split: option.splits sum.splits if_splits)
  show "peels (cd_code c)"
    by (rule nr.code_peels [OF code])
  have "fc_z (cd_code c) = z"
    using nr.code_new_cases [of bg z] code by simp
  with room_lifting [OF table_modes_room [OF assms(1)] i z] n
  show "cd_info_bits c + 2 * fc_z (cd_code c) \<le> cd_coded_bits c"
    by simp
qed

section \<open>Properties\<close>

text \<open>
  C23: the decoder's report is true: it stops within its iterations, and says it converged exactly
  when the word it returns satisfies every parity check, having stopped at the first that did.
\<close>

theorem decoder_reports:
  assumes "fec_decode c soft max_iter alpha = Some (Inr d)"
  shows "length (fd_bits d) = fc_n_full c \<and> set (fd_bits d) \<subseteq> {0, 1} \<and> fd_iterations d \<le> max_iter \<and>
    (if fd_converged d then syndrome_ok c (fd_bits d) = Inr True \<and> 0 < fd_iterations d
     else fd_iterations d = max_iter)"
proof -
  obtain st where "decode_loop c alpha max_iter 0 st = Some (Inr d)"
    using assms by (auto simp: fec_decode_def Let_def split: if_splits)
  from decode_loop_reports [OF this] fec_decode_bits [OF assms] show ?thesis
    by (simp split: if_splits)
qed

text \<open>
  C24: a word received with every hard decision right is returned as it is, after one iteration,
  whatever the confidences: no message turns a right decision into a wrong one.
\<close>

theorem decode_keeps_codeword:
  assumes "code_ok c" and "0 \<le> alpha" and "length soft = fc_n_full c"
    and "syndrome_ok c (hard_bits soft) = Inr True" and "0 < max_iter"
  shows "fec_decode c soft max_iter alpha =
    Some (Inr \<lparr>fd_bits = hard_bits soft, fd_converged = True, fd_iterations = 1\<rparr>)"
  by (rule decode_codeword [OF assms])

lemma smallest_word:
  obtains c soft where "code_ok c" and "fc_z c = 2" and "fc_k c = 20" and "length soft = fc_n_full c"
    and "syndrome_ok c (hard_bits soft) = Inr True" and "hd (hard_bits soft) = 1"
proof -
  obtain c where c: "code_new BG1 BG2 2 2 = Some (Inr c)" "code_ok c" "fc_z c = 2" "fc_kb c = 10"
    by (rule smallest_code)
  have k: "fc_k c = 20"
    using code_okD(4) [OF c(2)] c(3,4) by simp
  obtain cw where cw: "fec_encode c (replicate 20 1) = Inr cw" "length cw = fc_n_full c"
    "take 20 cw = replicate 20 1" "syndrome_ok c cw = Inr True"
    using encode_correct [OF c(2), of "replicate 20 1"] k by auto
  have "set cw \<subseteq> {0, 1}"
    using codeword_bits [OF c(2) cw(2,4)] cw(3) k by auto
  then have "hard_bits (map (\<lambda>b. if b = 0 then 1 else -1) cw) = cw"
    by (auto simp: hard_bits_def intro!: map_idI)
  moreover have "hd cw = 1"
    using arg_cong [OF cw(3), of hd] by (simp add: hd_take)
  ultimately show thesis
    using that [of c "map (\<lambda>b. if b = 0 then 1 else -1) cw"] c k cw by simp
qed

theorem decode_keeps_codeword_witness:
  "\<exists>c soft. length soft = fc_n_full c \<and> hd (hard_bits soft) = 1 \<and>
     fec_decode c soft 25 0.8 = Some (Inr \<lparr>fd_bits = hard_bits soft, fd_converged = True, fd_iterations = 1\<rparr>)"
proof -
  obtain c soft where "code_ok c" "length soft = fc_n_full c" "syndrome_ok c (hard_bits soft) = Inr True"
    "hd (hard_bits soft) = 1"
    by (rule smallest_word)
  then show ?thesis
    using decode_keeps_codeword [of c "0.8" soft 25] by auto
qed

theorem decoder_reports_witness:
  "\<exists>c soft d. fec_decode c soft 25 0.8 = Some (Inr d) \<and> fd_converged d \<and> syndrome_ok c (fd_bits d) = Inr True \<and>
     hd (fd_bits d) = 1 \<and> fd_iterations d \<le> 25"
proof -
  obtain c soft where c: "code_ok c" "length soft = fc_n_full c" "syndrome_ok c (hard_bits soft) = Inr True"
    "hd (hard_bits soft) = 1"
    by (rule smallest_word)
  have d: "fec_decode c soft 25 0.8 = Some (Inr \<lparr>fd_bits = hard_bits soft, fd_converged = True, fd_iterations = 1\<rparr>)"
    using decode_codeword [OF c(1) _ c(2,3)] by simp
  then show ?thesis
    using decoder_reports [OF d] c(3,4) by (intro exI [of _ c] exI [of _ soft]) simp
qed

text \<open>
  C25: rate recovery puts every soft bit back where rate matching took its bit from: if the received
  values lean the way of the bits sent, every position of the codeword that was on the air leans
  its bit's way, and combining with an earlier transmission turns no position the wrong way.
\<close>

theorem recovery_sound:
  assumes "matcher_ok m" and "match_bits m cw = Inr sent" and "list_all2 agrees soft sent"
    and "length base = rm_n_full m" and "buffer = Some base \<or> buffer = None \<and> base = fresh_buffer m"
    and "\<forall>i<rm_n_full m. leans (base ! i) (cw ! i)"
  shows "\<exists>full. recover m soft buffer = Inr full \<and> length full = rm_n_full m \<and>
    (\<forall>i<rm_n_full m. leans (full ! i) (cw ! i)) \<and>
    (\<forall>p\<in>set (rm_positions m). agrees (full ! (rm_two_z m + p)) (cw ! (rm_two_z m + p)))"
  using recover_agrees [OF assms] by blast

theorem recovery_sound_witness:
  "\<exists>m cw full. match_bits m cw = Inr (map (\<lambda>p. cw ! (rm_two_z m + p)) (rm_positions m)) \<and> length (rm_positions m) = 30 \<and>
     recover m (map (\<lambda>p. if cw ! (rm_two_z m + p) = 0 then 1 else -1) (rm_positions m)) None = Inr full \<and>
     length full = length cw"
proof -
  obtain c where c: "code_ok c" "fc_z c = 2" "fc_k c = 20"
    by (rule smallest_word)
  obtain m where m: "matcher_new c 20 30 0 = Some (Inr m)"
    using matcher_new_eq [OF c(1), of 0 20 30] c by auto
  note mo = matcher_new_ok [OF c(1) m]
  let ?cw = "replicate (fc_n_full c) (0 :: u8)"
  let ?soft = "map (\<lambda>p. if ?cw ! (rm_two_z m + p) = 0 then 1 else -1 :: f64) (rm_positions m)"
  have sent: "match_bits m ?cw = Inr (map (\<lambda>p. ?cw ! (rm_two_z m + p)) (rm_positions m))"
    using mo(1) by (auto simp: match_bits_def mo matcher_ok_def)
  have "list_all2 agrees ?soft (map (\<lambda>p. ?cw ! (rm_two_z m + p)) (rm_positions m))"
    using mo(1,2) by (auto simp: list_all2_conv_all_nth agrees_def matcher_ok_def)
  moreover have "\<forall>i<rm_n_full m. leans (fresh_buffer m ! i) (?cw ! i)"
    using fresh_buffer_nth(2) [OF mo(1)] mo(2) by (auto simp: leans_def FILLER_LLR_def)
  ultimately obtain full where "recover m ?soft None = Inr full" "length full = rm_n_full m"
    using recovery_sound [OF mo(1) sent _ fresh_buffer_nth(1) [OF mo(1)], of ?soft None] by blast
  moreover have "length (rm_positions m) = 30"
    using mo(1,3) by (simp add: matcher_ok_def)
  ultimately show ?thesis
    using sent mo(2) by (intro exI [of _ m] exI [of _ ?cw] exI [of _ full]) simp
qed

text \<open>two redundancy versions of a block can be combined in either order.\<close>

theorem combining_commutes:
  assumes "code_ok c" and "matcher_new c info e1 rv1 = Some (Inr m1)" and "matcher_new c info e2 rv2 = Some (Inr m2)"
    and "length l1 = e1" and "length l2 = e2" and "length base = fc_n_full c"
  shows "and_then (recover m1 l1 (Some base)) (\<lambda>b. recover m2 l2 (Some b)) =
    and_then (recover m2 l2 (Some base)) (\<lambda>b. recover m1 l1 (Some b))"
  using matcher_new_ok [OF assms(1,2)] matcher_new_ok [OF assms(1,3)] assms(4-6)
  by (intro recover_commute) simp_all

theorem combining_commutes_witness:
  "\<exists>m1 m2 base. rm_rv m1 \<noteq> rm_rv m2 \<and> length base = rm_n_full m1 \<and>
     and_then (recover m1 (replicate 30 1) (Some base)) (\<lambda>b. recover m2 (replicate 40 (-1)) (Some b)) =
     and_then (recover m2 (replicate 40 (-1)) (Some base)) (\<lambda>b. recover m1 (replicate 30 1) (Some b))"
proof -
  obtain c where c: "code_ok c" "fc_z c = 2" "fc_k c = 20"
    by (rule smallest_word)
  obtain m1 m2 where m: "matcher_new c 20 30 0 = Some (Inr m1)" "matcher_new c 20 40 2 = Some (Inr m2)"
    and rv: "rm_rv m1 = 0" "rm_rv m2 = 2" "rm_n_full m1 = fc_n_full c"
    using matcher_new_eq [OF c(1), of 0 20 30] matcher_new_eq [OF c(1), of 2 20 40] c by auto
  show ?thesis
    by (intro exI [of _ m1] exI [of _ m2] exI [of _ "replicate (fc_n_full c) 0"] conjI
        combining_commutes [OF c(1) m]) (simp_all add: rv)
qed

text \<open>
  C26: choosing the positions always ends, whatever the number of bits asked for, and no position of
  the circular buffer is used twice before every usable one has been used once.
\<close>

theorem matching_even:
  assumes "code_ok c" and "\<not> rv > 3" and "2 * fc_z c \<le> info" and "info \<le> fc_k c"
  shows "\<exists>m. matcher_new c info e rv = Some (Inr m) \<and> length (rm_positions m) = e \<and>
    (\<forall>i<e. \<forall>j<e. rm_positions m ! i = rm_positions m ! j \<longleftrightarrow> i mod length (usable c info) = j mod length (usable c info))"
proof -
  let ?order = "selection_order c info rv"
  have len: "length ?order = length (usable c info)"
    by (simp add: selection_order_def Let_def)
  have "usable c info \<noteq> []"
    using usable_nonempty assms by simp
  then have pos: "0 < length ?order"
    by (simp add: len)
  have "?order ! (i mod length ?order) = ?order ! (j mod length ?order) \<longleftrightarrow> i mod length ?order = j mod length ?order" for i j
    using nth_eq_iff_index_eq [OF distinct_selection_order] pos by simp
  then show ?thesis
    using matcher_new_eq [OF assms, of e] by (simp add: len)
qed

theorem matching_even_witness:
  "\<exists>c m. fc_k c = 20 \<and> matcher_new c 20 300 3 = Some (Inr m) \<and> length (rm_positions m) = 300"
proof -
  obtain c where c: "code_ok c" "fc_z c = 2" "fc_k c = 20"
    by (rule smallest_word)
  then show ?thesis
    using matching_even [OF c(1), of 3 20 300] by auto
qed


text \<open>
  C20: every mode of the two tables has a codec on its layouts (but one, see the header), and the
  codec encodes every payload of its size, at each redundancy version, to exactly the symbols the
  layout has slots for: nothing on the way can panic or fail.
\<close>

theorem every_mode_encodes:
  assumes "(m, l) \<in> set table_modes"
  shows "\<exists>c. codec_new BG1 BG2 m l = Some (Inr c) \<and> payload_bytes m l = Some (cd_payload_bytes c) \<and>
    (\<forall>payload rv. if length payload = cd_payload_bytes c \<and> rv \<le> 3
       then \<exists>symbols. codec_encode c payload rv = Some (Inr symbols) \<and> length symbols = qam_symbols l
       else \<exists>e. codec_encode c payload rv = Some (Inl e))"
proof -
  obtain c where c: "codec_new BG1 BG2 m l = Some (Inr c)" "codec_ok c" "cd_mode c = m" "cd_layout c = l"
    by (rule nr.codec_new_ok [OF table_modes_fit [OF assms]])
  have "payload_bytes m l = Some (cd_payload_bytes c)"
    using c(1) by (auto simp: codec_new_def Let_def split: option.splits sum.splits if_splits)
  moreover have "\<exists>symbols. codec_encode c payload rv = Some (Inr symbols) \<and> length symbols = qam_symbols l"
    if "length payload = cd_payload_bytes c" "rv \<le> 3" for payload rv
    using codec_encode_ok [OF c(2) that(1)] that(2) c(4) by fastforce
  moreover have "\<exists>e. codec_encode c payload rv = Some (Inl e)"
    if "\<not> (length payload = cd_payload_bytes c \<and> rv \<le> 3)" for payload rv
    using codec_encode_refuses [OF c(2)] that by blast
  ultimately show ?thesis
    using c(1) by auto
qed

theorem every_mode_encodes_witness:
  "\<exists>c symbols. codec_new BG1 BG2 (MODES ! 0) LONG = Some (Inr c) \<and>
     codec_encode c (replicate (cd_payload_bytes c) 7) 1 = Some (Inr symbols)"
proof -
  have "(MODES ! 0, LONG) \<in> set table_modes"
    by (simp add: table_modes_def MODES_def)
  from every_mode_encodes [OF this] obtain c where c: "codec_new BG1 BG2 (MODES ! 0) LONG = Some (Inr c)"
    and all: "\<forall>payload rv. if length payload = cd_payload_bytes c \<and> rv \<le> 3
       then \<exists>symbols. codec_encode c payload rv = Some (Inr symbols) \<and> length symbols = qam_symbols LONG
       else \<exists>e. codec_encode c payload rv = Some (Inl e)"
    by blast
  then show ?thesis
    using spec [OF spec [OF all, of "replicate (cd_payload_bytes c) 7"], of 1] by auto
qed

text \<open>
  C1: the whole codec: for every mode of the tables and every payload that is not all zeros, a frame
  received clean, at any noise estimate, is decoded to the payload that was encoded; the two columns
  of the code that are never sent, and the parities the frame had no room for, are recovered.
\<close>

theorem clean_frame_decodes:
  assumes "(m, l) \<in> set table_modes" and "codec_new BG1 BG2 m l = Some (Inr c)"
    and "length payload = cd_payload_bytes c" and "\<exists>b\<in>set payload. b \<noteq> 0" and "0 < nv"
  shows "\<exists>symbols full. codec_encode c payload 0 = Some (Inr symbols) \<and>
    codec_decode c symbols (Uniform nv) 0 None = Some (Inr (Some payload, full))"
proof -
  note new = codec_of_mode [OF assms(1,2)]
  show ?thesis
    by (rule clean_decoding [OF new(1) new(2) new(3) assms(3-5)])
qed

theorem clean_frame_decodes_witness:
  "\<exists>c symbols full. codec_new BG1 BG2 (MODES ! 13) LONG = Some (Inr c) \<and>
     codec_encode c (replicate (cd_payload_bytes c) 0x55) 0 = Some (Inr symbols) \<and>
     codec_decode c symbols (Uniform 1) 0 None = Some (Inr (Some (replicate (cd_payload_bytes c) 0x55), full))"
proof -
  have t: "(MODES ! 13, LONG) \<in> set table_modes"
    by (simp add: table_modes_def MODES_def)
  obtain c where c: "codec_new BG1 BG2 (MODES ! 13) LONG = Some (Inr c)"
    by (rule nr.codec_new_ok [OF table_modes_fit [OF t]])
  then have "payload_bytes (MODES ! 13) LONG = Some (cd_payload_bytes c)"
    by (auto simp: codec_new_def Let_def split: option.splits sum.splits if_splits)
  then have "0 < cd_payload_bytes c"
    by (auto simp: MODES_def mode_numbers)
  then have "\<exists>b\<in>set (replicate (cd_payload_bytes c) (0x55 :: u8)). b \<noteq> 0"
    by simp
  from clean_frame_decodes [OF t c length_replicate this, of 1] c show ?thesis
    by auto
qed

text \<open>
  C21: what a receiver accepts was coded: the payload \<open>decode\<close> returns is of the mode's size, is not
  all zeros, and with its checksum behind it is what the decoder read off the soft bits.
\<close>

theorem decode_sound:
  assumes "codec_ok c" and "codec_decode c symbols noise rv buffer = Some (Inr (Some payload, full))"
  shows "length payload = cd_payload_bytes c \<and> (\<exists>b\<in>set payload. b \<noteq> 0) \<and>
    (\<exists>d. fec_decode (cd_code c) full 25 0.8 = Some (Inr d) \<and>
       take (cd_info_bits c) (fd_bits d) = attach CRC24A (bits_of_bytes payload))"
  by (rule codec_decode_sound [OF assms])

theorem decode_sound_witness:
  "\<exists>c symbols full d. codec_decode c symbols (Uniform 1) 0 None = Some (Inr (Some (replicate (cd_payload_bytes c) 1), full)) \<and>
     fec_decode (cd_code c) full 25 0.8 = Some (Inr d)"
proof -
  have t: "(MODES ! 0, LONG) \<in> set table_modes"
    by (simp add: table_modes_def MODES_def)
  obtain c where c: "codec_new BG1 BG2 (MODES ! 0) LONG = Some (Inr c)"
    by (rule nr.codec_new_ok [OF table_modes_fit [OF t]])
  note new = codec_of_mode [OF t c]
  have "payload_bytes (MODES ! 0) LONG = Some (cd_payload_bytes c)"
    using c by (auto simp: codec_new_def Let_def split: option.splits sum.splits if_splits)
  then have "0 < cd_payload_bytes c"
    by (auto simp: MODES_def mode_numbers)
  then have "\<exists>b\<in>set (replicate (cd_payload_bytes c) (1 :: u8)). b \<noteq> 0"
    by simp
  from clean_decoding [OF new(1) new(2) new(3) length_replicate this, of 1] obtain symbols full where
    d: "codec_decode c symbols (Uniform 1) 0 None = Some (Inr (Some (replicate (cd_payload_bytes c) 1), full))"
    by auto
  then show ?thesis
    using decode_sound [OF new(1) d] by blast
qed

end
