(* ===== verification/Checked.thy ===== *)
theory Checked
  imports Prelude "HOL-Library.More_List" "HOL-Library.Monad_Syntax"
begin

text \<open>
  Code that may panic, as option values: the checked index \<open>xs[i]\<close> and its assignment, the \<open>for\<close>
  loop whose body may panic, and a weakest-precondition rule for each.  \<open>returns r P\<close> says that the
  code does not panic and that what it returns satisfies \<open>P\<close>; \<open>yields r P\<close> says the latter only.
\<close>

section \<open>Indexing\<close>

text \<open>\<open>xs.get(i)\<close>, which is also the checked \<open>xs[i]\<close>; the checked \<open>xs[i] = x\<close>.\<close>

definition get :: "'a list \<Rightarrow> nat \<Rightarrow> 'a option" where
  "get xs i = (if i < length xs then Some (xs ! i) else None)"

definition put :: "'a list \<Rightarrow> nat \<Rightarrow> 'a \<Rightarrow> 'a list option" where
  "put xs i x = (if i < length xs then Some (xs[i := x]) else None)"

lemma get_Some_iff [simp]: "get xs i = Some x \<longleftrightarrow> i < length xs \<and> xs ! i = x"
  by (simp add: get_def)

lemma get_None_iff [simp]: "get xs i = None \<longleftrightarrow> length xs \<le> i"
  by (simp add: get_def not_less)

lemma get_in [simp]: "i < length xs \<Longrightarrow> get xs i = Some (xs ! i)"
  by simp

text \<open>\<open>xs.get(i).copied().flatten()\<close>.\<close>

definition flat_at :: "'a option list \<Rightarrow> nat \<Rightarrow> 'a option" where
  "flat_at xs m = nth_default None xs m"

lemma flat_at_Some: "flat_at xs m = Some a \<longleftrightarrow> m < length xs \<and> xs ! m = Some a"
  by (simp add: flat_at_def nth_default_def)

lemma flat_at_mem: "flat_at xs m = Some a \<Longrightarrow> Some a \<in> set xs"
  by (metis flat_at_Some nth_mem)

section \<open>Loops\<close>

fun for_each :: "('a \<Rightarrow> 's \<Rightarrow> 's option) \<Rightarrow> 'a list \<Rightarrow> 's \<Rightarrow> 's option" where
  "for_each f [] s = Some s"
| "for_each f (x # xs) s = do { s' \<leftarrow> f x s; for_each f xs s' }"

lemma for_each_inv:
  assumes "for_each f xs s = Some s'" "I s"
    and "\<And>x s s'. x \<in> set xs \<Longrightarrow> I s \<Longrightarrow> f x s = Some s' \<Longrightarrow> I s'"
  shows "I s'"
  using assms
proof (induction xs arbitrary: s)
  case (Cons x xs)
  obtain s1 where s1: "f x s = Some s1" "for_each f xs s1 = Some s'"
    using Cons.prems(1) by (auto simp: bind_eq_Some_conv)
  show ?case
    by (rule Cons.IH [OF s1(2)]) (use Cons.prems(2,3) s1(1) in auto)
qed simp

text \<open>\<open>(0..=to).rev().find(p)\<close>: the last index at most \<open>to\<close> that satisfies \<open>p\<close>.\<close>

definition last_at_most :: "(nat \<Rightarrow> bool) \<Rightarrow> nat \<Rightarrow> nat option" where
  "last_at_most p to = find p (rev [0..<Suc to])"

lemma last_at_most_Some:
  "last_at_most p n = Some i \<longleftrightarrow> i \<le> n \<and> p i \<and> (\<forall>j. i < j \<and> j \<le> n \<longrightarrow> \<not> p j)"
proof (induction n)
  case 0
  then show ?case by (auto simp: last_at_most_def)
next
  case (Suc n)
  have "last_at_most p (Suc n) = (if p (Suc n) then Some (Suc n) else last_at_most p n)"
    by (simp add: last_at_most_def)
  with Suc show ?case by (auto simp: le_Suc_eq)
qed

lemma last_at_most_None: "last_at_most p n = None \<longleftrightarrow> (\<forall>j\<le>n. \<not> p j)"
  by (auto simp: last_at_most_def find_None_iff less_Suc_eq_le simp del: upt_Suc)

section \<open>Weakest preconditions\<close>

named_theorems wp \<open>rules for \<open>returns\<close>\<close>

definition returns :: "'a option \<Rightarrow> ('a \<Rightarrow> bool) \<Rightarrow> bool" where
  "returns r P \<longleftrightarrow> (\<exists>x. r = Some x \<and> P x)"

lemma returns_Some [wp, simp]: "returns (Some x) P \<longleftrightarrow> P x"
  by (simp add: returns_def)

lemma returns_None [wp, simp]: "\<not> returns None P"
  by (simp add: returns_def)

lemma returns_bind [wp, simp]: "returns (r \<bind> f) P \<longleftrightarrow> returns r (\<lambda>x. returns (f x) P)"
  by (cases r) simp_all

lemma returns_get [wp, simp]: "returns (get xs i) P \<longleftrightarrow> i < length xs \<and> P (xs ! i)"
  by (auto simp: returns_def)

lemma returns_put [wp, simp]: "returns (put xs i x) P \<longleftrightarrow> i < length xs \<and> P (xs[i := x])"
  by (simp add: returns_def put_def)

lemma returns_if [wp]: "returns (if b then r else s) P \<longleftrightarrow> (if b then returns r P else returns s P)"
  by simp

lemma returns_mono: "returns r P \<Longrightarrow> (\<And>x. P x \<Longrightarrow> Q x) \<Longrightarrow> returns r Q"
  by (auto simp: returns_def)

lemma returns_conj: "returns r P \<Longrightarrow> returns r Q \<Longrightarrow> returns r (\<lambda>x. P x \<and> Q x)"
  by (auto simp: returns_def)

lemma returns_for_each:
  assumes "\<And>x s. x \<in> set xs \<Longrightarrow> I s \<Longrightarrow> returns (f x s) I" "I s"
  shows "returns (for_each f xs s) I"
  using assms
proof (induction xs arbitrary: s)
  case (Cons x xs)
  have "returns (f x s) I" using Cons.prems by simp
  moreover have "I s' \<Longrightarrow> returns (for_each f xs s') I" for s'
    using Cons.prems by (intro Cons.IH) auto
  ultimately show ?case by (auto elim: returns_mono)
qed simp

lemma for_each_append:
  "for_each f (xs @ ys) s = do { s' \<leftarrow> for_each f xs s; for_each f ys s' }"
proof (induction xs arbitrary: s)
  case (Cons x xs)
  then show ?case by (cases "f x s") simp_all
qed simp

lemma returns_for_upt:
  assumes "\<And>i s. i < n \<Longrightarrow> I i s \<Longrightarrow> returns (f i s) (I (Suc i))" "I 0 s"
  shows "returns (for_each f [0..<n] s) (I n)"
  using assms
proof (induction n)
  case (Suc n)
  have "returns (for_each f [0..<n] s) (I n)" using Suc by simp
  then have "returns (for_each f [0..<n] s) (\<lambda>s'. returns (f n s') (I (Suc n)))"
    by (rule returns_mono) (use Suc.prems(1) in simp)
  then show ?case by (simp add: for_each_append)
qed simp

lemma returns_those:
  "returns (those rs) P \<longleftrightarrow> (\<exists>xs. rs = map Some xs \<and> P xs)"
proof (induction rs arbitrary: P)
  case (Cons r rs)
  show ?case
  proof (cases r)
    case (Some a)
    have "returns (map_option ((#) a) (those rs)) P \<longleftrightarrow> returns (those rs) (\<lambda>xs. P (a # xs))"
      by (cases "those rs") simp_all
    with Some Cons.IH show ?thesis by (auto simp: Cons_eq_map_conv)
  qed auto
qed simp

section \<open>What code that may panic yields\<close>

definition yields :: "'a option \<Rightarrow> ('a \<Rightarrow> bool) \<Rightarrow> bool" where
  "yields r P \<longleftrightarrow> (\<forall>x. r = Some x \<longrightarrow> P x)"

named_theorems yl \<open>rules for \<open>yields\<close>\<close>

lemma yields_basic [yl, simp]:
  "yields (Some x) P \<longleftrightarrow> P x" "yields None P"
  by (simp_all add: yields_def)

lemma yields_bind [yl]: "yields (r \<bind> f) P \<longleftrightarrow> yields r (\<lambda>x. yields (f x) P)"
  by (cases r) (simp_all add: yields_def)

lemma yields_if [yl]: "yields (if b then r else s) P \<longleftrightarrow> (b \<longrightarrow> yields r P) \<and> (\<not> b \<longrightarrow> yields s P)"
  by simp

lemma yields_option [yl]:
  "yields (case x of None \<Rightarrow> r | Some y \<Rightarrow> f y) P \<longleftrightarrow> (x = None \<longrightarrow> yields r P) \<and> (\<forall>y. x = Some y \<longrightarrow> yields (f y) P)"
  by (cases x) simp_all

lemma yields_sum [yl]:
  "yields (case x of Inl a \<Rightarrow> f a | Inr b \<Rightarrow> g b) P \<longleftrightarrow>
     (\<forall>a. x = Inl a \<longrightarrow> yields (f a) P) \<and> (\<forall>b. x = Inr b \<longrightarrow> yields (g b) P)"
  by (cases x) simp_all

lemma yields_prod [yl]: "yields (case x of (a, b) \<Rightarrow> f a b) P \<longleftrightarrow> (\<forall>a b. x = (a, b) \<longrightarrow> yields (f a b) P)"
  by (cases x) simp_all

lemma yields_list [yl]:
  "yields (case x of [] \<Rightarrow> r | y # ys \<Rightarrow> f y ys) P \<longleftrightarrow> (x = [] \<longrightarrow> yields r P) \<and> (\<forall>y ys. x = y # ys \<longrightarrow> yields (f y ys) P)"
  by (cases x) simp_all

lemma yields_map [yl]: "yields (map_option f r) P \<longleftrightarrow> yields r (\<lambda>x. P (f x))"
  by (cases r) simp_all

lemma yieldsI: "(\<And>x. r = Some x \<Longrightarrow> P x) \<Longrightarrow> yields r P"
  by (simp add: yields_def)

lemma yieldsD: "yields r P \<Longrightarrow> r = Some x \<Longrightarrow> P x"
  by (simp add: yields_def)

lemma yields_mono: "yields r P \<Longrightarrow> (\<And>x. P x \<Longrightarrow> Q x) \<Longrightarrow> yields r Q"
  by (simp add: yields_def)

lemma yields_bindI: "yields r P \<Longrightarrow> (\<And>x. P x \<Longrightarrow> yields (f x) Q) \<Longrightarrow> yields (r \<bind> f) Q"
  by (cases r) simp_all

lemma yields_True [simp]: "yields r (\<lambda>_. True)"
  by (simp add: yields_def)

lemma yields_for_each:
  assumes "\<And>x s. x \<in> set xs \<Longrightarrow> I s \<Longrightarrow> yields (f x s) I" "I s" shows "yields (for_each f xs s) I"
  using assms
proof (induction xs arbitrary: s)
  case (Cons x xs)
  have "yields (f x s) (\<lambda>s'. yields (for_each f xs s') I)"
    by (rule yields_mono [OF Cons.prems(1)]) (use Cons in auto)
  then show ?case by (simp add: yl)
qed simp

end
