(* ===== verification/Phy.thy ===== *)
theory Phy
  imports Checked
begin

text \<open>
  What the link layer needs from a physical layer: \<open>core/aether-link/src/phy.rs\<close>.  A frame to be sent,
  the durations the engine's timers are built from and the air time of a frame.  The trait
  \<open>SoftFrame\<close> is an interface to the receiver and has no code of its own.
\<close>

section \<open>Frames\<close>

datatype container = Data | Control

record tx_frame =
  tx_container :: container
  tx_payload :: bytes
  tx_mode :: nat
  tx_rv :: u8
  tx_floor :: bool
  tx_follows :: u8

section \<open>Timing\<close>

record phy_timing =
  pt_data_frame_s :: f64
  pt_control_frame_s :: f64
  turnaround_s :: f64
  detect_latency_s :: f64
  tx_latency_s :: f64
  preamble_detect_s :: "f64 option"
  pt_data_capacity :: "nat list"
  mode_threshold_db :: "f64 list"
  floor_data_frame_s :: "f64 option"
  floor_control_frame_s :: "f64 option"
  pt_floor_modes :: nat
  control_threshold_db :: "(f64 \<times> f64) option"
  floor_preamble_detect_s :: "f64 option"
  pt_echo_limit :: "f64 option list"

definition capacity_of :: "phy_timing \<Rightarrow> nat \<Rightarrow> nat option" where
  "capacity_of t m = get (pt_data_capacity t) m"

definition pt_is_floor :: "phy_timing \<Rightarrow> nat \<Rightarrow> bool" where
  "pt_is_floor t m \<longleftrightarrow> m < pt_floor_modes t"

definition data_frame_s_for :: "phy_timing \<Rightarrow> nat \<Rightarrow> f64" where
  "data_frame_s_for t m =
     (case floor_data_frame_s t of
        Some s \<Rightarrow> if pt_is_floor t m then s else pt_data_frame_s t
      | None \<Rightarrow> pt_data_frame_s t)"

definition preamble_detect_s_for :: "phy_timing \<Rightarrow> bool \<Rightarrow> f64 option" where
  "preamble_detect_s_for t fl =
     (case floor_preamble_detect_s t of
        Some late \<Rightarrow> if fl then Some late else preamble_detect_s t
      | None \<Rightarrow> preamble_detect_s t)"

definition control_frame_s_for :: "phy_timing \<Rightarrow> bool \<Rightarrow> f64" where
  "control_frame_s_for t fl =
     (case floor_control_frame_s t of
        Some s \<Rightarrow> if fl then s else pt_control_frame_s t
      | None \<Rightarrow> pt_control_frame_s t)"

definition tx_frame_s :: "phy_timing \<Rightarrow> tx_frame \<Rightarrow> f64" where
  "tx_frame_s t f = (case tx_container f of
      Data \<Rightarrow> data_frame_s_for t (tx_mode f)
    | Control \<Rightarrow> control_frame_s_for t (tx_floor f))"

end
