(* ===== verification/Rate.thy ===== *)
theory Rate
  imports Phy Frames Complex_Main
begin

text \<open>
  The rate controller: \<open>core/aether-link/src/rate.rs\<close>, and \<open>rate_for\<close> of \<open>granted.rs\<close>, which builds one
  from an air's timing.  The measured tables, the Pareto front of a table, the account of what each
  rung delivered, and the controller's state and operations.  A vector index out of range and a
  failed \<open>assert!\<close> are \<open>None\<close>; floats are ideal reals, \<open>exp\<close> and \<open>powf\<close> the real functions.
\<close>

section \<open>Tables\<close>

definition AWGN_THRESHOLD_DB :: "f64 list" where
  "AWGN_THRESHOLD_DB = [-19, -17.3, -16, -14.2, -13.1, -11.2, -5.1, -3.2, -1.8, -0.4, 1.4, 2.9, 4.7,
     6.9, 6, 8.9, 9.9, 13.9, 15.6, 16.9]"

definition ECHO_LIMIT :: "f64 option list" where
  "ECHO_LIMIT = [None, None, None, None, None, Some 0.0073, None, None, None, None, None, None, None,
     None, None, None, None, None, None, None]"

definition NARROW_ECHO_LIMIT :: "f64 option list" where
  "NARROW_ECHO_LIMIT = [None, None, None, Some 0.0038, Some 0.0038, None, None, None, None, None, None,
     None, None, None, None]"

definition TONE_CONTROL_THRESHOLD_DB :: f64 where "TONE_CONTROL_THRESHOLD_DB = -19.5"

definition CONTROL_THRESHOLD_DB :: "f64 \<times> f64" where
  "CONTROL_THRESHOLD_DB = (-5.1, TONE_CONTROL_THRESHOLD_DB)"

definition NARROW_CONTROL_THRESHOLD_DB :: "f64 \<times> f64" where
  "NARROW_CONTROL_THRESHOLD_DB = (-4.5, TONE_CONTROL_THRESHOLD_DB)"

definition PAYLOAD_BYTES :: "nat list" where
  "PAYLOAD_BYTES = [24, 36, 51, 75, 105, 153, 26, 46, 70, 95, 144, 193, 217, 291, 291, 389, 438, 585,
     658, 732]"

definition FRAME_S :: "f64 list" where
  "FRAME_S = [5.36, 5.36, 5.36, 5.36, 5.36, 5.36, 1.054, 1.054, 1.054, 1.054, 1.054, 1.054, 1.054,
     1.054, 1.054, 1.054, 1.054, 1.054, 1.054, 1.054]"

definition NARROW_AWGN_THRESHOLD_DB :: "f64 list" where
  "NARROW_AWGN_THRESHOLD_DB = [-19, -17.3, -14.3, -13, -11.1, -5.2, -3.6, -2.1, 0.5, -0.1, 2, 3.5, 6.9,
     8.8, 10.4]"

definition NARROW_PAYLOAD_BYTES :: "nat list" where
  "NARROW_PAYLOAD_BYTES = [24, 36, 51, 75, 93, 25, 34, 39, 53, 53, 71, 81, 109, 123, 137]"

definition NARROW_FRAME_S :: "f64 list" where
  "NARROW_FRAME_S = [5.36, 5.36, 5.36, 5.36, 5.36, 1.054, 1.054, 1.054, 1.054, 1.054, 1.054, 1.054,
     1.054, 1.054, 1.054]"

section \<open>The Pareto front\<close>

text \<open>What a rung is worth: the data bytes of a frame, after its header, per second.\<close>

definition worth :: "nat list \<Rightarrow> f64 list \<Rightarrow> nat \<Rightarrow> f64" where
  "worth payload frame_s m = real (payload ! m - DATA_HEADER) / frame_s ! m"

definition usable_modes_by_rate :: "f64 list \<Rightarrow> nat list \<Rightarrow> f64 list \<Rightarrow> nat list" where
  "usable_modes_by_rate thresholds payload frame_s =
     filter (\<lambda>m. \<not> list_ex (\<lambda>oth. oth \<noteq> m \<and> worth payload frame_s oth \<ge> worth payload frame_s m
                                 \<and> thresholds ! oth \<le> thresholds ! m)
                            [0..<length thresholds])
            [0..<length thresholds]"

definition usable_modes_of :: "f64 list \<Rightarrow> nat list \<Rightarrow> nat list" where
  "usable_modes_of thresholds payload =
     usable_modes_by_rate thresholds payload (replicate (length thresholds) 1)"

definition usable_modes :: "nat list" where
  "usable_modes = usable_modes_by_rate AWGN_THRESHOLD_DB PAYLOAD_BYTES FRAME_S"

section \<open>Outcomes and accounts\<close>

definition WAIT_TOLERANCE_S :: f64 where "WAIT_TOLERANCE_S = 1 / 10 ^ 9"

record frame_outcome =
  fo_mode :: nat
  fo_air_s :: f64
  fo_capacity :: nat
  fo_detected :: bool
  fo_decoded :: bool
  fo_combined :: bool

definition decode_probability :: "f64 \<Rightarrow> f64 \<Rightarrow> f64 \<Rightarrow> f64" where
  "decode_probability snr_db threshold_db slope_db =
     (let x = (snr_db - threshold_db) / slope_db
      in if x < -40 then 0 else 1 / (1 + exp (- x) / 9))"

record account =
  ac_bytes :: f64
  ac_air_s :: f64
  ac_frames :: f64

definition account_default :: account where
  "account_default = \<lparr>ac_bytes = 0, ac_air_s = 0, ac_frames = 0\<rparr>"

text \<open>\<open>bytes *= k; air_s *= k; frames *= k\<close>.\<close>

definition scale_account :: "f64 \<Rightarrow> account \<Rightarrow> account" where
  "scale_account k a =
     \<lparr>ac_bytes = ac_bytes a * k, ac_air_s = ac_air_s a * k, ac_frames = ac_frames a * k\<rparr>"

section \<open>The controller\<close>

text \<open>The pairs are indexed by family: the floor's, then the ordinary one's.\<close>

record rate_controller =
  rc_thresholds :: "f64 list"
  rc_modes :: "nat list"
  rc_capacity :: "nat list"
  rc_frame_s :: "f64 list"
  rc_floor_modes :: nat
  rc_family :: "f64 \<times> f64"
  rc_family_gain_db :: f64
  rc_echo_limit :: "f64 option list"
  rc_echo :: "f64 option"
  rc_smoothed_snr_db :: "f64 option"
  rc_index :: nat
  rc_accounts :: "account option list"
  rc_since_probe :: "f64 option list"
  rc_probe_wait :: "nat option list"
  rc_probing :: "nat option"
  rc_probe_tries :: nat
  rc_try_frames :: nat
  rc_clean_at :: "nat option"
  rc_half_life :: f64
  rc_prior_frames :: f64
  rc_probe_every :: nat
  rc_probe_wait_max :: nat
  rc_slope_db :: f64
  rc_prior_margin_db :: f64
  rc_echo_weight :: f64
  rc_echo_min_snr_db :: f64
  rc_control_s :: "(f64 \<times> f64) option"
  rc_gap_s :: f64
  rc_burst_frames :: "nat list"
  rc_families :: "(bool \<times> bool) option"
  rc_ofdm_failed :: bool

definition for_table ::
  "f64 list \<Rightarrow> nat list \<Rightarrow> nat list \<Rightarrow> f64 list \<Rightarrow> nat \<Rightarrow> f64 option list \<Rightarrow> rate_controller option" where
  "for_table thresholds payload capacity frame_s floor_modes echo_limit =
     (let n = length thresholds in
      if thresholds \<noteq> [] \<and> n = length payload \<and> n = length capacity \<and> n = length frame_s
      then Some \<lparr>
        rc_thresholds = thresholds,
        rc_modes = usable_modes_by_rate thresholds payload frame_s,
        rc_capacity = capacity, rc_frame_s = frame_s, rc_floor_modes = floor_modes,
        rc_family = (0, 0), rc_family_gain_db = 0.5,
        rc_echo_limit = echo_limit, rc_echo = None, rc_smoothed_snr_db = None, rc_index = 0,
        rc_accounts = replicate n None, rc_since_probe = replicate n None,
        rc_probe_wait = replicate n None,
        rc_probing = None, rc_probe_tries = 0, rc_try_frames = 0, rc_clean_at = None,
        rc_half_life = 12, rc_prior_frames = 2, rc_probe_every = 6, rc_probe_wait_max = 48,
        rc_slope_db = 0.5, rc_prior_margin_db = 3, rc_echo_weight = 0.4, rc_echo_min_snr_db = -6,
        rc_control_s = None, rc_gap_s = 0, rc_burst_frames = [], rc_families = None,
        rc_ofdm_failed = False\<rparr>
      else None)"

text \<open>\<open>rate_for\<close>: the controller of an air.\<close>

definition rate_for :: "phy_timing \<Rightarrow> rate_controller option" where
  "rate_for t =
     (let thresholds = (if mode_threshold_db t = [] then AWGN_THRESHOLD_DB else mode_threshold_db t);
          payload = (if pt_data_capacity t = [] then replicate (length thresholds) 0
                     else pt_data_capacity t);
          frame_s = map (data_frame_s_for t) [0..<length thresholds];
          capacity = map (\<lambda>m. case get (pt_data_capacity t) m of None \<Rightarrow> 0 | Some c \<Rightarrow> data_capacity c)
                         [0..<length thresholds]
      in for_table thresholds payload capacity frame_s (pt_floor_modes t) (pt_echo_limit t))"

subsection \<open>What it reads from its state\<close>

definition family_of :: "bool \<Rightarrow> 'a \<times> 'a \<Rightarrow> 'a" where
  "family_of ordinary p = (if ordinary then snd p else fst p)"

definition capacity_at :: "rate_controller \<Rightarrow> nat \<Rightarrow> nat" where
  "capacity_at c m = nth_default 0 (rc_capacity c) m"

definition frame_s_at :: "rate_controller \<Rightarrow> nat \<Rightarrow> f64" where
  "frame_s_at c m = nth_default 1 (rc_frame_s c) m"

definition account_at :: "rate_controller \<Rightarrow> nat \<Rightarrow> account" where
  "account_at c m = (case flat_at (rc_accounts c) m of None \<Rightarrow> account_default | Some a \<Rightarrow> a)"

definition since :: "rate_controller \<Rightarrow> nat \<Rightarrow> f64" where
  "since c m = (case flat_at (rc_since_probe c) m of None \<Rightarrow> 0 | Some s \<Rightarrow> s)"

definition wait :: "rate_controller \<Rightarrow> nat \<Rightarrow> nat" where
  "wait c m = (case flat_at (rc_probe_wait c) m of None \<Rightarrow> rc_probe_every c | Some w \<Rightarrow> w)"

definition wait_s :: "rate_controller \<Rightarrow> nat \<Rightarrow> f64" where
  "wait_s c m = real (wait c m) * (real (nth_default 1 (rc_burst_frames c) m) * frame_s_at c m)"

definition recommend :: "rate_controller \<Rightarrow> nat option" where
  "recommend c = (case rc_probing c of Some m \<Rightarrow> Some m | None \<Rightarrow> get (rc_modes c) (rc_index c))"

definition choice :: "rate_controller \<Rightarrow> nat option" where
  "choice c = get (rc_modes c) (rc_index c)"

definition threshold_db :: "rate_controller \<Rightarrow> nat \<Rightarrow> f64 option" where
  "threshold_db c m = get (rc_thresholds c) m"

text \<open>Every caller gives it an index within the usable rungs.\<close>

definition echo_out :: "rate_controller \<Rightarrow> nat \<Rightarrow> bool" where
  "echo_out c i = (case (flat_at (rc_echo_limit c) (rc_modes c ! i), rc_echo c) of
     (Some limit, Some echo) \<Rightarrow> echo > limit | _ \<Rightarrow> False)"

definition rung_usable :: "rate_controller \<Rightarrow> nat \<Rightarrow> bool" where
  "rung_usable c i \<longleftrightarrow> i < length (rc_modes c) \<and> \<not> echo_out c i"

definition lossless :: "rate_controller \<Rightarrow> nat \<Rightarrow> f64" where
  "lossless c m = real (capacity_at c m) / frame_s_at c m"

definition prior_p :: "rate_controller \<Rightarrow> nat \<Rightarrow> f64 \<Rightarrow> f64 option" where
  "prior_p c m snr_db = do {
     threshold \<leftarrow> get (rc_thresholds c) m;
     let offset = family_of (m \<ge> rc_floor_modes c) (rc_family c);
     Some (decode_probability (snr_db - offset - rc_prior_margin_db c) threshold (rc_slope_db c))
   }"

definition estimate_at :: "rate_controller \<Rightarrow> nat \<Rightarrow> f64 option \<Rightarrow> f64 option" where
  "estimate_at c m snr_db = do {
     prior \<leftarrow> (case snr_db of
        None \<Rightarrow> Some 0
      | Some snr \<Rightarrow> do { p \<leftarrow> prior_p c m snr; Some (real (capacity_at c m) * p) });
     let acc = account_at c m;
     let w = rc_prior_frames c;
     Some ((ac_bytes acc + w * prior) / (ac_air_s acc + w * frame_s_at c m))
   }"

definition estimate :: "rate_controller \<Rightarrow> nat \<Rightarrow> f64 option" where
  "estimate c m = estimate_at c m (rc_smoothed_snr_db c)"

text \<open>The rate of a whole exchange: the frames' air over the air, the two control frames and the gaps.\<close>

definition priced :: "rate_controller \<Rightarrow> nat \<Rightarrow> f64 \<Rightarrow> f64" where
  "priced c m per_air =
     (let n = nth_default 0 (rc_burst_frames c) m in
      case rc_control_s c of
        None \<Rightarrow> per_air
      | Some control \<Rightarrow>
          if n = 0 then per_air
          else let fl = (m < rc_floor_modes c);
                   (own, oth) = (case rc_families c of None \<Rightarrow> (fl, fl) | Some p \<Rightarrow> p);
                   len = (\<lambda>fl. family_of (\<not> fl) control);
                   over = len own + len oth + rc_gap_s c;
                   air = real n * frame_s_at c m
               in per_air * air / (air + over))"

definition rung_value :: "rate_controller \<Rightarrow> nat \<Rightarrow> f64 option" where
  "rung_value c m = do { e \<leftarrow> estimate c m; Some (priced c m e) }"

text \<open>\<open>refuses\<close>: whether the family of a rung is refused on this path.\<close>

definition refuses :: "rate_controller \<Rightarrow> nat \<Rightarrow> bool option" where
  "refuses c m =
     (if m < rc_floor_modes c then Some False
      else do {
        failed \<leftarrow> (if rc_ofdm_failed c
                   then do { here \<leftarrow> choice c; Some (here < rc_floor_modes c) }
                   else Some False);
        if failed then Some True
        else let ofdm = filter (\<lambda>i. rc_modes c ! i \<ge> rc_floor_modes c) [0..<length (rc_modes c)]
             in Some (ofdm \<noteq> [] \<and> list_all (echo_out c) ofdm)
      })"

section \<open>Operations\<close>

definition price_exchanges ::
  "f64 \<Rightarrow> f64 \<Rightarrow> f64 \<Rightarrow> nat list \<Rightarrow> rate_controller \<Rightarrow> rate_controller" where
  "price_exchanges control_floor_s control_ordinary_s gap_s burst_frames c =
     c\<lparr>rc_control_s := Some (control_floor_s, control_ordinary_s), rc_gap_s := gap_s,
       rc_burst_frames := burst_frames\<rparr>"

definition set_families :: "bool \<Rightarrow> bool \<Rightarrow> rate_controller \<Rightarrow> rate_controller" where
  "set_families own_floor other_floor c = c\<lparr>rc_families := Some (own_floor, other_floor)\<rparr>"

definition cancel_try :: "rate_controller \<Rightarrow> rate_controller" where
  "cancel_try c = c\<lparr>rc_probing := None, rc_probe_tries := 0, rc_try_frames := 0\<rparr>"

definition silent :: "nat \<Rightarrow> rate_controller \<Rightarrow> rate_controller" where
  "silent steps c0 =
     (let c = cancel_try c0; to = rc_index c - steps
      in c\<lparr>rc_index := (case last_at_most (rung_usable c) to of None \<Rightarrow> 0 | Some i \<Rightarrow> i)\<rparr>)"

definition observe_snr :: "f64 option \<Rightarrow> rate_controller \<Rightarrow> rate_controller" where
  "observe_snr snr_db c = (case snr_db of
       None \<Rightarrow> c
     | Some v \<Rightarrow> c\<lparr>rc_smoothed_snr_db := Some (case rc_smoothed_snr_db c of
         None \<Rightarrow> v | Some prev \<Rightarrow> 0.7 * prev + 0.3 * v)\<rparr>)"

definition set_since :: "nat \<Rightarrow> f64 \<Rightarrow> rate_controller \<Rightarrow> rate_controller option" where
  "set_since m s c = do {
     ss \<leftarrow> put (rc_since_probe c) m (Some s);
     Some (c\<lparr>rc_since_probe := ss\<rparr>)
   }"

definition set_wait :: "nat \<Rightarrow> nat \<Rightarrow> rate_controller \<Rightarrow> rate_controller option" where
  "set_wait m w c = do {
     ws \<leftarrow> put (rc_probe_wait c) m (Some w);
     Some (c\<lparr>rc_probe_wait := ws\<rparr>)
   }"

subsection \<open>Choosing\<close>

text \<open>
  The loops that look for the best rung: the first index of the greatest value among the allowed
  ones, with that value.
\<close>

definition better :: "nat \<Rightarrow> f64 \<Rightarrow> (nat \<times> f64) option \<Rightarrow> (nat \<times> f64) option" where
  "better i v best =
     (case best of None \<Rightarrow> Some (i, v) | Some (j, b) \<Rightarrow> if v > b then Some (i, v) else best)"

definition best_rung ::
  "(nat \<Rightarrow> f64 option) \<Rightarrow> (nat \<Rightarrow> bool) \<Rightarrow> nat list \<Rightarrow> nat list \<Rightarrow> (nat \<times> f64) option option" where
  "best_rung val allowed modes is =
     for_each (\<lambda>i best. if allowed i
                        then do { m \<leftarrow> get modes i; v \<leftarrow> val m; Some (better i v best) }
                        else Some best) is None"

definition decide_allowed :: "rate_controller \<Rightarrow> nat \<Rightarrow> bool" where
  "decide_allowed c i \<longleftrightarrow> rung_usable c i \<and>
     \<not> (i > rc_index c \<and> ac_frames (account_at c (rc_modes c ! i)) \<le> rc_prior_frames c)"

definition clean_climb :: "nat \<Rightarrow> rate_controller \<Rightarrow> bool option" where
  "clean_climb m c = do {
     here \<leftarrow> choice c;
     if rc_clean_at c = Some here \<and> (m < rc_floor_modes c) = (here < rc_floor_modes c)
        \<and> wait c m = rc_probe_every c
     then do { v \<leftarrow> rung_value c m; w \<leftarrow> rung_value c here; Some (v > w) }
     else Some False
   }"

text \<open>The second half of \<open>decide\<close>: whether the rung above the choice is tried next.\<close>

definition consider_try :: "rate_controller \<Rightarrow> rate_controller option" where
  "consider_try c =
     (let up = rc_index c + 1 in
      case rc_probing c of
        Some probe \<Rightarrow> Some (if rung_usable c up \<and> rc_modes c ! up = probe then c else cancel_try c)
      | None \<Rightarrow>
          if \<not> rung_usable c up then Some c
          else do {
            m \<leftarrow> get (rc_modes c) up;
            here \<leftarrow> choice c;
            v \<leftarrow> rung_value c here;
            if priced c m (lossless c m) \<le> v then Some c
            else do {
              go \<leftarrow> (if since c m \<ge> wait_s c m - WAIT_TOLERANCE_S then Some True
                     else clean_climb m c);
              if go then set_since m 0 (c\<lparr>rc_probing := Some m\<rparr>) else Some c
            }
          })"

definition decide :: "rate_controller \<Rightarrow> rate_controller option" where
  "decide c = do {
     best \<leftarrow> best_rung (rung_value c) (decide_allowed c) (rc_modes c) [0..<length (rc_modes c)];
     case best of
       None \<Rightarrow> Some (cancel_try (c\<lparr>rc_index := 0\<rparr>))
     | Some (i, v) \<Rightarrow> consider_try (c\<lparr>rc_index := i\<rparr>)
   }"

subsection \<open>Tries\<close>

definition judge_try :: "nat \<Rightarrow> rate_controller \<Rightarrow> (bool \<times> rate_controller) option" where
  "judge_try m c = do {
     here \<leftarrow> choice c;
     v \<leftarrow> rung_value c m;
     w \<leftarrow> rung_value c here;
     if v > w then do { c' \<leftarrow> set_wait m (rc_probe_every c) c; Some (True, c') }
     else do {
       c1 \<leftarrow> set_wait m (min (rc_probe_wait_max c) (2 * wait c m)) c;
       c2 \<leftarrow> set_since m 0 c1;
       Some (False, c2)
     }
   }"

definition try_over :: "rate_controller \<Rightarrow> bool" where
  "try_over c = (let enough = nat \<lfloor>rc_prior_frames c\<rfloor> + 1
                 in rc_try_frames c \<ge> enough \<or> rc_probe_tries c \<ge> 2 * enough)"

definition end_probe :: "bool \<Rightarrow> rate_controller \<Rightarrow> rate_controller option" where
  "end_probe measured c0 = (case rc_probing c0 of
       None \<Rightarrow> Some c0
     | Some m \<Rightarrow>
         let c = cancel_try c0 in
         if \<not> measured then Some c
         else do {
           (ok, c1) \<leftarrow> judge_try m c;
           if \<not> ok then Some c1
           else let i = (case position (\<lambda>x. x = m) (rc_modes c1) of None \<Rightarrow> rc_index c1 | Some i \<Rightarrow> i);
                    c2 = c1\<lparr>rc_index := i\<rparr>
                in if rung_usable c2 (i + 1)
                   then do { above \<leftarrow> get (rc_modes c2) (i + 1); set_since above (wait_s c2 above) c2 }
                   else Some c2
         })"

subsection \<open>Observing a transmission\<close>

text \<open>The offset of a family moves with every frame of it, not combined, by its surprise.\<close>

definition learn_family :: "f64 \<Rightarrow> frame_outcome \<Rightarrow> rate_controller \<Rightarrow> rate_controller option" where
  "learn_family snr f c =
     (if fo_combined f \<or> fo_mode f \<ge> length (rc_thresholds c) then Some c
      else do {
        p \<leftarrow> prior_p c (fo_mode f) snr;
        let ordinary = (fo_mode f \<ge> rc_floor_modes c);
        let offset = family_of ordinary (rc_family c)
                     + rc_family_gain_db c * (p - (if fo_decoded f then 1 else 0));
        Some (c\<lparr>rc_family := (if ordinary then (fst (rc_family c), clamp offset (-5) 20)
                              else (clamp offset (-5) 20, snd (rc_family c)))\<rparr>)
      })"

text \<open>Every other rung's account ages with the frame's air, in frames of its own.\<close>

fun aged :: "rate_controller \<Rightarrow> frame_outcome \<Rightarrow> nat \<times> account option \<Rightarrow> account option option" where
  "aged c f (m, None) = Some None"
| "aged c f (m, Some a) =
     (if m = fo_mode f then Some (Some a)
      else do { s \<leftarrow> get (rc_frame_s c) m;
                Some (Some (scale_account (0.5 powr (fo_air_s f / (rc_half_life c * s))) a)) })"

definition credit :: "f64 \<Rightarrow> frame_outcome \<Rightarrow> account \<Rightarrow> account" where
  "credit decay f a =
     (let b = scale_account decay a
      in b\<lparr>ac_bytes := ac_bytes b + (if fo_decoded f then real (fo_capacity f) else 0),
           ac_air_s := ac_air_s b + fo_air_s f, ac_frames := ac_frames b + 1\<rparr>)"

definition take_frame :: "frame_outcome \<Rightarrow> rate_controller \<Rightarrow> rate_controller option" where
  "take_frame f c = do {
     accs \<leftarrow> those (map (aged c f) (enumerate 0 (rc_accounts c)));
     let m = fo_mode f;
     let decay = 0.5 powr (1 / rc_half_life c);
     let mine = (case flat_at accs m of None \<Rightarrow> account_default | Some a \<Rightarrow> a);
     Some (c\<lparr>rc_accounts := (if m < length accs then accs[m := Some (credit decay f mine)] else accs)\<rparr>)
   }"

definition judge_family :: "frame_outcome list \<Rightarrow> rate_controller \<Rightarrow> rate_controller" where
  "judge_family frames c =
     (let ofdm = filter (\<lambda>f. fo_mode f \<ge> rc_floor_modes c) frames
      in if ofdm \<noteq> [] then c\<lparr>rc_ofdm_failed := \<not> list_ex fo_decoded ofdm\<rparr> else c)"

definition add_air :: "f64 \<Rightarrow> nat \<Rightarrow> rate_controller \<Rightarrow> rate_controller option" where
  "add_air air m c = set_since m (since c m + air) c"

text \<open>The rungs frames were sent at above the choice, other than the one being tried, are judged too.\<close>

definition judge_sent :: "nat \<Rightarrow> nat \<Rightarrow> rate_controller \<Rightarrow> rate_controller option" where
  "judge_sent here m c =
     (if Some m \<noteq> rc_probing c \<and> m \<noteq> here \<and> m > here
      then do { (ok, c') \<leftarrow> judge_try m c; Some c' }
      else Some c)"

definition count_try :: "frame_outcome list \<Rightarrow> rate_controller \<Rightarrow> rate_controller option" where
  "count_try frames c0 = (case rc_probing c0 of
       None \<Rightarrow> Some c0
     | Some probe \<Rightarrow>
         let c = c0\<lparr>rc_probe_tries := rc_probe_tries c0 + 1,
                    rc_try_frames := rc_try_frames c0 + length (filter (\<lambda>f. fo_mode f = probe) frames)\<rparr>
         in if try_over c then end_probe (rc_try_frames c > 0) c else Some c)"

definition observe_frames ::
  "frame_outcome list \<Rightarrow> f64 option \<Rightarrow> rate_controller \<Rightarrow> rate_controller option" where
  "observe_frames frames snr_db c0 =
     (let c1 = observe_snr snr_db c0 in
      if frames = [] then Some c1
      else do {
        c2 \<leftarrow> (case (rc_family_gain_db c1 \<noteq> 0, rc_smoothed_snr_db c1) of
                 (True, Some snr) \<Rightarrow> for_each (learn_family snr) frames c1
               | _ \<Rightarrow> Some c1);
        c3 \<leftarrow> for_each take_frame frames c2;
        let c4 = judge_family frames c3;
        let sent = remdups_adj (sort (map fo_mode frames));
        let air = sum_list (map fo_air_s frames);
        c5 \<leftarrow> for_each (add_air air) (rc_modes c4) c4;
        here \<leftarrow> choice c5;
        let at_here = filter (\<lambda>f. fo_mode f = here) frames;
        let clean = (at_here \<noteq> [] \<and> list_all (\<lambda>f. fo_decoded f \<and> \<not> fo_combined f) at_here);
        let c6 = c5\<lparr>rc_clean_at := (if clean then Some here else None)\<rparr>;
        c7 \<leftarrow> for_each (judge_sent here) sent c6;
        c8 \<leftarrow> count_try frames c7;
        decide c8
      })"

subsection \<open>The echo, and the start of a session\<close>

definition observe_echo :: "f64 option \<Rightarrow> f64 \<Rightarrow> rate_controller \<Rightarrow> rate_controller option" where
  "observe_echo share snr_db c0 = (case share of
       None \<Rightarrow> Some c0
     | Some s \<Rightarrow>
         if snr_db < rc_echo_min_snr_db c0 then Some c0
         else do {
           let w = rc_echo_weight c0;
           let c1 = c0\<lparr>rc_echo := Some (case rc_echo c0 of
                         None \<Rightarrow> s | Some prev \<Rightarrow> (1 - w) * prev + w * s)\<rparr>;
           let c2 = (case rc_probing c1 of
                  None \<Rightarrow> c1
                | Some probe \<Rightarrow> (case position (\<lambda>m. m = probe) (rc_modes c1) of
                      None \<Rightarrow> c1
                    | Some at_ \<Rightarrow> if echo_out c1 at_ then cancel_try c1 else c1));
           here \<leftarrow> choice c2;
           if echo_out c2 (rc_index c2)
           then do {
             best \<leftarrow> best_rung (rung_value c2) (rung_usable c2) (rc_modes c2) [0..<rc_index c2];
             Some (c2\<lparr>rc_index := (case best of None \<Rightarrow> 0 | Some (i, v) \<Rightarrow> i)\<rparr>)
           }
           else Some c2
         })"

definition first_mode :: "f64 \<Rightarrow> rate_controller \<Rightarrow> nat option" where
  "first_mode snr_db c = do {
     best \<leftarrow> best_rung (\<lambda>m. do { e \<leftarrow> estimate_at c m (Some snr_db); Some (priced c m e) })
                       (\<lambda>i. \<not> echo_out c i) (rc_modes c) [0..<length (rc_modes c)];
     get (rc_modes c) (case best of None \<Rightarrow> 0 | Some (i, v) \<Rightarrow> i)
   }"

definition seed :: "f64 \<Rightarrow> rate_controller \<Rightarrow> rate_controller option" where
  "seed snr_db c0 =
     (if rc_smoothed_snr_db c0 \<noteq> None then Some c0
      else do {
        let c = c0\<lparr>rc_smoothed_snr_db := Some snr_db\<rparr>;
        first \<leftarrow> first_mode snr_db c;
        Some (c\<lparr>rc_index := (case position (\<lambda>m. m = first) (rc_modes c) of None \<Rightarrow> 0 | Some i \<Rightarrow> i)\<rparr>)
      })"

end
