(* ===== verification/Rate_Laws.thy ===== *)
theory Rate_Laws
  imports Rate
begin

text \<open>
  The rate controller's invariant and laws: what holds in every state the controller can reach, that
  none of its operations panics there, and what its choices guarantee.
\<close>

section \<open>The Pareto front\<close>

text \<open>\<open>beats_or_ties\<close>: as good on both counts.\<close>

definition beats_or_ties :: "f64 list \<Rightarrow> nat list \<Rightarrow> f64 list \<Rightarrow> nat \<Rightarrow> nat \<Rightarrow> bool" where
  "beats_or_ties thresholds payload frame_s a b \<longleftrightarrow>
     worth payload frame_s a \<ge> worth payload frame_s b \<and> thresholds ! a \<le> thresholds ! b"

lemma in_front_iff:
  "m \<in> set (usable_modes_by_rate th pl fs) \<longleftrightarrow>
     m < length th \<and> (\<forall>oth<length th. beats_or_ties th pl fs oth m \<longrightarrow> oth = m)"
  by (auto simp: usable_modes_by_rate_def beats_or_ties_def list_ex_iff)

lemma front_ascending: "sorted (usable_modes_by_rate th pl fs) \<and> distinct (usable_modes_by_rate th pl fs)"
  by (simp add: usable_modes_by_rate_def sorted_wrt_filter)

definition no_ties :: "f64 list \<Rightarrow> nat list \<Rightarrow> f64 list \<Rightarrow> bool" where
  "no_ties th pl fs \<longleftrightarrow> (\<forall>a<length th. \<forall>b<length th.
     beats_or_ties th pl fs a b \<and> beats_or_ties th pl fs b a \<longrightarrow> a = b)"

text \<open>A measure that grows from a rung to any rung that beats it: how many it beats.\<close>

lemma front_covers:
  assumes "no_ties th pl fs" "m < length th"
  shows "\<exists>k\<in>set (usable_modes_by_rate th pl fs). beats_or_ties th pl fs k m"
  using assms(2)
proof (induction "card {j. j < length th \<and> beats_or_ties th pl fs j m}" arbitrary: m rule: less_induct)
  case less
  let ?better = "\<lambda>m. {j. j < length th \<and> beats_or_ties th pl fs j m}"
  show ?case
  proof (cases "m \<in> set (usable_modes_by_rate th pl fs)")
    case True
    then show ?thesis by (intro bexI [of _ m]) (auto simp: beats_or_ties_def)
  next
    case False
    then obtain k where k: "k < length th" "beats_or_ties th pl fs k m" "k \<noteq> m"
      using less.prems by (auto simp: in_front_iff)
    have "?better k \<subseteq> ?better m" using k(2) by (auto simp: beats_or_ties_def)
    moreover have "m \<in> ?better m" using less.prems by (simp add: beats_or_ties_def)
    moreover have "m \<notin> ?better k" using k assms(1) less.prems by (auto simp: no_ties_def)
    ultimately have "?better k \<subset> ?better m" by blast
    then have "card (?better k) < card (?better m)" by (intro psubset_card_mono) auto
    from less.hyps [OF this k(1)] obtain l
      where "l \<in> set (usable_modes_by_rate th pl fs)" "beats_or_ties th pl fs l k" ..
    with k(2) show ?thesis by (intro bexI [of _ l]) (auto simp: beats_or_ties_def)
  qed
qed

section \<open>The invariant\<close>

definition n_rungs_of :: "rate_controller \<Rightarrow> nat" where
  "n_rungs_of c = length (rc_thresholds c)"

text \<open>What never changes after \<open>for_table\<close>.\<close>

definition shape_ok :: "rate_controller \<Rightarrow> bool" where
  "shape_ok c \<longleftrightarrow> rc_modes c \<noteq> [] \<and> distinct (rc_modes c) \<and> (\<forall>m\<in>set (rc_modes c). m < n_rungs_of c)
     \<and> length (rc_capacity c) = n_rungs_of c \<and> length (rc_frame_s c) = n_rungs_of c
     \<and> (\<forall>s\<in>set (rc_frame_s c). 0 < s)
     \<and> rc_half_life c = 12 \<and> rc_prior_frames c = 2 \<and> rc_probe_every c = 6 \<and> rc_probe_wait_max c = 48
     \<and> rc_slope_db c = 1/2"

definition account_ok :: "nat \<Rightarrow> f64 \<Rightarrow> account \<Rightarrow> bool" where
  "account_ok cap s a \<longleftrightarrow> 0 \<le> ac_bytes a \<and> 0 \<le> ac_air_s a \<and> 0 \<le> ac_frames a
     \<and> ac_bytes a * s \<le> real cap * ac_air_s a"

definition accounts_ok :: "rate_controller \<Rightarrow> bool" where
  "accounts_ok c \<longleftrightarrow> length (rc_accounts c) = n_rungs_of c \<and>
     (\<forall>m<n_rungs_of c. \<forall>a. rc_accounts c ! m = Some a \<longrightarrow>
        account_ok (rc_capacity c ! m) (rc_frame_s c ! m) a)"

definition waits_ok :: "rate_controller \<Rightarrow> bool" where
  "waits_ok c \<longleftrightarrow> length (rc_since_probe c) = n_rungs_of c \<and> length (rc_probe_wait c) = n_rungs_of c
     \<and> (\<forall>s. Some s \<in> set (rc_since_probe c) \<longrightarrow> 0 \<le> s)
     \<and> (\<forall>w. Some w \<in> set (rc_probe_wait c) \<longrightarrow> 6 \<le> w \<and> w \<le> 48)"

definition family_ok :: "rate_controller \<Rightarrow> bool" where
  "family_ok c \<longleftrightarrow> (case rc_family c of (a, b) \<Rightarrow> -5 \<le> a \<and> a \<le> 20 \<and> -5 \<le> b \<and> b \<le> 20)"

text \<open>A try is of a rung the echo allows and lasts at most six transmissions.\<close>

definition try_ok :: "rate_controller \<Rightarrow> bool" where
  "try_ok c \<longleftrightarrow> (case rc_probing c of
       None \<Rightarrow> rc_probe_tries c = 0 \<and> rc_try_frames c = 0
     | Some m \<Rightarrow> (\<exists>i. rung_usable c i \<and> rc_modes c ! i = m) \<and> rc_probe_tries c < 6 \<and> rc_try_frames c < 3)"

text \<open>The choice is a rung of the ladder, and one the echo allows unless it is the lowest.\<close>

definition choice_ok :: "rate_controller \<Rightarrow> bool" where
  "choice_ok c \<longleftrightarrow> rc_index c < length (rc_modes c) \<and> (echo_out c (rc_index c) \<longrightarrow> rc_index c = 0)"

definition prices_ok :: "rate_controller \<Rightarrow> bool" where
  "prices_ok c \<longleftrightarrow> 0 \<le> rc_gap_s c \<and>
     (case rc_control_s c of None \<Rightarrow> True | Some (a, b) \<Rightarrow> 0 \<le> a \<and> 0 \<le> b)"

definition rate_ok :: "rate_controller \<Rightarrow> bool" where
  "rate_ok c \<longleftrightarrow> shape_ok c \<and> accounts_ok c \<and> waits_ok c \<and> family_ok c \<and> try_ok c \<and> choice_ok c
     \<and> prices_ok c"

text \<open>A frame of this station's own: a rung of the table, its air and no more data than it carries.\<close>

definition outcome_ok :: "rate_controller \<Rightarrow> frame_outcome \<Rightarrow> bool" where
  "outcome_ok c f \<longleftrightarrow> fo_mode f < n_rungs_of c \<and> rc_frame_s c ! fo_mode f \<le> fo_air_s f
     \<and> fo_capacity f \<le> rc_capacity c ! fo_mode f"

text \<open>Each part of the invariant reads only its own fields.\<close>

lemma n_rungs_of_frame [simp]:
  "n_rungs_of (c\<lparr>rc_control_s := x0\<rparr>) = n_rungs_of c" "n_rungs_of (c\<lparr>rc_gap_s := x1\<rparr>) = n_rungs_of c"
  "n_rungs_of (c\<lparr>rc_burst_frames := x2\<rparr>) = n_rungs_of c" "n_rungs_of (c\<lparr>rc_families := x3\<rparr>) = n_rungs_of c"
  "n_rungs_of (c\<lparr>rc_probing := x4\<rparr>) = n_rungs_of c" "n_rungs_of (c\<lparr>rc_probe_tries := x5\<rparr>) = n_rungs_of c"
  "n_rungs_of (c\<lparr>rc_try_frames := x6\<rparr>) = n_rungs_of c" "n_rungs_of (c\<lparr>rc_index := x7\<rparr>) = n_rungs_of c"
  "n_rungs_of (c\<lparr>rc_smoothed_snr_db := x8\<rparr>) = n_rungs_of c" "n_rungs_of (c\<lparr>rc_since_probe := x9\<rparr>) = n_rungs_of c"
  "n_rungs_of (c\<lparr>rc_probe_wait := x10\<rparr>) = n_rungs_of c" "n_rungs_of (c\<lparr>rc_family := x11\<rparr>) = n_rungs_of c"
  "n_rungs_of (c\<lparr>rc_accounts := x12\<rparr>) = n_rungs_of c" "n_rungs_of (c\<lparr>rc_ofdm_failed := x13\<rparr>) = n_rungs_of c"
  "n_rungs_of (c\<lparr>rc_clean_at := x14\<rparr>) = n_rungs_of c" "n_rungs_of (c\<lparr>rc_echo := x15\<rparr>) = n_rungs_of c"
  by (simp_all add: n_rungs_of_def)

lemma shape_ok_frame [simp]:
  "shape_ok (c\<lparr>rc_control_s := x0\<rparr>) = shape_ok c" "shape_ok (c\<lparr>rc_gap_s := x1\<rparr>) = shape_ok c"
  "shape_ok (c\<lparr>rc_burst_frames := x2\<rparr>) = shape_ok c" "shape_ok (c\<lparr>rc_families := x3\<rparr>) = shape_ok c"
  "shape_ok (c\<lparr>rc_probing := x4\<rparr>) = shape_ok c" "shape_ok (c\<lparr>rc_probe_tries := x5\<rparr>) = shape_ok c"
  "shape_ok (c\<lparr>rc_try_frames := x6\<rparr>) = shape_ok c" "shape_ok (c\<lparr>rc_index := x7\<rparr>) = shape_ok c"
  "shape_ok (c\<lparr>rc_smoothed_snr_db := x8\<rparr>) = shape_ok c" "shape_ok (c\<lparr>rc_since_probe := x9\<rparr>) = shape_ok c"
  "shape_ok (c\<lparr>rc_probe_wait := x10\<rparr>) = shape_ok c" "shape_ok (c\<lparr>rc_family := x11\<rparr>) = shape_ok c"
  "shape_ok (c\<lparr>rc_accounts := x12\<rparr>) = shape_ok c" "shape_ok (c\<lparr>rc_ofdm_failed := x13\<rparr>) = shape_ok c"
  "shape_ok (c\<lparr>rc_clean_at := x14\<rparr>) = shape_ok c" "shape_ok (c\<lparr>rc_echo := x15\<rparr>) = shape_ok c"
  by (simp_all add: shape_ok_def n_rungs_of_def)

lemma accounts_ok_frame [simp]:
  "accounts_ok (c\<lparr>rc_control_s := x0\<rparr>) = accounts_ok c" "accounts_ok (c\<lparr>rc_gap_s := x1\<rparr>) = accounts_ok c"
  "accounts_ok (c\<lparr>rc_burst_frames := x2\<rparr>) = accounts_ok c" "accounts_ok (c\<lparr>rc_families := x3\<rparr>) = accounts_ok c"
  "accounts_ok (c\<lparr>rc_probing := x4\<rparr>) = accounts_ok c" "accounts_ok (c\<lparr>rc_probe_tries := x5\<rparr>) = accounts_ok c"
  "accounts_ok (c\<lparr>rc_try_frames := x6\<rparr>) = accounts_ok c" "accounts_ok (c\<lparr>rc_index := x7\<rparr>) = accounts_ok c"
  "accounts_ok (c\<lparr>rc_smoothed_snr_db := x8\<rparr>) = accounts_ok c" "accounts_ok (c\<lparr>rc_since_probe := x9\<rparr>) = accounts_ok c"
  "accounts_ok (c\<lparr>rc_probe_wait := x10\<rparr>) = accounts_ok c" "accounts_ok (c\<lparr>rc_family := x11\<rparr>) = accounts_ok c"
  "accounts_ok (c\<lparr>rc_ofdm_failed := x13\<rparr>) = accounts_ok c" "accounts_ok (c\<lparr>rc_clean_at := x14\<rparr>) = accounts_ok c"
  "accounts_ok (c\<lparr>rc_echo := x15\<rparr>) = accounts_ok c"
  by (simp_all add: accounts_ok_def n_rungs_of_def)

lemma waits_ok_frame [simp]:
  "waits_ok (c\<lparr>rc_control_s := x0\<rparr>) = waits_ok c" "waits_ok (c\<lparr>rc_gap_s := x1\<rparr>) = waits_ok c"
  "waits_ok (c\<lparr>rc_burst_frames := x2\<rparr>) = waits_ok c" "waits_ok (c\<lparr>rc_families := x3\<rparr>) = waits_ok c"
  "waits_ok (c\<lparr>rc_probing := x4\<rparr>) = waits_ok c" "waits_ok (c\<lparr>rc_probe_tries := x5\<rparr>) = waits_ok c"
  "waits_ok (c\<lparr>rc_try_frames := x6\<rparr>) = waits_ok c" "waits_ok (c\<lparr>rc_index := x7\<rparr>) = waits_ok c"
  "waits_ok (c\<lparr>rc_smoothed_snr_db := x8\<rparr>) = waits_ok c" "waits_ok (c\<lparr>rc_family := x11\<rparr>) = waits_ok c"
  "waits_ok (c\<lparr>rc_accounts := x12\<rparr>) = waits_ok c" "waits_ok (c\<lparr>rc_ofdm_failed := x13\<rparr>) = waits_ok c"
  "waits_ok (c\<lparr>rc_clean_at := x14\<rparr>) = waits_ok c" "waits_ok (c\<lparr>rc_echo := x15\<rparr>) = waits_ok c"
  by (simp_all add: waits_ok_def n_rungs_of_def)

lemma family_ok_frame [simp]:
  "family_ok (c\<lparr>rc_control_s := x0\<rparr>) = family_ok c" "family_ok (c\<lparr>rc_gap_s := x1\<rparr>) = family_ok c"
  "family_ok (c\<lparr>rc_burst_frames := x2\<rparr>) = family_ok c" "family_ok (c\<lparr>rc_families := x3\<rparr>) = family_ok c"
  "family_ok (c\<lparr>rc_probing := x4\<rparr>) = family_ok c" "family_ok (c\<lparr>rc_probe_tries := x5\<rparr>) = family_ok c"
  "family_ok (c\<lparr>rc_try_frames := x6\<rparr>) = family_ok c" "family_ok (c\<lparr>rc_index := x7\<rparr>) = family_ok c"
  "family_ok (c\<lparr>rc_smoothed_snr_db := x8\<rparr>) = family_ok c" "family_ok (c\<lparr>rc_since_probe := x9\<rparr>) = family_ok c"
  "family_ok (c\<lparr>rc_probe_wait := x10\<rparr>) = family_ok c" "family_ok (c\<lparr>rc_accounts := x12\<rparr>) = family_ok c"
  "family_ok (c\<lparr>rc_ofdm_failed := x13\<rparr>) = family_ok c" "family_ok (c\<lparr>rc_clean_at := x14\<rparr>) = family_ok c"
  "family_ok (c\<lparr>rc_echo := x15\<rparr>) = family_ok c"
  by (simp_all add: family_ok_def)

lemma echo_out_frame [simp]:
  "echo_out (c\<lparr>rc_control_s := x0\<rparr>) i = echo_out c i" "echo_out (c\<lparr>rc_gap_s := x1\<rparr>) i = echo_out c i"
  "echo_out (c\<lparr>rc_burst_frames := x2\<rparr>) i = echo_out c i" "echo_out (c\<lparr>rc_families := x3\<rparr>) i = echo_out c i"
  "echo_out (c\<lparr>rc_probing := x4\<rparr>) i = echo_out c i" "echo_out (c\<lparr>rc_probe_tries := x5\<rparr>) i = echo_out c i"
  "echo_out (c\<lparr>rc_try_frames := x6\<rparr>) i = echo_out c i" "echo_out (c\<lparr>rc_index := x7\<rparr>) i = echo_out c i"
  "echo_out (c\<lparr>rc_smoothed_snr_db := x8\<rparr>) i = echo_out c i" "echo_out (c\<lparr>rc_since_probe := x9\<rparr>) i = echo_out c i"
  "echo_out (c\<lparr>rc_probe_wait := x10\<rparr>) i = echo_out c i" "echo_out (c\<lparr>rc_family := x11\<rparr>) i = echo_out c i"
  "echo_out (c\<lparr>rc_accounts := x12\<rparr>) i = echo_out c i" "echo_out (c\<lparr>rc_ofdm_failed := x13\<rparr>) i = echo_out c i"
  "echo_out (c\<lparr>rc_clean_at := x14\<rparr>) i = echo_out c i"
  by (simp_all add: echo_out_def)

lemma rung_usable_frame [simp]:
  "rung_usable (c\<lparr>rc_control_s := x0\<rparr>) i = rung_usable c i" "rung_usable (c\<lparr>rc_gap_s := x1\<rparr>) i = rung_usable c i"
  "rung_usable (c\<lparr>rc_burst_frames := x2\<rparr>) i = rung_usable c i" "rung_usable (c\<lparr>rc_families := x3\<rparr>) i = rung_usable c i"
  "rung_usable (c\<lparr>rc_probing := x4\<rparr>) i = rung_usable c i" "rung_usable (c\<lparr>rc_probe_tries := x5\<rparr>) i = rung_usable c i"
  "rung_usable (c\<lparr>rc_try_frames := x6\<rparr>) i = rung_usable c i" "rung_usable (c\<lparr>rc_index := x7\<rparr>) i = rung_usable c i"
  "rung_usable (c\<lparr>rc_smoothed_snr_db := x8\<rparr>) i = rung_usable c i" "rung_usable (c\<lparr>rc_since_probe := x9\<rparr>) i = rung_usable c i"
  "rung_usable (c\<lparr>rc_probe_wait := x10\<rparr>) i = rung_usable c i" "rung_usable (c\<lparr>rc_family := x11\<rparr>) i = rung_usable c i"
  "rung_usable (c\<lparr>rc_accounts := x12\<rparr>) i = rung_usable c i" "rung_usable (c\<lparr>rc_ofdm_failed := x13\<rparr>) i = rung_usable c i"
  "rung_usable (c\<lparr>rc_clean_at := x14\<rparr>) i = rung_usable c i"
  by (simp_all add: rung_usable_def)

lemma try_ok_frame [simp]:
  "try_ok (c\<lparr>rc_control_s := x0\<rparr>) = try_ok c" "try_ok (c\<lparr>rc_gap_s := x1\<rparr>) = try_ok c"
  "try_ok (c\<lparr>rc_burst_frames := x2\<rparr>) = try_ok c" "try_ok (c\<lparr>rc_families := x3\<rparr>) = try_ok c"
  "try_ok (c\<lparr>rc_index := x7\<rparr>) = try_ok c" "try_ok (c\<lparr>rc_smoothed_snr_db := x8\<rparr>) = try_ok c"
  "try_ok (c\<lparr>rc_since_probe := x9\<rparr>) = try_ok c" "try_ok (c\<lparr>rc_probe_wait := x10\<rparr>) = try_ok c"
  "try_ok (c\<lparr>rc_family := x11\<rparr>) = try_ok c" "try_ok (c\<lparr>rc_accounts := x12\<rparr>) = try_ok c"
  "try_ok (c\<lparr>rc_ofdm_failed := x13\<rparr>) = try_ok c" "try_ok (c\<lparr>rc_clean_at := x14\<rparr>) = try_ok c"
  by (simp_all add: try_ok_def cong: option.case_cong)

lemma choice_ok_frame [simp]:
  "choice_ok (c\<lparr>rc_control_s := x0\<rparr>) = choice_ok c" "choice_ok (c\<lparr>rc_gap_s := x1\<rparr>) = choice_ok c"
  "choice_ok (c\<lparr>rc_burst_frames := x2\<rparr>) = choice_ok c" "choice_ok (c\<lparr>rc_families := x3\<rparr>) = choice_ok c"
  "choice_ok (c\<lparr>rc_probing := x4\<rparr>) = choice_ok c" "choice_ok (c\<lparr>rc_probe_tries := x5\<rparr>) = choice_ok c"
  "choice_ok (c\<lparr>rc_try_frames := x6\<rparr>) = choice_ok c" "choice_ok (c\<lparr>rc_smoothed_snr_db := x8\<rparr>) = choice_ok c"
  "choice_ok (c\<lparr>rc_since_probe := x9\<rparr>) = choice_ok c" "choice_ok (c\<lparr>rc_probe_wait := x10\<rparr>) = choice_ok c"
  "choice_ok (c\<lparr>rc_family := x11\<rparr>) = choice_ok c" "choice_ok (c\<lparr>rc_accounts := x12\<rparr>) = choice_ok c"
  "choice_ok (c\<lparr>rc_ofdm_failed := x13\<rparr>) = choice_ok c" "choice_ok (c\<lparr>rc_clean_at := x14\<rparr>) = choice_ok c"
  by (simp_all add: choice_ok_def)

lemma prices_ok_frame [simp]:
  "prices_ok (c\<lparr>rc_burst_frames := x2\<rparr>) = prices_ok c" "prices_ok (c\<lparr>rc_families := x3\<rparr>) = prices_ok c"
  "prices_ok (c\<lparr>rc_probing := x4\<rparr>) = prices_ok c" "prices_ok (c\<lparr>rc_probe_tries := x5\<rparr>) = prices_ok c"
  "prices_ok (c\<lparr>rc_try_frames := x6\<rparr>) = prices_ok c" "prices_ok (c\<lparr>rc_index := x7\<rparr>) = prices_ok c"
  "prices_ok (c\<lparr>rc_smoothed_snr_db := x8\<rparr>) = prices_ok c" "prices_ok (c\<lparr>rc_since_probe := x9\<rparr>) = prices_ok c"
  "prices_ok (c\<lparr>rc_probe_wait := x10\<rparr>) = prices_ok c" "prices_ok (c\<lparr>rc_family := x11\<rparr>) = prices_ok c"
  "prices_ok (c\<lparr>rc_accounts := x12\<rparr>) = prices_ok c" "prices_ok (c\<lparr>rc_ofdm_failed := x13\<rparr>) = prices_ok c"
  "prices_ok (c\<lparr>rc_clean_at := x14\<rparr>) = prices_ok c" "prices_ok (c\<lparr>rc_echo := x15\<rparr>) = prices_ok c"
  by (simp_all add: prices_ok_def)

lemma outcome_ok_frame [simp]:
  "outcome_ok (c\<lparr>rc_control_s := x0\<rparr>) f = outcome_ok c f" "outcome_ok (c\<lparr>rc_gap_s := x1\<rparr>) f = outcome_ok c f"
  "outcome_ok (c\<lparr>rc_burst_frames := x2\<rparr>) f = outcome_ok c f" "outcome_ok (c\<lparr>rc_families := x3\<rparr>) f = outcome_ok c f"
  "outcome_ok (c\<lparr>rc_probing := x4\<rparr>) f = outcome_ok c f" "outcome_ok (c\<lparr>rc_probe_tries := x5\<rparr>) f = outcome_ok c f"
  "outcome_ok (c\<lparr>rc_try_frames := x6\<rparr>) f = outcome_ok c f" "outcome_ok (c\<lparr>rc_index := x7\<rparr>) f = outcome_ok c f"
  "outcome_ok (c\<lparr>rc_smoothed_snr_db := x8\<rparr>) f = outcome_ok c f" "outcome_ok (c\<lparr>rc_since_probe := x9\<rparr>) f = outcome_ok c f"
  "outcome_ok (c\<lparr>rc_probe_wait := x10\<rparr>) f = outcome_ok c f" "outcome_ok (c\<lparr>rc_family := x11\<rparr>) f = outcome_ok c f"
  "outcome_ok (c\<lparr>rc_accounts := x12\<rparr>) f = outcome_ok c f" "outcome_ok (c\<lparr>rc_ofdm_failed := x13\<rparr>) f = outcome_ok c f"
  "outcome_ok (c\<lparr>rc_clean_at := x14\<rparr>) f = outcome_ok c f" "outcome_ok (c\<lparr>rc_echo := x15\<rparr>) f = outcome_ok c f"
  by (simp_all add: outcome_ok_def n_rungs_of_def)


section \<open>Estimates\<close>

lemma decode_probability_bounds:
  "0 \<le> decode_probability s t w \<and> decode_probability s t w \<le> 1"
  by (simp add: decode_probability_def Let_def divide_le_eq_1 add_pos_pos)

lemma decode_probability_mono:
  assumes "0 < w" "s \<le> s'"
  shows "decode_probability s t w \<le> decode_probability s' t w"
proof -
  have "(s - t) / w \<le> (s' - t) / w" using assms by (simp add: divide_right_mono)
  moreover have "x \<le> y \<Longrightarrow> 1 / (1 + exp (- x) / 9) \<le> 1 / (1 + exp (- y) / 9)" for x y :: real
    by (intro divide_left_mono mult_pos_pos add_pos_pos) auto
  ultimately show ?thesis
    using decode_probability_bounds [of s' t w] by (auto simp: decode_probability_def Let_def)
qed

lemma in_table:
  assumes "shape_ok c" "m < n_rungs_of c"
  shows "m < length (rc_thresholds c)" "capacity_at c m = rc_capacity c ! m"
    "frame_s_at c m = rc_frame_s c ! m" "0 < frame_s_at c m"
  using assms by (auto simp: shape_ok_def n_rungs_of_def capacity_at_def frame_s_at_def nth_default_def)

lemma account_at_ok:
  assumes "shape_ok c" "accounts_ok c" "m < n_rungs_of c"
  shows "account_ok (capacity_at c m) (frame_s_at c m) (account_at c m)"
  using assms in_table [OF assms(1,3)]
  by (auto simp: account_at_def accounts_ok_def flat_at_def nth_default_def account_ok_def
      account_default_def split: option.splits)

lemma rating_between:
  assumes "account_ok cap s a" "0 < s" "0 \<le> p" "p \<le> 1" "0 < w"
  shows "0 < ac_air_s a + w * s"
    "0 \<le> (ac_bytes a + w * (real cap * p)) / (ac_air_s a + w * s)"
    "(ac_bytes a + w * (real cap * p)) / (ac_air_s a + w * s) \<le> real cap / s"
proof -
  show pos: "0 < ac_air_s a + w * s" using assms by (auto simp: account_ok_def intro: add_nonneg_pos)
  show "0 \<le> (ac_bytes a + w * (real cap * p)) / (ac_air_s a + w * s)"
    using assms pos by (intro divide_nonneg_pos) (auto simp: account_ok_def)
  have "(ac_bytes a + w * (real cap * p)) * s = ac_bytes a * s + (w * s) * (real cap * p)"
    by (simp add: algebra_simps)
  also have "\<dots> \<le> real cap * ac_air_s a + (w * s) * (real cap * 1)"
    using assms by (intro add_mono mult_left_mono) (auto simp: account_ok_def)
  also have "\<dots> = real cap * (ac_air_s a + w * s)" by (simp add: algebra_simps)
  finally have "(ac_bytes a + w * (real cap * p)) * s \<le> real cap * (ac_air_s a + w * s)" .
  then show "(ac_bytes a + w * (real cap * p)) / (ac_air_s a + w * s) \<le> real cap / s"
    using assms pos by (simp add: field_simps)
qed

lemma estimate_at_ok:
  assumes "shape_ok c" "accounts_ok c" "m < n_rungs_of c"
  shows "returns (estimate_at c m snr) (\<lambda>e. 0 \<le> e \<and> e \<le> lossless c m)"
proof -
  have w: "rc_prior_frames c = 2" using assms(1) by (simp add: shape_ok_def)
  note bounds = rating_between [OF account_at_ok [OF assms] in_table(4) [OF assms(1,3)]]
  show ?thesis
  proof (cases snr)
    case None
    then show ?thesis using bounds [of 0 2] by (simp add: estimate_at_def w Let_def lossless_def)
  next
    case (Some v)
    then show ?thesis using bounds [OF conjunct1 [OF decode_probability_bounds]
        conjunct2 [OF decode_probability_bounds], of 2] in_table(1) [OF assms(1,3)]
      by (simp add: estimate_at_def w Let_def lossless_def prior_p_def)
  qed
qed

lemma value_defined:
  assumes "shape_ok c" "m < n_rungs_of c"
  shows "\<exists>v. rung_value c m = Some v"
  using in_table(1) [OF assms]
  by (auto simp: rung_value_def estimate_def estimate_at_def prior_p_def Let_def split: option.splits)

lemma modes_in_table:
  "shape_ok c \<Longrightarrow> i < length (rc_modes c) \<Longrightarrow> rc_modes c ! i < n_rungs_of c"
  by (simp add: shape_ok_def)

section \<open>The best rung\<close>

definition is_best ::
  "(nat \<Rightarrow> f64 option) \<Rightarrow> (nat \<Rightarrow> bool) \<Rightarrow> nat list \<Rightarrow> nat list \<Rightarrow> (nat \<times> f64) option \<Rightarrow> bool" where
  "is_best val allowed modes is best \<longleftrightarrow> (case best of
       None \<Rightarrow> \<forall>i\<in>set is. \<not> allowed i
     | Some (i, v) \<Rightarrow> i \<in> set is \<and> allowed i \<and> val (modes ! i) = Some v \<and>
         (\<forall>j\<in>set is. allowed j \<longrightarrow> (\<exists>w. val (modes ! j) = Some w \<and> w \<le> v)))"

lemma best_rung_ok:
  assumes "\<forall>i\<in>set is. i < length modes \<and> (\<exists>v. val (modes ! i) = Some v)"
  shows "returns (best_rung val allowed modes is) (is_best val allowed modes is)"
  using assms
proof (induction "is" rule: rev_induct)
  case Nil
  then show ?case by (simp add: best_rung_def is_best_def)
next
  case (snoc i xs)
  from snoc.prems obtain v where i: "i < length modes" "val (modes ! i) = Some v" by auto
  have "returns (best_rung val allowed modes xs) (is_best val allowed modes xs)"
    using snoc by simp
  then show ?case
    unfolding best_rung_def for_each_append returns_bind
  proof (rule returns_mono)
    fix b assume "is_best val allowed modes xs b"
    with i show "returns (for_each (\<lambda>i best. if allowed i
        then get modes i \<bind> (\<lambda>m. val m \<bind> (\<lambda>v. Some (better i v best))) else Some best) [i] b)
      (is_best val allowed modes (xs @ [i]))"
      by (cases b) (force simp: is_best_def better_def)+
  qed
qed

section \<open>The operations keep the invariant\<close>

lemma for_table_ok:
  assumes "for_table th pl cap fs fm el = Some c" "\<forall>s\<in>set fs. 0 < s"
    "usable_modes_by_rate th pl fs \<noteq> []"
  shows "rate_ok c"
  using assms front_ascending [of th pl fs]
  by (auto simp: for_table_def Let_def rate_ok_def shape_ok_def accounts_ok_def waits_ok_def family_ok_def
      try_ok_def choice_ok_def prices_ok_def n_rungs_of_def echo_out_def in_front_iff split: if_splits)

lemma price_exchanges_ok:
  "rate_ok c \<Longrightarrow> 0 \<le> a \<Longrightarrow> 0 \<le> b \<Longrightarrow> 0 \<le> g \<Longrightarrow> rate_ok (price_exchanges a b g fs c)"
  by (simp add: price_exchanges_def rate_ok_def prices_ok_def)

lemma set_families_ok: "rate_ok c \<Longrightarrow> rate_ok (set_families a b c)"
  by (simp add: set_families_def rate_ok_def)

lemma observe_snr_ok: "rate_ok c \<Longrightarrow> rate_ok (observe_snr s c)"
  by (simp add: observe_snr_def rate_ok_def split: option.splits)

lemma cancel_try_ok: "rate_ok c \<Longrightarrow> rate_ok (cancel_try c)"
  by (simp add: cancel_try_def rate_ok_def) (simp add: try_ok_def)

lemma set_index_ok:
  "rate_ok c \<Longrightarrow> i = 0 \<or> rung_usable c i \<Longrightarrow> rate_ok (c\<lparr>rc_index := i\<rparr>)"
  by (auto simp: rate_ok_def choice_ok_def shape_ok_def rung_usable_def)

lemma set_since_ok:
  "rate_ok c \<Longrightarrow> m < n_rungs_of c \<Longrightarrow> 0 \<le> s \<Longrightarrow>
    returns (set_since m s c) (\<lambda>c'. rate_ok c' \<and> c' = c\<lparr>rc_since_probe := rc_since_probe c'\<rparr>)"
  by (auto simp: set_since_def rate_ok_def waits_ok_def dest!: subsetD [OF set_update_subset_insert])

lemma set_wait_ok:
  "rate_ok c \<Longrightarrow> m < n_rungs_of c \<Longrightarrow> 6 \<le> w \<Longrightarrow> w \<le> 48 \<Longrightarrow>
    returns (set_wait m w c) (\<lambda>c'. rate_ok c' \<and> c' = c\<lparr>rc_probe_wait := rc_probe_wait c'\<rparr>)"
  by (auto simp: set_wait_def rate_ok_def waits_ok_def dest!: subsetD [OF set_update_subset_insert])

lemma silent_ok: "rate_ok c \<Longrightarrow> rate_ok (silent n c)"
  unfolding silent_def Let_def
  by (auto intro!: set_index_ok cancel_try_ok split: option.split simp: last_at_most_Some)

lemma rate_ok_modes:
  assumes "rate_ok c"
  shows "rc_index c < length (rc_modes c)"
    "i < length (rc_modes c) \<Longrightarrow> rc_modes c ! i < n_rungs_of c"
    "choice c = Some (rc_modes c ! rc_index c)"
  using assms by (auto simp: rate_ok_def choice_ok_def modes_in_table choice_def)

lemma returns_value:
  "rate_ok c \<Longrightarrow> m < n_rungs_of c \<Longrightarrow> (\<And>v. rung_value c m = Some v \<Longrightarrow> P v) \<Longrightarrow> returns (rung_value c m) P"
  using value_defined [of c m] by (auto simp: rate_ok_def returns_def)

lemma wait_ok:
  assumes "rate_ok c" shows "6 \<le> wait c m" "wait c m \<le> 48"
  using assms
  by (auto simp: rate_ok_def waits_ok_def shape_ok_def wait_def dest: flat_at_mem split: option.splits)

lemma since_ok: "rate_ok c \<Longrightarrow> 0 \<le> since c m"
  by (auto simp: rate_ok_def waits_ok_def since_def dest: flat_at_mem split: option.splits)

lemma wait_s_ok:
  assumes "rate_ok c" shows "0 \<le> wait_s c m"
proof -
  have "0 \<le> frame_s_at c m"
    using assms nth_mem [of m "rc_frame_s c"]
    by (auto simp: rate_ok_def shape_ok_def frame_s_at_def nth_default_def less_imp_le)
  then show ?thesis by (simp add: wait_s_def)
qed

lemma clean_climb_defined:
  "rate_ok c \<Longrightarrow> m < n_rungs_of c \<Longrightarrow> \<exists>b. clean_climb m c = Some b"
  using value_defined [of c m] value_defined [of c "rc_modes c ! rc_index c"] rate_ok_modes [of c]
  by (auto simp: clean_climb_def rate_ok_def)

lemma consider_try_ok:
  assumes "rate_ok c"
  shows "returns (consider_try c) (\<lambda>c'. rate_ok c' \<and> rc_index c' = rc_index c)"
proof (cases "rc_probing c")
  case (Some probe)
  then show ?thesis using assms cancel_try_ok [OF assms]
    by (simp add: consider_try_def Let_def cancel_try_def)
next
  case None
  show ?thesis
  proof (cases "rung_usable c (rc_index c + 1)")
    case False
    with None assms show ?thesis by (simp add: consider_try_def)
  next
    case up: True
    let ?m = "rc_modes c ! (rc_index c + 1)"
    have m: "rc_index c + 1 < length (rc_modes c)" "?m < n_rungs_of c"
      using up rate_ok_modes [OF assms] by (auto simp: rung_usable_def)
    have started: "rate_ok (c\<lparr>rc_probing := Some ?m\<rparr>)"
      using assms None up by (auto simp: rate_ok_def try_ok_def)
    have "returns (set_since ?m 0 (c\<lparr>rc_probing := Some ?m\<rparr>))
            (\<lambda>c'. rate_ok c' \<and> rc_index c' = rc_index c)"
      by (rule returns_mono [OF set_since_ok [OF started]]) (use m in \<open>auto dest: arg_cong [of _ _ rc_index]\<close>)
    with None up m assms clean_climb_defined [OF assms m(2)] show ?thesis
      by (auto simp: consider_try_def Let_def rate_ok_modes returns_if intro!: returns_value)
  qed
qed

lemma decide_best:
  assumes "rate_ok c"
  shows "returns (best_rung (rung_value c) (decide_allowed c) (rc_modes c) [0..<length (rc_modes c)])
    (is_best (rung_value c) (decide_allowed c) (rc_modes c) [0..<length (rc_modes c)])"
  using assms rate_ok_modes(2) [OF assms] value_defined
  by (intro best_rung_ok) (auto simp: rate_ok_def)

lemma decide_ok:
  assumes "rate_ok c"
  shows "returns (decide c) rate_ok"
  unfolding decide_def returns_bind
proof (rule returns_mono [OF decide_best [OF assms]])
  fix best assume b: "is_best (rung_value c) (decide_allowed c) (rc_modes c) [0..<length (rc_modes c)] best"
  show "returns (case best of None \<Rightarrow> Some (cancel_try (c\<lparr>rc_index := 0\<rparr>))
      | Some (i, v) \<Rightarrow> consider_try (c\<lparr>rc_index := i\<rparr>)) rate_ok"
  proof (cases best)
    case None
    then show ?thesis using assms by (simp add: cancel_try_ok set_index_ok)
  next
    case (Some p)
    then obtain i v where p: "best = Some (i, v)" by (cases p) simp
    with b have "rung_usable c i" by (simp add: is_best_def decide_allowed_def)
    then have "returns (consider_try (c\<lparr>rc_index := i\<rparr>)) rate_ok"
      by (intro returns_mono [OF consider_try_ok [OF set_index_ok [OF assms]]]) auto
    with p show ?thesis by simp
  qed
qed

lemma judge_try_ok:
  assumes "rate_ok c" "m < n_rungs_of c"
  shows "returns (judge_try m c)
    (\<lambda>(ok, c'). rate_ok c' \<and> (\<exists>ws ss. c' = c\<lparr>rc_probe_wait := ws, rc_since_probe := ss\<rparr>))"
proof -
  have every: "rc_probe_every c = 6" "rc_probe_wait_max c = 48"
    using assms by (auto simp: rate_ok_def shape_ok_def)
  have "returns (set_wait m 6 c) (\<lambda>c'. rate_ok c' \<and>
      (\<exists>ws ss. c' = c\<lparr>rc_probe_wait := ws, rc_since_probe := ss\<rparr>))"
    by (rule returns_mono [OF set_wait_ok [OF assms]]) (force intro: exI [of _ "rc_since_probe c"])+
  moreover have "returns (set_wait m (min 48 (2 * wait c m)) c) (\<lambda>c1. returns (set_since m 0 c1)
      (\<lambda>c'. rate_ok c' \<and> (\<exists>ws ss. c' = c\<lparr>rc_probe_wait := ws, rc_since_probe := ss\<rparr>)))"
  proof (rule returns_mono [OF set_wait_ok [OF assms]])
    fix c1 assume c1: "rate_ok c1 \<and> c1 = c\<lparr>rc_probe_wait := rc_probe_wait c1\<rparr>"
    then have "m < n_rungs_of c1" using assms by (metis n_rungs_of_frame(11))
    with c1 show "returns (set_since m 0 c1)
        (\<lambda>c'. rate_ok c' \<and> (\<exists>ws ss. c' = c\<lparr>rc_probe_wait := ws, rc_since_probe := ss\<rparr>))"
      by (intro returns_mono [OF set_since_ok]) (auto, metis)
  qed (use wait_ok [OF assms(1), of m] in auto)
  ultimately show ?thesis
    unfolding judge_try_def every using assms rate_ok_modes [OF assms(1)]
    by (auto simp: returns_if intro!: returns_value)
qed

lemma position_nth:
  "i < length xs \<Longrightarrow> distinct xs \<Longrightarrow> position (\<lambda>x. x = xs ! i) xs = Some i"
  using position_None_iff [of "\<lambda>x. x = xs ! i" xs]
  by (cases "position (\<lambda>x. x = xs ! i) xs")
    (auto dest!: position_SomeD simp: nth_eq_iff_index_eq dest: nth_mem)

lemma end_probe_ok:
  assumes ok: "rate_ok (cancel_try c0)" and m: "rc_probing c0 = Some m"
    and i: "rung_usable c0 i" "rc_modes c0 ! i = m"
  shows "returns (end_probe b c0) rate_ok"
proof -
  let ?c = "cancel_try c0"
  have same: "rc_modes ?c = rc_modes c0" "rung_usable ?c = rung_usable c0" "n_rungs_of ?c = n_rungs_of c0"
    by (simp_all add: cancel_try_def fun_eq_iff)
  have i': "i < length (rc_modes c0)" using i by (simp add: rung_usable_def)
  have n: "m < n_rungs_of ?c" using rate_ok_modes(2) [OF ok, of i] i i' same by simp
  have pos: "position (\<lambda>x. x = m) (rc_modes c0) = Some i"
    using position_nth [OF i'] i ok same by (auto simp: rate_ok_def shape_ok_def)
  have climb: "returns (let c2 = c1\<lparr>rc_index := i\<rparr> in
        if rung_usable c2 (i + 1)
        then get (rc_modes c2) (i + 1) \<bind> (\<lambda>above. set_since above (wait_s c2 above) c2)
        else Some c2) rate_ok"
    if c1: "rate_ok c1" "c1 = ?c\<lparr>rc_probe_wait := ws, rc_since_probe := ss\<rparr>" for c1 ws ss
  proof -
    have "rung_usable c1 i" using i c1(2) same by simp
    then have c2: "rate_ok (c1\<lparr>rc_index := i\<rparr>)" using c1 by (simp add: set_index_ok)
    then show ?thesis
      using rate_ok_modes(2) [OF c2, of "i + 1"] wait_s_ok [OF c2]
      by (auto simp: Let_def rung_usable_def intro!: returns_mono [OF set_since_ok])
  qed
  show ?thesis
  proof (cases b)
    case False
    with m ok show ?thesis by (simp add: end_probe_def)
  next
    case True
    have "returns (judge_try m ?c) (\<lambda>(good, c1). returns (if \<not> good then Some c1 else
        let i = (case position (\<lambda>x. x = m) (rc_modes c1) of None \<Rightarrow> rc_index c1 | Some i \<Rightarrow> i);
            c2 = c1\<lparr>rc_index := i\<rparr>
        in if rung_usable c2 (i + 1)
           then get (rc_modes c2) (i + 1) \<bind> (\<lambda>above. set_since above (wait_s c2 above) c2)
           else Some c2) rate_ok)"
    proof (rule returns_mono [OF judge_try_ok [OF ok n]], clarify)
      fix good c1 ws ss
      assume c1: "rate_ok (?c\<lparr>rc_probe_wait := ws, rc_since_probe := ss\<rparr>)"
      show "returns (if \<not> good then Some (?c\<lparr>rc_probe_wait := ws, rc_since_probe := ss\<rparr>) else
        let i = (case position (\<lambda>x. x = m) (rc_modes (?c\<lparr>rc_probe_wait := ws, rc_since_probe := ss\<rparr>)) of
                   None \<Rightarrow> rc_index (?c\<lparr>rc_probe_wait := ws, rc_since_probe := ss\<rparr>) | Some i \<Rightarrow> i);
            c2 = ?c\<lparr>rc_probe_wait := ws, rc_since_probe := ss\<rparr>\<lparr>rc_index := i\<rparr>
        in if rung_usable c2 (i + 1)
           then get (rc_modes c2) (i + 1) \<bind> (\<lambda>above. set_since above (wait_s c2 above) c2)
           else Some c2) rate_ok"
        using climb [OF c1 refl] c1 pos same by (simp add: Let_def)
    qed
    then show ?thesis
      using True m by (simp add: end_probe_def Let_def split_def)
  qed
qed

lemma count_try_ok:
  assumes "rate_ok c"
  shows "returns (count_try fs c) rate_ok"
proof (cases "rc_probing c")
  case None
  with assms show ?thesis by (simp add: count_try_def)
next
  case (Some m)
  let ?k = "length (filter (\<lambda>f. fo_mode f = m) fs)"
  let ?c = "c\<lparr>rc_probe_tries := rc_probe_tries c + 1, rc_try_frames := rc_try_frames c + ?k\<rparr>"
  from assms Some obtain i where i: "rung_usable c i" "rc_modes c ! i = m"
    by (auto simp: rate_ok_def try_ok_def)
  have two: "rc_prior_frames c = 2" using assms by (simp add: rate_ok_def shape_ok_def)
  show ?thesis
  proof (cases "try_over ?c")
    case True
    have "cancel_try ?c = cancel_try c" by (simp add: cancel_try_def)
    with assms have "rate_ok (cancel_try ?c)" by (simp add: cancel_try_ok)
    from end_probe_ok [OF this, of m i] i Some True show ?thesis by (simp add: count_try_def Let_def)
  next
    case False
    then have "try_ok ?c" using two Some i by (auto simp: try_ok_def try_over_def Let_def)
    with assms have "rate_ok ?c" by (simp add: rate_ok_def)
    with Some False show ?thesis by (simp add: count_try_def Let_def)
  qed
qed

lemma account_ok_scale:
  assumes "account_ok cap s a" "0 \<le> k" shows "account_ok cap s (scale_account k a)"
proof -
  have "ac_bytes a * s * k \<le> real cap * ac_air_s a * k"
    using assms by (intro mult_right_mono) (auto simp: account_ok_def)
  with assms show ?thesis by (simp add: account_ok_def scale_account_def mult_ac)
qed

lemma account_ok_credit:
  assumes "account_ok cap s a" "0 \<le> k" "0 < s" "s \<le> fo_air_s f" "fo_capacity f \<le> cap"
  shows "account_ok cap s (credit k f a)"
proof -
  note b = account_ok_scale [OF assms(1,2)]
  have "real (fo_capacity f) * s \<le> real cap * fo_air_s f"
    using assms by (intro mult_mono) auto
  moreover have "0 \<le> real cap * fo_air_s f" using assms by (intro mult_nonneg_nonneg) auto
  ultimately show ?thesis
    using b assms
    by (auto simp: credit_def Let_def account_ok_def algebra_simps intro: add_increasing mult_nonneg_nonneg)
qed

lemma account_ok_default: "account_ok cap s account_default"
  by (simp add: account_ok_def account_default_def)

lemma learn_family_ok:
  assumes "rate_ok c"
  shows "returns (learn_family snr f c) (\<lambda>c'. rate_ok c' \<and> (\<exists>x. c' = c\<lparr>rc_family := x\<rparr>))"
proof -
  have "clamp x (-5) 20 \<ge> -5 \<and> clamp x (-5) 20 \<le> 20" for x :: real
    by (rule clamp_bounds) simp
  then have "family_ok (c\<lparr>rc_family := (fst (rc_family c), clamp x (-5) 20)\<rparr>)"
    "family_ok (c\<lparr>rc_family := (clamp x (-5) 20, snd (rc_family c))\<rparr>)" for x
    using assms by (auto simp: rate_ok_def family_ok_def)
  moreover have "\<exists>x. c = c\<lparr>rc_family := x\<rparr>" by (rule exI [of _ "rc_family c"]) simp
  ultimately show ?thesis
    using assms by (auto simp: learn_family_def prior_p_def rate_ok_def Let_def)
qed

lemma aged_eq:
  "m < length (rc_frame_s c) \<Longrightarrow> aged c f (m, old) = Some (if m = fo_mode f then old else
     map_option (scale_account (0.5 powr (fo_air_s f / (rc_half_life c * rc_frame_s c ! m)))) old)"
  by (cases old) simp_all

lemma take_frame_ok:
  assumes ok: "rate_ok c" and f: "outcome_ok c f"
  shows "returns (take_frame f c) (\<lambda>c'. rate_ok c' \<and> (\<exists>x. c' = c\<lparr>rc_accounts := x\<rparr>))"
proof -
  let ?n = "n_rungs_of c"
  have len: "length (rc_accounts c) = ?n" "length (rc_frame_s c) = ?n"
    using ok by (auto simp: rate_ok_def accounts_ok_def shape_ok_def)
  define new where "new m = (if m = fo_mode f then rc_accounts c ! m else map_option
     (scale_account (0.5 powr (fo_air_s f / (rc_half_life c * rc_frame_s c ! m)))) (rc_accounts c ! m))" for m
  have "map (aged c f) (enumerate 0 (rc_accounts c)) = map Some (map new [0..<?n])"
    unfolding map_enumerate
    by (simp add: new_def len aged_eq del: aged.simps)
  then have those: "those (map (aged c f) (enumerate 0 (rc_accounts c))) = Some (map new [0..<?n])"
    using returns_those [of "map Some (map new [0..<?n])" "\<lambda>xs. xs = map new [0..<?n]"]
    by (auto simp: returns_def)
  have new: "account_ok (rc_capacity c ! m) (rc_frame_s c ! m) a" if "m < ?n" "new m = Some a" for m a
    using ok that by (auto simp: new_def rate_ok_def accounts_ok_def split: if_splits
        intro!: account_ok_scale)
  have mine: "account_ok (rc_capacity c ! fo_mode f) (rc_frame_s c ! fo_mode f)
      (case flat_at (map new [0..<?n]) (fo_mode f) of None \<Rightarrow> account_default | Some a \<Rightarrow> a)"
    using new f by (auto simp: flat_at_def nth_default_def account_ok_default outcome_ok_def split: option.split)
  have "0 < rc_frame_s c ! fo_mode f"
    using ok f len by (auto simp: rate_ok_def shape_ok_def outcome_ok_def)
  with mine f have credited: "account_ok (rc_capacity c ! fo_mode f) (rc_frame_s c ! fo_mode f) (credit k f
      (case flat_at (map new [0..<?n]) (fo_mode f) of None \<Rightarrow> account_default | Some a \<Rightarrow> a))" if "0 \<le> k" for k
    using that by (intro account_ok_credit) (auto simp: outcome_ok_def)
  show ?thesis
    using ok f new credited unfolding take_frame_def those
    by (auto simp: Let_def rate_ok_def accounts_ok_def nth_list_update outcome_ok_def split: if_splits)
qed

lemma judge_family_ok: "rate_ok c \<Longrightarrow> rate_ok (judge_family fs c)"
  by (simp add: judge_family_def Let_def rate_ok_def)

lemma add_air_ok:
  assumes "rate_ok c" "m < n_rungs_of c" "0 \<le> air"
  shows "returns (add_air air m c) (\<lambda>c'. rate_ok c' \<and> c' = c\<lparr>rc_since_probe := rc_since_probe c'\<rparr>)"
  unfolding add_air_def using since_ok [OF assms(1)] assms by (intro set_since_ok) auto

lemma judge_sent_ok:
  assumes "rate_ok c" "m < n_rungs_of c"
  shows "returns (judge_sent here m c)
    (\<lambda>c'. rate_ok c' \<and> (\<exists>ws ss. c' = c\<lparr>rc_probe_wait := ws, rc_since_probe := ss\<rparr>))"
proof -
  have "\<exists>ws ss. c = c\<lparr>rc_probe_wait := ws, rc_since_probe := ss\<rparr>"
    by (intro exI [of _ "rc_probe_wait c"] exI [of _ "rc_since_probe c"]) simp
  with assms judge_try_ok [OF assms] show ?thesis
    by (auto simp: judge_sent_def split_def elim!: returns_mono)
qed

definition outcomes_ok :: "frame_outcome list \<Rightarrow> rate_controller \<Rightarrow> bool" where
  "outcomes_ok fs c \<longleftrightarrow> (\<forall>f\<in>set fs. outcome_ok c f)"

lemma outcomes_ok_frame [simp]:
  "outcomes_ok fs (c\<lparr>rc_family := x\<rparr>) = outcomes_ok fs c"
  "outcomes_ok fs (c\<lparr>rc_accounts := y\<rparr>) = outcomes_ok fs c"
  "outcomes_ok fs (c\<lparr>rc_since_probe := z\<rparr>) = outcomes_ok fs c"
  "outcomes_ok fs (c\<lparr>rc_probe_wait := w\<rparr>) = outcomes_ok fs c"
  "outcomes_ok fs (c\<lparr>rc_ofdm_failed := b\<rparr>) = outcomes_ok fs c"
  "outcomes_ok fs (c\<lparr>rc_clean_at := d\<rparr>) = outcomes_ok fs c"
  "outcomes_ok fs (c\<lparr>rc_smoothed_snr_db := e\<rparr>) = outcomes_ok fs c"
  by (simp_all add: outcomes_ok_def)

lemma outcome_air:
  assumes "rate_ok c" "outcome_ok c f" shows "0 \<le> fo_air_s f"
proof -
  have "0 < rc_frame_s c ! fo_mode f" using assms by (auto simp: rate_ok_def shape_ok_def outcome_ok_def)
  with assms(2) show ?thesis by (simp add: outcome_ok_def)
qed

lemma observe_frames_ok:
  assumes ok: "rate_ok c" and fs: "outcomes_ok fs c"
  shows "returns (observe_frames fs snr c) rate_ok"
proof (cases "fs = []")
  case True
  with ok show ?thesis by (simp add: observe_frames_def observe_snr_ok)
next
  case False
  let ?good = "\<lambda>c. rate_ok c \<and> outcomes_ok fs c"
  let ?c1 = "observe_snr snr c"
  have air: "0 \<le> sum_list (map fo_air_s fs)"
    using outcome_air [OF ok] fs by (auto simp: outcomes_ok_def intro!: sum_list_nonneg)
  have 1: "?good ?c1" using ok fs observe_snr_ok [OF ok]
    by (simp add: observe_snr_def split: option.split)
  have 2: "returns (for_each (learn_family s) fs ?c1) ?good" for s
  proof (rule returns_for_each [where I = ?good, OF _ 1])
    fix f c assume "?good c"
    then show "returns (learn_family s f c) ?good"
      by (intro returns_mono [OF learn_family_ok]) auto
  qed
  have 3: "returns (for_each take_frame fs c2) ?good" if "?good c2" for c2
  proof (rule returns_for_each [where I = ?good, OF _ that])
    fix f c assume "f \<in> set fs" "?good c"
    then show "returns (take_frame f c) ?good"
      by (intro returns_mono [OF take_frame_ok]) (auto simp: outcomes_ok_def)
  qed
  have 5: "returns (for_each (add_air (sum_list (map fo_air_s fs))) (rc_modes c4) c4) ?good"
    if c4: "?good c4" for c4
  proof -
    let ?I = "\<lambda>c. ?good c \<and> n_rungs_of c = n_rungs_of c4"
    have step: "returns (add_air (sum_list (map fo_air_s fs)) m c) ?I"
      if m: "m \<in> set (rc_modes c4)" and c: "?I c" for m c
    proof -
      have "m < n_rungs_of c" using m c c4 by (auto simp: rate_ok_def shape_ok_def)
      with c air have "returns (add_air (sum_list (map fo_air_s fs)) m c)
        (\<lambda>c'. rate_ok c' \<and> c' = c\<lparr>rc_since_probe := rc_since_probe c'\<rparr>)" by (intro add_air_ok) auto
      then show ?thesis
        by (rule returns_mono) (metis c outcomes_ok_frame(3) n_rungs_of_frame(10))
    qed
    show ?thesis
      by (rule returns_mono [OF returns_for_each [of "rc_modes c4" ?I, OF step]]) (use c4 in auto)
  qed
  have 7: "returns (for_each (judge_sent here) (remdups_adj (sort (map fo_mode fs))) c6) ?good"
    if c6: "?good c6" for here c6
  proof (rule returns_for_each [where I = ?good, OF _ c6])
    fix m c assume "m \<in> set (remdups_adj (sort (map fo_mode fs)))" "?good c"
    then show "returns (judge_sent here m c) ?good"
      by (intro returns_mono [OF judge_sent_ok]) (auto simp: outcomes_ok_def outcome_ok_def)
  qed
  have 8: "returns (count_try fs c7 \<bind> decide) rate_ok" if "?good c7" for c7
    using that by (auto intro: returns_mono [OF count_try_ok] decide_ok)
  have 6: "?good c5 \<Longrightarrow> ?good (c5\<lparr>rc_clean_at := x\<rparr>)" for c5 x by (simp add: rate_ok_def)
  have 4: "?good c3 \<Longrightarrow> ?good (judge_family fs c3)" for c3
    by (simp add: judge_family_ok) (simp add: judge_family_def Let_def)
  have rest: "returns (for_each take_frame fs c2) (\<lambda>c3. returns
      (for_each (add_air (sum_list (map fo_air_s fs))) (rc_modes (judge_family fs c3)) (judge_family fs c3))
      (\<lambda>c5. returns (choice c5) (\<lambda>here. returns
        (for_each (judge_sent here) (remdups_adj (sort (map fo_mode fs))) (c5\<lparr>rc_clean_at := g here\<rparr>))
        (\<lambda>c7. returns (count_try fs c7) (\<lambda>c8. returns (decide c8) rate_ok)))))" if "?good c2" for c2 g
    using 8 rate_ok_modes(3)
    by (auto intro!: returns_mono [OF 3 [OF that]] returns_mono [OF 5 [OF 4]] returns_mono [OF 7 [OF 6]])
  have "returns (case (rc_family_gain_db ?c1 \<noteq> 0, rc_smoothed_snr_db ?c1) of
      (True, Some snr) \<Rightarrow> for_each (learn_family snr) fs ?c1 | _ \<Rightarrow> Some ?c1) ?good"
    using 1 2 by (auto split: option.split bool.split)
  then show ?thesis
    unfolding observe_frames_def Let_def
    by (simp only: False if_False returns_bind) (erule returns_mono, erule rest)
qed

lemma observe_echo_ok:
  assumes ok: "rate_ok c0"
  shows "returns (observe_echo share snr c0) rate_ok"
proof (cases "share = None \<or> snr < rc_echo_min_snr_db c0")
  case True
  with ok show ?thesis by (auto simp: observe_echo_def split: option.split)
next
  case False
  then obtain s where s: "share = Some s" "\<not> snr < rc_echo_min_snr_db c0" by auto
  define c1 where "c1 = c0\<lparr>rc_echo := Some (case rc_echo c0 of None \<Rightarrow> s
    | Some prev \<Rightarrow> (1 - rc_echo_weight c0) * prev + rc_echo_weight c0 * s)\<rparr>"
  define c2 where "c2 = (case rc_probing c1 of None \<Rightarrow> c1
    | Some probe \<Rightarrow> (case position (\<lambda>m. m = probe) (rc_modes c1) of None \<Rightarrow> c1
        | Some at_ \<Rightarrow> if echo_out c1 at_ then cancel_try c1 else c1))"
  have run: "observe_echo share snr c0 = do {
       here \<leftarrow> choice c2;
       if echo_out c2 (rc_index c2)
       then do {
         best \<leftarrow> best_rung (rung_value c2) (rung_usable c2) (rc_modes c2) [0..<rc_index c2];
         Some (c2\<lparr>rc_index := (case best of None \<Rightarrow> 0 | Some (i, v) \<Rightarrow> i)\<rparr>)
       }
       else Some c2 }"
    using s unfolding observe_echo_def c2_def c1_def Let_def by simp
  have fixed: "shape_ok c1" "accounts_ok c1" "waits_ok c1" "family_ok c1" "prices_ok c1"
    "rc_index c1 < length (rc_modes c1)"
    using ok by (auto simp: rate_ok_def choice_ok_def c1_def)
  have c2: "c2 = c1 \<or> c2 = cancel_try c1" by (auto simp: c2_def split: option.split)
  have tries: "try_ok c2"
  proof (cases "rc_probing c1")
    case None
    then show ?thesis using ok by (simp add: c2_def try_ok_def rate_ok_def c1_def split: option.splits)
  next
    case (Some m)
    with ok obtain i where i: "rung_usable c0 i" "rc_modes c0 ! i = m"
      and few: "rc_probe_tries c1 < 6" "rc_try_frames c1 < 3"
      by (auto simp: rate_ok_def try_ok_def c1_def)
    then have i1: "i < length (rc_modes c1)" "rc_modes c1 ! i = m" by (auto simp: rung_usable_def c1_def)
    then have "position (\<lambda>x. x = m) (rc_modes c1) = Some i"
      using position_nth [of i "rc_modes c1"] fixed(1) by (auto simp: shape_ok_def)
    with Some few i1 show ?thesis
      by (auto simp: c2_def try_ok_def cancel_try_def rung_usable_def)
  qed
  have keep: "shape_ok c2 \<and> accounts_ok c2 \<and> waits_ok c2 \<and> family_ok c2 \<and> prices_ok c2
      \<and> rc_index c2 < length (rc_modes c2)"
    using c2 fixed by (auto simp: cancel_try_def)
  have there: "choice c2 = Some (rc_modes c2 ! rc_index c2)" using keep by (simp add: choice_def)
  show ?thesis
  proof (cases "echo_out c2 (rc_index c2)")
    case False
    with keep tries there show ?thesis unfolding run by (simp add: rate_ok_def choice_ok_def)
  next
    case True
    have "returns (best_rung (rung_value c2) (rung_usable c2) (rc_modes c2) [0..<rc_index c2])
      (is_best (rung_value c2) (rung_usable c2) (rc_modes c2) [0..<rc_index c2])"
      using keep by (intro best_rung_ok) (auto intro!: value_defined modes_in_table)
    moreover have "rate_ok (c2\<lparr>rc_index := (case best of None \<Rightarrow> 0 | Some (i, v) \<Rightarrow> i)\<rparr>)"
      if "is_best (rung_value c2) (rung_usable c2) (rc_modes c2) [0..<rc_index c2] best" for best
      using that keep tries
      by (auto simp: rate_ok_def choice_ok_def is_best_def rung_usable_def shape_ok_def split: option.splits)
    ultimately show ?thesis unfolding run using True there by (auto elim: returns_mono)
  qed
qed

lemma seed_ok:
  assumes ok: "rate_ok c"
  shows "returns (seed snr c) rate_ok"
proof (cases "rc_smoothed_snr_db c")
  case (Some v)
  with ok show ?thesis by (simp add: seed_def)
next
  case None
  let ?c = "c\<lparr>rc_smoothed_snr_db := Some snr\<rparr>"
  let ?val = "\<lambda>m. estimate_at ?c m (Some snr) \<bind> (\<lambda>e. Some (priced ?c m e))"
  let ?is = "[0..<length (rc_modes ?c)]"
  have c: "rate_ok ?c" using ok by (simp add: rate_ok_def)
  have shape: "shape_ok ?c" and dist: "distinct (rc_modes c)" and some: "rc_modes c \<noteq> []"
    using c by (auto simp: rate_ok_def shape_ok_def)
  have val: "\<exists>v. ?val m = Some v" if "m < n_rungs_of ?c" for m
    using estimate_at_ok [OF shape _ that, of "Some snr"] c by (auto simp: rate_ok_def returns_def)
  have "returns (best_rung ?val (\<lambda>i. \<not> echo_out ?c i) (rc_modes ?c) ?is)
          (is_best ?val (\<lambda>i. \<not> echo_out ?c i) (rc_modes ?c) ?is)"
    using val modes_in_table [OF shape] by (intro best_rung_ok) auto
  moreover have "rate_ok (?c\<lparr>rc_index := i\<rparr>)"
    if "is_best ?val (\<lambda>i. \<not> echo_out ?c i) (rc_modes ?c) ?is best"
      "i = (case best of None \<Rightarrow> 0 | Some (i, v) \<Rightarrow> i)" for best i
    using that by (intro set_index_ok [OF c]) (auto simp: is_best_def rung_usable_def split: option.splits)
  moreover have "(case best of None \<Rightarrow> 0 | Some (i, v) \<Rightarrow> i) < length (rc_modes c)"
    if "is_best ?val (\<lambda>i. \<not> echo_out ?c i) (rc_modes ?c) ?is best" for best
    using that some by (auto simp: is_best_def split: option.splits)
  ultimately show ?thesis
    using None dist unfolding seed_def first_mode_def Let_def
    by (auto simp: position_nth elim!: returns_mono)
qed

section \<open>Reachable states\<close>

text \<open>The calls the session makes on the controller, in any order.\<close>

inductive rate_step :: "rate_controller \<Rightarrow> rate_controller \<Rightarrow> bool" where
  price: "0 \<le> a \<Longrightarrow> 0 \<le> b \<Longrightarrow> 0 \<le> g \<Longrightarrow> rate_step c (price_exchanges a b g fs c)"
| families: "rate_step c (set_families own oth c)"
| silence: "rate_step c (silent n c)"
| reading: "rate_step c (observe_snr s c)"
| frames: "outcomes_ok fs c \<Longrightarrow> observe_frames fs s c = Some c' \<Longrightarrow> rate_step c c'"
| echo: "observe_echo share s c = Some c' \<Longrightarrow> rate_step c c'"
| start: "seed s c = Some c' \<Longrightarrow> rate_step c c'"

lemma returnsD: "returns r P \<Longrightarrow> r = Some x \<Longrightarrow> P x"
  by (simp add: returns_def)

lemma rate_step_ok: "rate_step c c' \<Longrightarrow> rate_ok c \<Longrightarrow> rate_ok c'"
proof (induction rule: rate_step.induct)
  case (frames fs c s c')
  then show ?case using returnsD [OF observe_frames_ok] by blast
next
  case (echo share s c c')
  then show ?case using returnsD [OF observe_echo_ok] by blast
next
  case (start s c c')
  then show ?case using returnsD [OF seed_ok] by blast
qed (simp_all add: price_exchanges_ok set_families_ok silent_ok observe_snr_ok)

lemma rate_reachable_ok: "rate_step\<^sup>*\<^sup>* c c' \<Longrightarrow> rate_ok c \<Longrightarrow> rate_ok c'"
  by (induction rule: rtranclp_induct) (auto intro: rate_step_ok)

lemma refuses_defined: "rate_ok c \<Longrightarrow> \<exists>b. refuses c m = Some b"
  using rate_ok_modes by (auto simp: refuses_def Let_def)

section \<open>The progress of a try\<close>

lemma consider_try_tries:
  "consider_try c = Some c' \<Longrightarrow> rc_probing c = Some m \<Longrightarrow>
     c' = c \<or> c' = cancel_try c"
  by (auto simp: consider_try_def Let_def split: if_splits)

lemma set_since_tries: "set_since m s c = Some c' \<Longrightarrow> rc_probe_tries c' = rc_probe_tries c"
  by (auto simp: set_since_def put_def split: if_splits)

lemma consider_try_idle:
  assumes c': "consider_try c = Some c'" and none: "rc_probing c = None" "rc_probe_tries c = 0"
  shows "rc_probe_tries c' = 0"
proof (cases "rung_usable c (rc_index c + 1)")
  case False
  with c' none show ?thesis by (simp add: consider_try_def Let_def)
next
  case True
  with c' none obtain m here v where
    "(if priced c m (lossless c m) \<le> v then Some c
      else do {
        go \<leftarrow> (if since c m \<ge> wait_s c m - WAIT_TOLERANCE_S then Some True else clean_climb m c);
        if go then set_since m 0 (c\<lparr>rc_probing := Some m\<rparr>) else Some c
      }) = Some c'"
    unfolding consider_try_def Let_def none(1) option.case by (auto simp only: bind_eq_Some_conv not_True_eq_False if_False)
  then have "c' = c \<or> (\<exists>m. set_since m 0 (c\<lparr>rc_probing := Some m\<rparr>) = Some c')"
    by (auto simp only: bind_eq_Some_conv option.inject split: if_split_asm)
  with none(2) show ?thesis by (auto dest: set_since_tries)
qed

definition idle_try :: "rate_controller \<Rightarrow> bool" where
  "idle_try c \<longleftrightarrow> (rc_probing c = None \<longrightarrow> rc_probe_tries c = 0)"

lemma decide_tries:
  assumes "decide c = Some c'" "idle_try c"
  shows "rc_probe_tries c' = 0 \<or> rc_probing c' = rc_probing c \<and> rc_probe_tries c' = rc_probe_tries c"
proof -
  from assms(1) consider i where "consider_try (c\<lparr>rc_index := i\<rparr>) = Some c'"
    | "c' = cancel_try (c\<lparr>rc_index := 0\<rparr>)"
    by (auto simp: decide_def bind_eq_Some_conv split: option.splits)
  then show ?thesis
  proof cases
    case 1
    then show ?thesis
      using assms(2) consider_try_idle [OF 1] consider_try_tries [OF 1]
      by (cases "rc_probing c") (auto simp: idle_try_def cancel_try_def)
  qed (simp add: cancel_try_def)
qed

text \<open>Most steps leave the try alone.\<close>

definition same_try :: "rate_controller \<Rightarrow> rate_controller \<Rightarrow> bool" where
  "same_try c d \<longleftrightarrow> rc_probing d = rc_probing c \<and> rc_probe_tries d = rc_probe_tries c"

lemma same_try_refl [simp]: "same_try c c" "same_try (c\<lparr>rc_index := i\<rparr>) d = same_try c d"
  "same_try c (d\<lparr>rc_index := i\<rparr>) = same_try c d"
  by (simp_all add: same_try_def)

lemma learn_family_try: "learn_family v f c = Some c' \<Longrightarrow> same_try c c'"
  by (auto simp: learn_family_def same_try_def Let_def bind_eq_Some_conv split: if_split_asm)

lemma take_frame_try: "take_frame f c = Some c' \<Longrightarrow> same_try c c'"
  by (auto simp: take_frame_def same_try_def Let_def bind_eq_Some_conv)

lemma add_air_try: "add_air a m c = Some c' \<Longrightarrow> same_try c c'"
  by (auto simp: add_air_def set_since_def same_try_def bind_eq_Some_conv)

lemma set_wait_try: "set_wait m w c = Some c' \<Longrightarrow> same_try c c'"
  by (auto simp: set_wait_def same_try_def bind_eq_Some_conv)

lemma set_since_try: "set_since m w c = Some c' \<Longrightarrow> same_try c c'"
  by (auto simp: set_since_def same_try_def bind_eq_Some_conv)

lemma same_try_trans: "same_try a b \<Longrightarrow> same_try b c \<Longrightarrow> same_try a c"
  by (simp add: same_try_def)

lemma judge_try_try: "judge_try m c = Some (good, c') \<Longrightarrow> same_try c c'"
  by (auto simp: judge_try_def bind_eq_Some_conv dest!: set_wait_try set_since_try
      split: if_split_asm intro: same_try_trans)

lemma judge_sent_try: "judge_sent here m c = Some c' \<Longrightarrow> same_try c c'"
  by (auto simp: judge_sent_def bind_eq_Some_conv dest!: judge_try_try split: if_split_asm)

lemma for_each_same_try:
  assumes "for_each f xs c = Some c'" "\<And>x c c'. f x c = Some c' \<Longrightarrow> same_try c c'"
  shows "same_try c c'"
  using assms(1)
proof (induction xs arbitrary: c)
  case (Cons x xs)
  then show ?case by (simp add: bind_eq_Some_conv) (blast intro: same_try_trans assms(2))
qed simp

lemma end_probe_tries:
  assumes "end_probe b c = Some c'" "rc_probing c \<noteq> None"
  shows "rc_probe_tries c' = 0"
proof -
  from assms consider "c' = cancel_try c" | m good c1 where "judge_try m (cancel_try c) = Some (good, c1)"
      "same_try c1 c'"
    by (auto simp: end_probe_def Let_def bind_eq_Some_conv dest!: set_since_try split: if_splits)
  then show ?thesis
    by cases (auto dest!: judge_try_try simp: cancel_try_def same_try_def)
qed

lemma count_try_tries:
  assumes "count_try fs c = Some c'" "idle_try c"
  shows "rc_probe_tries c' = 0 \<or> rc_probing c \<noteq> None \<and>
    rc_probing c' = rc_probing c \<and> rc_probe_tries c' = rc_probe_tries c + 1"
proof (cases "rc_probing c")
  case None
  with assms show ?thesis by (simp add: count_try_def idle_try_def)
next
  case (Some m)
  with assms(1) end_probe_tries show ?thesis
    by (auto simp: count_try_def Let_def split: if_splits)
qed

lemma observe_frames_try:
  assumes run: "observe_frames fs s c = Some c'" and fs: "fs \<noteq> []" and ok: "idle_try c"
  shows "rc_probe_tries c' = 0 \<or>
    rc_probing c' = rc_probing c \<and> rc_probe_tries c' = rc_probe_tries c + 1"
proof -
  let ?c1 = "observe_snr s c" and ?air = "sum_list (map fo_air_s fs)"
    and ?sent = "remdups_adj (sort (map fo_mode fs))"
  obtain c2 c3 c5 here x c7 c8 where
    c2: "(case (rc_family_gain_db ?c1 \<noteq> 0, rc_smoothed_snr_db ?c1) of
      (True, Some snr) \<Rightarrow> for_each (learn_family snr) fs ?c1 | _ \<Rightarrow> Some ?c1) = Some c2"
    and c3: "for_each take_frame fs c2 = Some c3"
    and c5: "for_each (add_air ?air) (rc_modes (judge_family fs c3)) (judge_family fs c3) = Some c5"
    and c7: "for_each (judge_sent here) ?sent (c5\<lparr>rc_clean_at := x\<rparr>) = Some c7"
    and c8: "count_try fs c7 = Some c8" and c': "decide c8 = Some c'"
    using run fs unfolding observe_frames_def Let_def
    by (simp only: if_False bind_eq_Some_conv) (elim exE conjE, rule that)
  have "same_try c ?c1" by (simp add: observe_snr_def same_try_def split: option.split)
  moreover have "same_try ?c1 c2"
    using c2 by (auto split: option.splits bool.splits elim!: for_each_same_try dest: learn_family_try)
  moreover have "same_try c2 c3"
    using c3 take_frame_try by (rule for_each_same_try)
  moreover have "same_try c3 (judge_family fs c3)" by (simp add: judge_family_def Let_def same_try_def)
  moreover have "same_try (judge_family fs c3) c5"
    using c5 add_air_try by (rule for_each_same_try)
  moreover have "same_try c5 (c5\<lparr>rc_clean_at := x\<rparr>)" by (simp add: same_try_def)
  moreover have "same_try (c5\<lparr>rc_clean_at := x\<rparr>) c7"
    using c7 judge_sent_try by (rule for_each_same_try)
  ultimately have c7: "same_try c c7" by (blast intro: same_try_trans)
  then have "idle_try c7" using ok by (auto simp: idle_try_def same_try_def)
  from count_try_tries [OF c8 this] c7 consider "rc_probe_tries c8 = 0"
    | "rc_probing c \<noteq> None" "rc_probing c8 = rc_probing c" "rc_probe_tries c8 = rc_probe_tries c + 1"
    by (auto simp: same_try_def)
  then show ?thesis
    using decide_tries [OF c'] by cases (auto simp: idle_try_def)
qed

lemma set_since_probing: "set_since m s c = Some c' \<Longrightarrow> rc_probing c' = rc_probing c"
  by (auto simp: set_since_def put_def split: if_splits)

lemma consider_try_probing:
  assumes c': "consider_try c = Some c'"
  shows "rc_probing c' = None \<or> rung_usable c (rc_index c + 1) \<and>
    rc_probing c' = Some (rc_modes c ! (rc_index c + 1))"
proof (cases "rc_probing c")
  case (Some m)
  with c' show ?thesis by (auto simp: consider_try_def Let_def cancel_try_def split: if_splits)
next
  case none: None
  show ?thesis
  proof (cases "rung_usable c (rc_index c + 1)")
    case False
    with c' none show ?thesis by (simp add: consider_try_def Let_def)
  next
    case True
    let ?m = "rc_modes c ! (rc_index c + 1)"
    from True c' none obtain v where
      "(if priced c ?m (lossless c ?m) \<le> v then Some c
        else do {
          go \<leftarrow> (if since c ?m \<ge> wait_s c ?m - WAIT_TOLERANCE_S then Some True else clean_climb ?m c);
          if go then set_since ?m 0 (c\<lparr>rc_probing := Some ?m\<rparr>) else Some c
        }) = Some c'"
      unfolding consider_try_def Let_def none option.case
      by (auto simp only: bind_eq_Some_conv not_True_eq_False if_False get_Some_iff)
    then have "c' = c \<or> set_since ?m 0 (c\<lparr>rc_probing := Some ?m\<rparr>) = Some c'"
      by (auto simp only: bind_eq_Some_conv option.inject split: if_split_asm)
    with none True show ?thesis by (auto dest: set_since_probing)
  qed
qed

section \<open>The wide ladder\<close>

lemmas wide_tables = AWGN_THRESHOLD_DB_def PAYLOAD_BYTES_def FRAME_S_def

lemma wide_usable_modes:
  "usable_modes = [0, 1, 2, 3, 4, 5, 7, 8, 9, 10, 11, 12, 14, 15, 16, 17, 18, 19]"
  unfolding usable_modes_def usable_modes_by_rate_def worth_def wide_tables by (simp add: upt_rec)

text \<open>
  No two rungs of a ladder tie when the thresholds are distinct.
\<close>

lemma distinct_no_ties:
  assumes "distinct th" shows "no_ties th pl fs"
  unfolding no_ties_def beats_or_ties_def
proof (intro allI impI, elim conjE)
  fix a b assume "a < length th" "b < length th" "th ! a \<le> th ! b" "th ! b \<le> th ! a"
  then show "a = b" using nth_eq_iff_index_eq [OF assms, of a b] by linarith
qed

text \<open>A small ladder: a floor rung, an ordinary one the echo refuses over 0.01, and one above it.\<close>

definition small_controller :: "rate_controller option" where
  "small_controller = for_table [-10, -5, 0] [23, 43, 83] [20, 40, 80] [2, 1, 1] 1 [None, Some 0.01, None]"

lemma small_front: "usable_modes_by_rate [-10, -5, 0] [23, 43, 83] [2, 1, 1] = [0, 1, 2]"
  by (simp add: usable_modes_by_rate_def worth_def upt_rec)

lemma small_ok: "rate_ok (the small_controller)"
  by (rule for_table_ok [of "[-10, -5, 0]" "[23, 43, 83]" "[20, 40, 80]" "[2, 1, 1]" 1 "[None, Some 0.01, None]"])
    (simp_all only: small_front, simp_all add: small_controller_def for_table_def Let_def)

section \<open>Properties\<close>

text \<open>
  C36: the usable rungs are exactly the Pareto front of the table: in ascending order, none that
  another rung equals or beats on both rate and threshold; and when no two rungs tie, every rung of the
  table is equalled or beaten by one of them.
\<close>

theorem pareto_front:
  assumes "no_ties th pl fs"
  shows "sorted (usable_modes_by_rate th pl fs) \<and> distinct (usable_modes_by_rate th pl fs) \<and>
    (\<forall>m. m \<in> set (usable_modes_by_rate th pl fs) \<longleftrightarrow> m < length th \<and>
       (\<forall>oth<length th. worth pl fs oth \<ge> worth pl fs m \<and> th ! oth \<le> th ! m \<longrightarrow> oth = m)) \<and>
    (\<forall>m<length th. \<exists>k\<in>set (usable_modes_by_rate th pl fs).
       worth pl fs k \<ge> worth pl fs m \<and> th ! k \<le> th ! m)"
  using assms front_ascending front_covers in_front_iff
  by (simp add: beats_or_ties_def)

theorem pareto_front_witness:
  "distinct AWGN_THRESHOLD_DB \<and> 13 \<notin> set usable_modes \<and>
   (\<exists>k\<in>set usable_modes. worth PAYLOAD_BYTES FRAME_S k \<ge> worth PAYLOAD_BYTES FRAME_S 13
      \<and> AWGN_THRESHOLD_DB ! k \<le> AWGN_THRESHOLD_DB ! 13)"
proof -
  have d: "distinct AWGN_THRESHOLD_DB" and n: "13 < length AWGN_THRESHOLD_DB" by (simp_all add: wide_tables)
  have "13 \<notin> set usable_modes" by (simp add: wide_usable_modes)
  with pareto_front [OF distinct_no_ties [OF d], of PAYLOAD_BYTES FRAME_S] n d
  show ?thesis unfolding usable_modes_def by blast
qed

text \<open>
  C31: whatever the session has told the controller (prices, families, silences, readings,
  transmissions of its own frames, echoes), it never indexes out of its tables: it recommends a rung of
  the ladder, answers whether a family is refused, and takes the next transmission, echo or seed; its
  waits stay between six and forty-eight transmissions and its family offsets within their clamp.
\<close>

theorem controller_never_panics:
  assumes "for_table th pl cap fs fm el = Some c0" "\<forall>s\<in>set fs. 0 < s"
    "usable_modes_by_rate th pl fs \<noteq> []" "rate_step\<^sup>*\<^sup>* c0 c"
  shows "(\<exists>i<length (rc_modes c). recommend c = Some (rc_modes c ! i) \<and> rc_modes c ! i < n_rungs_of c) \<and>
    refuses c m \<noteq> None \<and> (outcomes_ok frames c \<longrightarrow> observe_frames frames snr c \<noteq> None) \<and>
    observe_echo share v c \<noteq> None \<and> seed v c \<noteq> None \<and>
    6 \<le> wait c m \<and> wait c m \<le> 48 \<and>
    fst (rc_family c) \<in> {-5..20} \<and> snd (rc_family c) \<in> {-5..20}"
proof (intro conjI impI)
  have ok: "rate_ok c" using assms for_table_ok rate_reachable_ok by blast
  show "\<exists>i<length (rc_modes c). recommend c = Some (rc_modes c ! i) \<and> rc_modes c ! i < n_rungs_of c"
  proof (cases "rc_probing c")
    case None
    with rate_ok_modes [OF ok] show ?thesis by (auto simp: recommend_def)
  next
    case (Some m)
    with ok obtain i where "i < length (rc_modes c)" "rc_modes c ! i = m"
      by (auto simp: rate_ok_def try_ok_def rung_usable_def)
    with Some rate_ok_modes(2) [OF ok] show ?thesis by (auto simp: recommend_def)
  qed
  show "refuses c m \<noteq> None" using refuses_defined [OF ok] by simp
  show "observe_frames frames snr c \<noteq> None" if "outcomes_ok frames c"
    using observe_frames_ok [OF ok that] by (auto simp: returns_def)
  show "observe_echo share v c \<noteq> None" using observe_echo_ok [OF ok] by (auto simp: returns_def)
  show "seed v c \<noteq> None" using seed_ok [OF ok] by (auto simp: returns_def)
  show "6 \<le> wait c m" "wait c m \<le> 48" using wait_ok [OF ok] by simp_all
  show "fst (rc_family c) \<in> {-5..20}" "snd (rc_family c) \<in> {-5..20}"
    using ok by (auto simp: rate_ok_def family_ok_def split: prod.splits)
qed

theorem controller_never_panics_witness:
  "\<exists>c0. small_controller = Some c0 \<and> observe_frames [\<lparr>fo_mode = 2, fo_air_s = 1, fo_capacity = 80,
     fo_detected = True, fo_decoded = True, fo_combined = False\<rparr>] (Some 3) (observe_snr (Some 1) c0) \<noteq> None"
proof -
  obtain c0 where c0: "small_controller = Some c0" by (simp add: small_controller_def for_table_def)
  have step: "rate_step\<^sup>*\<^sup>* c0 (observe_snr (Some 1) c0)" by (blast intro: rate_step.reading)
  have "outcomes_ok [\<lparr>fo_mode = 2, fo_air_s = 1, fo_capacity = 80,
     fo_detected = True, fo_decoded = True, fo_combined = False\<rparr>] (observe_snr (Some 1) c0)"
    using c0 by (auto simp: small_controller_def for_table_def outcomes_ok_def outcome_ok_def
        n_rungs_of_def observe_snr_def)
  with controller_never_panics [OF c0 [unfolded small_controller_def] _ _ step] small_front c0
  show ?thesis by auto
qed

text \<open>
  C32: the echo rule. In every reachable state the rung recommended, tried or chosen, is one the
  path's echo allows, or the lowest rung of the ladder.
\<close>

theorem echo_rule:
  assumes "for_table th pl cap fs fm el = Some c0" "\<forall>s\<in>set fs. 0 < s"
    "usable_modes_by_rate th pl fs \<noteq> []" "rate_step\<^sup>*\<^sup>* c0 c"
  shows "\<exists>i<length (rc_modes c). recommend c = Some (rc_modes c ! i) \<and> (i = 0 \<or> \<not> echo_out c i)"
proof -
  have ok: "rate_ok c" using assms for_table_ok rate_reachable_ok by blast
  then show ?thesis
    by (cases "rc_probing c")
      (auto simp: recommend_def rate_ok_def try_ok_def choice_ok_def rung_usable_def)
qed

theorem echo_rule_witness:
  "\<exists>c0 c. small_controller = Some c0 \<and> observe_echo (Some 0.5) 3 c0 = Some c \<and> echo_out c 1 \<and>
     (\<exists>i<length (rc_modes c). recommend c = Some (rc_modes c ! i) \<and> (i = 0 \<or> \<not> echo_out c i))"
proof -
  obtain c0 where c0: "small_controller = Some c0" by (simp add: small_controller_def for_table_def)
  have modes: "rc_modes c0 = [0, 1, 2]" "rc_index c0 = 0" "rc_probing c0 = None"
    "rc_echo_limit c0 = [None, Some 0.01, None]" "rc_echo_min_snr_db c0 = -6" "rc_echo c0 = None"
    using c0 by (auto simp: small_controller_def for_table_def small_front)
  define c where "c = c0\<lparr>rc_echo := Some 0.5\<rparr>"
  have run: "observe_echo (Some 0.5) 3 c0 = Some c"
    using modes by (simp add: observe_echo_def c_def choice_def echo_out_def flat_at_def nth_default_def)
  then have "rate_step\<^sup>*\<^sup>* c0 c" by (blast intro: rate_step.echo)
  from echo_rule [OF c0 [unfolded small_controller_def] _ _ this] small_front
  have "\<exists>i<length (rc_modes c). recommend c = Some (rc_modes c ! i) \<and> (i = 0 \<or> \<not> echo_out c i)" by simp
  moreover have "echo_out c 1" using modes by (simp add: c_def echo_out_def flat_at_def nth_default_def)
  ultimately show ?thesis using c0 run by blast
qed

text \<open>
  C34: no rung is ever rated above what it carries with nothing lost, and none below zero, in any
  reachable state: the estimate is a number (its divisor is positive) between zero and the rung's
  lossless rate, for every reading.
\<close>

theorem estimate_bounded:
  assumes "for_table th pl cap fs fm el = Some c0" "\<forall>s\<in>set fs. 0 < s"
    "usable_modes_by_rate th pl fs \<noteq> []" "rate_step\<^sup>*\<^sup>* c0 c" "m < n_rungs_of c"
  shows "\<exists>e. estimate_at c m reading = Some e \<and> 0 \<le> e \<and> e \<le> lossless c m \<and>
    0 < ac_air_s (account_at c m) + rc_prior_frames c * frame_s_at c m"
proof -
  have ok: "rate_ok c" using assms for_table_ok rate_reachable_ok by blast
  then have parts: "shape_ok c" "accounts_ok c" "rc_prior_frames c = 2"
    by (auto simp: rate_ok_def shape_ok_def)
  have "0 < ac_air_s (account_at c m) + 2 * frame_s_at c m"
    using account_at_ok [OF parts(1,2) assms(5)] in_table(4) [OF parts(1) assms(5)]
    by (simp add: account_ok_def)
  with estimate_at_ok [OF parts(1,2) assms(5), of reading] parts(3)
  show ?thesis by (auto simp: returns_def)
qed

theorem estimate_bounded_witness:
  "\<exists>c0 e. small_controller = Some c0 \<and> estimate_at c0 2 (Some 1) = Some e \<and> 0 \<le> e \<and> e \<le> 80"
proof -
  obtain c0 where c0: "small_controller = Some c0" by (simp add: small_controller_def for_table_def)
  have "2 < n_rungs_of c0" "lossless c0 2 = 80"
    using c0 by (auto simp: small_controller_def for_table_def n_rungs_of_def lossless_def capacity_at_def
        frame_s_at_def nth_default_def)
  with estimate_bounded [OF c0 [unfolded small_controller_def] _ _ rtranclp.rtrancl_refl, of 2 "Some 1"]
    small_front c0
  show ?thesis by auto
qed

text \<open>
  C33: the choice. Deciding takes the best rung, per second of a whole exchange, among those the echo
  allows that are at or under the current choice or whose own frames outweigh the prior, so it never
  climbs to a rung it has not measured; with none allowed it falls to the lowest rung; and a try is
  only ever of the rung right above the choice, one the echo allows.
\<close>

theorem decide_picks_best:
  assumes "rate_ok c" "decide c = Some c'"
  shows "case find (decide_allowed c) [0..<length (rc_modes c)] of
      None \<Rightarrow> rc_index c' = 0 \<and> rc_probing c' = None
    | Some _ \<Rightarrow> rung_usable c (rc_index c') \<and>
        (rc_index c' \<le> rc_index c \<or> 2 < ac_frames (account_at c (rc_modes c ! rc_index c'))) \<and>
        (\<forall>j<length (rc_modes c). decide_allowed c j \<longrightarrow>
           the (rung_value c (rc_modes c ! j)) \<le> the (rung_value c (rc_modes c ! rc_index c'))) \<and>
        (rc_probing c' = None \<or> rung_usable c (rc_index c' + 1)
           \<and> rc_probing c' = Some (rc_modes c ! (rc_index c' + 1)))"
proof -
  let ?is = "[0..<length (rc_modes c)]"
  have two: "rc_prior_frames c = 2" using assms(1) by (simp add: rate_ok_def shape_ok_def)
  obtain best where b: "best_rung (rung_value c) (decide_allowed c) (rc_modes c) ?is = Some best"
    and best: "is_best (rung_value c) (decide_allowed c) (rc_modes c) ?is best"
    using decide_best [OF assms(1)] by (auto simp: returns_def)
  show ?thesis
  proof (cases best)
    case None
    with b assms(2) have "c' = cancel_try (c\<lparr>rc_index := 0\<rparr>)" by (simp add: decide_def)
    moreover from None best have "find (decide_allowed c) ?is = None"
      by (simp add: is_best_def find_None_iff)
    ultimately show ?thesis by (simp add: cancel_try_def)
  next
    case (Some p)
    then obtain i v where p: "best = Some (i, v)" by (cases p) simp
    let ?c = "c\<lparr>rc_index := i\<rparr>"
    from p best have i: "i < length (rc_modes c)" "decide_allowed c i" "rung_value c (rc_modes c ! i) = Some v"
      and all: "\<And>j. j < length (rc_modes c) \<Longrightarrow> decide_allowed c j \<Longrightarrow>
        \<exists>w. rung_value c (rc_modes c ! j) = Some w \<and> w \<le> v"
      by (auto simp: is_best_def)
    then have "find (decide_allowed c) ?is \<noteq> None" by (auto simp: find_None_iff)
    moreover from i(2) have u: "rung_usable c i" by (simp add: decide_allowed_def)
    have run: "consider_try ?c = Some c'" using b p assms(2) by (simp add: decide_def)
    have idx: "rc_index c' = i"
      using returnsD [OF consider_try_ok [OF set_index_ok [OF assms(1)]] run] u by simp
    moreover have "rc_probing c' = None \<or> rung_usable c (i + 1) \<and> rc_probing c' = Some (rc_modes c ! (i + 1))"
      using consider_try_probing [OF run] by simp
    moreover have "i \<le> rc_index c \<or> 2 < ac_frames (account_at c (rc_modes c ! i))"
      using i(2) two by (auto simp: decide_allowed_def)
    moreover have "the (rung_value c (rc_modes c ! j)) \<le> v"
      if "j < length (rc_modes c)" "decide_allowed c j" for j
      using all [OF that] by auto
    ultimately show ?thesis using i(3) u by (auto split: option.split)
  qed
qed

theorem decide_picks_best_witness:
  "\<exists>c c'. small_controller = Some c \<and> decide c = Some c' \<and> rung_usable c (rc_index c') \<and> decide_allowed c 0 \<and>
     the (rung_value c 0) \<le> the (rung_value c (rc_modes c ! rc_index c'))"
proof -
  obtain c where c: "small_controller = Some c" by (simp add: small_controller_def for_table_def)
  have ok: "rate_ok c" using small_ok unfolding c by simp
  obtain c' where c': "decide c = Some c'" using decide_ok [OF ok] by (auto simp: returns_def)
  have modes: "rc_modes c = [0, 1, 2]" "rc_index c = 0" "rc_echo c = None"
    using c by (auto simp: small_controller_def for_table_def small_front)
  then have zero: "decide_allowed c 0"
    by (simp add: decide_allowed_def rung_usable_def echo_out_def split: option.split)
  then have "find (decide_allowed c) [0..<length (rc_modes c)] = Some 0" using modes by (simp add: upt_rec)
  with decide_picks_best [OF ok c'] zero modes have "rung_usable c (rc_index c')"
    "the (rung_value c 0) \<le> the (rung_value c (rc_modes c ! rc_index c'))" by auto
  with c c' zero show ?thesis by blast
qed



end
