(* ===== verification/Tone.thy ===== *)
theory Tone
  imports Codec Checked Complex_Main
begin

text \<open>
  The tone floor: \<open>core/aether-phy/src/tone.rs\<close> up to its demodulator.  The numerology, the frame kinds
  and their slots, the codec between payloads and data tones, the frame's tones in time order, the
  continuous-phase waveform and the soft bits of a symbol's metrics.  The tables the build script
  generates are an argument (\<open>tone_tables\<close>); \<open>TONE\<close> is the file it generates them from,
  \<open>core/aether-phy/data/preamble_tables.json\<close>.  The detector and the metrics (FFTs, noise levels, fading)
  are not modelled.  A panic is \<open>None\<close>; floats are ideal reals.
\<close>

section \<open>The tables\<close>

definition TONE_SYNC_PATTERNS :: "nat list list" where
  "TONE_SYNC_PATTERNS =
   [[11, 5, 8, 1, 15, 2, 4, 10], [0, 15, 1, 13, 14, 4, 7, 12], [6, 15, 8, 3, 13, 4, 11, 1],
    [2, 11, 10, 15, 3, 1, 12, 7], [12, 3, 4, 11, 14, 13, 5, 1], [14, 2, 7, 13, 4, 1, 5, 0],
    [2, 0, 12, 15, 1, 9, 13, 6], [11, 14, 1, 15, 10, 6, 8, 0], [8, 1, 14, 4, 6, 15, 10, 13],
    [11, 4, 2, 3, 6, 14, 1, 10], [12, 9, 5, 15, 1, 0, 6, 13], [15, 13, 4, 3, 0, 10, 6, 14],
    [13, 3, 11, 7, 6, 8, 9, 1], [7, 2, 13, 11, 15, 5, 14, 3], [12, 7, 13, 2, 0, 14, 8, 10],
    [0, 3, 14, 1, 2, 11, 8, 7], [13, 8, 12, 11, 14, 5, 3, 0], [9, 2, 4, 12, 3, 13, 1, 15],
    [12, 8, 0, 3, 9, 14, 15, 6], [1, 4, 3, 13, 2, 14, 8, 12], [2, 7, 11, 5, 15, 10, 9, 0],
    [0, 13, 6, 7, 15, 12, 4, 9], [3, 9, 6, 13, 14, 10, 0, 15], [8, 13, 15, 14, 11, 0, 10, 2],
    [15, 0, 4, 6, 1, 14, 5, 10], [3, 9, 1, 14, 15, 13, 10, 0], [3, 14, 15, 10, 2, 1, 13, 6],
    [10, 2, 13, 15, 0, 7, 5, 14], [7, 6, 0, 15, 8, 14, 2, 5], [2, 9, 5, 0, 14, 13, 1, 10],
    [6, 13, 5, 14, 10, 4, 2, 15], [0, 3, 1, 5, 11, 12, 14, 4], [4, 13, 11, 0, 8, 15, 2, 14],
    [5, 12, 7, 15, 4, 6, 0, 1], [9, 12, 14, 2, 1, 5, 15, 0], [0, 2, 7, 4, 15, 8, 12, 1],
    [5, 3, 13, 14, 0, 15, 2, 7]]"

definition TONE :: tone_tables where
  "TONE = \<lparr>tt_fs = 8000, tt_symbol_samples = 320, tt_tones = 16, tt_ramp_samples = 32, tt_edge_samples = 16,
     tt_gain_db = 5.5, tt_hop_div = 4, tt_announce_lookahead = 12, tt_sync_patterns = TONE_SYNC_PATTERNS,
     tt_control = \<lparr>tk_name = ''tone-control'', tk_payload_bytes = 7, tk_data_symbols = 56, tk_patterns = [0],
       tk_control = True, tk_data_symbol_samples = 320, tk_data_ramp_samples = 32, tk_data_tones = 16\<rparr>,
     tt_data = [\<lparr>tk_name = ''tone-24'', tk_payload_bytes = 24, tk_data_symbols = 110, tk_patterns = [1, 2, 3, 4],
       tk_control = False, tk_data_symbol_samples = 320, tk_data_ramp_samples = 32, tk_data_tones = 16\<rparr>,
     \<lparr>tk_name = ''tone-36'', tk_payload_bytes = 36, tk_data_symbols = 110, tk_patterns = [5, 6, 7, 8],
       tk_control = False, tk_data_symbol_samples = 320, tk_data_ramp_samples = 32, tk_data_tones = 16\<rparr>],
     tt_fast = [\<lparr>tk_name = ''tone50-51'', tk_payload_bytes = 51, tk_data_symbols = 220, tk_patterns = [9, 10, 11, 12],
       tk_control = False, tk_data_symbol_samples = 160, tk_data_ramp_samples = 16, tk_data_tones = 16\<rparr>,
     \<lparr>tk_name = ''tone50-75'', tk_payload_bytes = 75, tk_data_symbols = 220, tk_patterns = [13, 14, 15, 16],
       tk_control = False, tk_data_symbol_samples = 160, tk_data_ramp_samples = 16, tk_data_tones = 16\<rparr>,
     \<lparr>tk_name = ''tone100-105'', tk_payload_bytes = 105, tk_data_symbols = 440, tk_patterns = [17, 18, 19, 20],
       tk_control = False, tk_data_symbol_samples = 80, tk_data_ramp_samples = 8, tk_data_tones = 16\<rparr>,
     \<lparr>tk_name = ''tone100-153'', tk_payload_bytes = 153, tk_data_symbols = 440, tk_patterns = [21, 22, 23, 24],
       tk_control = False, tk_data_symbol_samples = 80, tk_data_ramp_samples = 8, tk_data_tones = 16\<rparr>],
     tt_narrow = [\<lparr>tk_name = ''tone4x100-51'', tk_payload_bytes = 51, tk_data_symbols = 440, tk_patterns = [25, 26, 27, 28],
       tk_control = False, tk_data_symbol_samples = 80, tk_data_ramp_samples = 32, tk_data_tones = 4\<rparr>,
     \<lparr>tk_name = ''tone4x100-75'', tk_payload_bytes = 75, tk_data_symbols = 440, tk_patterns = [29, 30, 31, 32],
       tk_control = False, tk_data_symbol_samples = 80, tk_data_ramp_samples = 32, tk_data_tones = 4\<rparr>,
     \<lparr>tk_name = ''tone4x100-93'', tk_payload_bytes = 93, tk_data_symbols = 440, tk_patterns = [33, 34, 35, 36],
       tk_control = False, tk_data_symbol_samples = 80, tk_data_ramp_samples = 32, tk_data_tones = 4\<rparr>]\<rparr>"

section \<open>The numerology\<close>

text \<open>\<open>usize::trailing_zeros\<close>.\<close>

fun trailing_zeros :: "nat \<Rightarrow> nat" where
  "trailing_zeros n = (if n = 0 then 64 else if odd n then 0 else Suc (trailing_zeros (n div 2)))"

declare trailing_zeros.simps [simp del]

definition kinds :: "tone_tables \<Rightarrow> tone_kind list" where
  "kinds t = tt_control t # tt_data t @ tt_fast t"

definition all_kinds :: "tone_tables \<Rightarrow> tone_kind list" where
  "all_kinds t = kinds t @ tt_narrow t"

definition tone_bits_per_symbol :: "tone_tables \<Rightarrow> nat" where
  "tone_bits_per_symbol t = trailing_zeros (tt_tones t)"

definition spacing_hz :: "tone_tables \<Rightarrow> f64" where
  "spacing_hz t = tt_fs t / real (tt_symbol_samples t)"

definition tone_hz :: "tone_tables \<Rightarrow> nat \<Rightarrow> f64" where
  "tone_hz t k = (real k - (real (tt_tones t) - 1) / 2) * spacing_hz t"

definition snr_scale :: "tone_tables \<Rightarrow> f64" where
  "snr_scale t = 3000 * symbol_s t"

definition announce_delay_s :: "tone_tables \<Rightarrow> f64 \<Rightarrow> f64" where
  "announce_delay_s t receiver_s =
     (let lookahead = tt_announce_lookahead t div tt_hop_div t
      in real (SYNC_SYMBOLS + lookahead) * symbol_s t + receiver_s)"

definition snr_from_es :: "tone_tables \<Rightarrow> f64 \<Rightarrow> f64" where
  "snr_from_es t es_over_n0 = 10 * log 10 (max es_over_n0 (1 / 1000) / snr_scale t) - tt_gain_db t"

section \<open>The kinds\<close>

definition data_tone_hz :: "tone_tables \<Rightarrow> tone_kind \<Rightarrow> nat \<Rightarrow> f64" where
  "data_tone_hz t k i = (real i - (real (tk_data_tones k) - 1) / 2) * tt_fs t / real (tk_data_symbol_samples k)"

definition data_bits :: "tone_kind \<Rightarrow> nat" where
  "data_bits k = trailing_zeros (tk_data_tones k)"

definition kind_info_bits :: "tone_kind \<Rightarrow> nat" where
  "kind_info_bits k = tk_payload_bytes k * 8 + crc_width CRC24A"

definition kind_coded_bits :: "tone_kind \<Rightarrow> nat" where
  "kind_coded_bits k = tk_data_symbols k * data_bits k"

definition kind_rate :: "tone_kind \<Rightarrow> f64" where
  "kind_rate k = real (kind_info_bits k) / real (kind_coded_bits k)"

definition kind_base_graph :: "tone_kind \<Rightarrow> u8" where
  "kind_base_graph k = select_base_graph (tk_payload_bytes k * 8) (kind_rate k)"

definition kind_samples :: "tone_tables \<Rightarrow> tone_kind \<Rightarrow> nat" where
  "kind_samples t k = kind_symbols t k * tt_symbol_samples t"

definition kind_net_bps :: "tone_tables \<Rightarrow> tone_kind \<Rightarrow> f64" where
  "kind_net_bps t k = 8 * real (tk_payload_bytes k) / kind_duration_s t k"

text \<open>The first slots of the three sync blocks.\<close>

definition block_offsets :: "tone_tables \<Rightarrow> tone_kind \<Rightarrow> nat list" where
  "block_offsets t k =
     [0, SYNC_SYMBOLS + data_slots t k * 9 div 20, kind_symbols t k - SYNC_SYMBOLS]"

definition data_segments :: "tone_tables \<Rightarrow> tone_kind \<Rightarrow> (nat \<times> nat) list" where
  "data_segments t k =
     (let b = block_offsets t k
      in [(b ! 0 + SYNC_SYMBOLS, b ! 1 - b ! 0 - SYNC_SYMBOLS),
          (b ! 1 + SYNC_SYMBOLS, b ! 2 - b ! 1 - SYNC_SYMBOLS)])"

definition sync_at :: "tone_tables \<Rightarrow> tone_kind \<Rightarrow> nat \<Rightarrow> nat list option" where
  "sync_at t k rv = do { p \<leftarrow> get (tk_patterns k) rv; get (tt_sync_patterns t) p }"

definition n_rv :: "tone_kind \<Rightarrow> nat" where
  "n_rv k = length (tk_patterns k)"

definition middle_rv :: "tone_kind \<Rightarrow> nat \<Rightarrow> nat \<Rightarrow> nat option" where
  "middle_rv k rv follows = (if n_rv k = 0 then None else Some ((rv + follows) mod n_rv k))"

text \<open>Each slot's role: a data slot (\<open>None\<close>) or a sync tone.\<close>

definition write_block :: "nat \<Rightarrow> nat list \<Rightarrow> nat option list \<Rightarrow> nat option list option" where
  "write_block offset tones out =
     for_each (\<lambda>(j, tone) out. put out (offset + j) (Some tone)) (enumerate 0 tones) out"

definition layout_with :: "tone_tables \<Rightarrow> tone_kind \<Rightarrow> nat \<Rightarrow> nat \<Rightarrow> nat option list option" where
  "layout_with t k rv follows =
     for_each (\<lambda>(i, offset) out. do {
         pattern \<leftarrow> (if i = 1 then middle_rv k rv follows else Some rv);
         tones \<leftarrow> sync_at t k pattern;
         write_block offset tones out
       }) (enumerate 0 (block_offsets t k)) (replicate (kind_symbols t k) None)"

definition layout_of :: "tone_tables \<Rightarrow> tone_kind \<Rightarrow> nat \<Rightarrow> nat option list option" where
  "layout_of t k rv = layout_with t k rv 0"

section \<open>The codec\<close>

definition gray :: "nat \<Rightarrow> nat" where
  "gray n = n XOR drop_bit 1 n"

record tone_codec =
  tc_kind :: tone_kind
  tc_code :: fec_code
  tc_permutation :: "nat list"
  tc_tone_of_label :: "nat list"

definition tone_of_labels :: "nat \<Rightarrow> nat list option" where
  "tone_of_labels n = for_each (\<lambda>tone out. put out (gray tone) tone) [0..<n] (replicate n 0)"

definition tone_codec_new :: "base_graph \<Rightarrow> base_graph \<Rightarrow> tone_kind \<Rightarrow> (fec_error + tone_codec) option" where
  "tone_codec_new bg1 bg2 k =
     (let bg = kind_base_graph k in
      case select_lifting_size bg (kind_info_bits k) of
        Inl e \<Rightarrow> Some (Inl e)
      | Inr z \<Rightarrow>
          (case code_new bg1 bg2 bg z of
             None \<Rightarrow> None
           | Some (Inl e) \<Rightarrow> Some (Inl e)
           | Some (Inr code) \<Rightarrow>
               if kind_info_bits k > fc_k code then Some (Inl (BadLength (fc_k code) (kind_info_bits k)))
               else let n = kind_coded_bits k in do {
                 labels \<leftarrow> tone_of_labels (tk_data_tones k);
                 Some (Inr \<lparr>tc_kind = k, tc_code = code,
                   tc_permutation = stride_permutation n (coprime_stride n), tc_tone_of_label = labels\<rparr>)
               }))"

definition tone_encode :: "tone_codec \<Rightarrow> bytes \<Rightarrow> u8 \<Rightarrow> (fec_error + nat list) option" where
  "tone_encode c payload rv =
     (let k = tc_kind c in
      if length payload \<noteq> tk_payload_bytes k
      then Some (Inl (BadLength (tk_payload_bytes k) (length payload)))
      else case coded_block (tc_code c) (kind_info_bits k) (kind_coded_bits k) payload rv of
          None \<Rightarrow> None
        | Some (Inl e) \<Rightarrow> Some (Inl e)
        | Some (Inr selected) \<Rightarrow>
            if data_bits k = 0 then None
            else map_option Inr (those (map (\<lambda>grp. get (tc_tone_of_label c) (symbol_index grp))
                   (chunks_exact (data_bits k) (interleave (kind_coded_bits k) (tc_permutation c) selected)))))"

definition tone_decode :: "tone_codec \<Rightarrow> f64 list \<Rightarrow> u8 \<Rightarrow> f64 list option \<Rightarrow>
    (fec_error + bytes option \<times> f64 list) option" where
  "tone_decode c soft rv buffer =
     (let k = tc_kind c in
      if length soft \<noteq> kind_coded_bits k then Some (Inl (BadLength (kind_coded_bits k) (length soft)))
      else decode_block (tc_code c) (kind_info_bits k) (kind_coded_bits k) 30 (tc_permutation c) soft rv buffer)"

section \<open>Soft bits\<close>

text \<open>\<open>log_sum_exp\<close> of a list that is not empty, as both of its callers' are.\<close>

definition log_sum_exp :: "f64 list \<Rightarrow> f64" where
  "log_sum_exp vs =
     (let top = fold max vs (hd vs) in top + ln (sum_list (map (\<lambda>v. exp (v - top)) vs)))"

definition label_bit :: "nat \<Rightarrow> nat \<Rightarrow> nat \<Rightarrow> nat" where
  "label_bit bits b tone = drop_bit (bits - 1 - b) (gray tone) AND 1"

definition symbol_llr :: "nat \<Rightarrow> nat \<Rightarrow> f64 list \<Rightarrow> nat \<Rightarrow> f64" where
  "symbol_llr bits tones row b =
     log_sum_exp (map (nth row) (filter (\<lambda>tone. label_bit bits b tone = 0) [0..<tones])) -
     log_sum_exp (map (nth row) (filter (\<lambda>tone. label_bit bits b tone = 1) [0..<tones]))"

definition bit_llrs :: "f64 list \<Rightarrow> nat \<Rightarrow> f64 list option" where
  "bit_llrs metrics tones =
     (let bits = trailing_zeros tones in
      if tones = 0 then None
      else Some (concat (map (\<lambda>row. map (symbol_llr bits tones row) [0..<bits]) (chunks_exact tones metrics))))"

section \<open>The frame\<close>

text \<open>The slots filled in time order; running out of data tones is a panic.\<close>

fun fill_slots :: "nat \<Rightarrow> nat option list \<Rightarrow> nat list \<Rightarrow> (nat \<times> bool) list option" where
  "fill_slots per [] data = Some []"
| "fill_slots per (Some tone # roles) data = map_option ((#) (tone, True)) (fill_slots per roles data)"
| "fill_slots per (None # roles) data =
     (if length data < per then None
      else map_option ((@) (map (\<lambda>tone. (tone, False)) (take per data))) (fill_slots per roles (drop per data)))"

definition frame_symbols_with ::
  "tone_tables \<Rightarrow> tone_kind \<Rightarrow> nat list \<Rightarrow> nat \<Rightarrow> nat \<Rightarrow> (nat list \<times> bool list) option" where
  "frame_symbols_with t k data rv follows = do {
     roles \<leftarrow> layout_with t k rv follows;
     symbols \<leftarrow> fill_slots (speed t k) roles data;
     Some (map fst symbols, map snd symbols)
   }"

definition frame_symbols :: "tone_tables \<Rightarrow> tone_kind \<Rightarrow> nat list \<Rightarrow> nat \<Rightarrow> (nat list \<times> bool list) option" where
  "frame_symbols t k data rv = frame_symbols_with t k data rv 0"

definition frame_tones :: "tone_tables \<Rightarrow> tone_kind \<Rightarrow> nat list \<Rightarrow> nat \<Rightarrow> nat list option" where
  "frame_tones t k data rv = map_option fst (frame_symbols t k data rv)"

section \<open>The waveform\<close>

text \<open>The frequency's glide into a symbol: a raised cosine centred on its first sample.\<close>

definition glide :: "f64 list \<Rightarrow> nat list \<Rightarrow> nat \<Rightarrow> nat \<Rightarrow> f64 list \<Rightarrow> f64 list option" where
  "glide hz ramps i start_of freq =
     (if i > 0 \<and> hz ! i \<noteq> hz ! (i - 1) then do {
        ramp \<leftarrow> get ramps i;
        if ramp > 0 then do {
          start \<leftarrow> checked_sub start_of (ramp div 2);
          let a = hz ! (i - 1);
          let b = hz ! i;
          for_each (\<lambda>k freq. put freq (start + k)
              (a + (b - a) * (0.5 - 0.5 * cos (pi * (real k + 0.5) / real ramp)))) [0..<ramp] freq
        } else Some freq
      } else Some freq)"

definition glides :: "f64 list \<Rightarrow> nat list \<Rightarrow> nat list \<Rightarrow> f64 list \<Rightarrow> f64 list option" where
  "glides hz lengths ramps freq = map_option snd (for_each (\<lambda>i (start_of, freq). do {
       freq' \<leftarrow> glide hz ramps i start_of freq;
       n \<leftarrow> get lengths i;
       Some (start_of + n, freq')
     }) [0..<length hz] (0, freq))"

fun oscillate :: "f64 \<Rightarrow> f64 \<Rightarrow> f64 \<Rightarrow> f64 list \<Rightarrow> sample list" where
  "oscillate scale gain accumulated [] = []"
| "oscillate scale gain accumulated (f # fs) =
     (cos (scale * accumulated) * gain, sin (scale * accumulated) * gain)
       # oscillate scale gain (accumulated + f) fs"

definition scale_sample :: "f64 \<Rightarrow> sample \<Rightarrow> sample" where
  "scale_sample w s = (fst s * w, snd s * w)"

definition fade_edges :: "nat \<Rightarrow> sample list \<Rightarrow> sample list" where
  "fade_edges edge out =
     (if edge > 0 \<and> length out \<ge> 2 * edge
      then fold (\<lambda>k out. let w = 0.5 - 0.5 * cos (pi * (real k + 0.5) / real edge);
                             j = length out - 1 - k;
                             out = out[k := scale_sample w (out ! k)]
                         in out[j := scale_sample w (out ! j)]) [0..<edge] out
      else out)"

definition cpfsk :: "tone_tables \<Rightarrow> f64 list \<Rightarrow> nat list \<Rightarrow> nat list \<Rightarrow> f64 \<Rightarrow> sample list option" where
  "cpfsk t hz lengths ramps gain_db = do {
     freq \<leftarrow> glides hz lengths ramps (concat (map2 (\<lambda>f n. replicate n f) hz lengths));
     Some (fade_edges (tt_edge_samples t)
       (oscillate (2 * pi / tt_fs t) (10 powr (gain_db / 20)) 0 freq))
   }"

definition modulate :: "tone_tables \<Rightarrow> nat list \<Rightarrow> f64 \<Rightarrow> sample list option" where
  "modulate t tones gain_db =
     cpfsk t (map (tone_hz t) tones) (replicate (length tones) (tt_symbol_samples t))
       (replicate (length tones) (tt_ramp_samples t)) gain_db"

definition modulate_frame ::
  "tone_tables \<Rightarrow> tone_kind \<Rightarrow> nat list \<Rightarrow> bool list \<Rightarrow> f64 \<Rightarrow> sample list option" where
  "modulate_frame t k tones sync gain_db =
     (let hz = map2 (\<lambda>tone s. if s then tone_hz t tone else data_tone_hz t k tone) tones sync;
          lengths = map (\<lambda>s. if s then tt_symbol_samples t else tk_data_symbol_samples k) sync;
          own = map (\<lambda>s. if s then tt_ramp_samples t else tk_data_ramp_samples k) sync;
          ramps = map (\<lambda>i. min (own ! i) (own ! (i - 1))) [0..<length own]
      in cpfsk t hz lengths ramps gain_db)"

definition burst_with ::
  "tone_tables \<Rightarrow> tone_codec \<Rightarrow> bytes \<Rightarrow> u8 \<Rightarrow> u8 \<Rightarrow> (fec_error + sample list) option" where
  "burst_with t c payload rv follows =
     (case tone_encode c payload rv of
        None \<Rightarrow> None
      | Some (Inl e) \<Rightarrow> Some (Inl e)
      | Some (Inr data) \<Rightarrow> do {
          (tones, sync) \<leftarrow> frame_symbols_with t (tc_kind c) data (unat rv) (unat follows);
          samples \<leftarrow> modulate_frame t (tc_kind c) tones sync (tt_gain_db t);
          Some (Inr samples)
        })"

definition burst :: "tone_tables \<Rightarrow> tone_codec \<Rightarrow> bytes \<Rightarrow> u8 \<Rightarrow> (fec_error + sample list) option" where
  "burst t c payload rv = burst_with t c payload rv 0"

end
