(* ===== verification/Tone_Laws.thy ===== *)
theory Tone_Laws
  imports Tone Round_Trip
begin

text \<open>
  The tone floor's laws: the codec is the frame codec's block behind Gray-labelled tones, a frame
  whose tones stand out of their metrics decodes to its payload, the slots of a frame give its data
  back, the sync patterns tell the frames apart, and the waveform's envelope is steady.
\<close>

section \<open>Soft bits\<close>

lemma log_sum_exp_bounds:
  assumes "vs \<noteq> []"
  shows "v \<in> set vs \<Longrightarrow> v \<le> log_sum_exp vs"
    "(\<And>v. v \<in> set vs \<Longrightarrow> v \<le> b) \<Longrightarrow> log_sum_exp vs \<le> b + ln (real (length vs))"
proof -
  define top where "top = fold max vs (hd vs)"
  have top: "top = Max (set vs)"
    using assms Max.set_eq_fold [of "hd vs" vs] by (simp add: top_def insert_absorb)
  have below: "v \<le> top" if "v \<in> set vs" for v
    using that by (simp add: top)
  have in_vs: "top \<in> set vs"
    using assms by (simp add: top)
  let ?s = "sum_list (map (\<lambda>v. exp (v - top)) vs)"
  have "exp (top - top) \<le> ?s"
    using in_vs by (intro member_le_sum_list) auto
  then have one: "1 \<le> ?s" by (simp only: diff_self exp_zero)
  have "?s \<le> sum_list (map (\<lambda>v. 1) vs)"
    using below by (intro sum_list_mono) simp
  then have len: "?s \<le> real (length vs)" by (simp add: sum_list_triv)
  have e: "log_sum_exp vs = top + ln ?s" by (simp add: log_sum_exp_def top_def Let_def)
  have "0 \<le> ln ?s" using one by simp
  then show "v \<le> log_sum_exp vs" if "v \<in> set vs" using below [OF that] e by linarith
  have "ln ?s \<le> ln (real (length vs))" using one len by (intro ln_mono) auto
  then show "log_sum_exp vs \<le> b + ln (real (length vs))" if "\<And>v. v \<in> set vs \<Longrightarrow> v \<le> b"
    using that [OF in_vs] e by linarith
qed

text \<open>A tone that stands out of its row by more than \<open>ln\<close> of the tones gives its label's bits.\<close>

definition stands_out :: "nat \<Rightarrow> f64 list \<Rightarrow> nat \<Rightarrow> bool" where
  "stands_out tones row s \<longleftrightarrow> length row = tones \<and> s < tones \<and>
     (\<forall>t<tones. t \<noteq> s \<longrightarrow> row ! t + ln (real tones) < row ! s)"

lemma stands_out_side:
  assumes row: "stands_out tones row s" and s: "P s" and other: "Q u" "u < tones" and split: "\<And>t. Q t \<Longrightarrow> \<not> P t"
  shows "log_sum_exp (map (nth row) (filter Q [0..<tones])) < log_sum_exp (map (nth row) (filter P [0..<tones]))"
proof -
  let ?p = "map (nth row) (filter P [0..<tones])" and ?q = "map (nth row) (filter Q [0..<tones])"
  have len: "s < tones" and gap: "t < tones \<Longrightarrow> t \<noteq> s \<Longrightarrow> row ! t < row ! s - ln (real tones)" for t
    using row by (auto simp: stands_out_def algebra_simps)
  have "row ! s \<in> set ?p" using len s by auto
  moreover from this have "?p \<noteq> []" by (metis empty_iff empty_set)
  ultimately have p: "row ! s \<le> log_sum_exp ?p" by (intro log_sum_exp_bounds(1))
  have ne: "?q \<noteq> []" using other by (auto simp: filter_empty_conv)
  define m where "m = Max (set ?q)"
  have "finite (set ?q)" "set ?q \<noteq> {}" using ne by (simp_all only: List.finite_set set_empty not_False_eq_True)
  then have "m \<in> set ?q" unfolding m_def by (rule Max_in)
  then obtain t where t: "t < tones" "Q t" "m = row ! t" by auto
  have "log_sum_exp ?q \<le> m + ln (real (length ?q))"
    using ne by (intro log_sum_exp_bounds(2)) (simp_all add: m_def)
  also have "\<dots> \<le> m + ln (real tones)"
  proof -
    have "length ?q \<le> tones" using length_filter_le [of Q "[0..<tones]"] by simp
    moreover have "0 < length ?q" using ne by (simp only: length_greater_0_conv not_False_eq_True)
    ultimately have "ln (real (length ?q)) \<le> ln (real tones)" by (intro ln_mono) auto
    then show ?thesis by simp
  qed
  also have "\<dots> < row ! s"
    using gap [OF t(1)] t s split [of s] by fastforce
  finally show ?thesis using p by linarith
qed

lemma label_bit_01: "label_bit bits b t = 0 \<or> label_bit bits b t = 1"
  by (auto simp: label_bit_def and_one_eq mod_2_eq_odd)

lemma symbol_llr_agrees:
  assumes row: "stands_out tones row s"
    and both: "u < tones" "label_bit bits b u = 0" "v < tones" "label_bit bits b v = 1"
  shows "agrees (symbol_llr bits tones row b) (of_nat (label_bit bits b s))"
proof (cases "label_bit bits b s = 0")
  case True
  with stands_out_side [OF row, of "\<lambda>t. label_bit bits b t = 0" "\<lambda>t. label_bit bits b t = 1" v] both
  show ?thesis by (simp add: symbol_llr_def agrees_def)
next
  case False
  then have "label_bit bits b s = 1" using label_bit_01 [of bits b s] by (elim disjE) simp_all
  with stands_out_side [OF row, of "\<lambda>t. label_bit bits b t = 1" "\<lambda>t. label_bit bits b t = 0" u] both
  show ?thesis by (simp add: symbol_llr_def agrees_def)
qed

section \<open>The codec\<close>

text \<open>The tone codec's block as the frame codec's, the modulation aside.\<close>

definition tone_view :: "tone_codec \<Rightarrow> frame_codec" where
  "tone_view c = \<lparr>cd_mode = CONTROL_MODE, cd_layout = LONG, cd_payload_bytes = tk_payload_bytes (tc_kind c),
     cd_info_bits = kind_info_bits (tc_kind c), cd_coded_bits = kind_coded_bits (tc_kind c),
     cd_code = tc_code c, cd_constellation = constellation_new Bpsk, cd_permutation = tc_permutation c,
     cd_inverse = [], cd_stride = 0\<rparr>"

text \<open>The labels of \<open>2 ^ bits\<close> tones: each the Gray label of its tone, and both values of every bit.\<close>

definition labels_ok :: "nat \<Rightarrow> nat list \<Rightarrow> bool" where
  "labels_ok bits labels \<longleftrightarrow> length labels = 2 ^ bits \<and>
     (\<forall>l<2 ^ bits. labels ! l < 2 ^ bits \<and> gray (labels ! l) = l) \<and>
     (\<forall>b<bits. (\<exists>u<2 ^ bits. label_bit bits b u = 0) \<and> (\<exists>u<2 ^ bits. label_bit bits b u = 1))"

definition tone_codec_ok :: "tone_codec \<Rightarrow> bool" where
  "tone_codec_ok c \<longleftrightarrow> codec_core (tone_view c) \<and> 0 < data_bits (tc_kind c) \<and>
     tk_data_tones (tc_kind c) = 2 ^ data_bits (tc_kind c) \<and> labels_ok (data_bits (tc_kind c)) (tc_tone_of_label c)"

lemma those_map_Some: "those (map (\<lambda>x. Some (f x)) xs) = Some (map f xs)"
  by (induction xs) simp_all

lemma those_map_cong: "(\<And>x. x \<in> set xs \<Longrightarrow> f x = Some (g x)) \<Longrightarrow> those (map f xs) = Some (map g xs)"
  by (induction xs) simp_all

lemma tone_encode_ok:
  assumes c: "tone_codec_ok c" and len: "length payload = tk_payload_bytes (tc_kind c)" and rv: "\<not> rv > 3"
  obtains bits where "encode_bits (tone_view c) payload rv = Some (Inr bits)"
    and "length bits = kind_coded_bits (tc_kind c)" and "set bits \<subseteq> {0, 1}"
    and "tone_encode c payload rv = Some (Inr (map (\<lambda>grp. tc_tone_of_label c ! symbol_index grp)
           (chunks_exact (data_bits (tc_kind c)) bits)))"
proof -
  let ?k = "tc_kind c" and ?v = "tone_view c"
  have core: "codec_core ?v" and m: "0 < data_bits ?k" and labels: "labels_ok (data_bits ?k) (tc_tone_of_label c)"
    using c by (auto simp: tone_codec_ok_def)
  obtain bits where b: "encode_bits ?v payload rv = Some (Inr bits)" "length bits = cd_coded_bits ?v" "set bits \<subseteq> {0, 1}"
    by (rule encode_bits_ok [OF core _ rv, of payload]) (simp add: len tone_view_def)
  then obtain selected where sel:
    "coded_block (tc_code c) (kind_info_bits ?k) (kind_coded_bits ?k) payload rv = Some (Inr selected)"
    "bits = interleave (kind_coded_bits ?k) (tc_permutation c) selected"
    by (auto simp: encode_bits_def tone_view_def split: if_splits)
  have "length bits mod data_bits ?k = 0"
    using b(2) by (simp add: tone_view_def kind_coded_bits_def)
  note chunks = concat_chunks [OF this m]
  have "get (tc_tone_of_label c) (symbol_index grp) = Some (tc_tone_of_label c ! symbol_index grp)"
    if "grp \<in> set (chunks_exact (data_bits ?k) bits)" for grp
  proof -
    have "length grp = data_bits ?k" using chunks that by blast
    then have "symbol_index grp < 2 ^ data_bits ?k" using symbol_index_less [of grp] by simp
    then show ?thesis using labels by (simp add: labels_ok_def)
  qed
  then have "tone_encode c payload rv = Some (Inr (map (\<lambda>grp. tc_tone_of_label c ! symbol_index grp)
           (chunks_exact (data_bits ?k) bits)))"
    using sel m len by (simp add: tone_encode_def those_map_cong Let_def)
  with that b show thesis by (simp add: tone_view_def)
qed

lemma chunks_concat: "\<forall>r\<in>set rows. length r = n \<Longrightarrow> 0 < n \<Longrightarrow> chunks_exact n (concat rows) = rows"
proof (induction rows)
  case Nil
  show ?case by (subst chunks_exact.simps) auto
next
  case (Cons r rows)
  then show ?case by (subst chunks_exact.simps) simp
qed

lemma concat_all2: "list_all2 (list_all2 P) xss yss \<Longrightarrow> list_all2 P (concat xss) (concat yss)"
  by (induction rule: list_all2_induct) (auto intro: list_all2_appendI)

lemma group_agrees:
  assumes labels: "labels_ok m labels" and grp: "length grp = m" "set grp \<subseteq> {0, 1}"
    and row: "stands_out (2 ^ m) row (labels ! symbol_index grp)"
  shows "list_all2 agrees (map (symbol_llr m (2 ^ m) row) [0..<m]) grp"
proof (intro list_all2_all_nthI)
  fix b assume "b < length (map (symbol_llr m (2 ^ m) row) [0..<m])"
  then have b: "b < m" by simp
  let ?s = "labels ! symbol_index grp"
  have "symbol_index grp < 2 ^ m" using symbol_index_less [of grp] grp by simp
  then have "gray ?s = symbol_index grp" using labels by (simp add: labels_ok_def)
  moreover have "bits_of (symbol_index grp) m ! b = grp ! b" using bits_of_symbol_index [OF grp(2)] grp(1) by simp
  ultimately have bit: "grp ! b = of_nat (label_bit m b ?s)" using b by (simp add: bits_of_def label_bit_def)
  obtain u v where "u < 2 ^ m" "label_bit m b u = 0" "v < 2 ^ m" "label_bit m b v = 1"
    using labels b unfolding labels_ok_def by blast
  from symbol_llr_agrees [OF row this] b bit
  show "agrees (map (symbol_llr m (2 ^ m) row) [0..<m] ! b) (grp ! b)" by simp
qed (simp add: grp)

text \<open>
  A frame whose every symbol's tone stands out of its row of metrics decodes to its payload.
\<close>

lemma tone_clean_decoding:
  assumes c: "tone_codec_ok c" and p: "peels (tc_code c)"
    and room: "kind_info_bits (tc_kind c) + 2 * fc_z (tc_code c) \<le> kind_coded_bits (tc_kind c)"
    and len: "length payload = tk_payload_bytes (tc_kind c)" and nz: "\<exists>b\<in>set payload. b \<noteq> 0"
    and e: "tone_encode c payload 0 = Some (Inr tones)"
    and rows: "list_all2 (stands_out (tk_data_tones (tc_kind c))) rows tones"
  shows "\<exists>soft full. bit_llrs (concat rows) (tk_data_tones (tc_kind c)) = Some soft \<and>
    tone_decode c soft 0 None = Some (Inr (Some payload, full))"
proof -
  let ?k = "tc_kind c" and ?v = "tone_view c"
  let ?m = "data_bits ?k"
  have core: "codec_core ?v" and m: "0 < ?m" and n: "tk_data_tones ?k = 2 ^ ?m"
    and labels: "labels_ok ?m (tc_tone_of_label c)"
    using c by (auto simp: tone_codec_ok_def)
  obtain bits where b: "encode_bits ?v payload 0 = Some (Inr bits)" "length bits = kind_coded_bits ?k"
    "set bits \<subseteq> {0, 1}" "tones = map (\<lambda>grp. tc_tone_of_label c ! symbol_index grp) (chunks_exact ?m bits)"
    using tone_encode_ok [OF c len, of 0] e by auto
  have "length bits mod ?m = 0" by (simp add: b(2) kind_coded_bits_def)
  note chunks = concat_chunks [OF this m]
  have "\<forall>r\<in>set rows. length r = 2 ^ ?m"
    using rows n by (auto simp: stands_out_def list_all2_conv_all_nth in_set_conv_nth)
  then have cut: "chunks_exact (2 ^ ?m) (concat rows) = rows" by (intro chunks_concat) auto
  have tz: "trailing_zeros (2 ^ ?m) = ?m" using n by (metis data_bits_def)
  let ?soft = "concat (map (\<lambda>row. map (symbol_llr ?m (2 ^ ?m) row) [0..<?m]) rows)"
  have soft: "bit_llrs (concat rows) (tk_data_tones ?k) = Some ?soft"
    by (simp add: bit_llrs_def Let_def n cut tz)
  have "list_all2 agrees ?soft (concat (chunks_exact ?m bits))"
  proof (rule concat_all2, rule list_all2_all_nthI)
    let ?groups = "chunks_exact ?m bits"
    show "length (map (\<lambda>row. map (symbol_llr ?m (2 ^ ?m) row) [0..<?m]) rows) = length ?groups"
      using list_all2_lengthD [OF rows] b(4) by simp
  next
    let ?groups = "chunks_exact ?m bits"
    fix i assume "i < length (map (\<lambda>row. map (symbol_llr ?m (2 ^ ?m) row) [0..<?m]) rows)"
    then have i: "i < length rows" "i < length ?groups" using list_all2_lengthD [OF rows] b(4) by simp_all
    then have g: "?groups ! i \<in> set ?groups" by simp
    have "set (?groups ! i) \<subseteq> set (concat ?groups)" using g by auto
    then have "set (?groups ! i) \<subseteq> {0, 1}" using chunks b(3) by simp
    moreover have "stands_out (2 ^ ?m) (rows ! i) (tc_tone_of_label c ! symbol_index (?groups ! i))"
      using list_all2_nthD [OF rows i(1)] i b(4) n by simp
    ultimately show "list_all2 agrees (map (\<lambda>row. map (symbol_llr ?m (2 ^ ?m) row) [0..<?m]) rows ! i) (?groups ! i)"
      using group_agrees [OF labels] chunks g i(1) by simp
  qed
  then have agree: "list_all2 agrees ?soft bits" using chunks by simp
  have "length ?soft = kind_coded_bits ?k" using list_all2_lengthD [OF agree] b(2) by simp
  moreover have "\<exists>full. decode_block (tc_code c) (kind_info_bits ?k) (kind_coded_bits ?k) 30 (tc_permutation c) ?soft 0 None =
      Some (Inr (Some payload, full))"
    using soft_decoding [OF core _ _ _ nz b(1) agree, of 30] p room len by (simp add: tone_view_def)
  ultimately show ?thesis
    using soft by (auto simp: tone_decode_def Let_def)
qed

section \<open>The kinds of the tables\<close>

lemma tz_16 [simp]: "trailing_zeros 16 = 4" and tz_4 [simp]: "trailing_zeros 4 = 2"
  by (simp_all add: trailing_zeros.simps)

lemma labels_16:
  "tone_of_labels 16 = Some [0, 1, 3, 2, 7, 6, 4, 5, 15, 14, 12, 13, 8, 9, 11, 10]"
  by code_simp

lemma labels_4: "tone_of_labels 4 = Some [0, 1, 3, 2]"
  by code_simp

definition labels_check :: "nat \<Rightarrow> nat list \<Rightarrow> bool" where
  "labels_check bits labels \<longleftrightarrow> length labels = 2 ^ bits \<and>
     list_all (\<lambda>l. labels ! l < 2 ^ bits \<and> gray (labels ! l) = l) [0..<2 ^ bits] \<and>
     list_all (\<lambda>b. list_ex (\<lambda>u. label_bit bits b u = 0) [0..<2 ^ bits] \<and>
        list_ex (\<lambda>u. label_bit bits b u = 1) [0..<2 ^ bits]) [0..<bits]"

lemma labels_checked: "labels_check bits labels \<Longrightarrow> labels_ok bits labels"
  by (simp add: labels_check_def labels_ok_def list_all_iff list_ex_iff Ball_def Bex_def)

lemma labels_ok_tables:
  "labels_ok 4 [0, 1, 3, 2, 7, 6, 4, 5, 15, 14, 12, 13, 8, 9, 11, 10]" "labels_ok 2 [0, 1, 3, 2]"
  by (rule labels_checked, code_simp)+

definition kind_ok :: "tone_kind \<Rightarrow> bool" where
  "kind_ok k \<longleftrightarrow> (tk_data_tones k = 16 \<or> tk_data_tones k = 4) \<and> 2 \<le> kind_coded_bits k \<and>
     kind_info_bits k \<le> kb_for (kind_base_graph k) (kind_info_bits k) * 384 \<and>
     block_room (kind_info_bits k) (kind_coded_bits k) (kind_base_graph k)"

lemma table_kind_numbers:
  "map (\<lambda>k. (tk_data_tones k, kind_info_bits k, kind_coded_bits k, kind_base_graph k)) (all_kinds TONE) =
     [(16, 80, 224, 2), (16, 216, 440, 2), (16, 312, 440, 2), (16, 432, 880, 2), (16, 624, 880, 1), (16, 864, 1760, 2), (16, 1248, 1760, 1), (4, 432, 880, 2), (4, 624, 880, 1), (4, 768, 880, 1)]"
  by (simp add: TONE_def all_kinds_def kinds_def kind_info_bits_def kind_coded_bits_def kind_base_graph_def
      kind_rate_def data_bits_def CRC24A_def select_base_graph_def)

definition numbers_ok :: "nat \<times> nat \<times> nat \<times> u8 \<Rightarrow> bool" where
  "numbers_ok = (\<lambda>(tones, info, coded, bg). (tones = 16 \<or> tones = 4) \<and> 2 \<le> coded \<and>
     info \<le> kb_for bg info * 384 \<and> block_room info coded bg)"

lemma table_kinds_ok:
  assumes "k \<in> set (all_kinds TONE)" shows "kind_ok k"
proof -
  let ?f = "\<lambda>k. (tk_data_tones k, kind_info_bits k, kind_coded_bits k, kind_base_graph k)"
  have "list_all numbers_ok (map ?f (all_kinds TONE))"
    unfolding table_kind_numbers by (simp add: numbers_ok_def kb_for_def block_room_def LIFTING_SETS_def Let_def)
  then have "numbers_ok (?f k)" using assms by (auto simp: list_all_iff)
  then show ?thesis by (simp add: numbers_ok_def kind_ok_def)
qed

lemma kind_labels:
  assumes "kind_ok k"
  obtains labels where "tone_of_labels (tk_data_tones k) = Some labels" and "labels_ok (data_bits k) labels"
    and "0 < data_bits k" and "tk_data_tones k = 2 ^ data_bits k"
proof (cases "tk_data_tones k = 16")
  case True
  then show thesis using that labels_16 labels_ok_tables(1) by (simp add: data_bits_def)
next
  case False
  with assms have "tk_data_tones k = 4" by (simp add: kind_ok_def)
  then show thesis using that labels_4 labels_ok_tables(2) by (simp add: data_bits_def)
qed

context base_graphs
begin

lemma tone_codec_new_ok:
  assumes k: "kind_ok k"
  obtains c z where "tone_codec_new bg1 bg2 k = Some (Inr c)" and "tone_codec_ok c" and "tc_kind c = k"
    and "fc_z (tc_code c) = z" and "select_lifting_size (kind_base_graph k) (kind_info_bits k) = Inr z"
    and "code_new bg1 bg2 (kind_base_graph k) z = Some (Inr (tc_code c))"
proof -
  let ?bg = "kind_base_graph k" and ?info = "kind_info_bits k"
  let ?perm = "stride_permutation (kind_coded_bits k) (coprime_stride (kind_coded_bits k))"
  have info: "?info = 8 * tk_payload_bytes k + 24" by (simp add: kind_info_bits_def CRC24A_def)
  have "?bg = 1 \<or> ?bg = 2" using select_base_graph_12 by (simp add: kind_base_graph_def)
  moreover have "?info \<le> kb_for ?bg ?info * 384" "2 \<le> kind_coded_bits k" using k by (auto simp: kind_ok_def)
  moreover have "4 \<le> ?info" by (simp add: info)
  ultimately obtain z code where code: "select_lifting_size ?bg ?info = Inr z"
    "code_new bg1 bg2 ?bg z = Some (Inr code)" "fc_z code = z" "block_fits code ?info"
    using code_for_block by blast
  obtain labels where labels: "tone_of_labels (tk_data_tones k) = Some labels" "labels_ok (data_bits k) labels"
    "0 < data_bits k" "tk_data_tones k = 2 ^ data_bits k"
    by (rule kind_labels [OF k])
  note perm = stride_permutation_ok [OF coprime_stride_ok(3) [OF \<open>2 \<le> kind_coded_bits k\<close>]]
  let ?c = "\<lparr>tc_kind = k, tc_code = code, tc_permutation = ?perm, tc_tone_of_label = labels\<rparr>"
  have "tone_codec_new bg1 bg2 k = Some (Inr ?c)"
    using code labels(1) by (simp add: tone_codec_new_def block_fits_def Let_def)
  moreover have "tone_codec_ok ?c"
    using code(4) labels(2-4) perm info by (simp add: tone_codec_ok_def codec_core_def tone_view_def)
  ultimately show thesis using that [of ?c z] code by simp
qed

end

section \<open>The frame's slots\<close>

lemma write_block_eq:
  assumes "offset + length tones \<le> length out"
  shows "write_block offset tones out =
    Some (take offset out @ map Some tones @ drop (offset + length tones) out)"
  using assms unfolding write_block_def
proof (induction tones rule: rev_induct)
  case (snoc x xs)
  let ?out = "take offset out @ map Some xs @ drop (offset + length xs) out"
  have "for_each (\<lambda>(j, tone) out. put out (offset + j) (Some tone)) (enumerate 0 xs) out = Some ?out"
    using snoc by simp
  moreover have "?out[offset + length xs := Some x] =
      take offset out @ map Some (xs @ [x]) @ drop (offset + length (xs @ [x])) out"
    using snoc.prems by (simp add: list_update_append Cons_nth_drop_Suc [symmetric])
  ultimately show ?case
    using snoc.prems by (simp add: enumerate_append_eq for_each_append put_def)
qed simp

lemma fill_slots_counts:
  assumes "length data = per * length (filter (\<lambda>r. r = None) roles)"
  shows "\<exists>ss. fill_slots per roles data = Some ss \<and> map fst (filter (\<lambda>s. \<not> snd s) ss) = data \<and>
    map fst (filter snd ss) = map the (filter (\<lambda>r. r \<noteq> None) roles) \<and>
    length ss = length data + length (filter (\<lambda>r. r \<noteq> None) roles)"
  using assms
proof (induction per roles data rule: fill_slots.induct)
  case (2 per tone roles data)
  then show ?case by auto
next
  case (3 per roles data)
  then have "\<not> length data < per" "length (drop per data) = per * length (filter (\<lambda>r. r = None) roles)" by auto
  with 3 obtain ss where ss: "fill_slots per roles (drop per data) = Some ss"
    "map fst (filter (\<lambda>s. \<not> snd s) ss) = drop per data"
    "map fst (filter snd ss) = map the (filter (\<lambda>r. r \<noteq> None) roles)"
    "length ss = length (drop per data) + length (filter (\<lambda>r. r \<noteq> None) roles)" by blast
  have "filter (\<lambda>s. \<not> snd s) (map (\<lambda>tone. (tone, False)) xs) = map (\<lambda>tone. (tone, False)) xs"
    "filter snd (map (\<lambda>tone. (tone, False)) xs) = []" for xs :: "nat list"
    by (induction xs) simp_all
  with ss \<open>\<not> length data < per\<close> show ?case by (simp add: o_def)
qed simp

lemma fill_slots_short:
  "length data < per * length (filter (\<lambda>r. r = None) roles) \<Longrightarrow> fill_slots per roles data = None"
  by (induction per roles data rule: fill_slots.induct) auto

definition slots_ok :: "tone_tables \<Rightarrow> tone_kind \<Rightarrow> bool" where
  "slots_ok t k \<longleftrightarrow> data_slots t k * speed t k = tk_data_symbols k \<and> 0 < speed t k \<and>
     tk_patterns k \<noteq> [] \<and>
     list_all (\<lambda>p. p < length (tt_sync_patterns t) \<and> length (tt_sync_patterns t ! p) = 8) (tk_patterns k)"

lemma sync_at_ok:
  assumes "slots_ok t k" "rv < n_rv k"
  obtains p where "sync_at t k rv = Some p" "length p = 8"
  using assms by (auto simp: slots_ok_def n_rv_def sync_at_def list_all_length)

text \<open>The slots: the frame's pattern, 45 % of the data, the middle pattern, the rest, the frame's again.\<close>

lemma layout_eq:
  assumes k: "slots_ok t k" and p: "sync_at t k rv = Some p" "length p = 8"
    and q: "middle_rv k rv follows = Some v" "sync_at t k v = Some q" "length q = 8"
  shows "layout_with t k rv follows = Some (map Some p @ replicate (data_slots t k * 9 div 20) None @
    map Some q @ replicate (data_slots t k - data_slots t k * 9 div 20) None @ map Some p)"
proof -
  define a where "a = data_slots t k * 9 div 20"
  define b where "b = data_slots t k - a"
  have n: "kind_symbols t k = 8 + (a + (8 + (b + 8)))" "data_slots t k = a + b"
    by (simp_all add: kind_symbols_def a_def b_def)
  define L1 where "L1 = map Some p @ replicate (a + (8 + (b + 8))) None"
  define L2 where "L2 = map Some p @ replicate a None @ map Some q @ replicate (b + 8) None"
  define o1 where "o1 = 8 + a"
  define o2 where "o2 = 8 + a + 8 + b"
  have "write_block 0 p (replicate (8 + (a + (8 + (b + 8)))) None) = Some L1"
    by (simp add: write_block_eq p(2) L1_def)
  then have 1: "write_block 0 p (replicate (kind_symbols t k) None) = Some L1" unfolding n(1) .
  have 2: "write_block o1 q L1 = Some L2"
    unfolding L1_def o1_def by (simp add: write_block_eq p(2) q(3) L2_def)
  have 3: "write_block o2 p L2 =
      Some (map Some p @ replicate a None @ map Some q @ replicate b None @ map Some p)"
    unfolding L2_def o2_def by (simp add: write_block_eq p(2) q(3) add.commute)
  have offsets: "block_offsets t k = [0, o1, o2]"
    using n(1) unfolding block_offsets_def a_def [symmetric] o1_def o2_def by simp
  have "layout_with t k rv follows = Some (map Some p @ replicate a None @ map Some q @ replicate b None @ map Some p)"
    unfolding layout_with_def offsets by (simp add: p q 1 2 3)
  then show ?thesis by (simp add: a_def b_def)
qed

lemma frame_symbols_ok:
  assumes k: "slots_ok t k" and rv: "rv < n_rv k"
  shows "\<exists>p q. sync_at t k rv = Some p \<and> sync_at t k ((rv + follows) mod n_rv k) = Some q \<and>
    length p = 8 \<and> length q = 8 \<and>
    (if length data = tk_data_symbols k
     then \<exists>tones sync. frame_symbols_with t k data rv follows = Some (tones, sync) \<and>
         length tones = length data + 24 \<and> length sync = length tones \<and>
         map fst (filter (\<lambda>s. \<not> snd s) (zip tones sync)) = data \<and>
         map fst (filter snd (zip tones sync)) = p @ q @ p
     else length data < tk_data_symbols k \<longrightarrow> frame_symbols_with t k data rv follows = None)"
proof -
  obtain p where p: "sync_at t k rv = Some p" "length p = 8" by (rule sync_at_ok [OF k rv])
  have n: "0 < n_rv k" using k by (simp add: slots_ok_def n_rv_def)
  then obtain q where q: "sync_at t k ((rv + follows) mod n_rv k) = Some q" "length q = 8"
    using sync_at_ok [OF k, of "(rv + follows) mod n_rv k"] by auto
  have mid: "middle_rv k rv follows = Some ((rv + follows) mod n_rv k)" using n by (simp add: middle_rv_def)
  let ?a = "data_slots t k * 9 div 20"
  let ?roles = "map Some p @ replicate ?a None @ map Some q @ replicate (data_slots t k - ?a) None @ map Some p"
  have f: "filter (\<lambda>r. r = None) (map Some xs) = []" "filter (\<lambda>r. r \<noteq> None) (map Some xs) = map Some xs"
    for xs :: "nat list"
    by (induction xs) simp_all
  have none: "length (filter (\<lambda>r. r = None) ?roles) = data_slots t k" by (simp add: f)
  have some: "map the (filter (\<lambda>r. r \<noteq> None) ?roles) = p @ q @ p" by (simp add: f o_def)
  have layout: "layout_with t k rv follows = Some ?roles" by (rule layout_eq [OF k p mid q])
  show ?thesis
  proof (cases "length data = tk_data_symbols k")
    case True
    then have "length data = speed t k * length (filter (\<lambda>r. r = None) ?roles)"
      unfolding none using k by (simp add: slots_ok_def mult.commute)
    from fill_slots_counts [OF this] obtain ss where ss: "fill_slots (speed t k) ?roles data = Some ss"
      "map fst (filter (\<lambda>s. \<not> snd s) ss) = data" "map fst (filter snd ss) = p @ q @ p"
      "length ss = length data + length (p @ q @ p)"
      unfolding some [symmetric] by auto
    have "zip (map fst ss) (map snd ss) = ss" by (simp add: zip_map_fst_snd)
    with True ss p q layout show ?thesis by (auto simp: frame_symbols_with_def)
  next
    case False
    have "fill_slots (speed t k) ?roles data = None" if "length data < tk_data_symbols k"
    proof -
      have "tk_data_symbols k = speed t k * length (filter (\<lambda>r. r = None) ?roles)"
        unfolding none using k by (simp add: slots_ok_def mult.commute)
      with that show ?thesis by (intro fill_slots_short) simp
    qed
    with False p q layout show ?thesis by (auto simp: frame_symbols_with_def)
  qed
qed

section \<open>The waveform\<close>

definition power_of :: "sample \<Rightarrow> f64" where
  "power_of s = (fst s) ^ 2 + (snd s) ^ 2"

lemma length_oscillate: "length (oscillate scale g acc fs) = length fs"
  by (induction fs arbitrary: acc) simp_all

lemma oscillate_steady: "s \<in> set (oscillate scale g acc fs) \<Longrightarrow> power_of s = g ^ 2"
proof (induction fs arbitrary: acc)
  case (Cons f fs)
  have "power_of (cos (scale * acc) * g, sin (scale * acc) * g) = g ^ 2"
    by (simp add: power_of_def power_mult_distrib flip: distrib_right)
  with Cons show ?case by auto
qed simp

lemma power_of_scale:
  assumes "0 \<le> w" "w \<le> 1" shows "power_of (scale_sample w s) \<le> power_of s"
proof -
  have "w ^ 2 \<le> 1" using assms by (simp add: power_le_one)
  then have "w ^ 2 * power_of s \<le> 1 * power_of s"
    by (intro mult_right_mono) (simp_all add: power_of_def)
  then show ?thesis by (simp add: power_of_def scale_sample_def power_mult_distrib algebra_simps)
qed

lemma raised_cosine_range: "0 \<le> 0.5 - 0.5 * cos (x :: real)" "0.5 - 0.5 * cos (x :: real) \<le> 1"
  using cos_le_one [of x] cos_ge_minus_one [of x] by linarith+

definition steady :: "nat \<Rightarrow> f64 \<Rightarrow> sample list \<Rightarrow> bool" where
  "steady edge pw out \<longleftrightarrow> (\<forall>i<length out. power_of (out ! i) \<le> pw) \<and>
     (\<forall>i. edge \<le> i \<and> i + edge < length out \<longrightarrow> power_of (out ! i) = pw)"

lemma fade_edges_steady:
  assumes out: "\<forall>s\<in>set out. power_of s = pw"
  shows "length (fade_edges edge out) = length out \<and> steady edge pw (fade_edges edge out)"
proof (cases "edge > 0 \<and> length out \<ge> 2 * edge")
  case True
  let ?step = "\<lambda>k out. let w = 0.5 - 0.5 * cos (pi * (real k + 0.5) / real edge);
                             j = length out - 1 - k;
                             out = out[k := scale_sample w (out ! k)]
                         in out[j := scale_sample w (out ! j)]"
  let ?I = "\<lambda>o'. length o' = length out \<and> steady edge pw o'"
  have keep: "?I (out'[i := scale_sample w (out' ! i)])"
    if "?I out'" "i < length out" "0 \<le> w" "w \<le> 1" "i < edge \<or> length out \<le> i + edge" for out' i w
    using that power_of_scale [OF that(3,4), of "out' ! i"]
    by (auto simp: steady_def nth_list_update intro: order_trans)
  have step: "?I (?step k out')" if out': "?I out'" and k: "k < edge" for k out'
  proof -
    let ?w = "0.5 - 0.5 * cos (pi * (real k + 0.5) / real edge)"
    let ?o = "out'[k := scale_sample ?w (out' ! k)]" and ?j = "length out' - 1 - k"
    have "?I ?o"
      by (rule keep [OF out' _ raised_cosine_range]) (use k True in auto)
    then have "?I (?o[?j := scale_sample ?w (?o ! ?j)])"
      by (rule keep [OF _ _ raised_cosine_range]) (use out' k True in auto)
    then show ?thesis unfolding Let_def .
  qed
  have "?I (fold ?step ks out)" if "set ks \<subseteq> {..<edge}" for ks
    using that
  proof (induction ks rule: rev_induct)
    case Nil
    then show ?case using out by (simp add: steady_def)
  next
    case (snoc k ks)
    then have "?I (?step k (fold ?step ks out))" by (intro step) auto
    then show ?case by simp
  qed
  moreover have "set [0..<edge] \<subseteq> {..<edge}" by auto
  ultimately have "?I (fold ?step [0..<edge] out)" by blast
  with True show ?thesis by (simp only: fade_edges_def simp_thms if_True)
next
  case False
  then have "fade_edges edge out = out" by (simp only: fade_edges_def if_False)
  with out show ?thesis by (simp add: steady_def)
qed

lemma glide_ok:
  assumes i: "i < length hz" "length ramps = length hz"
    and room: "i = 0 \<or> ramps ! i \<le> start_of" "start_of + ramps ! i \<le> length freq"
  shows "returns (glide hz ramps i start_of freq) (\<lambda>freq'. length freq' = length freq)"
proof -
  have loop: "returns (for_each (\<lambda>k freq. put freq (s + k) (g k)) [0..<n] freq) (\<lambda>freq'. length freq' = length freq)"
    if "s + n \<le> length freq" for s n and g :: "nat \<Rightarrow> f64"
    using that by (intro returns_for_each) auto
  show ?thesis
  proof (cases "i > 0 \<and> hz ! i \<noteq> hz ! (i - 1) \<and> ramps ! i > 0")
    case True
    then have "ramps ! i div 2 \<le> start_of" using room(1) by linarith
    then obtain s where s: "checked_sub start_of (ramps ! i div 2) = Some s" "s \<le> start_of"
      by (simp add: checked_sub_def)
    have "s + ramps ! i \<le> length freq" using s(2) room(2) by linarith
    from loop [OF this] True s(1) i show ?thesis by (simp add: glide_def Let_def)
  next
    case False
    with i show ?thesis by (auto simp: glide_def returns_if)
  qed
qed

lemma glides_ok:
  assumes len: "length lengths = length hz" "length ramps = length hz" "length freq = sum_list lengths"
    and room: "\<forall>i<length hz. ramps ! i \<le> lengths ! i \<and> (i = 0 \<or> ramps ! i \<le> lengths ! (i - 1))"
  shows "returns (glides hz lengths ramps freq) (\<lambda>freq'. length freq' = length freq)"
proof -
  let ?I = "\<lambda>i (start_of, freq'). start_of = sum_list (take i lengths) \<and> length freq' = length freq"
  let ?f = "\<lambda>i (start_of, freq). glide hz ramps i start_of freq \<bind>
     (\<lambda>freq'. get lengths i \<bind> (\<lambda>n. Some (start_of + n, freq')))"
  have "returns (for_each ?f [0..<length hz] (0, freq)) (?I (length hz))"
  proof (rule returns_for_upt)
    fix i and s :: "nat \<times> f64 list" assume i: "i < length hz" and s: "?I i s"
    obtain start_of freq' where e: "s = (start_of, freq')" by (cases s)
    have take: "sum_list (take (Suc i) lengths) = sum_list (take i lengths) + lengths ! i"
      using i len by (simp add: take_Suc_conv_app_nth)
    have "sum_list (take (Suc i) lengths) \<le> sum_list (take (Suc i) lengths @ drop (Suc i) lengths)"
      unfolding sum_list_append by simp
    then have "start_of + ramps ! i \<le> length freq'"
      using room i s e take len(3) by fastforce
    moreover have "i = 0 \<or> ramps ! i \<le> start_of"
    proof (cases i)
      case (Suc j)
      then have "sum_list (take i lengths) = sum_list (take j lengths) + lengths ! j"
        using i len by (simp add: take_Suc_conv_app_nth)
      with room i Suc s e show ?thesis by fastforce
    qed simp
    ultimately have "returns (glide hz ramps i start_of freq') (\<lambda>f. length f = length freq')"
      using i len by (intro glide_ok) auto
    then show "returns (?f i s) (?I (Suc i))"
      using i len s e take by (auto elim!: returns_mono)
  qed simp
  then show ?thesis by (auto simp: glides_def returns_def)
qed

lemma cpfsk_ok:
  assumes "length lengths = length hz" "length ramps = length hz"
    "\<forall>i<length hz. ramps ! i \<le> lengths ! i \<and> (i = 0 \<or> ramps ! i \<le> lengths ! (i - 1))"
  shows "returns (cpfsk t hz lengths ramps g)
    (\<lambda>out. length out = sum_list lengths \<and> steady (tt_edge_samples t) ((10 powr (g / 20)) ^ 2) out)"
proof -
  let ?freq = "concat (map2 (\<lambda>f n. replicate n f) hz lengths)"
  have "length ?freq = sum_list lengths"
    using assms(1) by (induction hz lengths rule: list_induct2') auto
  from glides_ok [OF assms(1,2) this assms(3)] show ?thesis
    unfolding cpfsk_def using \<open>length ?freq = sum_list lengths\<close>
    by (auto simp: length_oscillate fade_edges_steady [OF ballI [OF oscillate_steady]] elim!: returns_mono)
qed

section \<open>A frame on the air\<close>

definition ramps_ok :: "tone_tables \<Rightarrow> tone_kind \<Rightarrow> bool" where
  "ramps_ok t k \<longleftrightarrow> tt_ramp_samples t \<le> tt_symbol_samples t \<and> tk_data_ramp_samples k \<le> tk_data_symbol_samples k \<and>
     tk_data_symbol_samples k * speed t k = tt_symbol_samples t"

lemma modulate_frame_ok:
  assumes k: "ramps_ok t k" and len: "length tones = length sync"
  shows "returns (modulate_frame t k tones sync g) (\<lambda>out.
    length out = sum_list (map (\<lambda>s. if s then tt_symbol_samples t else tk_data_symbol_samples k) sync) \<and>
    steady (tt_edge_samples t) ((10 powr (g / 20)) ^ 2) out)"
proof -
  let ?own = "\<lambda>s. if s then tt_ramp_samples t else tk_data_ramp_samples k"
  let ?len = "\<lambda>s. if s then tt_symbol_samples t else tk_data_symbol_samples k"
  have own: "?own s \<le> ?len s" for s using k by (simp add: ramps_ok_def)
  show ?thesis
    unfolding modulate_frame_def Let_def
  proof (rule cpfsk_ok)
    have "min (?own a) (?own b) \<le> ?len a" "min (?own a) (?own b) \<le> ?len b" for a b
      using own [of a] own [of b] by linarith+
    then show "\<forall>i<length (map2 (\<lambda>tone s. if s then tone_hz t tone else data_tone_hz t k tone) tones sync).
      map (\<lambda>i. min (map ?own sync ! i) (map ?own sync ! (i - 1))) [0..<length (map ?own sync)] ! i \<le> map ?len sync ! i \<and>
      (i = 0 \<or> map (\<lambda>i. min (map ?own sync ! i) (map ?own sync ! (i - 1))) [0..<length (map ?own sync)] ! i
         \<le> map ?len sync ! (i - 1))"
      using len by simp
  qed (use len in simp_all)
qed

lemma sum_list_two:
  "sum_list (map (\<lambda>s. if s then a else b) sync) = length (filter id sync) * a + length (filter Not sync) * (b :: nat)"
  by (induction sync) simp_all

lemma table_frames:
  assumes "k \<in> set (all_kinds TONE)"
  shows "slots_ok TONE k" "ramps_ok TONE k" "n_rv k \<le> 4"
proof -
  have "list_all (\<lambda>k. slots_ok TONE k \<and> ramps_ok TONE k \<and> n_rv k \<le> 4) (all_kinds TONE)" by code_simp
  with assms show "slots_ok TONE k" "ramps_ok TONE k" "n_rv k \<le> 4" by (auto simp: list_all_iff)
qed

lemma tone_codec_of_kind:
  assumes k: "k \<in> set (all_kinds TONE)" and new: "tone_codec_new BG1 BG2 k = Some (Inr c)"
  shows "tone_codec_ok c" "tc_kind c = k" "peels (tc_code c)"
    "kind_info_bits k + 2 * fc_z (tc_code c) \<le> kind_coded_bits k"
proof -
  have ok: "kind_ok k" by (rule table_kinds_ok [OF k])
  obtain z where c: "tone_codec_ok c" "tc_kind c = k" "fc_z (tc_code c) = z"
    "select_lifting_size (kind_base_graph k) (kind_info_bits k) = Inr z"
    "code_new BG1 BG2 (kind_base_graph k) z = Some (Inr (tc_code c))"
    using nr.tone_codec_new_ok [OF ok] new by (metis Inr_inject option.inject)
  show "tone_codec_ok c" "tc_kind c = k" by (rule c)+
  show "peels (tc_code c)" by (rule nr.code_peels [OF c(5)])
  show "kind_info_bits k + 2 * fc_z (tc_code c) \<le> kind_coded_bits k"
    unfolding c(3) by (rule block_room_lifting [OF _ c(4)]) (use ok in \<open>simp add: kind_ok_def\<close>)
qed

lemma length_tones:
  assumes c: "tone_codec_ok c" and len: "length payload = tk_payload_bytes (tc_kind c)" and rv: "\<not> rv > 3"
  obtains tones where "tone_encode c payload rv = Some (Inr tones)" and "length tones = tk_data_symbols (tc_kind c)"
proof -
  obtain bits where b: "length bits = kind_coded_bits (tc_kind c)"
    "tone_encode c payload rv = Some (Inr (map (\<lambda>grp. tc_tone_of_label c ! symbol_index grp)
           (chunks_exact (data_bits (tc_kind c)) bits)))"
    by (rule tone_encode_ok [OF c len rv])
  have "0 < data_bits (tc_kind c)" using c by (simp add: tone_codec_ok_def)
  with that b show thesis by (simp add: length_chunks kind_coded_bits_def)
qed

lemma filter_zip_snd:
  "length xs = length bs \<Longrightarrow> length (filter snd (zip xs bs)) = length (filter id bs) \<and>
     length (filter (\<lambda>s. \<not> snd s) (zip xs bs)) = length (filter Not bs)"
  by (induction xs bs rule: list_induct2) auto

lemma burst_ok:
  assumes c: "tone_codec_ok c" and k: "slots_ok t (tc_kind c)" "ramps_ok t (tc_kind c)" "unat rv < n_rv (tc_kind c)"
    and len: "length payload = tk_payload_bytes (tc_kind c)" and rv: "\<not> rv > 3"
  shows "\<exists>samples. burst_with t c payload rv follows = Some (Inr samples) \<and>
    length samples = kind_samples t (tc_kind c) \<and>
    steady (tt_edge_samples t) ((10 powr (tt_gain_db t / 20)) ^ 2) samples"
proof -
  let ?k = "tc_kind c"
  obtain data where data: "tone_encode c payload rv = Some (Inr data)" "length data = tk_data_symbols ?k"
    by (rule length_tones [OF c len rv])
  from frame_symbols_ok [OF k(1,3), of "unat follows" data] data(2) obtain p q tones sync where
    f: "frame_symbols_with t ?k data (unat rv) (unat follows) = Some (tones, sync)" "length sync = length tones"
      "map fst (filter (\<lambda>s. \<not> snd s) (zip tones sync)) = data"
      "map fst (filter snd (zip tones sync)) = p @ q @ p" "length p = 8" "length q = 8"
    by auto
  have "length (filter id sync) = length (p @ q @ p)" "length (filter Not sync) = length data"
    using filter_zip_snd [of tones sync] f(2)
    unfolding f(4) [symmetric] arg_cong [OF f(3) [symmetric], of length] length_map by simp_all
  then have "length (filter id sync) = 24" "length (filter Not sync) = tk_data_symbols ?k"
    using f(5,6) data(2) by simp_all
  then have "sum_list (map (\<lambda>s. if s then tt_symbol_samples t else tk_data_symbol_samples ?k) sync) =
      24 * tt_symbol_samples t + data_slots t ?k * (tk_data_symbol_samples ?k * speed t ?k)"
    using k(1) unfolding sum_list_two by (simp add: slots_ok_def mult_ac flip: mult.assoc)
  also have "\<dots> = kind_samples t ?k"
    using k(2) by (simp add: ramps_ok_def kind_samples_def kind_symbols_def algebra_simps)
  finally have "sum_list (map (\<lambda>s. if s then tt_symbol_samples t else tk_data_symbol_samples ?k) sync) =
      kind_samples t ?k" .
  with modulate_frame_ok [OF k(2) f(2) [symmetric], of "tt_gain_db t"] show ?thesis
    by (auto simp: burst_with_def data(1) f(1) returns_def)
qed

subsection \<open>The sync patterns\<close>

text \<open>In how many of their places two patterns agree; a Costas sequence.\<close>

definition shared :: "nat list \<Rightarrow> nat list \<Rightarrow> nat" where
  "shared p q = length (filter (\<lambda>(a, b). a = b) (zip p q))"

definition costas :: "nat list \<Rightarrow> bool" where
  "costas p \<longleftrightarrow> list_all (\<lambda>d. distinct (map (\<lambda>i. int (p ! (i + d)) - int (p ! i)) [0..<length p - d])) [1..<length p]"

fun apart :: "nat list list \<Rightarrow> bool" where
  "apart [] = True"
| "apart (p # ps) = (list_all (\<lambda>q. shared p q \<le> 2) ps \<and> apart ps)"

lemma apart_nth: "apart ps \<Longrightarrow> i < j \<Longrightarrow> j < length ps \<Longrightarrow> shared (ps ! i) (ps ! j) \<le> 2"
proof (induction ps arbitrary: i j)
  case (Cons p ps)
  then show ?case by (cases i; cases j) (auto simp: list_all_length)
qed simp

lemma shared_commute: "shared p q = shared q p"
proof -
  have "filter (\<lambda>(a, b). a = b) (zip q p) = map prod.swap (filter (\<lambda>(a, b). a = b) (zip p q))"
    by (induction p q rule: list_induct2') auto
  then show ?thesis by (simp add: shared_def)
qed

definition hypotheses :: "(tone_kind \<times> nat) list" where
  "hypotheses = concat (map (\<lambda>k. map (Pair k) [0..<n_rv k]) (all_kinds TONE))"

definition pattern_of :: "tone_kind \<times> nat \<Rightarrow> nat list" where
  "pattern_of h = TONE_SYNC_PATTERNS ! (tk_patterns (fst h) ! snd h)"

lemma hypotheses_apart: "apart (map pattern_of hypotheses)" "list_all costas TONE_SYNC_PATTERNS"
  by code_simp+

lemma sync_at_hypothesis:
  assumes "k \<in> set (all_kinds TONE)" "sync_at TONE k rv = Some p"
  shows "(k, rv) \<in> set hypotheses" "p = pattern_of (k, rv)" "p \<in> set TONE_SYNC_PATTERNS"
proof -
  have sp: "tt_sync_patterns TONE = TONE_SYNC_PATTERNS" by (simp add: TONE_def)
  have "rv < n_rv k" using assms(2) by (auto simp: sync_at_def n_rv_def bind_eq_Some_conv)
  then show "(k, rv) \<in> set hypotheses" using assms(1)
    by (auto simp: hypotheses_def intro!: bexI [of _ k])
  show "p = pattern_of (k, rv)" "p \<in> set TONE_SYNC_PATTERNS"
    using assms(2) by (auto simp: sync_at_def sp pattern_of_def bind_eq_Some_conv)
qed

section \<open>Properties\<close>

text \<open>
  C37: the tone codec end to end: for every kind of the tables and every payload that is not all zeros,
  the tones encoded, each standing out of its symbol's metrics by more than the logarithm of the number
  of tones, are read back (Gray labels, log-sum soft bits, deinterleaving, rate recovery, LDPC,
  checksum) as the payload.
\<close>

theorem tone_round_trip:
  assumes "k \<in> set (all_kinds TONE)" "tone_codec_new BG1 BG2 k = Some (Inr c)"
    "length payload = tk_payload_bytes k" "\<exists>b\<in>set payload. b \<noteq> 0"
  shows "\<exists>tones. tone_encode c payload 0 = Some (Inr tones) \<and> length tones = tk_data_symbols k \<and>
    (\<forall>rows. list_all2 (stands_out (tk_data_tones k)) rows tones \<longrightarrow>
      (\<exists>soft full. bit_llrs (concat rows) (tk_data_tones k) = Some soft \<and>
         tone_decode c soft 0 None = Some (Inr (Some payload, full))))"
proof -
  note c = tone_codec_of_kind [OF assms(1,2)]
  obtain tones where tones: "tone_encode c payload 0 = Some (Inr tones)" "length tones = tk_data_symbols k"
    using length_tones [OF c(1), of payload 0] assms(3) c(2) by auto
  with tone_clean_decoding [OF c(1,3), of payload tones] c(2,4) assms(3,4) show ?thesis
    by auto
qed

theorem tone_round_trip_witness:
  "\<exists>c tones soft full. tone_codec_new BG1 BG2 (tt_control TONE) = Some (Inr c) \<and>
     tone_encode c [1, 2, 3, 4, 5, 6, 7] 0 = Some (Inr tones) \<and>
     bit_llrs (concat (map (\<lambda>s. map (\<lambda>t. if t = s then 4 else 0) [0..<16]) tones)) 16 = Some soft \<and>
     tone_decode c soft 0 None = Some (Inr (Some [1, 2, 3, 4, 5, 6, 7], full))"
proof -
  let ?k = "tt_control TONE" and ?row = "\<lambda>s. map (\<lambda>t. if t = s then 4 else 0) [0..<16] :: f64 list"
  have k: "?k \<in> set (all_kinds TONE)" by (simp add: all_kinds_def kinds_def)
  have n: "tk_payload_bytes ?k = 7" "tk_data_tones ?k = 16" by (simp_all add: TONE_def)
  obtain c where c: "tone_codec_new BG1 BG2 ?k = Some (Inr c)"
    using nr.tone_codec_new_ok [OF table_kinds_ok [OF k]] by metis
  from tone_round_trip [OF k c, of "[1, 2, 3, 4, 5, 6, 7]"] n obtain tones where
    tones: "tone_encode c [1, 2, 3, 4, 5, 6, 7] 0 = Some (Inr tones)"
    and all: "\<forall>rows. list_all2 (stands_out 16) rows tones \<longrightarrow>
      (\<exists>soft full. bit_llrs (concat rows) 16 = Some soft \<and>
         tone_decode c soft 0 None = Some (Inr (Some [1, 2, 3, 4, 5, 6, 7], full)))"
    by auto
  note ok = tone_codec_of_kind [OF k c]
  obtain bits where bits: "tones = map (\<lambda>grp. tc_tone_of_label c ! symbol_index grp) (chunks_exact (data_bits ?k) bits)"
    "length bits = kind_coded_bits ?k"
    using tone_encode_ok [OF ok(1), of "[1, 2, 3, 4, 5, 6, 7]" 0] tones ok(2) n by auto
  have "s < 16" if s: "s \<in> set tones" for s
  proof -
    have l: "labels_ok 4 (tc_tone_of_label c)" and d: "data_bits ?k = 4"
      using ok(1,2) n by (auto simp: tone_codec_ok_def data_bits_def)
    have "length bits mod 4 = 0" using bits(2) n by (simp add: kind_coded_bits_def data_bits_def)
    from conjunct2 [OF concat_chunks [OF this zero_less_numeral]]
    have "\<forall>grp\<in>set (chunks_exact 4 bits). length grp = 4" .
    moreover obtain grp where grp: "grp \<in> set (chunks_exact 4 bits)" "s = tc_tone_of_label c ! symbol_index grp"
      using s unfolding bits(1) set_map d by blast
    ultimately have "length grp = 4" by blast
    then have "symbol_index grp < 2 ^ 4" using symbol_index_less [of grp] by simp
    with l grp(2) show ?thesis by (simp add: labels_ok_def)
  qed
  moreover have "ln (16 :: real) < 4"
    using ln_realpow [of 2 4] ln_2_less_1 by simp
  ultimately have "list_all2 (stands_out 16) (map ?row tones) tones"
    by (auto simp: list_all2_conv_all_nth stands_out_def)
  with all c tones show ?thesis by blast
qed

text \<open>
  C38: the frame: for every kind, redundancy version and count of frames to follow, the frame's tones in
  time order are three sync blocks, the frame's pattern first and last and the pattern turned by the
  count in the middle, with the data tones between them in their order; data tones too few for the kind
  are refused (a panic).
\<close>

theorem frame_carries_data:
  assumes "k \<in> set (all_kinds TONE)" "rv < n_rv k"
  shows "\<exists>p q. sync_at TONE k rv = Some p \<and> sync_at TONE k ((rv + follows) mod n_rv k) = Some q \<and>
    length p = 8 \<and> length q = 8 \<and>
    (if length data = tk_data_symbols k
     then \<exists>tones sync. frame_symbols_with TONE k data rv follows = Some (tones, sync) \<and>
         length tones = length data + 24 \<and> length sync = length tones \<and>
         map fst (filter (\<lambda>s. \<not> snd s) (zip tones sync)) = data \<and>
         map fst (filter snd (zip tones sync)) = p @ q @ p
     else length data < tk_data_symbols k \<longrightarrow> frame_symbols_with TONE k data rv follows = None)"
  by (rule frame_symbols_ok [OF table_frames(1) [OF assms(1)] assms(2)])

theorem frame_carries_data_witness:
  "\<exists>q tones sync. sync_at TONE (hd (tt_data TONE)) 3 = Some q \<and>
     frame_symbols_with TONE (hd (tt_data TONE)) (replicate 110 5) 1 2 = Some (tones, sync) \<and> length tones = 134"
proof -
  let ?k = "hd (tt_data TONE)"
  have "?k \<in> set (all_kinds TONE)" "1 < n_rv ?k" "n_rv ?k = 4" "tk_data_symbols ?k = 110"
    by (simp_all add: TONE_def all_kinds_def kinds_def n_rv_def)
  with frame_carries_data [of ?k 1 2 "replicate 110 5"] show ?thesis by auto
qed

text \<open>
  C39: the sync blocks tell the frames apart: two kinds or redundancy versions share at most two of the
  eight tones of their patterns, and every pattern is a Costas sequence.
\<close>

theorem sync_tells_apart:
  assumes "k \<in> set (all_kinds TONE)" "sync_at TONE k rv = Some p"
    "k' \<in> set (all_kinds TONE)" "sync_at TONE k' rv' = Some q"
  shows "costas p \<and> (shared p q \<le> 2 \<or> k = k' \<and> rv = rv')"
proof -
  note 1 = sync_at_hypothesis [OF assms(1,2)] and 2 = sync_at_hypothesis [OF assms(3,4)]
  obtain i where i: "i < length hypotheses" "hypotheses ! i = (k, rv)" using 1(1) by (auto simp: in_set_conv_nth)
  obtain j where j: "j < length hypotheses" "hypotheses ! j = (k', rv')" using 2(1) by (auto simp: in_set_conv_nth)
  have "shared p q \<le> 2" if "i \<noteq> j"
    using apart_nth [OF hypotheses_apart(1), of i j] apart_nth [OF hypotheses_apart(1), of j i] that i j 1(2) 2(2)
    by (cases "i < j") (auto simp: shared_commute)
  moreover have "costas p" using hypotheses_apart(2) 1(3) by (simp add: list_all_iff)
  moreover have "k = k' \<and> rv = rv'" if "i = j" using i(2) j(2) that by simp
  ultimately show ?thesis by blast
qed

theorem sync_tells_apart_witness:
  "\<exists>p q. sync_at TONE (tt_control TONE) 0 = Some p \<and> sync_at TONE (hd (tt_data TONE)) 2 = Some q \<and>
     costas p \<and> shared p q \<le> 2"
proof -
  have k: "tt_control TONE \<in> set (all_kinds TONE)" "hd (tt_data TONE) \<in> set (all_kinds TONE)"
    by (simp_all add: TONE_def all_kinds_def kinds_def)
  obtain p where p: "sync_at TONE (tt_control TONE) 0 = Some p"
    using sync_at_ok [OF table_frames(1) [OF k(1)], of 0] by (auto simp: TONE_def n_rv_def)
  obtain q where q: "sync_at TONE (hd (tt_data TONE)) 2 = Some q"
    using sync_at_ok [OF table_frames(1) [OF k(2)], of 2] by (auto simp: TONE_def n_rv_def)
  from sync_tells_apart [OF k(1) p k(2) q] p q show ?thesis by auto
qed

text \<open>
  C40: the transmitter's frame: every payload of a kind's size, at each redundancy version the kind
  signals, becomes a waveform of exactly the kind's samples, whatever the count of frames to follow;
  its envelope is steady: every sample is at the power of the gain but for the frame's own fade in and
  out, which is never above it.
\<close>

theorem burst_steady:
  assumes "k \<in> set (all_kinds TONE)" "tone_codec_new BG1 BG2 k = Some (Inr c)"
    "length payload = tk_payload_bytes k" "unat rv < n_rv k"
  shows "\<exists>samples. burst_with TONE c payload rv follows = Some (Inr samples) \<and>
    length samples = kind_samples TONE k \<and>
    (\<forall>i<length samples. let p = (fst (samples ! i)) ^ 2 + (snd (samples ! i)) ^ 2;
         g = (10 powr (tt_gain_db TONE / 20)) ^ 2
       in p \<le> g \<and> (tt_edge_samples TONE \<le> i \<and> i + tt_edge_samples TONE < length samples \<longrightarrow> p = g))"
proof -
  note c = tone_codec_of_kind [OF assms(1,2)]
  note t = table_frames [OF assms(1)]
  have "unat rv < 4" using assms(4) t(3) by simp
  then have "\<not> rv > 3" by (simp add: word_less_nat_alt)
  from burst_ok [OF c(1), of TONE rv payload follows] this t assms(3,4) c(2) show ?thesis
    by (auto simp: steady_def power_of_def Let_def)
qed

theorem burst_steady_witness:
  "\<exists>c samples. tone_codec_new BG1 BG2 (tt_control TONE) = Some (Inr c) \<and>
     burst_with TONE c [1, 2, 3, 4, 5, 6, 7] 0 0 = Some (Inr samples) \<and> length samples = 25600"
proof -
  let ?k = "tt_control TONE"
  have k: "?k \<in> set (all_kinds TONE)" by (simp add: all_kinds_def kinds_def)
  have n: "tk_payload_bytes ?k = 7" "n_rv ?k = 1" "kind_samples TONE ?k = 25600"
    by (simp_all add: TONE_def n_rv_def kind_samples_def kind_symbols_def data_slots_def speed_def)
  obtain c where c: "tone_codec_new BG1 BG2 ?k = Some (Inr c)"
    using nr.tone_codec_new_ok [OF table_kinds_ok [OF k]] by metis
  from burst_steady [OF k c, of "[1, 2, 3, 4, 5, 6, 7]" 0 0] n c show ?thesis by auto
qed

end
