(* ===== verification/Granted.thy ===== *)
theory Granted
  imports Rate Control
begin

text \<open>
  The session engine of \<open>core/aether-link/src/granted.rs\<close>, its frame: the protocol's constants, the
  configuration, the random draws, the timers and the slot arithmetic both stations reckon with.
  What the engine does with data is in \<open>Sender\<close> and \<open>Receiver\<close>.

  A method that only reads fields of the engine takes those fields as arguments.  An array
  \<open>[f64; 2]\<close> indexed by a family is a pair, the ordinary family first.  An infinite duration is
  \<open>None\<close>.
\<close>

section \<open>Constants\<close>

definition DECODE_BUDGET_S :: "f64 \<times> f64" where "DECODE_BUDGET_S = (0.30, 0.30)"
definition KEY_S :: f64 where "KEY_S = 0.35"
definition GUARD_S :: f64 where "GUARD_S = 0.05"
definition SLACK_S :: f64 where "SLACK_S = 0.35"
definition LEVELS_S :: "f64 list" where "LEVELS_S = [0, 0.5, 1, 2]"
definition GRID_TOLERANCE_S :: f64 where "GRID_TOLERANCE_S = 0.15"
definition MAX_DATA :: nat where "MAX_DATA = 6"
definition OPEN_WINDOW_S :: "f64 \<times> f64" where "OPEN_WINDOW_S = (4, 10)"
definition RV_SEQUENCE :: "u8 list" where "RV_SEQUENCE = [0, 0, 2, 3]"

text \<open>\<open>array[usize::from(floor)]\<close>.\<close>

definition by_floor :: "bool \<Rightarrow> 'a \<times> 'a \<Rightarrow> 'a" where
  "by_floor fl p = (if fl then snd p else fst p)"

section \<open>Configuration\<close>

datatype role = NoRole | Master | Slave

record ladder_rung =
  lr_mode :: nat
  lr_frames :: nat
  lr_decoded :: nat
  lr_snr_db :: "f64 option"

record grant_config =
  max_data_frames :: nat
  max_burst_s :: "f64 option"
  max_retries :: nat
  connect_retries :: nat
  disc_retries :: nat
  disc_patience_exchanges :: f64
  disc_patience_s :: f64
  disc_drain_s :: f64
  cfg_leave_repeats :: nat
  floor_answer_margin_db :: f64
  answer_floor_margin_db :: f64
  family_readings :: nat
  link_timeout_s :: f64
  link_timeout_exchanges :: f64
  initial_mode :: nat
  max_mode :: nat
  ceiling_rung :: "nat option"
  silence_step :: nat
  max_combines :: nat
  reencode_early_after :: nat
  reencode_hopeless_db :: f64
  capabilities :: u8
  first_grant :: nat
  window_doublings :: nat
  cfg_elide :: bool
  header_above_recommendation :: bool
  cfg_turnaround_s :: f64
  identifier_s :: f64
  identifiers :: "string \<rightharpoonup> f64"
  answer_gap_s :: f64
  decode_budget_s :: "f64 \<times> f64"
  key_s :: f64
  guard_s :: f64
  slack_s :: f64
  levels_s :: "f64 list"
  open_window_s :: "f64 \<times> f64"
  keepalive_s :: f64
  silence_levels_after :: nat
  floor_answer_memory :: nat
  hold_unknown :: bool
  on_time_to_lower :: nat
  need_ease_after :: nat

definition grant_config_default :: grant_config where
  "grant_config_default = \<lparr>
     max_data_frames = MAX_DATA, max_burst_s = None, max_retries = 8, connect_retries = 8,
     disc_retries = 3, disc_patience_exchanges = 2, disc_patience_s = 20, disc_drain_s = 60,
     cfg_leave_repeats = 3, floor_answer_margin_db = 12, answer_floor_margin_db = 3,
     family_readings = 3, link_timeout_s = 45, link_timeout_exchanges = 4, initial_mode = 0,
     max_mode = 19, ceiling_rung = None, silence_step = 2, max_combines = 4,
     reencode_early_after = 2, reencode_hopeless_db = 1, capabilities = 0, first_grant = 2,
     window_doublings = 1, cfg_elide = True, header_above_recommendation = True,
     cfg_turnaround_s = 0, identifier_s = 0, identifiers = Map.empty, answer_gap_s = 0,
     decode_budget_s = DECODE_BUDGET_S, key_s = KEY_S, guard_s = GUARD_S, slack_s = SLACK_S,
     levels_s = LEVELS_S, open_window_s = OPEN_WINDOW_S, keepalive_s = 10,
     silence_levels_after = 2, floor_answer_memory = 4, hold_unknown = True,
     on_time_to_lower = 4, need_ease_after = 6\<rparr>"

section \<open>Rounding\<close>

text \<open>Whole steps: truncation toward zero, and nothing below one step.\<close>

definition whole :: "f64 \<Rightarrow> nat" where
  "whole x = nat \<lfloor>x + 1 / 10 ^ 9\<rfloor>"

definition round_even :: "f64 \<Rightarrow> int" where
  "round_even x = round_ties_even x"

section \<open>Random draws\<close>

type_synonym draws = u64

definition next_u64 :: "draws \<Rightarrow> u64 \<times> draws" where
  "next_u64 state =
     (let state = state + 0x9E3779B97F4A7C15;
          z = (state XOR drop_bit 30 state) * 0xBF58476D1CE4E5B9;
          z = (z XOR drop_bit 27 z) * 0x94D049BB133111EB
      in (z XOR drop_bit 31 z, state))"

definition unit_draw :: "draws \<Rightarrow> f64 \<times> draws" where
  "unit_draw d = (let (v, d') = next_u64 d in (real (unat (drop_bit 11 v)) * (1 / 2 ^ 53), d'))"

definition uniform_draw :: "f64 \<Rightarrow> f64 \<Rightarrow> draws \<Rightarrow> f64 \<times> draws" where
  "uniform_draw low high d = (let (u, d') = unit_draw d in (low + (high - low) * u, d'))"

definition below_draw :: "u64 \<Rightarrow> draws \<Rightarrow> u64 \<times> draws" where
  "below_draw n d = (let (v, d') = next_u64 d in (v mod n, d'))"

lemma unit_draw_bounds: "0 \<le> fst (unit_draw d) \<and> fst (unit_draw d) < 1"
proof -
  obtain v d' where v: "next_u64 d = (v, d')" by (cases "next_u64 d")
  have "unat (drop_bit 11 v) < 2 ^ 53"
    using unsigned_less [of v, where ?'a = nat]
    by (simp only: unat_drop_bit_eq) (simp add: drop_bit_eq_div div_less_iff_less_mult)
  then have "real (unat (drop_bit 11 v)) < 2 ^ 53"
    by (metis of_nat_less_iff of_nat_numeral of_nat_power)
  with v show ?thesis by (simp add: unit_draw_def del: of_nat_unat)
qed

lemma uniform_draw_bounds:
  "low < high \<Longrightarrow> low \<le> fst (uniform_draw low high d) \<and> fst (uniform_draw low high d) < high"
proof -
  assume lh: "low < high"
  obtain u d' where u: "unit_draw d = (u, d')" by (cases "unit_draw d")
  then have "0 \<le> u" "u < 1" using unit_draw_bounds [of d] by simp_all
  with lh have "(high - low) * u < (high - low) * 1" by (intro mult_strict_left_mono) simp_all
  moreover have "0 \<le> (high - low) * u" using lh \<open>0 \<le> u\<close> by simp
  ultimately show ?thesis by (simp add: uniform_draw_def u)
qed

lemma below_draw_less: "n \<noteq> 0 \<Longrightarrow> fst (below_draw n d) < n"
  by (simp add: below_draw_def split_beta word_mod_less_divisor word_gt_0)

section \<open>Timers\<close>

datatype timer = LinkTimer | ConnectTimer | ProbeTimer | ProceedTimer | AnswerTimer | LeaveTimer | IdentTimer

type_synonym deadlines = "(timer \<times> f64) list"

text \<open>A timer armed again keeps its place; a new one goes last.\<close>

fun set_deadline :: "timer \<Rightarrow> f64 \<Rightarrow> deadlines \<Rightarrow> deadlines" where
  "set_deadline t due [] = [(t, due)]"
| "set_deadline t due (e # es) = (if fst e = t then (t, due) # es else e # set_deadline t due es)"

definition get_deadline :: "timer \<Rightarrow> deadlines \<Rightarrow> f64 option" where
  "get_deadline t ds = map_option snd (find (\<lambda>e. fst e = t) ds)"

definition remove_deadline :: "timer \<Rightarrow> deadlines \<Rightarrow> deadlines" where
  "remove_deadline t ds = filter (\<lambda>e. fst e \<noteq> t) ds"

definition earliest :: "deadlines \<Rightarrow> f64 option" where
  "earliest ds = (case map snd ds of [] \<Rightarrow> None | x # xs \<Rightarrow> Some (foldl min x xs))"

lemma set_deadline_timers:
  "map fst (set_deadline t due ds) = map fst ds @ (if t \<in> fst ` set ds then [] else [t])"
  by (induction ds) auto

lemma get_set_deadline:
  "get_deadline u (set_deadline t due ds) = (if u = t then Some due else get_deadline u ds)"
  unfolding get_deadline_def by (induction ds) auto

lemma get_remove_deadline:
  "get_deadline u (remove_deadline t ds) = (if u = t then None else get_deadline u ds)"
  unfolding get_deadline_def remove_deadline_def by (induction ds) auto

lemma get_deadline_Some: "distinct (map fst ds) \<Longrightarrow> get_deadline t ds = Some due \<longleftrightarrow> (t, due) \<in> set ds"
  unfolding get_deadline_def by (induction ds) (auto simp: image_iff)

lemma foldl_min: "foldl min x xs \<in> set (x # xs) \<and> (\<forall>y\<in>set (x # xs). foldl min x xs \<le> (y :: 'a::linorder))"
proof (induction xs arbitrary: x)
  case (Cons a xs)
  then show ?case using Cons [of "min x a"] by (auto simp: min_def split: if_splits) (meson order.trans linear)+
qed simp

lemma earliest_Some:
  "earliest ds = Some due \<Longrightarrow> due \<in> snd ` set ds \<and> (\<forall>e\<in>set ds. due \<le> snd e)"
  unfolding earliest_def
  by (cases ds) (use foldl_min [of "snd (hd ds)" "map snd (tl ds)"] in auto)

lemma earliest_None: "earliest ds = None \<longleftrightarrow> ds = []"
  by (cases ds) (simp_all add: earliest_def)

section \<open>Families\<close>

record families =
  fam_ordinary :: bool
  fam_floor :: bool

definition families_of :: "bool \<Rightarrow> families" where
  "families_of fl = \<lparr>fam_ordinary = \<not> fl, fam_floor = fl\<rparr>"

definition families_both :: families where
  "families_both = \<lparr>fam_ordinary = True, fam_floor = True\<rparr>"

definition families_insert :: "bool \<Rightarrow> families \<Rightarrow> families" where
  "families_insert fl s = (if fl then s\<lparr>fam_floor := True\<rparr> else s\<lparr>fam_ordinary := True\<rparr>)"

definition max_of :: "(bool \<Rightarrow> f64) \<Rightarrow> families \<Rightarrow> f64 option" where
  "max_of f s =
     (let ordinary = (if fam_ordinary s then Some (f False) else None)
      in if fam_floor s then Some (case ordinary of None \<Rightarrow> f True | Some x \<Rightarrow> max x (f True))
         else ordinary)"

section \<open>The slot arithmetic\<close>

definition budget :: "grant_config \<Rightarrow> bool \<Rightarrow> f64" where
  "budget cfg fl = by_floor fl (decode_budget_s cfg)"

definition own_latency :: "phy_timing \<Rightarrow> f64" where
  "own_latency t = tx_latency_s t"

text \<open>\<open>levels_s\<close> is an array of four: its last index is 3.\<close>

definition slot_start :: "grant_config \<Rightarrow> f64 \<Rightarrow> bool \<Rightarrow> nat \<Rightarrow> f64 \<Rightarrow> f64" where
  "slot_start cfg end_s fl level granter_turnaround =
     (let gap = max (budget cfg fl + key_s cfg) granter_turnaround + guard_s cfg
      in end_s + gap + levels_s cfg ! min level (length (levels_s cfg) - 1))"

definition after :: "grant_config \<Rightarrow> phy_timing \<Rightarrow> f64 \<Rightarrow> bool \<Rightarrow> f64 \<Rightarrow> f64" where
  "after cfg t end_s fl other_turnaround =
     (let lead = min (key_s cfg) (own_latency t)
      in end_s + max (budget cfg fl) (other_turnaround - lead) + guard_s cfg)"

definition level_for :: "grant_config \<Rightarrow> f64 \<Rightarrow> nat" where
  "level_for cfg extra_s =
     (case position (\<lambda>step. extra_s \<le> step + 1 / 10 ^ 9) (levels_s cfg) of
        Some i \<Rightarrow> i
      | None \<Rightarrow> length (levels_s cfg) - 1)"

definition asked_level :: "grant_config \<Rightarrow> f64 \<Rightarrow> nat \<Rightarrow> nat" where
  "asked_level cfg peer_turnaround_s need_level =
     (let gap = answer_gap_s cfg
      in if gap \<le> 0 then need_level
         else let base = min (max (budget cfg False + key_s cfg) peer_turnaround_s)
                             (max (budget cfg True + key_s cfg) peer_turnaround_s)
              in max need_level (level_for cfg (gap - base - guard_s cfg)))"

definition ctl_s :: "phy_timing \<Rightarrow> bool \<Rightarrow> f64" where
  "ctl_s t fl = control_frame_s_for t fl"

definition frame_s :: "phy_timing \<Rightarrow> bool \<Rightarrow> f64" where
  "frame_s t fl = (case floor_data_frame_s t of
     Some long \<Rightarrow> if fl then long else pt_data_frame_s t | None \<Rightarrow> pt_data_frame_s t)"

definition window_s :: "grant_config \<Rightarrow> bool \<Rightarrow> nat \<Rightarrow> f64" where
  "window_s cfg fl index = by_floor fl (open_window_s cfg) * 2 ^ min index 16"

definition burst_capacity :: "grant_config \<Rightarrow> f64 \<Rightarrow> nat" where
  "burst_capacity cfg frame_len =
     (let count = min (max_data_frames cfg) MAX_DATA
      in case max_burst_s cfg of
           Some limit \<Rightarrow> if frame_len > 0 then min count (max 1 (whole (limit / frame_len))) else count
         | None \<Rightarrow> count)"

text \<open>An exchange of the size in use; \<open>burst_floor\<close> is the family of the engine's burst mode.\<close>

definition exchange_s :: "grant_config \<Rightarrow> phy_timing \<Rightarrow> bool \<Rightarrow> nat option \<Rightarrow> bool \<Rightarrow> f64 \<Rightarrow> f64" where
  "exchange_s cfg t burst_floor last_rx_mode hdr_floor peer_turnaround_s =
     (let peer_floor = map_option (pt_is_floor t) last_rx_mode;
          fl = (burst_floor \<or> peer_floor = Some True \<or> hdr_floor);
          frame = (case peer_floor of
            None \<Rightarrow> frame_s t burst_floor
          | Some f \<Rightarrow> max (frame_s t burst_floor) (frame_s t f));
          gap = slot_start cfg 0 True (length (levels_s cfg) - 1) peer_turnaround_s + slack_s cfg;
          busy = 2 * (ctl_s t fl + real (burst_capacity cfg frame) * frame + gap);
          idle = ctl_s t True + window_s cfg True (window_doublings cfg) + 2 * gap
      in max busy idle)"

definition link_timeout :: "grant_config \<Rightarrow> f64 \<Rightarrow> f64" where
  "link_timeout cfg exchange = max (link_timeout_s cfg) (link_timeout_exchanges cfg * exchange)"

definition disc_patience :: "grant_config \<Rightarrow> f64 \<Rightarrow> f64" where
  "disc_patience cfg exchange = max (disc_patience_s cfg) (disc_patience_exchanges cfg * exchange)"

lemma burst_capacity_le: "burst_capacity cfg f \<le> 6"
  by (auto simp: burst_capacity_def MAX_DATA_def Let_def split: option.split)

lemma after_le_slot_start:
  assumes "0 \<le> key_s cfg" "0 \<le> own_latency t" "\<forall>x\<in>set (levels_s cfg). 0 \<le> x" "levels_s cfg \<noteq> []"
  shows "after cfg t end_s fl turn \<le> slot_start cfg end_s fl level turn"
proof -
  have "0 \<le> levels_s cfg ! min level (length (levels_s cfg) - 1)"
    using assms(3,4) by (meson diff_less length_greater_0_conv less_one min_less_iff_disj nth_mem zero_less_one)
  with assms(1,2) show ?thesis
    by (simp add: after_def slot_start_def Let_def max_def min_def)
qed

end
