(* ===== verification/Sender.thy ===== *)
theory Sender
  imports Granted
begin

text \<open>
  The sending half of the session engine of \<open>core/aether-link/src/granted.rs\<close>: the queue, the window
  of numbered blocks, how a transmission is laid out (blocks sent again, at another rung or in pieces,
  then new ones), a measurement, and what an acknowledgement does.  \<open>sender\<close> holds the fields of
  \<open>GrantedEngine\<close> these operations read or write; the counters of the two halves are kept apart.
  \<open>None\<close> as a result is a panic: an index out of a table.
\<close>

section \<open>State\<close>

record grant_stats =
  frames_sent :: nat
  frames_resent :: nat
  frames_received :: nat
  frames_failed :: nat
  harq_rescues :: nat
  bytes_delivered :: nat
  bytes_acked :: nat
  probes_sent :: nat
  probes_answered :: nat
  probe_replies :: nat
  frames_reencoded :: nat
  frames_split :: nat
  frames_missed :: nat
  left_answered :: nat
  transmissions :: nat
  headers_elided :: nat
  silent_slots :: nat
  forfeits :: nat
  dropped :: nat

record tx_record =
  tr_seq :: u8
  tr_body :: bytes
  tr_mode :: nat
  tr_origin :: nat
  tr_tx_count :: nat
  tr_acked :: bool
  tr_reencoded :: nat
  tr_unknown :: bool
  tr_pieces :: "(piece \<times> bytes) list option"
  tr_piece_sends :: "nat list"

definition tr_sent :: "tx_record \<Rightarrow> bool" where
  "tr_sent r \<longleftrightarrow> tr_tx_count r > 0 \<or> tr_reencoded r > 0"

definition tr_frames :: "tx_record \<Rightarrow> nat" where
  "tr_frames r = (case tr_pieces r of None \<Rightarrow> 1 | Some ps \<Rightarrow> length ps)"

record sender =
  sn_session :: u8
  sn_timing :: phy_timing
  sn_config :: grant_config
  sn_role :: role
  sn_pinned :: "nat option"
  sn_pin_body :: "nat option"
  sn_queue :: bytes
  sn_records :: "u8 \<rightharpoonup> tx_record"
  sn_base :: u8
  sn_next :: u8
  sn_top_acked_mode :: "nat option"
  sn_peer_snr_db :: "f64 option"
  sn_peer_missed :: "u8 option"
  sn_heard_recent :: "f64 list"
  sn_hdr_floor :: bool
  sn_ans_sticky :: bool
  sn_silent :: nat
  sn_rate :: rate_controller
  sn_measure_ask :: "(nat \<times> nat) option"
  sn_measure_out :: "(nat \<times> nat) option"
  sn_measure_unheard :: bool
  sn_measure_again :: bool
  sn_ladder :: "ladder_rung list"
  sn_sent_copies :: "(u8 \<times> nat \<times> f64) list"
  sn_piece_bound :: "nat option"
  sn_answered_rung :: "nat option"
  sn_patience_until :: "f64 option"
  sn_stats :: grant_stats

text \<open>The map's values are visited in the order of their keys.\<close>

definition seqs_where :: "(u8 \<Rightarrow> tx_record \<Rightarrow> bool) \<Rightarrow> (u8 \<rightharpoonup> tx_record) \<Rightarrow> u8 list" where
  "seqs_where P m = filter (\<lambda>q. case m q of None \<Rightarrow> False | Some r \<Rightarrow> P q r) (map of_nat [0..<256])"

definition set_record :: "u8 \<Rightarrow> tx_record \<Rightarrow> sender \<Rightarrow> sender" where
  "set_record q r s = s\<lparr>sn_records := (sn_records s)(q \<mapsto> r)\<rparr>"

definition count_stat :: "(grant_stats \<Rightarrow> grant_stats) \<Rightarrow> sender \<Rightarrow> sender" where
  "count_stat f s = s\<lparr>sn_stats := f (sn_stats s)\<rparr>"

section \<open>What a caller reads and asks\<close>

definition unacked :: "sender \<Rightarrow> u8 list" where
  "unacked s = sort_key (\<lambda>q. seq_distance q (sn_base s))
                 (seqs_where (\<lambda>_ r. \<not> tr_acked r \<and> tr_sent r) (sn_records s))"

definition body_bytes :: "(tx_record \<Rightarrow> bool) \<Rightarrow> sender \<Rightarrow> nat" where
  "body_bytes P s =
     sum_list (map (\<lambda>q. length (tr_body (the (sn_records s q)))) (seqs_where (\<lambda>_ r. P r) (sn_records s)))"

definition tx_pending_bytes :: "sender \<Rightarrow> nat" where
  "tx_pending_bytes s = length (sn_queue s) + body_bytes (\<lambda>r. \<not> tr_acked r) s"

definition tx_undelivered_bytes :: "sender \<Rightarrow> nat" where
  "tx_undelivered_bytes s = length (sn_queue s) + body_bytes (\<lambda>r. True) s"

definition all_acknowledged :: "sender \<Rightarrow> bool" where
  "all_acknowledged s \<longleftrightarrow> sn_queue s = [] \<and> seqs_where (\<lambda>_ r. \<not> tr_acked r) (sn_records s) = []"

definition measuring :: "sender \<Rightarrow> bool" where
  "measuring s \<longleftrightarrow> sn_measure_ask s \<noteq> None \<or> sn_measure_out s \<noteq> None"

definition has_work :: "sender \<Rightarrow> bool" where
  "has_work s \<longleftrightarrow> sn_queue s \<noteq> [] \<or> unacked s \<noteq> [] \<or> measuring s"

text \<open>\<open>send\<close> queues; a slave in an open window then also tries to use it.\<close>

definition enqueue :: "bytes \<Rightarrow> sender \<Rightarrow> sender" where
  "enqueue d s = s\<lparr>sn_queue := sn_queue s @ d\<rparr>"

definition pin_mode :: "nat option \<Rightarrow> nat option \<Rightarrow> sender \<Rightarrow> string + sender" where
  "pin_mode mode body s =
     (if (case mode of Some m \<Rightarrow> length (pt_data_capacity (sn_timing s)) \<le> m | None \<Rightarrow> False)
      then Inl ''mode is not in the table''
      else if body = Some 0 then Inl ''body_bytes must be at least 1''
      else Inr (s\<lparr>sn_pinned := mode, sn_pin_body := (if mode \<noteq> None then body else None)\<rparr>))"

definition measure_rung :: "nat \<Rightarrow> nat \<Rightarrow> sender \<Rightarrow> string + sender" where
  "measure_rung mode frames s =
     (if length (pt_data_capacity (sn_timing s)) \<le> mode then Inl ''mode is not in the table''
      else if frames = 0 then Inl ''a measurement takes at least one frame''
      else Inr (s\<lparr>sn_measure_ask := Some (mode, frames), sn_measure_again := False\<rparr>))"

definition ask_again :: "bool \<Rightarrow> sender \<Rightarrow> sender" where
  "ask_again was_measured s =
     (if was_measured \<and> sn_measure_out s \<noteq> None \<and> sn_measure_ask s = None
      then s\<lparr>sn_measure_ask := sn_measure_out s, sn_measure_out := None, sn_measure_unheard := False\<rparr>
      else s)"

definition measurement_unheard :: "sender \<Rightarrow> sender" where
  "measurement_unheard s = (case sn_measure_out s of
       None \<Rightarrow> s
     | Some (mode, sent) \<Rightarrow>
         if \<not> sn_measure_again s then ask_again True (s\<lparr>sn_measure_again := True\<rparr>)
         else s\<lparr>sn_measure_out := None, sn_measure_again := False, sn_measure_unheard := False,
                sn_ladder := sn_ladder s @ [\<lparr>lr_mode = mode, lr_frames = sent, lr_decoded = 0, lr_snr_db = None\<rparr>]\<rparr>)"

text \<open>The answer to a transmission of data went unheard: what of it arrived is not known.\<close>

definition mark_unknown :: "sender \<Rightarrow> sender" where
  "mark_unknown s = s\<lparr>sn_records := (\<lambda>q. map_option
     (\<lambda>r. if q \<in> set (unacked s) then r\<lparr>tr_unknown := True\<rparr> else r) (sn_records s q))\<rparr>"

section \<open>Rungs\<close>

definition rung_cap :: "grant_config \<Rightarrow> nat" where
  "rung_cap cfg = (case ceiling_rung cfg of None \<Rightarrow> max_mode cfg | Some c \<Rightarrow> min (max_mode cfg) c)"

definition floor_only :: "sender \<Rightarrow> bool" where
  "floor_only s = (case ceiling_rung (sn_config s) of None \<Rightarrow> False | Some c \<Rightarrow> pt_is_floor (sn_timing s) c)"

definition own_choice :: "sender \<Rightarrow> nat option" where
  "own_choice s =
     (if rc_smoothed_snr_db (sn_rate s) = None
      then Some (min (initial_mode (sn_config s)) (rung_cap (sn_config s)))
      else do { c \<leftarrow> choice (sn_rate s); Some (min c (rung_cap (sn_config s))) })"

definition burst_mode :: "sender \<Rightarrow> nat option" where
  "burst_mode s = (case sn_pinned s of
     Some pinned \<Rightarrow> Some (min pinned (rung_cap (sn_config s))) | None \<Rightarrow> own_choice s)"

definition probe_rung :: "sender \<Rightarrow> nat option" where
  "probe_rung s =
     (if sn_pinned s \<noteq> None then None
      else case rc_probing (sn_rate s) of
        Some probe \<Rightarrow> if probe \<le> rung_cap (sn_config s) then Some probe else None
      | None \<Rightarrow> None)"

definition peer_reading :: "f64 \<Rightarrow> sender \<Rightarrow> sender option" where
  "peer_reading snr_db s0 =
     (let s = s0\<lparr>sn_peer_snr_db := Some snr_db\<rparr>
      in if rc_smoothed_snr_db (sn_rate s) = None
         then do { c \<leftarrow> seed snr_db (sn_rate s); Some (s\<lparr>sn_rate := c\<rparr>) }
         else Some s)"

definition ctl_threshold :: "phy_timing \<Rightarrow> f64" where
  "ctl_threshold t = fst (case control_threshold_db t of None \<Rightarrow> CONTROL_THRESHOLD_DB | Some p \<Rightarrow> p)"

definition wants_floor :: "sender \<Rightarrow> bool" where
  "wants_floor s =
     (if pt_floor_modes (sn_timing s) = 0 then False
      else if floor_only s \<or> sn_heard_recent s = [] then True
      else let weakest = foldl min (hd (sn_heard_recent s)) (tl (sn_heard_recent s))
           in weakest < ctl_threshold (sn_timing s) + answer_floor_margin_db (sn_config s))"

definition hopeless :: "sender \<Rightarrow> nat \<Rightarrow> bool" where
  "hopeless s mode = (case (sn_peer_snr_db s, threshold_db (sn_rate s) mode) of
     (Some peer, Some threshold) \<Rightarrow>
       (let reach = threshold - 10 * log 10 (real (max (max_combines (sn_config s)) 1))
        in peer < reach - reencode_hopeless_db (sn_config s))
   | _ \<Rightarrow> False)"

definition fits_rung :: "phy_timing \<Rightarrow> nat \<Rightarrow> nat \<Rightarrow> bool option" where
  "fits_rung t body_len mode = do {
     c \<leftarrow> capacity_of t mode;
     let cap = data_capacity c;
     Some (body_len = cap \<or> body_len + 2 \<le> cap)
   }"

definition reencode_target :: "sender \<Rightarrow> nat \<Rightarrow> nat \<Rightarrow> nat \<Rightarrow> nat option" where
  "reencode_target s body_len from_mode to_mode =
     (let t = sn_timing s; fl = pt_is_floor t to_mode
      in find (\<lambda>mode. mode < from_mode \<and> mode \<le> to_mode \<and> mode < length (pt_data_capacity t)
               \<and> pt_is_floor t mode = fl \<and> fits_rung t body_len mode = Some True) (rc_modes (sn_rate s)))"

definition split_count :: "phy_timing \<Rightarrow> nat \<Rightarrow> nat \<Rightarrow> nat option" where
  "split_count t body_len mode = (case capacity_of t mode of
       None \<Rightarrow> None
     | Some c \<Rightarrow> if FRAGMENT_HEADER + 3 \<le> data_capacity c
         then (case pieces (replicate body_len 0) c of Inl _ \<Rightarrow> None | Inr parts \<Rightarrow> Some (length parts))
         else None)"

definition split_rung :: "sender \<Rightarrow> nat \<Rightarrow> nat \<Rightarrow> nat \<Rightarrow> nat option" where
  "split_rung s body_len from_mode to_mode =
     (let t = sn_timing s; fl = pt_is_floor t to_mode
      in map_option fst (foldl (\<lambda>best mode.
           if mode < from_mode \<and> mode \<le> to_mode \<and> mode < length (pt_data_capacity t) \<and> pt_is_floor t mode = fl
           then (case split_count t body_len mode of
               None \<Rightarrow> best
             | Some n \<Rightarrow> (case best of
                 None \<Rightarrow> Some (mode, n) | Some (_, count) \<Rightarrow> if n < count then Some (mode, n) else best))
           else best) None (rc_modes (sn_rate s))))"

section \<open>A transmission's data\<close>

definition can_cut :: "sender \<Rightarrow> bool" where
  "can_cut s \<longleftrightarrow> sn_queue s \<noteq> [] \<and> sn_measure_ask s = None \<and> seq_distance (sn_next s) (sn_base s) < WINDOW"

text \<open>\<open>bound\<close> of a split: the choice last answered; for pieces that are stuck, below their rung too.\<close>

definition split_bound :: "bool \<Rightarrow> nat \<Rightarrow> nat option \<Rightarrow> nat option \<Rightarrow> nat option" where
  "split_bound pieces_stuck rec_mode asked limit =
     (let bound = (if pieces_stuck
                   then Some (case asked of None \<Rightarrow> rec_mode - 1 | Some b \<Rightarrow> min b (rec_mode - 1))
                   else asked)
      in case (bound, limit) of (Some b, Some l) \<Rightarrow> Some (min b l) | _ \<Rightarrow> bound)"

text \<open>A stranded block goes at another rung, or in pieces at it.\<close>

definition reencode_block :: "u8 \<Rightarrow> tx_record \<Rightarrow> nat \<Rightarrow> sender \<Rightarrow> sender" where
  "reencode_block q r target s =
     count_stat (\<lambda>st. st\<lparr>frames_reencoded := frames_reencoded st + 1\<rparr>)
       (set_record q (r\<lparr>tr_mode := target, tr_pieces := None,
          tr_reencoded := tr_reencoded r + tr_tx_count r, tr_tx_count := 0\<rparr>) s)"

definition split_block :: "u8 \<Rightarrow> tx_record \<Rightarrow> bool \<Rightarrow> nat \<Rightarrow> sender \<Rightarrow> sender option" where
  "split_block q r spent target s0 = do {
     let below = tr_mode r - 1;
     let s = (if spent
              then s0\<lparr>sn_piece_bound := Some (case sn_piece_bound s0 of None \<Rightarrow> below | Some b \<Rightarrow> min b below)\<rparr>
              else s0);
     capacity \<leftarrow> capacity_of (sn_timing s) target;
     (case pieces (tr_body r) capacity of
        Inl _ \<Rightarrow> Some s
      | Inr parts \<Rightarrow>
          Some (count_stat (\<lambda>st. st\<lparr>frames_split := frames_split st + 1\<rparr>)
            (set_record q (r\<lparr>tr_mode := target, tr_piece_sends := replicate (length parts) 0,
               tr_pieces := Some parts, tr_reencoded := tr_reencoded r + tr_tx_count r,
               tr_tx_count := 0\<rparr>) s)))
   }"

text \<open>The body of the loop over the unacknowledged blocks.\<close>

definition restrand :: "nat \<Rightarrow> nat option \<Rightarrow> u8 \<Rightarrow> sender \<Rightarrow> sender option" where
  "restrand chosen asked q s = (case sn_records s q of
       None \<Rightarrow> Some s
     | Some r \<Rightarrow> do {
         let m = tr_mode r;
         let in_pieces = (tr_pieces r \<noteq> None);
         let hope = \<not> hopeless s m;
         refused \<leftarrow> refuses (sn_rate s) m;
         let due = (if refused then 1 else if \<not> hope then reencode_early_after (sn_config s)
                    else max_combines (sn_config s));
         let spent = (in_pieces \<and> due \<le> tr_tx_count r);
         let pieces_stuck = (spent \<or> in_pieces \<and>
                (case sn_piece_bound s of None \<Rightarrow> False | Some b \<Rightarrow> m > b));
         if \<not> (due \<le> tr_tx_count r \<and> chosen < m \<or> pieces_stuck) then Some s
         else (case reencode_target s (length (tr_body r)) m chosen of
             Some target \<Rightarrow> Some (reencode_block q r target s)
           | None \<Rightarrow>
               (case split_bound pieces_stuck m asked (sn_piece_bound s) of
                  None \<Rightarrow> Some s
                | Some bound \<Rightarrow>
                    if \<not> bound < m then Some s
                    else if hope \<and> \<not> refused \<and> \<not> in_pieces \<and> tr_tx_count r \<le> due then Some s
                    else (case split_rung s (length (tr_body r)) m bound of
                        None \<Rightarrow> Some s
                      | Some target \<Rightarrow> split_block q r spent target s)))
       })"

text \<open>
  The loop that cuts new blocks off the queue.  A body of one byte less than the frame carries is
  cut one shorter; were it empty already, the subtraction would overflow.
\<close>

definition cut_length :: "nat \<Rightarrow> nat \<Rightarrow> nat option \<Rightarrow> nat option" where
  "cut_length cap queued pin_body =
     (let tk = min cap queued;
          tk = (case pin_body of None \<Rightarrow> tk | Some b \<Rightarrow> min tk b)
      in if tk + 1 = cap then if tk = 0 then None else Some (tk - 1) else Some tk)"

definition fresh_record :: "u8 \<Rightarrow> bytes \<Rightarrow> nat \<Rightarrow> tx_record" where
  "fresh_record q body rung = \<lparr>tr_seq = q, tr_body = body, tr_mode = rung, tr_origin = rung, tr_tx_count = 0,
     tr_acked = False, tr_reencoded = 0, tr_unknown = False, tr_pieces = None, tr_piece_sends = []\<rparr>"

function cut_new :: "nat \<Rightarrow> nat \<Rightarrow> nat option \<Rightarrow> u8 list \<Rightarrow> sender \<Rightarrow> (u8 list \<times> sender) option" where
  "cut_new room mode probe seqs s =
     (if length seqs < room \<and> seq_distance (sn_next s) (sn_base s) < WINDOW \<and> sn_queue s \<noteq> []
      then do {
        let rung = (case probe of None \<Rightarrow> mode | Some p \<Rightarrow> p);
        capacity \<leftarrow> capacity_of (sn_timing s) rung;
        tk \<leftarrow> cut_length (data_capacity capacity) (length (sn_queue s)) (sn_pin_body s);
        let q = sn_next s;
        cut_new room mode None (seqs @ [q])
          (set_record q (fresh_record q (take tk (sn_queue s)) rung)
            (s\<lparr>sn_queue := drop tk (sn_queue s), sn_next := seq_after (sn_next s) 1\<rparr>))
      }
      else Some (seqs, s))"
  by pat_completeness auto
termination
  by (relation "measure (\<lambda>(room, mode, probe, seqs, s). room - length seqs)") auto

declare cut_new.simps [simp del]

text \<open>How many frames follow, three meaning three or more.\<close>

definition follows_of :: "nat \<Rightarrow> nat \<Rightarrow> u8" where
  "follows_of count i = of_nat (min (count - 1 - i) (unat MAX_FOLLOWS))"

definition data_frame :: "bytes \<Rightarrow> nat \<Rightarrow> u8 \<Rightarrow> u8 \<Rightarrow> tx_frame" where
  "data_frame payload mode rv follows = \<lparr>tx_container = container.Data, tx_payload = payload,
     tx_mode = mode, tx_rv = rv, tx_floor = False, tx_follows = follows\<rparr>"

definition block_header :: "sender \<Rightarrow> u8 \<Rightarrow> piece option \<Rightarrow> data_header" where
  "block_header s q p = \<lparr>dh_kind = data_kind.Data, dh_seq = q, dh_session = sn_session s, dh_piece = p\<rparr>"

definition send_block :: "nat \<Rightarrow> nat \<times> u8 \<Rightarrow> tx_frame list \<times> sender \<Rightarrow> (tx_frame list \<times> sender) option" where
  "send_block count iq st = (case (iq, st) of ((i, q), (frames, s0)) \<Rightarrow> (case sn_records s0 q of
       None \<Rightarrow> Some (frames, s0)
     | Some r0 \<Rightarrow> do {
         let s1 = (if tr_sent r0 then count_stat (\<lambda>st. st\<lparr>frames_resent := frames_resent st + 1\<rparr>) s0 else s0);
         let r = r0\<lparr>tr_tx_count := tr_tx_count r0 + 1\<rparr>;
         let s = set_record q r s1;
         capacity \<leftarrow> capacity_of (sn_timing s) (tr_mode r);
         (case encode_data (block_header s (tr_seq r) None) (tr_body r) capacity of
            Inl _ \<Rightarrow> Some (frames, s)
          | Inr payload \<Rightarrow>
              (let rv = RV_SEQUENCE ! ((tr_tx_count r - 1) mod length RV_SEQUENCE);
                   air = frame_s (sn_timing s) (pt_is_floor (sn_timing s) (tr_mode r))
               in Some (frames @ [data_frame payload (tr_mode r) rv (follows_of count i)],
                        s\<lparr>sn_sent_copies := sn_sent_copies s @ [(q, tr_origin r, air)]\<rparr>)))
       }))"

definition send_blocks :: "u8 list \<Rightarrow> sender \<Rightarrow> (tx_frame list \<times> sender) option" where
  "send_blocks seqs s0 = do {
     (frames, s) \<leftarrow> for_each (send_block (length seqs)) (enumerate 0 seqs) ([], s0);
     Some (frames, count_stat (\<lambda>st. st\<lparr>frames_sent := frames_sent st + length frames\<rparr>) s)
   }"

text \<open>The pieces chosen: of each block in order the ones sent least, while there is room.\<close>

definition least_sent :: "nat list \<Rightarrow> nat \<times> nat list" where
  "least_sent sends =
     (let least = foldl min (hd sends) (tl sends)
      in (least, filter (\<lambda>k. sends ! k = least) [0..<length sends]))"

definition book_pieces :: "u8 \<Rightarrow> tx_record \<Rightarrow> nat \<Rightarrow> nat list \<Rightarrow> sender \<Rightarrow> sender" where
  "book_pieces q r least tk s =
     (if least > 0 then count_stat (\<lambda>st. st\<lparr>frames_resent := frames_resent st + length tk\<rparr>) else id)
       (set_record q (r\<lparr>tr_tx_count := tr_tx_count r + 1,
          tr_piece_sends := foldl (\<lambda>ps k. ps[k := ps ! k + 1]) (tr_piece_sends r) tk\<rparr>) s)"

fun choose_pieces :: "nat \<Rightarrow> u8 list \<Rightarrow> (u8 \<times> nat) list \<Rightarrow> sender \<Rightarrow> (u8 \<times> nat) list \<times> sender" where
  "choose_pieces room [] chosen s = (chosen, s)"
| "choose_pieces room (q # qs) chosen s = (case sn_records s q of
       None \<Rightarrow> choose_pieces room qs chosen s
     | Some r \<Rightarrow>
         if tr_piece_sends r = [] then choose_pieces room qs chosen s
         else (case least_sent (tr_piece_sends r) of (least, ks) \<Rightarrow>
           (let tk = take (room - length chosen) ks
            in if tk = [] then (chosen, s)
               else choose_pieces room qs (chosen @ map (Pair q) tk) (book_pieces q r least tk s))))"

definition build_piece :: "nat \<Rightarrow> sender \<Rightarrow> nat \<times> u8 \<times> nat \<Rightarrow> tx_frame list \<Rightarrow> tx_frame list option" where
  "build_piece count s iqk frames = (case iqk of (i, q, k) \<Rightarrow> (case sn_records s q of
       None \<Rightarrow> Some frames
     | Some r \<Rightarrow> (case tr_pieces r of
         None \<Rightarrow> Some frames
       | Some ps \<Rightarrow> (case get ps k of
           None \<Rightarrow> Some frames
         | Some (p, bs) \<Rightarrow> do {
             capacity \<leftarrow> capacity_of (sn_timing s) (tr_mode r);
             (case encode_data (block_header s (tr_seq r) (Some p)) bs capacity of
                Inl _ \<Rightarrow> Some frames
              | Inr payload \<Rightarrow> Some (frames @ [data_frame payload (tr_mode r) 0 (follows_of count i)]))
           }))))"

definition piece_frames :: "u8 list \<Rightarrow> nat \<Rightarrow> sender \<Rightarrow> (tx_frame list \<times> sender) option" where
  "piece_frames seqs room s0 = do {
     let (chosen, s) = choose_pieces room seqs [] s0;
     frames \<leftarrow> for_each (build_piece (length chosen) s) (enumerate 0 chosen) [];
     Some (frames, count_stat (\<lambda>st. st\<lparr>frames_sent := frames_sent st + length frames\<rparr>) s)
   }"

subsection \<open>A measurement\<close>

function measure_fill :: "nat \<Rightarrow> draws \<Rightarrow> bytes \<Rightarrow> bytes" where
  "measure_fill len d out =
     (if length out < len
      then let (v, d') = next_u64 d in measure_fill len d' (out @ be_bytes 8 v)
      else take len out)"
  by pat_completeness auto
termination
  by (relation "measure (\<lambda>(len, d, out). len - length out)") auto

declare measure_fill.simps [simp del]

definition measure_body :: "u8 \<Rightarrow> u8 \<Rightarrow> nat \<Rightarrow> bytes" where
  "measure_body session index len =
     measure_fill len (0x4D45415355524500 OR push_bit 8 (ucast session) OR ucast index) []"

definition send_measure :: "nat \<Rightarrow> nat \<Rightarrow> nat \<Rightarrow> sender \<Rightarrow> nat \<Rightarrow> tx_frame list \<Rightarrow> tx_frame list" where
  "send_measure mode capacity count s i frames =
     (let index = (if i < 256 then of_nat i else 255) :: u8;
          header = \<lparr>dh_kind = Measure, dh_seq = index, dh_session = sn_session s, dh_piece = None\<rparr>
      in case encode_data header (measure_body (sn_session s) index (data_capacity capacity)) capacity of
           Inl _ \<Rightarrow> frames
         | Inr payload \<Rightarrow> frames @ [data_frame payload mode 0 (follows_of count i)])"

text \<open>The room left, of frames of a length; an infinite room is \<open>None\<close>.\<close>

definition room_for :: "grant_config \<Rightarrow> f64 option \<Rightarrow> f64 \<Rightarrow> nat" where
  "room_for cfg room_s len = (case room_s of
     None \<Rightarrow> burst_capacity cfg len | Some r \<Rightarrow> min (burst_capacity cfg len) (whole (r / len)))"

definition measurement :: "f64 option \<Rightarrow> sender \<Rightarrow> (tx_frame list \<times> sender) option" where
  "measurement room_s s = (case sn_measure_ask s of
       None \<Rightarrow> Some ([], s)
     | Some (mode0, asked) \<Rightarrow>
         (let t = sn_timing s;
              mode = min mode0 (rung_cap (sn_config s));
              count = min (min asked MAX_DATA) (room_for (sn_config s) room_s (frame_s t (pt_is_floor t mode)))
          in if count = 0 then Some ([], s)
             else do {
               let s1 = s\<lparr>sn_measure_ask := None, sn_measure_out := Some (mode, count), sn_measure_unheard := False\<rparr>;
               capacity \<leftarrow> capacity_of t mode;
               let frames = fold (send_measure mode capacity count s1) [0..<count] [];
               Some (frames, count_stat (\<lambda>st. st\<lparr>frames_sent := frames_sent st + count\<rparr>) s1)
             }))"

subsection \<open>The transmission\<close>

text \<open>The rung of new data, whether a try takes one frame of it, and whether it takes the whole.\<close>

definition burst_plan :: "nat \<Rightarrow> sender \<Rightarrow> nat \<times> nat option \<times> bool" where
  "burst_plan mode s = (case probe_rung s of
       None \<Rightarrow> (mode, None, False)
     | Some rung \<Rightarrow>
         if pt_is_floor (sn_timing s) rung = pt_is_floor (sn_timing s) mode then (mode, Some rung, False)
         else if can_cut s then (rung, None, True) else (mode, None, False))"

definition burst_family :: "nat \<Rightarrow> bool \<Rightarrow> u8 list \<Rightarrow> sender \<Rightarrow> bool" where
  "burst_family mode across unacked_seqs s =
     (let own = pt_is_floor (sn_timing s) mode
      in if across then own
         else case unacked_seqs of
           [] \<Rightarrow> own
         | q # _ \<Rightarrow> (case sn_records s q of None \<Rightarrow> own | Some r \<Rightarrow> pt_is_floor (sn_timing s) (tr_mode r)))"

definition record_is :: "(tx_record \<Rightarrow> bool) \<Rightarrow> sender \<Rightarrow> u8 \<Rightarrow> bool" where
  "record_is P s q = (case sn_records s q of None \<Rightarrow> False | Some r \<Rightarrow> P r)"

definition lay_out :: "nat \<Rightarrow> nat option \<Rightarrow> bool \<Rightarrow> nat \<Rightarrow> u8 list \<Rightarrow> sender \<Rightarrow> (tx_frame list \<times> sender) option" where
  "lay_out mode probe family room seqs s =
     (let split = filter (record_is (\<lambda>r. tr_pieces r \<noteq> None) s) seqs
      in if split \<noteq> [] then piece_frames split room s
         else do {
           let seqs1 = take room seqs;
           (seqs2, s2) \<leftarrow> (if family = pt_is_floor (sn_timing s) mode \<and> sn_measure_ask s = None
                          then cut_new room mode probe seqs1 s else Some (seqs1, s));
           send_blocks seqs2 s2
         })"

definition data_frames :: "f64 option \<Rightarrow> sender \<Rightarrow> (tx_frame list \<times> sender) option" where
  "data_frames room_s s0 =
     (if (case room_s of None \<Rightarrow> False | Some r \<Rightarrow> r \<le> 0) \<or> sn_measure_out s0 \<noteq> None then Some ([], s0)
      else if sn_measure_ask s0 \<noteq> None \<and> unacked s0 = [] then measurement room_s s0
      else do {
        mode0 \<leftarrow> burst_mode s0;
        let (mode, probe, across) = burst_plan mode0 s0;
        chosen \<leftarrow> burst_mode s0;
        let seqs0 = filter (\<lambda>q. 2 \<le> sn_silent s0 \<or> record_is (\<lambda>r. \<not> tr_unknown r) s0 q) (unacked s0);
        s \<leftarrow> for_each (restrand chosen (sn_answered_rung s0)) seqs0 s0;
        let family = burst_family mode across seqs0 s;
        let seqs = filter (record_is (\<lambda>r. pt_is_floor (sn_timing s) (tr_mode r) = family) s) seqs0;
        let room = room_for (sn_config s) room_s (frame_s (sn_timing s) family);
        if room = 0 then Some ([], s) else lay_out mode probe family room seqs s
      })"

text \<open>What the answer says is still queued, in frames; and whether this station's data goes on the floor only.\<close>

definition queued_frames :: "sender \<Rightarrow> nat option" where
  "queued_frames s = do {
     mode \<leftarrow> burst_mode s;
     c \<leftarrow> capacity_of (sn_timing s) mode;
     let cap = max 1 (data_capacity c);
     let outstanding = sum_list (map (\<lambda>q. case sn_records s q of None \<Rightarrow> 0 | Some r \<Rightarrow> tr_frames r) (unacked s));
     Some (outstanding + (length (sn_queue s) + cap - 1) div cap
           + (case sn_measure_ask s of None \<Rightarrow> 0 | Some (_, frames) \<Rightarrow> frames))
   }"

definition data_floor_only :: "sender \<Rightarrow> bool option" where
  "data_floor_only s =
     (let cap = rung_cap (sn_config s);
          limit = (case sn_pinned s of None \<Rightarrow> cap | Some pinned \<Rightarrow> min pinned cap)
      in if 0 < pt_floor_modes (sn_timing s) \<and> pt_is_floor (sn_timing s) limit then Some True
         else if rc_smoothed_snr_db (sn_rate s) = None then Some False
         else do { mode \<leftarrow> burst_mode s; Some (pt_is_floor (sn_timing s) mode) })"

section \<open>An acknowledgement\<close>

definition take_report :: "grant_frame \<Rightarrow> sender \<Rightarrow> sender" where
  "take_report ctl s = (case sn_measure_out s of
       None \<Rightarrow> s
     | Some (mode, sent) \<Rightarrow>
         if reports ctl
         then s\<lparr>sn_measure_out := None, sn_measure_unheard := False, sn_measure_again := False,
                sn_ladder := sn_ladder s @ [\<lparr>lr_mode = mode, lr_frames = sent,
                  lr_decoded = length (filter (measured ctl) [0..<sent]),
                  lr_snr_db = (if sn_measure_unheard s then None else gf_snr_db ctl)\<rparr>]\<rparr>
         else s\<lparr>sn_measure_unheard := True\<rparr>)"

definition newly_acked :: "grant_frame \<Rightarrow> sender \<Rightarrow> u8 list" where
  "newly_acked ctl s = seqs_where (\<lambda>q r. \<not> tr_acked r \<and> tr_sent r \<and> received ctl q) (sn_records s)"

definition mark_acked :: "u8 list \<Rightarrow> sender \<Rightarrow> sender" where
  "mark_acked newly s =
     (let rs = map (\<lambda>q. the (sn_records s q)) newly
      in count_stat (\<lambda>st. st\<lparr>bytes_acked := bytes_acked st + sum_list (map (length \<circ> tr_body) rs)\<rparr>)
        (s\<lparr>sn_records := (\<lambda>q. map_option (\<lambda>r. if q \<in> set newly then r\<lparr>tr_acked := True\<rparr> else r) (sn_records s q)),
           sn_top_acked_mode := fold (\<lambda>r top. Some (max (case top of None \<Rightarrow> 0 | Some m \<Rightarrow> m) (tr_mode r)))
                                  rs (sn_top_acked_mode s)\<rparr>))"

definition forget_unknown :: "sender \<Rightarrow> sender" where
  "forget_unknown s = s\<lparr>sn_records := (\<lambda>q. map_option (\<lambda>r. r\<lparr>tr_unknown := False\<rparr>) (sn_records s q))\<rparr>"

text \<open>The window's base moves over every block acknowledged.\<close>

function advance_base :: "sender \<Rightarrow> sender" where
  "advance_base s =
     (if sn_base s \<noteq> sn_next s \<and> record_is tr_acked s (sn_base s)
      then advance_base (s\<lparr>sn_records := (sn_records s)(sn_base s := None), sn_base := seq_after (sn_base s) 1\<rparr>)
      else s)"
  by pat_completeness auto
termination
proof (relation "measure (\<lambda>s. unat (sn_next s - sn_base s))")
  fix s assume "sn_base s \<noteq> sn_next s \<and> record_is tr_acked s (sn_base s)"
  then have "sn_next s - sn_base s \<noteq> 0" by auto
  then have "unat (sn_next s - sn_base s - 1) < unat (sn_next s - sn_base s)"
    by (rule measure_unat)
  then show "(s\<lparr>sn_records := (sn_records s)(sn_base s := None), sn_base := seq_after (sn_base s) 1\<rparr>, s)
    \<in> measure (\<lambda>s. unat (sn_next s - sn_base s))"
    by (simp add: seq_after_def algebra_simps)
qed simp

declare advance_base.simps [simp del]

text \<open>The copies sent since the last answer, judged from the latest: the first of an acknowledged block is credited.\<close>

definition judge_copy ::
  "phy_timing \<Rightarrow> u8 list \<Rightarrow> u8 \<times> nat \<times> f64 \<Rightarrow> u8 list \<times> frame_outcome list \<Rightarrow> (u8 list \<times> frame_outcome list) option" where
  "judge_copy t newly copy st = (case (copy, st) of ((q, mode, air), (credited, outcomes)) \<Rightarrow> do {
     let ok = (q \<in> set newly \<and> q \<notin> set credited);
     c \<leftarrow> capacity_of t mode;
     Some (if ok then credited @ [q] else credited,
           outcomes @ [\<lparr>fo_mode = mode, fo_air_s = air, fo_capacity = data_capacity c, fo_detected = True,
                        fo_decoded = ok, fo_combined = False\<rparr>])
   })"

definition price :: "sender \<Rightarrow> sender" where
  "price s = s\<lparr>sn_rate := set_families (if sn_role s = Master then sn_hdr_floor s else sn_ans_sticky s)
                            (wants_floor s) (sn_rate s)\<rparr>"

definition judge_copies :: "u8 list \<Rightarrow> sender \<Rightarrow> sender option" where
  "judge_copies newly s = do {
     (_, outcomes) \<leftarrow> for_each (judge_copy (sn_timing s) newly) (rev (sn_sent_copies s)) ([], []);
     let s1 = price (s\<lparr>sn_sent_copies := []\<rparr>);
     c \<leftarrow> observe_frames (rev outcomes) (sn_peer_snr_db s1) (sn_rate s1);
     Some (s1\<lparr>sn_rate := c\<rparr>)
   }"

text \<open>\<open>patience\<close> is when a leaving station gives up, \<open>now + disc_patience()\<close>.\<close>

definition take_ack :: "grant_frame \<Rightarrow> bool \<Rightarrow> f64 \<Rightarrow> sender \<Rightarrow> sender option" where
  "take_ack ctl fresh patience s0 = do {
     let s1 = forget_unknown (if fresh then take_report ctl s0 else s0);
     let newly = newly_acked ctl s1;
     let s2 = advance_base (mark_acked newly s1);
     let s3 = (if newly \<noteq> [] \<and> sn_patience_until s2 \<noteq> None then s2\<lparr>sn_patience_until := Some patience\<rparr> else s2);
     s4 \<leftarrow> (if fresh \<and> sn_sent_copies s3 \<noteq> []
           then (let missed = (if gf_missed ctl \<noteq> MISSED_UNKNOWN then Some (gf_missed ctl) else None)
                 in judge_copies newly (count_stat (\<lambda>st. st\<lparr>frames_missed := frames_missed st
                      + unat (case missed of None \<Rightarrow> 0 | Some m \<Rightarrow> m)\<rparr>) (s3\<lparr>sn_peer_missed := missed\<rparr>)))
           else Some s3);
     if fresh \<and> rc_smoothed_snr_db (sn_rate s4) \<noteq> None
     then do { c \<leftarrow> choice (sn_rate s4); Some (s4\<lparr>sn_answered_rung := Some c\<rparr>) }
     else Some s4
   }"

end
