(* ===== verification/Receiver.thy ===== *)
theory Receiver
  imports Sender
begin

text \<open>
  The receiving half of the session engine of \<open>core/aether-link/src/granted.rs\<close>: the window of blocks
  awaited, blocks in pieces, the frames of the transmission being received and the sequence numbers
  inferred for those that did not decode, the copies kept to combine, and what an acknowledgement says.
  The buffer a soft frame leaves to combine with (\<open>HarqBuffer\<close>) is a type parameter: the engine only
  stores it.
\<close>

section \<open>State\<close>

record heard =
  hd_mode :: nat
  hd_floor :: bool
  hd_snr_db :: f64
  hd_trusted :: bool
  hd_follows :: "u8 option"
  hd_echo :: "f64 option"
  hd_t_start :: f64
  hd_t_end :: f64

text \<open>A \<open>SoftFrame\<close>: what is kept of it, and its decoding, alone or with an earlier copy's buffer.\<close>

record 'h soft_frame =
  sf_heard :: heard
  sf_decode :: "'h option \<Rightarrow> bytes option \<times> 'h"

record held_pieces =
  hp_data :: bytes
  hp_have :: "bool list"
  hp_total :: "nat option"

definition no_pieces :: held_pieces where
  "no_pieces = \<lparr>hp_data = [], hp_have = [], hp_total = None\<rparr>"

definition write_at :: "nat \<Rightarrow> 'a \<Rightarrow> 'a list \<Rightarrow> 'a list \<Rightarrow> 'a list" where
  "write_at offset z xs ys =
     (let ys = ys @ replicate (offset + length xs - length ys) z
      in take offset ys @ xs @ drop (offset + length xs) ys)"

definition place :: "nat \<Rightarrow> bytes \<Rightarrow> bool \<Rightarrow> held_pieces \<Rightarrow> held_pieces" where
  "place offset bs is_last h = \<lparr>
     hp_data = write_at offset 0 bs (hp_data h),
     hp_have = write_at offset False (replicate (length bs) True) (hp_have h),
     hp_total = (if is_last then Some (offset + length bs) else hp_total h)\<rparr>"

definition held_body :: "held_pieces \<Rightarrow> bytes option" where
  "held_body h = (case hp_total h of
     None \<Rightarrow> None
   | Some n \<Rightarrow> if n \<le> length (hp_have h) \<and> list_all id (take n (hp_have h))
       then Some (take n (hp_data h)) else None)"

record rx_record =
  rr_frame :: heard
  rr_slot :: nat
  rr_payload :: "bytes option"
  rr_seq :: "u8 option"
  rr_combined :: bool

record data_heard =
  dt_seq :: "u8 option"
  dt_combined :: bool
  dt_rescued :: bool

record ack_snapshot =
  as_missing :: "u8 list"
  as_next_new :: u8

datatype accepted = DataAccepted u8 | MeasurementAccepted | NotAccepted

record 'h receiver =
  rv_session :: u8
  rv_timing :: phy_timing
  rv_config :: grant_config
  rv_base :: u8
  rv_buf :: "u8 \<rightharpoonup> bytes"
  rv_max_seen :: "u8 option"
  rv_harq :: "u8 \<rightharpoonup> 'h \<times> nat \<times> nat"
  rv_pieces :: "u8 \<rightharpoonup> held_pieces"
  rv_rx :: "rx_record list"
  rv_rx_t0 :: "f64 option"
  rv_grid :: "(f64 \<times> nat \<times> bool) option"
  rv_ack_history :: "ack_snapshot list"
  rv_measured :: "u16 option"
  rv_rx_measure :: bool
  rv_rx_pieces :: bool
  rv_last_data :: "data_heard option"
  rv_last_rx_mode :: "nat option"
  rv_missed :: u8
  rv_delivered :: "bytes list"
  rv_stats :: grant_stats

definition count_rx :: "(grant_stats \<Rightarrow> grant_stats) \<Rightarrow> 'h receiver \<Rightarrow> 'h receiver" where
  "count_rx f r = r\<lparr>rv_stats := f (rv_stats r)\<rparr>"

abbreviation frame_failed :: "'h receiver \<Rightarrow> 'h receiver" where
  "frame_failed \<equiv> count_rx (\<lambda>st. st\<lparr>frames_failed := frames_failed st + 1\<rparr>)"

section \<open>The transmission being received\<close>

definition restart_rx :: "'h receiver \<Rightarrow> 'h receiver" where
  "restart_rx r = r\<lparr>rv_rx := [], rv_rx_t0 := None, rv_grid := None, rv_rx_measure := False, rv_rx_pieces := False\<rparr>"

text \<open>Whether a frame sits where a data frame of the transmission can.\<close>

definition on_stated_grid :: "phy_timing \<Rightarrow> f64 \<times> nat \<times> bool \<Rightarrow> heard \<Rightarrow> bool" where
  "on_stated_grid t g frame = (case g of (t0, count, grid_floor) \<Rightarrow>
     (let slot_s = frame_s t grid_floor;
          k = round_even ((hd_t_start frame - t0) / slot_s)
      in pt_is_floor t (hd_mode frame) = grid_floor \<and> 0 \<le> k \<and> nat k < count \<and>
         \<bar>hd_t_start frame - (t0 + of_int k * slot_s)\<bar> \<le> GRID_TOLERANCE_S))"

definition in_line :: "phy_timing \<Rightarrow> heard \<Rightarrow> heard \<Rightarrow> bool" where
  "in_line t reference frame =
     (let slot_s = max (hd_t_end reference - hd_t_start reference) (1 / 10 ^ 6);
          k = round_even ((hd_t_start frame - hd_t_start reference) / slot_s);
          offset = \<bar>hd_t_start frame - (hd_t_start reference + of_int k * slot_s)\<bar>
      in pt_is_floor t (hd_mode frame) = pt_is_floor t (hd_mode reference) \<and> offset \<le> GRID_TOLERANCE_S)"

definition on_grid :: "'h receiver \<Rightarrow> heard \<Rightarrow> bool" where
  "on_grid r frame = (case rv_grid r of
     Some g \<Rightarrow> on_stated_grid (rv_timing r) g frame
   | None \<Rightarrow> (case find (\<lambda>x. rr_payload x \<noteq> None) (rv_rx r) of
       None \<Rightarrow> True
     | Some x \<Rightarrow> in_line (rv_timing r) (rr_frame x) frame))"

definition open_rx :: "heard \<Rightarrow> nat \<Rightarrow> bool \<Rightarrow> 'h receiver \<Rightarrow> 'h receiver" where
  "open_rx opener count fl r0 =
     (let r = r0\<lparr>rv_rx_t0 := Some (hd_t_end opener), rv_grid := Some (hd_t_end opener, count, fl), rv_rx := []\<rparr>
      in r\<lparr>rv_rx := filter (\<lambda>x. on_grid r (rr_frame x)) (rv_rx r0)\<rparr>)"

text \<open>The other station is measuring: whatever is held to combine is of measurement frames, and goes.\<close>

definition measurement_heard :: "bool \<Rightarrow> 'h receiver \<Rightarrow> 'h receiver" where
  "measurement_heard new r =
     (if rv_rx_measure r then r
      else r\<lparr>rv_rx_measure := (if new then True else rv_rx_measure r),
             rv_measured := (if new \<or> rv_measured r = None then Some REPORT else rv_measured r),
             rv_harq := Map.empty,
             rv_rx := map (\<lambda>x. if rr_payload x = None then x\<lparr>rr_seq := None\<rparr> else x) (rv_rx r)\<rparr>)"

definition note_opening :: "grant_frame \<Rightarrow> 'h receiver \<Rightarrow> 'h receiver" where
  "note_opening ctl r =
     (if gf_measure ctl then measurement_heard (0 < gf_count ctl) r
      else if 0 < gf_count ctl then r\<lparr>rv_measured := None\<rparr> else r)"

definition pieces_heard :: "'h receiver \<Rightarrow> 'h receiver" where
  "pieces_heard r =
     (if rv_rx_pieces r then r
      else r\<lparr>rv_rx_pieces := True,
             rv_harq := foldl (\<lambda>m x. case (rr_payload x, rr_seq x) of (None, Some q) \<Rightarrow> m(q := None) | _ \<Rightarrow> m)
                          (rv_harq r) (rv_rx r),
             rv_rx := map (\<lambda>x. if rr_payload x = None then x\<lparr>rr_seq := None\<rparr> else x) (rv_rx r)\<rparr>)"

section \<open>Blocks\<close>

text \<open>The block a decoded frame carries or completes.\<close>

definition block_of :: "data_header \<Rightarrow> bytes \<Rightarrow> 'h receiver \<Rightarrow> bytes option \<times> 'h receiver" where
  "block_of header body r = (case dh_piece header of
     None \<Rightarrow> (Some body, r)
   | Some p \<Rightarrow>
       if rv_buf r (dh_seq header) \<noteq> None then (Some body, r)
       else (let held = place (unat (pc_offset p)) body (pc_last p)
                          (case rv_pieces r (dh_seq header) of None \<Rightarrow> no_pieces | Some h \<Rightarrow> h)
             in (held_body held, r\<lparr>rv_pieces := (rv_pieces r)(dh_seq header \<mapsto> held)\<rparr>)))"

text \<open>Blocks are delivered in order, as far as there is no gap.\<close>

function deliver :: "'h receiver \<Rightarrow> 'h receiver" where
  "deliver r = (case rv_buf r (rv_base r) of
     None \<Rightarrow> r
   | Some data \<Rightarrow> deliver (count_rx (\<lambda>st. st\<lparr>bytes_delivered := bytes_delivered st + length data\<rparr>)
       (r\<lparr>rv_buf := (rv_buf r)(rv_base r := None),
          rv_harq := (rv_harq r)(rv_base r := None),
          rv_pieces := (rv_pieces r)(rv_base r := None),
          rv_base := seq_after (rv_base r) 1,
          rv_delivered := (if data \<noteq> [] then rv_delivered r @ [data] else rv_delivered r)\<rparr>)))"
  by pat_completeness auto
termination
  by (relation "measure (\<lambda>r. card (dom (rv_buf r)))")
    (auto simp: count_rx_def dom_def intro!: psubset_card_mono)

declare deliver.simps [simp del]

definition note_seen :: "u8 \<Rightarrow> 'h receiver \<Rightarrow> 'h receiver" where
  "note_seen q r =
     (if (case rv_max_seen r of None \<Rightarrow> True
          | Some seen \<Rightarrow> seq_distance seen (rv_base r) < seq_distance q (rv_base r))
      then r\<lparr>rv_max_seen := Some q\<rparr> else r)"

definition file_block :: "data_header \<Rightarrow> bytes \<Rightarrow> 'h receiver \<Rightarrow> 'h receiver" where
  "file_block header body r = (case block_of header body r of
     (None, r) \<Rightarrow> r
   | (Some blk, r) \<Rightarrow>
       r\<lparr>rv_buf := (case rv_buf r (dh_seq header) of
            None \<Rightarrow> (rv_buf r)(dh_seq header \<mapsto> blk) | Some _ \<Rightarrow> rv_buf r),
         rv_pieces := (rv_pieces r)(dh_seq header := None),
         rv_harq := (rv_harq r)(dh_seq header := None)\<rparr>)"

definition trim_seen :: "'h receiver \<Rightarrow> 'h receiver" where
  "trim_seen r =
     (if (case rv_max_seen r of None \<Rightarrow> False | Some seen \<Rightarrow> WINDOW \<le> seq_distance seen (rv_base r))
      then r\<lparr>rv_max_seen := None\<rparr> else r)"

definition take_block :: "data_header \<Rightarrow> bytes \<Rightarrow> 'h receiver \<Rightarrow> 'h receiver" where
  "take_block header body r =
     (if in_window (dh_seq header) (rv_base r) WINDOW
      then trim_seen (deliver (file_block header body (note_seen (dh_seq header) r)))
      else r)"

definition take_measure :: "u8 \<Rightarrow> 'h receiver \<Rightarrow> 'h receiver" where
  "take_measure q r0 =
     (let r = measurement_heard True r0
      in case rv_measured r of
           Some report \<Rightarrow> if unat q < WINDOW - 1
             then r\<lparr>rv_measured := Some (report OR push_bit (unat q) 2)\<rparr> else r
         | None \<Rightarrow> r)"

definition accept :: "bytes \<Rightarrow> bool \<Rightarrow> 'h receiver \<Rightarrow> accepted \<times> 'h receiver" where
  "accept payload late r = (case decode_data payload of
     Inl _ \<Rightarrow> (NotAccepted, r)
   | Inr (header, body) \<Rightarrow>
       if dh_session header \<noteq> rv_session r then (NotAccepted, r)
       else if dh_kind header = Measure
       then if late then (NotAccepted, r) else (MeasurementAccepted, take_measure (dh_seq header) r)
       else if dh_kind header \<noteq> data_kind.Data then (NotAccepted, r)
       else (let r1 = (if late then r else r\<lparr>rv_measured := None\<rparr>);
                 r2 = count_rx (\<lambda>st. st\<lparr>frames_received := frames_received st + 1\<rparr>) r1;
                 r3 = (if dh_piece header \<noteq> None \<and> \<not> late then pieces_heard r2 else r2)
             in (DataAccepted (dh_seq header), take_block header body r3)))"

section \<open>Sequence numbers of frames that did not decode\<close>

definition expected_seqs :: "ack_snapshot \<Rightarrow> u8 list" where
  "expected_seqs snap = as_missing snap @
     map (\<lambda>i. seq_after (as_next_new snap) (of_nat i)) [0..<MAX_BURST - length (as_missing snap)]"

text \<open>The shift every anchor agrees on; the outer \<open>None\<close> when they do not, or one is not expected.\<close>

fun anchor_offset :: "u8 list \<Rightarrow> (nat \<times> u8) list \<Rightarrow> int option \<Rightarrow> int option option" where
  "anchor_offset expected [] offset = Some offset"
| "anchor_offset expected ((a_slot, a_seq) # as) offset =
     (case position (\<lambda>e. e = a_seq) expected of
        None \<Rightarrow> None
      | Some i \<Rightarrow> (let this = int i - int a_slot
          in case offset of
               None \<Rightarrow> anchor_offset expected as (Some this)
             | Some d \<Rightarrow> if d \<noteq> this then None else anchor_offset expected as offset))"

definition infer_from :: "(nat \<times> u8) list \<Rightarrow> nat \<Rightarrow> ack_snapshot \<Rightarrow> u8 option" where
  "infer_from anchors slot snap =
     (let expected = expected_seqs snap
      in case anchor_offset expected anchors None of
           None \<Rightarrow> None
         | Some offset \<Rightarrow>
             (let idx = int slot + (case offset of None \<Rightarrow> 0 | Some d \<Rightarrow> d)
              in if 0 \<le> idx \<and> nat idx < length expected then Some (expected ! nat idx) else None))"

fun first_some :: "('a \<Rightarrow> 'b option) \<Rightarrow> 'a list \<Rightarrow> 'b option" where
  "first_some f [] = None"
| "first_some f (x # xs) = (case f x of None \<Rightarrow> first_some f xs | Some y \<Rightarrow> Some y)"

definition anchors_of :: "rx_record list \<Rightarrow> (nat \<times> u8) list" where
  "anchors_of rx = List.map_filter (\<lambda>x. if rr_payload x \<noteq> None then map_option (Pair (rr_slot x)) (rr_seq x) else None) rx"

definition infer_seq :: "'h receiver \<Rightarrow> nat \<Rightarrow> u8 option" where
  "infer_seq r slot = first_some (infer_from (anchors_of (rv_rx r)) slot)
     (if rv_ack_history r = [] then [\<lparr>as_missing = [], as_next_new = rv_base r\<rparr>] else rv_ack_history r)"

section \<open>Frames\<close>

definition keep_frame :: "nat \<Rightarrow> bytes \<Rightarrow> 'h receiver \<Rightarrow> nat option \<times> 'h receiver" where
  "keep_frame index payload r0 =
     (let r1 = r0\<lparr>rv_rx := (rv_rx r0)[index := (rv_rx r0 ! index)\<lparr>rr_payload := Some payload\<rparr>]\<rparr>
      in case accept payload False r1 of
           (NotAccepted, r) \<Rightarrow> (None, r\<lparr>rv_rx := take index (rv_rx r) @ drop (index + 1) (rv_rx r)\<rparr>)
         | (MeasurementAccepted, r) \<Rightarrow>
             (Some index, r\<lparr>rv_rx := (rv_rx r)[index := (rv_rx r ! index)\<lparr>rr_seq := None\<rparr>]\<rparr>)
         | (DataAccepted q, r) \<Rightarrow>
             (Some index, r\<lparr>rv_rx := (rv_rx r)[index := (rv_rx r ! index)\<lparr>rr_seq := Some q\<rparr>]\<rparr>))"

text \<open>A copy that did not decode, under the number inferred for it: combined with what is held, or held.\<close>

definition combine_copy :: "'h soft_frame \<Rightarrow> 'h \<Rightarrow> nat \<Rightarrow> u8 \<Rightarrow> 'h receiver \<Rightarrow> nat option \<times> 'h receiver" where
  "combine_copy soft buffer index guess r0 =
     (let mode = hd_mode (sf_heard soft);
          held = (case rv_harq r0 guess of
            None \<Rightarrow> None | Some (b, n, m) \<Rightarrow> if m \<noteq> mode then None else Some (b, n))
      in case held of
           Some (prev, combines) \<Rightarrow>
             (let r = r0\<lparr>rv_rx := (rv_rx r0)[index := (rv_rx r0 ! index)\<lparr>rr_combined := True\<rparr>]\<rparr>
              in case sf_decode soft (Some prev) of
                   (Some payload, _) \<Rightarrow>
                     keep_frame index payload (count_rx (\<lambda>st. st\<lparr>harq_rescues := harq_rescues st + 1\<rparr>) r)
                 | (None, merged) \<Rightarrow>
                     (let entry = (if max_combines (rv_config r) \<le> combines + 1 then (buffer, 0, mode)
                                   else (merged, combines + 1, mode))
                      in (Some index, frame_failed (r\<lparr>rv_harq := (rv_harq r)(guess \<mapsto> entry)\<rparr>))))
         | None \<Rightarrow> (Some index, frame_failed (r0\<lparr>rv_harq := (rv_harq r0)(guess \<mapsto> (buffer, 0, mode))\<rparr>)))"

definition holds_pieces :: "'h receiver \<Rightarrow> bool" where
  "holds_pieces r \<longleftrightarrow> list_ex (\<lambda>n. rv_pieces r (of_nat n) \<noteq> None) [0..<256]"

definition take_data :: "'h soft_frame \<Rightarrow> 'h receiver \<Rightarrow> nat option \<times> 'h receiver" where
  "take_data soft r0 =
     (let frame = sf_heard soft; (payload, buffer) = sf_decode soft None
      in if payload = None \<and> \<not> on_grid r0 frame then (None, frame_failed r0)
         else (let t0 = (case rv_rx_t0 r0 of None \<Rightarrow> hd_t_start frame | Some t \<Rightarrow> t);
                   len = max (hd_t_end frame - hd_t_start frame) (1 / 10 ^ 6);
                   slot = nat (round_even ((hd_t_start frame - t0) / len));
                   index = length (rv_rx r0);
                   r = r0\<lparr>rv_rx_t0 := Some t0,
                          rv_rx := rv_rx r0 @ [\<lparr>rr_frame = frame, rr_slot = slot, rr_payload = None,
                                                rr_seq = None, rr_combined = False\<rparr>]\<rparr>
               in case payload of
                    Some p \<Rightarrow> keep_frame index p r
                  | None \<Rightarrow>
                      if rv_rx_measure r \<or> rv_rx_pieces r \<or> holds_pieces r then (Some index, frame_failed r)
                      else (let guess = infer_seq r slot;
                                r = r\<lparr>rv_rx := (rv_rx r)[index := (rv_rx r ! index)\<lparr>rr_seq := guess\<rparr>]\<rparr>
                            in case guess of
                                 Some g \<Rightarrow> if in_window g (rv_base r) WINDOW
                                   then combine_copy soft buffer index g r else (Some index, frame_failed r)
                               | None \<Rightarrow> (Some index, frame_failed r))))"

definition note_data :: "nat option \<Rightarrow> 'h receiver \<Rightarrow> 'h receiver" where
  "note_data index r = (case index of
     None \<Rightarrow> r
   | Some i \<Rightarrow> (let x = rv_rx r ! i
       in r\<lparr>rv_last_data := Some \<lparr>dt_seq = rr_seq x, dt_combined = rr_combined x,
              dt_rescued = (rr_combined x \<and> rr_payload x \<noteq> None)\<rparr>\<rparr>))"

section \<open>What is said of it\<close>

definition stated_count :: "'h receiver \<Rightarrow> rx_record list \<Rightarrow> nat option" where
  "stated_count r records = (case rv_grid r of
     Some (_, count, _) \<Rightarrow> Some count
   | None \<Rightarrow>
       (case List.map_filter (\<lambda>x. case hd_follows (rr_frame x) of
               None \<Rightarrow> None
             | Some f \<Rightarrow> if rr_payload x \<noteq> None \<and> \<not> rr_combined x \<and> f < MAX_FOLLOWS
                 then Some (rr_slot x + 1 + unat f) else None) records of
          [] \<Rightarrow> None
        | c # cs \<Rightarrow> Some (foldl max c cs)))"

definition observe :: "rx_record list \<Rightarrow> 'h receiver \<Rightarrow> f64 option \<times> 'h receiver" where
  "observe records r =
     (let snrs = map (hd_snr_db \<circ> rr_frame) (filter (\<lambda>x. rr_payload x \<noteq> None \<or> hd_trusted (rr_frame x)) records);
          r1 = (case find (\<lambda>x. rr_payload x \<noteq> None) (rev records) of
             None \<Rightarrow> r | Some x \<Rightarrow> r\<lparr>rv_last_rx_mode := Some (hd_mode (rr_frame x))\<rparr>);
          missed = (case stated_count r1 records of
             None \<Rightarrow> MISSED_UNKNOWN
           | Some stated \<Rightarrow> of_nat (min MAX_DATA
               (length (filter (\<lambda>k. \<not> list_ex (\<lambda>x. rr_slot x = k) records) [0..<stated]))))
      in (if snrs = [] then None else Some (sum_list snrs / real (length snrs)), r1\<lparr>rv_missed := missed\<rparr>))"

definition receive_window :: "'h receiver \<Rightarrow> u16 \<times> u8 list \<times> u8" where
  "receive_window r =
     (let limit = (case rv_max_seen r of None \<Rightarrow> 0 | Some seen \<Rightarrow> seq_distance seen (rv_base r) + 1);
          at_i = (\<lambda>i. seq_after (rv_base r) (of_nat i));
          bitmap = foldl (\<lambda>w i. if rv_buf r (at_i i) \<noteq> None then w OR push_bit i 1 else w) 0 [0..<WINDOW];
          missing = map at_i (filter (\<lambda>i. rv_buf r (at_i i) = None \<and> i < limit) [0..<WINDOW])
      in (bitmap, missing, seq_after (rv_base r) (of_nat limit)))"

definition ack_fields :: "'h receiver \<Rightarrow> (u8 \<times> u16) \<times> 'h receiver" where
  "ack_fields r =
     (case receive_window r of (bitmap, missing, next_new) \<Rightarrow>
        ((rv_base r, case rv_measured r of None \<Rightarrow> bitmap | Some report \<Rightarrow> report),
         r\<lparr>rv_ack_history := take 2 (\<lparr>as_missing = missing, as_next_new = next_new\<rparr> # rv_ack_history r)\<rparr>))"

end
