(* ===== verification/Sender_Laws.thy ===== *)
theory Sender_Laws
  imports Receiver
begin

text \<open>
  The sender's window.  \<open>window_ok blks b s\<close>: of the blocks cut so far, \<open>blks\<close>, the first \<open>b\<close> are
  acknowledged and gone, the rest (at most sixteen) are the records of \<open>s\<close>, each under its number
  modulo 256 with its own body.  Laying out a transmission keeps it, cutting new blocks off the queue
  and nothing else; an acknowledgement moves \<open>b\<close> up over acknowledged blocks only.
\<close>

section \<open>Numbers modulo 256\<close>

lemma seq_distance_of_nat:
  assumes "b \<le> n" "n < b + 256" shows "seq_distance (of_nat n) (of_nat b) = n - b"
proof -
  have e: "(of_nat n - of_nat b :: u8) = of_nat (n - b)" using assms(1) by simp
  show ?thesis using assms unfolding seq_distance_def e by (simp add: unat_of_nat del: of_nat_diff)
qed

lemma seq_distance_behind:
  assumes "n < b" "b \<le> n + 128" shows "128 \<le> seq_distance (of_nat n) (of_nat b)"
proof -
  have "(of_nat (256 - (b - n)) :: u8) = of_nat 256 - of_nat (b - n)" using assms by (intro of_nat_diff) simp
  also have "\<dots> = of_nat n - of_nat b" using assms(1) by (simp add: of_nat_diff)
  finally have e: "(of_nat n - of_nat b :: u8) = of_nat (256 - (b - n))" by simp
  show ?thesis using assms unfolding seq_distance_def e by (simp add: unat_of_nat del: of_nat_diff)
qed

lemma of_nat_window_inj:
  assumes "of_nat i = (of_nat j :: u8)" "b \<le> i" "i < b + 256" "b \<le> j" "j < b + 256" shows "i = j"
  using seq_distance_of_nat [of b i] seq_distance_of_nat [of b j] assms by simp

lemma seq_after_of_nat: "seq_after (of_nat n) 1 = of_nat (Suc n)"
  by (simp add: seq_after_def)

section \<open>Slices of a block\<close>

definition slice_of :: "piece \<Rightarrow> bytes \<Rightarrow> bytes \<Rightarrow> bool" where
  "slice_of p bs body \<longleftrightarrow> unat (pc_offset p) + length bs \<le> length body \<and>
     bs = take (length bs) (drop (unat (pc_offset p)) body) \<and>
     (pc_last p \<longrightarrow> unat (pc_offset p) + length bs = length body)"

lemma laid_out_slices:
  assumes "laid_out pos (length body) ps" "concat (map snd ps) = drop pos body" "(p, bs) \<in> set ps"
  shows "slice_of p bs body"
  using assms
proof (induction pos "length body" ps rule: laid_out.induct)
  case (2 pos q cs)
  then show ?case by (auto simp: slice_of_def)
next
  case (3 pos q cs x xs)
  have cs: "cs @ concat (map snd (x # xs)) = drop pos body" using 3 by simp
  have off: "unat (pc_offset q) = pos" and rest: "laid_out (pos + length cs) (length body) (x # xs)" using 3 by auto
  have len: "pos + length cs \<le> length body"
    using arg_cong [OF cs, of length] 3(2) by (cases "pos \<le> length body") auto
  have tl: "concat (map snd (x # xs)) = drop (pos + length cs) body"
    using arg_cong [OF cs, of "drop (length cs)"] by (simp add: add.commute)
  have hd: "cs = take (length cs) (drop pos body)"
    using arg_cong [OF cs, of "take (length cs)"] by simp
  show ?case
  proof (cases "(p, bs) = (q, cs)")
    case True
    with off len hd 3(2) show ?thesis by (auto simp: slice_of_def)
  next
    case False
    then have "(p, bs) \<in> set (x # xs)" using 3(4) by auto
    then show ?thesis by (rule 3(1) [OF rest tl])
  qed
qed simp

lemma pieces_slices:
  assumes "pieces body c = Inr ps" "(p, bs) \<in> set ps" shows "slice_of p bs body"
proof -
  have "3 \<le> c - (DATA_HEADER + FRAGMENT_HEADER)" "pieces_from body (c - (DATA_HEADER + FRAGMENT_HEADER)) 0 [] = Inr ps"
    using assms(1) by (auto simp: pieces_def Let_def simp del: DATA_HEADER_def FRAGMENT_HEADER_def split: if_splits)
  from pieces_from_spec [OF this(2,1)] have "laid_out 0 (length body) ps" "concat (map snd ps) = drop 0 body" by auto
  then show ?thesis using assms(2) by (rule laid_out_slices)
qed

definition all_slices :: "bytes \<Rightarrow> (piece \<times> bytes) list \<Rightarrow> bool" where
  "all_slices body ps \<longleftrightarrow> (\<forall>(p, bs)\<in>set ps. slice_of p bs body)"

lemma pieces_all_slices: "pieces body c = Inr ps \<Longrightarrow> all_slices body ps"
  using pieces_slices by (auto simp: all_slices_def)

section \<open>The window\<close>

definition block_ok :: "bytes \<Rightarrow> u8 \<Rightarrow> tx_record \<Rightarrow> bool" where
  "block_ok body q r \<longleftrightarrow> tr_seq r = q \<and> tr_body r = body \<and>
     (\<forall>ps. tr_pieces r = Some ps \<longrightarrow> all_slices body ps)"

definition window_ok :: "bytes list \<Rightarrow> nat \<Rightarrow> sender \<Rightarrow> bool" where
  "window_ok blks b s \<longleftrightarrow> b \<le> length blks \<and> length blks \<le> b + 16 \<and>
     sn_base s = of_nat b \<and> sn_next s = of_nat (length blks) \<and>
     (\<forall>i. b \<le> i \<and> i < length blks \<longrightarrow> (\<exists>r. sn_records s (of_nat i) = Some r \<and> block_ok (blks ! i) (of_nat i) r)) \<and>
     (\<forall>q r. sn_records s q = Some r \<longrightarrow> (\<exists>i. b \<le> i \<and> i < length blks \<and> q = of_nat i))"

lemma window_okD:
  assumes "window_ok blks b s"
  shows "b \<le> length blks" "length blks \<le> b + 16" "sn_base s = of_nat b" "sn_next s = of_nat (length blks)"
    and "\<And>i. b \<le> i \<Longrightarrow> i < length blks \<Longrightarrow> \<exists>r. sn_records s (of_nat i) = Some r \<and> block_ok (blks ! i) (of_nat i) r"
    and "\<And>q r. sn_records s q = Some r \<Longrightarrow> \<exists>i. b \<le> i \<and> i < length blks \<and> q = of_nat i \<and> block_ok (blks ! i) q r"
proof -
  show "b \<le> length blks" "length blks \<le> b + 16" "sn_base s = of_nat b" "sn_next s = of_nat (length blks)"
    using assms by (simp_all add: window_ok_def)
  show recs: "\<exists>r. sn_records s (of_nat i) = Some r \<and> block_ok (blks ! i) (of_nat i) r"
    if "b \<le> i" "i < length blks" for i
    using assms that by (simp add: window_ok_def)
  show "\<exists>i. b \<le> i \<and> i < length blks \<and> q = of_nat i \<and> block_ok (blks ! i) q r" if r: "sn_records s q = Some r" for q r
  proof -
    obtain i where i: "b \<le> i" "i < length blks" "q = of_nat i" using assms r unfolding window_ok_def by blast
    with recs [OF i(1,2)] r show ?thesis by auto
  qed
qed

text \<open>Steps that leave the window as it is: the blocks keep their numbers, bodies and fate.\<close>

definition same_block :: "tx_record \<Rightarrow> tx_record \<Rightarrow> bool" where
  "same_block r r' \<longleftrightarrow> tr_seq r' = tr_seq r \<and> tr_body r' = tr_body r \<and> tr_acked r' = tr_acked r \<and>
     (\<forall>ps. tr_pieces r' = Some ps \<longrightarrow> tr_pieces r = Some ps \<or> all_slices (tr_body r) ps)"

definition keeps :: "sender \<Rightarrow> sender \<Rightarrow> bool" where
  "keeps s s' \<longleftrightarrow> sn_base s' = sn_base s \<and> sn_next s' = sn_next s \<and> sn_queue s' = sn_queue s \<and>
     sn_session s' = sn_session s \<and> (\<forall>q. rel_option same_block (sn_records s q) (sn_records s' q))"

lemma same_block_refl [simp]: "same_block r r"
  by (simp add: same_block_def)

lemma same_block_trans: "same_block a b \<Longrightarrow> same_block b c \<Longrightarrow> same_block a c"
  unfolding same_block_def by metis

lemma keeps_refl [simp]: "keeps s s"
  by (simp add: keeps_def option.rel_refl)

lemma keeps_trans [trans]: "keeps a b \<Longrightarrow> keeps b c \<Longrightarrow> keeps a c"
proof -
  assume ab: "keeps a b" and bc: "keeps b c"
  have "rel_option same_block (sn_records a q) (sn_records c q)" for q
  proof -
    have "rel_option same_block (sn_records a q) (sn_records b q)"
      and "rel_option same_block (sn_records b q) (sn_records c q)" using ab bc by (simp_all add: keeps_def)
    then show ?thesis
      by (cases "sn_records a q"; cases "sn_records b q"; cases "sn_records c q") (auto intro: same_block_trans)
  qed
  with ab bc show ?thesis by (simp add: keeps_def)
qed

lemma keepsD: "keeps s s' \<Longrightarrow> sn_records s q = Some r \<Longrightarrow> \<exists>r'. sn_records s' q = Some r' \<and> same_block r r'"
  unfolding keeps_def by (metis option_rel_Some1)

text \<open>Steps that may add blocks to the window besides, none of them acknowledged.\<close>

definition grows :: "sender \<Rightarrow> sender \<Rightarrow> bool" where
  "grows s s' \<longleftrightarrow> (\<forall>q r. sn_records s q = Some r \<longrightarrow> rel_option same_block (Some r) (sn_records s' q)) \<and>
     (\<forall>q. sn_records s q = None \<longrightarrow> \<not> record_is tr_acked s' q)"

lemma growsD: "grows s s' \<Longrightarrow> sn_records s q = Some r \<Longrightarrow> \<exists>r'. sn_records s' q = Some r' \<and> same_block r r'"
  unfolding grows_def by (metis option_rel_Some1)

lemma growsN: "grows s s' \<Longrightarrow> sn_records s q = None \<Longrightarrow> \<not> record_is tr_acked s' q"
  unfolding grows_def by blast

lemma growsI:
  assumes "\<And>q r. sn_records s q = Some r \<Longrightarrow> \<exists>r'. sn_records s' q = Some r' \<and> same_block r r'"
    and "\<And>q. sn_records s q = None \<Longrightarrow> \<not> record_is tr_acked s' q"
  shows "grows s s'"
  using assms unfolding grows_def by (metis option_rel_Some1)

lemma keeps_grows:
  assumes k: "keeps s s'" shows "grows s s'"
proof (rule growsI)
  show "\<exists>r'. sn_records s' q = Some r' \<and> same_block r r'" if "sn_records s q = Some r" for q r
    using keepsD [OF k that] .
  show "\<not> record_is tr_acked s' q" if n: "sn_records s q = None" for q
  proof -
    have "rel_option same_block None (sn_records s' q)" using k n unfolding keeps_def by metis
    then have "sn_records s' q = None" by (cases "sn_records s' q") simp_all
    then show ?thesis by (simp add: record_is_def)
  qed
qed

lemma grows_trans:
  assumes ab: "grows a b" and bc: "grows b c" shows "grows a c"
proof (rule growsI)
  show "\<exists>r'. sn_records c q = Some r' \<and> same_block r r'" if "sn_records a q = Some r" for q r
    using growsD [OF ab that] growsD [OF bc] same_block_trans by blast
  show "\<not> record_is tr_acked c q" if q: "sn_records a q = None" for q
  proof (cases "sn_records b q")
    case None
    then show ?thesis by (rule growsN [OF bc])
  next
    case (Some r)
    then have "\<not> tr_acked r" using growsN [OF ab q] by (simp add: record_is_def)
    with growsD [OF bc Some] show ?thesis by (auto simp: same_block_def record_is_def)
  qed
qed

lemma keeps_window:
  assumes w: "window_ok blks b s" and k: "keeps s s'" shows "window_ok blks b s'"
proof -
  have rel: "rel_option same_block (sn_records s q) (sn_records s' q)" for q using k by (simp add: keeps_def)
  have "\<exists>r. sn_records s' (of_nat i) = Some r \<and> block_ok (blks ! i) (of_nat i) r"
    if i: "b \<le> i" "i < length blks" for i
  proof -
    obtain r where r: "sn_records s (of_nat i) = Some r" "block_ok (blks ! i) (of_nat i) r"
      using window_okD(5) [OF w i] by blast
    then obtain r' where r': "sn_records s' (of_nat i) = Some r'" "same_block r r'"
      using rel [of "of_nat i"] by (auto simp: option_rel_Some1)
    moreover have "block_ok (blks ! i) (of_nat i) r'"
      using r(2) r'(2) by (auto simp: block_ok_def same_block_def)
    ultimately show ?thesis by blast
  qed
  moreover have "\<exists>i. b \<le> i \<and> i < length blks \<and> q = of_nat i" if "sn_records s' q = Some r" for q r
    using rel [of q] that window_okD(6) [OF w] by (auto simp: option_rel_Some2)
  ultimately show ?thesis
    using w k by (simp add: window_ok_def keeps_def)
qed

lemma keeps_set_record:
  "sn_records s q = Some r \<Longrightarrow> same_block r r' \<Longrightarrow> keeps s (set_record q r' s)"
  by (auto simp: keeps_def set_record_def option.rel_refl)

lemma keeps_fields [simp]:
  "keeps s (count_stat f s)"
  "keeps s (s\<lparr>sn_piece_bound := a\<rparr>)"
  "keeps s (s\<lparr>sn_sent_copies := c\<rparr>)"
  "keeps s (s\<lparr>sn_measure_ask := d, sn_measure_out := e, sn_measure_unheard := g\<rparr>)"
  by (simp_all add: keeps_def count_stat_def option.rel_refl)

lemma keeps_count [simp]: "keeps s (count_stat f s') = keeps s s'"
  by (simp add: keeps_def count_stat_def)

lemma set_record_session [simp]:
  "sn_session (set_record q r s) = sn_session s" "sn_timing (set_record q r s) = sn_timing s"
  "sn_config (set_record q r s) = sn_config s" "sn_records (set_record q r s) = (sn_records s)(q \<mapsto> r)"
  by (simp_all add: set_record_def)

lemma count_stat_fields [simp]:
  "sn_session (count_stat f s) = sn_session s" "sn_timing (count_stat f s) = sn_timing s"
  "sn_config (count_stat f s) = sn_config s" "sn_records (count_stat f s) = sn_records s"
  "sn_queue (count_stat f s) = sn_queue s"
  by (simp_all add: count_stat_def)

lemma window_count [simp]: "window_ok blks b (count_stat f s) = window_ok blks b s"
  by (simp add: window_ok_def count_stat_def)

lemma same_block_pieces:
  "pieces (tr_body r) c = Inr parts \<Longrightarrow>
     same_block r (r\<lparr>tr_mode := m, tr_piece_sends := ns, tr_pieces := Some parts, tr_reencoded := n, tr_tx_count := k\<rparr>)"
  "same_block r (r\<lparr>tr_mode := m, tr_pieces := None, tr_reencoded := n, tr_tx_count := k\<rparr>)"
  "same_block r (r\<lparr>tr_tx_count := k\<rparr>)" "same_block r (r\<lparr>tr_tx_count := k, tr_piece_sends := ns\<rparr>)"
  "same_block r (r\<lparr>tr_unknown := u\<rparr>)"
  using pieces_all_slices by (auto simp: same_block_def)

lemma reencode_keeps: "sn_records s q = Some r \<Longrightarrow> keeps s (reencode_block q r target s)"
  by (simp add: reencode_block_def keeps_set_record same_block_pieces)

lemma split_keeps:
  assumes "sn_records s q = Some r" "split_block q r spent target s = Some s'" shows "keeps s s'"
proof -
  define s1 where "s1 = (if spent then s\<lparr>sn_piece_bound := Some (case sn_piece_bound s of
    None \<Rightarrow> tr_mode r - 1 | Some b \<Rightarrow> min b (tr_mode r - 1))\<rparr> else s)"
  have k1: "keeps s s1" and r1: "sn_records s1 q = Some r" using assms(1) by (simp_all add: s1_def)
  from assms(2) obtain c where c: "(case pieces (tr_body r) c of Inl _ \<Rightarrow> Some s1
      | Inr parts \<Rightarrow> Some (count_stat (\<lambda>st. st\<lparr>frames_split := frames_split st + 1\<rparr>)
          (set_record q (r\<lparr>tr_mode := target, tr_piece_sends := replicate (length parts) 0,
             tr_pieces := Some parts, tr_reencoded := tr_reencoded r + tr_tx_count r, tr_tx_count := 0\<rparr>) s1))) = Some s'"
    unfolding split_block_def Let_def s1_def [symmetric] bind_eq_Some_conv by blast
  show ?thesis
  proof (cases "pieces (tr_body r) c")
    case (Inl e)
    with c k1 show ?thesis by simp
  next
    case (Inr parts)
    have "keeps s1 s'"
      using c Inr keeps_set_record [OF r1 same_block_pieces(1) [OF Inr]] by (auto simp del: set_record_session)
    with k1 show ?thesis by (rule keeps_trans)
  qed
qed

lemma restrand_keeps:
  assumes "restrand chosen asked q s = Some s'" shows "keeps s s'"
proof (cases "sn_records s q")
  case None
  with assms show ?thesis by (simp add: restrand_def)
next
  case (Some r)
  have "s' = s \<or> (\<exists>target. s' = reencode_block q r target s) \<or> (\<exists>spent target. split_block q r spent target s = Some s')"
    using assms unfolding restrand_def Some option.case Let_def bind_eq_Some_conv
    by (elim exE conjE) (simp only: split: if_split_asm option.split_asm; simp; blast?)
  with reencode_keeps [OF Some] split_keeps [OF Some] show ?thesis by auto
qed

lemma restrands_keep:
  "for_each (restrand chosen asked) qs s = Some s' \<Longrightarrow> keeps s s'"
  by (erule for_each_inv [where I = "keeps s"]) (auto intro: keeps_trans restrand_keeps)

section \<open>What the frames carry\<close>

definition carries :: "u8 \<Rightarrow> bytes list \<Rightarrow> nat \<Rightarrow> bytes \<Rightarrow> bool" where
  "carries session blks n payload \<longleftrightarrow> (\<exists>p bs.
     decode_data payload = Inr (\<lparr>dh_kind = data_kind.Data, dh_seq = of_nat n, dh_session = session, dh_piece = p\<rparr>, bs) \<and>
     (case p of None \<Rightarrow> bs = blks ! n | Some q \<Rightarrow> slice_of q bs (blks ! n)))"

definition filler :: "bytes \<Rightarrow> bool" where
  "filler payload \<longleftrightarrow> (\<exists>h bs. decode_data payload = Inr (h, bs) \<and> dh_kind h = Measure)"

definition of_window :: "u8 \<Rightarrow> bytes list \<Rightarrow> nat \<Rightarrow> tx_frame \<Rightarrow> bool" where
  "of_window session blks b f \<longleftrightarrow> filler (tx_payload f) \<or>
     (\<exists>n. b \<le> n \<and> n < length blks \<and> carries session blks n (tx_payload f))"

lemma carries_append: "n < length blks \<Longrightarrow> carries ses (blks @ new) n pl = carries ses blks n pl"
proof -
  assume "n < length blks"
  then have "(blks @ new) ! n = blks ! n" by (simp add: nth_append)
  then show ?thesis by (simp only: carries_def)
qed

lemma send_block_ok:
  assumes w: "window_ok blks b s" and fs: "\<forall>f\<in>set fs. of_window (sn_session s) blks b f"
    and s: "send_block count (i, q) (fs, s) = Some (fs', s')"
  shows "keeps s s' \<and> (\<forall>f\<in>set fs'. of_window (sn_session s) blks b f)"
proof (cases "sn_records s q")
  case None
  with s fs show ?thesis by (simp add: send_block_def)
next
  case (Some r)
  let ?r = "r\<lparr>tr_tx_count := tr_tx_count r + 1\<rparr>"
  obtain n where n: "b \<le> n" "n < length blks" "q = of_nat n" "block_ok (blks ! n) q r"
    using window_okD(6) [OF w Some] by blast
  have k: "keeps s (set_record q ?r s)" "keeps s (set_record q ?r (count_stat f s))" for f
    using keeps_set_record [OF Some, of ?r] same_block_pieces(3)
    by (auto simp: keeps_def set_record_def count_stat_def)
  have k2: "keeps s (s1\<lparr>sn_sent_copies := c\<rparr>)" if "keeps s s1" for s1 c
    using that by (simp add: keeps_def)
  have new: "of_window (sn_session s) blks b (data_frame payload m rv fl)"
    if "encode_data (block_header s' (tr_seq r) None) (tr_body r) c = Inr payload" "sn_session s' = sn_session s"
    for payload m rv fl c s'
  proof -
    have "decode_data payload = Inr (block_header s' (tr_seq r) None, tr_body r)"
      using that(1) by (rule decode_encode_data)
    then show ?thesis
      using n that(2) by (auto simp: of_window_def carries_def data_frame_def block_header_def block_ok_def)
  qed
  have "fs' = fs \<or> (\<exists>payload m rv fl c s1. fs' = fs @ [data_frame payload m rv fl] \<and> sn_session s1 = sn_session s \<and>
      encode_data (block_header s1 (tr_seq r) None) (tr_body r) c = Inr payload)"
    using s unfolding send_block_def Some Let_def bind_eq_Some_conv prod.case option.case
    by (elim exE conjE) (simp split: sum.splits if_splits; fastforce)
  moreover have "keeps s s'"
    using s k k2 unfolding send_block_def Some Let_def bind_eq_Some_conv prod.case option.case
    by (elim exE conjE) (auto split: sum.splits if_splits)
  ultimately show ?thesis using fs new by auto
qed

lemma send_blocks_ok:
  assumes w: "window_ok blks b s" and s: "send_blocks qs s = Some (fs, s')"
  shows "window_ok blks b s' \<and> keeps s s' \<and> (\<forall>f\<in>set fs. of_window (sn_session s) blks b f)"
proof -
  let ?I = "\<lambda>(fs, s1). keeps s s1 \<and> (\<forall>f\<in>set fs. of_window (sn_session s) blks b f)"
  obtain s1 where s1: "for_each (send_block (length qs)) (enumerate 0 qs) ([], s) = Some (fs, s1)"
    and s': "s' = count_stat (\<lambda>st. st\<lparr>frames_sent := frames_sent st + length fs\<rparr>) s1"
    using s by (auto simp: send_blocks_def bind_eq_Some_conv)
  have "?I (fs, s1)"
  proof (rule for_each_inv [OF s1, of ?I])
    fix iq st st' assume I: "?I st" and step: "send_block (length qs) iq st = Some st'"
    obtain i q fs2 s2 fs3 s3 where e: "iq = (i, q)" "st = (fs2, s2)" "st' = (fs3, s3)"
      by (cases iq, cases st, cases st')
    with I have k: "keeps s s2" "\<forall>f\<in>set fs2. of_window (sn_session s) blks b f" by simp_all
    moreover have "sn_session s2 = sn_session s" using k(1) by (simp add: keeps_def)
    ultimately show "?I st'"
      using send_block_ok [OF keeps_window [OF w k(1)], of fs2 "length qs" i q fs3 s3] step e
      by (auto intro: keeps_trans)
  qed simp
  then show ?thesis using keeps_window [OF w] by (auto simp: s')
qed

lemma book_pieces_keeps: "sn_records s q = Some r \<Longrightarrow> keeps s (book_pieces q r least tk s)"
  by (simp add: book_pieces_def keeps_set_record same_block_pieces)

lemma choose_pieces_keeps: "choose_pieces room qs chosen s = (chosen', s') \<Longrightarrow> keeps s s'"
proof (induction qs arbitrary: chosen s)
  case (Cons q qs)
  show ?case
  proof (cases "sn_records s q")
    case None
    with Cons show ?thesis by simp
  next
    case (Some r)
    obtain least ks where l: "least_sent (tr_piece_sends r) = (least, ks)" by (cases "least_sent (tr_piece_sends r)")
    from Cons.prems have "choose_pieces room qs chosen s = (chosen', s') \<or> s' = s \<or>
        (\<exists>tk. choose_pieces room qs (chosen @ map (Pair q) tk) (book_pieces q r least tk s) = (chosen', s'))"
      by (simp only: choose_pieces.simps Some option.case l prod.case Let_def split: if_splits) auto
    then show ?thesis
      by (elim disjE exE) (auto intro: Cons.IH keeps_trans [OF book_pieces_keeps [OF Some]])
  qed
qed simp

lemma build_piece_ok:
  assumes w: "window_ok blks b s" and fs: "\<forall>f\<in>set fs. of_window (sn_session s) blks b f"
    and s: "build_piece count s (i, q, k) fs = Some fs'"
  shows "\<forall>f\<in>set fs'. of_window (sn_session s) blks b f"
proof (cases "\<exists>r ps p bs. sn_records s q = Some r \<and> tr_pieces r = Some ps \<and> get ps k = Some (p, bs)")
  case False
  then have "fs' = fs"
    using s unfolding build_piece_def prod.case by (auto split: option.splits prod.splits)
  with fs show ?thesis by simp
next
  case True
  then obtain r ps p bs where r: "sn_records s q = Some r" "tr_pieces r = Some ps" "get ps k = Some (p, bs)"
    by blast
  then obtain c where c: "(case encode_data (block_header s (tr_seq r) (Some p)) bs c of Inl _ \<Rightarrow> Some fs
      | Inr payload \<Rightarrow> Some (fs @ [data_frame payload (tr_mode r) 0 (follows_of count i)])) = Some fs'"
    using s by (auto simp: build_piece_def bind_eq_Some_conv)
  show ?thesis
  proof (cases "encode_data (block_header s (tr_seq r) (Some p)) bs c")
    case (Inl e)
    with c fs show ?thesis by simp
  next
    case (Inr payload)
    obtain n where n: "b \<le> n" "n < length blks" "q = of_nat n" "block_ok (blks ! n) q r"
      using window_okD(6) [OF w r(1)] by blast
    have "(p, bs) \<in> set ps" using r(3) by (metis get_Some_iff nth_mem)
    then have "slice_of p bs (blks ! n)" using n(4) r(2) by (auto simp: block_ok_def all_slices_def)
    then have "of_window (sn_session s) blks b (data_frame payload (tr_mode r) 0 (follows_of count i))"
      using decode_encode_data [OF Inr] n
      by (auto simp: of_window_def carries_def data_frame_def block_header_def block_ok_def)
    with fs c Inr show ?thesis by auto
  qed
qed

lemma piece_frames_ok:
  assumes w: "window_ok blks b s" and s: "piece_frames qs room s = Some (fs, s')"
  shows "window_ok blks b s' \<and> keeps s s' \<and> (\<forall>f\<in>set fs. of_window (sn_session s) blks b f)"
proof -
  obtain chosen s1 where c: "choose_pieces room qs [] s = (chosen, s1)" by (cases "choose_pieces room qs [] s")
  have k: "keeps s s1" using c by (rule choose_pieces_keeps)
  then have w1: "window_ok blks b s1" and ses: "sn_session s1 = sn_session s"
    using keeps_window [OF w] by (simp_all add: keeps_def)
  have s1: "for_each (build_piece (length chosen) s1) (enumerate 0 chosen) [] = Some fs"
    and s': "s' = count_stat (\<lambda>st. st\<lparr>frames_sent := frames_sent st + length fs\<rparr>) s1"
    using s c by (auto simp: piece_frames_def bind_eq_Some_conv)
  have "\<forall>f\<in>set fs. of_window (sn_session s1) blks b f"
    by (rule for_each_inv [OF s1, where I = "\<lambda>fs. \<forall>f\<in>set fs. of_window (sn_session s1) blks b f"])
      (auto dest: build_piece_ok [OF w1, rotated])
  with k w1 ses show ?thesis by (simp add: s')
qed

section \<open>Laying out a transmission\<close>

lemma measurement_ok:
  assumes s: "measurement room_s s = Some (fs, s')"
  shows "keeps s s' \<and> (\<forall>f\<in>set fs. filler (tx_payload f))"
proof -
  have step: "\<forall>f\<in>set fs. filler (tx_payload f) \<Longrightarrow> \<forall>f\<in>set (send_measure mode c count s1 i fs). filler (tx_payload f)"
    for mode c count s1 i fs
    by (auto simp: send_measure_def Let_def filler_def data_frame_def split: sum.splits dest!: decode_encode_data)
  have all: "\<forall>f\<in>set fs. filler (tx_payload f) \<Longrightarrow>
      \<forall>f\<in>set (fold (send_measure mode c count s1) is fs). filler (tx_payload f)" for mode c count s1 "is" fs
  proof (induction "is" arbitrary: fs)
    case (Cons i "is")
    show ?case unfolding fold_simps by (rule Cons.IH [OF step [OF Cons.prems]])
  qed simp
  show ?thesis
    using s all [of "[]"] unfolding measurement_def Let_def
    by (auto simp: bind_eq_Some_conv split: option.splits if_splits prod.splits)
qed

lemma window_cut:
  assumes w: "window_ok blks b s" and room: "seq_distance (sn_next s) (sn_base s) < WINDOW"
  shows "window_ok (blks @ [body]) b
    (set_record (sn_next s) (fresh_record (sn_next s) body rung) (s\<lparr>sn_queue := queue, sn_next := seq_after (sn_next s) 1\<rparr>))"
    (is "window_ok _ _ ?s")
proof -
  note W = window_okD [OF w]
  have len: "length blks - b < 16"
    using room W(1-4) seq_distance_of_nat [of b "length blks"] by simp
  have apart: "of_nat i \<noteq> sn_next s" if "b \<le> i" "i < length blks" for i
    using of_nat_window_inj [of i "length blks" b] that W(1,2,4) by auto
  have "\<exists>r. sn_records ?s (of_nat i) = Some r \<and> block_ok ((blks @ [body]) ! i) (of_nat i) r"
    if "b \<le> i" "i < Suc (length blks)" for i
  proof (cases "i = length blks")
    case True
    then show ?thesis using W(4) by (simp add: set_record_def block_ok_def fresh_record_def)
  next
    case False
    with that have i: "b \<le> i" "i < length blks" by simp_all
    with W(5) [OF i] apart [OF i] show ?thesis by (simp add: set_record_def nth_append)
  qed
  moreover have "\<exists>i. b \<le> i \<and> i < Suc (length blks) \<and> q = of_nat i" if "sn_records ?s q = Some r" for q r
  proof (cases "q = sn_next s")
    case True
    with W(1,4) show ?thesis by (intro exI [of _ "length blks"]) simp
  next
    case False
    with that W(6) [of q r] show ?thesis by (auto simp: set_record_def intro: less_SucI)
  qed
  ultimately show ?thesis
    using W(1-4) len by (simp add: window_ok_def set_record_def seq_after_of_nat)
qed

lemma cut_new_ok:
  assumes "cut_new room mode probe qs s = Some (qs', s')" "window_ok blks b s"
  shows "\<exists>new. window_ok (blks @ new) b s' \<and> concat new @ sn_queue s' = sn_queue s \<and> sn_session s' = sn_session s \<and> grows s s'"
  using assms
proof (induction room mode probe qs s arbitrary: blks rule: cut_new.induct)
  case (1 room mode probe qs s)
  let ?go = "length qs < room \<and> seq_distance (sn_next s) (sn_base s) < WINDOW \<and> sn_queue s \<noteq> []"
  show ?case
  proof (cases ?go)
    case False
    have "cut_new room mode probe qs s = Some (qs, s)" by (subst cut_new.simps) (simp only: False if_False)
    then have "s' = s" using 1(2) by simp
    then show ?thesis using 1(3) keeps_grows [OF keeps_refl] by (intro exI [of _ "[]"]) simp
  next
    case True
    define rung where "rung = (case probe of None \<Rightarrow> mode | Some p \<Rightarrow> p)"
    obtain c tk where c: "capacity_of (sn_timing s) rung = Some c"
      "cut_length (data_capacity c) (length (sn_queue s)) (sn_pin_body s) = Some tk"
      and rec: "cut_new room mode None (qs @ [sn_next s])
        (set_record (sn_next s) (fresh_record (sn_next s) (take tk (sn_queue s)) rung)
          (s\<lparr>sn_queue := drop tk (sn_queue s), sn_next := seq_after (sn_next s) 1\<rparr>)) = Some (qs', s')"
      using 1(2) True
      by (subst (asm) cut_new.simps) (auto simp: bind_eq_Some_conv Let_def rung_def)
    let ?s = "set_record (sn_next s) (fresh_record (sn_next s) (take tk (sn_queue s)) rung)
          (s\<lparr>sn_queue := drop tk (sn_queue s), sn_next := seq_after (sn_next s) 1\<rparr>)"
    have w: "window_ok (blks @ [take tk (sn_queue s)]) b ?s" using window_cut [OF 1(3)] True by simp
    obtain new where new: "window_ok ((blks @ [take tk (sn_queue s)]) @ new) b s'"
      "concat new @ sn_queue s' = sn_queue ?s" "sn_session s' = sn_session ?s"
      "grows ?s s'"
      using 1(1) [OF True rung_def c(1) c(2) refl rec w] by blast
    have fresh: "sn_records s (sn_next s) = None"
    proof (rule ccontr)
      assume "sn_records s (sn_next s) \<noteq> None"
      then obtain i where "b \<le> i" "i < length blks" "sn_next s = of_nat i" using window_okD(6) [OF 1(3)] by blast
      with window_okD(1,2,4) [OF 1(3)] of_nat_window_inj [of i "length blks" b] show False by auto
    qed
    then have "grows s ?s"
      by (intro growsI) (auto simp: set_record_def record_is_def fresh_record_def)
    then have "grows s s'" using new(4) by (rule grows_trans)
    moreover have "concat (take tk (sn_queue s) # new) @ sn_queue s' = sn_queue s"
      using new(2) by (simp add: set_record_def)
    ultimately show ?thesis
      using new(1,3) by (intro exI [of _ "take tk (sn_queue s) # new"]) (simp add: set_record_def)
  qed
qed

lemma of_window_append:
  "of_window ses blks b f \<Longrightarrow> of_window ses (blks @ new) b f"
  unfolding of_window_def by (metis carries_append le_add1 length_append order_less_le_trans)

text \<open>
  Laying out a transmission: blocks cut off the front of the queue join the window, and every frame
  carries a block of the window, whole or a piece of it, or is filler.
\<close>

lemma lay_out_ok:
  assumes w: "window_ok blks b s" and s: "lay_out mode probe family room qs s = Some (fs, s')"
  shows "\<exists>new. window_ok (blks @ new) b s' \<and> concat new @ sn_queue s' = sn_queue s \<and> sn_session s' = sn_session s \<and>
    (\<forall>f\<in>set fs. of_window (sn_session s) (blks @ new) b f) \<and>
    grows s s'"
proof (cases "filter (record_is (\<lambda>r. tr_pieces r \<noteq> None) s) qs = []")
  case False
  then have "window_ok blks b s' \<and> keeps s s' \<and> (\<forall>f\<in>set fs. of_window (sn_session s) blks b f)"
    using s piece_frames_ok [OF w] by (simp add: lay_out_def Let_def)
  then show ?thesis using keeps_grows by (intro exI [of _ "[]"]) (auto simp: keeps_def)
next
  case True
  obtain qs2 s2 where cut: "(if family = pt_is_floor (sn_timing s) mode \<and> sn_measure_ask s = None
      then cut_new room mode probe (take room qs) s else Some (take room qs, s)) = Some (qs2, s2)"
    and blocks: "send_blocks qs2 s2 = Some (fs, s')"
    using s True by (auto simp: lay_out_def Let_def bind_eq_Some_conv)
  obtain new where new: "window_ok (blks @ new) b s2" "concat new @ sn_queue s2 = sn_queue s" "sn_session s2 = sn_session s"
      "grows s s2"
  proof (cases "family = pt_is_floor (sn_timing s) mode \<and> sn_measure_ask s = None")
    case True
    with cut cut_new_ok [OF _ w] that show ?thesis by (metis (no_types, lifting))
  next
    case False
    with cut w that [of "[]"] keeps_grows [OF keeps_refl] show ?thesis by simp
  qed
  have "window_ok (blks @ new) b s' \<and> keeps s2 s' \<and> (\<forall>f\<in>set fs. of_window (sn_session s2) (blks @ new) b f)"
    by (rule send_blocks_ok [OF new(1) blocks])
  then show ?thesis
    using new(2-4) grows_trans [OF new(4) keeps_grows] by (intro exI [of _ new]) (auto simp: keeps_def)
qed

lemma data_frames_ok:
  assumes w: "window_ok blks b s" and s: "data_frames room_s s = Some (fs, s')"
  shows "\<exists>new. window_ok (blks @ new) b s' \<and> concat new @ sn_queue s' = sn_queue s \<and> sn_session s' = sn_session s \<and>
    (\<forall>f\<in>set fs. of_window (sn_session s) (blks @ new) b f) \<and>
    grows s s'"
    (is "?goal fs s'")
proof -
  have none: "?goal [] s1" if "keeps s s1" for s1
    using keeps_window [OF w that] keeps_grows [OF that] that by (intro exI [of _ "[]"]) (auto simp: keeps_def)
  consider (idle) "fs = []" "s' = s" | (measure) "measurement room_s s = Some (fs, s')"
    | (data) mode chosen qs s1 where "for_each (restrand chosen (sn_answered_rung s)) qs s = Some s1"
        "fs = [] \<and> s' = s1 \<or> (\<exists>probe fam room qs'. lay_out mode probe fam room qs' s1 = Some (fs, s'))"
  proof (cases "(case room_s of None \<Rightarrow> False | Some r \<Rightarrow> r \<le> 0) \<or> sn_measure_out s \<noteq> None")
    case True
    with s idle show ?thesis by (simp add: data_frames_def)
  next
    case go: False
    show ?thesis
    proof (cases "sn_measure_ask s \<noteq> None \<and> unacked s = []")
      case True
      with s go measure show ?thesis by (simp add: data_frames_def)
    next
      case False
      obtain mode0 mode probe across where m: "burst_mode s = Some mode0" "burst_plan mode0 s = (mode, probe, across)"
        using s go False by (cases "burst_plan (the (burst_mode s)) s") (auto simp: data_frames_def bind_eq_Some_conv)
      define qs where "qs = filter (\<lambda>q. 2 \<le> sn_silent s \<or> record_is (\<lambda>r. \<not> tr_unknown r) s q) (unacked s)"
      have "\<exists>s1 room fam qs'. for_each (restrand mode0 (sn_answered_rung s)) qs s = Some s1 \<and>
          (if room = 0 then Some ([], s1) else lay_out mode probe fam room qs' s1) = Some (fs, s')"
        using s unfolding data_frames_def if_not_P [OF go] if_not_P [OF False] m Option.bind_lunit Let_def prod.case
          qs_def [symmetric] bind_eq_Some_conv by blast
      then obtain s1 room fam qs' where s1: "for_each (restrand mode0 (sn_answered_rung s)) qs s = Some s1"
        and "(if room = 0 then Some ([], s1) else lay_out mode probe fam room qs' s1) = Some (fs, s')" by blast
      then have "fs = [] \<and> s' = s1 \<or> (\<exists>probe fam room qs'. lay_out mode probe fam room qs' s1 = Some (fs, s'))"
        by (auto split: if_splits)
      then show ?thesis by (rule data [OF s1])
    qed
  qed
  then show ?thesis
  proof cases
    case idle
    then show ?thesis using none [of s] by simp
  next
    case measure
    with none [of s'] measurement_ok [OF measure] show ?thesis
      by (auto simp: of_window_def)
  next
    case data
    have k: "keeps s s1" using data(1) by (rule restrands_keep)
    show ?thesis
    proof (cases "fs = [] \<and> s' = s1")
      case True
      then show ?thesis using none [OF k] by simp
    next
      case False
      then obtain probe fam room qs' where "lay_out mode probe fam room qs' s1 = Some (fs, s')" using data(2) by blast
      from lay_out_ok [OF keeps_window [OF w k] this]
      obtain new where new: "window_ok (blks @ new) b s'" "concat new @ sn_queue s' = sn_queue s1"
        "sn_session s' = sn_session s1" "\<forall>f\<in>set fs. of_window (sn_session s1) (blks @ new) b f"
        and g: "grows s1 s'" by blast
      have "grows s s'" by (rule grows_trans [OF keeps_grows [OF k] g])
      with new k show ?thesis by (intro exI [of _ new]) (simp add: keeps_def)
    qed
  qed
qed

section \<open>Acknowledgements\<close>

text \<open>The blocks taken for delivered: those gone from the window, and those marked in it.\<close>

definition settled :: "nat \<Rightarrow> nat \<Rightarrow> sender \<Rightarrow> nat set" where
  "settled b n s = {i. i < b \<or> b \<le> i \<and> i < n \<and> record_is tr_acked s (of_nat i)}"

lemma settled_grows:
  assumes w: "window_ok blks b s" and g: "grows s s'" and w': "window_ok (blks @ new) b s'"
  shows "settled b (length (blks @ new)) s' \<subseteq> settled b (length blks) s"
proof
  fix i assume i: "i \<in> settled b (length (blks @ new)) s'"
  show "i \<in> settled b (length blks) s"
  proof (cases "i < b")
    case False
    with i have bi: "b \<le> i" "i < length (blks @ new)" "record_is tr_acked s' (of_nat i)" by (auto simp: settled_def)
    then obtain r where r: "sn_records s (of_nat i) = Some r" using growsN [OF g] by (metis option.exhaust)
    with growsD [OF g r] bi(3) have "tr_acked r" by (auto simp: record_is_def same_block_def)
    moreover obtain j where "b \<le> j" "j < length blks" "of_nat i = (of_nat j :: u8)" using window_okD(6) [OF w r] by blast
    moreover have "i < b + 256" "j < b + 256"
      using bi(2) window_okD(2) [OF w'] window_okD(2) [OF w] \<open>j < length blks\<close> by simp_all
    ultimately have "i = j" using of_nat_window_inj [of i j b] bi(1) by simp
    with r \<open>tr_acked r\<close> bi(1) \<open>j < length blks\<close> show ?thesis by (simp add: settled_def record_is_def)
  qed (simp add: settled_def)
qed

lemma window_mono_records:
  assumes w: "window_ok blks b s" and "sn_base s' = sn_base s" "sn_next s' = sn_next s"
    and "\<And>q. rel_option (\<lambda>r r'. tr_seq r' = tr_seq r \<and> tr_body r' = tr_body r \<and> tr_pieces r' = tr_pieces r)
               (sn_records s q) (sn_records s' q)"
  shows "window_ok blks b s'"
proof -
  let ?R = "\<lambda>r r'. tr_seq r' = tr_seq r \<and> tr_body r' = tr_body r \<and> tr_pieces r' = tr_pieces r"
  have "\<exists>r. sn_records s' (of_nat i) = Some r \<and> block_ok (blks ! i) (of_nat i) r" if "b \<le> i" "i < length blks" for i
    using window_okD(5) [OF w that] assms(4) [of "of_nat i"] by (auto simp: option_rel_Some1 block_ok_def)
  moreover have "\<exists>i. b \<le> i \<and> i < length blks \<and> q = of_nat i" if "sn_records s' q = Some r" for q r
    using assms(4) [of q] that window_okD(6) [OF w] by (auto simp: option_rel_Some2)
  ultimately show ?thesis using window_okD(1-4) [OF w] assms(2,3) by (simp add: window_ok_def)
qed

lemma advance_base_ok:
  assumes "window_ok blks b s"
  shows "\<exists>b'. b \<le> b' \<and> window_ok blks b' (advance_base s) \<and> sn_queue (advance_base s) = sn_queue s \<and>
    sn_session (advance_base s) = sn_session s \<and> settled b' (length blks) (advance_base s) = settled b (length blks) s"
  using assms
proof (induction s arbitrary: b rule: advance_base.induct)
  case (1 s)
  note W = window_okD [OF 1(2)]
  let ?go = "sn_base s \<noteq> sn_next s \<and> record_is tr_acked s (sn_base s)"
  let ?s = "s\<lparr>sn_records := (sn_records s)(sn_base s := None), sn_base := seq_after (sn_base s) 1\<rparr>"
  show ?case
  proof (cases ?go)
    case False
    have "advance_base s = s" by (subst advance_base.simps) (simp only: False if_False)
    with 1(2) show ?thesis by auto
  next
    case True
    have step: "advance_base s = advance_base ?s" by (subst advance_base.simps) (simp only: if_P [OF True])
    have b: "b < length blks" using True W(1,3,4) by (metis le_neq_implies_less)
    have apart: "of_nat i \<noteq> (of_nat b :: u8)" if "Suc b \<le> i" "i < length blks" for i
      using of_nat_window_inj [of i b b] that W(2) by auto
    have w: "window_ok blks (Suc b) ?s"
    proof -
      have "\<exists>r. sn_records ?s (of_nat i) = Some r \<and> block_ok (blks ! i) (of_nat i) r"
        if "Suc b \<le> i" "i < length blks" for i
        using W(5) [of i] apart [OF that] that W(3) by simp
      moreover have "\<exists>i. Suc b \<le> i \<and> i < length blks \<and> q = of_nat i" if "sn_records ?s q = Some r" for q r
      proof -
        have q: "q \<noteq> of_nat b" "sn_records s q = Some r" using that W(3) by (auto split: if_splits)
        then obtain i where i: "b \<le> i" "i < length blks" "q = of_nat i" using W(6) by blast
        with q(1) have "Suc b \<le> i" by (cases "i = b") simp_all
        with i show ?thesis by blast
      qed
      ultimately show ?thesis
        using b W(2-4) by (simp add: window_ok_def seq_after_of_nat)
    qed
    obtain b' where b': "Suc b \<le> b'" "window_ok blks b' (advance_base ?s)" "sn_queue (advance_base ?s) = sn_queue ?s"
      "sn_session (advance_base ?s) = sn_session ?s"
      "settled b' (length blks) (advance_base ?s) = settled (Suc b) (length blks) ?s"
      using 1(1) [OF True w] by blast
    have "settled (Suc b) (length blks) ?s = settled b (length blks) s"
    proof (rule set_eqI)
      fix i show "i \<in> settled (Suc b) (length blks) ?s \<longleftrightarrow> i \<in> settled b (length blks) s"
      proof (cases "Suc b \<le> i \<and> i < length blks")
        case True
        with apart [of i] W(3) show ?thesis by (simp add: settled_def record_is_def)
      next
        case False
        then have "i \<le> b \<or> length blks \<le> i" by auto
        with True b W(3) show ?thesis by (cases "i = b") (auto simp: settled_def)
      qed
    qed
    with b' show ?thesis unfolding step by (intro exI [of _ b']) simp
  qed
qed

text \<open>The fields the window is made of.\<close>

definition same_window :: "sender \<Rightarrow> sender \<Rightarrow> bool" where
  "same_window s s' \<longleftrightarrow> sn_base s' = sn_base s \<and> sn_next s' = sn_next s \<and> sn_records s' = sn_records s \<and>
     sn_queue s' = sn_queue s \<and> sn_session s' = sn_session s"

lemma same_window_ok: "same_window s s' \<Longrightarrow> window_ok blks b s' = window_ok blks b s"
  by (simp add: same_window_def window_ok_def)

lemma same_window_settled: "same_window s s' \<Longrightarrow> settled b n s' = settled b n s"
  by (simp add: same_window_def settled_def record_is_def)

lemma same_window_refl [simp]: "same_window s s"
  by (simp add: same_window_def)

lemma same_window_trans: "same_window a b \<Longrightarrow> same_window b c \<Longrightarrow> same_window a c"
  by (simp add: same_window_def)

lemma judge_copies_window: "judge_copies newly s = Some s' \<Longrightarrow> same_window s s'"
  by (auto simp: judge_copies_def bind_eq_Some_conv same_window_def price_def)

lemma take_report_window: "same_window s (take_report ctl s)"
  by (auto simp: take_report_def same_window_def split: option.split)

lemma set_seqs_where: "q \<in> set (seqs_where P m) \<longleftrightarrow> (\<exists>r. m q = Some r \<and> P q r)"
proof -
  have "q \<in> set (map of_nat [0..<256])"
    using unsigned_less [of q, where ?'a = nat] by (auto simp: image_iff intro!: bexI [of _ "unat q"])
  then show ?thesis by (auto simp: seqs_where_def simp del: set_map split: option.split option.split_asm)
qed

lemma take_ack_split:
  assumes "take_ack ctl fresh patience s = Some s'"
  shows "\<exists>s1. same_window s s1 \<and>
    same_window (advance_base (mark_acked (newly_acked ctl (forget_unknown s1)) (forget_unknown s1))) s'"
proof -
  let ?s1 = "if fresh then take_report ctl s else s"
  let ?newly = "newly_acked ctl (forget_unknown ?s1)"
  let ?s2 = "advance_base (mark_acked ?newly (forget_unknown ?s1))"
  let ?s3 = "if ?newly \<noteq> [] \<and> sn_patience_until ?s2 \<noteq> None then ?s2\<lparr>sn_patience_until := Some patience\<rparr> else ?s2"
  have 3: "same_window ?s2 ?s3" by (simp add: same_window_def)
  obtain s4 where s4: "(if fresh \<and> sn_sent_copies ?s3 \<noteq> []
      then (let missed = (if gf_missed ctl \<noteq> MISSED_UNKNOWN then Some (gf_missed ctl) else None)
            in judge_copies ?newly (count_stat (\<lambda>st. st\<lparr>frames_missed := frames_missed st
                 + unat (case missed of None \<Rightarrow> 0 | Some m \<Rightarrow> m)\<rparr>) (?s3\<lparr>sn_peer_missed := missed\<rparr>)))
      else Some ?s3) = Some s4"
    and last: "(if fresh \<and> rc_smoothed_snr_db (sn_rate s4) \<noteq> None
      then do { c \<leftarrow> choice (sn_rate s4); Some (s4\<lparr>sn_answered_rung := Some c\<rparr>) } else Some s4) = Some s'"
    using assms unfolding take_ack_def Let_def bind_eq_Some_conv by blast
  have "same_window ?s3 s4"
    using s4 by (auto simp: Let_def count_stat_def same_window_def split: if_split_asm dest!: judge_copies_window)
  moreover have "same_window s4 s'"
    using last by (auto simp: same_window_def bind_eq_Some_conv split: if_splits)
  moreover have "same_window s ?s1" by (simp add: take_report_window)
  ultimately show ?thesis using 3 by (blast intro: same_window_trans)
qed

text \<open>
  An acknowledgement moves the window up, over blocks settled before or named by it, and takes for
  delivered no others.
\<close>

lemma take_ack_ok:
  assumes w: "window_ok blks b s" and s: "take_ack ctl fresh patience s = Some s'"
  shows "\<exists>b'\<ge>b. window_ok blks b' s' \<and> sn_queue s' = sn_queue s \<and> sn_session s' = sn_session s \<and>
    settled b' (length blks) s' \<subseteq> settled b (length blks) s \<union>
      {i. b \<le> i \<and> i < length blks \<and> received ctl (of_nat i)}"
proof -
  obtain s1 where s1: "same_window s s1"
    and s': "same_window (advance_base (mark_acked (newly_acked ctl (forget_unknown s1)) (forget_unknown s1))) s'"
    using take_ack_split [OF s] by blast
  define s2 where "s2 = forget_unknown s1"
  define s3 where "s3 = mark_acked (newly_acked ctl s2) s2"
  have w2: "window_ok blks b s2"
    by (rule window_mono_records [of _ _ s1])
      (use w s1 in \<open>auto simp: same_window_ok s2_def forget_unknown_def option.rel_map option.rel_refl\<close>)
  have w3: "window_ok blks b s3"
    by (rule window_mono_records [OF w2])
      (auto simp: s3_def mark_acked_def count_stat_def Let_def option.rel_map option.rel_refl)
  have f: "sn_queue s3 = sn_queue s" "sn_session s3 = sn_session s"
    using s1 by (simp_all add: s3_def s2_def mark_acked_def count_stat_def Let_def forget_unknown_def same_window_def)
  have "settled b (length blks) s3 \<subseteq> settled b (length blks) s \<union> {i. b \<le> i \<and> i < length blks \<and> received ctl (of_nat i)}"
    using s1
    by (auto simp: settled_def record_is_def s3_def s2_def mark_acked_def count_stat_def Let_def forget_unknown_def
        newly_acked_def set_seqs_where same_window_def split: option.splits if_splits)
  moreover obtain b' where "b \<le> b'" "window_ok blks b' (advance_base s3)" "sn_queue (advance_base s3) = sn_queue s3"
    "sn_session (advance_base s3) = sn_session s3"
    "settled b' (length blks) (advance_base s3) = settled b (length blks) s3"
    using advance_base_ok [OF w3] by blast
  ultimately show ?thesis
    using s' [folded s2_def, folded s3_def] f
    by (intro exI [of _ b']) (simp add: same_window_ok same_window_settled, simp add: same_window_def)
qed

end
