(* ===== verification/Receiver_Laws.thy ===== *)
theory Receiver_Laws
  imports Sender_Laws
begin

text \<open>
  The receiver's window.  \<open>inbox_ok blks r rv\<close>: of the blocks \<open>blks\<close> the first \<open>r\<close> are delivered, in
  order; what is buffered or held in pieces is of later blocks of the window, under their numbers.
  A frame that carries a block of the window keeps it, whatever copies it was combined with; no other
  operation of the receiving half touches it.
\<close>

section \<open>The receiver's window\<close>

definition held_ok :: "bytes \<Rightarrow> held_pieces \<Rightarrow> bool" where
  "held_ok body h \<longleftrightarrow> length (hp_have h) = length (hp_data h) \<and> length (hp_data h) \<le> length body \<and>
     (\<forall>i<length (hp_data h). hp_have h ! i \<longrightarrow> hp_data h ! i = body ! i) \<and>
     (hp_total h = None \<or> hp_total h = Some (length body))"

definition marked :: "'h receiver \<Rightarrow> bool" where
  "marked rv \<longleftrightarrow> (\<forall>w. rv_measured rv = Some w \<longrightarrow> bit w 0)"

definition inbox_ok :: "bytes list \<Rightarrow> nat \<Rightarrow> 'h receiver \<Rightarrow> bool" where
  "inbox_ok blks r rv \<longleftrightarrow> r \<le> length blks \<and> rv_base rv = of_nat r \<and>
     concat (rv_delivered rv) = concat (take r blks) \<and>
     (\<forall>q body. rv_buf rv q = Some body \<longrightarrow>
        (\<exists>i. r \<le> i \<and> i < r + 16 \<and> i < length blks \<and> q = of_nat i \<and> body = blks ! i)) \<and>
     (\<forall>q h. rv_pieces rv q = Some h \<longrightarrow>
        (\<exists>i. r \<le> i \<and> i < r + 16 \<and> i < length blks \<and> q = of_nat i \<and> held_ok (blks ! i) h)) \<and>
     marked rv"

text \<open>The blocks received, delivered or not.\<close>

definition got :: "nat \<Rightarrow> 'h receiver \<Rightarrow> nat set" where
  "got r rv = {i. i < r \<or> r \<le> i \<and> i < r + 16 \<and> rv_buf rv (of_nat i) \<noteq> None}"

subsection \<open>Blocks in pieces\<close>

lemma write_at_nth:
  "length (write_at off z xs ys) = max (length ys) (off + length xs)"
  "i < max (length ys) (off + length xs) \<Longrightarrow>
     write_at off z xs ys ! i =
       (if off \<le> i \<and> i < off + length xs then xs ! (i - off) else if i < length ys then ys ! i else z)"
proof -
  define zs where "zs = ys @ replicate (off + length xs - length ys) z"
  have w: "write_at off z xs ys = take off zs @ xs @ drop (off + length xs) zs"
    by (simp add: write_at_def zs_def)
  have l: "length zs = max (length ys) (off + length xs)" by (simp add: zs_def)
  show "length (write_at off z xs ys) = max (length ys) (off + length xs)"
    using l by (simp add: w)
  show "write_at off z xs ys ! i =
       (if off \<le> i \<and> i < off + length xs then xs ! (i - off) else if i < length ys then ys ! i else z)"
    if i: "i < max (length ys) (off + length xs)"
  proof -
    have zs: "zs ! i = (if i < length ys then ys ! i else z)" using i by (auto simp: zs_def nth_append)
    show ?thesis
    proof (cases "i < off")
      case True
      then have "(take off zs @ xs @ drop (off + length xs) zs) ! i = zs ! i"
        using l by (simp add: nth_append)
      with True zs show ?thesis by (simp add: w)
    next
      case False
      then have "(take off zs @ xs @ drop (off + length xs) zs) ! i =
          (if i < off + length xs then xs ! (i - off) else zs ! i)"
        using l i by (auto simp: nth_append)
      with False zs show ?thesis by (simp add: w)
    qed
  qed
qed

lemma held_ok_no_pieces [simp]: "held_ok body no_pieces"
  by (simp add: held_ok_def no_pieces_def)

lemma held_ok_place:
  assumes h: "held_ok body h" and s: "slice_of p bs body"
  shows "held_ok body (place (unat (pc_offset p)) bs (pc_last p) h)"
proof -
  let ?o = "unat (pc_offset p)"
  have bs: "bs ! (i - ?o) = body ! i" if "?o \<le> i" "i < ?o + length bs" for i
  proof -
    have e: "take (length bs) (drop ?o body) = bs" "?o + length bs \<le> length body" using s by (auto simp: slice_of_def)
    have "take (length bs) (drop ?o body) ! (i - ?o) = body ! i" using that e(2) by simp
    then show ?thesis by (simp only: e(1))
  qed
  have "(place ?o bs (pc_last p) h) = \<lparr>hp_data = write_at ?o 0 bs (hp_data h),
      hp_have = write_at ?o False (replicate (length bs) True) (hp_have h),
      hp_total = (if pc_last p then Some (?o + length bs) else hp_total h)\<rparr>" by (simp add: place_def)
  then show ?thesis
    using h s bs by (auto simp: held_ok_def slice_of_def write_at_nth)
qed

lemma held_body_whole: "held_ok body h \<Longrightarrow> held_body h = Some blk \<Longrightarrow> blk = body"
  by (auto simp: held_ok_def held_body_def list_all_length split: option.splits if_splits intro!: nth_equalityI)

subsection \<open>Filing and delivering\<close>

text \<open>What a block or a piece of it, under its number, does to the window.\<close>

lemma inbox_okD:
  assumes "inbox_ok blks r rv"
  shows "r \<le> length blks" "rv_base rv = of_nat r" "concat (rv_delivered rv) = concat (take r blks)"
    and "\<And>q body. rv_buf rv q = Some body \<Longrightarrow>
           \<exists>i. r \<le> i \<and> i < r + 16 \<and> i < length blks \<and> q = of_nat i \<and> body = blks ! i"
    and "\<And>q h. rv_pieces rv q = Some h \<Longrightarrow>
           \<exists>i. r \<le> i \<and> i < r + 16 \<and> i < length blks \<and> q = of_nat i \<and> held_ok (blks ! i) h"
    and "marked rv"
  using assms unfolding inbox_ok_def by blast+

lemma inbox_numbers:
  assumes "of_nat i = (of_nat j :: u8)" "r \<le> i" "i < r + 16" "r \<le> j" "j < r + 16" shows "i = j"
  using of_nat_window_inj [of i j r] assms by simp

lemma file_block_ok:
  assumes ok: "inbox_ok blks r rv" and n: "r \<le> n" "n < r + 16" "n < length blks"
    and body: "case dh_piece h of None \<Rightarrow> body = blks ! n | Some p \<Rightarrow> slice_of p body (blks ! n)"
    and q: "dh_seq h = of_nat n"
  shows "inbox_ok blks r (file_block h body rv) \<and> got r (file_block h body rv) \<subseteq> got r rv \<union> {n} \<and>
    got r rv \<subseteq> got r (file_block h body rv) \<and> rv_session (file_block h body rv) = rv_session rv"
proof -
  note D = inbox_okD [OF ok]
  have filed: ?thesis if e: "file_block h body rv = rv'" and
      buf: "rv_buf rv' = (case rv_buf rv (of_nat n) of None \<Rightarrow> (rv_buf rv)(of_nat n \<mapsto> blks ! n) | Some _ \<Rightarrow> rv_buf rv)"
      and rest: "rv_base rv' = rv_base rv" "rv_delivered rv' = rv_delivered rv" "rv_measured rv' = rv_measured rv"
        "rv_session rv' = rv_session rv" "\<And>q h. rv_pieces rv' q = Some h \<Longrightarrow> rv_pieces rv q = Some h" for rv'
  proof -
    have "marked rv'" using D(6) rest(3) by (simp add: marked_def)
    then have "inbox_ok blks r rv'"
      unfolding inbox_ok_def rest(1-3) buf
      using D n rest(5) by (auto split: option.splits if_splits)
    moreover have "got r rv' \<subseteq> got r rv \<union> {n}"
      using inbox_numbers [of _ n r] n by (auto simp: got_def buf split: option.splits if_splits)
    moreover have "got r rv \<subseteq> got r rv'" by (auto simp: got_def buf split: option.splits)
    ultimately show ?thesis using e rest(4) by simp
  qed
  show ?thesis
  proof (cases "dh_piece h")
    case None
    with body q show ?thesis
      by (intro filed [OF refl]) (auto simp: file_block_def block_of_def split: option.split if_splits)
  next
    case (Some p)
    show ?thesis
    proof (cases "rv_buf rv (dh_seq h)")
      case None
      define held where "held = place (unat (pc_offset p)) body (pc_last p)
        (case rv_pieces rv (dh_seq h) of None \<Rightarrow> no_pieces | Some g \<Rightarrow> g)"
      have "held_ok (blks ! n) (case rv_pieces rv (dh_seq h) of None \<Rightarrow> no_pieces | Some g \<Rightarrow> g)"
      proof (cases "rv_pieces rv (dh_seq h)")
        case (Some g)
        from D(5) [OF this] obtain i where i: "r \<le> i" "i < r + 16" "dh_seq h = of_nat i" "held_ok (blks ! i) g" by blast
        with inbox_numbers [of i n r] n q have "i = n" by simp
        with i(4) Some show ?thesis by simp
      qed simp
      then have h: "held_ok (blks ! n) held"
        unfolding held_def using body Some by (auto intro: held_ok_place)
      show ?thesis
      proof (cases "held_body held")
        case none: None
        have e: "file_block h body rv = rv\<lparr>rv_pieces := (rv_pieces rv)(dh_seq h \<mapsto> held)\<rparr>" (is "_ = ?rv")
          using Some None none by (simp add: file_block_def block_of_def held_def)
        have "inbox_ok blks r ?rv"
          unfolding inbox_ok_def using D n h q by (auto simp: marked_def split: if_splits)
        then show ?thesis unfolding e by (auto simp: got_def)
      next
        case (Some blk)
        have "blk = blks ! n" using held_body_whole [OF h Some] .
        with \<open>dh_piece h = Some p\<close> None Some q show ?thesis
          by (intro filed [OF refl]) (auto simp: file_block_def block_of_def held_def Let_def split: if_splits)
      qed
    next
      case (Some b)
      with \<open>dh_piece h = Some p\<close> q show ?thesis
        by (intro filed [OF refl]) (auto simp: file_block_def block_of_def split: if_splits)
    qed
  qed
qed

lemma deliver_ok:
  assumes "inbox_ok blks r rv"
  shows "\<exists>r'\<ge>r. inbox_ok blks r' (deliver rv) \<and> got r' (deliver rv) = got r rv \<and>
    rv_buf (deliver rv) (of_nat r') = None \<and> rv_session (deliver rv) = rv_session rv"
  using assms
proof (induction rv arbitrary: r rule: deliver.induct)
  case (1 rv)
  note D = inbox_okD [OF 1(2)]
  show ?case
  proof (cases "rv_buf rv (rv_base rv)")
    case None
    have "deliver rv = rv" by (subst deliver.simps) (simp add: None)
    with 1(2) None D(2) show ?thesis by auto
  next
    case (Some data)
    let ?rv = "count_rx (\<lambda>st. st\<lparr>bytes_delivered := bytes_delivered st + length data\<rparr>)
       (rv\<lparr>rv_buf := (rv_buf rv)(rv_base rv := None), rv_harq := (rv_harq rv)(rv_base rv := None),
          rv_pieces := (rv_pieces rv)(rv_base rv := None), rv_base := seq_after (rv_base rv) 1,
          rv_delivered := (if data \<noteq> [] then rv_delivered rv @ [data] else rv_delivered rv)\<rparr>)"
    have step: "deliver rv = deliver ?rv" by (subst deliver.simps) (simp only: Some option.case)
    obtain i where "r \<le> i" "i < r + 16" "i < length blks" "rv_base rv = of_nat i" "data = blks ! i"
      using D(4) [OF Some] by blast
    with D(2) inbox_numbers [of i r r] have r: "r < length blks" "data = blks ! r" by auto
    have buf: "\<exists>i. Suc r \<le> i \<and> i < Suc r + 16 \<and> i < length blks \<and> q = of_nat i \<and> body = blks ! i"
      if qb: "rv_buf rv q = Some body" "q \<noteq> of_nat r" for q body
    proof -
      obtain i where i: "r \<le> i" "i < r + 16" "i < length blks" "q = of_nat i" "body = blks ! i" using D(4) [OF qb(1)] by blast
      with qb(2) have "i \<noteq> r" by auto
      with i show ?thesis by (intro exI [of _ i]) simp
    qed
    have pcs: "\<exists>i. Suc r \<le> i \<and> i < Suc r + 16 \<and> i < length blks \<and> q = of_nat i \<and> held_ok (blks ! i) g"
      if qb: "rv_pieces rv q = Some g" "q \<noteq> of_nat r" for q g
    proof -
      obtain i where i: "r \<le> i" "i < r + 16" "i < length blks" "q = of_nat i" "held_ok (blks ! i) g" using D(5) [OF qb(1)] by blast
      with qb(2) have "i \<noteq> r" by auto
      with i show ?thesis by (intro exI [of _ i]) simp
    qed
    have ok: "inbox_ok blks (Suc r) ?rv"
      unfolding inbox_ok_def
      using D(2,3,6) r buf pcs by (auto simp: count_rx_def marked_def seq_after_of_nat take_Suc_conv_app_nth split: if_splits)
    have got: "got (Suc r) ?rv = got r rv"
    proof (rule set_eqI)
      fix i
      have far: "rv_buf rv (of_nat (r + 16)) = None"
      proof (rule ccontr)
        assume "rv_buf rv (of_nat (r + 16)) \<noteq> None"
        then obtain i where "r \<le> i" "i < r + 16" "of_nat (r + 16) = (of_nat i :: u8)" using D(4) by blast
        with of_nat_window_inj [of "r + 16" i r] show False by simp
      qed
      consider "i < r" | "i = r" | "r < i" "i < r + 16" | "i = r + 16" | "r + 16 < i" by linarith
      then show "i \<in> got (Suc r) ?rv \<longleftrightarrow> i \<in> got r rv"
      proof cases
        case 3
        then have "of_nat i \<noteq> (of_nat r :: u8)" using inbox_numbers [of i r r] by auto
        with 3 D(2) show ?thesis by (simp add: got_def count_rx_def)
      next
        case 4
        have "of_nat i \<noteq> (of_nat r :: u8)" using of_nat_window_inj [of i r r] 4 by auto
        with 4 far D(2) show ?thesis by (simp add: got_def count_rx_def)
      qed (use Some D(2) in \<open>auto simp: got_def\<close>)
    qed
    obtain r' where "Suc r \<le> r'" "inbox_ok blks r' (deliver ?rv)" "got r' (deliver ?rv) = got (Suc r) ?rv"
      "rv_buf (deliver ?rv) (of_nat r') = None" "rv_session (deliver ?rv) = rv_session ?rv"
      using 1(1) [OF Some ok] by blast
    then show ?thesis unfolding step got by (intro exI [of _ r']) (simp add: count_rx_def)
  qed
qed

subsection \<open>Everything else a receiver does\<close>

text \<open>What changes nothing of the window; a report in place of an acknowledgement says it is one.\<close>

definition same_inbox :: "'h receiver \<Rightarrow> 'h receiver \<Rightarrow> bool" where
  "same_inbox rv rv' \<longleftrightarrow> rv_base rv' = rv_base rv \<and> rv_buf rv' = rv_buf rv \<and> rv_pieces rv' = rv_pieces rv \<and>
     rv_delivered rv' = rv_delivered rv \<and> rv_session rv' = rv_session rv \<and>
     (marked rv \<longrightarrow> marked rv')"

lemma same_inbox_ok: "same_inbox rv rv' \<Longrightarrow> inbox_ok blks r rv \<Longrightarrow> inbox_ok blks r rv'"
  unfolding inbox_ok_def same_inbox_def by metis

lemma same_inbox_got: "same_inbox rv rv' \<Longrightarrow> got r rv' = got r rv"
  by (simp add: same_inbox_def got_def)

lemma same_inbox_refl [simp]: "same_inbox rv rv"
  by (simp add: same_inbox_def)

lemma same_inbox_trans: "same_inbox a b \<Longrightarrow> same_inbox b c \<Longrightarrow> same_inbox a c"
  unfolding same_inbox_def by metis

lemma same_inbox_fields [simp]:
  "same_inbox a (b\<lparr>rv_rx := x\<rparr>) = same_inbox a b" "same_inbox a (b\<lparr>rv_harq := y\<rparr>) = same_inbox a b"
  "same_inbox a (count_rx f b) = same_inbox a b" "same_inbox a (b\<lparr>rv_max_seen := z\<rparr>) = same_inbox a b"
  "same_inbox a (b\<lparr>rv_rx_t0 := u\<rparr>) = same_inbox a b" "same_inbox a (b\<lparr>rv_rx_pieces := v\<rparr>) = same_inbox a b"
  "same_inbox a (b\<lparr>rv_rx_measure := w\<rparr>) = same_inbox a b" "same_inbox a (b\<lparr>rv_grid := g\<rparr>) = same_inbox a b"
  "same_inbox a (b\<lparr>rv_last_data := l\<rparr>) = same_inbox a b" "same_inbox a (b\<lparr>rv_last_rx_mode := m\<rparr>) = same_inbox a b"
  "same_inbox a (b\<lparr>rv_missed := n\<rparr>) = same_inbox a b" "same_inbox a (b\<lparr>rv_ack_history := h\<rparr>) = same_inbox a b"
  by (simp_all add: same_inbox_def count_rx_def marked_def)

lemma same_inbox_ops:
  "same_inbox rv (restart_rx rv)" "same_inbox rv (open_rx opener count fl rv)" "same_inbox rv (pieces_heard rv)"
  "same_inbox rv (measurement_heard new rv)" "same_inbox rv (note_opening ctl rv)" "same_inbox rv (take_measure q rv)"
  "same_inbox rv (note_data index rv)" "same_inbox rv (snd (observe records rv))" "same_inbox rv (note_seen q rv)"
  "same_inbox rv (trim_seen rv)" "same_inbox rv (snd (ack_fields rv))"
proof -
  have m: "same_inbox rv (measurement_heard new rv)" for new and rv :: "'a receiver"
    by (auto simp: measurement_heard_def same_inbox_def marked_def bit_simps)
  show "same_inbox rv (measurement_heard new rv)" by (rule m)
  show "same_inbox rv (restart_rx rv)" by (simp add: restart_rx_def)
  show "same_inbox rv (open_rx opener count fl rv)" by (simp add: open_rx_def Let_def)
  show "same_inbox rv (pieces_heard rv)" by (simp add: pieces_heard_def)
  show "same_inbox rv (note_opening ctl rv)"
    by (auto simp: note_opening_def m) (simp add: same_inbox_def marked_def)
  have "same_inbox (measurement_heard True rv) (take_measure q rv)"
    by (auto simp: take_measure_def Let_def same_inbox_def marked_def bit_simps split: option.split)
  with m show "same_inbox rv (take_measure q rv)" by (rule same_inbox_trans)
  show "same_inbox rv (note_data index rv)" by (simp add: note_data_def Let_def split: option.split)
  show "same_inbox rv (snd (observe records rv))" by (simp add: observe_def Let_def split: option.split)
  show "same_inbox rv (note_seen q rv)" by (simp add: note_seen_def)
  show "same_inbox rv (trim_seen rv)" by (simp add: trim_seen_def)
  show "same_inbox rv (snd (ack_fields rv))" by (simp add: ack_fields_def split: prod.split)
qed

text \<open>A payload that decoded: a block of the window is filed, an older one is not, filler is counted.\<close>

definition on_air :: "u8 \<Rightarrow> bytes list \<Rightarrow> nat \<Rightarrow> bytes \<Rightarrow> bool" where
  "on_air ses blks lo payload \<longleftrightarrow> filler payload \<or>
     (\<exists>n. lo \<le> n \<and> n < lo + 16 \<and> n < length blks \<and> carries ses blks n payload)"

lemma take_block_ok:
  assumes ok: "inbox_ok blks r rv" and rest: "rv_buf rv (of_nat r) = None"
    and n: "r \<le> n + 16" "n < r + 16" "n < length blks"
    and body: "case dh_piece h of None \<Rightarrow> body = blks ! n | Some p \<Rightarrow> slice_of p body (blks ! n)"
    and q: "dh_seq h = of_nat n"
  shows "\<exists>r'\<ge>r. inbox_ok blks r' (take_block h body rv) \<and> got r' (take_block h body rv) \<subseteq> got r rv \<union> {n} \<and>
    got r rv \<subseteq> got r' (take_block h body rv) \<and> rv_buf (take_block h body rv) (of_nat r') = None \<and>
    rv_session (take_block h body rv) = rv_session rv"
proof (cases "r \<le> n")
  case False
  then have "128 \<le> seq_distance (dh_seq h) (rv_base rv)"
    using seq_distance_behind [of n r] n(1) q inbox_okD(2) [OF ok] by simp
  then have "take_block h body rv = rv" by (simp add: take_block_def in_window_def)
  with ok rest show ?thesis by auto
next
  case True
  let ?seen = "note_seen (dh_seq h) rv"
  let ?filed = "file_block h body ?seen"
  have win: "in_window (dh_seq h) (rv_base rv) WINDOW"
    using seq_distance_of_nat [of r n] n True q inbox_okD(2) [OF ok] by (simp add: in_window_def)
  have s: "inbox_ok blks r ?seen" "got r ?seen = got r rv" "rv_session ?seen = rv_session rv"
    using same_inbox_ok [OF same_inbox_ops(9) ok] same_inbox_got [OF same_inbox_ops(9)]
      same_inbox_ops(9) [of rv "dh_seq h"] by (simp_all add: same_inbox_def)
  note f = file_block_ok [OF s(1) True n(2,3) body q]
  obtain r' where r': "r \<le> r'" "inbox_ok blks r' (deliver ?filed)" "got r' (deliver ?filed) = got r ?filed"
    "rv_buf (deliver ?filed) (of_nat r') = None" "rv_session (deliver ?filed) = rv_session ?filed"
    using deliver_ok f by blast
  have t: "take_block h body rv = trim_seen (deliver ?filed)" using win by (simp add: take_block_def)
  have "rv_buf (trim_seen (deliver ?filed)) = rv_buf (deliver ?filed)"
    "rv_session (trim_seen (deliver ?filed)) = rv_session (deliver ?filed)"
    using same_inbox_ops(10) [of "deliver ?filed"] by (simp_all add: same_inbox_def)
  then show ?thesis
    using r' f s(2,3) same_inbox_ok [OF same_inbox_ops(10) r'(2)] same_inbox_got [OF same_inbox_ops(10), of r' "deliver ?filed"]
    unfolding t by (intro exI [of _ r']) auto
qed

lemma accept_ok:
  assumes ok: "inbox_ok blks r rv" and rest: "rv_buf rv (of_nat r) = None"
    and air: "on_air (rv_session rv) blks lo payload" and lo: "r \<le> lo + 16" "lo \<le> r"
    and a: "accept payload late rv = (v, rv')"
  shows "\<exists>r'\<ge>r. inbox_ok blks r' rv' \<and> got r' rv' \<subseteq> got r rv \<union> {..<lo + 16} \<and> got r rv \<subseteq> got r' rv' \<and>
    rv_buf rv' (of_nat r') = None \<and> rv_session rv' = rv_session rv"
proof -
  have same: ?thesis if "same_inbox rv rv'"
    using same_inbox_ok [OF that ok] same_inbox_got [OF that] that rest by (intro exI [of _ r]) (auto simp: same_inbox_def)
  obtain h body where d: "decode_data payload = Inr (h, body)"
    and c: "dh_kind h = Measure \<or> (\<exists>n. lo \<le> n \<and> n < lo + 16 \<and> n < length blks \<and> dh_kind h = data_kind.Data \<and>
      dh_seq h = of_nat n \<and> dh_session h = rv_session rv \<and>
      (case dh_piece h of None \<Rightarrow> body = blks ! n | Some p \<Rightarrow> slice_of p body (blks ! n)))"
    using air unfolding on_air_def filler_def carries_def by force
  show ?thesis
  proof (cases "dh_kind h = Measure")
    case True
    then have "same_inbox rv rv'"
      using a d same_inbox_ops(6) by (auto simp: accept_def split: if_splits)
    then show ?thesis by (rule same)
  next
    case False
    with c obtain n where n: "lo \<le> n" "n < lo + 16" "n < length blks" "dh_kind h = data_kind.Data"
      "dh_seq h = of_nat n" "dh_session h = rv_session rv"
      "case dh_piece h of None \<Rightarrow> body = blks ! n | Some p \<Rightarrow> slice_of p body (blks ! n)" by blast
    define rv1 where "rv1 = (if late then rv else rv\<lparr>rv_measured := None\<rparr>)"
    define rv2 where "rv2 = count_rx (\<lambda>st. st\<lparr>frames_received := frames_received st + 1\<rparr>) rv1"
    define rv3 where "rv3 = (if dh_piece h \<noteq> None \<and> \<not> late then pieces_heard rv2 else rv2)"
    have rv': "rv' = take_block h body rv3"
      using a d n(4,6) unfolding rv1_def rv2_def rv3_def by (cases late) (auto simp: accept_def Let_def)
    have "same_inbox rv rv1" by (simp add: rv1_def same_inbox_def marked_def)
    then have "same_inbox rv rv2" by (simp add: rv2_def)
    then have s: "same_inbox rv rv3"
      using same_inbox_trans [OF _ same_inbox_ops(3)] by (auto simp: rv3_def)
    have rest3: "rv_buf rv3 (of_nat r) = None" using s rest by (simp add: same_inbox_def)
    have "r \<le> n + 16" "n < r + 16" using n(1,2) lo by simp_all
    from take_block_ok [OF same_inbox_ok [OF s ok] rest3 this n(3,7,5)]
    obtain r' where r': "r \<le> r'" "inbox_ok blks r' rv'" "got r' rv' \<subseteq> got r rv3 \<union> {n}" "got r rv3 \<subseteq> got r' rv'"
      "rv_buf rv' (of_nat r') = None" "rv_session rv' = rv_session rv3" unfolding rv' by blast
    with s n(2) show ?thesis
      unfolding same_inbox_got [OF s] by (intro exI [of _ r']) (auto simp: same_inbox_def)
  qed
qed

text \<open>A frame off the air: nothing of the window changes, but by a payload that one of its decodings gave.\<close>

lemma keep_frame_accepts:
  assumes "keep_frame index payload rv = (i, rv')"
  shows "\<exists>rv1 v rv2. same_inbox rv rv1 \<and> accept payload False rv1 = (v, rv2) \<and> same_inbox rv2 rv'"
proof -
  let ?rv1 = "rv\<lparr>rv_rx := (rv_rx rv)[index := (rv_rx rv ! index)\<lparr>rr_payload := Some payload\<rparr>]\<rparr>"
  obtain v rv2 where a: "accept payload False ?rv1 = (v, rv2)" by (cases "accept payload False ?rv1")
  then have "same_inbox rv2 rv'"
    using assms by (cases v) (auto simp: keep_frame_def)
  with a show ?thesis by (intro exI [of _ ?rv1]) auto
qed

lemma combine_copy_accepts:
  assumes "combine_copy soft buffer index guess rv = (i, rv')"
  shows "same_inbox rv rv' \<or> (\<exists>buf payload rv1 v rv2. fst (sf_decode soft buf) = Some payload \<and>
    same_inbox rv rv1 \<and> accept payload False rv1 = (v, rv2) \<and> same_inbox rv2 rv')"
proof -
  define held where "held = (case rv_harq rv guess of
     None \<Rightarrow> None | Some (b, n, m) \<Rightarrow> if m \<noteq> hd_mode (sf_heard soft) then None else Some (b, n))"
  show ?thesis
  proof (cases held)
    case None
    then show ?thesis using assms unfolding combine_copy_def Let_def held_def [symmetric] by auto
  next
    case (Some h)
    obtain prev combines where h: "h = (prev, combines)" by (cases h)
    obtain dec merged where d: "sf_decode soft (Some prev) = (dec, merged)" by (cases "sf_decode soft (Some prev)")
    show ?thesis
    proof (cases dec)
      case none: None
      then show ?thesis
        using assms unfolding combine_copy_def Let_def held_def [symmetric] Some h by (auto simp: d none)
    next
      case (Some payload)
      let ?rv = "rv\<lparr>rv_rx := (rv_rx rv)[index := (rv_rx rv ! index)\<lparr>rr_combined := True\<rparr>]\<rparr>"
      have "keep_frame index payload (count_rx (\<lambda>st. st\<lparr>harq_rescues := harq_rescues st + 1\<rparr>) ?rv) = (i, rv')"
        using assms Some unfolding combine_copy_def Let_def held_def [symmetric] \<open>held = Some h\<close> h by (simp add: d)
      from keep_frame_accepts [OF this] obtain rv1 v rv2 where k: "same_inbox (count_rx
          (\<lambda>st. st\<lparr>harq_rescues := harq_rescues st + 1\<rparr>) ?rv) rv1"
        "accept payload False rv1 = (v, rv2)" "same_inbox rv2 rv'" by blast
      have "same_inbox rv rv1" by (rule same_inbox_trans [OF _ k(1)]) simp
      moreover have "fst (sf_decode soft (Some prev)) = Some payload" using d Some by simp
      ultimately show ?thesis using k(2,3) by blast
    qed
  qed
qed

lemma take_data_accepts:
  assumes "take_data soft rv = (i, rv')"
  shows "same_inbox rv rv' \<or> (\<exists>buf payload rv1 v rv2. fst (sf_decode soft buf) = Some payload \<and>
    same_inbox rv rv1 \<and> accept payload False rv1 = (v, rv2) \<and> same_inbox rv2 rv')"
proof -
  consider "same_inbox rv rv'"
    | payload rv0 index where "fst (sf_decode soft None) = Some payload" "same_inbox rv rv0"
        "keep_frame index payload rv0 = (i, rv')"
    | buffer index guess rv0 where "same_inbox rv rv0" "combine_copy soft buffer index guess rv0 = (i, rv')"
  proof (cases "fst (sf_decode soft None)")
    case (Some payload)
    have "\<exists>t0 x. keep_frame (length (rv_rx rv)) payload (rv\<lparr>rv_rx_t0 := Some t0, rv_rx := rv_rx rv @ [x]\<rparr>) = (i, rv')"
      using assms Some unfolding take_data_def Let_def by (cases "sf_decode soft None") (simp, blast)
    then obtain t0 x where "keep_frame (length (rv_rx rv)) payload (rv\<lparr>rv_rx_t0 := Some t0, rv_rx := rv_rx rv @ [x]\<rparr>) = (i, rv')"
      by blast
    then show ?thesis by (rule that(2) [OF Some, rotated]) simp
  next
    case None
    have "same_inbox rv rv' \<or> (\<exists>buffer index guess t0 rx. combine_copy soft buffer index guess
        (rv\<lparr>rv_rx_t0 := Some t0, rv_rx := rx\<rparr>) = (i, rv'))"
      using assms None unfolding take_data_def Let_def
      by (cases "sf_decode soft None") (auto split: if_splits option.splits)
    then show ?thesis
    proof (elim disjE exE)
      fix buffer index guess t0 rx
      assume "combine_copy soft buffer index guess (rv\<lparr>rv_rx_t0 := Some t0, rv_rx := rx\<rparr>) = (i, rv')"
      then show ?thesis by (rule that(3) [rotated]) simp
    qed (rule that(1))
  qed
  then show ?thesis
  proof cases
    case 2
    then show ?thesis by (metis keep_frame_accepts same_inbox_trans)
  next
    case 3
    with combine_copy_accepts [OF 3(2)] show ?thesis by (blast intro: same_inbox_trans)
  qed simp
qed

text \<open>The acknowledgement of a window.\<close>

lemma window_bitmap:
  "k < 16 \<Longrightarrow> bit (fst (receive_window rv)) k \<longleftrightarrow> rv_buf rv (seq_after (rv_base rv) (of_nat k)) \<noteq> None"
proof -
  have "bit (foldl (\<lambda>w i. if P i then w OR push_bit i 1 else w) (0 :: u16) [0..<n]) k \<longleftrightarrow> k < n \<and> k < 16 \<and> P k"
    for P n k
    by (induction n) (auto simp: bit_simps less_Suc_eq)
  then show "k < 16 \<Longrightarrow> ?thesis" by (simp add: receive_window_def Let_def)
qed

end
