(* ===== verification/Session.thy ===== *)
theory Session
  imports Receiver_Laws
begin

text \<open>
  One direction of a session: a sender, a receiver, and what is on the air between them, in both
  directions.  Frames may be lost, heard without decoding, decoded late or heard more than once, but
  not out of order: a transmission is over before the next begins.  The rest of the engine (slots,
  timers, rates, families) may change everything of the two halves but the windows themselves.

  The abstract specification is a byte pipe: what has been given, and what has come out.
\<close>

section \<open>The abstract pipe\<close>

record pipe =
  pp_given :: bytes
  pp_out :: bytes

inductive pipe_step :: "pipe \<Rightarrow> pipe \<Rightarrow> bool" where
  Give: "pipe_step p (p\<lparr>pp_given := pp_given p @ d\<rparr>)"
| Emit: "pp_given p = pp_out p @ d @ rest \<Longrightarrow> pipe_step p (p\<lparr>pp_out := pp_out p @ d\<rparr>)"

definition pipe_empty :: pipe where
  "pipe_empty = \<lparr>pp_given = [], pp_out = []\<rparr>"

lemma pipe_prefix:
  assumes "pipe_step\<^sup>*\<^sup>* pipe_empty p" shows "\<exists>rest. pp_given p = pp_out p @ rest"
  using assms
proof (induction rule: rtranclp_induct)
  case (step p p')
  from step(2) step(3) show ?case by cases auto
qed (simp add: pipe_empty_def)

section \<open>The two halves and the air\<close>

record 'h link =
  lk_given :: bytes
  lk_tx :: sender
  lk_rx :: "'h receiver"
  lk_air :: "bytes list"
  lk_acks :: "bytes list"

text \<open>Both halves as \<open>reset_session\<close> leaves them; what was queued before stays queued.\<close>

definition link_start :: "'h link \<Rightarrow> bool" where
  "link_start l \<longleftrightarrow> lk_given l = sn_queue (lk_tx l) \<and> lk_air l = [] \<and> lk_acks l = [] \<and>
     sn_session (lk_tx l) = rv_session (lk_rx l) \<and>
     sn_records (lk_tx l) = Map.empty \<and> sn_base (lk_tx l) = 0 \<and> sn_next (lk_tx l) = 0 \<and>
     rv_base (lk_rx l) = 0 \<and> rv_buf (lk_rx l) = Map.empty \<and> rv_pieces (lk_rx l) = Map.empty \<and>
     rv_measured (lk_rx l) = None \<and> rv_delivered (lk_rx l) = []"

text \<open>A soft frame decodes, alone or combined, to what was sent or not at all: its checksum vouches for it.\<close>

definition decodes_to :: "'h soft_frame \<Rightarrow> bytes \<Rightarrow> bool" where
  "decodes_to soft payload \<longleftrightarrow> (\<forall>buf p. fst (sf_decode soft buf) = Some p \<longrightarrow> p = payload)"

text \<open>The header or answer that carries an acknowledgement, whatever else it says.\<close>

definition carries_ack :: "grant_frame \<Rightarrow> u8 \<times> u16 \<Rightarrow> bool" where
  "carries_ack g ack \<longleftrightarrow> gf_kind g \<in> {Header, Answer} \<and> gf_base g = fst ack \<and> gf_bitmap g = snd ack"

inductive link_step :: "'h link \<Rightarrow> 'h link \<Rightarrow> bool" where
  Send: "link_step l (l\<lparr>lk_given := lk_given l @ d, lk_tx := enqueue d (lk_tx l)\<rparr>)"
| Transmit: "data_frames room_s (lk_tx l) = Some (fs, tx) \<Longrightarrow>
    link_step l (l\<lparr>lk_tx := tx, lk_air := lk_air l @ map tx_payload fs\<rparr>)"
| Unheard: "link_step l (l\<lparr>lk_tx := mark_unknown (lk_tx l)\<rparr>)"
| Retune: "same_window (lk_tx l) tx \<Longrightarrow> link_step l (l\<lparr>lk_tx := tx\<rparr>)"
| Fade: "lk_air l = f # fs \<Longrightarrow> link_step l (l\<lparr>lk_air := fs\<rparr>)"
| Hear: "lk_air l = f # fs \<Longrightarrow> decodes_to soft f \<Longrightarrow> take_data soft (lk_rx l) = (i, rx) \<Longrightarrow>
    air \<in> {fs, f # fs} \<Longrightarrow> link_step l (l\<lparr>lk_rx := rx, lk_air := air\<rparr>)"
| Late: "lk_air l = f # fs \<Longrightarrow> accept f True (lk_rx l) = (v, rx) \<Longrightarrow>
    link_step l (l\<lparr>lk_rx := rx, lk_air := fs\<rparr>)"
| Listen: "same_inbox (lk_rx l) rx \<Longrightarrow> link_step l (l\<lparr>lk_rx := rx\<rparr>)"
| Answer: "ack_fields (lk_rx l) = (ack, rx) \<Longrightarrow> carries_ack g ack \<Longrightarrow>
    link_step l (l\<lparr>lk_rx := rx, lk_acks := lk_acks l @ [grant_encode g]\<rparr>)"
| Fade_ack: "lk_acks l = w # ws \<Longrightarrow> link_step l (l\<lparr>lk_acks := ws\<rparr>)"
| Take: "lk_acks l = w # ws \<Longrightarrow> grant_decode w = Inr ctl \<Longrightarrow>
    take_ack ctl fresh patience (lk_tx l) = Some tx \<Longrightarrow> acks \<in> {ws, w # ws} \<Longrightarrow>
    link_step l (l\<lparr>lk_tx := tx, lk_acks := acks\<rparr>)"

text \<open>What a link shows of a pipe.\<close>

definition pipe_of :: "'h link \<Rightarrow> pipe" where
  "pipe_of l = \<lparr>pp_given = lk_given l, pp_out = concat (rv_delivered (lk_rx l))\<rparr>"

section \<open>Its invariant\<close>

text \<open>
  Every frame on the air was laid out when the window began at \<open>lo\<close>, no later than now, and later
  frames no earlier; no block at or past \<open>lo + 16\<close> can have been heard before it.
\<close>

definition air_ok :: "u8 \<Rightarrow> bytes list \<Rightarrow> nat \<Rightarrow> nat \<Rightarrow> bytes list \<Rightarrow> bool" where
  "air_ok ses blks b reach air \<longleftrightarrow> (\<exists>los. sorted los \<and>
     list_all2 (\<lambda>f lo. lo \<le> b \<and> reach \<le> lo + 16 \<and> on_air ses blks lo f) air los)"

text \<open>
  Every acknowledgement on the air says what had been received when it was sent: blocks \<open>s\<close>, all below
  \<open>r\<close> among them but not \<open>r\<close> itself; later ones say no less.
\<close>

definition says :: "bytes \<Rightarrow> nat \<times> nat set \<Rightarrow> bool" where
  "says w rs = (case rs of (r, s) \<Rightarrow> (\<exists>ctl. grant_decode w = Inr ctl \<and> gf_base ctl = of_nat r \<and>
     (\<forall>k<16. \<not> reports ctl \<and> bit (gf_bitmap ctl) k \<longrightarrow> r + k \<in> s)) \<and> {..<r} \<subseteq> s \<and> r \<notin> s)"

definition acks_ok :: "nat set \<Rightarrow> nat set \<Rightarrow> bytes list \<Rightarrow> bool" where
  "acks_ok old now acks \<longleftrightarrow> (\<exists>rss. list_all2 says acks rss \<and> sorted_wrt (\<lambda>x y. snd x \<subseteq> snd y) rss \<and>
     (\<forall>rs\<in>set rss. old \<subseteq> snd rs \<and> snd rs \<subseteq> now))"

definition link_at :: "bytes list \<Rightarrow> nat \<Rightarrow> nat \<Rightarrow> nat \<Rightarrow> 'h link \<Rightarrow> bool" where
  "link_at blks b r reach l \<longleftrightarrow> lk_given l = concat blks @ sn_queue (lk_tx l) \<and> window_ok blks b (lk_tx l) \<and>
     inbox_ok blks r (lk_rx l) \<and> rv_buf (lk_rx l) (of_nat r) = None \<and>
     sn_session (lk_tx l) = rv_session (lk_rx l) \<and>
     got r (lk_rx l) \<subseteq> {..<reach} \<and> reach \<le> length blks \<and>
     settled b (length blks) (lk_tx l) \<subseteq> got r (lk_rx l) \<and>
     air_ok (rv_session (lk_rx l)) blks b reach (lk_air l) \<and>
     acks_ok (settled b (length blks) (lk_tx l)) (got r (lk_rx l)) (lk_acks l)"

definition link_inv :: "'h link \<Rightarrow> bool" where
  "link_inv l \<longleftrightarrow> (\<exists>blks b r reach. link_at blks b r reach l)"

lemma link_atD:
  assumes "link_at blks b r reach l"
  shows "lk_given l = concat blks @ sn_queue (lk_tx l)" "window_ok blks b (lk_tx l)"
    "inbox_ok blks r (lk_rx l)" "rv_buf (lk_rx l) (of_nat r) = None" "sn_session (lk_tx l) = rv_session (lk_rx l)"
    "got r (lk_rx l) \<subseteq> {..<reach}" "reach \<le> length blks"
    "settled b (length blks) (lk_tx l) \<subseteq> got r (lk_rx l)"
    "air_ok (rv_session (lk_rx l)) blks b reach (lk_air l)"
    "acks_ok (settled b (length blks) (lk_tx l)) (got r (lk_rx l)) (lk_acks l)"
  using assms by (simp_all add: link_at_def)

lemma link_invI:
  assumes "lk_given l = concat blks @ sn_queue (lk_tx l)" "window_ok blks b (lk_tx l)"
    "inbox_ok blks r (lk_rx l)" "rv_buf (lk_rx l) (of_nat r) = None" "sn_session (lk_tx l) = rv_session (lk_rx l)"
    "got r (lk_rx l) \<subseteq> {..<reach}" "reach \<le> length blks"
    "settled b (length blks) (lk_tx l) \<subseteq> got r (lk_rx l)"
    "air_ok (rv_session (lk_rx l)) blks b reach (lk_air l)"
    "acks_ok (settled b (length blks) (lk_tx l)) (got r (lk_rx l)) (lk_acks l)"
  shows "link_inv l"
  using assms unfolding link_inv_def link_at_def by blast

lemma link_invE:
  assumes "link_inv l" obtains blks b r reach where "link_at blks b r reach l"
  using assms unfolding link_inv_def by blast

text \<open>The parts of the invariant grow with the session.\<close>

lemma on_air_append: "on_air ses blks lo f \<Longrightarrow> on_air ses (blks @ new) lo f"
  unfolding on_air_def by (metis carries_append length_append trans_less_add1)

lemma air_ok_mono:
  assumes "air_ok ses blks b reach air" "b \<le> b'" "reach' \<le> reach" shows "air_ok ses (blks @ new) b' reach' air"
proof -
  obtain los where "sorted los"
    and l: "list_all2 (\<lambda>f lo. lo \<le> b \<and> reach \<le> lo + 16 \<and> on_air ses blks lo f) air los"
    using assms(1) unfolding air_ok_def by blast
  moreover have "list_all2 (\<lambda>f lo. lo \<le> b' \<and> reach' \<le> lo + 16 \<and> on_air ses (blks @ new) lo f) air los"
    using l by (rule list_all2_mono) (use assms(2,3) on_air_append in auto)
  ultimately show ?thesis unfolding air_ok_def by blast
qed

lemma air_ok_same: "air_ok ses blks b reach air \<Longrightarrow> b \<le> b' \<Longrightarrow> air_ok ses blks b' reach air"
  using air_ok_mono [of ses blks b reach air b' reach "[]"] by simp

lemma air_ok_add:
  assumes air: "air_ok ses blks b reach air" and new: "\<forall>f\<in>set fs. on_air ses blks b f" and "reach \<le> b + 16"
  shows "air_ok ses blks b reach (air @ fs)"
proof -
  obtain los where s: "sorted los"
    and l: "list_all2 (\<lambda>f lo. lo \<le> b \<and> reach \<le> lo + 16 \<and> on_air ses blks lo f) air los"
    using air unfolding air_ok_def by blast
  have "\<forall>lo\<in>set los. lo \<le> b" using l by (auto simp: list_all2_conv_all_nth in_set_conv_nth)
  then have "sorted (los @ replicate (length fs) b)" using s by (auto simp: sorted_append)
  moreover have "list_all2 (\<lambda>f lo. lo \<le> b \<and> reach \<le> lo + 16 \<and> on_air ses blks lo f) fs (replicate (length fs) b)"
    using new assms(3) by (auto simp: list_all2_conv_all_nth)
  ultimately show ?thesis unfolding air_ok_def using l by (blast intro: list_all2_appendI)
qed

lemma air_ok_Cons:
  assumes "air_ok ses blks b reach (f # fs)"
  shows "\<exists>lo. lo \<le> b \<and> reach \<le> lo + 16 \<and> on_air ses blks lo f \<and>
    air_ok ses blks b (lo + 16) fs \<and> air_ok ses blks b (lo + 16) (f # fs)"
proof -
  obtain lo los where s: "sorted (lo # los)" and l: "lo \<le> b" "reach \<le> lo + 16" "on_air ses blks lo f"
      "list_all2 (\<lambda>f lo. lo \<le> b \<and> reach \<le> lo + 16 \<and> on_air ses blks lo f) fs los"
    using assms unfolding air_ok_def by (auto simp: list_all2_Cons1)
  have "list_all2 (\<lambda>f lo'. lo' \<le> b \<and> lo + 16 \<le> lo' + 16 \<and> on_air ses blks lo' f) fs los"
    using l(4) s by (auto simp: list_all2_conv_all_nth)
  with s l(1,3) show ?thesis
    using l(2) unfolding air_ok_def
    by (intro exI [of _ lo] conjI exI [of _ los] exI [of _ "lo # los"]) auto
qed

lemma acks_ok_mono:
  assumes "acks_ok old now acks" "old' \<subseteq> old" "now \<subseteq> now'" shows "acks_ok old' now' acks"
  using assms unfolding acks_ok_def by (meson order_trans)

lemma acks_ok_add:
  assumes "acks_ok old now acks" "says w (r, now)" "old \<subseteq> now" shows "acks_ok old now (acks @ [w])"
proof -
  obtain rss where r: "list_all2 says acks rss" "sorted_wrt (\<lambda>x y. snd x \<subseteq> snd y) rss"
    "\<forall>rs\<in>set rss. old \<subseteq> snd rs \<and> snd rs \<subseteq> now" using assms(1) unfolding acks_ok_def by blast
  with assms(2,3) show ?thesis unfolding acks_ok_def
    by (intro exI [of _ "rss @ [(r, now)]"]) (auto simp: sorted_wrt_append list_all2_appendI)
qed

lemma acks_ok_Cons:
  assumes "acks_ok old now (w # ws)"
  shows "\<exists>r s. says w (r, s) \<and> old \<subseteq> s \<and> s \<subseteq> now \<and> acks_ok s now ws \<and> acks_ok s now (w # ws)"
proof -
  obtain rs rss where "says w rs" "list_all2 says ws rss" "sorted_wrt (\<lambda>x y. snd x \<subseteq> snd y) (rs # rss)"
    "\<forall>rs\<in>set (rs # rss). old \<subseteq> snd rs \<and> snd rs \<subseteq> now"
    using assms unfolding acks_ok_def by (auto simp: list_all2_Cons1)
  then show ?thesis unfolding acks_ok_def
    by (intro exI [of _ "fst rs"] exI [of _ "snd rs"] conjI exI [of _ rss] exI [of _ "rs # rss"]) auto
qed

section \<open>Its steps\<close>

lemma got_self: "r \<in> got r rv \<longleftrightarrow> rv_buf rv (of_nat r) \<noteq> None"
  by (simp add: got_def)

lemma got_known:
  assumes ok: "inbox_ok blks r rv" shows "got r rv \<subseteq> {..<length blks}"
proof
  fix i assume i: "i \<in> got r rv"
  show "i \<in> {..<length blks}"
  proof (cases "i < r")
    case True
    with inbox_okD(1) [OF ok] show ?thesis by simp
  next
    case False
    with i obtain body where b: "r \<le> i" "i < r + 16" "rv_buf rv (of_nat i) = Some body" by (auto simp: got_def)
    then obtain j where "r \<le> j" "j < r + 16" "j < length blks" "of_nat i = (of_nat j :: u8)"
      using inbox_okD(4) [OF ok] by blast
    with inbox_numbers [of i j r] b show ?thesis by simp
  qed
qed

lemma inbox_append:
  assumes ok: "inbox_ok blks r rv" shows "inbox_ok (blks @ new) r rv"
proof -
  note D = inbox_okD [OF ok]
  have "concat (take r (blks @ new)) = concat (take r blks)" using D(1) by simp
  moreover have "\<exists>i. r \<le> i \<and> i < r + 16 \<and> i < length (blks @ new) \<and> q = of_nat i \<and> body = (blks @ new) ! i"
    if qb: "rv_buf rv q = Some body" for q body
  proof -
    obtain i where i: "r \<le> i" "i < r + 16" "i < length blks" "q = of_nat i" "body = blks ! i" using D(4) [OF qb] by blast
    then show ?thesis by (intro exI [of _ i]) (simp add: nth_append)
  qed
  moreover have "\<exists>i. r \<le> i \<and> i < r + 16 \<and> i < length (blks @ new) \<and> q = of_nat i \<and> held_ok ((blks @ new) ! i) h"
    if qh: "rv_pieces rv q = Some h" for q h
  proof -
    obtain i where i: "r \<le> i" "i < r + 16" "i < length blks" "q = of_nat i" "held_ok (blks ! i) h" using D(5) [OF qh] by blast
    then show ?thesis by (intro exI [of _ i]) (simp add: nth_append)
  qed
  ultimately show ?thesis using D(1-3,6) by (simp add: inbox_ok_def)
qed

text \<open>A frame heard, whichever way: the receiver's window moves on, and what it holds grows.\<close>

lemma heard_ok:
  assumes inv: "link_inv l" and air: "lk_air l = f # fs" and a: "accept f late rv0 = (v, rv1)"
    and before: "same_inbox (lk_rx l) rv0" and after: "same_inbox rv1 rx" and keep: "air \<in> {fs, f # fs}"
  shows "link_inv (l\<lparr>lk_rx := rx, lk_air := air\<rparr>)"
proof -
  obtain blks b r reach where "link_at blks b r reach l" using inv by (rule link_invE)
  note I = link_atD [OF this, unfolded air]
  obtain lo where lo: "lo \<le> b" "reach \<le> lo + 16" "on_air (rv_session (lk_rx l)) blks lo f"
    "air_ok (rv_session (lk_rx l)) blks b (lo + 16) fs" "air_ok (rv_session (lk_rx l)) blks b (lo + 16) (f # fs)"
    using air_ok_Cons [OF I(9)] by blast
  have "{..<b} \<subseteq> got r (lk_rx l)" using I(8) by (auto simp: settled_def)
  then have "b \<le> r" using got_self [of r "lk_rx l"] I(4) by (metis lessThan_iff not_le subsetD)
  have "{..<r} \<subseteq> got r (lk_rx l)" by (auto simp: got_def)
  then have "{..<r} \<subseteq> {..<reach}" using I(6) by (rule subset_trans)
  then have "r \<le> reach" by simp
  have s0: "rv_session rv0 = rv_session (lk_rx l)" "rv_buf rv0 = rv_buf (lk_rx l)" using before by (simp_all add: same_inbox_def)
  have ok0: "inbox_ok blks r rv0" by (rule same_inbox_ok [OF before I(3)])
  have "rv_buf rv0 (of_nat r) = None" "on_air (rv_session rv0) blks lo f" "r \<le> lo + 16" "lo \<le> r"
    using I(4) lo(1-3) s0 \<open>b \<le> r\<close> \<open>r \<le> reach\<close> by simp_all
  from accept_ok [OF ok0 this a] obtain r' where r': "r \<le> r'" "inbox_ok blks r' rv1"
    "got r' rv1 \<subseteq> got r (lk_rx l) \<union> {..<lo + 16}" "got r (lk_rx l) \<subseteq> got r' rv1"
    "rv_buf rv1 (of_nat r') = None" "rv_session rv1 = rv_session (lk_rx l)"
    unfolding same_inbox_got [OF before] s0 by blast
  have rx: "inbox_ok blks r' rx" "got r' rx = got r' rv1" "rv_buf rx (of_nat r') = None" "rv_session rx = rv_session (lk_rx l)"
    using same_inbox_ok [OF after r'(2)] same_inbox_got [OF after] after r'(5,6) by (simp_all add: same_inbox_def)
  have "got r' rx \<subseteq> {..<min (lo + 16) (length blks)}"
    using got_known [OF rx(1)] r'(3) I(6) lo(2) unfolding rx(2) by fastforce
  moreover have "air_ok (rv_session (lk_rx l)) blks b (min (lo + 16) (length blks)) air"
    using keep lo(4,5) air_ok_mono [of _ blks b "lo + 16" _ b "min (lo + 16) (length blks)" "[]"] by auto
  ultimately show ?thesis
    using I(1,2,5,8) rx r'(4) acks_ok_mono [OF I(10) subset_refl r'(4)]
    by (intro link_invI [of _ blks b r' "min (lo + 16) (length blks)"]) auto
qed

text \<open>An acknowledgement names only blocks received when it was sent.\<close>

lemma says_received:
  assumes w: "says w (r, s)" "grant_decode w = Inr ctl" and i: "i < n" "n \<le> b + 16" "b \<le> i" and "{..<b} \<subseteq> s"
    and rec: "received ctl (of_nat i)"
  shows "i \<in> s"
proof (cases "i < r")
  case True
  with w(1) show ?thesis by (auto simp: says_def)
next
  case False
  have base: "gf_base ctl = of_nat r" and bits: "\<And>k. k < 16 \<Longrightarrow> \<not> reports ctl \<Longrightarrow> bit (gf_bitmap ctl) k \<Longrightarrow> r + k \<in> s"
    and r: "r \<notin> s"
    using w by (auto simp: says_def)
  have "b \<le> r" using r assms(6) by (metis lessThan_iff not_le subsetD)
  then have k: "i - r < 16" using i by simp
  have "seq_distance (of_nat i) (gf_base ctl) = i - r"
    unfolding base using False k by (intro seq_distance_of_nat) simp_all
  then have "\<not> reports ctl" "bit (gf_bitmap ctl) (i - r)"
    using rec k unfolding received_iff by auto
  with bits [OF k] False show ?thesis by simp
qed

lemma answer_says:
  assumes ok: "inbox_ok blks r rv" and rest: "rv_buf rv (of_nat r) = None"
    and a: "ack_fields rv = (ack, rv')" and g: "carries_ack g ack"
  shows "says (grant_encode g) (r, got r rv)"
proof -
  obtain bm missing nn where w: "receive_window rv = (bm, missing, nn)" by (cases "receive_window rv")
  have ack: "fst ack = of_nat r" "snd ack = (case rv_measured rv of None \<Rightarrow> fst (receive_window rv) | Some w \<Rightarrow> w)"
    using a inbox_okD(2) [OF ok] by (cases "rv_measured rv"; auto simp: ack_fields_def w)+
  have c: "gf_base (grant_canon g) = fst ack" "gf_bitmap (grant_canon g) = snd ack"
    using g by (auto simp: grant_canon_def carries_ack_def)
  have "r + k \<in> got r rv" if k: "k < 16" "\<not> reports (grant_canon g)" "bit (gf_bitmap (grant_canon g)) k" for k
  proof (cases "rv_measured rv")
    case None
    with k(3) c(2) ack(2) have "rv_buf rv (seq_after (rv_base rv) (of_nat k)) \<noteq> None"
      using window_bitmap [OF k(1), of rv] by simp
    with k(1) inbox_okD(2) [OF ok] show ?thesis by (simp add: got_def seq_after_def)
  next
    case (Some w)
    then have "bit w 0" using inbox_okD(6) [OF ok] by (simp add: marked_def)
    with k(2) Some c(2) ack(2) show ?thesis by (simp add: reports_bit)
  qed
  with c ack(1) rest show ?thesis
    unfolding says_def by (auto simp: grant_decode_encode got_def)
qed

lemma on_air_of_window:
  assumes "of_window ses blks b f" "length blks \<le> b + 16" shows "on_air ses blks b (tx_payload f)"
  using assms unfolding of_window_def on_air_def by (meson order_less_le_trans)

lemma transmit_ok:
  assumes inv: "link_inv l" and d: "data_frames room_s (lk_tx l) = Some (fs, tx)"
  shows "link_inv (l\<lparr>lk_tx := tx, lk_air := lk_air l @ map tx_payload fs\<rparr>)"
  using inv
proof (rule link_invE)
  fix blks b r reach
  assume at: "link_at blks b r reach l"
  note I = link_atD [OF at]
  obtain new where new: "window_ok (blks @ new) b tx" "concat new @ sn_queue tx = sn_queue (lk_tx l)"
    "sn_session tx = sn_session (lk_tx l)" "\<forall>f\<in>set fs. of_window (sn_session (lk_tx l)) (blks @ new) b f"
    and g: "grows (lk_tx l) tx"
    using data_frames_ok [OF I(2) d] by blast
  let ?n = "length (blks @ new)"
  have s: "settled b ?n tx \<subseteq> settled b (length blks) (lk_tx l)" by (rule settled_grows [OF I(2) g new(1)])
  note W = window_okD [OF new(1)]
  have frames: "\<forall>f\<in>set (map tx_payload fs). on_air (rv_session (lk_rx l)) (blks @ new) b f"
    using new(4) on_air_of_window [OF _ W(2)] I(5) by auto
  have "reach \<le> b + 16" using I(7) W(2) by simp
  then have "air_ok (rv_session (lk_rx l)) (blks @ new) b reach (lk_air l @ map tx_payload fs)"
    by (intro air_ok_add frames air_ok_mono [OF I(9)]) simp_all
  then show ?thesis
    using I new s inbox_append [OF I(3)] acks_ok_mono [OF I(10) s subset_refl]
    by (intro link_invI [of _ "blks @ new" b r reach]) auto
qed

lemma take_ok:
  assumes inv: "link_inv l" and acks: "lk_acks l = w # ws" and g: "grant_decode w = Inr ctl"
    and d: "take_ack ctl fresh patience (lk_tx l) = Some tx" and keep: "acks \<in> {ws, w # ws}"
  shows "link_inv (l\<lparr>lk_tx := tx, lk_acks := acks\<rparr>)"
  using inv
proof (rule link_invE)
  fix blks b r reach
  assume at: "link_at blks b r reach l"
  note I = link_atD [OF at]
  obtain r0 s where s: "says w (r0, s)" "settled b (length blks) (lk_tx l) \<subseteq> s" "s \<subseteq> got r (lk_rx l)"
    "acks_ok s (got r (lk_rx l)) ws" "acks_ok s (got r (lk_rx l)) (w # ws)"
    using acks_ok_Cons I(10) unfolding acks by blast
  obtain b' where b': "b \<le> b'" "window_ok blks b' tx" "sn_queue tx = sn_queue (lk_tx l)" "sn_session tx = sn_session (lk_tx l)"
    "settled b' (length blks) tx \<subseteq> settled b (length blks) (lk_tx l) \<union>
       {i. b \<le> i \<and> i < length blks \<and> received ctl (of_nat i)}"
    using take_ack_ok [OF I(2) d] by blast
  have "{..<b} \<subseteq> s" using s(2) by (auto simp: settled_def)
  then have "settled b' (length blks) tx \<subseteq> s"
    using b'(5) s(2) says_received [OF s(1) g _ window_okD(2) [OF I(2)]] by blast
  then show ?thesis
    using I b' s keep air_ok_same [OF I(9) b'(1)] acks_ok_mono [of s _ acks "settled b' (length blks) tx"]
    by (intro link_invI [of _ blks b' r reach]) auto
qed

lemma mark_unknown_keeps: "keeps s (mark_unknown s)"
proof -
  have "rel_option same_block x (map_option (\<lambda>r. if c then r\<lparr>tr_unknown := True\<rparr> else r) x)" for x c
    by (cases x) (simp_all add: same_block_pieces)
  then show ?thesis by (simp add: keeps_def mark_unknown_def)
qed

lemma retune_ok:
  assumes inv: "link_inv l" and k: "keeps (lk_tx l) tx" shows "link_inv (l\<lparr>lk_tx := tx\<rparr>)"
  using inv
proof (rule link_invE)
  fix blks b r reach
  assume at: "link_at blks b r reach l"
  note I = link_atD [OF at]
  have w: "window_ok blks b tx" by (rule keeps_window [OF I(2) k])
  have s: "settled b (length blks) tx \<subseteq> settled b (length blks) (lk_tx l)"
    using settled_grows [OF I(2) keeps_grows [OF k], of "[]"] w by simp
  show ?thesis
    using I w s k acks_ok_mono [OF I(10) s subset_refl]
    by (intro link_invI [of _ blks b r reach]) (auto simp: keeps_def)
qed

lemma listen_ok:
  assumes inv: "link_inv l" and same: "same_inbox (lk_rx l) rx"
  shows "link_inv (l\<lparr>lk_rx := rx\<rparr>)"
  using inv
proof (rule link_invE)
  fix blks b r reach
  assume at: "link_at blks b r reach l"
  note I = link_atD [OF at]
  have "rv_buf rx = rv_buf (lk_rx l)" "rv_session rx = rv_session (lk_rx l)" using same by (simp_all add: same_inbox_def)
  then show ?thesis
    using I same_inbox_ok [OF same I(3)] same_inbox_got [OF same]
    by (intro link_invI [of _ blks b r reach]) auto
qed

lemma fade_ok:
  assumes inv: "link_inv l" and "lk_air l = f # fs" shows "link_inv (l\<lparr>lk_air := fs\<rparr>)"
  using inv
proof (rule link_invE)
  fix blks b r reach
  assume at: "link_at blks b r reach l"
  note I = link_atD [OF at]
  have "air_ok (rv_session (lk_rx l)) blks b reach fs"
    using air_ok_Cons [of "rv_session (lk_rx l)" blks b reach f fs] air_ok_mono [where new = "[]"] I(9) assms(2)
    by (metis append_Nil2 order_refl)
  with I show ?thesis by (intro link_invI [of _ blks b r reach]) auto
qed

lemma fade_ack_ok:
  assumes inv: "link_inv l" and "lk_acks l = w # ws" shows "link_inv (l\<lparr>lk_acks := ws\<rparr>)"
  using inv
proof (rule link_invE)
  fix blks b r reach
  assume at: "link_at blks b r reach l"
  note I = link_atD [OF at]
  obtain s where "settled b (length blks) (lk_tx l) \<subseteq> s" "acks_ok s (got r (lk_rx l)) ws"
    using acks_ok_Cons I(10) assms(2) by metis
  then have "acks_ok (settled b (length blks) (lk_tx l)) (got r (lk_rx l)) ws" by (meson acks_ok_mono subset_refl)
  with I show ?thesis by (intro link_invI [of _ blks b r reach]) auto
qed

lemma answer_ok:
  assumes inv: "link_inv l" and a: "ack_fields (lk_rx l) = (ack, rx)" and g: "carries_ack g ack"
  shows "link_inv (l\<lparr>lk_rx := rx, lk_acks := lk_acks l @ [grant_encode g]\<rparr>)"
proof -
  have "link_inv (l\<lparr>lk_acks := lk_acks l @ [grant_encode g]\<rparr>)"
    using inv
  proof (rule link_invE)
    fix blks b r reach
    assume at: "link_at blks b r reach l"
    note I = link_atD [OF at]
    from I show ?thesis
      using acks_ok_add [OF I(10) answer_says [OF I(3,4) a g] I(8)]
      by (intro link_invI [of _ blks b r reach]) auto
  qed
  moreover have "same_inbox (lk_rx l) rx" using same_inbox_ops(11) [of "lk_rx l"] a by simp
  ultimately have "link_inv (l\<lparr>lk_acks := lk_acks l @ [grant_encode g]\<rparr>\<lparr>lk_rx := rx\<rparr>)" by (intro listen_ok) simp_all
  moreover have "l\<lparr>lk_acks := lk_acks l @ [grant_encode g]\<rparr>\<lparr>lk_rx := rx\<rparr> =
    l\<lparr>lk_rx := rx, lk_acks := lk_acks l @ [grant_encode g]\<rparr>" by (cases l) simp
  ultimately show ?thesis by (rule back_subst)
qed

lemma send_ok: "link_inv l \<Longrightarrow> link_inv (l\<lparr>lk_given := lk_given l @ d, lk_tx := enqueue d (lk_tx l)\<rparr>)"
proof (erule link_invE)
  fix blks b r reach
  assume at: "link_at blks b r reach l"
  note I = link_atD [OF at]
  have "settled b (length blks) (enqueue d (lk_tx l)) = settled b (length blks) (lk_tx l)"
    by (simp add: settled_def record_is_def enqueue_def)
  with I show ?thesis
    by (intro link_invI [of _ blks b r reach]) (auto simp: window_ok_def enqueue_def)
qed

lemma link_step_inv: "link_step l l' \<Longrightarrow> link_inv l \<Longrightarrow> link_inv l'"
proof (induction rule: link_step.induct)
  case (Hear l f fs soft i rx air)
  show ?case
  proof (cases "same_inbox (lk_rx l) rx")
    case True
    have "link_inv (l\<lparr>lk_rx := rx\<rparr>)" by (rule listen_ok [OF Hear(5) True])
    moreover have "link_inv (l\<lparr>lk_rx := rx, lk_air := fs\<rparr>)"
      using fade_ok [OF calculation, of f fs] Hear(1) by simp
    moreover have "l\<lparr>lk_rx := rx, lk_air := f # fs\<rparr> = l\<lparr>lk_rx := rx\<rparr>" using Hear(1) by simp
    ultimately show ?thesis using Hear(4) by auto
  next
    case False
    with take_data_accepts [OF Hear(3)] Hear(2) obtain rv1 v rv2 where
      "same_inbox (lk_rx l) rv1" "accept f False rv1 = (v, rv2)" "same_inbox rv2 rx"
      unfolding decodes_to_def by blast
    with Hear show ?thesis by (intro heard_ok [OF Hear(5,1)]) auto
  qed
next
  case (Late l f fs v rx)
  then show ?case by (intro heard_ok [OF Late(3,1,2)]) auto
next
  case (Retune l tx)
  then have "keeps (lk_tx l) tx" by (simp add: same_window_def keeps_def option.rel_refl)
  with Retune show ?case by (intro retune_ok)
qed (auto intro: send_ok transmit_ok retune_ok mark_unknown_keeps fade_ok listen_ok answer_ok fade_ack_ok take_ok)

lemma link_start_inv: "link_start l \<Longrightarrow> link_inv l"
  unfolding link_start_def
  by (intro link_invI [of _ "[]" 0 0 0])
    (auto simp: window_ok_def inbox_ok_def marked_def got_def settled_def air_ok_def acks_ok_def record_is_def)

lemma link_reachable_inv: "link_step\<^sup>*\<^sup>* l0 l \<Longrightarrow> link_start l0 \<Longrightarrow> link_inv l"
  by (induction rule: rtranclp_induct) (auto intro: link_start_inv link_step_inv)

end
