(* ===== verification/Engine.thy ===== *)
theory Engine
  imports Receiver
begin

text \<open>
  The session engine of \<open>core/aether-link/src/granted.rs\<close>, its whole state: what it hands its driver,
  the slots it grants, the answers it owes, the session's fields; the start of a session, its end, and
  keying.  The sending and the receiving half are \<open>en_tx\<close> and \<open>en_rx\<close>; the fields both read (session
  number, timing, configuration) are in both halves, and set in both.  Each half counts its own
  operations; what the engine counts itself is in the sender's counters.

  \<open>None\<close> as a result is a panic.  The largest of no family's values, an infinity in the code, is taken
  for one too: a set of families is never empty.
\<close>

section \<open>What the engine hands its driver\<close>

datatype link_state = Idle | Connecting | Connected | Disconnecting

record transmission =
  tm_frames :: "tx_frame list"
  tm_duration_s :: f64
  tm_cause :: string
  tm_not_after :: "f64 option"
  tm_not_before :: "f64 option"
  tm_identifier_s :: f64
  tm_listen_first :: bool

datatype action = Transmission transmission | Deliver bytes | Event string string

record probe_result =
  pr_remote :: string
  pr_heard_there_db :: "f64 option"
  pr_heard_here_db :: f64
  pr_bandwidth_hz :: "nat option"

definition READABLE_ALONE_RVS :: "u8 list" where "READABLE_ALONE_RVS = [0]"

definition LEFT_UNHEARD :: "string list" where
  "LEFT_UNHEARD = [''aborted'', ''closed (no DISC_ACK)'', ''no response'', ''link timeout'']"

definition carries_measurement :: "tx_frame list \<Rightarrow> bool" where
  "carries_measurement frames \<longleftrightarrow>
     list_ex (\<lambda>f. tx_container f = container.Data \<and> data_kind_of (tx_payload f) = Some Measure) frames"

section \<open>Slots, answers, keying\<close>

datatype slot_kind = HeaderSlot | DiscSlot | ConnectSlot | ProbeSlot | LeaveSlot

record slot =
  sl_id :: nat
  sl_kind :: slot_kind
  sl_grant_s :: f64
  sl_last_floor :: bool
  sl_answer_floors :: families
  sl_level :: nat
  sl_granter_turnaround_s :: f64
  sl_open_window :: bool
  sl_data :: bool
  sl_granted :: nat
  sl_tx_end :: f64
  sl_start :: f64
  sl_end_max :: f64
  sl_final :: bool
  sl_heard :: bool
  sl_stated_end :: "f64 option"
  sl_stated_floor :: bool

definition slot_new :: "slot_kind \<Rightarrow> f64 \<Rightarrow> bool \<Rightarrow> families \<Rightarrow> slot" where
  "slot_new kind grant_s last_floor answer_floors = \<lparr>sl_id = 0, sl_kind = kind, sl_grant_s = grant_s,
     sl_last_floor = last_floor, sl_answer_floors = answer_floors, sl_level = 0,
     sl_granter_turnaround_s = 0, sl_open_window = False, sl_data = False, sl_granted = 0,
     sl_tx_end = 0, sl_start = 0, sl_end_max = 0, sl_final = False, sl_heard = False,
     sl_stated_end = None, sl_stated_floor = False\<rparr>"

datatype answer_kind = AnsKind | WindowKind | ConnectAckKind | ProbeAckKind | DiscKind | DiscAckKind

record answer =
  aw_what :: answer_kind
  aw_start :: f64
  aw_not_after :: f64
  aw_floor :: bool
  aw_session :: u8
  aw_anchor :: f64
  aw_remote :: string
  aw_snr_db :: "f64 option"
  aw_room_s :: f64

definition answer_new :: "answer_kind \<Rightarrow> f64 \<Rightarrow> f64 \<Rightarrow> bool \<Rightarrow> answer" where
  "answer_new what start not_after fl = \<lparr>aw_what = what, aw_start = start, aw_not_after = not_after,
     aw_floor = fl, aw_session = 0, aw_anchor = 0, aw_remote = [], aw_snr_db = None, aw_room_s = 0\<rparr>"

record keying =
  ky_not_after :: "f64 option"
  ky_not_before :: "f64 option"
  ky_identifier_s :: f64
  ky_listen_first :: bool

definition keying_default :: keying where
  "keying_default = \<lparr>ky_not_after = None, ky_not_before = None, ky_identifier_s = 0, ky_listen_first = False\<rparr>"

definition answering :: "answer \<Rightarrow> f64 \<Rightarrow> keying" where
  "answering a ident = \<lparr>ky_not_after = Some (aw_not_after a), ky_not_before = Some (aw_start a),
     ky_identifier_s = ident, ky_listen_first = False\<rparr>"

definition timer_cause :: "timer \<Rightarrow> string" where
  "timer_cause t = (case t of LinkTimer \<Rightarrow> ''timer:link'' | ConnectTimer \<Rightarrow> ''timer:connect''
     | ProbeTimer \<Rightarrow> ''timer:probe'' | ProceedTimer \<Rightarrow> ''timer:proceed'' | AnswerTimer \<Rightarrow> ''timer:answer''
     | LeaveTimer \<Rightarrow> ''timer:leave'' | IdentTimer \<Rightarrow> ''timer:ident'')"

definition families_with :: "bool \<Rightarrow> families \<Rightarrow> families" where
  "families_with fl s = families_insert fl s"

section \<open>Text\<close>

text \<open>The order of strings: of their bytes.\<close>

fun str_less :: "string \<Rightarrow> string \<Rightarrow> bool" where
  "str_less xs [] = False"
| "str_less [] (y # ys) = True"
| "str_less (x # xs) (y # ys) =
     ((of_char x :: nat) < of_char y \<or> of_char x = (of_char y :: nat) \<and> str_less xs ys)"

text \<open>\<open>u8::try_from(n).unwrap_or(d)\<close>.\<close>

definition u8_or :: "u8 \<Rightarrow> nat \<Rightarrow> u8" where
  "u8_or d n = (if n < 256 then of_nat n else d)"

section \<open>The engine\<close>

record 'h engine =
  en_tx :: sender
  en_rx :: "'h receiver"
  en_callsigns :: "string list"
  en_my_call :: string
  en_remote_call :: string
  en_rng :: draws
  en_state :: link_state
  en_now :: f64
  en_actions :: "action list"
  en_deadlines :: deadlines
  en_cause :: string
  en_slot :: "slot option"
  en_next_slot_id :: nat
  en_in_flight :: "(nat option \<times> f64 \<times> bool) list"
  en_hold_until :: f64
  en_left :: "(u8 \<times> f64 \<times> bool \<times> bool) option"
  en_leave_repeats :: nat
  en_call_jitter :: f64
  en_my_ident_s :: f64
  en_id_owed :: f64
  en_id_alone :: bool
  en_id_listen :: bool
  en_probing :: "string option"
  en_probe_unsent :: bool
  en_last_probe :: "probe_result option"
  en_ended_peer_snr_db :: "f64 option"
  en_connect_tries :: nat
  en_heard_db :: "f64 option"
  en_peer_capabilities :: u8
  en_peer_turnaround_s :: f64
  en_peer_identifier_s :: f64
  en_peer_left :: bool
  en_disc_requested :: bool
  en_disc_tries :: nat
  en_leave_since :: "f64 option"
  en_leave_drain_s :: f64
  en_level_asked :: nat
  en_silence_level :: nat
  en_recent_silent :: "bool list"
  en_answered_run :: nat
  en_slave_want :: "nat option"
  en_slave_leaves :: bool
  en_slave_floor_only :: bool
  en_possible :: families
  en_idle_windows :: nat
  en_ack_owed :: bool
  en_heard_at :: f64
  en_peer_late_s :: f64
  en_answer :: "answer option"
  en_grant :: "grant_frame option"
  en_grant_floor :: bool
  en_m_end :: "f64 option"
  en_m_last_floor :: bool
  en_answered_end :: "f64 option"
  en_need_level :: nat
  en_on_time :: nat
  en_window :: "(f64 \<times> f64 \<times> bool) option"

abbreviation "en_config e \<equiv> sn_config (en_tx e)"
abbreviation "en_timing e \<equiv> sn_timing (en_tx e)"
abbreviation "en_session e \<equiv> sn_session (en_tx e)"
abbreviation "en_role e \<equiv> sn_role (en_tx e)"
abbreviation "en_rate e \<equiv> sn_rate (en_tx e)"
abbreviation "en_silent e \<equiv> sn_silent (en_tx e)"

text \<open>The halves' operations on the whole; what the receiver delivers is handed over.\<close>

definition on_tx :: "(sender \<Rightarrow> sender) \<Rightarrow> 'h engine \<Rightarrow> 'h engine" where
  "on_tx f e = e\<lparr>en_tx := f (en_tx e)\<rparr>"

definition try_tx :: "(sender \<Rightarrow> sender option) \<Rightarrow> 'h engine \<Rightarrow> 'h engine option" where
  "try_tx f e = map_option (\<lambda>s. e\<lparr>en_tx := s\<rparr>) (f (en_tx e))"

definition put_rx :: "'h receiver \<Rightarrow> 'h engine \<Rightarrow> 'h engine" where
  "put_rx rv e = e\<lparr>en_rx := rv, en_actions := en_actions e @
     map Deliver (drop (length (rv_delivered (en_rx e))) (rv_delivered rv))\<rparr>"

definition on_rx :: "('h receiver \<Rightarrow> 'h receiver) \<Rightarrow> 'h engine \<Rightarrow> 'h engine" where
  "on_rx f e = put_rx (f (en_rx e)) e"

definition set_role :: "role \<Rightarrow> 'h engine \<Rightarrow> 'h engine" where
  "set_role r = on_tx (\<lambda>s. s\<lparr>sn_role := r\<rparr>)"

definition set_session :: "u8 \<Rightarrow> 'h engine \<Rightarrow> 'h engine" where
  "set_session q e = e\<lparr>en_tx := (en_tx e)\<lparr>sn_session := q\<rparr>, en_rx := (en_rx e)\<lparr>rv_session := q\<rparr>\<rparr>"

definition set_timing :: "phy_timing \<Rightarrow> 'h engine \<Rightarrow> 'h engine" where
  "set_timing t e = e\<lparr>en_tx := (en_tx e)\<lparr>sn_timing := t\<rparr>, en_rx := (en_rx e)\<lparr>rv_timing := t\<rparr>\<rparr>"

definition set_config :: "grant_config \<Rightarrow> 'h engine \<Rightarrow> 'h engine" where
  "set_config c e = e\<lparr>en_tx := (en_tx e)\<lparr>sn_config := c\<rparr>, en_rx := (en_rx e)\<lparr>rv_config := c\<rparr>\<rparr>"

definition arm :: "timer \<Rightarrow> f64 \<Rightarrow> 'h engine \<Rightarrow> 'h engine" where
  "arm t due e = e\<lparr>en_deadlines := set_deadline t due (en_deadlines e)\<rparr>"

definition disarm :: "timer \<Rightarrow> 'h engine \<Rightarrow> 'h engine" where
  "disarm t e = e\<lparr>en_deadlines := remove_deadline t (en_deadlines e)\<rparr>"

abbreviation armed :: "timer \<Rightarrow> 'h engine \<Rightarrow> f64 option" where
  "armed t e \<equiv> get_deadline t (en_deadlines e)"

definition event :: "string \<Rightarrow> string \<Rightarrow> 'h engine \<Rightarrow> 'h engine" where
  "event name detail e = e\<lparr>en_actions := en_actions e @ [Event name detail]\<rparr>"

abbreviation tally :: "(grant_stats \<Rightarrow> grant_stats) \<Rightarrow> 'h engine \<Rightarrow> 'h engine" where
  "tally f \<equiv> on_tx (count_stat f)"

section \<open>Timing\<close>

definition en_exchange_s :: "'h engine \<Rightarrow> f64 option" where
  "en_exchange_s e = do {
     mode \<leftarrow> burst_mode (en_tx e);
     Some (exchange_s (en_config e) (en_timing e) (pt_is_floor (en_timing e) mode)
       (rv_last_rx_mode (en_rx e)) (sn_hdr_floor (en_tx e)) (en_peer_turnaround_s e))
   }"

definition en_link_timeout :: "'h engine \<Rightarrow> f64 option" where
  "en_link_timeout e = do { x \<leftarrow> en_exchange_s e; Some (link_timeout (en_config e) x) }"

definition en_disc_patience :: "'h engine \<Rightarrow> f64 option" where
  "en_disc_patience e = do { x \<leftarrow> en_exchange_s e; Some (disc_patience (en_config e) x) }"

definition en_slot_start :: "'h engine \<Rightarrow> f64 \<Rightarrow> bool \<Rightarrow> nat \<Rightarrow> f64 \<Rightarrow> f64" where
  "en_slot_start e = slot_start (en_config e)"

definition en_after :: "'h engine \<Rightarrow> f64 \<Rightarrow> bool \<Rightarrow> f64 \<Rightarrow> f64" where
  "en_after e = after (en_config e) (en_timing e)"

definition peer_wait_s :: "'h engine \<Rightarrow> f64" where
  "peer_wait_s e = max (en_peer_turnaround_s e) (answer_gap_s (en_config e))"

definition en_asked_level :: "'h engine \<Rightarrow> nat" where
  "en_asked_level e = asked_level (en_config e) (en_peer_turnaround_s e) (en_need_level e)"

definition gap_level :: "'h engine \<Rightarrow> nat" where
  "gap_level e = (if en_role e = Master then max (en_level_asked e) (en_silence_level e) else en_asked_level e)"

text \<open>The slowest mode of a family that carries a connect body; a panic when no mode does.\<close>

definition robust_in :: "phy_timing \<Rightarrow> bool \<Rightarrow> nat option" where
  "robust_in t fl = find (\<lambda>m. pt_is_floor t m = fl \<and> CONNECT_BODY_8_BYTES + 5 \<le> pt_data_capacity t ! m)
     [0..<length (pt_data_capacity t)]"

definition robust_mode :: "phy_timing \<Rightarrow> bool \<Rightarrow> nat option" where
  "robust_mode t fl = (case robust_in t fl of
     Some m \<Rightarrow> Some m | None \<Rightarrow> if fl then robust_in t False else None)"

definition robust_frame_s :: "phy_timing \<Rightarrow> bool \<Rightarrow> f64 option" where
  "robust_frame_s t fl = map_option (data_frame_s_for t) (robust_mode t fl)"

definition timing_rungs :: "phy_timing \<Rightarrow> nat" where
  "timing_rungs t = (if mode_threshold_db t = [] then length AWGN_THRESHOLD_DB else length (mode_threshold_db t))"

definition price_controllers :: "'h engine \<Rightarrow> 'h engine" where
  "price_controllers e =
     (let t = en_timing e; cfg = en_config e;
          gap_s = slot_start cfg 0 True 0 0 + after cfg t 0 True 0;
          burst = map (\<lambda>m. burst_capacity cfg (data_frame_s_for t m)) [0..<timing_rungs t]
      in on_tx (\<lambda>s. s\<lparr>sn_rate := price_exchanges (ctl_s t True) (ctl_s t False) gap_s burst (sn_rate s)\<rparr>) e)"

text \<open>A decoded frame of the session: the link is alive.\<close>

definition note_heard :: "heard \<Rightarrow> 'h engine \<Rightarrow> 'h engine option" where
  "note_heard frame e0 = do {
     let readings = sn_heard_recent (en_tx e0) @ [hd_snr_db frame];
     let recent = drop (length readings - family_readings (en_config e0)) readings;
     let e1 = on_tx (\<lambda>s. price (s\<lparr>sn_heard_recent := recent\<rparr>)) (e0\<lparr>en_heard_db := Some (hd_snr_db frame)\<rparr>);
     rate \<leftarrow> observe_echo (hd_echo frame) (hd_snr_db frame) (en_rate e1);
     let e2 = (on_tx (\<lambda>s. s\<lparr>sn_rate := rate\<rparr>) e1)\<lparr>en_heard_at := en_now e1\<rparr>;
     timeout \<leftarrow> en_link_timeout e2;
     Some (arm LinkTimer (en_now e2 + timeout) e2)
   }"

section \<open>A session's start and end\<close>

text \<open>
  \<open>reset_session\<close>.  \<open>rv_delivered\<close>, no field of the engine, is the session's log of what went to the
  application.
\<close>

definition reset_tx :: "rate_controller \<Rightarrow> sender \<Rightarrow> sender" where
  "reset_tx rate s = s\<lparr>sn_records := Map.empty, sn_base := 0, sn_next := 0, sn_top_acked_mode := None,
     sn_peer_snr_db := None, sn_peer_missed := None, sn_heard_recent := [], sn_hdr_floor := True,
     sn_ans_sticky := True, sn_silent := 0, sn_rate := rate, sn_measure_ask := None, sn_measure_out := None,
     sn_measure_unheard := False, sn_measure_again := False, sn_sent_copies := [], sn_piece_bound := None,
     sn_answered_rung := None, sn_patience_until := None\<rparr>"

definition reset_rx :: "'h receiver \<Rightarrow> 'h receiver" where
  "reset_rx r = r\<lparr>rv_base := 0, rv_buf := Map.empty, rv_max_seen := None, rv_harq := Map.empty,
     rv_pieces := Map.empty, rv_rx := [], rv_rx_t0 := None, rv_grid := None, rv_ack_history := [],
     rv_measured := None, rv_rx_measure := False, rv_rx_pieces := False, rv_last_rx_mode := None,
     rv_missed := MISSED_UNKNOWN, rv_delivered := []\<rparr>"

definition reset_session :: "'h engine \<Rightarrow> 'h engine option" where
  "reset_session e = do {
     rate \<leftarrow> rate_for (en_timing e);
     Some (fold disarm [ProceedTimer, AnswerTimer, LinkTimer] (price_controllers (e\<lparr>
       en_tx := reset_tx rate (en_tx e), en_rx := reset_rx (en_rx e),
       en_heard_db := None, en_peer_capabilities := 0, en_peer_turnaround_s := 0,
       en_peer_identifier_s := 0, en_peer_left := False, en_disc_requested := False, en_disc_tries := 0,
       en_leave_since := None, en_leave_drain_s := disc_drain_s (en_config e),
       en_slot := None, en_level_asked := 0, en_silence_level := 0, en_recent_silent := [],
       en_answered_run := 0, en_slave_want := None, en_slave_leaves := False,
       en_slave_floor_only := False, en_possible := families_of True, en_idle_windows := 0,
       en_ack_owed := False, en_heard_at := en_now e, en_peer_late_s := 0, en_answer := None,
       en_grant := None, en_grant_floor := False, en_m_end := None, en_m_last_floor := False,
       en_answered_end := None, en_need_level := 0, en_on_time := 0, en_window := None\<rparr>)))
   }"

definition stats_default :: grant_stats where
  "stats_default = \<lparr>frames_sent = 0, frames_resent = 0, frames_received = 0, frames_failed = 0,
     harq_rescues = 0, bytes_delivered = 0, bytes_acked = 0, probes_sent = 0, probes_answered = 0,
     probe_replies = 0, frames_reencoded = 0, frames_split = 0, frames_missed = 0, left_answered = 0,
     transmissions = 0, headers_elided = 0, silent_slots = 0, forfeits = 0, dropped = 0\<rparr>"

definition sender_new :: "phy_timing \<Rightarrow> grant_config \<Rightarrow> rate_controller \<Rightarrow> sender" where
  "sender_new t cfg rate = \<lparr>sn_session = 0, sn_timing = t, sn_config = cfg, sn_role = NoRole,
     sn_pinned = None, sn_pin_body = None, sn_queue = [], sn_records = Map.empty, sn_base = 0, sn_next = 0,
     sn_top_acked_mode = None, sn_peer_snr_db = None, sn_peer_missed = None, sn_heard_recent = [],
     sn_hdr_floor = True, sn_ans_sticky = True, sn_silent = 0, sn_rate = rate, sn_measure_ask = None,
     sn_measure_out = None, sn_measure_unheard = False, sn_measure_again = False, sn_ladder = [],
     sn_sent_copies = [], sn_piece_bound = None, sn_answered_rung = None, sn_patience_until = None,
     sn_stats = stats_default\<rparr>"

definition receiver_new :: "phy_timing \<Rightarrow> grant_config \<Rightarrow> 'h receiver" where
  "receiver_new t cfg = \<lparr>rv_session = 0, rv_timing = t, rv_config = cfg, rv_base = 0,
     rv_buf = Map.empty, rv_max_seen = None, rv_harq = Map.empty, rv_pieces = Map.empty, rv_rx = [],
     rv_rx_t0 = None, rv_grid = None, rv_ack_history = [], rv_measured = None, rv_rx_measure = False,
     rv_rx_pieces = False, rv_last_data = None, rv_last_rx_mode = None, rv_missed = MISSED_UNKNOWN,
     rv_delivered = [], rv_stats = stats_default\<rparr>"

definition engine_new :: "string \<Rightarrow> phy_timing \<Rightarrow> grant_config \<Rightarrow> u64 \<Rightarrow> 'h engine option" where
  "engine_new my_call t cfg rng0 = do {
     rate \<leftarrow> rate_for t;
     let call = to_ascii_uppercase (trim my_call);
     reset_session \<lparr>en_tx = sender_new t cfg rate, en_rx = receiver_new t cfg, en_callsigns = [call],
       en_my_call = call, en_remote_call = [], en_rng = rng0, en_state = Idle, en_now = 0,
       en_actions = [], en_deadlines = [], en_cause = [], en_slot = None, en_next_slot_id = 0,
       en_in_flight = [], en_hold_until = 0, en_left = None, en_leave_repeats = 0, en_call_jitter = 0,
       en_my_ident_s = 0, en_id_owed = 0, en_id_alone = False, en_id_listen = False, en_probing = None,
       en_probe_unsent = False, en_last_probe = None, en_ended_peer_snr_db = None, en_connect_tries = 0,
       en_heard_db = None, en_peer_capabilities = 0, en_peer_turnaround_s = 0,
       en_peer_identifier_s = 0, en_peer_left = False, en_disc_requested = False, en_disc_tries = 0,
       en_leave_since = None, en_leave_drain_s = disc_drain_s cfg, en_level_asked = 0,
       en_silence_level = 0, en_recent_silent = [], en_answered_run = 0, en_slave_want = None,
       en_slave_leaves = False, en_slave_floor_only = False, en_possible = families_of True,
       en_idle_windows = 0, en_ack_owed = False, en_heard_at = 0, en_peer_late_s = 0, en_answer = None,
       en_grant = None, en_grant_floor = False, en_m_end = None, en_m_last_floor = False,
       en_answered_end = None, en_need_level = 0, en_on_time = 0, en_window = None\<rparr>
   }"

text \<open>What a session's end leaves to answer or say, and when its closing identifier goes.\<close>

definition ends_with :: "string \<Rightarrow> string \<Rightarrow> bool" where
  "ends_with suffix s \<longleftrightarrow> length suffix \<le> length s \<and> drop (length s - length suffix) s = suffix"

definition left_behind :: "string \<Rightarrow> bool \<Rightarrow> 'h engine \<Rightarrow> (u8 \<times> f64 \<times> bool \<times> bool) option option" where
  "left_behind reason disc_heard e =
     (if en_state e \<noteq> Connecting \<and> (reason \<in> set LEFT_UNHEARD \<or> disc_heard)
      then do { timeout \<leftarrow> en_link_timeout e;
                Some (Some (en_session e, en_now e + timeout, disc_heard, en_role e = Slave)) }
      else Some None)"

text \<open>The closing identifier: the master's after its last slot, the slave's behind its answer or on its own.\<close>

definition owe_identifier :: "string \<Rightarrow> bool \<Rightarrow> bool \<Rightarrow> bool \<Rightarrow> 'h engine \<Rightarrow> 'h engine option" where
  "owe_identifier reason was_master unread was_left e0 = do {
     let e = e0\<lparr>en_id_alone := \<not> was_master,
       en_id_listen := (\<not> was_master \<or> unread \<or> reason \<in> {''no response'', ''link timeout''})\<rparr>;
     if was_master
     then Some (if reason \<noteq> ''aborted'' then arm IdentTimer (max (en_now e) (en_hold_until e)) e else e)
     else if reason = ''link timeout''
     then do { x \<leftarrow> en_exchange_s e; Some (arm IdentTimer (en_now e + x + en_peer_identifier_s e) e) }
     else if was_left then do { x \<leftarrow> en_exchange_s e; Some (arm IdentTimer (en_now e + x) e) }
     else Some (arm IdentTimer (en_now e) e)
   }"

definition end_session_with :: "string \<Rightarrow> bool \<Rightarrow> bool \<Rightarrow> 'h engine \<Rightarrow> 'h engine option" where
  "end_session_with reason disc_heard unread e0 = do {
     left \<leftarrow> left_behind reason disc_heard e0;
     let owes = (en_state e0 \<noteq> Connecting \<and> 0 < en_my_ident_s e0 \<and> \<not> ends_with '' called again'' reason);
     e1 \<leftarrow> reset_session (disarm IdentTimer (disarm ConnectTimer (set_role NoRole (e0\<lparr>
       en_ended_peer_snr_db := sn_peer_snr_db (en_tx e0), en_state := Idle\<rparr>))));
     let e2 = event ''disconnected'' reason ((on_tx (\<lambda>s. s\<lparr>sn_queue := []\<rparr>) e1)\<lparr>
       en_peer_turnaround_s := en_peer_turnaround_s e0, en_peer_identifier_s := en_peer_identifier_s e0,
       en_silence_level := en_silence_level e0, en_left := left,
       en_id_owed := (if owes then en_my_ident_s e0 else 0)\<rparr>);
     if owes then owe_identifier reason (en_role e0 = Master) unread (left \<noteq> None) e2 else Some e2
   }"

definition end_session :: "string \<Rightarrow> bool \<Rightarrow> 'h engine \<Rightarrow> 'h engine option" where
  "end_session reason disc_heard = end_session_with reason disc_heard False"

definition end_session_unread :: "string \<Rightarrow> 'h engine \<Rightarrow> 'h engine option" where
  "end_session_unread reason = end_session_with reason False True"

section \<open>Keying\<close>

text \<open>Hand a transmission over; where it ends on the air, as far as the engine knows.\<close>

definition transmit :: "tx_frame list \<Rightarrow> keying \<Rightarrow> nat option \<Rightarrow> 'h engine \<Rightarrow> f64 \<times> 'h engine" where
  "transmit frames keying granting e =
     (let frames_len = sum_list (map (tx_frame_s (en_timing e)) frames);
          dur = ky_identifier_s keying + frames_len;
          carried = (if frames = [] then 0 else ky_identifier_s keying);
          tm = \<lparr>tm_frames = frames, tm_duration_s = dur, tm_cause = en_cause e,
                tm_not_after = ky_not_after keying, tm_not_before = ky_not_before keying,
                tm_identifier_s = ky_identifier_s keying, tm_listen_first = ky_listen_first keying\<rparr>;
          e1 = tally (\<lambda>st. st\<lparr>transmissions := transmissions st + 1\<rparr>) (e\<lparr>
                 en_actions := en_actions e @ [Transmission tm],
                 en_in_flight := en_in_flight e @ [(granting, carried, carries_measurement frames)]\<rparr>);
          on_air = en_now e + own_latency (en_timing e);
          on_air = (case ky_not_before keying of None \<Rightarrow> on_air | Some earliest_s \<Rightarrow> max on_air earliest_s)
      in (on_air + dur, e1))"

definition control_frame :: "grant_frame \<Rightarrow> bool \<Rightarrow> tx_frame" where
  "control_frame ctl fl = \<lparr>tx_container = Control, tx_payload = grant_encode ctl, tx_mode = 0, tx_rv = 0,
     tx_floor = fl, tx_follows = 0\<rparr>"

definition plain_frame :: "bytes \<Rightarrow> nat \<Rightarrow> tx_frame" where
  "plain_frame payload mode = data_frame payload mode 0 0"

section \<open>Slots this station grants\<close>

text \<open>When this station may key again.\<close>

definition slot_close :: "slot \<Rightarrow> 'h engine \<Rightarrow> f64" where
  "slot_close sl e = (case sl_stated_end sl of
       Some end_s \<Rightarrow> en_after e end_s (sl_stated_floor sl) (peer_wait_s e)
     | None \<Rightarrow> en_after e (sl_end_max sl + en_peer_late_s e) (fam_floor (sl_answer_floors sl)) (peer_wait_s e))"

definition arm_wait :: "'h engine \<Rightarrow> 'h engine" where
  "arm_wait e0 = (case en_slot e0 of
       None \<Rightarrow> e0
     | Some sl \<Rightarrow>
         (let due = slot_close sl e0; e = e0\<lparr>en_hold_until := due\<rparr>
          in if sl_kind sl = ConnectSlot \<and> en_state e = Connecting
             then arm ConnectTimer (due + en_call_jitter e) e
             else if sl_kind sl = ProbeSlot
             then (if en_probing e \<noteq> None \<and> \<not> en_probe_unsent e then arm ProbeTimer due e else e)
             else if en_role e = Master \<and> en_state e \<in> {Connected, Disconnecting}
             then arm ProceedTimer (max (en_now e) due) e
             else e))"

definition open_slot :: "f64 \<Rightarrow> 'h engine \<Rightarrow> 'h engine" where
  "open_slot end_s e = (case en_slot e of
       None \<Rightarrow> e
     | Some sl \<Rightarrow>
         (let start = en_slot_start e end_s (sl_last_floor sl) (sl_level sl) (sl_granter_turnaround_s sl);
              end_max = start + sl_grant_s sl + (if sl_open_window sl then 0 else slack_s (en_config e))
          in arm_wait (e\<lparr>en_slot := Some (sl\<lparr>sl_tx_end := end_s, sl_start := start, sl_end_max := end_max\<rparr>)\<rparr>)))"

definition key_granting :: "slot \<Rightarrow> tx_frame list \<Rightarrow> 'h engine \<Rightarrow> 'h engine" where
  "key_granting sl frames e =
     (let id = en_next_slot_id e + 1;
          (end_s, e1) = transmit frames keying_default (Some id)
                          (e\<lparr>en_next_slot_id := id, en_slot := Some (sl\<lparr>sl_id := id\<rparr>)\<rparr>)
      in open_slot end_s e1)"

definition in_slot :: "heard \<Rightarrow> 'h engine \<Rightarrow> bool" where
  "in_slot frame e = (case en_slot e of
     None \<Rightarrow> False | Some sl \<Rightarrow> sl_final sl \<and> sl_tx_end sl - 1 / 10 ^ 9 \<le> hd_t_start frame)"

definition state_end :: "f64 \<Rightarrow> bool \<Rightarrow> 'h engine \<Rightarrow> 'h engine" where
  "state_end end_s fl e = (case en_slot e of
       None \<Rightarrow> e
     | Some sl0 \<Rightarrow>
         (let sl = sl0\<lparr>sl_heard := True\<rparr>;
              sl = (if (case sl_stated_end sl of None \<Rightarrow> True | Some stated \<Rightarrow> stated - 1 / 10 ^ 9 \<le> end_s)
                    then sl\<lparr>sl_stated_end := Some end_s, sl_stated_floor := fl\<rparr> else sl)
          in arm_wait (e\<lparr>en_slot := Some sl\<rparr>)))"

end
