(* ===== verification/Session_Laws.thy ===== *)
theory Session_Laws
  imports Session Engine
begin

text \<open>
  What a session promises: the byte stream arrives in order, and nothing else; what is not yet
  delivered is still held by the sender; once everything is acknowledged, everything is delivered.
\<close>

section \<open>Delivery only appends\<close>

definition extends :: "'h receiver \<Rightarrow> 'h receiver \<Rightarrow> bool" where
  "extends rv rv' \<longleftrightarrow> (\<exists>new. rv_delivered rv' = rv_delivered rv @ new)"

lemma extends_trans: "extends a b \<Longrightarrow> extends b c \<Longrightarrow> extends a c"
  by (auto simp: extends_def)

lemma extends_same: "rv_delivered rv' = rv_delivered rv \<Longrightarrow> extends rv rv'"
  by (simp add: extends_def)

lemma same_inbox_extends: "same_inbox rv rv' \<Longrightarrow> extends rv rv'"
  by (simp add: extends_def same_inbox_def)

lemma deliver_extends: "extends rv (deliver rv)"
proof (induction rv rule: deliver.induct)
  case (1 rv)
  show ?case
  proof (cases "rv_buf rv (rv_base rv)")
    case None
    then show ?thesis by (subst deliver.simps) (simp add: extends_def)
  next
    case (Some data)
    show ?thesis
      by (subst deliver.simps) (simp only: Some option.case,
        rule extends_trans [OF _ 1 [OF Some]], simp add: extends_def count_rx_def)
  qed
qed

lemma file_block_delivered: "rv_delivered (file_block h body rv) = rv_delivered rv"
  by (auto simp: file_block_def block_of_def Let_def split: option.splits prod.splits if_splits)

lemma take_block_extends: "extends rv (take_block h body rv)"
proof -
  let ?filed = "file_block h body (note_seen (dh_seq h) rv)"
  have "extends rv ?filed"
    using same_inbox_ops(9) [of rv "dh_seq h"] by (intro extends_same) (simp add: file_block_delivered same_inbox_def)
  moreover have "extends (deliver ?filed) (trim_seen (deliver ?filed))"
    by (rule same_inbox_extends [OF same_inbox_ops(10)])
  ultimately have "extends rv (trim_seen (deliver ?filed))" using deliver_extends extends_trans by blast
  then show ?thesis by (simp add: take_block_def extends_def)
qed

lemma accept_extends:
  assumes a: "accept payload late rv = (v, rv')" shows "extends rv rv'"
proof (cases "decode_data payload")
  case (Inl e)
  with a show ?thesis by (auto simp: accept_def extends_def)
next
  case (Inr hb)
  obtain h body where d: "decode_data payload = Inr (h, body)" using Inr by (cases hb) simp
  show ?thesis
  proof (cases "dh_session h = rv_session rv \<and> dh_kind h = data_kind.Data")
    case False
    then have "same_inbox rv rv'" using a d same_inbox_ops(6) by (auto simp: accept_def split: if_splits)
    then show ?thesis by (rule same_inbox_extends)
  next
    case True
    define rv1 where "rv1 = (if late then rv else rv\<lparr>rv_measured := None\<rparr>)"
    define rv2 where "rv2 = count_rx (\<lambda>st. st\<lparr>frames_received := frames_received st + 1\<rparr>) rv1"
    define rv3 where "rv3 = (if dh_piece h \<noteq> None \<and> \<not> late then pieces_heard rv2 else rv2)"
    have rv': "rv' = take_block h body rv3"
      using a d True unfolding rv1_def rv2_def rv3_def by (cases late) (auto simp: accept_def Let_def)
    have "extends rv rv3" by (simp add: extends_def rv3_def rv2_def rv1_def count_rx_def pieces_heard_def)
    then show ?thesis unfolding rv' by (rule extends_trans [OF _ take_block_extends])
  qed
qed

lemma take_data_extends:
  assumes "take_data soft rv = (i, rv')" shows "extends rv rv'"
proof (cases "same_inbox rv rv'")
  case False
  then obtain payload rv1 v rv2 where k: "same_inbox rv rv1" "accept payload False rv1 = (v, rv2)" "same_inbox rv2 rv'"
    using take_data_accepts [OF assms] by blast
  show ?thesis
    by (rule extends_trans [OF same_inbox_extends [OF k(1)] extends_trans [OF accept_extends [OF k(2)] same_inbox_extends [OF k(3)]]])
qed (rule same_inbox_extends)

text \<open>Every step of a link adds to the end of what was given and of what has come out, or to neither.\<close>

lemma link_step_grows:
  assumes "link_step l l'"
  shows "(\<exists>d. lk_given l' = lk_given l @ d \<and> lk_rx l' = lk_rx l) \<or> lk_given l' = lk_given l \<and> extends (lk_rx l) (lk_rx l')"
  using assms
proof cases
  case (Hear f fs soft i rx air)
  then show ?thesis using take_data_extends [of soft "lk_rx l" i rx] by auto
next
  case (Late f fs v rx)
  then show ?thesis using accept_extends [of f True "lk_rx l" v rx] by auto
next
  case (Answer ack rx g)
  then show ?thesis using same_inbox_ops(11) [of "lk_rx l"] same_inbox_extends by auto
qed (auto simp: same_inbox_extends extends_same)

section \<open>What the sender still holds\<close>

lemma set_seqs: "set (seqs_where (\<lambda>_ r. True) m) = dom m"
  by (auto simp: set_seqs_where dom_def)

lemma distinct_seqs: "distinct (seqs_where P m)"
proof -
  have "inj_on (of_nat :: nat \<Rightarrow> u8) {0..<256}"
    by (rule inj_onI) (use of_nat_window_inj [where b = 0] in auto)
  then show ?thesis by (simp add: seqs_where_def distinct_map)
qed

lemma body_bytes_window:
  assumes w: "window_ok blks b s" shows "body_bytes (\<lambda>_. True) s = length (concat (drop b blks))"
proof -
  note W = window_okD [OF w]
  let ?num = "of_nat :: nat \<Rightarrow> u8"
  have inj: "inj_on ?num {b..<length blks}"
    by (rule inj_onI) (use of_nat_window_inj [where b = b] W(2) in auto)
  have dom: "dom (sn_records s) = ?num ` {b..<length blks}"
  proof
    show "dom (sn_records s) \<subseteq> ?num ` {b..<length blks}"
    proof
      fix q assume "q \<in> dom (sn_records s)"
      then obtain r where "sn_records s q = Some r" by blast
      with W(6) obtain i where "b \<le> i" "i < length blks" "q = of_nat i" by blast
      then show "q \<in> ?num ` {b..<length blks}" by auto
    qed
    show "?num ` {b..<length blks} \<subseteq> dom (sn_records s)" using W(5) by fastforce
  qed
  have body: "tr_body (the (sn_records s (?num i))) = blks ! i" if "i \<in> {b..<length blks}" for i
    using W(5) [of i] that by (auto simp: block_ok_def)
  have "body_bytes (\<lambda>_. True) s = (\<Sum>q\<in>dom (sn_records s). length (tr_body (the (sn_records s q))))"
    unfolding body_bytes_def by (subst sum_list_distinct_conv_sum_set [OF distinct_seqs]) (simp only: set_seqs)
  also have "\<dots> = (\<Sum>i\<in>{b..<length blks}. length (blks ! i))"
    unfolding dom sum.reindex [OF inj] by (intro sum.cong) (simp_all add: body)
  also have "\<dots> = length (concat (drop b blks))"
  proof -
    have d: "drop b blks = map ((!) blks) [b..<length blks]"
      by (rule nth_equalityI) simp_all
    show ?thesis unfolding d length_concat map_map comp_def by (subst interv_sum_list_conv_sum_set_nat) simp
  qed
  finally show ?thesis .
qed

lemma link_at_delivered:
  assumes at: "link_at blks b r reach l"
  shows "lk_given l = concat (rv_delivered (lk_rx l)) @ concat (drop r blks) @ sn_queue (lk_tx l)" "b \<le> r"
proof -
  note I = link_atD [OF at]
  show "lk_given l = concat (rv_delivered (lk_rx l)) @ concat (drop r blks) @ sn_queue (lk_tx l)"
    using I(1) inbox_okD(3) [OF I(3)] by (simp add: append_take_drop_id flip: concat_append)
  have "{..<b} \<subseteq> got r (lk_rx l)" using I(8) by (auto simp: settled_def)
  then show "b \<le> r" using got_self [of r "lk_rx l"] I(4) by (metis lessThan_iff not_le subsetD)
qed

section \<open>A link that has just come up\<close>

text \<open>An air of two rungs, and the halves of two stations of it.\<close>

definition small_air :: phy_timing where
  "small_air = \<lparr>pt_data_frame_s = 1, pt_control_frame_s = 1 / 2, turnaround_s = 0, detect_latency_s = 0,
     tx_latency_s = 1 / 4, preamble_detect_s = None, pt_data_capacity = [40, 80], mode_threshold_db = [-5, 5],
     floor_data_frame_s = None, floor_control_frame_s = None, pt_floor_modes = 0, control_threshold_db = None,
     floor_preamble_detect_s = None, pt_echo_limit = []\<rparr>"

definition fresh_link :: "'h link" where
  "fresh_link = \<lparr>lk_given = [], lk_tx = sender_new small_air grant_config_default (the (rate_for small_air)),
     lk_rx = receiver_new small_air grant_config_default, lk_air = [], lk_acks = []\<rparr>"

lemma fresh_link_start: "link_start fresh_link"
  by (simp add: link_start_def fresh_link_def sender_new_def receiver_new_def)

lemma fresh_link_send:
  "link_step fresh_link (fresh_link\<lparr>lk_given := [7], lk_tx := enqueue [7] (lk_tx fresh_link)\<rparr>)"
  using link_step.Send [of fresh_link "[7]"] by (simp add: fresh_link_def)

text \<open>Starting a session on an engine leaves its halves as a link's start has them.\<close>

lemma reset_session_halves:
  assumes "reset_session e = Some e'"
  shows "sn_records (en_tx e') = Map.empty" "sn_base (en_tx e') = 0" "sn_next (en_tx e') = 0"
    "sn_queue (en_tx e') = sn_queue (en_tx e)" "sn_session (en_tx e') = sn_session (en_tx e)"
    "rv_base (en_rx e') = 0" "rv_buf (en_rx e') = Map.empty" "rv_pieces (en_rx e') = Map.empty"
    "rv_measured (en_rx e') = None" "rv_delivered (en_rx e') = []" "rv_session (en_rx e') = rv_session (en_rx e)"
  using assms
  by (auto simp: reset_session_def reset_tx_def reset_rx_def price_controllers_def on_tx_def disarm_def Let_def
    bind_eq_Some_conv)

section \<open>What a session promises\<close>

text \<open>
  C2: \<^bold>\<open>In order, nothing else, and nothing lost.\<close>  From the start of a session on, whatever is lost,
  repeated, decoded late or left undecoded on either way, what the receiver has handed over is a prefix
  of what the sender was given, and the rest is still held by the sender: no more than
  \<open>tx_undelivered_bytes\<close> of it is missing.
\<close>

theorem session_in_order:
  assumes "link_start l0" and "link_step\<^sup>*\<^sup>* l0 l"
  shows "\<exists>rest. lk_given l = concat (rv_delivered (lk_rx l)) @ rest \<and>
    length rest \<le> tx_undelivered_bytes (lk_tx l)"
proof -
  obtain blks b r reach where at: "link_at blks b r reach l"
    using link_reachable_inv [OF assms(2,1)] by (rule link_invE)
  note I = link_atD [OF at]
  note D = link_at_delivered [OF at]
  have "length (concat (drop r blks)) \<le> length (concat (drop b blks))"
  proof -
    have "drop b blks = take (r - b) (drop b blks) @ drop r blks" using D(2) by (metis append_take_drop_id drop_drop le_add_diff_inverse2)
    then have "concat (drop b blks) = concat (take (r - b) (drop b blks)) @ concat (drop r blks)" by (metis concat_append)
    then show ?thesis by simp
  qed
  then have "length (concat (drop r blks) @ sn_queue (lk_tx l)) \<le> tx_undelivered_bytes (lk_tx l)"
    using body_bytes_window [OF I(2)] by (simp add: tx_undelivered_bytes_def)
  with D(1) show ?thesis by blast
qed

theorem session_in_order_witness:
  "\<exists>rest. [7] = concat (rv_delivered (lk_rx (fresh_link :: unit link))) @ rest \<and>
     length rest \<le> tx_undelivered_bytes (enqueue [7] (lk_tx (fresh_link :: unit link)))"
  using session_in_order [OF fresh_link_start r_into_rtranclp [of link_step, OF fresh_link_send], where ?'a = unit] by simp



text \<open>
  C3: \<^bold>\<open>A session is a byte pipe.\<close>  Every step of a session, either station's or the air's, is a move of
  the abstract pipe: bytes given at one end, or the next bytes of what was given coming out at the
  other, or nothing.
\<close>

theorem session_refines_pipe:
  assumes "link_start l0" and "link_step\<^sup>*\<^sup>* l0 l" and "link_step l l'"
  shows "pipe_step\<^sup>*\<^sup>* pipe_empty (pipe_of l) \<and> pipe_step\<^sup>*\<^sup>* (pipe_of l) (pipe_of l')"
proof -
  have move: "pipe_step\<^sup>*\<^sup>* (pipe_of k) (pipe_of k')" if step: "link_step k k'" and reach: "link_step\<^sup>*\<^sup>* l0 k'"
    for k k' :: "'a link"
    using link_step_grows [OF step]
  proof
    assume "\<exists>d. lk_given k' = lk_given k @ d \<and> lk_rx k' = lk_rx k"
    then obtain d where "lk_given k' = lk_given k @ d" "lk_rx k' = lk_rx k" by blast
    then have "pipe_of k' = (pipe_of k)\<lparr>pp_given := pp_given (pipe_of k) @ d\<rparr>" by (simp add: pipe_of_def)
    then show ?thesis using pipe_step.Give [of "pipe_of k" d] by simp
  next
    assume g: "lk_given k' = lk_given k \<and> extends (lk_rx k) (lk_rx k')"
    then obtain new where new: "rv_delivered (lk_rx k') = rv_delivered (lk_rx k) @ new" by (auto simp: extends_def)
    obtain blks b r reach where "link_at blks b r reach k'"
      using link_reachable_inv [OF reach assms(1)] by (rule link_invE)
    from link_at_delivered(1) [OF this] obtain rest where
      "lk_given k' = concat (rv_delivered (lk_rx k')) @ rest" by blast
    then have "pp_given (pipe_of k) = pp_out (pipe_of k) @ concat new @ rest" using g new by (simp add: pipe_of_def)
    from pipe_step.Emit [OF this] show ?thesis using g new by (simp add: pipe_of_def r_into_rtranclp)
  qed
  have "pipe_of l0 = pipe_empty\<lparr>pp_given := pp_given pipe_empty @ lk_given l0\<rparr>"
    using assms(1) by (simp add: pipe_of_def pipe_empty_def link_start_def)
  then have "pipe_step\<^sup>*\<^sup>* pipe_empty (pipe_of l0)" using pipe_step.Give [of pipe_empty "lk_given l0"] by simp
  moreover have "pipe_step\<^sup>*\<^sup>* (pipe_of l0) (pipe_of l)"
    using assms(2)
  proof (induction rule: rtranclp_induct)
    case (step k k')
    have "pipe_step\<^sup>*\<^sup>* (pipe_of k) (pipe_of k')" by (rule move [OF step(2) rtranclp.rtrancl_into_rtrancl [OF step(1,2)]])
    with step(3) show ?case by (rule rtranclp_trans)
  qed simp
  moreover have "pipe_step\<^sup>*\<^sup>* (pipe_of l) (pipe_of l')"
    by (rule move [OF assms(3) rtranclp.rtrancl_into_rtrancl [OF assms(2,3)]])
  ultimately show ?thesis by (blast intro: rtranclp_trans)
qed

theorem session_refines_pipe_witness:
  "pipe_step\<^sup>*\<^sup>* (pipe_of (fresh_link :: unit link))
     (pipe_of ((fresh_link :: unit link)\<lparr>lk_given := [7], lk_tx := enqueue [7] (lk_tx (fresh_link :: unit link))\<rparr>))"
  by (rule conjunct2 [OF session_refines_pipe [OF fresh_link_start rtranclp.rtrancl_refl fresh_link_send]])

end
