(* ===== verification/Engine_Answer.thy ===== *)
theory Engine_Answer
  imports Engine
begin

text \<open>
  The slave of \<open>core/aether-link/src/granted.rs\<close>: the answers it owes in the slots it is granted
  (\<open>schedule\<close> to \<open>key_answer\<close>), what each of them sends, the open window, and what it makes of the
  master's frames.  Answers to calls, probes and DISCs, owed from idle too, are keyed the same way.
\<close>

section \<open>The halves at work\<close>

definition en_data_frames :: "f64 option \<Rightarrow> 'h engine \<Rightarrow> (tx_frame list \<times> 'h engine) option" where
  "en_data_frames room_s e = do {
     (frames, s) \<leftarrow> data_frames room_s (en_tx e);
     Some (frames, e\<lparr>en_tx := s\<rparr>)
   }"

text \<open>The patience of a leaving station is reckoned with the exchange before the acknowledgement.\<close>

definition en_take_ack :: "grant_frame \<Rightarrow> bool \<Rightarrow> 'h engine \<Rightarrow> 'h engine option" where
  "en_take_ack ctl fresh e = do {
     patience \<leftarrow> (if sn_patience_until (en_tx e) = None then Some 0 else en_disc_patience e);
     try_tx (take_ack ctl fresh (en_now e + patience)) e
   }"

definition en_peer_reading :: "f64 option \<Rightarrow> 'h engine \<Rightarrow> 'h engine option" where
  "en_peer_reading snr e = (case snr of None \<Rightarrow> Some e | Some v \<Rightarrow> try_tx (peer_reading v) e)"

text \<open>The transmission received is over: what was heard of it, and its SNR.\<close>

definition close_rx :: "'h engine \<Rightarrow> f64 option \<times> 'h engine" where
  "close_rx e = (let (snr, rv) = observe (rv_rx (en_rx e)) (en_rx e) in (snr, put_rx (restart_rx rv) e))"

definition en_ack_fields :: "'h engine \<Rightarrow> (u8 \<times> u16) \<times> 'h engine" where
  "en_ack_fields e = (let (ack, rv) = ack_fields (en_rx e) in (ack, put_rx rv e))"

text \<open>A frame of an earlier transmission, decoded late: what it carries is kept.\<close>

definition accept_late :: "'h soft_frame \<Rightarrow> bool \<Rightarrow> 'h engine \<Rightarrow> 'h engine" where
  "accept_late soft decoded e =
     (if decoded
      then (case fst (sf_decode soft None) of
              Some payload \<Rightarrow> on_rx (\<lambda>r. snd (accept payload True r)) e | None \<Rightarrow> e)
      else e)"

text \<open>A frame outside the data: a call, an acceptance, a probe or its answer, at the robust mode.\<close>

definition handshake_frame ::
  "phy_timing \<Rightarrow> data_kind \<Rightarrow> u8 \<Rightarrow> frame_error + bytes \<Rightarrow> bool \<Rightarrow> tx_frame option option" where
  "handshake_frame t kind session body fl = do {
     mode \<leftarrow> robust_mode t fl;
     (case body of
        Inl _ \<Rightarrow> Some None
      | Inr bs \<Rightarrow> do {
          capacity \<leftarrow> capacity_of t mode;
          Some (case encode_data \<lparr>dh_kind = kind, dh_seq = 0, dh_session = session, dh_piece = None\<rparr> bs capacity of
              Inl _ \<Rightarrow> None | Inr payload \<Rightarrow> Some (plain_frame payload mode))
        })
   }"

section \<open>What an answer sends\<close>

definition send_answer :: "bool \<Rightarrow> f64 \<Rightarrow> keying \<Rightarrow> f64 option \<Rightarrow> 'h engine \<Rightarrow> 'h engine option" where
  "send_answer fl room_s keying window_end e0 = do {
     let (snr, e1) = close_rx e0;
     let e2 = (if snr \<noteq> None then e1\<lparr>en_heard_db := snr\<rparr> else e1);
     let t = en_timing e2;
     let room = (case max_burst_s (en_config e2) of
                   None \<Rightarrow> room_s | Some limit \<Rightarrow> min room_s (limit - ctl_s t fl));
     (data, e3) \<leftarrow> en_data_frames (Some room) e2;
     data_floor \<leftarrow> (case data of
        [] \<Rightarrow> data_floor_only (en_tx e3) | f # _ \<Rightarrow> Some (pt_is_floor t (tx_mode f)));
     queued \<leftarrow> queued_frames (en_tx e3);
     let (ack, e4) = en_ack_fields e3;
     let ctl = \<lparr>gf_kind = Answer, gf_session = en_session e4 AND 0x7F, gf_count = u8_or 7 (length data),
       gf_data_floor = data_floor, gf_level = u8_or 3 (en_asked_level e4),
       gf_fam = wants_floor (en_tx e4), gf_flag = en_disc_requested e4, gf_ident = False,
       gf_measure = (sn_measure_out (en_tx e4) \<noteq> None), gf_base = fst ack, gf_bitmap = snd ack,
       gf_snr_db = en_heard_db e4, gf_slot_floor = False, gf_missed = rv_missed (en_rx e4),
       gf_n = u8_or 7 (min queued 7)\<rparr>;
     let frames = control_frame ctl fl # data;
     let keying = (case window_end of
          None \<Rightarrow> keying
        | Some end_s \<Rightarrow> keying\<lparr>ky_not_after := Some (end_s - sum_list (map (tx_frame_s t) frames))\<rparr>);
     Some (snd (transmit frames keying None e4))
   }"

text \<open>Inside an open window: speak now if there is something to say, ending inside it.\<close>

definition try_window :: "'h engine \<Rightarrow> 'h engine option" where
  "try_window e = (case en_window e of
       None \<Rightarrow> Some e
     | Some (start, end_s, fl) \<Rightarrow>
         if en_state e \<noteq> Connected then Some e
         else (let latency = own_latency (en_timing e); on_air = en_now e + latency
           in if on_air < start - 1 / 10 ^ 9
              then Some (arm AnswerTimer (start - latency)
                     (e\<lparr>en_answer := Some (answer_new WindowKind start end_s fl)\<rparr>))
              else if \<not> (has_work (en_tx e) \<or> en_disc_requested e) then Some e
              else (let room = end_s - on_air - ctl_s (en_timing e) fl
                in if room < 0 then Some e
                   else send_answer fl room keying_default (Some end_s)
                          (e\<lparr>en_window := None, en_answered_end := en_m_end e\<rparr>))))"

definition send_acceptance :: "answer \<Rightarrow> 'h engine \<Rightarrow> 'h engine option" where
  "send_acceptance a e =
     (if en_session e \<noteq> aw_session a \<or> en_role e \<noteq> Slave then Some e
      else do {
        let cfg = en_config e;
        let body = \<lparr>cb_src = en_my_call e, cb_dst = aw_remote a,
          cb_caps = with_level (capabilities cfg) (u8_or 3 (en_asked_level e)),
          cb_version = PROTOCOL_VERSION, cb_snr_db = aw_snr_db a,
          cb_turnaround_s = cfg_turnaround_s cfg, cb_identifier_s = en_my_ident_s e\<rparr>;
        frame \<leftarrow> handshake_frame (en_timing e) ConnectAck (en_session e) (connect_encode body) (aw_floor a);
        Some (case frame of None \<Rightarrow> e | Some f \<Rightarrow> snd (transmit [f] (answering a 0) None e))
      })"

definition send_probe_answer :: "answer \<Rightarrow> 'h engine \<Rightarrow> 'h engine option" where
  "send_probe_answer a e =
     (if en_state e \<noteq> Idle then Some e
      else do {
        let body = \<lparr>pb_src = en_my_call e, pb_dst = aw_remote a, pb_snr_db = aw_snr_db a,
          pb_caps = capabilities (en_config e)\<rparr>;
        frame \<leftarrow> handshake_frame (en_timing e) ProbeAck 0 (probe_encode body) (aw_floor a);
        Some (case frame of None \<Rightarrow> e | Some f \<Rightarrow> snd (transmit [f] (answering a 0) None e))
      })"

text \<open>The latest the other station's closing identifier can be on the air.\<close>

definition closing_hold :: "f64 \<Rightarrow> 'h engine \<Rightarrow> f64" where
  "closing_hold start e =
     (let cfg = en_config e;
          latest = start + slack_s cfg + ctl_s (en_timing e) True + en_my_ident_s e;
          wait_len = max (budget cfg True) (cfg_turnaround_s cfg) + guard_s cfg + levels_s cfg ! 3
      in latest + wait_len + key_s cfg + slack_s cfg + en_peer_identifier_s e)"

definition send_disc_answer :: "answer \<Rightarrow> 'h engine \<Rightarrow> 'h engine" where
  "send_disc_answer a e0 =
     (let ack = (aw_what a = DiscAckKind);
          ctl = (grant_new (if ack then DiscAck else Disc) (aw_session a AND 0x7F))\<lparr>gf_snr_db := aw_snr_db a\<rparr>;
          ident = (if ack \<and> 0 < en_my_ident_s e0 then en_my_ident_s e0 else 0);
          e1 = (if ack \<and> 0 < en_my_ident_s e0 then disarm IdentTimer (e0\<lparr>en_id_owed := 0\<rparr>) else e0);
          e2 = (if ack then e1 else tally (\<lambda>st. st\<lparr>left_answered := left_answered st + 1\<rparr>) e1);
          e3 = snd (transmit [control_frame ctl (aw_floor a)] (answering a ident) None e2)
      in if ident \<noteq> 0 then e3\<lparr>en_hold_until := max (en_hold_until e3) (closing_hold (aw_start a) e3)\<rparr> else e3)"

section \<open>Owing an answer\<close>

definition too_late :: "f64 \<Rightarrow> 'h engine \<Rightarrow> bool" where
  "too_late start e \<longleftrightarrow>
     start - own_latency (en_timing e) + slack_s (en_config e) + 1 / 10 ^ 9 < en_now e"

definition forfeit :: "f64 \<Rightarrow> 'h engine \<Rightarrow> 'h engine" where
  "forfeit anchor e = snd (close_rx (e\<lparr>en_answered_end := Some anchor\<rparr>))"

text \<open>An answer that would start late is not given.\<close>

definition give_up :: "answer \<Rightarrow> 'h engine \<Rightarrow> 'h engine" where
  "give_up a e =
     (let e1 = tally (\<lambda>st. st\<lparr>forfeits := forfeits st + 1\<rparr>) e
      in if aw_what a = AnsKind then forfeit (aw_anchor a) e1 else e1)"

definition give_answer :: "answer \<Rightarrow> 'h engine \<Rightarrow> 'h engine option" where
  "give_answer a e = (case aw_what a of
       ConnectAckKind \<Rightarrow> send_acceptance a e
     | ProbeAckKind \<Rightarrow> send_probe_answer a e
     | DiscKind \<Rightarrow> Some (send_disc_answer a e)
     | DiscAckKind \<Rightarrow> Some (send_disc_answer a e)
     | AnsKind \<Rightarrow>
         if en_state e = Connected \<and> en_role e = Slave
         then send_answer (aw_floor a) (aw_room_s a)
                (keying_default\<lparr>ky_not_after := Some (aw_not_after a), ky_not_before := Some (aw_start a)\<rparr>) None
                (e\<lparr>en_answered_end := Some (aw_anchor a)\<rparr>)
         else Some e
     | WindowKind \<Rightarrow> Some e)"

definition key_answer :: "'h engine \<Rightarrow> 'h engine option" where
  "key_answer e0 = (case en_answer e0 of
       None \<Rightarrow> Some e0
     | Some a \<Rightarrow>
         (let e = e0\<lparr>en_answer := None\<rparr>
          in if aw_what a = WindowKind then try_window e
             else if too_late (aw_start a) e then Some (give_up a e)
             else give_answer a e))"

definition heard_all :: "'h engine \<Rightarrow> bool" where
  "heard_all e = (case (rv_grid (en_rx e), en_grant e) of
       (Some (_, n, _), Some _) \<Rightarrow> list_all (\<lambda>k. list_ex (\<lambda>x. rr_slot x = k) (rv_rx (en_rx e))) [0..<n]
     | _ \<Rightarrow> False)"

definition decide_if_final :: "'h engine \<Rightarrow> 'h engine option" where
  "decide_if_final e = (case en_answer e of
       None \<Rightarrow> Some e
     | Some a \<Rightarrow>
         if aw_what a = WindowKind \<or> aw_what a = AnsKind \<and> \<not> heard_all e then Some e
         else key_answer (disarm AnswerTimer e))"

definition schedule :: "answer \<Rightarrow> 'h engine \<Rightarrow> 'h engine option" where
  "schedule a e =
     (if too_late (aw_start a) e then Some (give_up a e)
      else decide_if_final (arm AnswerTimer (max (en_now e) (aw_start a - own_latency (en_timing e)))
             (e\<lparr>en_answer := Some a\<rparr>)))"

text \<open>A \<open>DISC_ACK\<close> to a DISC, or a DISC to a left session's header.\<close>

definition answer_disc :: "grant_frame \<Rightarrow> heard \<Rightarrow> grant_kind \<Rightarrow> 'h engine \<Rightarrow> 'h engine option" where
  "answer_disc ctl frame kind e =
     (let end_s = hd_t_end frame + real (unat (gf_count ctl)) * frame_s (en_timing e) (gf_data_floor ctl);
          last_floor = (if 0 < gf_count ctl then gf_data_floor ctl else hd_floor frame);
          start = en_slot_start e end_s last_floor (unat (gf_level ctl)) (en_peer_turnaround_s e);
          a = answer_new (if kind = DiscAck then DiscAckKind else DiscKind) start (start + slack_s (en_config e))
                (gf_fam ctl \<or> floor_only (en_tx e))
      in schedule (a\<lparr>aw_session := gf_session ctl, aw_anchor := end_s, aw_snr_db := Some (hd_snr_db frame)\<rparr>) e)"

section \<open>The slot the master's transmission grants\<close>

definition measure_lateness :: "heard \<Rightarrow> 'h engine \<Rightarrow> 'h engine" where
  "measure_lateness frame e =
     (let cfg = en_config e;
          late = en_now e - hd_t_end frame - budget cfg (hd_floor frame)
                 + max 0 (own_latency (en_timing e) - key_s cfg);
          need = level_for cfg late
      in if en_need_level e < need then e\<lparr>en_need_level := need, en_on_time := 0\<rparr>
         else if need < en_need_level e
         then (if need_ease_after cfg \<le> en_on_time e + 1
               then e\<lparr>en_need_level := en_need_level e - 1, en_on_time := 0\<rparr>
               else e\<lparr>en_on_time := en_on_time e + 1\<rparr>)
         else e)"

definition schedule_slave :: "'h engine \<Rightarrow> 'h engine option" where
  "schedule_slave e = (case en_m_end e of
       None \<Rightarrow> Some e
     | Some m_end \<Rightarrow>
         if en_state e \<noteq> Connected then Some e
         else if (case en_answered_end e of None \<Rightarrow> False | Some x \<Rightarrow> \<bar>m_end - x\<bar> < 1 / 10 ^ 6) then Some e
         else (let cfg = en_config e; grant = en_grant e;
                   lv = (case grant of None \<Rightarrow> 0 | Some g \<Rightarrow> unat (gf_level g));
                   start = en_slot_start e m_end (en_m_last_floor e) lv (en_peer_turnaround_s e);
                   fl = sn_ans_sticky (en_tx e)
           in if (case grant of None \<Rightarrow> False | Some g \<Rightarrow> gf_flag g)
              then (let e1 = disarm AnswerTimer (e\<lparr>en_window := Some (start,
                          start + window_s cfg (en_grant_floor e) (unat (gf_n (the grant))), fl),
                          en_answer := None\<rparr>)
                in if has_work (en_tx e1) \<or> en_disc_requested e1 then try_window e1 else Some e1)
              else (let room = (case grant of
                              None \<Rightarrow> 0 | Some g \<Rightarrow> real (unat (gf_n g)) * frame_s (en_timing e) (gf_slot_floor g));
                        a = answer_new AnsKind start (start + slack_s cfg) fl
                in schedule (a\<lparr>aw_session := en_session e, aw_anchor := m_end, aw_room_s := room\<rparr>)
                     (e\<lparr>en_window := None\<rparr>))))"

definition next_transmission :: "'h engine \<Rightarrow> 'h engine" where
  "next_transmission e0 =
     (let e = (on_rx restart_rx e0)\<lparr>en_grant := None, en_m_end := None, en_window := None\<rparr>
      in case en_answer e of
           Some a \<Rightarrow> if aw_what a \<in> {AnsKind, WindowKind} then disarm AnswerTimer (e\<lparr>en_answer := None\<rparr>) else e
         | None \<Rightarrow> e)"

text \<open>Place a frame of the master's among its transmissions.\<close>

definition placed :: "heard \<Rightarrow> bool \<Rightarrow> 'h engine \<Rightarrow> bool \<times> 'h engine" where
  "placed frame decoded e =
     (if (case en_answered_end e of None \<Rightarrow> False | Some x \<Rightarrow> hd_t_end frame \<le> x + 1 / 10 ^ 6) then (False, e)
      else case en_m_end e of
        None \<Rightarrow> (True, e)
      | Some m_end \<Rightarrow>
          if m_end - 1 / 10 ^ 3 \<le> hd_t_start frame
          then (let owed = (case en_answered_end e of None \<Rightarrow> True | Some x \<Rightarrow> 1 / 10 ^ 6 < \<bar>m_end - x\<bar>)
            in if owed \<and> \<not> decoded then (False, e) else (True, next_transmission e))
          else (True, e))"

definition slave_header :: "grant_frame \<Rightarrow> heard \<Rightarrow> 'h engine \<Rightarrow> 'h engine option" where
  "slave_header ctl frame e0 = do {
     let e1 = on_rx (\<lambda>r. note_opening ctl (open_rx frame (unat (gf_count ctl)) (gf_data_floor ctl) r)) e0;
     e2 \<leftarrow> en_take_ack ctl True e1;
     let e3 = on_tx (\<lambda>s. s\<lparr>sn_ans_sticky := (gf_fam ctl \<or> floor_only s)\<rparr>) e2;
     schedule_slave (e3\<lparr>en_grant := Some ctl, en_grant_floor := hd_floor frame,
       en_m_end := Some (hd_t_end frame + real (unat (gf_count ctl)) * frame_s (en_timing e3) (gf_data_floor ctl)),
       en_m_last_floor := (if 0 < gf_count ctl then gf_data_floor ctl else hd_floor frame)\<rparr>)
   }"

definition slave_control :: "grant_frame \<Rightarrow> heard \<Rightarrow> 'h engine \<Rightarrow> 'h engine option" where
  "slave_control ctl frame e0 = (case placed frame True e0 of
       (False, e) \<Rightarrow> if gf_kind ctl = Header then en_take_ack ctl False e else Some e
     | (True, e) \<Rightarrow> do {
         e1 \<leftarrow> note_heard frame e;
         e2 \<leftarrow> en_peer_reading (gf_snr_db ctl) (measure_lateness frame e1);
         if gf_kind ctl = Disc
         then do { e3 \<leftarrow> end_session ''peer disconnected'' True e2; answer_disc ctl frame DiscAck e3 }
         else if gf_kind ctl \<noteq> Header then Some e2
         else slave_header ctl frame e2
       })"

definition slave_data :: "'h soft_frame \<Rightarrow> heard \<Rightarrow> bool \<Rightarrow> 'h engine \<Rightarrow> 'h engine option" where
  "slave_data soft frame decoded e0 = (case placed frame decoded e0 of
       (False, e) \<Rightarrow> Some (accept_late soft decoded e)
     | (True, e) \<Rightarrow> do {
         let (index, rv) = take_data soft (en_rx e);
         let e1 = put_rx (note_data index rv) e;
         e2 \<leftarrow> (case index of
             None \<Rightarrow> Some e1
           | Some i \<Rightarrow>
               (let x = rv_rx rv ! i
                in if rr_payload x = None then Some e1
                   else do {
                     e3 \<leftarrow> note_heard frame e1;
                     let e4 = measure_lateness frame e3;
                     (case hd_follows frame of
                        None \<Rightarrow> Some e4
                      | Some f \<Rightarrow>
                          if en_m_end e4 = None \<and> \<not> rr_combined x \<and> f < MAX_FOLLOWS
                          then schedule_slave (e4\<lparr>
                            en_m_end := Some (hd_t_end frame + real (unat f) * (hd_t_end frame - hd_t_start frame)),
                            en_m_last_floor := pt_is_floor (en_timing e4) (hd_mode frame)\<rparr>)
                          else Some e4)
                   }));
         decide_if_final e2
       })"

end
