(* ===== verification/Engine_Leave.thy ===== *)
theory Engine_Leave
  imports Engine_Answer
begin

text \<open>
  The end of a session, of \<open>core/aether-link/src/granted.rs\<close>: what an idle station answers of a session
  it has left, an aborting master's DISC, and the closing identifier.
\<close>

section \<open>The closing identifier\<close>

definition identify_after_leaving :: "'h engine \<Rightarrow> 'h engine" where
  "identify_after_leaving e =
     (if 0 < en_id_owed e \<and> \<not> en_id_alone e \<and> en_state e = Idle
      then arm IdentTimer (max (en_now e) (en_hold_until e)) e else e)"

definition send_identifier :: "'h engine \<Rightarrow> 'h engine" where
  "send_identifier e =
     (let len = en_id_owed e
      in if len \<le> 0 then e
         else if en_state e \<noteq> Idle \<and> \<not> (en_state e = Connecting \<and> en_connect_tries e = 0) then e
         else if en_now e < en_hold_until e - 1 / 10 ^ 9 then arm IdentTimer (en_hold_until e) e
         else (let keying = keying_default\<lparr>ky_identifier_s := len, ky_listen_first := en_id_listen e\<rparr>;
                   (end_s, e1) = transmit [] keying None (e\<lparr>en_id_owed := 0\<rparr>)
               in e1\<lparr>en_hold_until := max (en_hold_until e1) end_s\<rparr>))"

definition drop_identifier :: "'h engine \<Rightarrow> 'h engine" where
  "drop_identifier e = disarm IdentTimer (e\<lparr>en_id_owed := 0\<rparr>)"

definition owe_again :: "f64 \<Rightarrow> 'h engine \<Rightarrow> 'h engine option" where
  "owe_again ident e =
     (if ident \<le> 0 \<or> en_state e \<noteq> Idle \<or> 0 < en_id_owed e then Some e
      else do {
        let e1 = e\<lparr>en_id_owed := ident, en_id_alone := True, en_id_listen := True\<rparr>;
        x \<leftarrow> en_exchange_s e1;
        Some (arm IdentTimer (en_now e1 + x) e1)
      })"

section \<open>A session left\<close>

definition left_answered_by :: "grant_frame \<Rightarrow> heard \<Rightarrow> bool \<Rightarrow> bool \<Rightarrow> 'h engine \<Rightarrow> 'h engine option" where
  "left_answered_by ctl frame disc_heard was_slave e =
     (if gf_kind ctl = Disc then answer_disc ctl frame DiscAck e
      else if gf_kind ctl = Header \<and> was_slave \<and> \<not> disc_heard then answer_disc ctl frame Disc e
      else Some e)"

text \<open>A \<open>DISC_ACK\<close> ends the leaving.\<close>

definition leaving_answered :: "heard \<Rightarrow> 'h engine \<Rightarrow> 'h engine" where
  "leaving_answered frame e0 =
     (let e = disarm LeaveTimer (e0\<lparr>en_left := None\<rparr>);
          leaving = (case en_slot e of None \<Rightarrow> False | Some sl \<Rightarrow> sl_kind sl = LeaveSlot)
      in identify_after_leaving
           (if leaving \<and> in_slot frame e
            then state_end (hd_t_end frame + en_peer_identifier_s e) (hd_floor frame) e else e))"

definition answer_left :: "grant_frame \<Rightarrow> heard \<Rightarrow> 'h engine \<Rightarrow> 'h engine option" where
  "answer_left ctl frame e = (case en_left e of
       None \<Rightarrow> Some e
     | Some (session, until, disc_heard, was_slave) \<Rightarrow>
         if until < en_now e then Some (e\<lparr>en_left := None\<rparr>)
         else if gf_session ctl \<noteq> session AND 0x7F then Some e
         else if gf_kind ctl = DiscAck then Some (leaving_answered frame e)
         else if en_state e = Connecting then Some e
         else do {
           e1 \<leftarrow> (if 0 < en_id_owed e \<and> en_id_alone e
                  then do { x \<leftarrow> en_exchange_s e; Some (arm IdentTimer (en_now e + x) e) }
                  else Some e);
           left_answered_by ctl frame disc_heard was_slave e1
         })"

definition leave_slot :: "u8 \<Rightarrow> 'h engine \<Rightarrow> slot \<times> tx_frame" where
  "leave_slot session e =
     (let ctl = (grant_new Disc (session AND 0x7F))\<lparr>gf_fam := True,
            gf_level := u8_or 3 (en_silence_level e), gf_ident := (0 < en_peer_identifier_s e)\<rparr>;
          sl = (slot_new LeaveSlot (ctl_s (en_timing e) True + en_peer_identifier_s e) True (families_of True))
               \<lparr>sl_level := en_silence_level e, sl_granter_turnaround_s := cfg_turnaround_s (en_config e)\<rparr>
      in (sl, control_frame ctl True))"

definition repeat_leave :: "'h engine \<Rightarrow> 'h engine" where
  "repeat_leave e = (case en_left e of
       None \<Rightarrow> identify_after_leaving e
     | Some (session, until, _, _) \<Rightarrow>
         if en_state e \<noteq> Idle \<or> en_leave_repeats e = 0 then identify_after_leaving e
         else if en_now e < en_hold_until e - 1 / 10 ^ 9 then arm LeaveTimer (en_hold_until e) e
         else if until < en_now e then identify_after_leaving (e\<lparr>en_left := None\<rparr>)
         else (let e1 = e\<lparr>en_leave_repeats := en_leave_repeats e - 1\<rparr>;
                   (sl, frame) = leave_slot session e1;
                   e2 = key_granting sl [frame] e1
               in if 0 < en_leave_repeats e2 then arm LeaveTimer (en_hold_until e2) e2
                  else identify_after_leaving e2))"

section \<open>The operator's end\<close>

definition disconnect_within :: "f64 option \<Rightarrow> 'h engine \<Rightarrow> 'h engine option" where
  "disconnect_within drain_s e =
     (if en_state e = Idle then Some e
      else (let e1 = e\<lparr>en_disc_requested := True,
                  en_leave_drain_s := (case drain_s of None \<Rightarrow> en_leave_drain_s e | Some d \<Rightarrow> max d 0),
                  en_leave_since := (case en_leave_since e of None \<Rightarrow> Some (en_now e) | Some t \<Rightarrow> Some t)\<rparr>
            in if en_role e1 = Slave \<and> en_window e1 \<noteq> None
               then try_window (e1\<lparr>en_cause := ''disconnect''\<rparr>) else Some e1))"

definition abort :: "'h engine \<Rightarrow> 'h engine option" where
  "abort e =
     (if en_state e = Idle then Some e
      else do {
        let was_master = (en_role e = Master);
        e1 \<leftarrow> end_session ''aborted'' False (e\<lparr>en_cause := ''abort''\<rparr>);
        Some (if was_master \<and> en_left e1 \<noteq> None
              then arm LeaveTimer (max (en_now e1) (en_hold_until e1))
                     (e1\<lparr>en_leave_repeats := cfg_leave_repeats (en_config e1)\<rparr>)
              else if was_master then identify_after_leaving e1 else e1)
      })"

text \<open>Queue bytes for the other station.\<close>

definition send_bytes :: "bytes \<Rightarrow> 'h engine \<Rightarrow> 'h engine option" where
  "send_bytes d e0 =
     (let e = on_tx (enqueue d) e0
      in if en_role e = Slave \<and> en_window e \<noteq> None then try_window (e\<lparr>en_cause := ''send''\<rparr>) else Some e)"

end
