(* ===== verification/Engine_Call.thy ===== *)
theory Engine_Call
  imports Engine_Leave
begin

text \<open>
  Calls and probes, of \<open>core/aether-link/src/granted.rs\<close>: their tries, what a called station answers, and
  how a session comes up.  A command that can be refused gives the reason (\<open>Inl\<close>) and changes nothing.
\<close>

section \<open>Session numbers\<close>

text \<open>
  Drawn until the control frame's seven bits of it are not all zero.  The draws step their state by an
  odd constant, so they would come to the state that gives a good number: the loop ends.
\<close>

lemma draw_period: "0xF1DE83E19937733D * 0x9E3779B97F4A7C15 = (1 :: u64)"
  by simp

lemma draw_zero: "d + 0x9E3779B97F4A7C15 = 0 \<Longrightarrow> fst (below_draw 255 d) = 0"
  by (simp add: below_draw_def next_u64_def Let_def)

function new_session_number :: "draws \<Rightarrow> u8 \<times> draws" where
  "new_session_number d =
     (let (v, d') = below_draw 255 d; session = u8_or 1 (1 + unat v)
      in if session AND 0x7F \<noteq> 0 then (session, d') else new_session_number d')"
  by pat_completeness auto
termination
proof (relation "measure (\<lambda>d. unat (- (d * 0xF1DE83E19937733D) - 1 :: u64))")
  fix d :: draws and x v d' session
  assume x: "x = below_draw 255 d" "(v, d') = x" and s: "session = u8_or 1 (1 + unat v)"
    and bad: "\<not> session AND 0x7F \<noteq> 0"
  have d': "d' = d + 0x9E3779B97F4A7C15"
    using x by (simp add: below_draw_def next_u64_def Let_def split_beta)
  have "d' \<noteq> 0"
  proof
    assume "d' = 0"
    with d' have "fst (below_draw 255 d) = 0" by (intro draw_zero) simp
    moreover have "v = fst (below_draw 255 d)" using x by (metis fst_conv)
    ultimately have "session = 1" using s by (simp add: u8_or_def)
    with bad show False by simp
  qed
  have step: "- (d' * 0xF1DE83E19937733D) - 1 = - (d * 0xF1DE83E19937733D) - 1 - (1 :: u64)"
    using draw_period by (simp add: d' algebra_simps)
  have "- (d * 0xF1DE83E19937733D) - 1 \<noteq> (0 :: u64)"
  proof
    assume "- (d * 0xF1DE83E19937733D) - 1 = (0 :: u64)"
    then have "- (d' * 0xF1DE83E19937733D) = (0 :: u64)" using step by simp
    then have "d' * 0xF1DE83E19937733D * 0x9E3779B97F4A7C15 = 0" by simp
    with \<open>d' \<noteq> 0\<close> show False unfolding mult.assoc draw_period by simp
  qed
  then have "unat (- (d' * 0xF1DE83E19937733D) - 1 :: u64) < unat (- (d * 0xF1DE83E19937733D) - 1 :: u64)"
    unfolding step by (rule measure_unat)
  then show "(d', d) \<in> measure (\<lambda>d. unat (- (d * 0xF1DE83E19937733D) - 1 :: u64))" by simp
qed simp

declare new_session_number.simps [simp del]

section \<open>What is called, and as whom\<close>

definition hz_name :: "nat option \<Rightarrow> string" where
  "hz_name hz = (case hz of None \<Rightarrow> ''an unknown bandwidth'' | Some n \<Rightarrow> decimal n @ '' Hz'')"

definition mismatch :: "u8 \<Rightarrow> 'h engine \<Rightarrow> string" where
  "mismatch caps e =
     (let own = capabilities (en_config e)
      in if bandwidth_code caps = bandwidth_code own then []
         else '' '' @ em_dash @ '' runs '' @ hz_name (bandwidth_hz_of caps) @ '', this station '' @
              hz_name (bandwidth_hz_of own))"

definition ident_for :: "grant_config \<Rightarrow> string \<Rightarrow> f64" where
  "ident_for cfg call = (case identifiers cfg (to_ascii_uppercase call) of None \<Rightarrow> identifier_s cfg | Some s \<Rightarrow> s)"

definition packs :: "string \<Rightarrow> bool" where
  "packs call = (case pack_callsign call of Inl _ \<Rightarrow> False | Inr _ \<Rightarrow> True)"

definition set_callsigns :: "string list \<Rightarrow> 'h engine \<Rightarrow> string + 'h engine" where
  "set_callsigns calls e =
     (if en_state e \<noteq> Idle then Inl ''a session is running''
      else let cleaned = filter (\<lambda>c. c \<noteq> []) (map (\<lambda>c. to_ascii_uppercase (trim c)) calls)
        in if cleaned = [] then Inl ''at least one callsign is needed''
           else if \<not> list_all packs cleaned then Inl ''a callsign cannot be packed''
           else Inr (e\<lparr>en_my_call := hd cleaned, en_callsigns := cleaned\<rparr>))"

definition calling_as :: "string option \<Rightarrow> 'h engine \<Rightarrow> (string + 'h engine) option" where
  "calling_as as_call e = (case as_call of
       None \<Rightarrow> do { c \<leftarrow> get (en_callsigns e) 0; Some (Inr (e\<lparr>en_my_call := c\<rparr>)) }
     | Some call \<Rightarrow>
         (let c = to_ascii_uppercase (trim call)
          in Some (if c \<in> set (en_callsigns e) then Inr (e\<lparr>en_my_call := c\<rparr>)
                   else Inl ''not one of this station's callsigns'')))"

definition call_families :: "phy_timing \<Rightarrow> families" where
  "call_families t = (if 0 < pt_floor_modes t then families_both else families_of False)"

text \<open>The longest robust frame of a set of families.\<close>

definition longest_robust :: "phy_timing \<Rightarrow> families \<Rightarrow> f64 option" where
  "longest_robust t fams = do {
     ordinary \<leftarrow> (if fam_ordinary fams then robust_frame_s t False else Some 0);
     flr \<leftarrow> (if fam_floor fams then robust_frame_s t True else Some 0);
     max_of (\<lambda>fl. if fl then flr else ordinary) fams
   }"

section \<open>The call\<close>

definition connect_floor :: "'h engine \<Rightarrow> bool" where
  "connect_floor e \<longleftrightarrow> 0 < pt_floor_modes (en_timing e) \<and> (floor_only (en_tx e) \<or> even (en_connect_tries e))"

definition call_level :: "'h engine \<Rightarrow> nat" where
  "call_level e = min (length (levels_s (en_config e)) - 1) (en_connect_tries e div 2)"

definition send_connect :: "'h engine \<Rightarrow> 'h engine option" where
  "send_connect e = do {
     let t = en_timing e;
     let cfg = en_config e;
     let lv = call_level e;
     let body = \<lparr>cb_src = en_my_call e, cb_dst = en_remote_call e,
       cb_caps = with_level (capabilities cfg) (u8_or 3 lv), cb_version = PROTOCOL_VERSION,
       cb_snr_db = None, cb_turnaround_s = cfg_turnaround_s cfg, cb_identifier_s = en_my_ident_s e\<rparr>;
     frame \<leftarrow> handshake_frame t ConnectReq (en_session e) (connect_encode body) (connect_floor e);
     (case frame of
        None \<Rightarrow> Some e
      | Some f \<Rightarrow> do {
          let tries = en_connect_tries e + 1;
          robust_s \<leftarrow> robust_frame_s t True;
          let (jitter, rng) = uniform_draw 0 (real (1 + tries) * robust_s) (en_rng e);
          let fams = call_families t;
          grant_len \<leftarrow> longest_robust t fams;
          let sl = (slot_new ConnectSlot grant_len (pt_is_floor t (tx_mode f)) fams)
                     \<lparr>sl_level := lv, sl_granter_turnaround_s := cfg_turnaround_s cfg\<rparr>;
          Some (key_granting sl [f] (e\<lparr>en_connect_tries := tries, en_call_jitter := jitter, en_rng := rng\<rparr>))
        })
   }"

definition retry_connect :: "'h engine \<Rightarrow> 'h engine option" where
  "retry_connect e =
     (if en_state e \<noteq> Connecting then Some e
      else if connect_retries (en_config e) \<le> en_connect_tries e then end_session ''no answer'' False e
      else send_connect e)"

text \<open>Whether a call or a probe may go now: the last slot granted over, no identifier to go first.\<close>

definition free_to_key :: "'h engine \<Rightarrow> bool" where
  "free_to_key e \<longleftrightarrow> en_hold_until e - 1 / 10 ^ 9 \<le> en_now e \<and> armed IdentTimer e = None"

definition start_call :: "string \<Rightarrow> 'h engine \<Rightarrow> 'h engine option" where
  "start_call remote e0 = do {
     let e1 = (if 0 < en_id_owed e0 \<and> remote = en_remote_call e0 then drop_identifier e0
               else if 0 < en_id_owed e0 then arm IdentTimer (max (en_now e0) (en_hold_until e0)) e0 else e0);
     let (session, rng) = new_session_number (en_rng e1);
     e2 \<leftarrow> reset_session (disarm LeaveTimer (set_role NoRole (set_session session (e1\<lparr>
       en_remote_call := remote, en_rng := rng, en_state := Connecting, en_connect_tries := 0,
       en_left := None\<rparr>))));
     let e3 = e2\<lparr>en_my_ident_s := ident_for (en_config e2) (en_my_call e2), en_cause := ''connect''\<rparr>;
     if free_to_key e3 then send_connect e3 else Some (arm ConnectTimer (en_hold_until e3) e3)
   }"

definition connect :: "string \<Rightarrow> string option \<Rightarrow> 'h engine \<Rightarrow> (string + 'h engine) option" where
  "connect remote_call as_call e =
     (if en_state e \<noteq> Idle then Some (Inl ''already in a session'')
      else let remote = to_ascii_uppercase (trim remote_call)
        in if \<not> packs remote then Some (Inl ''the callsign cannot be packed'')
           else do {
             named \<leftarrow> calling_as as_call e;
             (case named of
                Inl err \<Rightarrow> Some (Inl err)
              | Inr e1 \<Rightarrow> map_option Inr (start_call remote e1))
           })"

section \<open>The probe\<close>

definition send_probe :: "'h engine \<Rightarrow> 'h engine option" where
  "send_probe e0 = (let e = e0\<lparr>en_probe_unsent := False\<rparr> in case en_probing e of
       None \<Rightarrow> Some e
     | Some remote \<Rightarrow> do {
         let t = en_timing e;
         let cfg = en_config e;
         let lv = level_for cfg (cfg_turnaround_s cfg - budget cfg True - key_s cfg);
         let body = \<lparr>pb_src = en_my_call e, pb_dst = remote, pb_snr_db = None,
           pb_caps = with_level (capabilities cfg) (u8_or 3 lv)\<rparr>;
         frame \<leftarrow> handshake_frame t data_kind.Probe 0 (probe_encode body) True;
         (case frame of
            None \<Rightarrow> Some e
          | Some f \<Rightarrow> do {
              let fams = call_families t;
              grant_len \<leftarrow> longest_robust t fams;
              let sl = (slot_new ProbeSlot grant_len (pt_is_floor t (tx_mode f)) fams)\<lparr>sl_level := lv\<rparr>;
              Some (key_granting sl [f] e)
            })
       })"

definition probe :: "string \<Rightarrow> string option \<Rightarrow> 'h engine \<Rightarrow> (string + 'h engine) option" where
  "probe remote_call as_call e =
     (if en_state e \<noteq> Idle then Some (Inl ''already in a session'')
      else if en_probing e \<noteq> None then Some (Inl ''a probe is already out'')
      else let remote = to_ascii_uppercase (trim remote_call)
        in if \<not> packs remote then Some (Inl ''the callsign cannot be packed'')
           else do {
             named \<leftarrow> calling_as as_call e;
             (case named of
                Inl err \<Rightarrow> Some (Inl err)
              | Inr e1 \<Rightarrow> do {
                  let e2 = e1\<lparr>en_probing := Some remote\<rparr>;
                  let e3 = (if 0 < en_id_owed e2 then arm IdentTimer (max (en_now e2) (en_hold_until e2)) e2 else e2);
                  let e4 = tally (\<lambda>st. st\<lparr>probes_sent := probes_sent st + 1\<rparr>)
                    (e3\<lparr>en_last_probe := None, en_cause := ''probe'', en_probe_unsent := True\<rparr>);
                  map_option Inr (if free_to_key e4 then send_probe e4
                                  else Some (arm ProbeTimer (en_hold_until e4) e4))
                })
           })"

section \<open>A call heard\<close>

definition version_ok :: "connect_body \<Rightarrow> nat \<Rightarrow> string \<Rightarrow> 'h engine \<Rightarrow> bool \<times> 'h engine" where
  "version_ok cb sz verb e =
     (if cb_version cb = PROTOCOL_VERSION \<and> CONNECT_BODY_8_BYTES \<le> sz then (True, e)
      else (False, event ''ignored''
             (cb_src cb @ '' '' @ verb @ '' with link protocol '' @ decimal (unat (cb_version cb))) e))"

text \<open>The family of the acceptance.\<close>

definition acceptance_floor :: "heard \<Rightarrow> 'h engine \<Rightarrow> bool option" where
  "acceptance_floor frame e =
     (let t = en_timing e
      in if hd_floor frame \<or> floor_only (en_tx e) then Some (0 < pt_floor_modes t)
         else if pt_floor_modes t = 0 then Some False
         else do {
           mode \<leftarrow> robust_mode t False;
           Some (case threshold_db (en_rate e) mode of
               None \<Rightarrow> False | Some th \<Rightarrow> hd_snr_db frame < th + floor_answer_margin_db (en_config e))
         })"

definition schedule_acceptance :: "connect_body \<Rightarrow> heard \<Rightarrow> f64 \<Rightarrow> 'h engine \<Rightarrow> 'h engine option" where
  "schedule_acceptance req frame start e = do {
     fl \<leftarrow> acceptance_floor frame e;
     schedule ((answer_new ConnectAckKind start (start + slack_s (en_config e)) fl)
       \<lparr>aw_session := en_session e, aw_anchor := hd_t_end frame, aw_remote := cb_src req,
        aw_snr_db := Some (hd_snr_db frame)\<rparr>) e
   }"

definition accept_call :: "data_header \<Rightarrow> connect_body \<Rightarrow> heard \<Rightarrow> f64 \<Rightarrow> 'h engine \<Rightarrow> 'h engine option" where
  "accept_call header req frame start e0 = do {
     let e1 = (drop_identifier (e0\<lparr>en_my_call := cb_dst req\<rparr>))\<lparr>en_remote_call := cb_src req, en_left := None\<rparr>;
     e2 \<leftarrow> reset_session (disarm LeaveTimer (set_session (dh_session header) e1));
     let e3 = set_role Slave (e2\<lparr>en_my_ident_s := ident_for (en_config e2) (cb_dst req),
       en_peer_capabilities := cb_caps req AND NOT CAP_LEVEL_MASK,
       en_peer_turnaround_s := cb_turnaround_s req, en_peer_identifier_s := cb_identifier_s req,
       en_state := Connected\<rparr>);
     e4 \<leftarrow> note_heard frame e3;
     let e5 = measure_lateness frame e4;
     fl \<leftarrow> acceptance_floor frame e5;
     let e6 = on_tx (\<lambda>s. s\<lparr>sn_ans_sticky := fl\<rparr>) e5;
     schedule_acceptance req frame start
       (event ''role'' ''slave'' (event ''connected'' (en_remote_call e6 @ '' (slave)'') e6))
   }"

text \<open>A call heard in a session; whether it is to be answered as from idle.\<close>

definition called_again ::
  "data_header \<Rightarrow> connect_body \<Rightarrow> heard \<Rightarrow> f64 \<Rightarrow> 'h engine \<Rightarrow> (bool \<times> 'h engine) option" where
  "called_again header req frame start e =
     (if cb_src req \<noteq> en_remote_call e then Some (False, e)
      else if dh_session header \<noteq> en_session e
      then do { e1 \<leftarrow> end_session (cb_src req @ '' called again'') False e; Some (True, e1) }
      else if en_role e = Slave \<and> en_m_end e = None \<and> en_grant e = None
      then do {
        e1 \<leftarrow> note_heard frame e;
        e2 \<leftarrow> schedule_acceptance req frame start (measure_lateness frame e1);
        Some (False, e2)
      }
      else Some (False, e))"

definition answer_call :: "data_header \<Rightarrow> connect_body \<Rightarrow> heard \<Rightarrow> f64 \<Rightarrow> 'h engine \<Rightarrow> 'h engine option" where
  "answer_call header req frame start e =
     (if start < en_hold_until e - 1 / 10 ^ 9 \<or> en_probing e \<noteq> None then Some e
      else if en_state e = Connecting
      then if cb_src req = en_remote_call e \<and> str_less (en_remote_call e) (en_my_call e) then Some e
           else accept_call header req frame start (disarm ConnectTimer e)
      else accept_call header req frame start e)"

definition on_request :: "data_header \<Rightarrow> connect_body \<Rightarrow> heard \<Rightarrow> nat \<Rightarrow> 'h engine \<Rightarrow> 'h engine option" where
  "on_request header req frame sz e0 =
     (if cb_dst req \<notin> set (en_callsigns e0) then Some e0
      else if bandwidth_code (cb_caps req) \<noteq> bandwidth_code (capabilities (en_config e0))
      then Some (event ''ignored'' (cb_src req @ '' calls in another bandwidth'' @ mismatch (cb_caps req) e0) e0)
      else (case version_ok req sz ''calls'' e0 of
          (False, e) \<Rightarrow> Some e
        | (True, e) \<Rightarrow>
            (let start = en_slot_start e (hd_t_end frame) (hd_floor frame) (unat (level_of (cb_caps req)))
                           (cb_turnaround_s req)
             in if en_state e \<in> {Connected, Disconnecting}
                then do {
                  (anew, e1) \<leftarrow> called_again header req frame start e;
                  if anew then answer_call header req frame start e1 else Some e1
                }
                else answer_call header req frame start e)))"

section \<open>An acceptance heard\<close>

definition seed_from :: "f64 option \<Rightarrow> 'h engine \<Rightarrow> 'h engine option" where
  "seed_from snr e = (case snr of
       None \<Rightarrow> Some e
     | Some v \<Rightarrow> do {
         rate \<leftarrow> seed v (en_rate e);
         Some (on_tx (\<lambda>s. s\<lparr>sn_peer_snr_db := Some v, sn_rate := rate,
           sn_hdr_floor := (if 0 < pt_floor_modes (sn_timing s)
             then floor_only s \<or> v < ctl_threshold (sn_timing s) + answer_floor_margin_db (sn_config s)
             else sn_hdr_floor s)\<rparr>) e)
       })"

definition on_acceptance :: "data_header \<Rightarrow> connect_body \<Rightarrow> heard \<Rightarrow> nat \<Rightarrow> 'h engine \<Rightarrow> 'h engine option" where
  "on_acceptance header ack frame sz e0 =
     (if en_state e0 \<noteq> Connecting \<or> dh_session header \<noteq> en_session e0 then Some e0
      else if cb_dst ack \<noteq> en_my_call e0 then Some e0
      else if bandwidth_code (cb_caps ack) \<noteq> bandwidth_code (capabilities (en_config e0))
      then Some (event ''ignored'' (cb_src ack @ '' answers in another bandwidth'') e0)
      else (case version_ok ack sz ''answers'' e0 of
          (False, e) \<Rightarrow> Some e
        | (True, e) \<Rightarrow> do {
            let e1 = set_role Master ((disarm ConnectTimer e)\<lparr>
              en_peer_capabilities := cb_caps ack AND NOT CAP_LEVEL_MASK,
              en_peer_turnaround_s := cb_turnaround_s ack, en_peer_identifier_s := cb_identifier_s ack,
              en_level_asked := unat (level_of (cb_caps ack)), en_state := Connected\<rparr>);
            e2 \<leftarrow> note_heard frame e1;
            e3 \<leftarrow> seed_from (cb_snr_db ack) e2;
            let e4 = event ''role'' ''master'' (event ''connected'' (en_remote_call e3 @ '' (master)'')
              (e3\<lparr>en_possible := families_of (hd_floor frame)\<rparr>));
            Some (if in_slot frame e4 then state_end (hd_t_end frame) (hd_floor frame) e4 else arm_wait e4)
          }))"

definition on_connect :: "data_header \<Rightarrow> bytes \<Rightarrow> heard \<Rightarrow> 'h engine \<Rightarrow> 'h engine option" where
  "on_connect header body frame e = (case connect_decode body of
       Inl _ \<Rightarrow> Some e
     | Inr cb \<Rightarrow> if dh_kind header = ConnectReq then on_request header cb frame (length body) e
         else on_acceptance header cb frame (length body) e)"

section \<open>A probe or its answer heard\<close>

definition probed :: "probe_body \<Rightarrow> heard \<Rightarrow> 'h engine \<Rightarrow> 'h engine option" where
  "probed pb frame e =
     (if pb_dst pb \<notin> set (en_callsigns e) \<or> en_state e \<noteq> Idle \<or> en_probing e \<noteq> None then Some e
      else (let start = en_slot_start e (hd_t_end frame) (hd_floor frame) (unat (level_of (pb_caps pb))) 0
        in if start < en_hold_until e - 1 / 10 ^ 9 then Some e
           else (let across = (bandwidth_code (pb_caps pb) \<noteq> bandwidth_code (capabilities (en_config e)));
                     e1 = event ''probed'' (pb_src pb @ '' at '' @ fixed_str 1 (hd_snr_db frame) @ '' dB'' @
                            mismatch (pb_caps pb) e)
                          (tally (\<lambda>st. st\<lparr>probes_answered := probes_answered st + 1\<rparr>)
                            (e\<lparr>en_my_call := pb_dst pb\<rparr>));
                     a = answer_new ProbeAckKind start (start + slack_s (en_config e1))
                          (0 < pt_floor_modes (en_timing e1) \<and> (across \<or> hd_floor frame \<or> floor_only (en_tx e1)))
             in schedule (a\<lparr>aw_remote := pb_src pb, aw_snr_db := Some (hd_snr_db frame),
                            aw_anchor := hd_t_end frame\<rparr>) e1)))"

definition probe_answered :: "probe_body \<Rightarrow> heard \<Rightarrow> 'h engine \<Rightarrow> 'h engine" where
  "probe_answered pb frame e0 =
     (if en_probing e0 \<noteq> Some (pb_src pb) \<or> pb_dst pb \<noteq> en_my_call e0 then e0
      else (let e1 = tally (\<lambda>st. st\<lparr>probe_replies := probe_replies st + 1\<rparr>)
                  ((disarm ProbeTimer e0)\<lparr>en_probing := None,
                     en_last_probe := Some \<lparr>pr_remote = pb_src pb, pr_heard_there_db = pb_snr_db pb,
                       pr_heard_here_db = hd_snr_db frame, pr_bandwidth_hz = bandwidth_hz_of (pb_caps pb)\<rparr>\<rparr>);
                theirs = (case pb_snr_db pb of None \<Rightarrow> ''?'' | Some snr \<Rightarrow> fixed_str 0 snr);
                e2 = event ''probe'' (pb_src pb @ '' hears us at '' @ theirs @ '' dB, heard at '' @
                       fixed_str 1 (hd_snr_db frame) @ '' dB'' @ mismatch (pb_caps pb) e1) e1
            in if (case en_slot e2 of None \<Rightarrow> False | Some sl \<Rightarrow> sl_kind sl = ProbeSlot) \<and> in_slot frame e2
               then state_end (hd_t_end frame) (hd_floor frame) e2 else e2))"

definition on_probe :: "data_kind \<Rightarrow> bytes \<Rightarrow> heard \<Rightarrow> 'h engine \<Rightarrow> 'h engine option" where
  "on_probe kind body frame e = (case probe_decode body of
       Inl _ \<Rightarrow> Some e
     | Inr pb \<Rightarrow> if kind = data_kind.Probe then probed pb frame e else Some (probe_answered pb frame e))"

end
