(* ===== verification/Engine_Master.thy ===== *)
theory Engine_Master
  imports Engine_Call
begin

text \<open>
  The master of \<open>core/aether-link/src/granted.rs\<close>: what it makes of the slave's frames, how a slot it
  granted ends, and what it keys next: a header with its data, or without its header, or a DISC.
\<close>

section \<open>The slave's frames\<close>

text \<open>How far past the slot's slack the slave's answers start.\<close>

definition note_late :: "heard \<Rightarrow> 'h engine \<Rightarrow> 'h engine" where
  "note_late frame e = (case en_slot e of
       None \<Rightarrow> e
     | Some sl \<Rightarrow>
         if sl_open_window sl then e
         else (let late = hd_t_start frame - sl_start sl - slack_s (en_config e)
           in if en_peer_late_s e < late then e\<lparr>en_peer_late_s := late\<rparr>
              else e\<lparr>en_peer_late_s := max (max 0 late) (en_peer_late_s e - 1 / 10)\<rparr>))"

definition master_answer :: "grant_frame \<Rightarrow> heard \<Rightarrow> 'h engine \<Rightarrow> 'h engine option" where
  "master_answer ctl frame e0 = do {
     e1 \<leftarrow> en_take_ack ctl True (note_late frame e0);
     let e2 = on_tx (\<lambda>s. s\<lparr>sn_hdr_floor := (gf_fam ctl \<or> floor_only s)\<rparr>) e1;
     let e3 = e2\<lparr>en_slave_want := Some (unat (gf_n ctl)), en_level_asked := unat (gf_level ctl),
       en_possible := families_of (hd_floor frame), en_slave_leaves := gf_flag ctl,
       en_leave_since := (if gf_flag ctl \<and> en_leave_since e2 = None then Some (en_now e2) else en_leave_since e2),
       en_slave_floor_only := (if gf_count ctl = 0 then gf_data_floor ctl else en_slave_floor_only e2)\<rparr>;
     let e4 = on_rx (\<lambda>r. note_opening ctl (open_rx frame (unat (gf_count ctl)) (gf_data_floor ctl) r)) e3;
     let e5 = (if 0 < gf_count ctl \<or> gf_measure ctl then e4\<lparr>en_ack_owed := True\<rparr> else e4);
     Some (state_end (hd_t_end frame + real (unat (gf_count ctl)) * frame_s (en_timing e5) (gf_data_floor ctl))
             (if 0 < gf_count ctl then gf_data_floor ctl else hd_floor frame) e5)
   }"

definition close_reason :: "string \<Rightarrow> 'h engine \<Rightarrow> string" where
  "close_reason own e = (if en_peer_left e then ''peer disconnected'' else own)"

definition master_control :: "grant_frame \<Rightarrow> heard \<Rightarrow> 'h engine \<Rightarrow> 'h engine option" where
  "master_control ctl frame e0 =
     (if \<not> in_slot frame e0 then Some e0
      else do {
        e1 \<leftarrow> note_heard frame e0;
        e \<leftarrow> en_peer_reading (gf_snr_db ctl) e1;
        (case gf_kind ctl of
           DiscAck \<Rightarrow>
             if en_state e = Disconnecting
             then end_session (close_reason ''closed'' e) False
                    (state_end (hd_t_end frame + en_peer_identifier_s e) (hd_floor frame) e)
             else Some e
         | Disc \<Rightarrow> Some (state_end (hd_t_end frame) (hd_floor frame)
                     (e\<lparr>en_peer_left := True, en_state := Disconnecting\<rparr>))
         | Header \<Rightarrow> Some e
         | Answer \<Rightarrow> master_answer ctl frame e)
      })"

definition mark_heard :: "'h engine \<Rightarrow> 'h engine" where
  "mark_heard e = e\<lparr>en_slot := map_option (\<lambda>sl. sl\<lparr>sl_heard := True\<rparr>) (en_slot e)\<rparr>"

definition master_data :: "'h soft_frame \<Rightarrow> heard \<Rightarrow> bool \<Rightarrow> 'h engine \<Rightarrow> 'h engine option" where
  "master_data soft frame decoded e0 =
     (if \<not> in_slot frame e0 then Some (accept_late soft decoded e0)
      else (let (index, rv) = take_data soft (en_rx e0); e1 = put_rx (note_data index rv) e0
        in case index of
             None \<Rightarrow> Some e1
           | Some i \<Rightarrow>
               (let x = rv_rx rv ! i
                in if rr_payload x = None then Some e1
                   else do {
                     e2 \<leftarrow> note_heard frame e1;
                     let e3 = e2\<lparr>en_ack_owed := True\<rparr>;
                     Some (case hd_follows frame of
                         Some f \<Rightarrow>
                           if f < MAX_FOLLOWS \<and> \<not> rr_combined x
                           then state_end (hd_t_end frame + real (unat f) * (hd_t_end frame - hd_t_start frame))
                                  (pt_is_floor (en_timing e3) (hd_mode frame)) e3
                           else mark_heard e3
                       | None \<Rightarrow> mark_heard e3)
                   })))"

section \<open>The slot is over\<close>

definition note_silence :: "slot \<Rightarrow> 'h engine \<Rightarrow> 'h engine" where
  "note_silence sl e =
     (if sl_open_window sl then e
      else let recent = en_recent_silent e @ [\<not> sl_heard sl]
        in e\<lparr>en_recent_silent := drop (length recent - floor_answer_memory (en_config e)) recent\<rparr>)"

definition slot_answered :: "slot \<Rightarrow> 'h engine \<Rightarrow> 'h engine" where
  "slot_answered sl e0 =
     (let e = (on_tx (\<lambda>s. s\<lparr>sn_silent := 0\<rparr>) e0)\<lparr>en_answered_run := en_answered_run e0 + 1\<rparr>;
          e = (if on_time_to_lower (en_config e) \<le> en_answered_run e \<and> 0 < en_silence_level e
               then e\<lparr>en_silence_level := en_silence_level e - 1, en_answered_run := 0\<rparr> else e)
      in e\<lparr>en_idle_windows := (if sl_open_window sl then en_idle_windows e + 1 else 0)\<rparr>)"

definition slot_silent :: "slot \<Rightarrow> 'h engine \<Rightarrow> 'h engine option" where
  "slot_silent sl e0 =
     (let e1 = (on_tx (\<lambda>s. count_stat (\<lambda>st. st\<lparr>silent_slots := silent_slots st + 1\<rparr>)
                  (s\<lparr>sn_silent := sn_silent s + 1\<rparr>)) e0)\<lparr>en_answered_run := 0\<rparr>;
          e2 = on_tx measurement_unheard e1;
          e3 = (if sl_data sl \<and> hold_unknown (en_config e2) then on_tx mark_unknown e2 else e2);
          e4 = (if silence_levels_after (en_config e3) \<le> en_silent e3 \<and>
                   en_silence_level e3 < length (levels_s (en_config e3)) - 1
                then e3\<lparr>en_silence_level := en_silence_level e3 + 1\<rparr> else e3);
          e5 = (if sl_data sl
                then on_tx (\<lambda>s. s\<lparr>sn_rate := silent (silence_step (sn_config s)) (sn_rate s)\<rparr>) e4 else e4)
      in if max_retries (en_config e5) < en_silent e5 then end_session ''no response'' False e5 else Some e5)"

definition close_slot :: "'h engine \<Rightarrow> 'h engine option" where
  "close_slot e0 = (case en_slot e0 of
       None \<Rightarrow> Some e0
     | Some sl \<Rightarrow>
         (let e = note_silence sl (snd (close_rx (e0\<lparr>en_slot := None\<rparr>)))
          in if sl_heard sl then Some (slot_answered sl e)
             else if sl_open_window sl then Some (e\<lparr>en_idle_windows := en_idle_windows e + 1\<rparr>)
             else slot_silent sl e))"

section \<open>Leaving\<close>

definition say_left :: "string \<Rightarrow> 'h engine \<Rightarrow> 'h engine" where
  "say_left why e =
     (let own = (if en_slave_leaves e then 0 else tx_undelivered_bytes (en_tx e));
          theirs = (case en_slave_want e of None \<Rightarrow> 0 | Some n \<Rightarrow> n);
          left = (if 0 < own then [decimal own @ '' bytes not delivered''] else []) @
                 (if 0 < theirs then [''the other station's last '' @ decimal theirs @
                    '' frames not received''] else [])
      in if left = [] then e
         else event ''disconnect'' (join_with ''; '' left @ ''; closing '' @ why) e)"

definition can_leave :: "'h engine \<Rightarrow> (bool \<times> 'h engine) option" where
  "can_leave e0 =
     (if (all_acknowledged (en_tx e0) \<or> en_slave_leaves e0) \<and> en_slave_want e0 \<in> {None, Some 0} \<and>
         rv_max_seen (en_rx e0) = None
      then Some (True, e0)
      else do {
        patience \<leftarrow> en_disc_patience e0;
        let since = (case en_leave_since e0 of None \<Rightarrow> en_now e0 | Some t \<Rightarrow> t);
        let until = (case sn_patience_until (en_tx e0) of None \<Rightarrow> en_now e0 + patience | Some t \<Rightarrow> t);
        let e = (on_tx (\<lambda>s. s\<lparr>sn_patience_until := Some until\<rparr>) e0)\<lparr>en_leave_since := Some since\<rparr>;
        Some (if since + en_leave_drain_s e \<le> en_now e
              then (True, say_left (fixed_str 0 (en_now e - since) @ '' s after the disconnect was asked'') e)
              else if until \<le> en_now e
              then (True, say_left (''nothing acknowledged for '' @ fixed_str 0 patience @ '' s'') e)
              else (False, e))
      })"

section \<open>What the master keys\<close>

text \<open>Data frames granted, an open window or not, and the window's index.\<close>

definition grant_size :: "nat \<Rightarrow> 'h engine \<Rightarrow> nat \<times> bool \<times> nat" where
  "grant_size rung e =
     (let cfg = en_config e; t = en_timing e;
          fit0 = min (max_data_frames cfg) MAX_DATA;
          fit = (case max_burst_s cfg of
             None \<Rightarrow> fit0
           | Some limit \<Rightarrow> min fit0 (whole ((limit - ctl_s t True - en_peer_identifier_s e)
                                            / frame_s t (pt_is_floor t rung))))
      in case en_slave_want e of
           None \<Rightarrow> (min (first_grant cfg) fit, False, 0)
         | Some want \<Rightarrow>
             if 0 < want then (min want fit, False, 0)
             else if \<not> has_work (en_tx e) \<and> \<not> en_disc_requested e \<and> en_now e - en_heard_at e < keepalive_s cfg
             then (0, True, min (window_doublings cfg) (en_idle_windows e))
             else (0, False, 0))"

definition may_elide :: "nat \<Rightarrow> bool \<Rightarrow> bool \<Rightarrow> 'h engine \<Rightarrow> bool" where
  "may_elide n open_window wanted e \<longleftrightarrow>
     cfg_elide (en_config e) \<and> \<not> open_window \<and> n = 0 \<and> en_slave_want e = Some 0 \<and> en_silent e = 0 \<and>
     gap_level e = 0 \<and> en_possible e = families_of wanted \<and> \<not> en_ack_owed e \<and> has_work (en_tx e)"

text \<open>Whether the data laid out can go without its header.\<close>

definition goes_without :: "bool \<Rightarrow> bool \<Rightarrow> tx_frame list \<Rightarrow> 'h engine \<Rightarrow> bool option" where
  "goes_without elide hdr_floor data e =
     (let anchored = (elide \<and> sn_measure_out (en_tx e) = None \<and> data \<noteq> [] \<and>
            length data \<le> unat MAX_FOLLOWS + 1 \<and> list_ex (\<lambda>f. tx_rv f \<in> set READABLE_ALONE_RVS) data)
      in if header_above_recommendation (en_config e) \<and> \<not> hdr_floor
         then do { chosen \<leftarrow> own_choice (en_tx e); Some (anchored \<and> \<not> list_ex (\<lambda>f. chosen < tx_mode f) data) }
         else Some anchored)"

definition header_wanted :: "'h engine \<Rightarrow> bool" where
  "header_wanted e \<longleftrightarrow> wants_floor (en_tx e) \<or> 2 \<le> en_silent e \<or> list_ex (\<lambda>s. s) (en_recent_silent e)"

definition header_floor :: "'h engine \<Rightarrow> bool" where
  "header_floor e \<longleftrightarrow> sn_hdr_floor (en_tx e) \<or> 2 \<le> en_silent e \<or> floor_only (en_tx e)"

definition header_for ::
  "nat \<Rightarrow> bool \<Rightarrow> bool \<Rightarrow> nat \<Rightarrow> bool \<Rightarrow> tx_frame list \<Rightarrow> u8 \<times> u16 \<Rightarrow> 'h engine \<Rightarrow> grant_frame" where
  "header_for n open_window wanted index slot_floor data ack e = \<lparr>
     gf_kind = Header, gf_session = en_session e AND 0x7F, gf_count = u8_or 7 (length data),
     gf_data_floor = (case data of [] \<Rightarrow> False | f # _ \<Rightarrow> pt_is_floor (en_timing e) (tx_mode f)),
     gf_level = u8_or 3 (gap_level e), gf_fam = wanted, gf_flag = open_window, gf_ident = False,
     gf_measure = (sn_measure_out (en_tx e) \<noteq> None), gf_base = fst ack, gf_bitmap = snd ack,
     gf_snr_db = en_heard_db e, gf_slot_floor = slot_floor, gf_missed = rv_missed (en_rx e),
     gf_n = u8_or 7 (if open_window then index else n)\<rparr>"

definition send_header :: "'h engine \<Rightarrow> 'h engine option" where
  "send_header e0 = do {
     let t = en_timing e0;
     sized \<leftarrow> robust_mode t (en_slave_floor_only e0);
     let (n, open_window, index) = grant_size sized e0;
     let wanted = header_wanted e0;
     let hdr_floor = header_floor e0;
     let slave_floor = pt_is_floor t sized;
     (data, e1) \<leftarrow> (if open_window then Some ([], e0)
        else en_data_frames (map_option (\<lambda>limit. limit - ctl_s t hdr_floor) (max_burst_s (en_config e0))) e0);
     elide \<leftarrow> goes_without (may_elide n open_window wanted e0) hdr_floor data e1;
     let lv = (if elide then 0 else gap_level e1);
     let e2 = (if elide then e1 else e1\<lparr>en_possible := families_insert wanted (en_possible e1)\<rparr>);
     let answers = families_with wanted (en_possible e2);
     ans_s \<leftarrow> max_of (ctl_s t) answers;
     let answers = (if \<not> open_window \<and> 0 < n then families_insert slave_floor answers else answers);
     let grant_len = (if open_window then window_s (en_config e2) hdr_floor index
                      else ans_s + real n * frame_s t slave_floor);
     let data_floor = (case data of [] \<Rightarrow> False | f # _ \<Rightarrow> pt_is_floor t (tx_mode f));
     let (frames, e3) =
       (if elide then (data, tally (\<lambda>st. st\<lparr>headers_elided := headers_elided st + 1\<rparr>) e2)
        else let (ack, e4) = en_ack_fields e2
          in (control_frame (header_for n open_window wanted index slave_floor data ack e4) hdr_floor # data,
              e4\<lparr>en_ack_owed := False\<rparr>));
     Some (key_granting ((slot_new HeaderSlot grant_len (if data \<noteq> [] then data_floor else hdr_floor) answers)
       \<lparr>sl_level := lv, sl_granter_turnaround_s := cfg_turnaround_s (en_config e3), sl_open_window := open_window,
        sl_data := (data \<noteq> [] \<and> sn_measure_out (en_tx e3) = None), sl_granted := n\<rparr>) frames e3)
   }"

definition send_disc :: "'h engine \<Rightarrow> 'h engine option" where
  "send_disc e0 = do {
     let wanted = (wants_floor (en_tx e0) \<or> 1 \<le> en_silent e0);
     let fl = (sn_hdr_floor (en_tx e0) \<or> 1 \<le> en_silent e0 \<or> floor_only (en_tx e0));
     let lv = gap_level e0;
     let ctl = (grant_new Disc (en_session e0 AND 0x7F))\<lparr>gf_level := u8_or 3 lv, gf_fam := wanted,
       gf_ident := (0 < en_peer_identifier_s e0), gf_snr_db := en_heard_db e0\<rparr>;
     let e = e0\<lparr>en_disc_tries := en_disc_tries e0 + 1, en_possible := families_insert wanted (en_possible e0)\<rparr>;
     let answers = families_with wanted (en_possible e);
     ans_s \<leftarrow> max_of (ctl_s (en_timing e)) answers;
     Some (key_granting ((slot_new DiscSlot (ans_s + en_peer_identifier_s e) fl answers)
       \<lparr>sl_level := lv, sl_granter_turnaround_s := cfg_turnaround_s (en_config e)\<rparr>) [control_frame ctl fl] e)
   }"

definition proceed :: "'h engine \<Rightarrow> 'h engine option" where
  "proceed e0 =
     (if en_role e0 \<noteq> Master \<or> en_state e0 \<notin> {Connected, Disconnecting} then Some e0
      else do {
        e1 \<leftarrow> close_slot e0;
        if en_state e1 = Idle then Some e1
        else if en_state e1 = Disconnecting
        then if disc_retries (en_config e1) \<le> en_disc_tries e1
             then end_session_unread (close_reason ''closed (no DISC_ACK)'' e1) e1
             else send_disc e1
        else do {
          (leave, e2) \<leftarrow> (if en_disc_requested e1 \<or> en_slave_leaves e1 then can_leave e1 else Some (False, e1));
          if leave then send_disc (e2\<lparr>en_state := Disconnecting\<rparr>) else send_header e2
        }
      })"

end
