(* ===== verification/Engine_Inputs.thy ===== *)
theory Engine_Inputs
  imports Engine_Master
begin

text \<open>
  What comes into the engine of \<open>core/aether-link/src/granted.rs\<close>: time, frames, what became of its own
  transmissions, the operator's commands and settings; and \<open>handle\<close>, one input's effect.
\<close>

section \<open>Settings\<close>

definition update_config :: "(grant_config \<Rightarrow> grant_config) \<Rightarrow> 'h engine \<Rightarrow> 'h engine" where
  "update_config f e = set_config (f (en_config e)) e"

definition set_answer_gap :: "f64 \<Rightarrow> 'h engine \<Rightarrow> 'h engine" where
  "set_answer_gap seconds = update_config (\<lambda>c. c\<lparr>answer_gap_s := max seconds 0\<rparr>)"

definition set_max_burst_s :: "f64 option \<Rightarrow> 'h engine \<Rightarrow> 'h engine" where
  "set_max_burst_s seconds = update_config (\<lambda>c. c\<lparr>max_burst_s := seconds\<rparr>)"

definition set_ceiling :: "nat option \<Rightarrow> 'h engine \<Rightarrow> 'h engine" where
  "set_ceiling rung = update_config (\<lambda>c. c\<lparr>ceiling_rung := rung\<rparr>)"

definition set_max_mode :: "nat \<Rightarrow> 'h engine \<Rightarrow> 'h engine" where
  "set_max_mode rung = update_config (\<lambda>c. c\<lparr>max_mode := rung\<rparr>)"

definition set_tx_latency_s :: "f64 \<Rightarrow> 'h engine \<Rightarrow> 'h engine" where
  "set_tx_latency_s seconds e = set_timing ((en_timing e)\<lparr>tx_latency_s := seconds\<rparr>) e"

definition set_identifier_s :: "f64 \<Rightarrow> 'h engine \<Rightarrow> 'h engine" where
  "set_identifier_s seconds = update_config (\<lambda>c. c\<lparr>identifier_s := max seconds 0\<rparr>)"

definition set_identifiers :: "(string \<times> f64) list \<Rightarrow> 'h engine \<Rightarrow> 'h engine" where
  "set_identifiers lengths = update_config (\<lambda>c. c\<lparr>identifiers :=
     map_of (rev (map (\<lambda>(call, seconds). (to_ascii_uppercase (trim call), max seconds 0)) lengths))\<rparr>)"

definition set_turnaround_s :: "f64 \<Rightarrow> 'h engine \<Rightarrow> 'h engine" where
  "set_turnaround_s seconds = update_config (\<lambda>c. c\<lparr>cfg_turnaround_s := seconds\<rparr>)"

text \<open>Another air, from the next session or the next try of a call on.\<close>

definition move_to :: "phy_timing \<Rightarrow> u8 \<Rightarrow> nat option \<Rightarrow> 'h engine \<Rightarrow> 'h engine option" where
  "move_to t caps rung e0 = do {
     let e = update_config (\<lambda>c. c\<lparr>capabilities := caps,
       max_mode := (case rung of None \<Rightarrow> max_mode c | Some r \<Rightarrow> r)\<rparr>) (set_timing t e0);
     rate \<leftarrow> rate_for t;
     Some (price_controllers (on_tx (\<lambda>s. s\<lparr>sn_rate := rate\<rparr>) e))
   }"

definition set_air :: "phy_timing \<Rightarrow> u8 \<Rightarrow> nat option \<Rightarrow> 'h engine \<Rightarrow> (string + 'h engine) option" where
  "set_air t caps rung e =
     (if en_state e \<noteq> Idle \<or> en_probing e \<noteq> None then Some (Inl ''a session, a call or a probe is running'')
      else map_option Inr (move_to t caps rung e))"

definition move_call :: "phy_timing \<Rightarrow> u8 \<Rightarrow> nat option \<Rightarrow> 'h engine \<Rightarrow> (string + 'h engine) option" where
  "move_call t caps rung e =
     (if en_state e \<noteq> Connecting then Some (Inl ''no call is going out'')
      else map_option Inr (move_to t caps rung e))"

section \<open>What a caller reads and takes\<close>

definition drain :: "'h engine \<Rightarrow> action list \<times> 'h engine" where
  "drain e = (en_actions e, e\<lparr>en_actions := []\<rparr>)"

definition reset_stats :: "'h engine \<Rightarrow> 'h engine" where
  "reset_stats e = e\<lparr>en_tx := (en_tx e)\<lparr>sn_stats := stats_default\<rparr>, en_rx := (en_rx e)\<lparr>rv_stats := stats_default\<rparr>\<rparr>"

definition take_ladder :: "'h engine \<Rightarrow> ladder_rung list \<times> 'h engine" where
  "take_ladder e = (sn_ladder (en_tx e), on_tx (\<lambda>s. s\<lparr>sn_ladder := []\<rparr>) e)"

definition disconnect_requested :: "'h engine \<Rightarrow> bool" where
  "disconnect_requested e \<longleftrightarrow> en_disc_requested e \<and> en_state e = Connected"

definition leave_by :: "'h engine \<Rightarrow> f64 option" where
  "leave_by e = (if en_state e \<noteq> Connected then None
     else map_option (\<lambda>since. since + en_leave_drain_s e) (en_leave_since e))"

definition next_deadline :: "'h engine \<Rightarrow> f64 option" where
  "next_deadline e = earliest (en_deadlines e)"

section \<open>Its own transmissions\<close>

abbreviation at_time :: "f64 \<Rightarrow> 'h engine \<Rightarrow> 'h engine" where
  "at_time now e \<equiv> e\<lparr>en_now := max (en_now e) now\<rparr>"

text \<open>Whether what a transmission granted is the slot this station still waits to open.\<close>

definition grants_open_slot :: "nat option \<Rightarrow> 'h engine \<Rightarrow> bool" where
  "grants_open_slot granted e = (case (granted, en_slot e) of
     (Some granted_id, Some sl) \<Rightarrow> \<not> sl_final sl \<and> granted_id = sl_id sl | _ \<Rightarrow> False)"

definition on_tx_done :: "f64 \<Rightarrow> f64 option \<Rightarrow> 'h engine \<Rightarrow> 'h engine" where
  "on_tx_done now frames_end e0 = (let e = at_time now e0 in case en_in_flight e of
       [] \<Rightarrow> e
     | (granted, _, _) # rest \<Rightarrow>
         (let e1 = e\<lparr>en_in_flight := rest\<rparr>
          in if grants_open_slot granted e1
             then open_slot (case frames_end of None \<Rightarrow> now | Some t \<Rightarrow> t)
                    (e1\<lparr>en_slot := map_option (\<lambda>sl. sl\<lparr>sl_final := True\<rparr>) (en_slot e1)\<rparr>)
             else e1))"

definition on_tx_cut_unread :: "f64 \<Rightarrow> 'h engine \<Rightarrow> 'h engine option" where
  "on_tx_cut_unread now e0 = (let e = at_time now e0 in case en_in_flight e of
       [] \<Rightarrow> Some e
     | (granted, ident, was_measured) # rest \<Rightarrow> do {
         e1 \<leftarrow> owe_again ident (e\<lparr>en_in_flight := rest\<rparr>);
         let e2 = on_tx (ask_again was_measured) e1;
         Some (if grants_open_slot granted e2
           then (let e3 = e2\<lparr>en_slot := None, en_hold_until := en_now e2\<rparr>
             in if en_role e3 = Master \<and> en_state e3 \<in> {Connected, Disconnecting}
                then arm ProceedTimer (en_now e3) e3 else e3)
           else e2)
       })"

definition on_tx_dropped :: "f64 \<Rightarrow> 'h engine \<Rightarrow> 'h engine option" where
  "on_tx_dropped now e0 = do {
     let e = at_time now e0;
     e1 \<leftarrow> (case en_in_flight e of
        [] \<Rightarrow> Some e
      | (_, ident, was_measured) # rest \<Rightarrow> do {
          e2 \<leftarrow> owe_again ident (e\<lparr>en_in_flight := rest\<rparr>);
          Some (on_tx (ask_again was_measured) e2)
        });
     Some (tally (\<lambda>st. st\<lparr>dropped := dropped st + 1\<rparr>) e1)
   }"

definition on_tx_delayed :: "f64 \<Rightarrow> 'h engine \<Rightarrow> 'h engine" where
  "on_tx_delayed seconds e =
     (if seconds \<le> 0 then e
      else e\<lparr>en_deadlines := map (\<lambda>(t, due). (t, if t \<in> {LinkTimer, AnswerTimer} then due else due + seconds))
               (en_deadlines e),
             en_hold_until := en_hold_until e + seconds\<rparr>)"

section \<open>Time\<close>

definition expire_link :: "'h engine \<Rightarrow> 'h engine option" where
  "expire_link e = do {
     timeout \<leftarrow> en_link_timeout e;
     let due = en_heard_at e + timeout;
     if en_now e < due then Some (arm LinkTimer due e) else end_session ''link timeout'' False e
   }"

definition expire_probe :: "'h engine \<Rightarrow> 'h engine option" where
  "expire_probe e =
     (if en_probe_unsent e \<and> en_now e < en_hold_until e - 1 / 10 ^ 9
      then Some (arm ProbeTimer (en_hold_until e) e)
      else if en_probe_unsent e then send_probe e
      else case en_probing e of
        None \<Rightarrow> Some e
      | Some remote \<Rightarrow> Some (event ''probe'' (remote @ '': no answer'') (e\<lparr>en_probing := None\<rparr>)))"

definition expire_timer :: "timer \<Rightarrow> 'h engine \<Rightarrow> 'h engine option" where
  "expire_timer t e = (case t of
       LinkTimer \<Rightarrow> expire_link e
     | ConnectTimer \<Rightarrow>
         if en_now e < en_hold_until e - 1 / 10 ^ 9 then Some (arm ConnectTimer (en_hold_until e) e)
         else retry_connect e
     | ProbeTimer \<Rightarrow> expire_probe e
     | ProceedTimer \<Rightarrow> proceed e
     | AnswerTimer \<Rightarrow> key_answer e
     | LeaveTimer \<Rightarrow> Some (repeat_leave e)
     | IdentTimer \<Rightarrow> Some (send_identifier e))"

text \<open>A timer due when its turn comes; one before it may have moved or removed it.\<close>

definition run_timer :: "timer \<times> f64 \<Rightarrow> 'h engine \<Rightarrow> 'h engine option" where
  "run_timer td e =
     (case armed (fst td) e of
        None \<Rightarrow> Some e
      | Some due \<Rightarrow>
          if due \<le> en_now e + 1 / 10 ^ 9
          then expire_timer (fst td) ((disarm (fst td) e)\<lparr>en_cause := timer_cause (fst td)\<rparr>)
          else Some e)"

definition tick :: "f64 \<Rightarrow> 'h engine \<Rightarrow> 'h engine option" where
  "tick now e0 = (let e = at_time now e0 in for_each run_timer (sort_key snd (en_deadlines e)) e)"

section \<open>Frames\<close>

definition on_preamble :: "f64 \<Rightarrow> f64 \<Rightarrow> f64 option \<Rightarrow> 'h engine \<Rightarrow> 'h engine" where
  "on_preamble t_start now frame_len e0 =
     (let e = at_time now e0
      in if en_state e \<noteq> Connecting \<and> en_probing e = None then e
         else (let len = (case frame_len of None \<Rightarrow> data_frame_s_for (en_timing e) 0 | Some s \<Rightarrow> s);
                   clear = t_start + len + budget (en_config e) True + guard_s (en_config e);
                   e1 = (case armed ConnectTimer e of
                      Some due \<Rightarrow> if 0 < en_connect_tries e then arm ConnectTimer (max due clear) e else e
                    | None \<Rightarrow> e)
               in case armed ProbeTimer e1 of
                    Some due \<Rightarrow> if \<not> en_probe_unsent e1 then arm ProbeTimer (max due clear) e1 else e1
                  | None \<Rightarrow> e1))"

definition on_control :: "grant_frame \<Rightarrow> heard \<Rightarrow> 'h engine \<Rightarrow> 'h engine option" where
  "on_control ctl frame e =
     (if en_state e \<in> {Idle, Connecting} then answer_left ctl frame e
      else if gf_session ctl \<noteq> en_session e AND 0x7F then Some e
      else if en_role e = Master then master_control ctl frame e
      else slave_control ctl frame e)"

text \<open>A decoded DATA frame that is no session data; whether it is this session's.\<close>

definition outside :: "bytes \<Rightarrow> heard \<Rightarrow> 'h engine \<Rightarrow> (bool \<times> 'h engine) option" where
  "outside payload frame e = (case decode_data payload of
       Inl _ \<Rightarrow> Some (False, e)
     | Inr (header, body) \<Rightarrow>
         if dh_kind header \<in> {ConnectReq, ConnectAck}
         then map_option (Pair False) (on_connect header body frame e)
         else if dh_kind header \<in> {data_kind.Probe, ProbeAck}
         then map_option (Pair False) (on_probe (dh_kind header) body frame e)
         else Some (\<not> outside_sessions (dh_kind header) \<and> dh_session header = en_session e, e))"

definition session_data :: "'h soft_frame \<Rightarrow> heard \<Rightarrow> bool \<Rightarrow> 'h engine \<Rightarrow> 'h engine option" where
  "session_data soft frame decoded e =
     (if en_state e \<notin> {Connected, Disconnecting} then Some e
      else if \<not> decoded \<and> \<not> hd_trusted frame then Some e
      else if hd_floor frame \<noteq> pt_is_floor (en_timing e) (hd_mode frame)
      then Some (tally (\<lambda>st. st\<lparr>frames_failed := frames_failed st + 1\<rparr>) e)
      else if en_role e = Master then master_data soft frame decoded e
      else if en_role e = Slave then slave_data soft frame decoded e
      else Some e)"

definition on_frame :: "container \<Rightarrow> 'h soft_frame \<Rightarrow> f64 \<Rightarrow> 'h engine \<Rightarrow> 'h engine option" where
  "on_frame kind soft now e0 =
     (let e = (at_time now e0)\<lparr>en_cause := ''frame'', en_rx := (en_rx e0)\<lparr>rv_last_data := None\<rparr>\<rparr>;
          frame = sf_heard soft; payload = fst (sf_decode soft None)
      in if kind = Control
         then (case payload of
             None \<Rightarrow> Some e
           | Some bs \<Rightarrow> (case grant_decode bs of Inl _ \<Rightarrow> Some e | Inr ctl \<Rightarrow> on_control ctl frame e))
         else (case payload of
             None \<Rightarrow> session_data soft frame False e
           | Some bs \<Rightarrow> do {
               (mine, e1) \<leftarrow> outside bs frame e;
               if mine then session_data soft frame True e1 else Some e1
             }))"

section \<open>One input\<close>

datatype 'h input =
    Tick f64
  | TxDone f64 "f64 option"
  | TxCutUnread f64
  | TxDropped f64
  | TxDelayed f64
  | Preamble f64 f64 "f64 option"
  | Heard container "'h soft_frame" f64
  | Connect string "string option"
  | ProbeCall string "string option"
  | Disconnect "f64 option"
  | Abort
  | SendData bytes
  | PinMode "nat option" "nat option"
  | MeasureRung nat nat
  | SetCallsigns "string list"
  | SetAir phy_timing u8 "nat option"
  | MoveCall phy_timing u8 "nat option"

text \<open>A command refused changes nothing.\<close>

definition unless_refused :: "'h engine \<Rightarrow> string + 'h engine \<Rightarrow> 'h engine" where
  "unless_refused e r = (case r of Inl _ \<Rightarrow> e | Inr e' \<Rightarrow> e')"

definition command_tx :: "(sender \<Rightarrow> string + sender) \<Rightarrow> 'h engine \<Rightarrow> 'h engine" where
  "command_tx f e = (case f (en_tx e) of Inl _ \<Rightarrow> e | Inr s \<Rightarrow> e\<lparr>en_tx := s\<rparr>)"

fun handle :: "'h input \<Rightarrow> 'h engine \<Rightarrow> 'h engine option" where
  "handle (Tick now) e = tick now e"
| "handle (TxDone now frames_end) e = Some (on_tx_done now frames_end e)"
| "handle (TxCutUnread now) e = on_tx_cut_unread now e"
| "handle (TxDropped now) e = on_tx_dropped now e"
| "handle (TxDelayed seconds) e = Some (on_tx_delayed seconds e)"
| "handle (Preamble t_start now len) e = Some (on_preamble t_start now len e)"
| "handle (Heard kind soft now) e = on_frame kind soft now e"
| "handle (Connect remote as_call) e = map_option (unless_refused e) (connect remote as_call e)"
| "handle (ProbeCall remote as_call) e = map_option (unless_refused e) (probe remote as_call e)"
| "handle (Disconnect drain_s) e = disconnect_within drain_s e"
| "handle Abort e = abort e"
| "handle (SendData d) e = send_bytes d e"
| "handle (PinMode m body) e = Some (command_tx (pin_mode m body) e)"
| "handle (MeasureRung m frames) e = Some (command_tx (measure_rung m frames) e)"
| "handle (SetCallsigns calls) e = Some (unless_refused e (set_callsigns calls e))"
| "handle (SetAir t caps rung) e = map_option (unless_refused e) (set_air t caps rung e)"
| "handle (MoveCall t caps rung) e = map_option (unless_refused e) (move_call t caps rung e)"

end
