(* ===== verification/Engine_View.thy ===== *)
theory Engine_View
  imports Engine_Inputs Sender_Laws Receiver_Laws
begin

text \<open>
  What the engine's operations leave alone: each half's session number, timing and configuration, and,
  seen through \<open>control\<close>, the part of the engine that decides when it may key (state, role, timers, slot,
  answer, window, hold).  Operations on the data leave the whole view as it is.
\<close>

section \<open>The halves\<close>

definition tx_static :: "sender \<Rightarrow> u8 \<times> phy_timing \<times> grant_config \<times> role" where
  "tx_static s = (sn_session s, sn_timing s, sn_config s, sn_role s)"

definition rx_static :: "'h receiver \<Rightarrow> u8 \<times> phy_timing \<times> grant_config" where
  "rx_static r = (rv_session r, rv_timing r, rv_config r)"

named_theorems static \<open>operations of the halves and what they leave alone\<close>

lemma tx_static_eq: "tx_static s' = tx_static s \<longleftrightarrow> sn_session s' = sn_session s \<and> sn_timing s' = sn_timing s \<and>
    sn_config s' = sn_config s \<and> sn_role s' = sn_role s"
  by (auto simp: tx_static_def)

lemma rx_static_eq: "rx_static r' = rx_static r \<longleftrightarrow> rv_session r' = rv_session r \<and> rv_timing r' = rv_timing r \<and>
    rv_config r' = rv_config r"
  by (auto simp: rx_static_def)

subsection \<open>The sender\<close>

lemma tx_static_simps [simp]:
  "tx_static (count_stat f s) = tx_static s" "tx_static (set_record q r s) = tx_static s"
  "tx_static (s\<lparr>sn_records := m\<rparr>) = tx_static s" "tx_static (s\<lparr>sn_rate := c\<rparr>) = tx_static s"
  "tx_static (s\<lparr>sn_queue := d\<rparr>) = tx_static s" "tx_static (s\<lparr>sn_next := n\<rparr>) = tx_static s"
  "tx_static (s\<lparr>sn_base := n\<rparr>) = tx_static s" "tx_static (s\<lparr>sn_sent_copies := cs\<rparr>) = tx_static s"
  "tx_static (s\<lparr>sn_piece_bound := b\<rparr>) = tx_static s" "tx_static (s\<lparr>sn_peer_snr_db := v\<rparr>) = tx_static s"
  "tx_static (s\<lparr>sn_peer_missed := mi\<rparr>) = tx_static s" "tx_static (s\<lparr>sn_answered_rung := ar\<rparr>) = tx_static s"
  "tx_static (s\<lparr>sn_patience_until := pu\<rparr>) = tx_static s" "tx_static (s\<lparr>sn_hdr_floor := hf\<rparr>) = tx_static s"
  "tx_static (s\<lparr>sn_ans_sticky := hf\<rparr>) = tx_static s" "tx_static (s\<lparr>sn_silent := si\<rparr>) = tx_static s"
  "tx_static (s\<lparr>sn_heard_recent := hr\<rparr>) = tx_static s" "tx_static (s\<lparr>sn_ladder := la\<rparr>) = tx_static s"
  "tx_static (s\<lparr>sn_measure_out := mo\<rparr>) = tx_static s" "tx_static (s\<lparr>sn_measure_ask := mo\<rparr>) = tx_static s"
  "tx_static (s\<lparr>sn_measure_unheard := mb\<rparr>) = tx_static s" "tx_static (s\<lparr>sn_measure_again := mb\<rparr>) = tx_static s"
  "tx_static (s\<lparr>sn_top_acked_mode := tm\<rparr>) = tx_static s" "tx_static (s\<lparr>sn_stats := st\<rparr>) = tx_static s"
  "tx_static (price s) = tx_static s" "tx_static (enqueue d s) = tx_static s"
  "tx_static (mark_unknown s) = tx_static s" "tx_static (forget_unknown s) = tx_static s"
  "tx_static (mark_acked newly s) = tx_static s"
  by (simp_all add: tx_static_eq count_stat_def set_record_def price_def enqueue_def mark_unknown_def forget_unknown_def
    mark_acked_def Let_def)

lemma tx_static_ops [static]:
  "tx_static (ask_again b s) = tx_static s" "tx_static (take_report ctl s) = tx_static s"
  "tx_static (measurement_unheard s) = tx_static s" "tx_static (reset_tx rate s) = tx_static s"
  "tx_static (reencode_block q r target s) = tx_static s"
  by (auto simp: tx_static_eq ask_again_def take_report_def measurement_unheard_def reset_tx_def reencode_block_def
    count_stat_def set_record_def split: option.split)

abbreviation keeps_static :: "sender option \<Rightarrow> sender \<Rightarrow> bool" where
  "keeps_static r s \<equiv> yields r (\<lambda>s'. tx_static s' = tx_static s)"

lemma peer_reading_static [static]: "keeps_static (peer_reading v s) s"
  by (simp add: peer_reading_def Let_def yl)

lemma advance_base_static [static]: "tx_static (advance_base s) = tx_static s"
proof (induction s rule: advance_base.induct)
  case (1 s)
  show ?case by (subst advance_base.simps) (use 1 in simp)
qed

lemma judge_copies_static [static]: "keeps_static (judge_copies newly s) s"
  by (simp add: judge_copies_def Let_def yl)

lemma take_ack_static [static]: "keeps_static (take_ack ctl fresh patience s) s"
proof -
  have j: "yields (judge_copies newly x) (\<lambda>s'. tx_static s' = tx_static s)" if "tx_static x = tx_static s" for newly x
    using judge_copies_static [of newly x] that by simp
  show ?thesis
    unfolding take_ack_def Let_def yl
    by (intro conjI impI; (rule yields_mono [OF j])?) (simp_all add: static yl)
qed

lemma split_block_static [static]: "keeps_static (split_block q r spent target s) s"
  by (simp add: split_block_def Let_def yl)

lemma restrand_static [static]: "keeps_static (restrand chosen asked q s) s"
  by (simp add: restrand_def Let_def yl static)

lemma choose_pieces_static: "tx_static (snd (choose_pieces room qs chosen s)) = tx_static s"
proof (induction room qs chosen s rule: choose_pieces.induct)
  case (2 room q qs chosen s)
  then show ?case
    by (auto simp: book_pieces_def Let_def split: option.split prod.split)
qed simp

lemma send_block_static [static]: "yields (send_block n iq st) (\<lambda>st'. tx_static (snd st') = tx_static (snd st))"
  by (cases iq; cases st) (simp add: send_block_def Let_def yl)


lemma send_blocks_static [static]: "yields (send_blocks qs s) (\<lambda>(fs, s'). tx_static s' = tx_static s)"
proof -
  have "yields (for_each (send_block n) xs ([], s)) (\<lambda>st. tx_static (snd st) = tx_static s)" for n xs
  proof (rule yields_for_each)
    fix x and st :: "tx_frame list \<times> sender"
    assume "tx_static (snd st) = tx_static s"
    then show "yields (send_block n x st) (\<lambda>st. tx_static (snd st) = tx_static s)"
      using send_block_static [of n x st] by simp
  qed simp
  then show ?thesis
    unfolding send_blocks_def by (rule yields_bindI) (auto simp: yl)
qed

lemma piece_frames_static [static]: "yields (piece_frames qs room s) (\<lambda>(fs, s'). tx_static s' = tx_static s)"
proof -
  obtain ch s1 where c: "choose_pieces room qs [] s = (ch, s1)" by (cases "choose_pieces room qs [] s")
  with choose_pieces_static [of room qs "[]" s] show ?thesis by (simp add: piece_frames_def yl)
qed

lemma cut_new_static [static]: "yields (cut_new room mode pr qs s) (\<lambda>(qs', s'). tx_static s' = tx_static s)"
proof (induction room mode pr qs s rule: cut_new.induct)
  case (1 room mode pr qs s)
  show ?case
    by (subst cut_new.simps, simp only: yl Let_def, intro conjI impI)
      (rule yieldsI, rule yieldsI, rule yields_mono [OF 1], auto)
qed

lemma measurement_static [static]: "yields (measurement room_s s) (\<lambda>(fs, s'). tx_static s' = tx_static s)"
  by (simp add: measurement_def Let_def yl)

lemma lay_out_static [static]:
  "yields (lay_out mode pr fam room qs s) (\<lambda>(fs, s'). tx_static s' = tx_static s)"
proof -
  have b: "yields (send_blocks xs x) (\<lambda>(fs, s'). tx_static s' = tx_static s)" if "tx_static x = tx_static s" for xs x
    using send_blocks_static [of xs x] that by simp
  have "yields (if c then cut_new room mode pr xs s else Some (xs, s)) (\<lambda>(fs, s'). tx_static s' = tx_static s)" for c xs
    by (simp add: cut_new_static)
  note c = this
  show ?thesis
    unfolding lay_out_def Let_def
    by (subst yields_if) (intro conjI impI, rule piece_frames_static, rule yields_bindI, rule c, auto simp: b)
qed

lemma data_frames_static [static]:
  "yields (data_frames room_s s) (\<lambda>(fs, s'). tx_static s' = tx_static s)"
proof -
  have "yields (for_each (restrand ch ar) qs s) (\<lambda>s'. tx_static s' = tx_static s)" for ch ar qs
  proof (rule yields_for_each)
    fix x and s' :: sender
    assume "tx_static s' = tx_static s"
    then show "yields (restrand ch ar x s') (\<lambda>s'. tx_static s' = tx_static s)"
      using restrand_static [of ch ar x s'] by simp
  qed simp
  note r = yields_bindI [OF this]
  have l: "yields (if c then Some ([], x) else lay_out m p f r xs x) (\<lambda>(fs, s'). tx_static s' = tx_static s)"
    if "tx_static x = tx_static s" for c m p f r xs x
    using lay_out_static [of m p f r xs x] that by simp
  show ?thesis
    unfolding data_frames_def Let_def
    by (auto simp: measurement_static case_prod_beta intro!: yields_bindI [OF yields_True] r l [simplified case_prod_beta])
qed

subsection \<open>The receiver\<close>

lemma rx_static_simps [simp]:
  "rx_static (count_rx f r) = rx_static r" "rx_static (r\<lparr>rv_rx := rx\<rparr>) = rx_static r"
  "rx_static (r\<lparr>rv_harq := h\<rparr>) = rx_static r" "rx_static (r\<lparr>rv_pieces := ps\<rparr>) = rx_static r"
  "rx_static (r\<lparr>rv_buf := bf\<rparr>) = rx_static r" "rx_static (r\<lparr>rv_base := bs\<rparr>) = rx_static r"
  "rx_static (r\<lparr>rv_max_seen := ms\<rparr>) = rx_static r" "rx_static (r\<lparr>rv_delivered := dl\<rparr>) = rx_static r"
  "rx_static (r\<lparr>rv_measured := me\<rparr>) = rx_static r" "rx_static (r\<lparr>rv_rx_t0 := t0\<rparr>) = rx_static r"
  "rx_static (r\<lparr>rv_last_data := ld\<rparr>) = rx_static r" "rx_static (r\<lparr>rv_missed := mi\<rparr>) = rx_static r"
  "rx_static (r\<lparr>rv_ack_history := ah\<rparr>) = rx_static r" "rx_static (r\<lparr>rv_last_rx_mode := lm\<rparr>) = rx_static r"
  "rx_static (r\<lparr>rv_grid := gr\<rparr>) = rx_static r" "rx_static (r\<lparr>rv_rx_measure := b\<rparr>) = rx_static r"
  "rx_static (r\<lparr>rv_rx_pieces := b\<rparr>) = rx_static r" "rx_static (r\<lparr>rv_stats := st\<rparr>) = rx_static r"
  by (simp_all add: rx_static_eq count_rx_def)

lemma rx_static_ops [static]:
  "rx_static (restart_rx r) = rx_static r" "rx_static (open_rx op n fl r) = rx_static r"
  "rx_static (measurement_heard new r) = rx_static r" "rx_static (note_opening ctl r) = rx_static r"
  "rx_static (pieces_heard r) = rx_static r" "rx_static (note_seen q r) = rx_static r"
  "rx_static (trim_seen r) = rx_static r" "rx_static (note_data index r) = rx_static r"
  "rx_static (take_measure q r) = rx_static r" "rx_static (snd (ack_fields r)) = rx_static r"
  "rx_static (snd (observe records r)) = rx_static r" "rx_static (file_block h body r) = rx_static r"
  "rx_static (reset_rx r) = rx_static r"
  by (auto simp: rx_static_eq restart_rx_def open_rx_def measurement_heard_def note_opening_def pieces_heard_def
    note_seen_def trim_seen_def note_data_def take_measure_def ack_fields_def observe_def file_block_def block_of_def
    reset_rx_def Let_def split: option.split prod.split)

lemma deliver_static [static]: "rx_static (deliver r) = rx_static r"
proof (induction r rule: deliver.induct)
  case (1 r)
  show ?case
  proof (cases "rv_buf r (rv_base r)")
    case None
    then show ?thesis by (subst deliver.simps) simp
  next
    case (Some data)
    show ?thesis by (subst deliver.simps) (simp only: Some option.case 1 [OF Some], simp)
  qed
qed

lemma take_block_static [static]: "rx_static (take_block h body r) = rx_static r"
  by (simp add: take_block_def static)

lemma accept_static [static]: "rx_static (snd (accept payload late r)) = rx_static r"
  by (auto simp: accept_def Let_def static split: sum.split prod.split)

lemma keep_frame_static: "rx_static (snd (keep_frame index payload r)) = rx_static r"
proof -
  let ?r = "r\<lparr>rv_rx := (rv_rx r)[index := (rv_rx r ! index)\<lparr>rr_payload := Some payload\<rparr>]\<rparr>"
  obtain v r' where a: "accept payload False ?r = (v, r')" by (cases "accept payload False ?r")
  with accept_static [of payload False ?r] show ?thesis by (cases v) (simp_all add: keep_frame_def)
qed

lemma combine_copy_static: "rx_static (snd (combine_copy soft buffer index guess r)) = rx_static r"
  by (auto simp: combine_copy_def Let_def keep_frame_static split: option.split prod.split)

lemma take_data_static [static]: "rx_static (snd (take_data soft r)) = rx_static r"
  by (auto simp: take_data_def Let_def keep_frame_static combine_copy_static split: option.split prod.split)

section \<open>The part of the engine that decides when it keys\<close>

fun keyed_of :: "action list \<Rightarrow> transmission list" where
  "keyed_of [] = []"
| "keyed_of (Transmission tm # as) = tm # keyed_of as"
| "keyed_of (Deliver d # as) = keyed_of as"
| "keyed_of (Event n d # as) = keyed_of as"

lemma keyed_of_append [simp]: "keyed_of (as @ bs) = keyed_of as @ keyed_of bs"
  by (induction as rule: keyed_of.induct) simp_all

lemma keyed_of_deliver [simp]: "keyed_of (map Deliver ds) = []"
  by (induction ds) simp_all

abbreviation keyed :: "'h engine \<Rightarrow> transmission list" where
  "keyed e \<equiv> keyed_of (en_actions e)"

abbreviation halves :: "'h engine \<Rightarrow> (u8 \<times> phy_timing \<times> grant_config \<times> role) \<times> u8 \<times> phy_timing \<times> grant_config" where
  "halves e \<equiv> (tx_static (en_tx e), rx_static (en_rx e))"

definition control where
  "control e = (halves e, en_state e, en_now e, en_heard_at e, en_deadlines e, en_slot e, en_hold_until e,
     en_answer e, en_window e, en_peer_turnaround_s e, en_probing e, en_probe_unsent e, en_connect_tries e, keyed e)"

lemma control_eq: "control e' = control e \<longleftrightarrow> halves e' = halves e \<and> en_state e' = en_state e \<and> en_now e' = en_now e \<and>
    en_heard_at e' = en_heard_at e \<and> en_deadlines e' = en_deadlines e \<and> en_slot e' = en_slot e \<and>
    en_hold_until e' = en_hold_until e \<and> en_answer e' = en_answer e \<and> en_window e' = en_window e \<and>
    en_peer_turnaround_s e' = en_peer_turnaround_s e \<and> en_probing e' = en_probing e \<and>
    en_probe_unsent e' = en_probe_unsent e \<and> en_connect_tries e' = en_connect_tries e \<and> keyed e' = keyed e"
  unfolding control_def by simp

text \<open>Updates outside the view.\<close>

lemma control_simps [simp]:
  "control (e\<lparr>en_heard_db := x1\<rparr>) = control e" "control (e\<lparr>en_cause := x2\<rparr>) = control e"
  "control (e\<lparr>en_callsigns := x3\<rparr>) = control e" "control (e\<lparr>en_my_call := x4\<rparr>) = control e"
  "control (e\<lparr>en_remote_call := x5\<rparr>) = control e" "control (e\<lparr>en_rng := x6\<rparr>) = control e"
  "control (e\<lparr>en_next_slot_id := x7\<rparr>) = control e" "control (e\<lparr>en_in_flight := x8\<rparr>) = control e"
  "control (e\<lparr>en_left := x9\<rparr>) = control e" "control (e\<lparr>en_leave_repeats := x10\<rparr>) = control e"
  "control (e\<lparr>en_call_jitter := x11\<rparr>) = control e" "control (e\<lparr>en_my_ident_s := x12\<rparr>) = control e"
  "control (e\<lparr>en_id_owed := x13\<rparr>) = control e" "control (e\<lparr>en_id_alone := x14\<rparr>) = control e"
  "control (e\<lparr>en_id_listen := x15\<rparr>) = control e" "control (e\<lparr>en_last_probe := x16\<rparr>) = control e"
  "control (e\<lparr>en_ended_peer_snr_db := x17\<rparr>) = control e" "control (e\<lparr>en_peer_capabilities := x18\<rparr>) = control e"
  "control (e\<lparr>en_peer_identifier_s := x19\<rparr>) = control e" "control (e\<lparr>en_peer_left := x20\<rparr>) = control e"
  "control (e\<lparr>en_disc_requested := x21\<rparr>) = control e" "control (e\<lparr>en_disc_tries := x22\<rparr>) = control e"
  "control (e\<lparr>en_leave_since := x23\<rparr>) = control e" "control (e\<lparr>en_leave_drain_s := x24\<rparr>) = control e"
  "control (e\<lparr>en_level_asked := x25\<rparr>) = control e" "control (e\<lparr>en_silence_level := x26\<rparr>) = control e"
  "control (e\<lparr>en_recent_silent := x27\<rparr>) = control e" "control (e\<lparr>en_answered_run := x28\<rparr>) = control e"
  "control (e\<lparr>en_slave_want := x29\<rparr>) = control e" "control (e\<lparr>en_slave_leaves := x30\<rparr>) = control e"
  "control (e\<lparr>en_slave_floor_only := x31\<rparr>) = control e" "control (e\<lparr>en_possible := x32\<rparr>) = control e"
  "control (e\<lparr>en_idle_windows := x33\<rparr>) = control e" "control (e\<lparr>en_ack_owed := x34\<rparr>) = control e"
  "control (e\<lparr>en_peer_late_s := x35\<rparr>) = control e" "control (e\<lparr>en_grant := x36\<rparr>) = control e"
  "control (e\<lparr>en_grant_floor := x37\<rparr>) = control e" "control (e\<lparr>en_m_end := x38\<rparr>) = control e"
  "control (e\<lparr>en_m_last_floor := x39\<rparr>) = control e" "control (e\<lparr>en_answered_end := x40\<rparr>) = control e"
  "control (e\<lparr>en_need_level := x41\<rparr>) = control e" "control (e\<lparr>en_on_time := x42\<rparr>) = control e"
  unfolding control_def by simp_all

named_theorems quiet \<open>operations that leave the view as it is\<close>

lemma on_tx_quiet [quiet]: "tx_static (f (en_tx e)) = tx_static (en_tx e) \<Longrightarrow> control (on_tx f e) = control e"
  unfolding control_def on_tx_def by simp

lemma en_tx_quiet [quiet]: "tx_static s = tx_static (en_tx e) \<Longrightarrow> control (e\<lparr>en_tx := s\<rparr>) = control e"
  unfolding control_def by simp

lemma put_rx_quiet [quiet]: "rx_static r = rx_static (en_rx e) \<Longrightarrow> control (put_rx r e) = control e"
  unfolding control_def put_rx_def by simp

lemma on_rx_quiet [quiet]: "rx_static (f (en_rx e)) = rx_static (en_rx e) \<Longrightarrow> control (on_rx f e) = control e"
  unfolding on_rx_def by (rule put_rx_quiet)

lemma event_quiet [simp]: "control (event n d e) = control e"
  unfolding control_def event_def by simp

lemma tally_quiet [simp]: "control (tally f e) = control e"
  by (rule on_tx_quiet) simp

lemma try_tx_quiet [quiet]: "keeps_static (f (en_tx e)) (en_tx e) \<Longrightarrow> yields (try_tx f e) (\<lambda>e'. control e' = control e)"
  unfolding try_tx_def yl by (erule yields_mono) (rule en_tx_quiet)

subsection \<open>Operations on the data\<close>

lemma price_controllers_quiet [simp]: "control (price_controllers e) = control e"
  unfolding price_controllers_def Let_def by (rule on_tx_quiet) simp

lemma en_data_frames_quiet: "yields (en_data_frames room e) (\<lambda>(fs, e'). control e' = control e)"
  unfolding en_data_frames_def
  by (rule yields_bindI [OF data_frames_static]) (auto simp: quiet)

lemma en_take_ack_quiet: "yields (en_take_ack ctl fresh e) (\<lambda>e'. control e' = control e)"
  unfolding en_take_ack_def
  by (rule yields_bindI [OF yields_True]) (rule try_tx_quiet, rule take_ack_static)

lemma en_peer_reading_quiet: "yields (en_peer_reading snr e) (\<lambda>e'. control e' = control e)"
  unfolding en_peer_reading_def
  by (cases snr) (auto intro: try_tx_quiet peer_reading_static)

lemma close_rx_quiet [simp]: "control (snd (close_rx e)) = control e"
proof -
  obtain snr rv where o: "observe (rv_rx (en_rx e)) (en_rx e) = (snr, rv)" by fastforce
  then have "rx_static rv = rx_static (en_rx e)" by (metis rx_static_ops(11) snd_conv)
  with o show ?thesis by (simp add: close_rx_def put_rx_quiet static)
qed

lemma en_ack_fields_quiet [simp]: "control (snd (en_ack_fields e)) = control e"
proof -
  obtain ack rv where o: "ack_fields (en_rx e) = (ack, rv)" by fastforce
  then have "rx_static rv = rx_static (en_rx e)" by (metis rx_static_ops(10) snd_conv)
  with o show ?thesis by (simp add: en_ack_fields_def put_rx_quiet)
qed

lemma accept_late_quiet [simp]: "control (accept_late soft decoded e) = control e"
  by (auto simp: accept_late_def on_rx_quiet static split: option.split)

lemma forfeit_quiet [simp]: "control (forfeit anchor e) = control e"
  by (simp add: forfeit_def)

lemma give_up_quiet [simp]: "control (give_up a e) = control e"
  by (simp add: give_up_def Let_def)

lemma measure_lateness_quiet [simp]: "control (measure_lateness frame e) = control e"
  by (simp add: measure_lateness_def Let_def)

lemma version_ok_quiet [simp]: "control (snd (version_ok cb sz verb e)) = control e"
  by (simp add: version_ok_def)

lemma seed_from_quiet: "yields (seed_from snr e) (\<lambda>e'. control e' = control e)"
  by (auto simp: seed_from_def yl tx_static_eq intro!: yieldsI on_tx_quiet split: option.split)

lemma note_late_quiet [simp]: "control (note_late frame e) = control e"
  by (simp add: note_late_def Let_def split: option.split)

lemma note_silence_quiet [simp]: "control (note_silence sl e) = control e"
  by (simp add: note_silence_def Let_def)

lemma slot_answered_quiet [simp]: "control (slot_answered sl e) = control e"
  by (simp add: slot_answered_def Let_def on_tx_quiet)

lemma say_left_quiet [simp]: "control (say_left why e) = control e"
  by (simp add: say_left_def Let_def)

lemma can_leave_quiet: "yields (can_leave e) (\<lambda>(b, e'). control e' = control e)"
  by (simp add: can_leave_def Let_def yl on_tx_quiet)

lemma on_tx_record_quiet [quiet]:
  "control (on_tx (ask_again b) e) = control e" "control (on_tx measurement_unheard e) = control e"
  "control (on_tx mark_unknown e) = control e" "control (on_tx (enqueue d) e) = control e"
  by (rule on_tx_quiet, simp add: static)+

lemma put_data_quiet [quiet]: "take_data soft (en_rx e) = (index, rv) \<Longrightarrow> control (put_rx (note_data index rv) e) = control e"
  using take_data_static [of soft "en_rx e"] by (simp add: put_rx_quiet static)

lemma on_rx_ops_quiet [quiet]:
  "control (on_rx (\<lambda>r. note_opening ctl (open_rx frame n fl r)) e) = control e" "control (on_rx restart_rx e) = control e"
  by (rule on_rx_quiet, simp add: static)+

text \<open>A decoded frame of the session heard: the Link timer runs from now on again.\<close>

definition timeouts :: "'h engine \<Rightarrow> f64 set" where
  "timeouts e = {link_timeout (en_config e) (exchange_s (en_config e) (en_timing e) bf lr hf (en_peer_turnaround_s e)) | bf lr hf. True}"

lemma en_link_timeout_in: "yields (en_link_timeout e) (\<lambda>x. x \<in> timeouts e)"
  unfolding en_link_timeout_def en_exchange_s_def yl
  by (rule yieldsI) (auto simp: timeouts_def)

lemma timeouts_cong:
  "halves e' = halves e \<Longrightarrow> en_peer_turnaround_s e' = en_peer_turnaround_s e \<Longrightarrow> timeouts e' = timeouts e"
  by (simp add: timeouts_def tx_static_eq)

lemma note_heard_effect:
  "yields (note_heard frame e) (\<lambda>e'. \<exists>x\<in>timeouts e. control e' = control (arm LinkTimer (en_now e + x) (e\<lparr>en_heard_at := en_now e\<rparr>)))"
proof -
  have t: "yields (en_link_timeout (on_tx (\<lambda>s. s\<lparr>sn_rate := rate\<rparr>)
      (on_tx (\<lambda>s. price (s\<lparr>sn_heard_recent := r\<rparr>)) (e\<lparr>en_heard_db := h\<rparr>))\<lparr>en_heard_at := now\<rparr>)) (\<lambda>x. x \<in> timeouts e)"
    for r h rate now
  proof (rule yields_mono [OF en_link_timeout_in])
    fix x
    assume "x \<in> timeouts (on_tx (\<lambda>s. s\<lparr>sn_rate := rate\<rparr>)
      (on_tx (\<lambda>s. price (s\<lparr>sn_heard_recent := r\<rparr>)) (e\<lparr>en_heard_db := h\<rparr>))\<lparr>en_heard_at := now\<rparr>)"
    then show "x \<in> timeouts e" by (subst (asm) timeouts_cong [where e = e]) (simp_all add: on_tx_def)
  qed
  show ?thesis
    unfolding note_heard_def Let_def
    by (intro yields_bindI [OF yields_True] yields_bindI [OF t]; simp add: yl)
      (auto simp: control_def arm_def on_tx_def)
qed

end
