(* ===== verification/Engine_Keying.thy ===== *)
theory Engine_Keying
  imports Engine_View
begin

text \<open>
  When the session engine keys.  \<open>engine_inv\<close> is the invariant of its control part; \<open>lawful\<close> says when
  a transmission may be handed over; every operation keeps the invariant and hands over lawful
  transmissions only (\<open>good\<close>, relative to the state an input found).
\<close>

section \<open>The invariant\<close>

abbreviation in_session :: "'h engine \<Rightarrow> bool" where
  "in_session e \<equiv> en_state e \<in> {Connected, Disconnecting}"

definition halves_agree :: "'h engine \<Rightarrow> bool" where
  "halves_agree e \<longleftrightarrow> rx_static (en_rx e) = (en_session e, en_timing e, en_config e)"

text \<open>Who grants and who answers.\<close>

definition roles_ok :: "'h engine \<Rightarrow> bool" where
  "roles_ok e \<longleftrightarrow> (en_state e \<in> {Idle, Connecting} \<longrightarrow> en_role e = NoRole) \<and>
     (en_state e = Connected \<longrightarrow> en_role e \<noteq> NoRole) \<and> (en_state e = Disconnecting \<longrightarrow> en_role e = Master)"

text \<open>In a session the Link timer runs, and it is due within a timeout of the last frame heard.\<close>

definition link_ok :: "'h engine \<Rightarrow> bool" where
  "link_ok e \<longleftrightarrow> (armed LinkTimer e = None \<longrightarrow> \<not> in_session e) \<and>
     (\<forall>due. armed LinkTimer e = Some due \<longrightarrow> in_session e \<and> (\<exists>x\<in>timeouts e. due \<le> en_heard_at e + x))"

text \<open>An answer owed starts with its slot; a slave's is owed in a session, one to a left session out of it.\<close>

definition answer_fits :: "answer \<Rightarrow> 'h engine \<Rightarrow> bool" where
  "answer_fits a e \<longleftrightarrow>
     (aw_what a \<noteq> WindowKind \<longrightarrow> aw_not_after a = aw_start a + slack_s (en_config e)) \<and>
     (if aw_what a \<in> {AnsKind, WindowKind, ConnectAckKind} then en_state e = Connected \<and> en_role e = Slave
      else en_state e = Idle)"

definition answer_ok :: "'h engine \<Rightarrow> bool" where
  "answer_ok e \<longleftrightarrow> (\<forall>a. en_answer e = Some a \<longrightarrow> answer_fits a e)"

definition open_window_ok :: "'h engine \<Rightarrow> bool" where
  "open_window_ok e \<longleftrightarrow> (\<forall>start end_s fl. en_window e = Some (start, end_s, fl) \<longrightarrow>
     en_state e = Connected \<and> en_role e = Slave \<and> (\<exists>b i. end_s = start + window_s (en_config e) b i))"

text \<open>The master proceeds when its slot has closed, and it alone.\<close>

definition hold_ok :: "'h engine \<Rightarrow> bool" where
  "hold_ok e \<longleftrightarrow> (\<forall>due. armed ProceedTimer e = Some due \<longrightarrow>
     in_session e \<and> en_role e = Master \<and> en_hold_until e \<le> due)"

definition slot_fits :: "slot_kind \<Rightarrow> 'h engine \<Rightarrow> bool" where
  "slot_fits k e \<longleftrightarrow> (en_state e = Idle \<longrightarrow> k \<in> {ProbeSlot, LeaveSlot}) \<and> (en_state e = Connecting \<longrightarrow> k = ConnectSlot) \<and>
     (in_session e \<longrightarrow> k \<in> {HeaderSlot, DiscSlot, ConnectSlot} \<and> en_role e = Master)"

definition slot_ok :: "'h engine \<Rightarrow> bool" where
  "slot_ok e \<longleftrightarrow> (\<forall>sl. en_slot e = Some sl \<longrightarrow> slot_fits (sl_kind sl) e)"

text \<open>The Probe timer runs for a probe; one that still waits to go waits in no call and no session.\<close>

definition probe_ok :: "'h engine \<Rightarrow> bool" where
  "probe_ok e \<longleftrightarrow> (armed ProbeTimer e \<noteq> None \<longrightarrow> en_probing e \<noteq> None \<and> (en_probe_unsent e \<longrightarrow> en_state e = Idle))"

definition rest_ok :: "'h engine \<Rightarrow> bool" where
  "rest_ok e \<longleftrightarrow> halves_agree e \<and> roles_ok e \<and> answer_ok e \<and> open_window_ok e \<and> hold_ok e \<and> slot_ok e \<and> probe_ok e"

definition engine_inv :: "'h engine \<Rightarrow> bool" where
  "engine_inv e \<longleftrightarrow> link_ok e \<and> rest_ok e"

lemmas inv_defs = halves_agree_def roles_ok_def answer_fits_def answer_ok_def open_window_ok_def hold_ok_def slot_fits_def
  slot_ok_def probe_ok_def rest_ok_def

section \<open>When a transmission may be keyed\<close>

text \<open>
  Seen from the engine an input finds (\<open>e0\<close>).  An answer: at the start of its slot, no later than the slack;
  inside an open window: a slave's, ending no later than a window that has started; on its own
  initiative: never a slave's, and not before the last slot this station granted is over.
\<close>

definition may_key :: "'h engine \<Rightarrow> bool" where
  "may_key e \<longleftrightarrow> en_role e \<noteq> Slave \<and> en_hold_until e - 1 / 10 ^ 9 \<le> en_now e"

definition in_window :: "'h engine \<Rightarrow> f64 \<Rightarrow> f64 \<Rightarrow> bool" where
  "in_window e end_s earliest_s \<longleftrightarrow> en_role e = Slave \<and> earliest_s \<le> end_s \<and>
     (\<exists>start b i. end_s = start + window_s (en_config e) b i \<and>
        start - 1 / 10 ^ 9 \<le> en_now e + own_latency (en_timing e))"

definition lawful :: "'h engine \<Rightarrow> transmission \<Rightarrow> bool" where
  "lawful e tm =
     (case (tm_not_before tm, tm_not_after tm) of
        (Some start, Some latest) \<Rightarrow> latest = start + slack_s (en_config e) \<and>
          en_now e + own_latency (en_timing e) \<le> latest + 1 / 10 ^ 9
      | (None, Some latest) \<Rightarrow> (\<exists>fl. in_window e (latest + tm_duration_s tm)
          (en_now e + own_latency (en_timing e) + ctl_s (en_timing e) fl))
      | (None, None) \<Rightarrow> may_key e
      | (Some start, None) \<Rightarrow> False)"

text \<open>What an input may have made of it so far.\<close>

definition nearly :: "'h engine \<Rightarrow> 'h engine \<Rightarrow> bool" where
  "nearly e0 e \<longleftrightarrow> rest_ok e \<and> en_now e = en_now e0 \<and> en_config e = en_config e0 \<and> en_timing e = en_timing e0 \<and>
     (\<exists>new. keyed e = keyed e0 @ new \<and> (\<forall>tm\<in>set new. lawful e0 tm))"

definition good :: "'h engine \<Rightarrow> 'h engine \<Rightarrow> bool" where
  "good e0 e \<longleftrightarrow> link_ok e \<and> nearly e0 e"

lemma good_refl: "engine_inv e \<Longrightarrow> good e e"
  by (simp add: good_def nearly_def engine_inv_def)

lemma good_inv: "good e0 e \<Longrightarrow> engine_inv e"
  by (simp add: good_def nearly_def engine_inv_def)

subsection \<open>Only the control part counts\<close>

lemma halves_eqD:
  assumes "halves e' = halves e"
  shows "en_session e' = en_session e" "en_timing e' = en_timing e" "en_config e' = en_config e" "en_role e' = en_role e"
  using assms by (simp_all add: tx_static_eq)

lemma rest_cong:
  assumes "control e' = control e"
  shows "rest_ok e' = rest_ok e" "link_ok e' = link_ok e"
proof -
  note c = assms [unfolded control_eq]
  note h = halves_eqD [OF c [THEN conjunct1]]
  from c h show "rest_ok e' = rest_ok e" by (simp add: inv_defs cong: option.case_cong link_state.case_cong prod.case_cong)
  from c h have "timeouts e' = timeouts e" by (intro timeouts_cong) auto
  with c show "link_ok e' = link_ok e" by (simp add: link_ok_def cong: option.case_cong)
qed

lemma nearly_cong: "control e' = control e \<Longrightarrow> nearly e0 e' = nearly e0 e"
  using rest_cong [of e' e] halves_eqD [of e' e] by (simp add: nearly_def control_eq)

lemma good_cong: "control e' = control e \<Longrightarrow> good e0 e' = good e0 e"
  using rest_cong [of e' e] nearly_cong [of e' e] by (simp add: good_def)

text \<open>What stays the same while an input is handled.\<close>

definition same :: "'h engine \<Rightarrow> 'h engine \<Rightarrow> bool" where
  "same e e' \<longleftrightarrow> en_state e' = en_state e \<and> en_role e' = en_role e"

lemma same_cong: "control e' = control e \<Longrightarrow> same e e'"
  using halves_eqD [of e' e] by (simp add: same_def control_eq)

section \<open>Keying and answering\<close>

lemma transmit_effect:
  "\<exists>tm. control (snd (transmit frames ky granting e)) = control (e\<lparr>en_actions := en_actions e @ [Transmission tm]\<rparr>) \<and>
     tm_not_before tm = ky_not_before ky \<and> tm_not_after tm = ky_not_after ky \<and>
     tm_duration_s tm = ky_identifier_s ky + sum_list (map (tx_frame_s (en_timing e)) frames)"
  by (rule exI [of _ "\<lparr>tm_frames = frames, tm_duration_s = ky_identifier_s ky + sum_list (map (tx_frame_s (en_timing e)) frames),
     tm_cause = en_cause e, tm_not_after = ky_not_after ky, tm_not_before = ky_not_before ky,
     tm_identifier_s = ky_identifier_s ky, tm_listen_first = ky_listen_first ky\<rparr>"])
    (simp add: transmit_def Let_def)

lemma good_transmit:
  assumes g: "good e0 e"
    and l: "\<And>tm. tm_not_before tm = ky_not_before ky \<Longrightarrow> tm_not_after tm = ky_not_after ky \<Longrightarrow>
      tm_duration_s tm = ky_identifier_s ky + sum_list (map (tx_frame_s (en_timing e)) frames) \<Longrightarrow> lawful e0 tm"
  shows "good e0 (snd (transmit frames ky granting e)) \<and> same e (snd (transmit frames ky granting e))"
proof -
  let ?e' = "snd (transmit frames ky granting e)"
  obtain tm where c: "control ?e' = control (e\<lparr>en_actions := en_actions e @ [Transmission tm]\<rparr>)"
    and tm: "tm_not_before tm = ky_not_before ky" "tm_not_after tm = ky_not_after ky"
      "tm_duration_s tm = ky_identifier_s ky + sum_list (map (tx_frame_s (en_timing e)) frames)"
    using transmit_effect by blast
  let ?e1 = "e\<lparr>en_actions := en_actions e @ [Transmission tm]\<rparr>"
  have "rest_ok ?e1 = rest_ok e" "link_ok ?e1 = link_ok e"
    by (simp_all add: inv_defs link_ok_def timeouts_def)
  with g l [OF tm] have "good e0 ?e1" unfolding good_def nearly_def by force
  moreover have "same e ?e1" by (simp add: same_def)
  ultimately show ?thesis using good_cong [OF c] same_cong [OF c] by (simp add: same_def)
qed

lemma good_quiet:
  assumes "good e0 e" "yields r (\<lambda>e'. control e' = control e)"
  shows "yields r (\<lambda>e'. good e0 e' \<and> same e e')"
  using assms(1) by (intro yields_mono [OF assms(2)]) (use good_cong same_cong in blast)

lemma same_refl [simp]: "same e e" by (simp add: same_def)

lemma same_trans: "same e e1 \<Longrightarrow> same e1 e2 \<Longrightarrow> same e e2" by (simp add: same_def)

lemma good_facts: "good e0 e \<Longrightarrow> en_now e = en_now e0 \<and> en_config e = en_config e0 \<and> en_timing e = en_timing e0"
  by (simp add: good_def nearly_def)

lemma send_answer_good:
  assumes g: "good e0 e"
    and answer: "window_end = None \<Longrightarrow> \<exists>start. ky_not_before ky = Some start \<and> ky_not_after ky = Some (start + slack_s (en_config e)) \<and>
      en_now e + own_latency (en_timing e) \<le> start + slack_s (en_config e) + 1 / 10 ^ 9"
    and window: "\<And>end_s. window_end = Some end_s \<Longrightarrow> ky = keying_default \<and>
      in_window e0 end_s (en_now e + own_latency (en_timing e) + ctl_s (en_timing e) fl)"
  shows "yields (send_answer fl room ky window_end e) (\<lambda>e'. good e0 e' \<and> same e e')"
proof -
  obtain snr e1 where c1: "close_rx e = (snr, e1)" by fastforce
  define e2 where "e2 = (if snr \<noteq> None then e1\<lparr>en_heard_db := snr\<rparr> else e1)"
  have q2: "control e2 = control e" using close_rx_quiet [of e] c1 by (simp add: e2_def)
  have k: "good e0 e' \<and> same e e'" if "control e' = control e2" for e'
    using that g q2 good_cong [of e' e] same_cong [of e' e] by simp
  have tr: "good e0 (snd (transmit fs (case window_end of None \<Rightarrow> ky
        | Some end_s \<Rightarrow> ky\<lparr>ky_not_after := Some (end_s - sum_list (map (tx_frame_s (en_timing e2)) fs))\<rparr>) None e')) \<and>
      same e (snd (transmit fs (case window_end of None \<Rightarrow> ky
        | Some end_s \<Rightarrow> ky\<lparr>ky_not_after := Some (end_s - sum_list (map (tx_frame_s (en_timing e2)) fs))\<rparr>) None e'))"
    if c: "control e' = control e2" for fs e'
  proof -
    have f: "en_now e = en_now e0" "en_config e = en_config e0" "en_timing e = en_timing e0" "en_timing e2 = en_timing e0"
      "en_timing e' = en_timing e0"
      using good_facts [OF g] good_facts [OF k [THEN conjunct1], of e2] good_facts [OF k [THEN conjunct1], OF c] by auto
    have "good e0 e'" using k [OF c] by simp
    then have "good e0 (snd (transmit fs ky' None e')) \<and> same e' (snd (transmit fs ky' None e'))"
      if "ky' = (case window_end of None \<Rightarrow> ky
        | Some end_s \<Rightarrow> ky\<lparr>ky_not_after := Some (end_s - sum_list (map (tx_frame_s (en_timing e2)) fs))\<rparr>)" for ky'
    proof (rule good_transmit)
      fix tm :: transmission
      assume tm: "tm_not_before tm = ky_not_before ky'" "tm_not_after tm = ky_not_after ky'"
        "tm_duration_s tm = ky_identifier_s ky' + sum_list (map (tx_frame_s (en_timing e')) fs)"
      show "lawful e0 tm"
      proof (cases window_end)
        case None
        with answer that tm f show ?thesis by (auto simp: lawful_def)
      next
        case (Some end_s)
        with window [OF Some] that tm f show ?thesis by (auto simp: lawful_def keying_default_def)
      qed
    qed
    with k [OF c] show ?thesis using same_trans by blast
  qed
  show ?thesis
    unfolding send_answer_def c1 Let_def prod.case e2_def [symmetric]
  proof (rule yields_bindI [OF en_data_frames_quiet], goal_cases)
    case (1 de)
    then obtain data e3 where de: "de = (data, e3)" and c3: "control e3 = control e2" by (cases de) auto
    obtain ack e4 where a: "en_ack_fields e3 = (ack, e4)" by fastforce
    have c4: "control e4 = control e2" using en_ack_fields_quiet [of e3] a c3 by simp
    show ?case
      unfolding de prod.case a
      by (intro yields_bindI [OF yields_True]) (subst yields_basic, rule tr [OF c4])
  qed
qed

subsection \<open>Updates of the control part\<close>

lemma armed_arm [simp]: "armed u (arm t due e) = (if u = t then Some due else armed u e)"
  by (simp add: arm_def get_set_deadline)

lemma armed_disarm [simp]: "armed u (disarm t e) = (if u = t then None else armed u e)"
  by (simp add: disarm_def get_remove_deadline)

lemma arm_fields [simp]:
  "en_tx (arm t due e) = en_tx e" "en_rx (arm t due e) = en_rx e" "en_state (arm t due e) = en_state e"
  "en_now (arm t due e) = en_now e" "en_heard_at (arm t due e) = en_heard_at e" "en_slot (arm t due e) = en_slot e"
  "en_hold_until (arm t due e) = en_hold_until e" "en_answer (arm t due e) = en_answer e"
  "en_window (arm t due e) = en_window e" "en_peer_turnaround_s (arm t due e) = en_peer_turnaround_s e"
  "en_probing (arm t due e) = en_probing e" "en_probe_unsent (arm t due e) = en_probe_unsent e"
  "en_connect_tries (arm t due e) = en_connect_tries e" "en_actions (arm t due e) = en_actions e"
  by (simp_all add: arm_def)

lemma disarm_fields [simp]:
  "en_tx (disarm t e) = en_tx e" "en_rx (disarm t e) = en_rx e" "en_state (disarm t e) = en_state e"
  "en_now (disarm t e) = en_now e" "en_heard_at (disarm t e) = en_heard_at e" "en_slot (disarm t e) = en_slot e"
  "en_hold_until (disarm t e) = en_hold_until e" "en_answer (disarm t e) = en_answer e"
  "en_window (disarm t e) = en_window e" "en_peer_turnaround_s (disarm t e) = en_peer_turnaround_s e"
  "en_probing (disarm t e) = en_probing e" "en_probe_unsent (disarm t e) = en_probe_unsent e"
  "en_connect_tries (disarm t e) = en_connect_tries e" "en_actions (disarm t e) = en_actions e"
  by (simp_all add: disarm_def)

lemma timeouts_arm [simp]: "timeouts (arm t due e) = timeouts e" "timeouts (disarm t e) = timeouts e"
  by (simp_all add: timeouts_def)

named_theorems upd \<open>updates that keep \<open>nearly\<close> and \<open>good\<close>\<close>

lemma rest_arm: "t \<noteq> ProceedTimer \<Longrightarrow> t \<noteq> ProbeTimer \<Longrightarrow> rest_ok (arm t due e) = rest_ok e"
  by (auto simp add: inv_defs)

lemma rest_disarm: "rest_ok e \<Longrightarrow> rest_ok (disarm t e)"
  by (auto simp add: inv_defs)

lemma nearly_arm [upd]: "nearly e0 e \<Longrightarrow> t \<noteq> ProceedTimer \<Longrightarrow> t \<noteq> ProbeTimer \<Longrightarrow> nearly e0 (arm t due e)"
  by (simp add: nearly_def rest_arm)

lemma good_arm [upd]: "good e0 e \<Longrightarrow> t \<notin> {LinkTimer, ProceedTimer, ProbeTimer} \<Longrightarrow> good e0 (arm t due e)"
  by (auto simp add: good_def nearly_arm link_ok_def)

lemma good_arm_probe:
  assumes "good e0 e" "en_probing e \<noteq> None" "en_probe_unsent e \<Longrightarrow> en_state e = Idle"
  shows "good e0 (arm ProbeTimer due e)"
proof -
  have "rest_ok (arm ProbeTimer due e)" using assms by (auto simp: good_def nearly_def inv_defs)
  then show ?thesis using assms by (auto simp: good_def nearly_def link_ok_def)
qed

lemma nearly_disarm [upd]: "nearly e0 e \<Longrightarrow> nearly e0 (disarm t e)"
  by (simp add: nearly_def rest_disarm)

lemma good_disarm [upd]: "good e0 e \<Longrightarrow> t \<noteq> LinkTimer \<Longrightarrow> good e0 (disarm t e)"
  by (auto simp add: good_def nearly_disarm link_ok_def)

lemma timeouts_upd [simp]:
  "timeouts (e\<lparr>en_answer := a\<rparr>) = timeouts e" "timeouts (e\<lparr>en_window := w\<rparr>) = timeouts e"
  "timeouts (e\<lparr>en_slot := sl\<rparr>) = timeouts e" "timeouts (e\<lparr>en_hold_until := h\<rparr>) = timeouts e"
  "timeouts (e\<lparr>en_probing := pr\<rparr>) = timeouts e" "timeouts (e\<lparr>en_probe_unsent := pu\<rparr>) = timeouts e"
  "timeouts (e\<lparr>en_connect_tries := ct\<rparr>) = timeouts e" "timeouts (e\<lparr>en_state := st\<rparr>) = timeouts e"
  "timeouts (e\<lparr>en_heard_at := ha\<rparr>) = timeouts e"
  by (simp_all add: timeouts_def)

lemma link_upd [simp]:
  "link_ok (e\<lparr>en_answer := a\<rparr>) = link_ok e" "link_ok (e\<lparr>en_window := w\<rparr>) = link_ok e"
  "link_ok (e\<lparr>en_slot := sl\<rparr>) = link_ok e" "link_ok (e\<lparr>en_hold_until := h\<rparr>) = link_ok e"
  "link_ok (e\<lparr>en_probing := pr\<rparr>) = link_ok e" "link_ok (e\<lparr>en_probe_unsent := pu\<rparr>) = link_ok e"
  "link_ok (e\<lparr>en_connect_tries := ct\<rparr>) = link_ok e"
  by (simp_all add: link_ok_def)

lemma answer_fits_upd [simp]:
  "answer_fits a (e\<lparr>en_answer := x\<rparr>) = answer_fits a e" "answer_fits a (e\<lparr>en_window := w\<rparr>) = answer_fits a e"
  "answer_fits a (arm t due e) = answer_fits a e" "answer_fits a (disarm t e) = answer_fits a e"
  by (simp_all add: answer_fits_def)

lemma rest_upd:
  "rest_ok e \<Longrightarrow> rest_ok (e\<lparr>en_answer := None\<rparr>)" "rest_ok e \<Longrightarrow> answer_fits a e \<Longrightarrow> rest_ok (e\<lparr>en_answer := Some a\<rparr>)"
  "rest_ok e \<Longrightarrow> rest_ok (e\<lparr>en_window := None\<rparr>)" "rest_ok e \<Longrightarrow> rest_ok (e\<lparr>en_slot := None\<rparr>)"
  "rest_ok e \<Longrightarrow> slot_fits (sl_kind sl) e \<Longrightarrow> rest_ok (e\<lparr>en_slot := Some sl\<rparr>)"
  "rest_ok e \<Longrightarrow> en_state e = Connected \<Longrightarrow> en_role e = Slave \<Longrightarrow>
     rest_ok (e\<lparr>en_window := Some (start, start + window_s (en_config e) b i, fl)\<rparr>)"
  "rest_ok e \<Longrightarrow> pr \<noteq> None \<or> armed ProbeTimer e = None \<Longrightarrow> rest_ok (e\<lparr>en_probing := pr\<rparr>)" "rest_ok e \<Longrightarrow> rest_ok (e\<lparr>en_probe_unsent := False\<rparr>)"
  "rest_ok e \<Longrightarrow> en_state e = Idle \<Longrightarrow> rest_ok (e\<lparr>en_probe_unsent := True\<rparr>)"
  "rest_ok e \<Longrightarrow> rest_ok (e\<lparr>en_connect_tries := ct\<rparr>)"
  "rest_ok e \<Longrightarrow> \<not> (in_session e \<and> en_role e = Master) \<Longrightarrow> rest_ok (e\<lparr>en_hold_until := h\<rparr>)"
  by (auto simp: inv_defs)

lemma good_upd [upd]:
  assumes "good e0 e"
  shows "good e0 (e\<lparr>en_answer := None\<rparr>)" "answer_fits a e \<Longrightarrow> good e0 (e\<lparr>en_answer := Some a\<rparr>)"
    "good e0 (e\<lparr>en_window := None\<rparr>)" "good e0 (e\<lparr>en_slot := None\<rparr>)"
    "slot_fits (sl_kind sl) e \<Longrightarrow> good e0 (e\<lparr>en_slot := Some sl\<rparr>)"
    "en_state e = Connected \<Longrightarrow> en_role e = Slave \<Longrightarrow>
      good e0 (e\<lparr>en_window := Some (start, start + window_s (en_config e) b i, fl)\<rparr>)"
    "pr \<noteq> None \<or> armed ProbeTimer e = None \<Longrightarrow> good e0 (e\<lparr>en_probing := pr\<rparr>)" "good e0 (e\<lparr>en_probe_unsent := False\<rparr>)"
    "en_state e = Idle \<Longrightarrow> good e0 (e\<lparr>en_probe_unsent := True\<rparr>)" "good e0 (e\<lparr>en_connect_tries := ct\<rparr>)"
    "\<not> (in_session e \<and> en_role e = Master) \<Longrightarrow> good e0 (e\<lparr>en_hold_until := h\<rparr>)"
  using assms rest_upd [of e] by (simp_all add: good_def nearly_def)

lemma same_simps [simp]:
  "same e (arm t due e') = same e e'" "same e (disarm t e') = same e e'"
  "same e (e'\<lparr>en_answer := a\<rparr>) = same e e'" "same e (e'\<lparr>en_window := w\<rparr>) = same e e'"
  "same e (e'\<lparr>en_slot := sl\<rparr>) = same e e'" "same e (e'\<lparr>en_hold_until := h\<rparr>) = same e e'"
  "same (arm t due e) e' = same e e'" "same (disarm t e) e' = same e e'"
  "same (e\<lparr>en_answer := a\<rparr>) e' = same e e'" "same (e\<lparr>en_window := w\<rparr>) e' = same e e'"
  "same (e\<lparr>en_slot := sl\<rparr>) e' = same e e'" "same (e\<lparr>en_hold_until := h\<rparr>) e' = same e e'"
  by (simp_all add: same_def)

lemma same_control_left: "control e1 = control e2 \<Longrightarrow> same e1 e = same e2 e"
  using halves_eqD [of e1 e2] by (auto simp: same_def control_eq)

lemma same_control: "control e1 = control e2 \<Longrightarrow> same e e1 = same e e2"
  using halves_eqD [of e1 e2] by (simp add: same_def control_eq)

lemma answer_fits_control: "control e1 = control e2 \<Longrightarrow> answer_fits a e1 = answer_fits a e2"
  using halves_eqD [of e1 e2] by (simp add: answer_fits_def control_eq)

lemma state_control: "control e1 = control e2 \<Longrightarrow> en_state e1 = en_state e2" by (simp add: control_eq)

lemma role_control: "control e1 = control e2 \<Longrightarrow> en_role e1 = en_role e2"
  using halves_eqD [of e1 e2] by (simp add: control_eq)

lemmas quiet_ops = control_simps event_quiet tally_quiet price_controllers_quiet close_rx_quiet en_ack_fields_quiet
  accept_late_quiet forfeit_quiet give_up_quiet measure_lateness_quiet version_ok_quiet note_late_quiet
  note_silence_quiet slot_answered_quiet say_left_quiet on_tx_record_quiet on_rx_ops_quiet

lemmas kept [simp] = quiet_ops [THEN good_cong] quiet_ops [THEN nearly_cong] quiet_ops [THEN same_control]
  quiet_ops [THEN same_control_left] quiet_ops [THEN answer_fits_control]

section \<open>Answers\<close>

lemma try_window_good:
  assumes g: "good e0 e" and r: "en_window e \<noteq> None \<Longrightarrow> en_role e0 = Slave"
  shows "yields (try_window e) (\<lambda>e'. good e0 e' \<and> same e e')"
proof (cases "en_window e")
  case (Some w)
  then obtain st end_s fl where w: "en_window e = Some (st, end_s, fl)" by (cases w) auto
  from good_inv [OF g] w obtain b i where c: "en_state e = Connected" "en_role e = Slave"
    and es: "end_s = st + window_s (en_config e) b i"
    by (auto simp: engine_inv_def rest_ok_def open_window_ok_def)
  note f = good_facts [OF g]
  have fits: "answer_fits (answer_new WindowKind st end_s fl) e"
    using c by (simp add: answer_fits_def answer_new_def)
  show ?thesis
  proof (cases "en_now e + own_latency (en_timing e) < st - 1 / 10 ^ 9")
    case True
    then show ?thesis
      using g c fits by (simp add: try_window_def w Let_def upd)
  next
    case False
    let ?e1 = "e\<lparr>en_window := None, en_answered_end := en_m_end e\<rparr>"
    have "in_window e0 end_s (en_now e + own_latency (en_timing e) + ctl_s (en_timing e) fl)"
      if "\<not> end_s - (en_now e + own_latency (en_timing e)) - ctl_s (en_timing e) fl < 0"
      using that False f es r w by (auto simp: in_window_def intro!: exI [of _ st] exI [of _ b] exI [of _ i])
    then have "yields (send_answer fl (end_s - (en_now e + own_latency (en_timing e)) - ctl_s (en_timing e) fl) keying_default (Some end_s) ?e1)
        (\<lambda>e'. good e0 e' \<and> same ?e1 e')"
      if "\<not> end_s - (en_now e + own_latency (en_timing e)) - ctl_s (en_timing e) fl < 0"
      using that g by (intro send_answer_good) (simp_all add: upd)
    then show ?thesis
      using g c False by (simp add: try_window_def w Let_def yl)
  qed
qed (use g in \<open>simp add: try_window_def\<close>)

lemma good_answering:
  assumes g: "good e0 e" and "\<not> too_late (aw_start a) e" "aw_not_after a = aw_start a + slack_s (en_config e)"
  shows "good e0 (snd (transmit frames (answering a ident) granting e)) \<and>
    same e (snd (transmit frames (answering a ident) granting e))"
  using g by (rule good_transmit) (use assms good_facts [OF g] in \<open>auto simp: lawful_def answering_def too_late_def\<close>)

lemma too_late_upd [simp]:
  "too_late s (disarm t e) = too_late s e" "too_late s (arm t due e) = too_late s e"
  "too_late s (e\<lparr>en_answer := a\<rparr>) = too_late s e" "too_late s (e\<lparr>en_window := w\<rparr>) = too_late s e"
  "too_late s (e\<lparr>en_id_owed := x\<rparr>) = too_late s e" "too_late s (e\<lparr>en_answered_end := y\<rparr>) = too_late s e"
  "too_late s (tally f e) = too_late s e"
  by (simp_all add: too_late_def on_tx_def count_stat_def)

lemma count_config [simp]: "en_config (tally f e) = en_config e" "en_state (tally f e) = en_state e"
  by (simp_all add: on_tx_def count_stat_def)

text \<open>An answer due: in time, and as the invariant has it.\<close>

definition answer_due :: "answer \<Rightarrow> 'h engine \<Rightarrow> bool" where
  "answer_due a e \<longleftrightarrow> answer_fits a e \<and> \<not> too_late (aw_start a) e"

lemma send_acceptance_good:
  assumes "good e0 e" "answer_due a e" "aw_what a = ConnectAckKind"
  shows "yields (send_acceptance a e) (\<lambda>e'. good e0 e' \<and> same e e')"
  using assms good_answering [of e0 e a]
  by (auto simp: send_acceptance_def answer_due_def answer_fits_def Let_def yl intro!: yieldsI split: option.split)

lemma send_probe_answer_good:
  assumes "good e0 e" "answer_due a e" "aw_what a = ProbeAckKind"
  shows "yields (send_probe_answer a e) (\<lambda>e'. good e0 e' \<and> same e e')"
  using assms good_answering [of e0 e a]
  by (auto simp: send_probe_answer_def answer_due_def answer_fits_def Let_def yl intro!: yieldsI split: option.split)

lemma send_disc_answer_good:
  assumes g: "good e0 e" and a: "answer_due a e" "aw_what a \<in> {DiscKind, DiscAckKind}"
  shows "good e0 (send_disc_answer a e) \<and> same e (send_disc_answer a e)"
proof -
  define ack where "ack = (aw_what a = DiscAckKind)"
  define e1 where "e1 = (if ack \<and> 0 < en_my_ident_s e then disarm IdentTimer (e\<lparr>en_id_owed := 0\<rparr>) else e)"
  define e2 where "e2 = (if ack then e1 else tally (\<lambda>st. st\<lparr>left_answered := left_answered st + 1\<rparr>) e1)"
  have "good e0 e2" "same e e2" "\<not> too_late (aw_start a) e2" "en_config e2 = en_config e" "en_state e = Idle"
    using g a by (auto simp: e2_def e1_def answer_due_def answer_fits_def upd)
  moreover from this a have "good e0 (snd (transmit fs (answering a ident) None e2)) \<and>
      same e2 (snd (transmit fs (answering a ident) None e2))" for fs ident
    by (intro good_answering) (auto simp: answer_due_def answer_fits_def)
  ultimately show ?thesis
    unfolding send_disc_answer_def Let_def ack_def [symmetric] e1_def [symmetric] e2_def [symmetric]
    by (auto simp: same_def intro!: upd)
qed

lemma give_answer_good:
  assumes g: "good e0 e" and a: "answer_due a e"
  shows "yields (give_answer a e) (\<lambda>e'. good e0 e' \<and> same e e')"
proof (cases "aw_what a")
  case AnsKind
  let ?e1 = "e\<lparr>en_answered_end := Some (aw_anchor a)\<rparr>"
  have "yields (send_answer (aw_floor a) (aw_room_s a)
      (keying_default\<lparr>ky_not_after := Some (aw_not_after a), ky_not_before := Some (aw_start a)\<rparr>) None ?e1)
      (\<lambda>e'. good e0 e' \<and> same ?e1 e')"
    using g a AnsKind by (intro send_answer_good) (auto simp: answer_due_def answer_fits_def too_late_def)
  with AnsKind g show ?thesis by (auto simp: give_answer_def)
qed (use assms send_acceptance_good [of e0 e a] send_probe_answer_good [of e0 e a] send_disc_answer_good [of e0 e a] in
  \<open>simp_all add: give_answer_def\<close>)

lemma key_answer_good:
  assumes g: "good e0 e" and w: "\<And>a. en_answer e = Some a \<Longrightarrow> aw_what a = WindowKind \<Longrightarrow> en_role e0 = Slave"
  shows "yields (key_answer e) (\<lambda>e'. good e0 e' \<and> same e e')"
proof (cases "en_answer e")
  case (Some a)
  let ?e1 = "e\<lparr>en_answer := None\<rparr>"
  have fits: "answer_fits a e" using good_inv [OF g] Some by (simp add: engine_inv_def rest_ok_def answer_ok_def)
  have g1: "good e0 ?e1" using g by (rule upd)
  have "yields (try_window ?e1) (\<lambda>e'. good e0 e' \<and> same ?e1 e')" if "aw_what a = WindowKind"
    using g1 w [OF Some that] by (intro try_window_good) auto
  moreover have "yields (give_answer a ?e1) (\<lambda>e'. good e0 e' \<and> same ?e1 e')" if "\<not> too_late (aw_start a) ?e1"
    using g1 fits that by (intro give_answer_good) (auto simp: answer_due_def)
  ultimately show ?thesis
    using g1 Some by (auto simp: key_answer_def Let_def)
qed (use g in \<open>simp add: key_answer_def\<close>)

lemma decide_if_final_good:
  assumes g: "good e0 e"
  shows "yields (decide_if_final e) (\<lambda>e'. good e0 e' \<and> same e e')"
proof (cases "en_answer e")
  case (Some a)
  have "yields (key_answer (disarm AnswerTimer e)) (\<lambda>e'. good e0 e' \<and> same (disarm AnswerTimer e) e')"
    if "aw_what a \<noteq> WindowKind"
    using g Some that by (intro key_answer_good) (auto simp: upd)
  then show ?thesis using g Some by (auto simp: decide_if_final_def)
qed (use g in \<open>simp add: decide_if_final_def\<close>)

lemma schedule_good:
  assumes g: "good e0 e" and a: "answer_fits a e"
  shows "yields (schedule a e) (\<lambda>e'. good e0 e' \<and> same e e')"
proof (cases "too_late (aw_start a) e")
  case False
  let ?e1 = "arm AnswerTimer (max (en_now e) (aw_start a - own_latency (en_timing e))) (e\<lparr>en_answer := Some a\<rparr>)"
  have "good e0 ?e1" using g a by (intro upd) auto
  from decide_if_final_good [OF this] False show ?thesis by (simp add: schedule_def)
qed (use g in \<open>simp add: schedule_def\<close>)

lemma answer_disc_good:
  assumes "good e0 e" "en_state e = Idle" "kind \<in> {Disc, DiscAck}"
  shows "yields (answer_disc ctl frame kind e) (\<lambda>e'. good e0 e' \<and> same e e')"
  unfolding answer_disc_def Let_def
  using assms(1) by (rule schedule_good) (use assms in \<open>simp add: answer_fits_def answer_new_def\<close>)

section \<open>A frame heard, a session ended\<close>

lemma note_heard_good:
  assumes n: "nearly e0 e" and s: "in_session e"
  shows "yields (note_heard frame e) (\<lambda>e'. good e0 e' \<and> same e e')"
proof (rule yields_mono [OF note_heard_effect])
  fix e' :: "'a engine"
  assume "\<exists>x\<in>timeouts e. control e' = control (arm LinkTimer (en_now e + x) (e\<lparr>en_heard_at := en_now e\<rparr>))"
  then obtain x where x: "x \<in> timeouts e"
    and c: "control e' = control (arm LinkTimer (en_now e + x) (e\<lparr>en_heard_at := en_now e\<rparr>))" by blast
  have "rest_ok (e\<lparr>en_heard_at := en_now e\<rparr>) = rest_ok e" by (simp add: inv_defs)
  with n have "nearly e0 (arm LinkTimer (en_now e + x) (e\<lparr>en_heard_at := en_now e\<rparr>))"
    by (simp add: nearly_def rest_arm)
  moreover have "link_ok (arm LinkTimer (en_now e + x) (e\<lparr>en_heard_at := en_now e\<rparr>))"
    using x s by (auto simp: link_ok_def)
  ultimately show "good e0 e' \<and> same e e'"
    using good_cong [OF c] same_control [OF c, of e] by (simp add: good_def same_def)
qed

lemma good_nearly: "good e0 e \<Longrightarrow> nearly e0 e"
  by (simp add: good_def)

lemma take_ack_good: "good e0 e \<Longrightarrow> yields (en_take_ack ctl fresh e) (\<lambda>e'. good e0 e' \<and> same e e')"
  by (rule good_quiet [OF _ en_take_ack_quiet])

lemma peer_reading_good: "good e0 e \<Longrightarrow> yields (en_peer_reading snr e) (\<lambda>e'. good e0 e' \<and> same e e')"
  by (rule good_quiet [OF _ en_peer_reading_quiet])

lemma on_tx_fields [simp]:
  "en_tx (on_tx f e) = f (en_tx e)"
  "en_state (on_tx f e) = en_state e"
  "en_now (on_tx f e) = en_now e"
  "en_heard_at (on_tx f e) = en_heard_at e"
  "en_slot (on_tx f e) = en_slot e"
  "en_hold_until (on_tx f e) = en_hold_until e"
  "en_answer (on_tx f e) = en_answer e"
  "en_window (on_tx f e) = en_window e"
  "en_peer_turnaround_s (on_tx f e) = en_peer_turnaround_s e"
  "en_probing (on_tx f e) = en_probing e"
  "en_probe_unsent (on_tx f e) = en_probe_unsent e"
  "en_connect_tries (on_tx f e) = en_connect_tries e"
  "en_actions (on_tx f e) = en_actions e"
  "en_deadlines (on_tx f e) = en_deadlines e"
  "en_rx (on_tx f e) = en_rx e"
  by (simp_all add: on_tx_def)

lemma set_role_fields [simp]:
  "en_tx (set_role r e) = (en_tx e)\<lparr>sn_role := r\<rparr>"
  "en_state (set_role r e) = en_state e"
  "en_now (set_role r e) = en_now e"
  "en_heard_at (set_role r e) = en_heard_at e"
  "en_slot (set_role r e) = en_slot e"
  "en_hold_until (set_role r e) = en_hold_until e"
  "en_answer (set_role r e) = en_answer e"
  "en_window (set_role r e) = en_window e"
  "en_peer_turnaround_s (set_role r e) = en_peer_turnaround_s e"
  "en_probing (set_role r e) = en_probing e"
  "en_probe_unsent (set_role r e) = en_probe_unsent e"
  "en_connect_tries (set_role r e) = en_connect_tries e"
  "en_actions (set_role r e) = en_actions e"
  "en_deadlines (set_role r e) = en_deadlines e"
  "en_rx (set_role r e) = en_rx e"
  by (simp_all add: set_role_def)

text \<open>What a reset leaves of the control part.\<close>

definition blank :: "'h engine \<Rightarrow> 'h engine \<Rightarrow> bool" where
  "blank e e' \<longleftrightarrow> halves e' = halves e \<and> en_state e' = en_state e \<and> en_now e' = en_now e \<and>
     en_hold_until e' = en_hold_until e \<and> en_probing e' = en_probing e \<and> en_probe_unsent e' = en_probe_unsent e \<and>
     en_connect_tries e' = en_connect_tries e \<and> keyed e' = keyed e \<and> en_slot e' = None \<and> en_answer e' = None \<and>
     en_window e' = None \<and> armed LinkTimer e' = None \<and> armed ProceedTimer e' = None \<and>
     armed ProbeTimer e' = armed ProbeTimer e"

lemma reset_session_blank: "yields (reset_session e) (\<lambda>e'. blank e e')"
proof -
  have c: "control (fold disarm ts (price_controllers x)) = control (fold disarm ts x)" for ts and x :: "'a engine"
  proof (induction ts arbitrary: x)
    case (Cons t ts)
    have d: "control y = control z \<Longrightarrow> control (fold disarm us y) = control (fold disarm us z)" for us and y z :: "'a engine"
    proof (induction us arbitrary: y z)
      case (Cons u us)
      have "control (disarm u y) = control (disarm u z)" using Cons.prems by (auto simp: control_eq disarm_def)
      then show ?case unfolding fold_simps by (rule Cons.IH)
    qed simp
    show ?case by (rule d) simp
  qed simp
  have b: "control x = control y \<Longrightarrow> blank e x = blank e y" for x y
    by (auto simp: blank_def control_eq)
  have m: "blank e (fold disarm [ProceedTimer, AnswerTimer, LinkTimer] (price_controllers x))"
    if x: "halves x = halves e" "en_state x = en_state e" "en_now x = en_now e" "en_hold_until x = en_hold_until e"
      "en_probing x = en_probing e" "en_probe_unsent x = en_probe_unsent e" "en_connect_tries x = en_connect_tries e"
      "keyed x = keyed e" "en_slot x = None" "en_answer x = None" "en_window x = None"
      "en_deadlines x = en_deadlines e" for x
    unfolding b [OF c] using x by (simp add: blank_def)
  show ?thesis
    unfolding reset_session_def
    by (intro yields_bindI [OF yields_True], subst yields_basic, rule m)
      (simp_all add: tx_static_def rx_static_def reset_tx_def reset_rx_def)
qed

lemma blank_cong: "control e1 = control e2 \<Longrightarrow> blank e1 = blank e2"
  by (rule ext) (simp add: blank_def control_eq)

lemma blank_good:
  assumes b: "blank e1 e'" and h: "halves_agree e1" "roles_ok e1" "probe_ok e1" "\<not> in_session e1"
    and s: "en_now e1 = en_now e0" "en_config e1 = en_config e0" "en_timing e1 = en_timing e0"
    and k: "keyed e1 = keyed e0 @ new" "\<forall>tm\<in>set new. lawful e0 tm"
  shows "good e0 e'"
proof -
  from b have "en_session e' = en_session e1" "en_timing e' = en_timing e1" "en_config e' = en_config e1"
    "en_role e' = en_role e1"
    using halves_eqD [of e' e1] by (simp_all add: blank_def)
  with assms show ?thesis
    unfolding good_def nearly_def link_ok_def inv_defs blank_def by auto
qed

lemma rest_turnaround [simp]: "rest_ok (e\<lparr>en_peer_turnaround_s := x\<rparr>) = rest_ok e"
  by (simp add: inv_defs)

lemma nearly_turnaround [simp]: "nearly e0 (e\<lparr>en_peer_turnaround_s := x\<rparr>) = nearly e0 e"
  by (simp add: nearly_def)

lemma good_turnaround: "good e0 e \<Longrightarrow> \<not> in_session e \<Longrightarrow> good e0 (e\<lparr>en_peer_turnaround_s := x\<rparr>)"
  by (auto simp: good_def link_ok_def)

lemma owe_identifier_good:
  assumes "good e0 e"
  shows "yields (owe_identifier reason was_master unread was_left e) (\<lambda>e'. good e0 e' \<and> same e e')"
  using assms by (auto simp: owe_identifier_def Let_def yl upd intro!: yieldsI)

definition ended :: "'h engine \<Rightarrow> 'h engine \<Rightarrow> bool" where
  "ended e0 e \<longleftrightarrow> good e0 e \<and> en_state e = Idle \<and> en_role e = NoRole"

lemma end_session_with_good:
  assumes n: "nearly e0 e"
  shows "yields (end_session_with reason disc_heard unread e) (ended e0)"
proof -
  let ?p = "disarm IdentTimer (disarm ConnectTimer (set_role NoRole (e\<lparr>
       en_ended_peer_snr_db := sn_peer_snr_db (en_tx e), en_state := Idle\<rparr>)))"
  have r: "yields (reset_session ?p) (\<lambda>e1. good e0 e1 \<and> en_state e1 = Idle \<and> en_role e1 = NoRole)"
  proof (rule yields_mono [OF reset_session_blank])
    fix e1 :: "'a engine"
    assume b: "blank ?p e1"
    have "good e0 e1"
      using n by (auto simp: nearly_def inv_defs intro: blank_good [OF b])
    moreover have "en_role e1 = en_role ?p" using b halves_eqD [of e1 ?p] by (simp add: blank_def)
    moreover have "en_state e1 = Idle" using b by (simp add: blank_def)
    ultimately show "good e0 e1 \<and> en_state e1 = Idle \<and> en_role e1 = NoRole"
      by (simp add: set_role_def on_tx_def)
  qed
  show ?thesis
    unfolding end_session_with_def Let_def
  proof (rule yields_bindI [OF yields_True], rule yields_bindI [OF r], goal_cases)
    case (1 left e1)
    define q where "q = (on_tx (\<lambda>s. s\<lparr>sn_queue := []\<rparr>) e1)\<lparr>en_peer_turnaround_s := en_peer_turnaround_s e\<rparr>"
    have c: "control (on_tx (\<lambda>s. s\<lparr>sn_queue := []\<rparr>) e1) = control e1" by (rule on_tx_quiet) simp
    have "good e0 (on_tx (\<lambda>s. s\<lparr>sn_queue := []\<rparr>) e1)" using 1 good_cong [OF c] by simp
    then have gq: "good e0 q" unfolding q_def using 1 by (intro good_turnaround) auto
    have sq: "en_state q = Idle" "en_role q = NoRole" using 1 by (simp_all add: q_def)
    define e2 where "e2 x = event ''disconnected'' reason (q\<lparr>en_peer_identifier_s := en_peer_identifier_s e,
       en_silence_level := en_silence_level e, en_left := left, en_id_owed := x\<rparr>)" for x
    have g2: "good e0 (e2 x)" for x using gq by (simp add: e2_def)
    have s2: "en_state (e2 x) = Idle" "en_role (e2 x) = NoRole" for x
      using sq by (simp_all add: e2_def event_def)
    note e2 = e2_def [unfolded q_def, symmetric]
    show ?case unfolding e2
      by (subst yields_if, intro conjI impI, rule yields_mono [OF owe_identifier_good [OF g2]])
        (use g2 s2 in \<open>auto simp: ended_def same_def\<close>)
  qed
qed

end
