(* ===== verification/Engine_Safe.thy ===== *)
theory Engine_Safe
  imports Engine_Keying
begin

text \<open>
  Every operation of the session engine keeps \<open>good\<close>: the slave's, the caller's, the master's, the leaving
  station's, and last every input.
\<close>

lemma slave_connected: "good e0 e \<Longrightarrow> en_role e = Slave \<Longrightarrow> en_state e = Connected"
  by (cases "en_state e") (auto simp: good_def nearly_def inv_defs)

lemma good_window_fits:
  assumes "good e0 e" "en_role e = Slave"
  shows "answer_fits ((answer_new AnsKind st (st + slack_s (en_config e)) fl)\<lparr>aw_session := sn, aw_anchor := an, aw_room_s := ro\<rparr>) e"
  using assms slave_connected [OF assms] by (simp add: answer_fits_def answer_new_def)

text \<open>Handling on, from where the state and the role are still those of \<open>e\<close>.\<close>

lemma go_on:
  assumes "yields r (\<lambda>e1. good e0 e1 \<and> same e e1)"
    and "\<And>e1. good e0 e1 \<Longrightarrow> same e e1 \<Longrightarrow> yields (f e1) (\<lambda>e2. good e0 e2 \<and> same e1 e2)"
  shows "yields (r \<bind> f) (\<lambda>e2. good e0 e2 \<and> same e e2)"
  using assms(1)
proof (rule yields_bindI)
  fix e1
  assume "good e0 e1 \<and> same e e1"
  then show "yields (f e1) (\<lambda>e2. good e0 e2 \<and> same e e2)"
    by (intro yields_mono [OF assms(2)]) (auto intro: same_trans)
qed

section \<open>The slave\<close>

lemma schedule_slave_good:
  assumes g: "good e0 e" and r: "en_role e = Slave" "en_role e0 = Slave"
  shows "yields (schedule_slave e) (\<lambda>e'. good e0 e' \<and> same e e')"
proof (cases "en_m_end e")
  case (Some m_end)
  note c = slave_connected [OF g r(1)]
  have w: "yields (try_window (disarm AnswerTimer (e\<lparr>en_window := Some (st, st + window_s (en_config e) b i, fl), en_answer := None\<rparr>)))
      (\<lambda>e'. good e0 e' \<and> same e e')" "good e0 (disarm AnswerTimer (e\<lparr>en_window := Some (st, st + window_s (en_config e) b i, fl), en_answer := None\<rparr>))"
    for st b i fl
  proof -
    show g': "good e0 (disarm AnswerTimer (e\<lparr>en_window := Some (st, st + window_s (en_config e) b i, fl), en_answer := None\<rparr>))"
      using g c r by (intro upd) auto
    show "yields (try_window (disarm AnswerTimer (e\<lparr>en_window := Some (st, st + window_s (en_config e) b i, fl), en_answer := None\<rparr>)))
      (\<lambda>e'. good e0 e' \<and> same e e')"
      using try_window_good [OF g'] r by simp
  qed
  have s: "yields (schedule ((answer_new AnsKind st (st + slack_s (en_config e)) fl)\<lparr>aw_session := sn, aw_anchor := an, aw_room_s := ro\<rparr>)
      (e\<lparr>en_window := None\<rparr>)) (\<lambda>e'. good e0 e' \<and> same e e')" for st fl sn an ro
    using schedule_good [OF good_upd(3) [OF g]] good_window_fits [OF g r(1)] by simp
  show ?thesis
    using g c w s by (simp add: schedule_slave_def Let_def yl)
qed (use g in \<open>simp add: schedule_slave_def\<close>)

lemma next_transmission_good:
  assumes g: "good e0 e" shows "good e0 (next_transmission e) \<and> same e (next_transmission e)"
proof -
  have "good e0 ((on_rx restart_rx e)\<lparr>en_grant := None, en_m_end := None, en_window := None\<rparr>)"
    using g by (auto intro: upd)
  then show ?thesis
    by (auto simp: next_transmission_def Let_def intro: upd split: option.split)
qed

lemma placed_good:
  assumes g: "good e0 e" and p: "placed frame decoded e = (b, e')" shows "good e0 e' \<and> same e e'"
  using assms next_transmission_good [OF g] by (auto simp: placed_def Let_def split: if_splits option.splits)

lemma slave_header_good:
  assumes g: "good e0 e" and r: "en_role e = Slave" "en_role e0 = Slave"
  shows "yields (slave_header ctl frame e) (\<lambda>e'. good e0 e' \<and> same e e')"
proof -
  let ?e1 = "on_rx (\<lambda>r. note_opening ctl (open_rx frame (unat (gf_count ctl)) (gf_data_floor ctl) r)) e"
  have t: "yields (en_take_ack ctl True ?e1) (\<lambda>e'. good e0 e' \<and> same e e')"
    using take_ack_good [of e0 ?e1] g by simp
  show ?thesis
    unfolding slave_header_def Let_def
  proof (rule go_on [OF t])
    fix e2 :: "'a engine"
    assume e2: "good e0 e2" "same e e2"
    define e3 where "e3 = on_tx (\<lambda>s. s\<lparr>sn_ans_sticky := (gf_fam ctl \<or> floor_only s)\<rparr>) e2"
    have c3: "control e3 = control e2" unfolding e3_def by (rule on_tx_quiet) simp
    define e4 where "e4 = e3\<lparr>en_grant := Some ctl, en_grant_floor := hd_floor frame,
       en_m_end := Some (hd_t_end frame + real (unat (gf_count ctl)) * frame_s (en_timing e3) (gf_data_floor ctl)),
       en_m_last_floor := (if 0 < gf_count ctl then gf_data_floor ctl else hd_floor frame)\<rparr>"
    have c4: "control e4 = control e2" using c3 by (simp add: e4_def)
    have "good e0 e4" "same e2 e4" "en_role e4 = Slave"
      using e2 r c4 good_cong [OF c4] same_cong [OF c4] by (auto simp: same_def)
    then have "yields (schedule_slave e4) (\<lambda>e'. good e0 e' \<and> same e4 e')"
      using r by (intro schedule_slave_good)
    then show "yields (schedule_slave (on_tx (\<lambda>s. s\<lparr>sn_ans_sticky := (gf_fam ctl \<or> floor_only s)\<rparr>) e2
        \<lparr>en_grant := Some ctl, en_grant_floor := hd_floor frame,
         en_m_end := Some (hd_t_end frame + real (unat (gf_count ctl)) *
           frame_s (en_timing (on_tx (\<lambda>s. s\<lparr>sn_ans_sticky := (gf_fam ctl \<or> floor_only s)\<rparr>) e2)) (gf_data_floor ctl)),
         en_m_last_floor := (if 0 < gf_count ctl then gf_data_floor ctl else hd_floor frame)\<rparr>)) (\<lambda>e'. good e0 e' \<and> same e2 e')"
      unfolding e4_def [unfolded e3_def, symmetric]
      using \<open>same e2 e4\<close> by (elim yields_mono) (auto intro: same_trans)
  qed
qed

lemma note_heard_good':
  "good e0 e \<Longrightarrow> in_session e \<Longrightarrow> yields (note_heard frame e) (\<lambda>e'. good e0 e' \<and> same e e')"
  by (rule note_heard_good [OF good_nearly])

lemma end_session_good:
  "good e0 e \<Longrightarrow> yields (end_session reason disc e) (ended e0)" "good e0 e \<Longrightarrow> yields (end_session_unread reason e) (ended e0)"
  by (simp_all add: end_session_def end_session_unread_def good_def end_session_with_good)

lemma slave_control_good:
  assumes g: "good e0 e" and r: "en_role e = Slave" "en_role e0 = Slave"
  shows "yields (slave_control ctl frame e) (good e0)"
proof -
  obtain b e1 where p: "placed frame True e = (b, e1)" by fastforce
  have g1: "good e0 e1" "same e e1" using placed_good [OF g p] by auto
  then have r1: "en_role e1 = Slave" "in_session e1" using r slave_connected [of e0 e1] by (auto simp: same_def)
  have late: "yields (en_take_ack ctl False e1) (good e0)"
    by (rule yields_mono [OF take_ack_good [OF g1(1)]]) simp
  have n: "yields (note_heard frame e1) (\<lambda>e'. good e0 e' \<and> same e1 e')"
    using g1(1) r1(2) by (rule note_heard_good')
  have "yields (note_heard frame e1 \<bind> (\<lambda>x. en_peer_reading (gf_snr_db ctl) (measure_lateness frame x)))
      (\<lambda>e'. good e0 e' \<and> same e1 e')"
    by (rule go_on [OF n]) (use peer_reading_good [of e0 "measure_lateness frame _"] in simp)
  then have m: "yields (note_heard frame e1 \<bind> (\<lambda>x. en_peer_reading (gf_snr_db ctl) (measure_lateness frame x) \<bind> f)) (good e0)"
    if "\<And>e2. good e0 e2 \<Longrightarrow> en_role e2 = Slave \<Longrightarrow> yields (f e2) (good e0)" for f
    unfolding bind_assoc [symmetric] by (rule yields_bindI) (use that r1 in \<open>auto simp: same_def\<close>)
  have d: "yields (end_session ''peer disconnected'' True e2 \<bind> (\<lambda>e3. answer_disc ctl frame DiscAck e3)) (good e0)"
    if "good e0 e2" for e2
    by (rule yields_bindI [OF end_session_good(1) [OF that]])
      (auto simp: ended_def intro!: yields_mono [OF answer_disc_good])
  have h: "yields (slave_header ctl frame e2) (good e0)" if "good e0 e2" "en_role e2 = Slave" for e2
    by (rule yields_mono [OF slave_header_good [OF that r(2)]]) simp
  show ?thesis
  proof (cases b)
    case False
    then show ?thesis using late g1 by (simp add: slave_control_def p)
  next
    case True
    then have p': "placed frame True e = (True, e1)" using p by simp
    show ?thesis
      unfolding slave_control_def p' prod.case bool.case if_True
      by (rule m) (simp add: yl d [unfolded yields_bind] h)
  qed
qed

lemma slave_data_good:
  assumes g: "good e0 e" and r: "en_role e = Slave" "en_role e0 = Slave"
  shows "yields (slave_data soft frame decoded e) (good e0)"
proof -
  obtain b e1 where p: "placed frame decoded e = (b, e1)" by fastforce
  have g1: "good e0 e1" "same e e1" using placed_good [OF g p] by auto
  then have r1: "en_role e1 = Slave" using r by (simp add: same_def)
  show ?thesis
  proof (cases b)
    case False
    then show ?thesis using g1 by (simp add: slave_data_def p)
  next
    case True
    then have p': "placed frame decoded e = (True, e1)" using p by simp
    obtain index rv where td: "take_data soft (en_rx e1) = (index, rv)" by fastforce
    define e2 where "e2 = put_rx (note_data index rv) e1"
    have c2: "control e2 = control e1" unfolding e2_def by (rule put_data_quiet [OF td])
    have g2: "good e0 e2" "en_role e2 = Slave" "in_session e2"
      using g1 r1 good_cong [OF c2] role_control [OF c2] slave_connected [of e0 e2] by auto
    have d: "yields (decide_if_final e3) (good e0)" if "good e0 e3" for e3
      by (rule yields_mono [OF decide_if_final_good [OF that]]) simp
    have s: "yields (schedule_slave (e3\<lparr>en_m_end := m, en_m_last_floor := f\<rparr>)) (good e0)"
      if "good e0 e3" "same e2 e3" for e3 m f
      by (rule yields_mono [OF schedule_slave_good [of e0]]) (use that g2 r in \<open>auto simp: same_def\<close>)
    have n: "yields (note_heard frame e2) (\<lambda>e3. good e0 e3 \<and> same e2 e3)"
      using g2 by (intro note_heard_good')
    have o: "yields (note_heard frame e2 \<bind> (\<lambda>e3. case hd_follows frame of
           None \<Rightarrow> Some (measure_lateness frame e3)
         | Some f \<Rightarrow> if P e3 f then schedule_slave ((measure_lateness frame e3)\<lparr>en_m_end := m e3 f, en_m_last_floor := fl e3\<rparr>)
             else Some (measure_lateness frame e3))) (good e0)" for P m fl
      by (rule yields_bindI [OF n]) (auto simp: yl s split: option.split)
    show ?thesis
      unfolding slave_data_def p' prod.case bool.case td Let_def e2_def [symmetric]
    proof (rule yields_bindI [where P = "good e0"])
      show "yields (case index of None \<Rightarrow> Some e2 | Some i \<Rightarrow> if rr_payload (rv_rx rv ! i) = None then Some e2
          else note_heard frame e2 \<bind> (\<lambda>e3. case hd_follows frame of None \<Rightarrow> Some (measure_lateness frame e3)
            | Some f \<Rightarrow> if en_m_end (measure_lateness frame e3) = None \<and> \<not> rr_combined (rv_rx rv ! i) \<and> f < MAX_FOLLOWS
                then schedule_slave ((measure_lateness frame e3)\<lparr>
                  en_m_end := Some (hd_t_end frame + real (unat f) * (hd_t_end frame - hd_t_start frame)),
                  en_m_last_floor := pt_is_floor (en_timing (measure_lateness frame e3)) (hd_mode frame)\<rparr>)
                else Some (measure_lateness frame e3))) (good e0)"
        using g2 by (subst yields_option, subst yields_if) (intro conjI impI allI o; simp)
    qed (rule d)
  qed
qed

section \<open>Slots granted\<close>

lemma arm_wait_good:
  assumes g: "good e0 e" shows "good e0 (arm_wait e) \<and> same e (arm_wait e)"
proof (cases "en_slot e")
  case (Some sl)
  let ?e1 = "e\<lparr>en_hold_until := slot_close sl e\<rparr>"
  have f: "slot_fits (sl_kind sl) e" using good_inv [OF g] Some by (simp add: engine_inv_def rest_ok_def slot_ok_def)
  have "good e0 (arm_wait e)"
  proof (cases "in_session e")
    case True
    then have m: "en_role e = Master" "sl_kind sl \<noteq> ProbeSlot" using f by (auto simp: slot_fits_def)
    have "rest_ok (arm ProceedTimer (max (en_now e) (slot_close sl e)) ?e1)"
      using good_inv [OF g] True m by (auto simp: engine_inv_def inv_defs)
    moreover have "link_ok (arm ProceedTimer (max (en_now e) (slot_close sl e)) ?e1) = link_ok e"
      by (simp add: link_ok_def)
    ultimately have "good e0 (arm ProceedTimer (max (en_now e) (slot_close sl e)) ?e1)"
      using g by (simp add: good_def nearly_def)
    then show ?thesis using True m Some by (auto simp: arm_wait_def Let_def)
  next
    case False
    then have "good e0 ?e1" using g by (intro upd) auto
    then show ?thesis using False Some by (auto simp: arm_wait_def Let_def intro: upd good_arm_probe)
  qed
  then show ?thesis using Some by (auto simp: arm_wait_def Let_def)
qed (use g in \<open>simp add: arm_wait_def\<close>)

lemma slot_upd_good:
  assumes g: "good e0 e" and s: "en_slot e = Some sl" "sl_kind sl' = sl_kind sl"
  shows "good e0 (e\<lparr>en_slot := Some sl'\<rparr>)"
  using g by (rule good_upd(5)) (use good_inv [OF g] s in \<open>simp add: engine_inv_def rest_ok_def slot_ok_def\<close>)

lemma open_slot_good:
  assumes g: "good e0 e" shows "good e0 (open_slot end_s e) \<and> same e (open_slot end_s e)"
proof (cases "en_slot e")
  case (Some sl)
  then show ?thesis
    using arm_wait_good [OF slot_upd_good [OF g Some]] by (simp add: open_slot_def Let_def)
qed (use g in \<open>simp add: open_slot_def\<close>)

lemma state_end_good:
  assumes g: "good e0 e" shows "good e0 (state_end end_s fl e) \<and> same e (state_end end_s fl e)"
proof (cases "en_slot e")
  case (Some sl)
  then show ?thesis
    using arm_wait_good [OF slot_upd_good [OF g Some]] by (simp add: state_end_def Let_def)
qed (use g in \<open>simp add: state_end_def\<close>)

lemma good_own:
  assumes "good e0 e" "may_key e0" "ky_not_before ky = None" "ky_not_after ky = None"
  shows "good e0 (snd (transmit frames ky granting e)) \<and> same e (snd (transmit frames ky granting e))"
  using assms(1) by (rule good_transmit) (use assms in \<open>simp add: lawful_def\<close>)

lemma key_granting_good:
  assumes g: "good e0 e" and k: "may_key e0" and s: "slot_fits (sl_kind sl) e"
  shows "good e0 (key_granting sl frames e) \<and> same e (key_granting sl frames e)"
proof -
  let ?e1 = "e\<lparr>en_next_slot_id := en_next_slot_id e + 1, en_slot := Some (sl\<lparr>sl_id := en_next_slot_id e + 1\<rparr>)\<rparr>"
  obtain end_s e2 where t: "transmit frames keying_default (Some (en_next_slot_id e + 1)) ?e1 = (end_s, e2)" by fastforce
  have "good e0 ?e1" using g s by (auto intro!: upd simp: slot_fits_def)
  from good_own [OF this k, of keying_default frames "Some (en_next_slot_id e + 1)"] t
  have "good e0 e2" "same e e2" by (simp_all add: keying_default_def)
  with open_slot_good [of e0 e2 end_s] show ?thesis
    unfolding key_granting_def Let_def t prod.case by (auto intro: same_trans)
qed

section \<open>Leaving\<close>

lemma identify_after_leaving_good:
  "good e0 e \<Longrightarrow> good e0 (identify_after_leaving e) \<and> same e (identify_after_leaving e)"
  by (simp add: identify_after_leaving_def upd)

lemma drop_identifier_good: "good e0 e \<Longrightarrow> good e0 (drop_identifier e) \<and> same e (drop_identifier e)"
  by (simp add: drop_identifier_def upd)

lemma send_identifier_good:
  assumes g: "good e0 e" and r: "\<not> in_session e \<Longrightarrow> en_role e0 \<noteq> Slave" and h: "en_hold_until e0 = en_hold_until e"
  shows "good e0 (send_identifier e) \<and> same e (send_identifier e)"
proof -
  let ?ky = "keying_default\<lparr>ky_identifier_s := en_id_owed e, ky_listen_first := en_id_listen e\<rparr>"
  obtain end_s e1 where t: "transmit [] ?ky None (e\<lparr>en_id_owed := 0\<rparr>) = (end_s, e1)" by fastforce
  have "good e0 e1 \<and> same e e1" if "\<not> en_now e < en_hold_until e - 1 / 10 ^ 9" "\<not> in_session e"
    using good_own [of e0 "e\<lparr>en_id_owed := 0\<rparr>" ?ky "[]" None] g t r h that good_facts [OF g]
    by (simp add: keying_default_def may_key_def)
  moreover have "good e0 (e1\<lparr>en_hold_until := x\<rparr>)" if "good e0 e1 \<and> same e e1" "\<not> in_session e" for x
    using that by (intro upd) (auto simp: same_def)
  ultimately show ?thesis
    using g by (auto simp: send_identifier_def Let_def t upd)
qed

lemma owe_again_good: "good e0 e \<Longrightarrow> yields (owe_again ident e) (\<lambda>e'. good e0 e' \<and> same e e')"
  by (auto simp: owe_again_def Let_def yl upd intro!: yieldsI)

lemma leaving_answered_good:
  assumes "good e0 e" shows "good e0 (leaving_answered frame e)"
proof -
  have "good e0 (disarm LeaveTimer (e\<lparr>en_left := None\<rparr>))" using assms by (auto intro: upd)
  then show ?thesis
    by (auto simp: leaving_answered_def Let_def
      intro!: identify_after_leaving_good [THEN conjunct1] state_end_good [THEN conjunct1])
qed

lemma left_answered_by_good:
  assumes "good e0 e" "en_state e = Idle"
  shows "yields (left_answered_by ctl frame disc_heard was_slave e) (good e0)"
  using assms by (auto simp: left_answered_by_def intro!: yields_mono [OF answer_disc_good])

lemma answer_left_good:
  assumes g: "good e0 e" and s: "\<not> in_session e"
  shows "yields (answer_left ctl frame e) (good e0)"
proof (cases "en_left e")
  case (Some l)
  then obtain session until disc was where l: "en_left e = Some (session, until, disc, was)" by (cases l) auto
  have "yields (if 0 < en_id_owed e \<and> en_id_alone e
      then do { x \<leftarrow> en_exchange_s e; Some (arm IdentTimer (en_now e + x) e) } else Some e)
      (\<lambda>e1. good e0 e1 \<and> same e e1)"
    using g by (auto simp: yl upd intro!: yieldsI)
  then have "yields ((if 0 < en_id_owed e \<and> en_id_alone e
      then do { x \<leftarrow> en_exchange_s e; Some (arm IdentTimer (en_now e + x) e) } else Some e) \<bind>
      left_answered_by ctl frame disc was) (good e0)" if "en_state e = Idle"
    by (rule yields_bindI) (use that left_answered_by_good in \<open>auto simp: same_def\<close>)
  then show ?thesis
    using g s leaving_answered_good [OF g] l by (cases "en_state e") (auto simp: answer_left_def)
qed (use g in \<open>simp add: answer_left_def\<close>)

lemma repeat_leave_good:
  assumes g: "good e0 e" and r: "en_state e = Idle \<Longrightarrow> en_role e0 \<noteq> Slave" and h: "en_hold_until e0 = en_hold_until e"
  shows "good e0 (repeat_leave e)"
proof (cases "en_left e")
  case None
  then show ?thesis using identify_after_leaving_good [OF g] by (simp add: repeat_leave_def)
next
  case (Some l)
  then obtain session until x y where l: "en_left e = Some (session, until, x, y)" by (cases l) auto
  let ?e1 = "e\<lparr>en_leave_repeats := en_leave_repeats e - 1\<rparr>"
  obtain sl frame where s: "leave_slot session ?e1 = (sl, frame)" by fastforce
  have sk: "sl_kind sl = LeaveSlot" using s by (auto simp: leave_slot_def slot_new_def Let_def)
  have "good e0 (key_granting sl [frame] ?e1)"
    if "en_state e = Idle" "\<not> en_now e < en_hold_until e - 1 / 10 ^ 9"
    by (rule key_granting_good [THEN conjunct1])
      (use g r h that good_facts [OF g] sk in \<open>auto simp: may_key_def slot_fits_def\<close>)
  then show ?thesis
    using g l s
    by (auto simp: repeat_leave_def Let_def upd intro!: identify_after_leaving_good [THEN conjunct1])
qed

lemma disconnect_within_good:
  assumes g: "good e0 e" and r: "en_role e0 = en_role e"
  shows "yields (disconnect_within drain_s e) (\<lambda>e'. good e0 e' \<and> same e e')"
proof (cases "en_state e = Idle")
  case False
  define e1 where "e1 = e\<lparr>en_disc_requested := True,
    en_leave_drain_s := (case drain_s of None \<Rightarrow> en_leave_drain_s e | Some d \<Rightarrow> max d 0),
    en_leave_since := (case en_leave_since e of None \<Rightarrow> Some (en_now e) | Some t \<Rightarrow> Some t)\<rparr>"
  have g1: "good e0 e1" "same e e1" using g by (simp_all add: e1_def)
  have "yields (try_window (e1\<lparr>en_cause := c\<rparr>)) (\<lambda>e'. good e0 e' \<and> same (e1\<lparr>en_cause := c\<rparr>) e')" if "en_role e1 = Slave" for c
    by (rule try_window_good) (use g1 r that in \<open>auto simp: same_def\<close>)
  then show ?thesis
    using False g1 unfolding disconnect_within_def Let_def e1_def [symmetric] by (auto simp: same_def elim: yields_mono)
qed (use g in \<open>simp add: disconnect_within_def\<close>)

lemma send_bytes_good:
  assumes g: "good e0 e" and r: "en_role e0 = en_role e"
  shows "yields (send_bytes d e) (\<lambda>e'. good e0 e' \<and> same e e')"
proof -
  have c: "control (on_tx (enqueue d) e) = control e" by (rule on_tx_record_quiet)
  have g1: "good e0 (on_tx (enqueue d) e)" "en_role (on_tx (enqueue d) e) = en_role e"
    using g good_cong [OF c] role_control [OF c] by auto
  then have "yields (try_window ((on_tx (enqueue d) e)\<lparr>en_cause := x\<rparr>)) (\<lambda>e'. good e0 e' \<and> same e e')"
    if "en_role (on_tx (enqueue d) e) = Slave" for x
    using try_window_good [of e0 "(on_tx (enqueue d) e)\<lparr>en_cause := x\<rparr>"] same_control_left [OF c] r that by simp
  then show ?thesis using g1 same_cong [OF c] by (auto simp: send_bytes_def Let_def)
qed

lemma abort_good:
  assumes g: "good e0 e" shows "yields (abort e) (good e0)"
proof -
  have d: "yields (end_session ''aborted'' False (e\<lparr>en_cause := ''abort''\<rparr>)) (ended e0)"
    using g by (intro end_session_good) simp
  show ?thesis
    unfolding abort_def Let_def
    by (subst yields_if, intro conjI impI, use g in simp, rule yields_bindI [OF d])
      (auto simp: ended_def intro!: identify_after_leaving_good [THEN conjunct1] upd)
qed

section \<open>Calls\<close>

lemma yields_any: "(\<And>x. yields (f x) P) \<Longrightarrow> yields (r \<bind> f) P"
  by (rule yields_bindI [OF yields_True])

lemma send_connect_good:
  assumes g: "good e0 e" and s: "en_state e = Connecting" and k: "may_key e0"
  shows "yields (send_connect e) (good e0)"
proof -
  have "good e0 (key_granting ((slot_new ConnectSlot gl fl fams)\<lparr>sl_level := lv, sl_granter_turnaround_s := tu\<rparr>) fs
      (e\<lparr>en_connect_tries := tr, en_call_jitter := j, en_rng := rn\<rparr>))" for gl fl fams lv tu fs tr j rn
    by (rule key_granting_good [THEN conjunct1, OF _ k])
      (use g s in \<open>auto simp: slot_fits_def slot_new_def intro: upd\<close>)
  then show ?thesis
    using g unfolding send_connect_def Let_def by (auto simp: yl case_prod_beta intro!: yields_any split: option.split)
qed

lemma retry_connect_good:
  assumes g: "good e0 e" and k: "en_state e = Connecting \<Longrightarrow> may_key e0"
  shows "yields (retry_connect e) (good e0)"
  unfolding retry_connect_def
  using g send_connect_good [OF g _ k]
  by (auto simp: ended_def intro: yields_mono [OF end_session_good(1) [OF g]])

lemma reset_keeps:
  assumes n: "good e0 e" and b: "blank e1 e'" and c: "halves_agree e1" "roles_ok e1" "probe_ok e1" "\<not> in_session e1"
    and s: "en_now e1 = en_now e" "en_config e1 = en_config e" "en_timing e1 = en_timing e" "keyed e1 = keyed e"
  shows "good e0 e'"
proof -
  from n obtain new where "keyed e = keyed e0 @ new" "\<forall>tm\<in>set new. lawful e0 tm"
    "en_now e = en_now e0" "en_config e = en_config e0" "en_timing e = en_timing e0"
    by (auto simp: good_def nearly_def)
  with s show ?thesis by (intro blank_good [OF b c]) auto
qed

lemma set_session_fields [simp]:
  "en_tx (set_session q e) = (en_tx e)\<lparr>sn_session := q\<rparr>" "en_rx (set_session q e) = (en_rx e)\<lparr>rv_session := q\<rparr>"
  "en_state (set_session q e) = en_state e" "en_now (set_session q e) = en_now e"
  "en_deadlines (set_session q e) = en_deadlines e" "en_probing (set_session q e) = en_probing e"
  "en_probe_unsent (set_session q e) = en_probe_unsent e" "en_actions (set_session q e) = en_actions e"
  "en_hold_until (set_session q e) = en_hold_until e" "en_slot (set_session q e) = en_slot e"
  "en_answer (set_session q e) = en_answer e" "en_window (set_session q e) = en_window e"
  by (simp_all add: set_session_def)

lemma armed_set [simp]: "armed t (set_session q e) = armed t e" "armed t (set_role r e) = armed t e"
  by simp_all

lemma good_agree: "good e0 e \<Longrightarrow> halves_agree e" "good e0 e \<Longrightarrow> probe_ok e" "good e0 e \<Longrightarrow> roles_ok e"
  by (simp_all add: good_def nearly_def rest_ok_def)

text \<open>A probe that still waits to go: its timer runs.\<close>

definition probe_waits :: "'h engine \<Rightarrow> bool" where
  "probe_waits e \<longleftrightarrow> en_probe_unsent e \<and> armed ProbeTimer e \<noteq> None"

lemma start_call_good:
  assumes g: "good e0 e" and s: "en_state e = Idle" and p: "\<not> probe_waits e"
    and r: "en_role e0 \<noteq> Slave" "en_hold_until e0 = en_hold_until e"
  shows "yields (start_call remote e) (good e0)"
proof -
  define e1 where "e1 = (if 0 < en_id_owed e \<and> remote = en_remote_call e then drop_identifier e
               else if 0 < en_id_owed e then arm IdentTimer (max (en_now e) (en_hold_until e)) e else e)"
  have g1: "good e0 e1" "en_state e1 = Idle" "\<not> probe_waits e1" "en_hold_until e1 = en_hold_until e"
    using g s p by (auto simp: e1_def probe_waits_def drop_identifier_def upd)
  let ?p = "\<lambda>session rng. disarm LeaveTimer (set_role NoRole (set_session session (e1\<lparr>
       en_remote_call := remote, en_rng := rng, en_state := Connecting, en_connect_tries := 0, en_left := None\<rparr>)))"
  have b: "good e0 e2 \<and> en_state e2 = Connecting \<and> en_hold_until e2 = en_hold_until e" if "blank (?p session rng) e2" for session rng e2
  proof -
    have "good e0 e2"
      by (rule reset_keeps [OF g1(1) that])
        (use good_agree [OF g1(1)] g1(3) in \<open>auto simp: halves_agree_def roles_ok_def probe_ok_def probe_waits_def rx_static_def\<close>)
    then show ?thesis using that g1(4) by (simp add: blank_def)
  qed
  have m: "may_key e0" if "free_to_key e'" "good e0 e'" "en_hold_until e' = en_hold_until e" for e'
    using that r good_facts [of e0 e'] by (simp add: may_key_def free_to_key_def)
  show ?thesis
    unfolding start_call_def Let_def e1_def [symmetric] case_prod_beta
    by (rule yields_bindI [OF reset_session_blank], drule b)
      (auto simp: upd intro!: send_connect_good m)
qed

abbreviation good_or_refused :: "'h engine \<Rightarrow> string + 'h engine \<Rightarrow> bool" where
  "good_or_refused e0 r \<equiv> (case r of Inl _ \<Rightarrow> True | Inr e \<Rightarrow> good e0 e)"

lemma calling_as_quiet:
  "yields (calling_as as_call e) (\<lambda>r. case r of Inl _ \<Rightarrow> True | Inr e1 \<Rightarrow> \<exists>c. e1 = e\<lparr>en_my_call := c\<rparr>)"
  by (auto simp: calling_as_def Let_def yl intro!: yieldsI split: option.split)

lemma connect_good:
  assumes g: "good e0 e" and p: "\<not> probe_waits e" and r: "en_role e0 \<noteq> Slave" "en_hold_until e0 = en_hold_until e"
  shows "yields (connect remote_call as_call e) (good_or_refused e0)"
proof -
  have s: "yields (start_call remote (e\<lparr>en_my_call := c\<rparr>)) (good e0)" if "en_state e = Idle" for remote c
    by (rule start_call_good) (use g p r that in \<open>auto simp: probe_waits_def\<close>)
  show ?thesis
    unfolding connect_def Let_def
    by (auto simp: yl intro!: yields_mono [OF calling_as_quiet] s split: sum.split)
qed

lemma send_probe_good:
  assumes g: "good e0 e" and s: "en_state e = Idle" and k: "may_key e0"
  shows "yields (send_probe e) (good e0)"
proof -
  have "good e0 (key_granting ((slot_new ProbeSlot gl fl fams)\<lparr>sl_level := lv\<rparr>) fs (e\<lparr>en_probe_unsent := False\<rparr>))"
    for gl fl fams lv fs
    by (rule key_granting_good [THEN conjunct1, OF _ k]) (use g s in \<open>auto simp: slot_fits_def slot_new_def intro: upd\<close>)
  then show ?thesis
    using g unfolding send_probe_def Let_def
    by (auto simp: yl upd case_prod_beta intro!: yields_any yieldsI split: option.split)
qed

lemma probe_good:
  assumes g: "good e0 e" and r: "en_role e0 \<noteq> Slave" "en_hold_until e0 = en_hold_until e"
  shows "yields (Engine_Call.probe remote_call as_call e) (good_or_refused e0)"
proof -
  define ide where "ide e2 = (if 0 < en_id_owed e2 then arm IdentTimer (max (en_now e2) (en_hold_until e2)) e2 else e2)"
    for e2 :: "'a engine"
  define e4 where "e4 remote c = tally (\<lambda>st. st\<lparr>probes_sent := probes_sent st + 1\<rparr>)
    ((ide (e\<lparr>en_my_call := c, en_probing := Some remote\<rparr>))\<lparr>en_last_probe := None, en_cause := ''probe'', en_probe_unsent := True\<rparr>)"
    for remote c
  have "good e0 (e\<lparr>en_my_call := c, en_probing := Some remote\<rparr>)" for remote c
    by (rule good_upd(7)) (use g in simp_all)
  then have g4: "good e0 (e4 remote c)" "en_state (e4 remote c) = Idle" "en_probing (e4 remote c) \<noteq> None"
      "en_hold_until (e4 remote c) = en_hold_until e"
    if "en_state e = Idle" for remote c
    using that by (auto simp: e4_def ide_def intro!: good_upd(9) good_arm)
  have "yields (if free_to_key (e4 remote c) then send_probe (e4 remote c)
      else Some (arm ProbeTimer (en_hold_until (e4 remote c)) (e4 remote c))) (good e0)" if "en_state e = Idle" for remote c
    using g4 [OF that, of remote c] r good_facts [OF g4(1) [OF that], of remote c]
    by (auto simp: free_to_key_def may_key_def intro!: send_probe_good good_arm_probe)
  then show ?thesis
    unfolding Engine_Call.probe_def Let_def
    by (auto simp: yl e4_def ide_def intro!: yields_mono [OF calling_as_quiet] split: sum.split)
qed

lemma schedule_acceptance_good:
  assumes g: "good e0 e" and s: "en_state e = Connected" "en_role e = Slave"
  shows "yields (schedule_acceptance req frame start e) (good e0)"
  unfolding schedule_acceptance_def
  by (intro yields_any yields_mono [OF schedule_good [OF g]]) (use s in \<open>simp_all add: answer_fits_def answer_new_def\<close>)

text \<open>A session begins, before its first frame is noted: all but the Link timer is as it should be.\<close>

lemma begun_nearly:
  assumes b: "blank e1 e2" and n: "nearly e0 e1" and o: "armed ProbeTimer e1 = None" and r: "r \<noteq> NoRole"
    and c: "control e3 = control (set_role r (e2\<lparr>en_peer_turnaround_s := tu, en_state := Connected\<rparr>))"
  shows "nearly e0 e3"
proof -
  from b have "en_session e2 = en_session e1" "en_timing e2 = en_timing e1" "en_config e2 = en_config e1"
    using halves_eqD [of e2 e1] by (simp_all add: blank_def)
  with b n o r have "nearly e0 (set_role r (e2\<lparr>en_peer_turnaround_s := tu, en_state := Connected\<rparr>))"
    unfolding nearly_def inv_defs blank_def by auto
  then show ?thesis using nearly_cong [OF c] by simp
qed

lemma rest_set_session: "rest_ok e \<Longrightarrow> rest_ok (set_session q e)"
  by (simp add: inv_defs rx_static_def)

lemma set_session_nearly: "good e0 e \<Longrightarrow> nearly e0 (set_session q e)"
  using rest_set_session [of e q] by (simp add: good_def nearly_def)

lemma accept_call_good:
  assumes g: "good e0 e" and s: "\<not> in_session e" and p: "en_probing e = None"
  shows "yields (accept_call header req frame start e) (good e0)"
proof -
  define e1 where "e1 = (drop_identifier (e\<lparr>en_my_call := cb_dst req\<rparr>))\<lparr>en_remote_call := cb_src req, en_left := None\<rparr>"
  have g1: "good e0 e1" "en_state e1 = en_state e" "en_probing e1 = None"
    using g p drop_identifier_good [of e0 "e\<lparr>en_my_call := cb_dst req\<rparr>"] by (auto simp: e1_def drop_identifier_def)
  let ?p = "disarm LeaveTimer (set_session (dh_session header) e1)"
  have np: "nearly e0 ?p" using g1 s by (auto intro!: upd set_session_nearly)
  have op: "armed ProbeTimer ?p = None" using good_agree(2) [OF g1(1)] g1(3) by (auto simp: probe_ok_def)
  have n: "yields (note_heard frame (set_role Slave (e2\<lparr>en_my_ident_s := i, en_peer_capabilities := ca,
       en_peer_turnaround_s := tu, en_peer_identifier_s := pi, en_state := Connected\<rparr>)))
      (\<lambda>e'. good e0 e' \<and> en_state e' = Connected \<and> en_role e' = Slave)"
    if "blank ?p e2" for e2 i ca tu pi
  proof -
    let ?e3 = "set_role Slave (e2\<lparr>en_my_ident_s := i, en_peer_capabilities := ca,
       en_peer_turnaround_s := tu, en_peer_identifier_s := pi, en_state := Connected\<rparr>)"
    have "nearly e0 ?e3"
      by (rule begun_nearly [OF that np op, where r = Slave and tu = tu])
        (simp_all add: control_eq)
    then have "yields (note_heard frame ?e3) (\<lambda>e'. good e0 e' \<and> same ?e3 e')"
      by (rule note_heard_good) simp
    then show ?thesis by (rule yields_mono) (auto simp: same_def)
  qed
  have f: "yields (schedule_acceptance req frame start (event ''role'' ''slave'' (event ''connected''
       (x e4) (on_tx (\<lambda>s. s\<lparr>sn_ans_sticky := fl\<rparr>) (measure_lateness frame e4))))) (good e0)"
    if "good e0 e4" "en_state e4 = Connected" "en_role e4 = Slave" for e4 x fl
  proof -
    let ?e6 = "event ''role'' ''slave'' (event ''connected''
       (x e4) (on_tx (\<lambda>s. s\<lparr>sn_ans_sticky := fl\<rparr>) (measure_lateness frame e4)))"
    have "control (on_tx (\<lambda>s. s\<lparr>sn_ans_sticky := fl\<rparr>) (measure_lateness frame e4)) = control (measure_lateness frame e4)"
      by (rule on_tx_quiet) simp
    then have c: "control ?e6 = control e4" by simp
    show ?thesis
      using that good_cong [OF c] state_control [OF c] role_control [OF c] by (intro schedule_acceptance_good) auto
  qed
  show ?thesis
    unfolding accept_call_def Let_def e1_def [symmetric]
    by (rule yields_bindI [OF reset_session_blank], rule yields_bindI [OF n], assumption,
        rule yields_any) (auto intro!: f [where x = "\<lambda>e4. en_remote_call (on_tx (\<lambda>s. s\<lparr>sn_ans_sticky := _\<rparr>) (measure_lateness frame e4)) @ '' (slave)''"])
qed

lemma called_again_good:
  assumes g: "good e0 e" and s: "in_session e"
  shows "yields (called_again header req frame start e)
    (\<lambda>(anew, e'). good e0 e' \<and> (anew \<longrightarrow> en_state e' = Idle))"
proof -
  have n: "yields (note_heard frame e) (\<lambda>e'. good e0 e' \<and> same e e')" by (rule note_heard_good' [OF g s])
  have a: "yields (schedule_acceptance req frame start (measure_lateness frame e1)) (good e0)"
    if "good e0 e1" "same e e1" "en_role e = Slave" for e1
    using that slave_connected [of e0 "measure_lateness frame e1"] role_control [OF measure_lateness_quiet, of frame e1]
    by (intro schedule_acceptance_good) (auto simp: same_def)
  have "yields (note_heard frame e \<bind> (\<lambda>e1. schedule_acceptance req frame start (measure_lateness frame e1) \<bind>
      (\<lambda>e2. Some (False, e2)))) (\<lambda>(anew, e'). good e0 e' \<and> (anew \<longrightarrow> en_state e' = Idle))" if "en_role e = Slave"
    by (rule yields_bindI [OF n]) (use that in \<open>auto intro!: yields_bindI [OF a]\<close>)
  moreover have "yields (end_session reason False e \<bind> (\<lambda>e1. Some (True, e1)))
      (\<lambda>(anew, e'). good e0 e' \<and> (anew \<longrightarrow> en_state e' = Idle))" for reason
    by (rule yields_bindI [OF end_session_good(1) [OF g]]) (simp add: ended_def)
  ultimately show ?thesis using g by (simp add: called_again_def Let_def)
qed

lemma answer_call_good:
  assumes g: "good e0 e" and s: "\<not> in_session e"
  shows "yields (answer_call header req frame start e) (good e0)"
  using g s by (auto simp: answer_call_def intro!: accept_call_good upd)

lemma on_request_good:
  assumes g: "good e0 e" shows "yields (on_request header req frame sz e) (good e0)"
proof -
  obtain b e1 where v: "version_ok req sz ''calls'' e = (b, e1)" by fastforce
  then have c: "control e1 = control e" using version_ok_quiet [of req sz "''calls''" e] by simp
  have g1: "good e0 e1" using g good_cong [OF c] by simp
  have ca: "yields (called_again header req frame start e1 \<bind> (\<lambda>(anew, e2).
      if anew then answer_call header req frame start e2 else Some e2)) (good e0)" if "in_session e1" for start
    by (rule yields_bindI [OF called_again_good [OF g1 that]]) (auto intro!: answer_call_good)
  show ?thesis
    using g g1 ca answer_call_good [OF g1]
    by (cases b) (auto simp: on_request_def v Let_def)
qed

lemma accepted_nearly:
  assumes g: "good e0 e" and s: "en_state e = Connecting"
    and c: "control e1 = control (set_role Master (disarm ConnectTimer (e\<lparr>en_peer_turnaround_s := tu, en_state := Connected\<rparr>)))"
  shows "nearly e0 e1"
proof -
  have "rest_ok (set_role Master (disarm ConnectTimer (e\<lparr>en_peer_turnaround_s := tu, en_state := Connected\<rparr>)))"
    using g s unfolding good_def nearly_def by (auto simp: inv_defs split: if_splits)
  then show ?thesis using g nearly_cong [OF c] by (auto simp: good_def nearly_def)
qed

lemma on_acceptance_good:
  assumes g: "good e0 e" shows "yields (on_acceptance header ack frame sz e) (good e0)"
proof -
  obtain b e1 where v: "version_ok ack sz ''answers'' e = (b, e1)" by fastforce
  then have c1: "control e1 = control e" using version_ok_quiet [of ack sz "''answers''" e] by simp
  have g1: "good e0 e1" "en_state e1 = en_state e" using g good_cong [OF c1] state_control [OF c1] by auto
  let ?e2 = "set_role Master ((disarm ConnectTimer e1)\<lparr>
              en_peer_capabilities := cb_caps ack AND NOT CAP_LEVEL_MASK,
              en_peer_turnaround_s := cb_turnaround_s ack, en_peer_identifier_s := cb_identifier_s ack,
              en_level_asked := unat (level_of (cb_caps ack)), en_state := Connected\<rparr>)"
  have n: "yields (note_heard frame ?e2 \<bind> seed_from (cb_snr_db ack)) (\<lambda>e'. good e0 e' \<and> same ?e2 e')"
    if "en_state e = Connecting"
  proof (rule go_on)
    have "nearly e0 ?e2"
      by (rule accepted_nearly [OF g1(1), where tu = "cb_turnaround_s ack"]) (use that g1 in \<open>simp_all add: control_eq disarm_def\<close>)
    then show "yields (note_heard frame ?e2) (\<lambda>e'. good e0 e' \<and> same ?e2 e')"
      by (rule note_heard_good) simp
  qed (rule good_quiet [OF _ seed_from_quiet])
  show ?thesis
    using g g1 n [unfolded yields_bind]
    by (cases b) (auto simp: on_acceptance_def v Let_def yl elim!: yields_mono
      intro!: state_end_good [THEN conjunct1] arm_wait_good [THEN conjunct1])
qed

lemma on_connect_good: "good e0 e \<Longrightarrow> yields (on_connect header body frame e) (good e0)"
  by (auto simp: on_connect_def on_request_good on_acceptance_good split: sum.split)

lemma event_state [simp]: "en_state (event n d e) = en_state e" "en_role (event n d e) = en_role e"
  by (simp_all add: event_def)

lemma probed_good: "good e0 e \<Longrightarrow> yields (probed pb frame e) (good e0)"
  unfolding probed_def Let_def
  by (auto intro!: yields_mono [OF schedule_good [of e0]] simp: answer_fits_def answer_new_def)

lemma probe_answered_good:
  assumes g: "good e0 e" shows "good e0 (probe_answered pb frame e)"
proof -
  have "good e0 ((disarm ProbeTimer e)\<lparr>en_probing := None\<rparr>)" by (rule good_upd(7)) (use g in \<open>auto intro: upd\<close>)
  then show ?thesis
    using g by (auto simp: probe_answered_def Let_def intro!: state_end_good [THEN conjunct1])
qed

lemma on_probe_good: "good e0 e \<Longrightarrow> yields (on_probe kind body frame e) (good e0)"
  by (auto simp: on_probe_def probed_good probe_answered_good split: sum.split)

section \<open>The master\<close>

lemma master_answer_good:
  assumes g: "good e0 e" shows "yields (master_answer ctl frame e) (good e0)"
proof -
  have t: "yields (en_take_ack ctl True (note_late frame e)) (\<lambda>e'. good e0 e' \<and> same e e')"
    using take_ack_good [of e0 "note_late frame e"] g by simp
  show ?thesis
    unfolding master_answer_def Let_def
    by (rule yields_bindI [OF t], subst yields_basic, rule state_end_good [THEN conjunct1])
      (auto simp: good_cong [OF on_tx_quiet])
qed

lemma disconnecting_good:
  assumes g: "good e0 e" and s: "in_session e" "en_role e = Master"
  shows "good e0 (e\<lparr>en_state := Disconnecting\<rparr>)"
proof -
  have "rest_ok (e\<lparr>en_state := Disconnecting\<rparr>)" "link_ok (e\<lparr>en_state := Disconnecting\<rparr>)"
    using g s unfolding good_def nearly_def by (auto simp: inv_defs link_ok_def split: if_splits)
  then show ?thesis using g by (auto simp: good_def nearly_def)
qed

lemma master_control_good:
  assumes g: "good e0 e" and s: "in_session e" "en_role e = Master"
  shows "yields (master_control ctl frame e) (good e0)"
proof -
  have "yields (note_heard frame e) (\<lambda>e'. good e0 e' \<and> same e e')" by (rule note_heard_good' [OF g s(1)])
  then have n: "yields (note_heard frame e \<bind> en_peer_reading (gf_snr_db ctl)) (\<lambda>e'. good e0 e' \<and> same e e')"
    by (rule go_on) (rule peer_reading_good)
  have d: "good e0 (state_end x fl (e2\<lparr>en_peer_left := True, en_state := Disconnecting\<rparr>))"
    if "good e0 e2" "same e e2" for e2 x fl
  proof (rule state_end_good [THEN conjunct1])
    have "good e0 (e2\<lparr>en_state := Disconnecting\<rparr>)" using that s by (intro disconnecting_good) (auto simp: same_def)
    then show "good e0 (e2\<lparr>en_peer_left := True, en_state := Disconnecting\<rparr>)"
      by (subst good_cong [of _ "e2\<lparr>en_state := Disconnecting\<rparr>"]) (simp_all add: control_eq)
  qed
  have e: "yields (end_session r False (state_end x fl e2)) (good e0)" if "good e0 e2" for e2 r x fl
    by (rule yields_mono [OF end_session_good(1)]) (use state_end_good [OF that] in \<open>auto simp: ended_def\<close>)
  show ?thesis
    unfolding master_control_def yl
    using g by (auto intro!: yields_mono [OF n [unfolded yields_bind]] intro: d e master_answer_good
        split: grant_kind.split elim!: yields_mono)
qed

lemma mark_heard_good:
  assumes g: "good e0 e" shows "good e0 (mark_heard e)"
proof (cases "en_slot e")
  case None
  then have "control (mark_heard e) = control e" by (simp add: mark_heard_def control_eq)
  then show ?thesis using g good_cong by blast
qed (use slot_upd_good [OF g] in \<open>simp add: mark_heard_def\<close>)

lemma master_data_good:
  assumes g: "good e0 e" and s: "in_session e"
  shows "yields (master_data soft frame decoded e) (good e0)"
proof -
  obtain index rv where td: "take_data soft (en_rx e) = (index, rv)" by fastforce
  define e1 where "e1 = put_rx (note_data index rv) e"
  have c: "control e1 = control e" unfolding e1_def by (rule put_data_quiet [OF td])
  have g1: "good e0 e1" "in_session e1" using g s good_cong [OF c] state_control [OF c] by auto
  show ?thesis
    unfolding master_data_def td Let_def prod.case e1_def [symmetric]
    using g g1 by (auto simp: yl intro!: yields_mono [OF note_heard_good' [OF g1]]
      state_end_good [THEN conjunct1] mark_heard_good split: option.split)
qed

lemma slot_silent_cases:
  obtains e5 where "control e5 = control e"
    "slot_silent sl e = (if max_retries (en_config e5) < en_silent e5 then end_session ''no response'' False e5 else Some e5)"
proof -
  define e1 where "e1 = (on_tx (\<lambda>s. count_stat (\<lambda>st. st\<lparr>silent_slots := silent_slots st + 1\<rparr>)
                  (s\<lparr>sn_silent := sn_silent s + 1\<rparr>)) e)\<lparr>en_answered_run := 0\<rparr>"
  define e2 where "e2 = on_tx measurement_unheard e1"
  define e3 where "e3 = (if sl_data sl \<and> hold_unknown (en_config e2) then on_tx mark_unknown e2 else e2)"
  define e4 where "e4 = (if silence_levels_after (en_config e3) \<le> en_silent e3 \<and>
                   en_silence_level e3 < length (levels_s (en_config e3)) - 1
                then e3\<lparr>en_silence_level := en_silence_level e3 + 1\<rparr> else e3)"
  define e5 where "e5 = (if sl_data sl
                then on_tx (\<lambda>s. s\<lparr>sn_rate := silent (silence_step (sn_config s)) (sn_rate s)\<rparr>) e4 else e4)"
  have "control e1 = control e" unfolding e1_def by (simp add: on_tx_quiet)
  then have "control e2 = control e" by (simp add: e2_def quiet)
  then have "control e3 = control e" by (simp add: e3_def quiet)
  then have "control e4 = control e" by (simp add: e4_def)
  then have c: "control e5 = control e" by (simp add: e5_def on_tx_quiet)
  then show ?thesis
    using that unfolding slot_silent_def Let_def e1_def [symmetric] e2_def [symmetric] e3_def [symmetric]
      e4_def [symmetric] e5_def [symmetric] by blast
qed

lemma slot_silent_good:
  assumes g: "good e0 e" shows "yields (slot_silent sl e) (\<lambda>e'. good e0 e' \<and> (en_state e' = Idle \<or> same e e'))"
proof (rule slot_silent_cases [of e sl])
  fix e5
  assume c: "control e5 = control e"
    and s: "slot_silent sl e = (if max_retries (en_config e5) < en_silent e5 then end_session ''no response'' False e5 else Some e5)"
  have g5: "good e0 e5" "same e e5" using g good_cong [OF c] same_cong [OF c] by auto
  then show ?thesis
    unfolding s by (auto simp: ended_def intro!: yields_mono [OF end_session_good(1) [OF g5(1)]])
qed

lemma close_slot_good:
  assumes g: "good e0 e" shows "yields (close_slot e) (\<lambda>e'. good e0 e' \<and> (en_state e' = Idle \<or> same e e'))"
proof (cases "en_slot e")
  case (Some sl)
  define e1 where "e1 = note_silence sl (snd (close_rx (e\<lparr>en_slot := None\<rparr>)))"
  have "good e0 e1" "same e e1" using g by (auto simp: e1_def intro: upd)
  then show ?thesis
    using slot_silent_good [of e0 e1 sl] Some
    by (auto simp: close_slot_def Let_def e1_def [symmetric] elim!: yields_mono intro: same_trans)
qed (use g in \<open>simp add: close_slot_def\<close>)

lemma send_disc_good:
  assumes g: "good e0 e" and s: "in_session e" "en_role e = Master" and k: "may_key e0"
  shows "yields (send_disc e) (good e0)"
  unfolding send_disc_def Let_def
  by (intro yields_any, subst yields_basic, rule key_granting_good [THEN conjunct1, OF _ k])
    (use g s in \<open>auto simp: slot_fits_def slot_new_def\<close>)

lemma send_header_good:
  assumes g: "good e0 e" and s: "in_session e" "en_role e = Master" and k: "may_key e0"
  shows "yields (send_header e) (good e0)"
proof -
  have kg: "good e0 (key_granting ((slot_new HeaderSlot gl fl answers)
       \<lparr>sl_level := lv, sl_granter_turnaround_s := tu, sl_open_window := ow, sl_data := da, sl_granted := n\<rparr>) frames e3)"
    if "control e3 = control e" for gl fl answers lv tu ow da n frames e3
    by (rule key_granting_good [THEN conjunct1, OF _ k])
      (use g s that good_cong [OF that] state_control [OF that] role_control [OF that] in \<open>auto simp: slot_fits_def slot_new_def\<close>)
  have d: "yields (if ow then Some ([], e) else en_data_frames r e) (\<lambda>(fs, e'). control e' = control e)" for ow r
    using en_data_frames_quiet [of r e] by simp
  have a: "control e' = control e1" if "en_ack_fields e1 = (ack, e')" for e1 :: "'a engine" and ack e'
    using en_ack_fields_quiet [of e1] that by simp
  show ?thesis
    unfolding send_header_def Let_def
    apply (rule yields_any)
    apply (subst yields_prod, intro allI impI)+
    apply (rule yields_bindI [OF d])
    apply (subst yields_prod, intro allI impI)
    apply (intro yields_any)
    apply (subst yields_prod, intro allI impI)
    apply (subst yields_basic, rule kg)
    apply (auto split: if_splits prod.splits dest: a)
    done
qed

lemma proceed_good:
  assumes g: "good e0 e" and k: "en_role e = Master \<Longrightarrow> may_key e0"
  shows "yields (proceed e) (good e0)"
proof (cases "en_role e \<noteq> Master \<or> \<not> in_session e")
  case False
  then have s: "en_role e = Master" "in_session e" and k: "may_key e0" using k by auto
  have disc: "yields (send_disc e1) (good e0)" if "good e0 e1" "in_session e1" "en_role e1 = Master" for e1
    by (rule send_disc_good [OF that k])
  have leave: "yields (if leave then send_disc (e2\<lparr>en_state := Disconnecting\<rparr>) else send_header e2) (good e0)"
    if "good e0 e2" "in_session e2" "en_role e2 = Master" for leave e2
    using disc [OF disconnecting_good [OF that]] send_header_good [OF that k] that by auto
  have conn: "yields ((if b then can_leave e1 else Some (False, e1)) \<bind> (\<lambda>(leave, e2).
      if leave then send_disc (e2\<lparr>en_state := Disconnecting\<rparr>) else send_header e2)) (good e0)"
    if g1: "good e0 e1" and s1: "in_session e1" "en_role e1 = Master" for b e1
  proof (rule yields_bindI [where P = "\<lambda>(leave, e2). control e2 = control e1"])
    show "yields (if b then can_leave e1 else Some (False, e1)) (\<lambda>(leave, e2). control e2 = control e1)"
      using can_leave_quiet [of e1] by simp
  next
    fix x :: "bool \<times> 'a engine"
    assume "case x of (leave, e2) \<Rightarrow> control e2 = control e1"
    then obtain lv e2 where x: "x = (lv, e2)" and c: "control e2 = control e1" by (cases x) auto
    show "yields (case x of (leave, e2) \<Rightarrow>
        if leave then send_disc (e2\<lparr>en_state := Disconnecting\<rparr>) else send_header e2) (good e0)"
      unfolding x prod.case using g1 s1 good_cong [OF c] state_control [OF c] role_control [OF c] by (intro leave) auto
  qed
  have u: "yields (end_session_unread r e1) (good e0)" if "good e0 e1" for r e1
    by (rule yields_mono [OF end_session_good(2) [OF that]]) (simp add: ended_def)
  have st: "en_state e1 = Idle \<or> (in_session e1 \<and> en_role e1 = Master)" if "en_state e1 = Idle \<or> same e e1" for e1 :: "'a engine"
    using that s by (auto simp: same_def)
  show ?thesis
    unfolding proceed_def if_not_P [OF False]
  proof (rule yields_bindI [OF close_slot_good [OF g]])
    fix e1 :: "'a engine"
    assume e1: "good e0 e1 \<and> (en_state e1 = Idle \<or> same e e1)"
    show "yields (if en_state e1 = Idle then Some e1
        else if en_state e1 = Disconnecting
        then if disc_retries (en_config e1) \<le> en_disc_tries e1
             then end_session_unread (close_reason ''closed (no DISC_ACK)'' e1) e1
             else send_disc e1
        else do {
          (leave, e2) \<leftarrow> (if en_disc_requested e1 \<or> en_slave_leaves e1 then can_leave e1 else Some (False, e1));
          if leave then send_disc (e2\<lparr>en_state := Disconnecting\<rparr>) else send_header e2
        }) (good e0)"
    proof (cases "en_state e1 = Idle")
      case False
      then have m: "in_session e1" "en_role e1 = Master" using e1 st by auto
      show ?thesis
        unfolding if_not_P [OF False]
        by (subst yields_if, intro conjI impI conn)
          (use e1 m in \<open>auto intro: disc u\<close>)
    qed (use e1 in simp)
  qed
qed (use g in \<open>auto simp: proceed_def\<close>)

end
