(* ===== verification/Engine_Laws.thy ===== *)
theory Engine_Laws
  imports Engine_Safe
begin

text \<open>
  What holds of the session engine whatever comes in: \<open>engine_step\<close> is one input, or one timer of a tick;
  \<open>engine_reachable\<close> the states it can come to.  The roles agree with the states, a transmission is keyed
  only when it may be, and a session in which nothing more is heard ends.
\<close>

section \<open>Timers\<close>

lemma inv_now [simp]: "engine_inv (e\<lparr>en_now := n\<rparr>) = engine_inv e" "engine_inv (e\<lparr>en_cause := c\<rparr>) = engine_inv e"
proof -
  have "timeouts (e\<lparr>en_now := n\<rparr>) = timeouts e" by (simp add: timeouts_def)
  then show "engine_inv (e\<lparr>en_now := n\<rparr>) = engine_inv e" by (simp add: engine_inv_def link_ok_def inv_defs)
  show "engine_inv (e\<lparr>en_cause := c\<rparr>) = engine_inv e"
    using rest_cong [of "e\<lparr>en_cause := c\<rparr>" e] by (simp add: engine_inv_def)
qed

lemma expire_link_good:
  assumes n: "nearly e0 e" and s: "in_session e"
  shows "yields (expire_link e) (good e0)"
proof -
  have "good e0 (arm LinkTimer (en_heard_at e + x) e)" if "x \<in> timeouts e" for x
    using n s that by (auto simp: good_def link_ok_def nearly_arm)
  moreover have "yields (end_session r False e) (good e0)" for r
    unfolding end_session_def by (rule yields_mono [OF end_session_with_good [OF n]]) (simp add: ended_def)
  ultimately show ?thesis
    unfolding expire_link_def Let_def by (intro yields_bindI [OF en_link_timeout_in]) simp
qed

lemma expire_probe_good:
  assumes g: "good e0 e" and p: "en_probing e \<noteq> None" "en_probe_unsent e \<Longrightarrow> en_state e = Idle" "armed ProbeTimer e = None"
    and k: "en_hold_until e0 = en_hold_until e" "en_state e = Idle \<Longrightarrow> en_role e0 \<noteq> Slave"
  shows "yields (expire_probe e) (good e0)"
proof -
  have "yields (send_probe e) (good e0)" if "en_probe_unsent e" "\<not> en_now e < en_hold_until e - 1 / 10 ^ 9"
    by (rule send_probe_good [OF g]) (use that p k good_facts [OF g] in \<open>auto simp: may_key_def\<close>)
  moreover have "good e0 (e\<lparr>en_probing := None\<rparr>)" by (rule good_upd(7)) (use g p in auto)
  ultimately show ?thesis
    using p good_arm_probe [OF g p(1,2)] by (auto simp: expire_probe_def)
qed

lemma run_timer_good:
  assumes i: "engine_inv e" shows "yields (run_timer td e) (good e)"
proof (cases "armed (fst td) e")
  case (Some due)
  let ?e1 = "(disarm (fst td) e)\<lparr>en_cause := timer_cause (fst td)\<rparr>"
  have n: "nearly e ?e1" using good_refl [OF i] by (auto simp: good_def intro: upd)
  have g: "good e ?e1" if "fst td \<noteq> LinkTimer" using good_refl [OF i] that by (auto intro: upd)
  have rs: "roles_ok e" "hold_ok e" "probe_ok e" "answer_ok e" "link_ok e" using i by (auto simp: engine_inv_def rest_ok_def)
  have idle: "\<not> in_session e \<Longrightarrow> en_role e \<noteq> Slave" using rs(1) by (cases "en_state e") (auto simp: roles_ok_def)
  have late: "yields (expire_timer (fst td) ?e1) (good e)" if d: "due \<le> en_now e + 1 / 10 ^ 9"
  proof (cases "fst td")
    case LinkTimer
    then show ?thesis using expire_link_good [OF n] rs(5) Some by (auto simp: expire_timer_def link_ok_def)
  next
    case ConnectTimer
    have "yields (retry_connect ?e1) (good e)" if "\<not> en_now e < en_hold_until e - 1 / 10 ^ 9"
      by (rule retry_connect_good [OF g]) (use ConnectTimer that idle in \<open>auto simp: may_key_def\<close>)
    then show ?thesis using ConnectTimer g by (auto simp: expire_timer_def upd)
  next
    case ProbeTimer
    then have "yields (expire_probe ?e1) (good e)"
      by (intro expire_probe_good [OF g]) (use rs(3) Some idle in \<open>auto simp: probe_ok_def\<close>)
    then show ?thesis using ProbeTimer by (simp add: expire_timer_def)
  next
    case ProceedTimer
    then have "yields (proceed ?e1) (good e)"
      by (intro proceed_good [OF g]) (use rs(2) Some d in \<open>auto simp: may_key_def hold_ok_def\<close>)
    then show ?thesis using ProceedTimer by (simp add: expire_timer_def)
  next
    case AnswerTimer
    have "yields (key_answer ?e1) (\<lambda>e'. good e e' \<and> same ?e1 e')"
      by (rule key_answer_good [OF g]) (use AnswerTimer rs(4) in \<open>auto simp: answer_ok_def answer_fits_def\<close>)
    then show ?thesis using AnswerTimer by (auto simp: expire_timer_def elim: yields_mono)
  next
    case LeaveTimer
    then show ?thesis using repeat_leave_good [OF g] idle by (auto simp: expire_timer_def)
  next
    case IdentTimer
    then show ?thesis using send_identifier_good [OF g] idle by (auto simp: expire_timer_def)
  qed
  then show ?thesis using Some good_refl [OF i] by (simp add: run_timer_def)
qed (use good_refl [OF i] in \<open>simp add: run_timer_def\<close>)

section \<open>Inputs\<close>

lemma now_control [simp]: "halves (e\<lparr>en_now := n\<rparr>) = halves e" by simp

text \<open>What an input does: the invariant holds, and what is keyed is lawful at the time it came.\<close>

definition sound :: "'h engine \<Rightarrow> 'h engine \<Rightarrow> bool" where
  "sound e e' \<longleftrightarrow> engine_inv e' \<and>
     (\<exists>new. keyed e' = keyed e @ new \<and> (\<forall>tm\<in>set new. lawful (e\<lparr>en_now := en_now e'\<rparr>) tm))"

lemma good_sound: "good (e\<lparr>en_now := n\<rparr>) e' \<Longrightarrow> sound e e'"
  using good_inv [of "e\<lparr>en_now := n\<rparr>" e'] by (auto simp: sound_def good_def nearly_def)

lemma good_sound': "good e e' \<Longrightarrow> sound e e'"
  using good_sound [where n = "en_now e" and e = e and e' = e'] by simp

lemma sound_quiet: "engine_inv e' \<Longrightarrow> keyed e' = keyed e \<Longrightarrow> sound e e'"
  by (simp add: sound_def)

lemma good_at: "engine_inv e \<Longrightarrow> good (e\<lparr>en_now := n\<rparr>) (e\<lparr>en_now := n\<rparr>)"
  by (rule good_refl) simp

lemma on_tx_done_sound:
  assumes i: "engine_inv e" shows "sound e (on_tx_done now frames_end e)"
proof -
  let ?e = "at_time now e"
  have g: "good ?e (?e\<lparr>en_in_flight := rest\<rparr>)" for rest using good_at [OF i] by simp
  have o: "good ?e (open_slot x (?e\<lparr>en_in_flight := rest, en_slot := map_option (\<lambda>sl. sl\<lparr>sl_final := True\<rparr>) (en_slot e)\<rparr>))" for x rest
  proof (rule open_slot_good [THEN conjunct1], cases "en_slot e")
    case None
    then have "control (?e\<lparr>en_in_flight := rest, en_slot := map_option (\<lambda>sl. sl\<lparr>sl_final := True\<rparr>) (en_slot e)\<rparr>) = control (?e\<lparr>en_in_flight := rest\<rparr>)"
      by (simp add: control_eq)
    then show "good ?e (?e\<lparr>en_in_flight := rest, en_slot := map_option (\<lambda>sl. sl\<lparr>sl_final := True\<rparr>) (en_slot e)\<rparr>)"
      using g good_cong by blast
  next
    case (Some sl)
    then show "good ?e (?e\<lparr>en_in_flight := rest, en_slot := map_option (\<lambda>sl. sl\<lparr>sl_final := True\<rparr>) (en_slot e)\<rparr>)"
      using slot_upd_good [OF g, where sl = sl and sl' = "sl\<lparr>sl_final := True\<rparr>"] by simp
  qed
  have "good ?e (on_tx_done now frames_end e)"
    using good_at [OF i] g o by (auto simp: on_tx_done_def Let_def split: list.split)
  then show ?thesis by (rule good_sound)
qed

lemma on_tx_cut_unread_sound:
  assumes i: "engine_inv e" shows "yields (on_tx_cut_unread now e) (sound e)"
proof (cases "en_in_flight e")
  case Nil
  then show ?thesis using good_sound [OF good_at [OF i]] by (simp add: on_tx_cut_unread_def)
next
  case (Cons a rest)
  obtain granted ident was where a: "a = (granted, ident, was)" by (cases a) auto
  let ?e = "at_time now e"
  have fl: "en_in_flight ?e = (granted, ident, was) # rest" using Cons a by simp
  have "good ?e (?e\<lparr>en_in_flight := rest\<rparr>)" using good_at [OF i] by simp
  then have o: "yields (owe_again ident (?e\<lparr>en_in_flight := rest\<rparr>)) (\<lambda>e1. good ?e e1 \<and> same (?e\<lparr>en_in_flight := rest\<rparr>) e1)"
    by (rule owe_again_good)
  have c: "good ?e (let e3 = e2\<lparr>en_slot := None, en_hold_until := en_now e2\<rparr>
             in if en_role e3 = Master \<and> in_session e3
                then arm ProceedTimer (en_now e3) e3 else e3)" if g: "good ?e e2" for e2
  proof (cases "en_role e2 = Master \<and> in_session e2")
    case True
    have "rest_ok (arm ProceedTimer (en_now e2) (e2\<lparr>en_slot := None, en_hold_until := en_now e2\<rparr>))"
      using g True unfolding good_def nearly_def by (auto simp: inv_defs)
    moreover have "link_ok (arm ProceedTimer (en_now e2) (e2\<lparr>en_slot := None, en_hold_until := en_now e2\<rparr>)) = link_ok e2"
      by (simp add: link_ok_def timeouts_def)
    ultimately show ?thesis using g True by (simp add: good_def nearly_def)
  next
    case False
    then show ?thesis using g by (auto simp: Let_def intro!: good_upd(11) good_upd(4))
  qed
  show ?thesis
    unfolding on_tx_cut_unread_def Let_def fl list.case prod.case
    by (rule yields_bindI [OF o], subst yields_basic, rule good_sound [where n = "max (en_now e) now"],
        split if_split, intro conjI impI, rule c [unfolded Let_def]) simp_all
qed

lemma on_tx_dropped_sound:
  assumes i: "engine_inv e" shows "yields (on_tx_dropped now e) (sound e)"
proof -
  let ?e = "at_time now e"
  have "yields (owe_again ident (?e\<lparr>en_in_flight := rest\<rparr>)) (good ?e)" for ident rest
    by (rule yields_mono [OF owe_again_good [of ?e]]) (use good_at [OF i] in simp_all)
  then have "yields (case en_in_flight ?e of [] \<Rightarrow> Some ?e
      | (g, ident, was_measured) # rest \<Rightarrow> do {
          e2 \<leftarrow> owe_again ident (?e\<lparr>en_in_flight := rest\<rparr>);
          Some (on_tx (ask_again was_measured) e2) }) (good ?e)"
    using good_at [OF i] by (auto simp: yl split: list.split elim!: yields_mono)
  then show ?thesis
    unfolding on_tx_dropped_def Let_def
    by (rule yields_bindI) (auto intro: good_sound)
qed

lemma get_deadline_map:
  "get_deadline t (map (\<lambda>(u, due). (u, f u due)) ds) = map_option (f t) (get_deadline t ds)"
  unfolding get_deadline_def by (induction ds) auto

lemma on_tx_delayed_sound:
  assumes i: "engine_inv e" shows "sound e (on_tx_delayed seconds e)"
proof (cases "seconds \<le> 0")
  case False
  let ?ds = "map (\<lambda>(t, due). (t, if t \<in> {LinkTimer, AnswerTimer} then due else due + seconds)) (en_deadlines e)"
  let ?e = "e\<lparr>en_deadlines := ?ds, en_hold_until := en_hold_until e + seconds\<rparr>"
  have d: "get_deadline t ?ds = map_option (\<lambda>due. if t \<in> {LinkTimer, AnswerTimer} then due else due + seconds) (armed t e)" for t
    by (rule get_deadline_map)
  have dl: "armed LinkTimer ?e = armed LinkTimer e" using d [of LinkTimer] by (simp add: option.map_ident)
  have dp: "armed ProceedTimer ?e = map_option (\<lambda>due. due + seconds) (armed ProceedTimer e)"
    and db: "(armed ProbeTimer ?e = None) = (armed ProbeTimer e = None)"
    using d [of ProceedTimer] d [of ProbeTimer] by simp_all
  have "timeouts ?e = timeouts e" by (simp add: timeouts_def)
  then have "link_ok ?e = link_ok e" unfolding link_ok_def dl by simp
  moreover have "hold_ok ?e" "probe_ok ?e" using i unfolding engine_inv_def rest_ok_def hold_ok_def probe_ok_def dp db by auto
  moreover have "halves_agree ?e = halves_agree e" "roles_ok ?e = roles_ok e" "answer_ok ?e = answer_ok e"
    "open_window_ok ?e = open_window_ok e" "slot_ok ?e = slot_ok e"
    by (simp_all add: inv_defs)
  ultimately have "engine_inv ?e" using i by (simp add: engine_inv_def rest_ok_def)
  then show ?thesis using False by (simp add: on_tx_delayed_def sound_quiet)
qed (use good_sound' [OF good_refl [OF i]] in \<open>simp add: on_tx_delayed_def\<close>)

lemma on_preamble_sound:
  assumes i: "engine_inv e" shows "sound e (on_preamble t_start now len e)"
proof -
  let ?e = "at_time now e"
  have c: "good ?e (arm ConnectTimer due ?e)" for due using good_at [OF i] by (rule good_arm) simp
  have p: "good ?e (arm ProbeTimer due e1)"
    if "good ?e e1" "armed ProbeTimer e1 \<noteq> None" "\<not> en_probe_unsent e1" for due e1
    using that good_agree(2) [OF that(1)] by (intro good_arm_probe) (auto simp: probe_ok_def)
  have "good ?e (on_preamble t_start now len e)"
    using good_at [OF i] c
    by (auto simp: on_preamble_def Let_def split: option.split intro!: p)
  then show ?thesis by (rule good_sound)
qed

text \<open>A setting of the air, out of a session.\<close>

lemma move_to_sound:
  assumes i: "engine_inv e" and s: "\<not> in_session e"
  shows "yields (move_to t caps rung e) (sound e)"
proof -
  let ?m = "\<lambda>rate. price_controllers (on_tx (\<lambda>s. s\<lparr>sn_rate := rate\<rparr>) (update_config (\<lambda>c. c\<lparr>capabilities := caps,
       max_mode := (case rung of None \<Rightarrow> max_mode c | Some r \<Rightarrow> r)\<rparr>) (set_timing t e)))"
  let ?u = "update_config (\<lambda>c. c\<lparr>capabilities := caps,
       max_mode := (case rung of None \<Rightarrow> max_mode c | Some r \<Rightarrow> r)\<rparr>) (set_timing t e)"
  have "control (on_tx (\<lambda>s. s\<lparr>sn_rate := rate\<rparr>) ?u) = control ?u" for rate by (rule on_tx_quiet) simp
  then have c: "control (?m rate) = control ?u" for rate by simp
  have "rest_ok ?u" "link_ok ?u"
    using i s unfolding engine_inv_def
    by (auto simp: inv_defs link_ok_def update_config_def set_config_def set_timing_def rx_static_def split: if_splits)
  then have "engine_inv (?m rate)" for rate using rest_cong [OF c, of rate] by (simp add: engine_inv_def)
  moreover have "keyed (?m rate) = keyed ?u" for rate using c [of rate] by (simp only: control_eq)
  then have "keyed (?m rate) = keyed e" for rate by (simp add: update_config_def set_config_def set_timing_def)
  ultimately have "sound e (?m rate)" for rate by (rule sound_quiet)
  then show ?thesis unfolding move_to_def Let_def by (intro yields_any) simp
qed

lemma sound_refl: "engine_inv e \<Longrightarrow> sound e e"
  by (simp add: sound_quiet)

abbreviation sound_or_refused :: "'h engine \<Rightarrow> string + 'h engine \<Rightarrow> bool" where
  "sound_or_refused e r \<equiv> sound e (unless_refused e r)"

lemma set_air_sound: "engine_inv e \<Longrightarrow> yields (set_air t caps rung e) (sound_or_refused e)"
  by (auto simp: set_air_def yl unless_refused_def sound_refl intro!: yields_mono [OF move_to_sound])

lemma move_call_sound: "engine_inv e \<Longrightarrow> yields (move_call t caps rung e) (sound_or_refused e)"
  by (auto simp: move_call_def yl unless_refused_def sound_refl intro!: yields_mono [OF move_to_sound])

section \<open>Frames\<close>

lemma outside_good:
  assumes g: "good e0 e" shows "yields (outside payload frame e) (\<lambda>(mine, e'). good e0 e' \<and> (mine \<longrightarrow> e' = e))"
  using g on_connect_good [OF g] on_probe_good [OF g]
  by (auto simp: outside_def yl split: sum.split prod.split elim!: yields_mono)

lemma session_data_good:
  assumes g: "good e0 e" and r: "en_role e0 = en_role e"
  shows "yields (session_data soft frame decoded e) (good e0)"
  using g r master_data_good [OF g] slave_data_good [OF g] by (auto simp: session_data_def)

lemma on_control_good:
  assumes g: "good e0 e" and r: "en_role e0 = en_role e"
  shows "yields (on_control ctl frame e) (good e0)"
proof (cases "in_session e")
  case True
  then have "en_role e \<noteq> NoRole" using good_agree(3) [OF g] by (auto simp: roles_ok_def)
  then show ?thesis
    using True g r master_control_good [OF g True] slave_control_good [OF g] by (cases "en_role e") (auto simp: on_control_def)
next
  case False
  then have "en_state e \<in> {Idle, Connecting}" by (cases "en_state e") auto
  then show ?thesis using answer_left_good [OF g False] by (simp add: on_control_def)
qed

lemma on_frame_good:
  assumes i: "engine_inv e" shows "yields (on_frame kind soft now e) (good (at_time now e))"
proof -
  let ?e0 = "at_time now e"
  define e1 where "e1 = ?e0\<lparr>en_cause := ''frame'', en_rx := (en_rx e)\<lparr>rv_last_data := None\<rparr>\<rparr>"
  have c: "control e1 = control ?e0" by (simp add: e1_def control_eq)
  have g1: "good ?e0 e1" "en_role ?e0 = en_role e1" using good_at [OF i] good_cong [OF c] by (auto simp: e1_def)
  have o: "yields (outside bs frame e1 \<bind> (\<lambda>(mine, e2). if mine then session_data soft frame True e2 else Some e2)) (good ?e0)" for bs frame
    by (rule yields_bindI [OF outside_good [OF g1(1)]]) (use session_data_good [OF g1] in auto)
  show ?thesis
    unfolding on_frame_def Let_def e1_def [symmetric]
    using g1 o session_data_good [OF g1] on_control_good [OF g1] by (auto simp del: yields_bind split: option.split sum.split)
qed

section \<open>One input at a time\<close>

text \<open>
  A tick is the clock's advance and then its timers, one by one.  No call is started over a probe that
  still waits to go: \<open>connect\<close> does not look for one, and the probe would then go in the call or its session.
\<close>

definition allowed :: "'h input \<Rightarrow> 'h engine \<Rightarrow> bool" where
  "allowed i e = (case i of Connect _ _ \<Rightarrow> \<not> probe_waits e | Tick _ \<Rightarrow> False | _ \<Rightarrow> True)"

lemma command_tx_quiet:
  "(\<And>s. f (en_tx e) = Inr s \<Longrightarrow> tx_static s = tx_static (en_tx e)) \<Longrightarrow> control (command_tx f e) = control e"
  by (auto simp: command_tx_def en_tx_quiet split: sum.split)

lemma handle_sound:
  assumes i: "engine_inv e" and a: "allowed i e"
  shows "yields (handle i e) (sound e)"
proof -
  note g = good_refl [OF i]
  have idle: "en_state e = Idle \<Longrightarrow> en_role e \<noteq> Slave" using good_agree(3) [OF g] by (auto simp: roles_ok_def)
  have ref: "sound_or_refused e r" if "good_or_refused e r" for r
    using that i by (auto simp: unless_refused_def sound_refl good_sound' split: sum.splits)
  have q: "sound e e'" if "control e' = control e" for e'
    using good_cong [OF that, of e] g by (simp add: good_sound')
  show ?thesis
  proof (cases i)
    case (Connect remote as_call)
    have "yields (connect remote as_call e) (sound_or_refused e)"
    proof (cases "en_state e = Idle")
      case True
      then show ?thesis
        by (intro yields_mono [OF connect_good [OF g] ref]) (use a idle Connect in \<open>auto simp: allowed_def\<close>)
    qed (use i in \<open>simp add: connect_def unless_refused_def sound_refl\<close>)
    then show ?thesis using Connect by (simp add: yl)
  next
    case (ProbeCall remote as_call)
    have "yields (Engine_Call.probe remote as_call e) (sound_or_refused e)"
    proof (cases "en_state e = Idle")
      case True
      then show ?thesis by (intro yields_mono [OF probe_good [OF g] ref]) (use idle in auto)
    qed (use i in \<open>simp add: Engine_Call.probe_def unless_refused_def sound_refl\<close>)
    then show ?thesis using ProbeCall by (simp add: yl)
  next
    case (Heard kind soft now)
    then show ?thesis using yields_mono [OF on_frame_good [OF i] good_sound] by simp
  next
    case (Disconnect drain_s)
    then show ?thesis by (auto intro!: yields_mono [OF disconnect_within_good [OF g]] good_sound')
  next
    case Abort
    then show ?thesis by (auto intro!: yields_mono [OF abort_good [OF g]] good_sound')
  next
    case (SendData d)
    then show ?thesis by (auto intro!: yields_mono [OF send_bytes_good [OF g]] good_sound')
  next
    case (PinMode m body)
    have "control (command_tx (pin_mode m body) e) = control e"
      by (rule command_tx_quiet) (auto simp: pin_mode_def tx_static_def split: if_splits)
    then show ?thesis using PinMode by (simp add: q)
  next
    case (MeasureRung m n)
    have "control (command_tx (measure_rung m n) e) = control e"
      by (rule command_tx_quiet) (auto simp: measure_rung_def split: if_splits)
    then show ?thesis using MeasureRung by (simp add: q)
  next
    case (SetCallsigns calls)
    have "control (unless_refused e (set_callsigns calls e)) = control e"
      by (simp add: set_callsigns_def unless_refused_def Let_def)
    then show ?thesis using SetCallsigns by (simp add: q)
  qed (use i a in \<open>simp_all add: on_tx_done_sound on_tx_cut_unread_sound on_tx_dropped_sound on_tx_delayed_sound
      on_preamble_sound set_air_sound move_call_sound yields_map allowed_def\<close>)
qed

inductive engine_step :: "'h engine \<Rightarrow> 'h engine \<Rightarrow> bool" where
  clock: "engine_step e (at_time now e)"
| timer: "run_timer td e = Some e' \<Longrightarrow> engine_step e e'"
| input: "allowed i e \<Longrightarrow> handle i e = Some e' \<Longrightarrow> engine_step e e'"

inductive engine_reachable :: "'h engine \<Rightarrow> bool" where
  fresh: "engine_new my_call t cfg rng = Some e \<Longrightarrow> engine_reachable e"
| step: "engine_reachable e \<Longrightarrow> engine_step e e' \<Longrightarrow> engine_reachable e'"
| drained: "engine_reachable e \<Longrightarrow> drain e = (actions, e') \<Longrightarrow> engine_reachable e'"

inductive_cases stepE: "engine_step e e'"

text \<open>A tick takes such steps.\<close>

lemma run_timers_steps: "for_each run_timer ts e = Some e' \<Longrightarrow> engine_step\<^sup>*\<^sup>* e e'"
proof (induction ts arbitrary: e)
  case (Cons td ts)
  then obtain e1 where e1: "run_timer td e = Some e1" "for_each run_timer ts e1 = Some e'"
    by (auto split: bind_splits)
  then have "engine_step e e1" by (intro engine_step.timer)
  with Cons.IH [OF e1(2)] show ?case by (rule converse_rtranclp_into_rtranclp [rotated])
qed simp

lemma tick_steps: "tick now e = Some e' \<Longrightarrow> engine_step\<^sup>*\<^sup>* e e'"
  unfolding tick_def Let_def
  by (rule converse_rtranclp_into_rtranclp [OF engine_step.clock run_timers_steps])

lemma engine_new_inv: "yields (engine_new my_call t cfg rng) engine_inv"
proof -
  have i: "engine_inv e" if b: "blank e1 e" and h: "en_tx e1 = sender_new t cfg rate" "en_rx e1 = receiver_new t cfg"
    "en_state e1 = Idle" "en_deadlines e1 = []" for e e1 :: "'a engine" and rate
  proof (rule good_inv, rule blank_good [OF b, where new = "[]"])
    show "halves_agree e1" "roles_ok e1" "probe_ok e1" "\<not> in_session e1"
      using h by (simp_all add: inv_defs rx_static_def sender_new_def receiver_new_def get_deadline_def)
  qed simp_all
  show ?thesis
    unfolding engine_new_def Let_def
    by (intro yields_any yields_mono [OF reset_session_blank], erule i) simp_all
qed

lemma step_sound: "engine_inv e \<Longrightarrow> engine_step e e' \<Longrightarrow> sound e e'"
proof (erule stepE)
  fix now :: f64
  assume "engine_inv e" "e' = at_time now e"
  then show "sound e e'" by (simp add: sound_quiet)
next
  fix td
  assume "engine_inv e" "run_timer td e = Some e'"
  then show "sound e e'" using yieldsD [OF run_timer_good] good_sound' by blast
next
  fix i
  assume "engine_inv e" "allowed i e" "handle i e = Some e'"
  then show "sound e e'" using yieldsD [OF handle_sound] by blast
qed

lemma reachable_inv: "engine_reachable e \<Longrightarrow> engine_inv e"
proof (induction rule: engine_reachable.induct)
  case (fresh my_call t cfg rng e)
  show ?case by (rule yieldsD [OF engine_new_inv fresh])
next
  case (step e e')
  then show ?case using step_sound by (auto simp: sound_def)
next
  case (drained e as e')
  have "timeouts (e\<lparr>en_actions := []\<rparr>) = timeouts e" by (simp add: timeouts_def)
  then have "link_ok (e\<lparr>en_actions := []\<rparr>) = link_ok e" by (simp add: link_ok_def)
  moreover have "rest_ok (e\<lparr>en_actions := []\<rparr>) = rest_ok e" by (simp add: inv_defs)
  moreover have "e' = e\<lparr>en_actions := []\<rparr>" using drained(2) by (simp add: drain_def)
  ultimately show ?case using drained.IH by (simp add: engine_inv_def)
qed

end
