(* ===== verification/Engine_Timeout.thy ===== *)
theory Engine_Timeout
  imports Engine_Laws Session_Laws
begin

text \<open>
  A session in which nothing more is heard ends: a timer leaves the Link timer and what it is reckoned from
  alone (\<open>calm\<close>), or ends the session; so a tick past every timeout finds it idle.
\<close>

section \<open>What a timer leaves alone\<close>

definition calm :: "'h engine \<Rightarrow> 'h engine \<Rightarrow> bool" where
  "calm e e' \<longleftrightarrow> armed LinkTimer e' = armed LinkTimer e \<and> en_heard_at e' = en_heard_at e \<and> en_now e' = en_now e \<and>
     timeouts e' = timeouts e \<and> (en_state e' = en_state e \<or> en_state e = Connected \<and> en_state e' = Disconnecting)"

lemma calm_refl [simp]: "calm e e" by (simp add: calm_def)

lemma calm_trans: "calm e e1 \<Longrightarrow> calm e1 e2 \<Longrightarrow> calm e e2"
  by (auto simp: calm_def)

lemma calm_control: "control e' = control e \<Longrightarrow> calm e e'"
  using timeouts_cong [of e' e] by (simp add: calm_def control_eq)

lemma calm_simps [simp]:
  "calm e (e\<lparr>en_answer := a\<rparr>)" "calm e (e\<lparr>en_window := w\<rparr>)" "calm e (e\<lparr>en_slot := sl\<rparr>)"
  "calm e (e\<lparr>en_hold_until := h\<rparr>)" "calm e (e\<lparr>en_probing := pr\<rparr>)" "calm e (e\<lparr>en_probe_unsent := pu\<rparr>)"
  "calm e (e\<lparr>en_connect_tries := ct\<rparr>)" "calm e (disarm t e) \<longleftrightarrow> t = LinkTimer \<longrightarrow> armed LinkTimer e = None"
  "t \<noteq> LinkTimer \<Longrightarrow> calm e (arm t due e)"
  by (auto simp: calm_def)

text \<open>Steps after steps.\<close>

lemma calm_on: "calm e e1 \<Longrightarrow> yields r (\<lambda>e2. calm e1 e2) \<Longrightarrow> yields r (\<lambda>e2. calm e e2)"
  by (auto elim!: yields_mono intro: calm_trans)

lemma calm_answer [simp]: "calm (e\<lparr>en_answer := a\<rparr>) e' = calm e e'" "calm e (e'\<lparr>en_answer := a\<rparr>) = calm e e'"
  by (simp_all add: calm_def timeouts_def)

lemma calm_fields [simp]:
  "calm (e\<lparr>en_window := w\<rparr>) e' = calm e e'" "calm e (e'\<lparr>en_window := w\<rparr>) = calm e e'"
  "calm (e\<lparr>en_slot := s\<rparr>) e' = calm e e'" "calm e (e'\<lparr>en_slot := s\<rparr>) = calm e e'"
  "calm (e\<lparr>en_hold_until := h\<rparr>) e' = calm e e'" "calm e (e'\<lparr>en_hold_until := h\<rparr>) = calm e e'"
  "calm (e\<lparr>en_probing := pr\<rparr>) e' = calm e e'" "calm e (e'\<lparr>en_probing := pr\<rparr>) = calm e e'"
  "calm (e\<lparr>en_probe_unsent := pu\<rparr>) e' = calm e e'" "calm e (e'\<lparr>en_probe_unsent := pu\<rparr>) = calm e e'"
  "calm (e\<lparr>en_connect_tries := ct\<rparr>) e' = calm e e'" "calm e (e'\<lparr>en_connect_tries := ct\<rparr>) = calm e e'"
  by (simp_all add: calm_def timeouts_def)

lemma calm_control_left: "control e1 = control e2 \<Longrightarrow> calm e1 e = calm e2 e"
  using timeouts_cong [of e1 e2] by (simp add: calm_def control_eq)

lemma calm_control_right: "control e1 = control e2 \<Longrightarrow> calm e e1 = calm e e2"
  using timeouts_cong [of e1 e2] by (simp add: calm_def control_eq)

lemmas calm_quiet [simp] = quiet_ops [THEN calm_control_left] quiet_ops [THEN calm_control_right]

lemma calm_arm [simp]: "t \<noteq> LinkTimer \<Longrightarrow> calm e (arm t due e') = calm e e'" "t \<noteq> LinkTimer \<Longrightarrow> calm e (disarm t e') = calm e e'"
  by (auto simp: calm_def)

lemma transmit_calm [simp]: "calm e (snd (transmit frames ky granting e')) = calm e e'"
proof -
  obtain tm where c: "control (snd (transmit frames ky granting e')) = control (e'\<lparr>en_actions := en_actions e' @ [Transmission tm]\<rparr>)"
    using transmit_effect by blast
  show ?thesis unfolding calm_control_right [OF c] by (simp add: calm_def timeouts_def)
qed

lemma send_answer_calm: "yields (send_answer fl room ky window_end e) (calm e)"
proof -
  obtain snr e1 where c1: "close_rx e = (snr, e1)" by fastforce
  then have e1: "control e1 = control e" using close_rx_quiet [of e] by simp
  have tr: "calm e (snd (transmit fs ky' None e4))" if "control e4 = control e" for fs ky' and e4 :: "'a engine"
    using that by (simp add: calm_control)
  show ?thesis
    unfolding send_answer_def c1 Let_def prod.case
  proof (rule yields_bindI [OF en_data_frames_quiet], goal_cases)
    case (1 de)
    then obtain data e3 where de: "de = (data, e3)" and c3: "control e3 = control e" using e1 by (cases de) (auto split: if_splits)
    obtain ack e4 where a: "en_ack_fields e3 = (ack, e4)" by fastforce
    have c4: "control e4 = control e" using en_ack_fields_quiet [of e3] a c3 by simp
    show ?case
      unfolding de prod.case a
      by (intro yields_any) (subst yields_basic, rule tr [OF c4])
  qed
qed

lemma try_window_calm: "yields (try_window e) (calm e)"
  by (auto simp: try_window_def Let_def intro!: calm_on [OF _ send_answer_calm] split: option.split)

lemma give_answer_calm: "yields (give_answer a e) (calm e)"
proof -
  have "yields (send_acceptance a e) (calm e)" "yields (send_probe_answer a e) (calm e)"
    by (auto simp: send_acceptance_def send_probe_answer_def Let_def intro!: yields_any split: option.split)
  moreover have "calm e (send_disc_answer a e)"
    by (simp add: send_disc_answer_def Let_def)
  moreover have "yields (send_answer fl room ky None (e\<lparr>en_answered_end := x\<rparr>)) (calm e)" for fl room ky x
    by (rule calm_on [OF _ send_answer_calm]) simp
  ultimately show ?thesis by (simp add: give_answer_def split: answer_kind.split)
qed

lemma key_answer_calm: "yields (key_answer e) (calm e)"
proof (cases "en_answer e")
  case (Some a)
  have "yields (try_window (e\<lparr>en_answer := None\<rparr>)) (calm e)" "yields (give_answer a (e\<lparr>en_answer := None\<rparr>)) (calm e)"
    by (rule calm_on [OF _ try_window_calm], simp, rule calm_on [OF _ give_answer_calm], simp)
  then show ?thesis using Some by (auto simp: key_answer_def Let_def)
qed (simp add: key_answer_def)

lemma arm_wait_calm: "calm e (arm_wait e)"
  by (auto simp: arm_wait_def Let_def split: option.split)

lemma key_granting_calm: "calm e (key_granting sl frames e)"
proof -
  obtain end_s e1 where t: "transmit frames keying_default (Some (en_next_slot_id e + 1))
      (e\<lparr>en_next_slot_id := en_next_slot_id e + 1, en_slot := Some (sl\<lparr>sl_id := en_next_slot_id e + 1\<rparr>)\<rparr>) = (end_s, e1)" by fastforce
  have "calm e (snd (transmit frames keying_default (Some (en_next_slot_id e + 1))
      (e\<lparr>en_next_slot_id := en_next_slot_id e + 1, en_slot := Some (sl\<lparr>sl_id := en_next_slot_id e + 1\<rparr>)\<rparr>)))"
    by simp
  then have "calm e e1" unfolding t by simp
  moreover have "calm e1 (open_slot end_s e1)"
  proof (cases "en_slot e1")
    case (Some s)
    show ?thesis unfolding open_slot_def Some option.case Let_def by (rule calm_trans [OF _ arm_wait_calm]) simp
  qed (simp add: open_slot_def)
  ultimately show ?thesis unfolding key_granting_def Let_def t prod.case by (rule calm_trans)
qed

lemma key_granting_calm' [simp]: "calm e e1 \<Longrightarrow> calm e (key_granting sl frames e1)"
  by (rule calm_trans [OF _ key_granting_calm])

section \<open>A timer's turn\<close>

text \<open>It leaves the Link timer alone, or ends the session.\<close>

definition calm_or_idle :: "'h engine \<Rightarrow> 'h engine \<Rightarrow> bool" where
  "calm_or_idle e e' \<longleftrightarrow> calm e e' \<or> en_state e' = Idle"

lemma calm_calm [intro]: "calm e e' \<Longrightarrow> calm_or_idle e e'"
  by (simp add: calm_or_idle_def)

lemma yields_calm: "yields r (calm e) \<Longrightarrow> yields r (calm_or_idle e)"
  by (auto elim: yields_mono)

lemma end_session_idle: "yields (end_session_with reason disc unread e) (\<lambda>e'. en_state e' = Idle)"
proof -
  let ?p = "disarm IdentTimer (disarm ConnectTimer (set_role NoRole (e\<lparr>
       en_ended_peer_snr_db := sn_peer_snr_db (en_tx e), en_state := Idle\<rparr>)))"
  have r: "yields (reset_session ?p) (\<lambda>e1. en_state e1 = Idle)"
    by (rule yields_mono [OF reset_session_blank]) (simp add: blank_def)
  show ?thesis
    unfolding end_session_with_def Let_def
    by (rule yields_bindI [OF yields_True], rule yields_bindI [OF r])
      (auto simp: owe_identifier_def Let_def intro!: yields_any)
qed

lemma end_session_calm:
  "yields (end_session reason disc e) (calm_or_idle e')" "yields (end_session_unread reason e) (calm_or_idle e')"
  unfolding end_session_def end_session_unread_def
  by (rule yields_mono [OF end_session_idle], simp add: calm_or_idle_def)+

lemma send_connect_calm: "yields (send_connect e) (calm e)"
  unfolding send_connect_def Let_def by (auto simp: case_prod_beta intro!: yields_any split: option.split)

lemma retry_connect_calm: "yields (retry_connect e) (calm_or_idle e)"
  unfolding retry_connect_def
  by (auto intro: end_session_calm yields_calm [OF send_connect_calm])

lemma send_probe_calm: "yields (send_probe e) (calm e)"
  unfolding send_probe_def Let_def by (auto simp: case_prod_beta intro!: yields_any split: option.split)

lemma expire_probe_calm: "yields (expire_probe e) (calm e)"
  using send_probe_calm [of e] by (auto simp: expire_probe_def split: option.split)

lemma repeat_leave_calm: "calm e (repeat_leave e)"
proof -
  have i: "calm e e1 \<Longrightarrow> calm e (identify_after_leaving e1)" for e1 :: "'a engine"
    by (simp add: identify_after_leaving_def)
  show ?thesis
    by (auto simp: repeat_leave_def Let_def intro!: i split: option.split prod.split)
qed

lemma send_identifier_calm: "calm e (send_identifier e)"
proof -
  obtain end_s e1 where t: "transmit [] (keying_default\<lparr>ky_identifier_s := en_id_owed e, ky_listen_first := en_id_listen e\<rparr>) None
      (e\<lparr>en_id_owed := 0\<rparr>) = (end_s, e1)" by fastforce
  have "calm e (snd (transmit [] (keying_default\<lparr>ky_identifier_s := en_id_owed e, ky_listen_first := en_id_listen e\<rparr>) None
      (e\<lparr>en_id_owed := 0\<rparr>)))" by simp
  then have "calm e e1" unfolding t by simp
  then show ?thesis by (simp add: send_identifier_def Let_def t)
qed

lemma slot_silent_calm: "calm e0 e \<Longrightarrow> yields (slot_silent sl e) (calm_or_idle e0)"
proof (rule slot_silent_cases [of e sl])
  fix e5
  assume "calm e0 e" and c: "control e5 = control e"
    and s: "slot_silent sl e = (if max_retries (en_config e5) < en_silent e5 then end_session ''no response'' False e5 else Some e5)"
  then show "yields (slot_silent sl e) (calm_or_idle e0)"
    unfolding s using calm_control_right [OF c] by (auto intro: end_session_calm)
qed

lemma close_slot_calm: "yields (close_slot e) (calm_or_idle e)"
  by (auto simp: close_slot_def Let_def intro!: slot_silent_calm split: option.split)

lemma send_disc_calm: "yields (send_disc e) (calm e)"
  unfolding send_disc_def Let_def by (intro yields_any) simp

lemma send_header_calm: "yields (send_header e) (calm e)"
proof -
  have d: "yields (if ow then Some ([], e) else en_data_frames r e) (\<lambda>(fs, e'). control e' = control e)" for ow r
    using en_data_frames_quiet [of r e] by simp
  have a: "control e' = control e1" if "en_ack_fields e1 = (ack, e')" for e1 :: "'a engine" and ack e'
    using en_ack_fields_quiet [of e1] that by simp
  have k: "calm e (key_granting sl frames e3)" if "control e3 = control e" for sl frames e3
    using calm_control [OF that] by simp
  show ?thesis
    unfolding send_header_def Let_def
    apply (rule yields_any)
    apply (subst yields_prod, intro allI impI)+
    apply (rule yields_bindI [OF d])
    apply (subst yields_prod, intro allI impI)
    apply (intro yields_any)
    apply (subst yields_prod, intro allI impI)
    apply (subst yields_basic, rule k)
    apply (auto split: if_splits prod.splits dest: a)
    done
qed

lemma proceed_calm: "yields (proceed e) (calm_or_idle e)"
proof -
  have lv: "calm e e2" if "calm e e1" "control e2 = control e1" for e1 e2
    using that calm_control_right [of e2 e1 e] by simp
  have dd: "calm e (e2\<lparr>en_state := Disconnecting\<rparr>)" if "calm e e2" "en_state e2 = Connected \<or> en_state e2 = Disconnecting" for e2
    using that by (auto simp: calm_def)
  have next_key: "yields (if leave then send_disc (e2\<lparr>en_state := Disconnecting\<rparr>) else send_header e2) (calm_or_idle e)"
    if "calm e e2" "en_state e2 = Connected" for leave e2
    using that by (auto intro!: yields_calm calm_on [OF _ send_disc_calm] calm_on [OF _ send_header_calm] dd)
  have go: "yields ((if b then can_leave e1 else Some (False, e1)) \<bind> (\<lambda>(leave, e2).
      if leave then send_disc (e2\<lparr>en_state := Disconnecting\<rparr>) else send_header e2)) (calm_or_idle e)"
    if c: "calm e e1" "en_state e1 = Connected" for b e1
  proof (rule yields_bindI [where P = "\<lambda>(leave, e2). control e2 = control e1"])
    show "yields (if b then can_leave e1 else Some (False, e1)) (\<lambda>(leave, e2). control e2 = control e1)"
      using can_leave_quiet [of e1] by simp
  next
    fix x :: "bool \<times> 'a engine"
    assume "case x of (leave, e2) \<Rightarrow> control e2 = control e1"
    then obtain l e2 where x: "x = (l, e2)" and q: "control e2 = control e1" by (cases x) auto
    show "yields (case x of (leave, e2) \<Rightarrow>
        if leave then send_disc (e2\<lparr>en_state := Disconnecting\<rparr>) else send_header e2) (calm_or_idle e)"
      unfolding x prod.case using lv [OF c(1) q] c(2) state_control [OF q] by (intro next_key) auto
  qed
  show ?thesis
  proof (cases "en_role e \<noteq> Master \<or> en_state e \<notin> {Connected, Disconnecting}")
    case False
    show ?thesis
      unfolding proceed_def if_not_P [OF False]
    proof (rule yields_bindI [OF close_slot_calm])
      fix e1 :: "'a engine"
      assume e1: "calm_or_idle e e1"
      show "yields (if en_state e1 = Idle then Some e1
        else if en_state e1 = Disconnecting
        then if disc_retries (en_config e1) \<le> en_disc_tries e1
             then end_session_unread (close_reason ''closed (no DISC_ACK)'' e1) e1
             else send_disc e1
        else do {
          (leave, e2) \<leftarrow> (if en_disc_requested e1 \<or> en_slave_leaves e1 then can_leave e1 else Some (False, e1));
          if leave then send_disc (e2\<lparr>en_state := Disconnecting\<rparr>) else send_header e2
        }) (calm_or_idle e)"
      proof (cases "en_state e1 = Idle \<or> en_state e1 = Disconnecting")
        case True
        then show ?thesis
          using e1 by (auto simp: calm_or_idle_def [of e e1] intro: end_session_calm yields_calm [OF calm_on [OF _ send_disc_calm]])
      next
        case nd: False
        then have "calm e e1" "en_state e1 = Connected" using e1 False by (auto simp: calm_or_idle_def calm_def)
        with nd show ?thesis by (subst if_not_P, simp, subst if_not_P, simp) (rule go)
      qed
    qed
  qed (auto simp: proceed_def)
qed

lemma run_timer_calm:
  assumes "fst td \<noteq> LinkTimer" shows "yields (run_timer td e) (calm_or_idle e)"
proof -
  let ?e1 = "(disarm (fst td) e)\<lparr>en_cause := timer_cause (fst td)\<rparr>"
  have c: "calm e ?e1" using assms by simp
  have l: "calm_or_idle ?e1 e' \<Longrightarrow> calm_or_idle e e'" for e'
    unfolding calm_or_idle_def using calm_trans [OF c, of e'] by blast
  have "yields (expire_timer (fst td) ?e1) (calm_or_idle ?e1)"
    using assms retry_connect_calm [of ?e1] yields_calm [OF expire_probe_calm [of ?e1]] proceed_calm [of ?e1]
      yields_calm [OF key_answer_calm [of ?e1]] repeat_leave_calm [of ?e1] send_identifier_calm [of ?e1]
    by (auto simp: expire_timer_def split: timer.split)
  then have "yields (expire_timer (fst td) ?e1) (calm_or_idle e)" by (rule yields_mono) (rule l)
  then show ?thesis by (auto simp: run_timer_def split: option.split)
qed

section \<open>A tick past every timeout\<close>

definition overdue :: "'h engine \<Rightarrow> bool" where
  "overdue e \<longleftrightarrow> (\<forall>x\<in>timeouts e. en_heard_at e + x \<le> en_now e)"

lemma expire_link_idle:
  assumes o: "overdue e" shows "yields (expire_link e) (\<lambda>e'. en_state e' = Idle)"
proof -
  have "yields (if en_now e < en_heard_at e + x then Some (arm LinkTimer (en_heard_at e + x) e)
      else end_session ''link timeout'' False e) (\<lambda>e'. en_state e' = Idle)" if "x \<in> timeouts e" for x
    using o that end_session_idle by (fastforce simp: overdue_def end_session_def)
  then show ?thesis
    unfolding expire_link_def Let_def by (intro yields_bindI [OF en_link_timeout_in])
qed

lemma overdue_upd [simp]:
  "overdue (disarm t e) = overdue e" "overdue (e\<lparr>en_cause := c\<rparr>) = overdue e"
  by (simp_all add: overdue_def timeouts_def)

text \<open>The Link timer is due when the link is overdue.\<close>

lemma link_due:
  assumes i: "engine_inv e" and s: "in_session e" and o: "overdue e"
  obtains due where "armed LinkTimer e = Some due" "due \<le> en_now e"
proof -
  from i s have "armed LinkTimer e \<noteq> None" by (auto simp: engine_inv_def link_ok_def)
  then obtain due where d: "armed LinkTimer e = Some due" by blast
  then obtain x where "x \<in> timeouts e" "due \<le> en_heard_at e + x" using i by (auto simp: engine_inv_def link_ok_def)
  with o have "due \<le> en_now e" by (force simp: overdue_def)
  with d show ?thesis by (rule that)
qed

lemma run_link_idle:
  assumes "engine_inv e" "in_session e" "overdue e"
  shows "run_timer (LinkTimer, d) e = expire_link ((disarm LinkTimer e)\<lparr>en_cause := timer_cause LinkTimer\<rparr>)"
proof -
  obtain due where "armed LinkTimer e = Some due" "due \<le> en_now e" using link_due [OF assms] .
  then show ?thesis by (simp add: run_timer_def expire_timer_def)
qed

lemma run_link_out:
  "engine_inv e \<Longrightarrow> \<not> in_session e \<Longrightarrow> run_timer (LinkTimer, d) e = Some e"
  by (cases "armed LinkTimer e") (auto simp: run_timer_def engine_inv_def link_ok_def)

lemma run_timers_idle:
  assumes "for_each run_timer ts e = Some e'" "engine_inv e"
    and "en_state e = Idle \<or> in_session e \<and> overdue e \<and> LinkTimer \<in> fst ` set ts"
  shows "en_state e' = Idle"
  using assms
proof (induction ts arbitrary: e)
  case (Cons td ts)
  obtain e1 where e1: "run_timer td e = Some e1" "for_each run_timer ts e1 = Some e'"
    using Cons.prems(1) by (auto split: bind_splits)
  have i1: "engine_inv e1" using good_inv [OF yieldsD [OF run_timer_good [OF Cons.prems(2)] e1(1)]] .
  have "en_state e1 = Idle \<or> in_session e1 \<and> overdue e1 \<and> LinkTimer \<in> fst ` set ts"
  proof (cases "fst td = LinkTimer")
    case True
    then obtain d where td: "td = (LinkTimer, d)" by (cases td) auto
    show ?thesis
    proof (cases "en_state e = Idle")
      case True
      then have "run_timer td e = Some e" unfolding td by (intro run_link_out [OF Cons.prems(2)]) simp
      with e1(1) True show ?thesis by simp
    next
      case False
      then have s: "in_session e" "overdue e" using Cons.prems(3) by auto
      have "yields (run_timer td e) (\<lambda>e'. en_state e' = Idle)"
        unfolding td run_link_idle [OF Cons.prems(2) s] by (rule expire_link_idle) (use s in simp)
      then have "en_state e1 = Idle" by (rule yieldsD [OF _ e1(1)])
      then show ?thesis ..
    qed
  next
    case False
    then have "calm_or_idle e e1" by (intro yieldsD [OF run_timer_calm e1(1)])
    moreover have "LinkTimer \<in> fst ` set ts" if "LinkTimer \<in> fst ` set (td # ts)" using that False by auto
    ultimately show ?thesis using Cons.prems(3)
      unfolding calm_or_idle_def calm_def overdue_def by (elim disjE conjE) auto
  qed
  then show ?case using Cons.IH [OF e1(2) i1] by blast
qed simp

lemma armed_in: "get_deadline t ds = Some due \<Longrightarrow> (t, due) \<in> set ds"
  unfolding get_deadline_def by (induction ds) (auto split: if_splits)

text \<open>It returns, too: the Link timer does not panic when the exchange and the rate table are known.\<close>

lemma expire_link_returns:
  assumes "overdue e" "en_exchange_s e \<noteq> None" "rate_for (en_timing e) \<noteq> None" "en_my_ident_s e \<le> 0"
  shows "expire_link e \<noteq> None"
proof -
  obtain x where x: "en_exchange_s e = Some x" using assms(2) by blast
  obtain rate where r: "rate_for (en_timing e) = Some rate" using assms(3) by blast
  then have "reset_session (disarm IdentTimer (disarm ConnectTimer (set_role NoRole (e\<lparr>
       en_ended_peer_snr_db := sn_peer_snr_db (en_tx e), en_state := Idle\<rparr>)))) \<noteq> None"
    by (simp add: reset_session_def Let_def)
  moreover have "left_behind ''link timeout'' False e \<noteq> None"
    by (simp add: left_behind_def en_link_timeout_def x)
  ultimately have "end_session ''link timeout'' False e \<noteq> None"
    using assms(4) by (auto simp: end_session_def end_session_with_def Let_def)
  then show ?thesis by (simp add: expire_link_def en_link_timeout_def x Let_def)
qed

lemma run_timers_out:
  assumes "engine_inv e" "\<not> in_session e" "fst ` set ts \<subseteq> {LinkTimer}"
  shows "for_each run_timer ts e = Some e"
  using assms(3)
proof (induction ts)
  case (Cons td ts)
  then obtain d where "td = (LinkTimer, d)" by (cases td) auto
  with Cons run_link_out [OF assms(1,2)] show ?case by simp
qed simp

lemma tick_link_returns:
  assumes i: "engine_inv e" and s: "in_session e" and o: "overdue e" and l: "fst ` set ts \<subseteq> {LinkTimer}"
    and k: "en_exchange_s e \<noteq> None" "rate_for (en_timing e) \<noteq> None" "en_my_ident_s e \<le> 0"
  shows "for_each run_timer ts e \<noteq> None"
proof (cases ts)
  case (Cons td ts')
  then obtain d where td: "td = (LinkTimer, d)" using l by (cases td) auto
  let ?e1 = "(disarm LinkTimer e)\<lparr>en_cause := timer_cause LinkTimer\<rparr>"
  have "en_exchange_s ?e1 = en_exchange_s e" "en_my_ident_s ?e1 = en_my_ident_s e"
    by (simp_all add: en_exchange_s_def disarm_def)
  then have "expire_link ?e1 \<noteq> None" using o k by (intro expire_link_returns) auto
  then obtain e2 where e2: "run_timer td e = Some e2" unfolding td run_link_idle [OF i s o] by blast
  have "engine_inv e2" using good_inv [OF yieldsD [OF run_timer_good [OF i] e2]] .
  moreover have "en_state e2 = Idle"
    using yieldsD [OF expire_link_idle [of ?e1], of e2] o e2 unfolding td run_link_idle [OF i s o] by simp
  ultimately have "for_each run_timer ts' e2 = Some e2" using l Cons by (intro run_timers_out) auto
  then show ?thesis using Cons e2 by simp
qed simp

section \<open>Fresh engines\<close>

lemma rate_for_small: "rate_for small_air \<noteq> None"
  by (simp add: rate_for_def for_table_def small_air_def Let_def)

definition just_made :: "phy_timing \<Rightarrow> grant_config \<Rightarrow> 'h engine \<Rightarrow> bool" where
  "just_made t cfg e \<longleftrightarrow> en_state e = Idle \<and> en_role e = NoRole \<and> en_now e = 0 \<and> en_hold_until e = 0 \<and> keyed e = [] \<and>
     en_slot e = None \<and> en_answer e = None \<and> en_window e = None \<and> armed LinkTimer e = None \<and> armed ProceedTimer e = None \<and>
     armed ProbeTimer e = None \<and> en_timing e = t \<and> en_config e = cfg \<and> rx_static (en_rx e) = (en_session e, t, cfg) \<and>
     \<not> en_probe_unsent e"

lemma engine_new_made: "yields (engine_new my_call t cfg rng) (just_made t cfg)"
proof -
  have i: "just_made t cfg e" if b: "blank e1 e" and h: "en_tx e1 = sender_new t cfg rate" "en_rx e1 = receiver_new t cfg"
    "en_state e1 = Idle" "en_deadlines e1 = []" "en_now e1 = 0" "en_hold_until e1 = 0" "en_actions e1 = []"
    "en_probe_unsent e1 = False" for e e1 :: "'a engine" and rate
  proof -
    have "en_session e = en_session e1" "en_timing e = en_timing e1" "en_config e = en_config e1" "en_role e = en_role e1"
      using b halves_eqD [of e e1] by (simp_all add: blank_def)
    moreover have "rx_static (en_rx e) = rx_static (en_rx e1)" using b by (simp add: blank_def)
    ultimately show ?thesis
      using b h unfolding just_made_def blank_def
      by (simp add: sender_new_def receiver_new_def rx_static_def get_deadline_def)
  qed
  show ?thesis
    unfolding engine_new_def Let_def
    by (intro yields_any yields_mono [OF reset_session_blank], erule i) simp_all
qed

lemma engine_new_returns:
  assumes "rate_for t \<noteq> None" shows "engine_new my_call t cfg rng \<noteq> None"
  using assms by (auto simp: engine_new_def reset_session_def Let_def sender_new_def)

definition small_engine :: "unit engine" where
  "small_engine = the (engine_new ''K1A'' small_air grant_config_default 1)"

lemma small_engine: "engine_new ''K1A'' small_air grant_config_default 1 = Some small_engine"
proof -
  obtain e :: "unit engine" where "engine_new ''K1A'' small_air grant_config_default 1 = Some e"
    using engine_new_returns [OF rate_for_small] by blast
  then show ?thesis by (simp add: small_engine_def)
qed

lemma small_made: "just_made small_air grant_config_default small_engine"
  by (rule yieldsD [OF engine_new_made small_engine])

lemmas small_engine_facts [simp] = small_made [unfolded just_made_def, simplified]

text \<open>One that owes its closing identifier, and one a frame's wait into a session.\<close>

definition owing_engine :: "unit engine" where
  "owing_engine = arm IdentTimer 0 (small_engine\<lparr>en_id_owed := 2\<rparr>)"

definition called_engine :: "unit engine" where
  "called_engine = small_engine\<lparr>en_tx := (en_tx small_engine)\<lparr>sn_role := Slave, sn_pinned := Some 0\<rparr>, en_state := Connected,
     en_deadlines := [(LinkTimer, 45)], en_heard_at := 0, en_my_ident_s := 0, en_peer_turnaround_s := 0\<rparr>"

lemma owing_inv: "engine_inv owing_engine"
  by (simp add: owing_engine_def engine_inv_def inv_defs link_ok_def)

lemma called_inv: "engine_inv called_engine"
proof -
  have t: "link_timeout grant_config_default (exchange_s grant_config_default small_air False None False 0) \<in> timeouts called_engine"
    unfolding timeouts_def called_engine_def by auto
  have "45 \<le> link_timeout grant_config_default (exchange_s grant_config_default small_air False None False 0)"
    by (simp add: link_timeout_def grant_config_default_def)
  with t have "link_ok called_engine"
    by (auto simp: link_ok_def called_engine_def get_deadline_def)
  moreover have "rest_ok called_engine"
    by (simp add: called_engine_def inv_defs get_deadline_def)
  ultimately show ?thesis by (simp add: engine_inv_def)
qed

section \<open>What the engine promises\<close>


lemma small_reachable: "engine_reachable small_engine"
  using small_engine by (rule engine_reachable.fresh)



lemma owing_keys: "\<exists>e'. run_timer (IdentTimer, 0) owing_engine = Some e' \<and> map tm_duration_s (keyed e') = [2]"
  by (simp add: run_timer_def owing_engine_def expire_timer_def send_identifier_def transmit_def Let_def keying_default_def
      disarm_def arm_def get_set_deadline)


text \<open>
  C7: \<^bold>\<open>A dead link ends.\<close>  In a session in which nothing has been heard for longer than every timeout the
  engine can reckon, the next tick leaves the engine idle, whatever else is due in it; and where the
  Link timer is all that is armed, the tick returns.
\<close>

theorem session_times_out:
  assumes "engine_inv e" "in_session e" "\<forall>x\<in>timeouts e. en_heard_at e + x \<le> now"
  shows "(\<forall>e'. tick now e = Some e' \<longrightarrow> en_state e' = Idle) \<and>
    (fst ` set (en_deadlines e) \<subseteq> {LinkTimer} \<and> en_exchange_s e \<noteq> None \<and> rate_for (en_timing e) \<noteq> None \<and>
       en_my_ident_s e \<le> 0 \<longrightarrow> (\<exists>e'. tick now e = Some e'))"
proof -
  let ?e = "at_time now e"
  have t: "timeouts ?e = timeouts e" by (simp add: timeouts_def)
  have i: "engine_inv ?e" "in_session ?e" "overdue ?e"
    using assms t by (auto simp: overdue_def le_max_iff_disj)
  obtain due where "armed LinkTimer ?e = Some due" using link_due [OF i] .
  then have l: "LinkTimer \<in> fst ` set (sort_key snd (en_deadlines ?e))" using armed_in by force
  have "en_state e' = Idle" if "tick now e = Some e'" for e'
    by (rule run_timers_idle [where e = ?e and ts = "sort_key snd (en_deadlines ?e)"])
      (use that i l in \<open>simp_all add: tick_def Let_def\<close>)
  moreover have x: "en_exchange_s ?e = en_exchange_s e" by (simp add: en_exchange_s_def)
  have "tick now e \<noteq> None" if "fst ` set (en_deadlines e) \<subseteq> {LinkTimer}" "en_exchange_s e \<noteq> None"
      "rate_for (en_timing e) \<noteq> None" "en_my_ident_s e \<le> 0"
    unfolding tick_def Let_def by (rule tick_link_returns [OF i]) (use that x in simp_all)
  ultimately show ?thesis by auto
qed

lemma called_timeouts: "x \<in> timeouts called_engine \<Longrightarrow> x \<le> 1000"
  by (auto simp: timeouts_def called_engine_def link_timeout_def exchange_s_def Let_def grant_config_default_def small_air_def
      slot_start_def budget_def window_s_def by_floor_def burst_capacity_def MAX_DATA_def frame_s_def ctl_s_def control_frame_s_for_def
      DECODE_BUDGET_S_def KEY_S_def GUARD_S_def SLACK_S_def LEVELS_S_def OPEN_WINDOW_S_def split: option.split)

theorem session_times_out_witness: "\<exists>e'. tick 1000 called_engine = Some e' \<and> en_state e' = Idle"
proof -
  have "in_session called_engine" "en_heard_at called_engine = 0" "fst ` set (en_deadlines called_engine) \<subseteq> {LinkTimer}"
    "en_exchange_s called_engine \<noteq> None" "rate_for (en_timing called_engine) \<noteq> None" "en_my_ident_s called_engine \<le> 0"
    using rate_for_small by (simp_all add: called_engine_def en_exchange_s_def burst_mode_def)
  then show ?thesis
    using session_times_out [OF called_inv, of 1000] called_timeouts by auto
qed

end
