(* ===== verification/Sender_Fit.thy ===== *)
theory Sender_Fit
  imports Engine_Timeout
begin

text \<open>
  The data laid out fits the room it was given: all its frames are of one family, and as many of that
  family's frames as there are fit, up to the billionth of a frame by which \<open>whole\<close> rounds up.
\<close>

section \<open>Frames of one family\<close>

definition of_fam :: "phy_timing \<Rightarrow> bool \<Rightarrow> tx_frame \<Rightarrow> bool" where
  "of_fam t fam f \<longleftrightarrow> tx_container f = container.Data \<and> pt_is_floor t (tx_mode f) = fam"

lemma of_fam_length: "of_fam t fam f \<Longrightarrow> tx_frame_s t f = frame_s t fam"
  by (auto simp: of_fam_def tx_frame_s_def data_frame_s_for_def frame_s_def split: option.split)

lemma of_fam_data [simp]: "of_fam t fam (data_frame payload mode rv follows) \<longleftrightarrow> pt_is_floor t mode = fam"
  by (simp add: of_fam_def data_frame_def)

definition modes_of_fam :: "phy_timing \<Rightarrow> bool \<Rightarrow> u8 set \<Rightarrow> sender \<Rightarrow> bool" where
  "modes_of_fam t fam Q s \<longleftrightarrow> sn_timing s = t \<and>
     (\<forall>q\<in>Q. \<forall>r. sn_records s q = Some r \<longrightarrow> pt_is_floor t (tr_mode r) = fam)"

definition fits_in :: "phy_timing \<Rightarrow> bool \<Rightarrow> nat \<Rightarrow> tx_frame list \<Rightarrow> bool" where
  "fits_in t fam n fs \<longleftrightarrow> length fs \<le> n \<and> (\<forall>f\<in>set fs. of_fam t fam f)"

lemma fits_mono: "fits_in t fam n fs \<Longrightarrow> n \<le> m \<Longrightarrow> fits_in t fam m fs"
  by (simp add: fits_in_def)

lemma fits_empty [simp]: "fits_in t fam n []"
  by (simp add: fits_in_def)

lemma modes_count [simp]: "modes_of_fam t fam Q (count_stat f s) = modes_of_fam t fam Q s"
  by (simp add: modes_of_fam_def count_stat_def)

lemma modes_set_record:
  "modes_of_fam t fam Q s \<Longrightarrow> pt_is_floor t (tr_mode r) = fam \<Longrightarrow> modes_of_fam t fam Q (set_record q r s)"
  by (simp add: modes_of_fam_def set_record_def)

section \<open>Whole blocks\<close>

lemma send_block_fits:
  assumes m: "modes_of_fam t fam Q s" "q \<in> Q" and f: "fits_in t fam k fs"
  shows "yields (send_block n (i, q) (fs, s)) (\<lambda>(fs', s'). fits_in t fam (Suc k) fs' \<and> modes_of_fam t fam Q s')"
proof (cases "sn_records s q")
  case None
  then show ?thesis using m f by (simp add: send_block_def fits_mono [OF f])
next
  case (Some r)
  then have r: "pt_is_floor t (tr_mode r) = fam" using m by (simp add: modes_of_fam_def)
  have a: "fits_in t fam (Suc k) (fs @ [data_frame pl (tr_mode r) rv fo])" for pl rv fo
    using f r by (auto simp: fits_in_def)
  have s: "modes_of_fam t fam Q (set_record q (r\<lparr>tr_tx_count := c\<rparr>) s')" if "modes_of_fam t fam Q s'" for s' c
    using that r by (simp add: modes_set_record)
  have u: "modes_of_fam t fam Q (s'\<lparr>sn_sent_copies := cs\<rparr>) = modes_of_fam t fam Q s'" for s' cs
    by (simp add: modes_of_fam_def)
  show ?thesis
    using m by (auto simp: send_block_def Some Let_def yl a s u fits_mono [OF f])
qed

lemma send_blocks_fits:
  assumes m: "modes_of_fam t fam (set qs) s"
  shows "yields (send_blocks qs s) (\<lambda>(fs, s'). fits_in t fam (length qs) fs)"
proof -
  have "yields (for_each (send_block n) iqs (fs, s)) (\<lambda>(fs', s'). fits_in t fam (k + length iqs) fs')"
    if "snd ` set iqs \<subseteq> set qs" "fits_in t fam k fs" "modes_of_fam t fam (set qs) s" for iqs fs s k n
    using that
  proof (induction iqs arbitrary: fs s k)
    case (Cons iq iqs)
    obtain i q where iq: "iq = (i, q)" by (cases iq) auto
    have "yields (send_block n iq (fs, s)) (\<lambda>(fs', s'). fits_in t fam (Suc k) fs' \<and> modes_of_fam t fam (set qs) s')"
      unfolding iq using Cons.prems iq by (intro send_block_fits) auto
    then have "yields (send_block n iq (fs, s) \<bind> for_each (send_block n) iqs) (\<lambda>(fs', s'). fits_in t fam (Suc k + length iqs) fs')"
      by (rule yields_bindI) (use Cons.IH [where k = "Suc k"] Cons.prems(1) in auto)
    then show ?case by simp
  qed simp
  note f = this
  have "snd ` set (enumerate 0 qs) \<subseteq> set qs" by (auto simp: in_set_enumerate_eq)
  then have "yields (for_each (send_block (length qs)) (enumerate 0 qs) ([], s)) (\<lambda>(fs, s'). fits_in t fam (0 + length (enumerate 0 qs)) fs)"
    by (rule f) (simp_all add: m)
  then show ?thesis
    unfolding send_blocks_def by (rule yields_bindI) (auto elim: fits_mono)
qed

section \<open>Pieces\<close>

lemma choose_pieces_fits:
  assumes "choose_pieces room qs chosen s = (ch, s')" "set qs \<subseteq> Q" "fst ` set chosen \<subseteq> Q" "modes_of_fam t fam Q s"
    "length chosen \<le> room"
  shows "length ch \<le> room \<and> fst ` set ch \<subseteq> Q \<and> modes_of_fam t fam Q s'"
  using assms
proof (induction room qs chosen s arbitrary: ch s' rule: choose_pieces.induct)
  case (2 room q qs chosen s)
  show ?case
  proof (cases "sn_records s q")
    case None
    then show ?thesis using 2 by simp
  next
    case (Some r)
    obtain least ks where l: "least_sent (tr_piece_sends r) = (least, ks)" by fastforce
    define tk where "tk = take (room - length chosen) ks"
    have r: "pt_is_floor t (tr_mode r) = fam" using 2(5,7) Some by (auto simp: modes_of_fam_def)
    have b: "modes_of_fam t fam Q (book_pieces q r least tk s)"
      using 2(7) r by (simp add: book_pieces_def modes_set_record)
    have e: "choose_pieces room (q # qs) chosen s = (if tr_piece_sends r = [] then choose_pieces room qs chosen s
        else if tk = [] then (chosen, s) else choose_pieces room qs (chosen @ map (Pair q) tk) (book_pieces q r least tk s))"
      by (simp add: Some l tk_def Let_def)
    note p = 2(4) [unfolded e]
    consider "tr_piece_sends r = []" | "tr_piece_sends r \<noteq> []" "tk = []" | "tr_piece_sends r \<noteq> []" "tk \<noteq> []" by blast
    then show ?thesis
    proof cases
      case 1
      then show ?thesis using p 2(2) [OF Some 1] 2(5-8) by simp
    next
      case 2
      then show ?thesis using p \<open>fst ` set chosen \<subseteq> Q\<close> \<open>modes_of_fam t fam Q s\<close> \<open>length chosen \<le> room\<close> by simp
    next
      case 3
      then have c: "choose_pieces room qs (chosen @ map (Pair q) tk) (book_pieces q r least tk s) = (ch, s')"
        using p by simp
      have "length (chosen @ map (Pair q) tk) \<le> room" using 2(8) by (simp add: tk_def)
      moreover have "fst ` set (chosen @ map (Pair q) tk) \<subseteq> Q" using 2(5,6) by auto
      moreover have "set qs \<subseteq> Q" using 2(5) by simp
      ultimately show ?thesis using 2(3) [OF Some 3(1) l [symmetric] tk_def 3(2) c _ _ b] by blast
    qed
  qed
qed simp

lemma build_piece_fits:
  assumes m: "modes_of_fam t fam Q s" "q \<in> Q" and f: "fits_in t fam k fs"
  shows "yields (build_piece n s (i, q, j) fs) (fits_in t fam (Suc k))"
proof -
  have a: "fits_in t fam (Suc k) (fs @ [data_frame pl (tr_mode r) rv fo])" if "sn_records s q = Some r" for pl rv fo r
    using f m that by (auto simp: fits_in_def modes_of_fam_def)
  show ?thesis
    by (auto simp: build_piece_def yl a fits_mono [OF f] split: option.split)
qed

lemma piece_frames_fits:
  assumes m: "modes_of_fam t fam (set qs) s"
  shows "yields (piece_frames qs room s) (\<lambda>(fs, s'). fits_in t fam room fs)"
proof -
  obtain ch s1 where c: "choose_pieces room qs [] s = (ch, s1)" by fastforce
  have h: "length ch \<le> room" "fst ` set ch \<subseteq> set qs" "modes_of_fam t fam (set qs) s1"
    using choose_pieces_fits [OF c _ _ m] by auto
  have "yields (for_each (build_piece n s1) xs fs) (fits_in t fam (k + length xs))"
    if "\<forall>x\<in>set xs. fst (snd x) \<in> set qs" "fits_in t fam k fs" for xs fs k n
    using that
  proof (induction xs arbitrary: fs k)
    case (Cons x xs)
    obtain i q j where x: "x = (i, q, j)" by (cases x) auto
    have "yields (build_piece n s1 x fs) (fits_in t fam (Suc k))"
      unfolding x using Cons.prems x h(3) by (intro build_piece_fits) auto
    then have "yields (build_piece n s1 x fs \<bind> for_each (build_piece n s1) xs) (fits_in t fam (Suc k + length xs))"
      by (rule yields_bindI) (use Cons.IH [where k = "Suc k"] Cons.prems(1) in auto)
    then show ?case by simp
  qed simp
  note f = this
  have "\<forall>x\<in>set (enumerate 0 ch). fst (snd x) \<in> set qs" using h(2) by (auto simp: in_set_enumerate_eq) (metis fst_conv image_subset_iff nth_mem)
  then have "yields (for_each (build_piece (length ch) s1) (enumerate 0 ch) []) (fits_in t fam (0 + length (enumerate 0 ch)))"
    by (rule f) simp
  then show ?thesis
    unfolding piece_frames_def c Let_def prod.case
    by (rule yields_bindI) (use h(1) in \<open>auto intro: fits_mono\<close>)
qed

section \<open>New blocks, a measurement, and all of it\<close>

lemma cut_new_fits:
  assumes "modes_of_fam t fam (set qs) s" "pt_is_floor t mode = fam" "\<And>p. pr = Some p \<Longrightarrow> pt_is_floor t p = fam"
    "length qs \<le> room"
  shows "yields (cut_new room mode pr qs s) (\<lambda>(qs', s'). length qs' \<le> room \<and> modes_of_fam t fam (set qs') s')"
  using assms
proof (induction room mode pr qs s rule: cut_new.induct)
  case (1 room mode pr qs s)
  let ?s = "\<lambda>tk rung. set_record (sn_next s) (fresh_record (sn_next s) (take tk (sn_queue s)) rung)
          (s\<lparr>sn_queue := drop tk (sn_queue s), sn_next := seq_after (sn_next s) 1\<rparr>)"
  have m: "modes_of_fam t fam (set (qs @ [sn_next s])) (?s tk (case pr of None \<Rightarrow> mode | Some p \<Rightarrow> p))" for tk
    using 1(2-4) by (auto simp: modes_of_fam_def set_record_def fresh_record_def split: option.split)
  show ?case
    by (subst cut_new.simps, simp only: yl Let_def, intro conjI impI)
      (rule yieldsI, rule yieldsI, rule 1(1), use 1(2-5) m in auto)
qed

lemma measurement_fits:
  assumes "sn_timing s = t" shows "yields (measurement room_s s)
    (\<lambda>(fs, s'). \<exists>fam. fits_in t fam (room_for (sn_config s) room_s (frame_s t fam)) fs)"
proof -
  have "fits_in t (pt_is_floor t mode) (length xs + k) (fold (send_measure mode c count s1) xs fs)"
    if "fits_in t (pt_is_floor t mode) k fs" for mode c count s1 xs fs k
    using that
  proof (induction xs arbitrary: fs k)
    case (Cons x xs)
    have "fits_in t (pt_is_floor t mode) (Suc k) (send_measure mode c count s1 x fs)"
      using Cons.prems by (auto simp: send_measure_def Let_def fits_in_def split: sum.split)
    from Cons.IH [OF this] show ?case by simp
  qed simp
  from this [of _ 0 "[]" "[0..<n]" for n]
  have f: "fits_in t (pt_is_floor t mode) n (fold (send_measure mode c count s1) [0..<n] [])" for mode c count s1 n
    by simp
  show ?thesis
  proof (cases "sn_measure_ask s")
    case (Some a)
    obtain mode0 asked where a: "sn_measure_ask s = Some (mode0, asked)" using Some by (cases a) auto
    define mode where "mode = min mode0 (rung_cap (sn_config s))"
    define n where "n = min (min asked MAX_DATA) (room_for (sn_config s) room_s (frame_s t (pt_is_floor t mode)))"
    have "fits_in t (pt_is_floor t mode) (room_for (sn_config s) room_s (frame_s t (pt_is_floor t mode)))
        (fold (send_measure mode c n s1) [0..<n] [])" for c s1
      by (rule fits_mono [OF f]) (simp add: n_def)
    then show ?thesis
      unfolding measurement_def a option.case prod.case Let_def assms mode_def [symmetric] n_def [symmetric]
      by (subst yields_if, intro conjI impI, simp, intro yields_bindI [OF yields_True]) (subst yields_basic, auto)
  qed (simp add: measurement_def)
qed

lemma lay_out_fits:
  assumes "modes_of_fam t fam (set qs) s" "\<And>p. pr = Some p \<Longrightarrow> pt_is_floor t p = pt_is_floor t mode"
  shows "yields (lay_out mode pr fam room qs s) (\<lambda>(fs, s'). fits_in t fam room fs)"
proof -
  have t: "sn_timing s = t" using assms(1) by (simp add: modes_of_fam_def)
  have sub: "modes_of_fam t fam (set xs) s" if "set xs \<subseteq> set qs" for xs
    using assms(1) that by (auto simp: modes_of_fam_def)
  have p: "yields (piece_frames (filter P qs) room s) (\<lambda>(fs, s'). fits_in t fam room fs)" for P
    by (rule piece_frames_fits) (rule sub, auto)
  have c: "yields (if fam = pt_is_floor t mode \<and> b then cut_new room mode pr (take room qs) s else Some (take room qs, s))
      (\<lambda>(qs', s'). length qs' \<le> room \<and> modes_of_fam t fam (set qs') s')" for b
    using assms(2) sub [of "take room qs"] set_take_subset [of room qs] by (auto intro!: cut_new_fits)
  have b: "yields (send_blocks qs' s') (\<lambda>(fs, s'). fits_in t fam room fs)"
    if "length qs' \<le> room" "modes_of_fam t fam (set qs') s'" for qs' s'
    by (rule yields_mono [OF send_blocks_fits [OF that(2)]]) (use that(1) in \<open>auto intro: fits_mono\<close>)
  show ?thesis
    unfolding lay_out_def Let_def t
    by (subst yields_if) (intro conjI impI, rule p, rule yields_bindI, rule c, auto simp: b)
qed

lemma burst_plan_family:
  "burst_plan mode0 s = (mode, pr, across) \<Longrightarrow> pr = Some p \<Longrightarrow> pt_is_floor (sn_timing s) p = pt_is_floor (sn_timing s) mode"
  by (auto simp: burst_plan_def split: option.splits if_splits)

lemma data_frames_fits:
  "yields (data_frames room_s s)
    (\<lambda>(fs, s'). \<exists>fam. fits_in (sn_timing s) fam (room_for (sn_config s) room_s (frame_s (sn_timing s) fam)) fs)"
proof -
  let ?t = "sn_timing s"
  let ?P = "\<lambda>(fs, s'). \<exists>fam. fits_in ?t fam (room_for (sn_config s) room_s (frame_s ?t fam)) fs"
  have r: "yields (for_each (restrand chosen asked) qs s) (\<lambda>s1. tx_static s1 = tx_static s)" for chosen asked qs
  proof (rule yields_for_each)
    fix x and s1 :: sender
    assume "tx_static s1 = tx_static s"
    then show "yields (restrand chosen asked x s1) (\<lambda>s2. tx_static s2 = tx_static s)"
      using restrand_static [of chosen asked x s1] by simp
  qed simp
  have l: "yields (lay_out mode pr fam (room_for (sn_config s1) room_s (frame_s (sn_timing s1) fam))
      (filter (record_is (\<lambda>r. pt_is_floor (sn_timing s1) (tr_mode r) = fam) s1) qs) s1) ?P"
    if "sn_timing s1 = ?t" "sn_config s1 = sn_config s" "burst_plan mode0 s = (mode, pr, across)" for s1 fam mode0 mode pr across qs
  proof -
    have "modes_of_fam ?t fam (set (filter (record_is (\<lambda>r. pt_is_floor (sn_timing s1) (tr_mode r) = fam) s1) qs)) s1"
      using that(1) by (auto simp: modes_of_fam_def record_is_def)
    then show ?thesis
      using that(1,2) burst_plan_family [OF that(3)] by (intro yields_mono [OF lay_out_fits]) auto
  qed
  show ?thesis
    unfolding data_frames_def Let_def
    apply (subst yields_if, intro conjI impI, simp)
    apply (subst yields_if, intro conjI impI, rule measurement_fits, simp)
    apply (rule yields_bindI [OF yields_True])
    apply (subst yields_prod, intro allI impI)
    apply (subst yields_prod, intro allI impI)
    apply (rule yields_bindI [OF yields_True])
    apply (rule yields_bindI [OF r])
    apply (subst yields_if, intro conjI impI, simp)
    apply (rule l)
    apply (auto simp: tx_static_eq)
    done
qed

section \<open>The time on the air\<close>

definition asked_sender :: sender where
  "asked_sender = (sender_new small_air grant_config_default (the (rate_for small_air)))\<lparr>sn_measure_ask := Some (0, 3)\<rparr>"

lemma asked_sender_sends:
  "\<exists>fs s'. data_frames (Some 2) asked_sender = Some (fs, s') \<and> sn_measure_out s' = Some (0, 2) \<and> frames_sent (sn_stats s') = 2"
proof -
  have u: "unacked asked_sender = []"
    by (simp add: unacked_def asked_sender_def sender_new_def seqs_where_def)
  have a: "sn_measure_ask asked_sender = Some (0, 3)" "sn_measure_out asked_sender = None" "sn_config asked_sender = grant_config_default"
    "sn_timing asked_sender = small_air" "frames_sent (sn_stats asked_sender) = 0"
    by (simp_all add: asked_sender_def sender_new_def stats_default_def)
  have r: "room_for grant_config_default (Some 2) 1 = 2"
    by (simp add: room_for_def whole_def burst_capacity_def MAX_DATA_def grant_config_default_def Let_def floor_eq_iff)
  have l: "frame_s small_air fam = 1" for fam by (simp add: frame_s_def small_air_def)
  have c: "capacity_of small_air 0 = Some 40" by (simp add: capacity_of_def small_air_def)
  show ?thesis
    by (simp add: data_frames_def u a measurement_def Let_def l r c MAX_DATA_def count_stat_def)
qed

text \<open>
  C12: A transmission's data fits the room it is cut for: the frames laid out, whether a measurement,
  repeats, pieces or blocks new and old, take together no longer than the room, up to the billionth of
  one frame by which the count of whole frames is rounded up.
\<close>

theorem data_frames_fit:
  assumes d: "data_frames (Some room_s) s = Some (fs, s')" and pos: "\<And>fam. 0 < frame_s (sn_timing s) fam"
  shows "\<exists>fam. sum_list (map (tx_frame_s (sn_timing s)) fs) \<le> max 0 room_s + frame_s (sn_timing s) fam / 10 ^ 9"
proof (cases "fs = []")
  case True
  then show ?thesis using pos [of True] by (intro exI [of _ True]) simp
next
  case False
  then have room: "0 < room_s" using d by (auto simp: data_frames_def split: if_splits)
  obtain fam where f: "fits_in (sn_timing s) fam (room_for (sn_config s) (Some room_s) (frame_s (sn_timing s) fam)) fs"
    using yieldsD [OF data_frames_fits d] by auto
  let ?l = "frame_s (sn_timing s) fam"
  have "map (tx_frame_s (sn_timing s)) fs = map (\<lambda>_. ?l) fs"
    using f of_fam_length by (auto simp: fits_in_def)
  then have s: "sum_list (map (tx_frame_s (sn_timing s)) fs) = real (length fs) * ?l"
    by (simp only: sum_list_triv)
  have "length fs \<le> whole (room_s / ?l)" using f by (simp add: fits_in_def room_for_def)
  then have "real (length fs) \<le> room_s / ?l + 1 / 10 ^ 9"
    using room pos [of fam] of_nat_floor [of "room_s / ?l + 1 / 10 ^ 9"] unfolding whole_def
    by (meson add_nonneg_nonneg divide_nonneg_nonneg le_less of_nat_mono order_trans zero_le_one zero_le_numeral zero_le_power)
  then have "real (length fs) * ?l \<le> (room_s / ?l + 1 / 10 ^ 9) * ?l" using pos [of fam] by (intro mult_right_mono) auto
  also have "\<dots> = room_s + ?l / 10 ^ 9" using pos [of fam] by (simp add: field_simps)
  finally show ?thesis using s room by (intro exI [of _ fam]) simp
qed

theorem data_frames_fit_witness:
  "\<exists>fs s'. data_frames (Some 2) asked_sender = Some (fs, s') \<and> sn_measure_out s' = Some (0, 2) \<and>
     sum_list (map (tx_frame_s small_air) fs) \<le> 2 + 1 / 10 ^ 9"
proof -
  obtain fs s' where d: "data_frames (Some 2) asked_sender = Some (fs, s')" and m: "sn_measure_out s' = Some (0, 2)"
    using asked_sender_sends by (elim exE conjE)
  have t: "sn_timing asked_sender = small_air" by (simp add: asked_sender_def sender_new_def)
  have l: "frame_s small_air fam = 1" for fam by (simp add: frame_s_def small_air_def)
  have "\<exists>fam. sum_list (map (tx_frame_s (sn_timing asked_sender)) fs) \<le> max 0 2 + frame_s (sn_timing asked_sender) fam / 10 ^ 9"
    by (rule data_frames_fit [OF d]) (simp add: t l)
  then show ?thesis using d m by (simp add: t l)
qed

end
