(* ===== verification/Occupancy.thy ===== *)
theory Occupancy
  imports Prelude
begin

text \<open>
  What each transmission occupies: \<open>core/aetherd/src/regulatory/occupancy.rs\<close> and the measured table
  \<open>core/aetherd/data/occupancy.json\<close> it reads.  \<open>parse\<close> is modelled from the parsed file on, a map
  by name in the order of the names; the JSON reader is a library's.
\<close>

section \<open>Edges\<close>

datatype reading = PowerReading | SpectralReading | WiderReading

record edges =
  ed_power :: "f64 \<times> f64"
  ed_spectral :: "f64 \<times> f64"

definition edges_tone :: "f64 \<Rightarrow> f64 \<Rightarrow> edges" where
  "edges_tone centre half_width =
     (let e = (centre - half_width, centre + half_width) in \<lparr>ed_power = e, ed_spectral = e\<rparr>)"

definition shifted :: "f64 \<Rightarrow> edges \<Rightarrow> edges" where
  "shifted by e =
     \<lparr>ed_power = (fst (ed_power e) + by, snd (ed_power e) + by),
      ed_spectral = (fst (ed_spectral e) + by, snd (ed_spectral e) + by)\<rparr>"

definition edges_range :: "reading \<Rightarrow> edges \<Rightarrow> f64 \<times> f64" where
  "edges_range rd e = (case rd of
       PowerReading \<Rightarrow> (fst (ed_power e), snd (ed_power e))
     | SpectralReading \<Rightarrow> (fst (ed_spectral e), snd (ed_spectral e))
     | WiderReading \<Rightarrow> (min (fst (ed_power e)) (fst (ed_spectral e)), max (snd (ed_power e)) (snd (ed_spectral e))))"

definition edges_union :: "edges \<Rightarrow> edges \<Rightarrow> edges" where
  "edges_union a b =
     \<lparr>ed_power = (min (fst (ed_power a)) (fst (ed_power b)), max (snd (ed_power a)) (snd (ed_power b))),
      ed_spectral = (min (fst (ed_spectral a)) (fst (ed_spectral b)), max (snd (ed_spectral a)) (snd (ed_spectral b)))\<rparr>"

definition CW_HALF_WIDTH_HZ :: f64 where "CW_HALF_WIDTH_HZ = 100"
definition TONE_HALF_WIDTH_HZ :: f64 where "TONE_HALF_WIDTH_HZ = 25"

text \<open>Under every reading, a union covers both of its edges.\<close>

definition covers :: "reading \<Rightarrow> edges \<Rightarrow> edges \<Rightarrow> bool" where
  "covers rd e e' \<longleftrightarrow> fst (edges_range rd e) \<le> fst (edges_range rd e') \<and> snd (edges_range rd e') \<le> snd (edges_range rd e)"

lemma covers_union: "covers rd (edges_union a b) a" "covers rd (edges_union a b) b"
  unfolding covers_def edges_range_def edges_union_def by (cases rd; auto)+

lemma covers_refl [simp]: "covers rd e e"
  by (simp add: covers_def)

lemma covers_trans: "covers rd a b \<Longrightarrow> covers rd b c \<Longrightarrow> covers rd a c"
  by (auto simp: covers_def)

section \<open>Airs\<close>

record rung_occupancy =
  ro_name :: string
  ro_tone :: bool
  ro_edges :: edges

record air_occupancy =
  ao_bandwidth_hz :: nat
  ao_centre_hz :: f64
  ao_rungs :: "rung_occupancy list"
  ao_control_ordinary :: edges
  ao_control_floor :: edges

definition air_rung :: "nat \<Rightarrow> air_occupancy \<Rightarrow> edges option" where
  "air_rung i a = (if i < length (ao_rungs a) then Some (ro_edges (ao_rungs a ! i)) else None)"

definition air_control :: "bool \<Rightarrow> air_occupancy \<Rightarrow> edges" where
  "air_control fl a = (if fl then ao_control_floor a else ao_control_ordinary a)"

section \<open>The file\<close>

record rung_file =
  rf_rung :: nat
  rf_name :: string
  rf_family :: string
  rf_power :: "f64 \<times> f64"
  rf_spectral :: "f64 \<times> f64"

record air_file =
  af_centre :: f64
  af_rungs :: "rung_file list"
  af_ordinary :: "(f64 \<times> f64) \<times> (f64 \<times> f64)"
  af_floor :: "(f64 \<times> f64) \<times> (f64 \<times> f64)"

definition file_edges :: "f64 \<Rightarrow> (f64 \<times> f64) \<times> (f64 \<times> f64) \<Rightarrow> edges" where
  "file_edges centre e = shifted centre \<lparr>ed_power = fst e, ed_spectral = snd e\<rparr>"

text \<open>\<open>str::parse::<usize>\<close>: decimal digits, a plus sign allowed, up to \<open>2 ^ 64 - 1\<close>.\<close>

definition parse_usize :: "string \<Rightarrow> nat option" where
  "parse_usize s =
     (let ds = (case s of [] \<Rightarrow> [] | c # cs \<Rightarrow> if c = CHR ''+'' then cs else s);
          n = foldl (\<lambda>n c. 10 * n + (of_char c - 48)) 0 ds
      in if ds \<noteq> [] \<and> (\<forall>c\<in>set ds. 48 \<le> (of_char c :: nat) \<and> of_char c \<le> (57 :: nat)) \<and> n < 2 ^ 64 then Some n else None)"

definition rung_of_file :: "string \<Rightarrow> f64 \<Rightarrow> nat \<times> rung_file \<Rightarrow> string + rung_occupancy" where
  "rung_of_file air_name centre ir = (case ir of (i, r) \<Rightarrow>
     if rf_rung r \<noteq> i \<or> fst (rf_power r) \<ge> snd (rf_power r)
     then Inl (''occupancy.json: rung '' @ decimal i @ '' of the '' @ air_name @ '' Hz air'')
     else Inr \<lparr>ro_name = rf_name r, ro_tone = rf_family r = ''tone'', ro_edges = file_edges centre (rf_power r, rf_spectral r)\<rparr>)"

definition air_of_file :: "string \<times> air_file \<Rightarrow> string + air_occupancy" where
  "air_of_file nf = (case nf of (air_name, f) \<Rightarrow>
     case parse_usize air_name of
       None \<Rightarrow> Inl (''occupancy.json names an air '' @ [CHR 0x22] @ air_name @ [CHR 0x22])
     | Some hz \<Rightarrow>
         and_then (collect (map (rung_of_file air_name (af_centre f)) (enumerate 0 (af_rungs f)))) (\<lambda>rungs.
           Inr \<lparr>ao_bandwidth_hz = hz, ao_centre_hz = af_centre f, ao_rungs = rungs,
             ao_control_ordinary = file_edges (af_centre f) (af_ordinary f),
             ao_control_floor = file_edges (af_centre f) (af_floor f)\<rparr>))"

definition parse_occupancy :: "(string \<times> air_file) list \<Rightarrow> string + air_occupancy list" where
  "parse_occupancy airs = collect (map air_of_file airs)"

definition AIR_2300 :: air_file where
  "AIR_2300 = \<lparr>af_centre = 1500.0, af_rungs = [
     \<lparr>rf_rung = 0, rf_name = ''tone-24'', rf_family = ''tone'', rf_power = (- 216.797, 216.797), rf_spectral = (- 275.391, 275.391)\<rparr>,
     \<lparr>rf_rung = 1, rf_name = ''tone-36'', rf_family = ''tone'', rf_power = (- 222.656, 222.656), rf_spectral = (- 275.391, 275.391)\<rparr>,
     \<lparr>rf_rung = 2, rf_name = ''tone50-51'', rf_family = ''tone'', rf_power = (- 416.016, 416.016), rf_spectral = (- 550.781, 550.781)\<rparr>,
     \<lparr>rf_rung = 3, rf_name = ''tone50-75'', rf_family = ''tone'', rf_power = (- 416.016, 410.156), rf_spectral = (- 556.641, 550.781)\<rparr>,
     \<lparr>rf_rung = 4, rf_name = ''tone100-105'', rf_family = ''tone'', rf_power = (- 826.172, 837.891), rf_spectral = (- 1107.422, 1113.281)\<rparr>,
     \<lparr>rf_rung = 5, rf_name = ''tone100-153'', rf_family = ''tone'', rf_power = (- 826.172, 826.172), rf_spectral = (- 1101.562, 1107.422)\<rparr>,
     \<lparr>rf_rung = 6, rf_name = ''BPSK-1/5'', rf_family = ''ofdm'', rf_power = (- 1160.156, 1154.297), rf_spectral = (- 1259.766, 1259.766)\<rparr>,
     \<lparr>rf_rung = 7, rf_name = ''BPSK-1/3'', rf_family = ''ofdm'', rf_power = (- 1160.156, 1160.156), rf_spectral = (- 1259.766, 1259.766)\<rparr>,
     \<lparr>rf_rung = 8, rf_name = ''BPSK-1/2'', rf_family = ''ofdm'', rf_power = (- 1160.156, 1160.156), rf_spectral = (- 1259.766, 1259.766)\<rparr>,
     \<lparr>rf_rung = 9, rf_name = ''QPSK-1/3'', rf_family = ''ofdm'', rf_power = (- 1166.016, 1154.297), rf_spectral = (- 1259.766, 1253.906)\<rparr>,
     \<lparr>rf_rung = 10, rf_name = ''QPSK-1/2'', rf_family = ''ofdm'', rf_power = (- 1160.156, 1154.297), rf_spectral = (- 1259.766, 1253.906)\<rparr>,
     \<lparr>rf_rung = 11, rf_name = ''QPSK-2/3'', rf_family = ''ofdm'', rf_power = (- 1160.156, 1154.297), rf_spectral = (- 1259.766, 1259.766)\<rparr>,
     \<lparr>rf_rung = 12, rf_name = ''PSK8-1/2'', rf_family = ''ofdm'', rf_power = (- 1160.156, 1154.297), rf_spectral = (- 1259.766, 1253.906)\<rparr>,
     \<lparr>rf_rung = 13, rf_name = ''PSK8-2/3'', rf_family = ''ofdm'', rf_power = (- 1160.156, 1160.156), rf_spectral = (- 1259.766, 1259.766)\<rparr>,
     \<lparr>rf_rung = 14, rf_name = ''QAM16-1/2'', rf_family = ''ofdm'', rf_power = (- 1160.156, 1142.578), rf_spectral = (- 1259.766, 1236.328)\<rparr>,
     \<lparr>rf_rung = 15, rf_name = ''QAM16-2/3'', rf_family = ''ofdm'', rf_power = (- 1160.156, 1154.297), rf_spectral = (- 1259.766, 1253.906)\<rparr>,
     \<lparr>rf_rung = 16, rf_name = ''QAM16-3/4'', rf_family = ''ofdm'', rf_power = (- 1160.156, 1148.438), rf_spectral = (- 1259.766, 1236.328)\<rparr>,
     \<lparr>rf_rung = 17, rf_name = ''QAM64-2/3'', rf_family = ''ofdm'', rf_power = (- 1160.156, 1154.297), rf_spectral = (- 1259.766, 1242.188)\<rparr>,
     \<lparr>rf_rung = 18, rf_name = ''QAM64-3/4'', rf_family = ''ofdm'', rf_power = (- 1160.156, 1142.578), rf_spectral = (- 1259.766, 1236.328)\<rparr>,
     \<lparr>rf_rung = 19, rf_name = ''QAM64-5/6'', rf_family = ''ofdm'', rf_power = (- 1160.156, 1148.438), rf_spectral = (- 1259.766, 1236.328)\<rparr>],
     af_ordinary = ((- 1160.156, 1160.156), (- 1259.766, 1259.766)),
     af_floor = ((- 210.938, 222.656), (- 275.391, 281.25))\<rparr>"

definition AIR_500 :: air_file where
  "AIR_500 = \<lparr>af_centre = 1500.0, af_rungs = [
     \<lparr>rf_rung = 0, rf_name = ''tone-24'', rf_family = ''tone'', rf_power = (- 216.797, 216.797), rf_spectral = (- 275.391, 275.391)\<rparr>,
     \<lparr>rf_rung = 1, rf_name = ''tone-36'', rf_family = ''tone'', rf_power = (- 222.656, 216.797), rf_spectral = (- 275.391, 275.391)\<rparr>,
     \<lparr>rf_rung = 2, rf_name = ''tone4x100-51'', rf_family = ''tone'', rf_power = (- 222.656, 222.656), rf_spectral = (- 304.688, 304.688)\<rparr>,
     \<lparr>rf_rung = 3, rf_name = ''tone4x100-75'', rf_family = ''tone'', rf_power = (- 222.656, 222.656), rf_spectral = (- 304.688, 304.688)\<rparr>,
     \<lparr>rf_rung = 4, rf_name = ''tone4x100-93'', rf_family = ''tone'', rf_power = (- 222.656, 222.656), rf_spectral = (- 310.547, 304.688)\<rparr>,
     \<lparr>rf_rung = 5, rf_name = ''QPSK-1/2'', rf_family = ''ofdm'', rf_power = (- 298.828, 275.391), rf_spectral = (- 357.422, 345.703)\<rparr>,
     \<lparr>rf_rung = 6, rf_name = ''QPSK-2/3'', rf_family = ''ofdm'', rf_power = (- 304.688, 281.25), rf_spectral = (- 357.422, 351.562)\<rparr>,
     \<lparr>rf_rung = 7, rf_name = ''PSK8-1/2'', rf_family = ''ofdm'', rf_power = (- 304.688, 281.25), rf_spectral = (- 357.422, 357.422)\<rparr>,
     \<lparr>rf_rung = 8, rf_name = ''PSK8-2/3'', rf_family = ''ofdm'', rf_power = (- 298.828, 275.391), rf_spectral = (- 357.422, 357.422)\<rparr>,
     \<lparr>rf_rung = 9, rf_name = ''QAM16-1/2'', rf_family = ''ofdm'', rf_power = (- 292.969, 269.531), rf_spectral = (- 357.422, 339.844)\<rparr>,
     \<lparr>rf_rung = 10, rf_name = ''QAM16-2/3'', rf_family = ''ofdm'', rf_power = (- 298.828, 269.531), rf_spectral = (- 357.422, 339.844)\<rparr>,
     \<lparr>rf_rung = 11, rf_name = ''QAM16-3/4'', rf_family = ''ofdm'', rf_power = (- 298.828, 269.531), rf_spectral = (- 357.422, 339.844)\<rparr>,
     \<lparr>rf_rung = 12, rf_name = ''QAM64-2/3'', rf_family = ''ofdm'', rf_power = (- 298.828, 275.391), rf_spectral = (- 357.422, 339.844)\<rparr>,
     \<lparr>rf_rung = 13, rf_name = ''QAM64-3/4'', rf_family = ''ofdm'', rf_power = (- 298.828, 269.531), rf_spectral = (- 357.422, 339.844)\<rparr>,
     \<lparr>rf_rung = 14, rf_name = ''QAM64-5/6'', rf_family = ''ofdm'', rf_power = (- 292.969, 263.672), rf_spectral = (- 357.422, 339.844)\<rparr>],
     af_ordinary = ((- 298.828, 269.531), (- 351.562, 339.844)),
     af_floor = ((- 216.797, 222.656), (- 275.391, 281.25))\<rparr>"

text \<open>The file's airs, in the order of their names.\<close>

definition OCCUPANCY_FILE :: "(string \<times> air_file) list" where
  "OCCUPANCY_FILE = [(''2300'', AIR_2300), (''500'', AIR_500)]"

definition air :: "nat \<Rightarrow> string + air_occupancy" where
  "air hz = and_then (parse_occupancy OCCUPANCY_FILE) (\<lambda>airs.
     case List.find (\<lambda>a. ao_bandwidth_hz a = hz) airs of
       None \<Rightarrow> Inl (''no occupancy is measured for the '' @ decimal hz @ '' Hz air'')
     | Some a \<Rightarrow> Inr a)"

end
