(* ===== verification/Regulatory_Profile.thy ===== *)
theory Regulatory_Profile
  imports Occupancy
begin

text \<open>
  A regulatory profile, \<open>core/aetherd/src/regulatory/profile.rs\<close>: one administration's rules as data, and
  the United States' of \<open>core/aetherd/data/regulatory/us-fcc-part97.json\<close>.  Every number of the ideal
  arithmetic is finite; the JSON reader is a library's, so \<open>load\<close> starts from the parsed profile.
\<close>

section \<open>Ranges\<close>

record range =
  rg_low :: f64
  rg_high :: f64

definition holds :: "range \<Rightarrow> f64 \<Rightarrow> f64 \<Rightarrow> bool" where
  "holds r low high \<longleftrightarrow> low \<ge> rg_low r \<and> high \<le> rg_high r"

definition overlaps :: "range \<Rightarrow> f64 \<Rightarrow> f64 \<Rightarrow> bool" where
  "overlaps r low high \<longleftrightarrow> low \<le> rg_high r \<and> high \<ge> rg_low r"

text \<open>Hertz as kilohertz with no more decimals than it needs.\<close>

definition khz :: "f64 \<Rightarrow> string" where
  "khz hz =
     (let k = hz / 1000
      in if \<bar>k - of_int (round_away k)\<bar> < 1 / 10 ^ 6 then fixed_str 0 k
         else if \<bar>k * 10 - of_int (round_away (k * 10))\<bar> < 1 / 10 ^ 6 then fixed_str 1 k
         else fixed_str 3 k)"

definition range_khz :: "range \<Rightarrow> string" where
  "range_khz r = khz (rg_low r) @ en_dash @ khz (rg_high r) @ '' kHz''"

section \<open>The tables\<close>

record band =
  bd_name :: string
  bd_range :: range

record data_limit =
  dl_max_hz :: f64
  dl_rule :: string

record segment =
  sg_band :: string
  sg_range :: range
  sg_rule :: string
  sg_max_hz :: "f64 option"
  sg_bandwidth_rule :: "string option"

definition segment_limit :: "segment \<Rightarrow> data_limit \<Rightarrow> f64 \<times> string" where
  "segment_limit sg general = (case sg_max_hz sg of
       Some mx \<Rightarrow> (mx, case sg_bandwidth_rule sg of None \<Rightarrow> dl_rule general | Some r \<Rightarrow> r)
     | None \<Rightarrow> (dl_max_hz general, dl_rule general))"

record privilege =
  pv_range :: range
  pv_emissions :: "string list option"
  pv_rule :: "string option"

definition pv_allows :: "privilege \<Rightarrow> string \<Rightarrow> bool" where
  "pv_allows p emission \<longleftrightarrow> (case pv_emissions p of None \<Rightarrow> True | Some xs \<Rightarrow> emission \<in> set xs)"

record privileges =
  ps_extra :: "privilege list"
  ps_advanced :: "privilege list"
  ps_general :: "privilege list"
  ps_technician :: "privilege list"
  ps_novice :: "privilege list"
  ps_rule :: string

text \<open>A channel is its centre frequency.\<close>

record channels =
  ch_band :: string
  ch_rule :: string
  ch_width_hz :: f64
  ch_carrier_offset_hz :: f64
  ch_carrier_tolerance_hz :: f64
  ch_sideband :: string
  ch_list :: "f64 list"
  ch_why :: string

record sixty_emissions =
  sx_allowed :: "string list"
  sx_rule :: string

record excluded_band =
  ex_band :: string
  ex_rule :: string
  ex_why :: string

record elsewhere =
  ew_max_hz :: f64
  ew_requires_response :: bool
  ew_rule :: string

record automatic_control =
  ac_segments :: "range list"
  ac_segments_rule :: string
  ac_elsewhere :: "elsewhere option"
  ac_excluded :: "excluded_band list"

record power_limit =
  pl_range :: range
  pl_max_w :: f64
  pl_measure :: string
  pl_classes :: "string list option"
  pl_rule :: string

record plan_area =
  pa_range :: range
  pa_label :: string

record band_plan =
  bp_authority :: string
  bp_source :: string
  bp_as_of :: string
  bp_data :: "plan_area list"
  bp_avoid :: "plan_area list"

record bandwidth_rule =
  br_rule :: string
  br_reading :: reading
  br_why :: string

record cw_id_limit =
  cw_max_wpm :: f64
  cw_rule :: string

record profile =
  pf_id :: string
  pf_name :: string
  pf_country :: string
  pf_authority :: string
  pf_rules_as_of :: string
  pf_last_amended :: string
  pf_source :: string
  pf_itu_region :: u8
  pf_notes :: "string list"
  pf_bandwidth :: bandwidth_rule
  pf_data :: data_limit
  pf_cw_id :: "cw_id_limit option"
  pf_bands :: "band list"
  pf_data_segments :: "segment list"
  pf_channels :: "channels option"
  pf_sixty :: "sixty_emissions option"
  pf_privileges :: privileges
  pf_automatic :: automatic_control
  pf_power :: "power_limit list"
  pf_band_plan :: "band_plan option"

section \<open>What holds together\<close>

text \<open>Every class's list, in the order of the classes' names.\<close>

definition all_privileges :: "privileges \<Rightarrow> (string \<times> privilege list) list" where
  "all_privileges p = [(''advanced'', ps_advanced p), (''extra'', ps_extra p), (''general'', ps_general p),
     (''novice'', ps_novice p), (''technician'', ps_technician p)]"

definition all_ranges :: "profile \<Rightarrow> (string \<times> range) list" where
  "all_ranges p =
     map (\<lambda>b. (''band'', bd_range b)) (pf_bands p) @ map (\<lambda>s. (''data segment'', sg_range s)) (pf_data_segments p) @
     map (\<lambda>r. (''automatic segment'', r)) (ac_segments (pf_automatic p)) @
     concat (map (\<lambda>xs. map (\<lambda>q. (''privilege'', pv_range q)) (snd xs)) (all_privileges (pf_privileges p)))"

definition profile_check :: "profile \<Rightarrow> string + unit" where
  "profile_check p =
     (let the_profile = ''the '' @ pf_id p @ '' profile''
      in case List.find (\<lambda>(what, r). \<not> rg_low r < rg_high r) (all_ranges p) of
           Some (what, r) \<Rightarrow> Inl (the_profile @ '' has a '' @ what @ '' of '' @ range_khz r)
         | None \<Rightarrow>
             if pf_bands p = [] \<or> pf_data_segments p = [] then Inl (the_profile @ '' names no bands or no data segments'')
             else case List.find (\<lambda>s. \<not> (\<exists>b\<in>set (pf_bands p). holds (bd_range b) (rg_low (sg_range s)) (rg_high (sg_range s))))
                         (pf_data_segments p) of
               Some s \<Rightarrow> Inl (the_profile @ [CHR 0x27] @ ''s data segment '' @ range_khz (sg_range s) @ '' is in no band'')
             | None \<Rightarrow>
                 if \<exists>s\<in>set (pf_data_segments p). case sg_max_hz s of None \<Rightarrow> False | Some mx \<Rightarrow> mx \<le> 0
                 then Inl (the_profile @ '' has a data segment with no bandwidth limit'')
                 else if dl_max_hz (pf_data p) \<le> 0 then Inl (the_profile @ '' has no data bandwidth limit'')
                 else Inr ())"

definition band_holding :: "profile \<Rightarrow> f64 \<Rightarrow> f64 \<Rightarrow> band option" where
  "band_holding p low high = List.find (\<lambda>b. holds (bd_range b) low high) (pf_bands p)"

definition band_touching :: "profile \<Rightarrow> f64 \<Rightarrow> f64 \<Rightarrow> band option" where
  "band_touching p low high = List.find (\<lambda>b. overlaps (bd_range b) low high) (pf_bands p)"

section \<open>The United States\<close>

definition US_BANDS :: "band list" where
  "US_BANDS = [\<lparr>bd_name = ''160 m'', bd_range = \<lparr>rg_low = 1800000, rg_high = 2000000\<rparr>\<rparr>,
     \<lparr>bd_name = ''80 m'', bd_range = \<lparr>rg_low = 3500000, rg_high = 4000000\<rparr>\<rparr>,
     \<lparr>bd_name = ''60 m'', bd_range = \<lparr>rg_low = 5330500, rg_high = 5406400\<rparr>\<rparr>,
     \<lparr>bd_name = ''40 m'', bd_range = \<lparr>rg_low = 7000000, rg_high = 7300000\<rparr>\<rparr>,
     \<lparr>bd_name = ''30 m'', bd_range = \<lparr>rg_low = 10100000, rg_high = 10150000\<rparr>\<rparr>,
     \<lparr>bd_name = ''20 m'', bd_range = \<lparr>rg_low = 14000000, rg_high = 14350000\<rparr>\<rparr>,
     \<lparr>bd_name = ''17 m'', bd_range = \<lparr>rg_low = 18068000, rg_high = 18168000\<rparr>\<rparr>,
     \<lparr>bd_name = ''15 m'', bd_range = \<lparr>rg_low = 21000000, rg_high = 21450000\<rparr>\<rparr>,
     \<lparr>bd_name = ''12 m'', bd_range = \<lparr>rg_low = 24890000, rg_high = 24990000\<rparr>\<rparr>,
     \<lparr>bd_name = ''10 m'', bd_range = \<lparr>rg_low = 28000000, rg_high = 29700000\<rparr>\<rparr>,
     \<lparr>bd_name = ''6 m'', bd_range = \<lparr>rg_low = 50000000, rg_high = 54000000\<rparr>\<rparr>]"

definition US_DATA_SEGMENTS :: "segment list" where
  "US_DATA_SEGMENTS = [\<lparr>sg_band = ''160 m'', sg_range = \<lparr>rg_low = 1800000, rg_high = 2000000\<rparr>, sg_rule = section_sign @ ''97.305(c)(2)(iii)'',
       sg_max_hz = None, sg_bandwidth_rule = None\<rparr>,
     \<lparr>sg_band = ''80 m'', sg_range = \<lparr>rg_low = 3500000, rg_high = 3600000\<rparr>, sg_rule = section_sign @ ''97.305(c)(3)(i)'',
       sg_max_hz = None, sg_bandwidth_rule = None\<rparr>,
     \<lparr>sg_band = ''60 m'', sg_range = \<lparr>rg_low = 5351500, rg_high = 5366500\<rparr>, sg_rule = section_sign @ ''97.303(h)(3), '' @ section_sign @ ''97.305(c)(3)(iii), '' @ section_sign @ ''97.307(f)(14)'',
       sg_max_hz = None, sg_bandwidth_rule = None\<rparr>,
     \<lparr>sg_band = ''40 m'', sg_range = \<lparr>rg_low = 7000000, rg_high = 7125000\<rparr>, sg_rule = section_sign @ ''97.305(c)(3)(iv), (vi)'',
       sg_max_hz = None, sg_bandwidth_rule = None\<rparr>,
     \<lparr>sg_band = ''30 m'', sg_range = \<lparr>rg_low = 10100000, rg_high = 10150000\<rparr>, sg_rule = section_sign @ ''97.305(c)(3)(viii)'',
       sg_max_hz = None, sg_bandwidth_rule = None\<rparr>,
     \<lparr>sg_band = ''20 m'', sg_range = \<lparr>rg_low = 14000000, rg_high = 14150000\<rparr>, sg_rule = section_sign @ ''97.305(c)(3)(ix)'',
       sg_max_hz = None, sg_bandwidth_rule = None\<rparr>,
     \<lparr>sg_band = ''17 m'', sg_range = \<lparr>rg_low = 18068000, rg_high = 18110000\<rparr>, sg_rule = section_sign @ ''97.305(c)(3)(xi)'',
       sg_max_hz = None, sg_bandwidth_rule = None\<rparr>,
     \<lparr>sg_band = ''15 m'', sg_range = \<lparr>rg_low = 21000000, rg_high = 21200000\<rparr>, sg_rule = section_sign @ ''97.305(c)(3)(xiii)'',
       sg_max_hz = None, sg_bandwidth_rule = None\<rparr>,
     \<lparr>sg_band = ''12 m'', sg_range = \<lparr>rg_low = 24890000, rg_high = 24930000\<rparr>, sg_rule = section_sign @ ''97.305(c)(3)(xv)'',
       sg_max_hz = None, sg_bandwidth_rule = None\<rparr>,
     \<lparr>sg_band = ''10 m'', sg_range = \<lparr>rg_low = 28000000, rg_high = 28300000\<rparr>, sg_rule = section_sign @ ''97.305(c)(3)(xvii)'',
       sg_max_hz = None, sg_bandwidth_rule = None\<rparr>,
     \<lparr>sg_band = ''6 m'', sg_range = \<lparr>rg_low = 50100000, rg_high = 54000000\<rparr>, sg_rule = section_sign @ ''97.305(c)(4)(i), (ii)'',
       sg_max_hz = Some (2800), sg_bandwidth_rule = Some (section_sign @ ''97.307(f)(2), (5)'')\<rparr>]"

definition US_CHANNELS :: "channels" where
  "US_CHANNELS = \<lparr>ch_band = ''60 m'', ch_rule = section_sign @ ''97.303(h)(3)'', ch_width_hz = 2800, ch_carrier_offset_hz = 1500,
     ch_carrier_tolerance_hz = 10, ch_sideband = ''usb'', ch_list = [5332000, 5348000, 5373000, 5405000],
     ch_why = ''On the four discrete channels a data emission's carrier is set 1.5 kHz below the centre frequency and a CW emission's at the centre; all 60 m emissions stay within 2.8 kHz. Aether's waveform is centred 1.5 kHz above its dial on USB, so its dial goes on the carrier frequency and it lands on the centre. The carrier is accepted within 10 Hz of the prescribed frequency.''\<rparr>"

definition US_EXTRA :: "privilege list" where
  "US_EXTRA = [\<lparr>pv_range = \<lparr>rg_low = 1800000, rg_high = 2000000\<rparr>, pv_emissions = None, pv_rule = None\<rparr>,
     \<lparr>pv_range = \<lparr>rg_low = 3500000, rg_high = 4000000\<rparr>, pv_emissions = None, pv_rule = None\<rparr>,
     \<lparr>pv_range = \<lparr>rg_low = 5330500, rg_high = 5406400\<rparr>, pv_emissions = None, pv_rule = None\<rparr>,
     \<lparr>pv_range = \<lparr>rg_low = 7000000, rg_high = 7300000\<rparr>, pv_emissions = None, pv_rule = None\<rparr>,
     \<lparr>pv_range = \<lparr>rg_low = 10100000, rg_high = 10150000\<rparr>, pv_emissions = None, pv_rule = None\<rparr>,
     \<lparr>pv_range = \<lparr>rg_low = 14000000, rg_high = 14350000\<rparr>, pv_emissions = None, pv_rule = None\<rparr>,
     \<lparr>pv_range = \<lparr>rg_low = 18068000, rg_high = 18168000\<rparr>, pv_emissions = None, pv_rule = None\<rparr>,
     \<lparr>pv_range = \<lparr>rg_low = 21000000, rg_high = 21450000\<rparr>, pv_emissions = None, pv_rule = None\<rparr>,
     \<lparr>pv_range = \<lparr>rg_low = 24890000, rg_high = 24990000\<rparr>, pv_emissions = None, pv_rule = None\<rparr>,
     \<lparr>pv_range = \<lparr>rg_low = 28000000, rg_high = 29700000\<rparr>, pv_emissions = None, pv_rule = None\<rparr>,
     \<lparr>pv_range = \<lparr>rg_low = 50000000, rg_high = 54000000\<rparr>, pv_emissions = None, pv_rule = None\<rparr>]"

definition US_ADVANCED :: "privilege list" where
  "US_ADVANCED = [\<lparr>pv_range = \<lparr>rg_low = 1800000, rg_high = 2000000\<rparr>, pv_emissions = None, pv_rule = None\<rparr>,
     \<lparr>pv_range = \<lparr>rg_low = 3525000, rg_high = 3600000\<rparr>, pv_emissions = None, pv_rule = None\<rparr>,
     \<lparr>pv_range = \<lparr>rg_low = 3700000, rg_high = 4000000\<rparr>, pv_emissions = None, pv_rule = None\<rparr>,
     \<lparr>pv_range = \<lparr>rg_low = 5330500, rg_high = 5406400\<rparr>, pv_emissions = None, pv_rule = None\<rparr>,
     \<lparr>pv_range = \<lparr>rg_low = 7025000, rg_high = 7300000\<rparr>, pv_emissions = None, pv_rule = None\<rparr>,
     \<lparr>pv_range = \<lparr>rg_low = 10100000, rg_high = 10150000\<rparr>, pv_emissions = None, pv_rule = None\<rparr>,
     \<lparr>pv_range = \<lparr>rg_low = 14025000, rg_high = 14150000\<rparr>, pv_emissions = None, pv_rule = None\<rparr>,
     \<lparr>pv_range = \<lparr>rg_low = 14175000, rg_high = 14350000\<rparr>, pv_emissions = None, pv_rule = None\<rparr>,
     \<lparr>pv_range = \<lparr>rg_low = 18068000, rg_high = 18168000\<rparr>, pv_emissions = None, pv_rule = None\<rparr>,
     \<lparr>pv_range = \<lparr>rg_low = 21025000, rg_high = 21200000\<rparr>, pv_emissions = None, pv_rule = None\<rparr>,
     \<lparr>pv_range = \<lparr>rg_low = 21225000, rg_high = 21450000\<rparr>, pv_emissions = None, pv_rule = None\<rparr>,
     \<lparr>pv_range = \<lparr>rg_low = 24890000, rg_high = 24990000\<rparr>, pv_emissions = None, pv_rule = None\<rparr>,
     \<lparr>pv_range = \<lparr>rg_low = 28000000, rg_high = 29700000\<rparr>, pv_emissions = None, pv_rule = None\<rparr>,
     \<lparr>pv_range = \<lparr>rg_low = 50000000, rg_high = 54000000\<rparr>, pv_emissions = None, pv_rule = None\<rparr>]"

definition US_GENERAL :: "privilege list" where
  "US_GENERAL = [\<lparr>pv_range = \<lparr>rg_low = 1800000, rg_high = 2000000\<rparr>, pv_emissions = None, pv_rule = None\<rparr>,
     \<lparr>pv_range = \<lparr>rg_low = 3525000, rg_high = 3600000\<rparr>, pv_emissions = None, pv_rule = None\<rparr>,
     \<lparr>pv_range = \<lparr>rg_low = 3800000, rg_high = 4000000\<rparr>, pv_emissions = None, pv_rule = None\<rparr>,
     \<lparr>pv_range = \<lparr>rg_low = 5330500, rg_high = 5406400\<rparr>, pv_emissions = None, pv_rule = None\<rparr>,
     \<lparr>pv_range = \<lparr>rg_low = 7025000, rg_high = 7125000\<rparr>, pv_emissions = None, pv_rule = None\<rparr>,
     \<lparr>pv_range = \<lparr>rg_low = 7175000, rg_high = 7300000\<rparr>, pv_emissions = None, pv_rule = None\<rparr>,
     \<lparr>pv_range = \<lparr>rg_low = 10100000, rg_high = 10150000\<rparr>, pv_emissions = None, pv_rule = None\<rparr>,
     \<lparr>pv_range = \<lparr>rg_low = 14025000, rg_high = 14150000\<rparr>, pv_emissions = None, pv_rule = None\<rparr>,
     \<lparr>pv_range = \<lparr>rg_low = 14225000, rg_high = 14350000\<rparr>, pv_emissions = None, pv_rule = None\<rparr>,
     \<lparr>pv_range = \<lparr>rg_low = 18068000, rg_high = 18168000\<rparr>, pv_emissions = None, pv_rule = None\<rparr>,
     \<lparr>pv_range = \<lparr>rg_low = 21025000, rg_high = 21200000\<rparr>, pv_emissions = None, pv_rule = None\<rparr>,
     \<lparr>pv_range = \<lparr>rg_low = 21275000, rg_high = 21450000\<rparr>, pv_emissions = None, pv_rule = None\<rparr>,
     \<lparr>pv_range = \<lparr>rg_low = 24890000, rg_high = 24990000\<rparr>, pv_emissions = None, pv_rule = None\<rparr>,
     \<lparr>pv_range = \<lparr>rg_low = 28000000, rg_high = 29700000\<rparr>, pv_emissions = None, pv_rule = None\<rparr>,
     \<lparr>pv_range = \<lparr>rg_low = 50000000, rg_high = 54000000\<rparr>, pv_emissions = None, pv_rule = None\<rparr>]"

definition US_TECHNICIAN :: "privilege list" where
  "US_TECHNICIAN = [\<lparr>pv_range = \<lparr>rg_low = 3525000, rg_high = 3600000\<rparr>, pv_emissions = Some ([''cw'']), pv_rule = Some (section_sign @ ''97.307(f)(9)'')\<rparr>,
     \<lparr>pv_range = \<lparr>rg_low = 7025000, rg_high = 7125000\<rparr>, pv_emissions = Some ([''cw'']), pv_rule = Some (section_sign @ ''97.307(f)(9)'')\<rparr>,
     \<lparr>pv_range = \<lparr>rg_low = 21025000, rg_high = 21200000\<rparr>, pv_emissions = Some ([''cw'']), pv_rule = Some (section_sign @ ''97.307(f)(9)'')\<rparr>,
     \<lparr>pv_range = \<lparr>rg_low = 28000000, rg_high = 28300000\<rparr>, pv_emissions = Some ([''cw'', ''rtty'', ''data'']), pv_rule = Some (section_sign @ ''97.305(c)(3)(xvii)'')\<rparr>,
     \<lparr>pv_range = \<lparr>rg_low = 28300000, rg_high = 28500000\<rparr>, pv_emissions = Some ([''cw'', ''phone'']), pv_rule = Some (section_sign @ ''97.307(f)(10)'')\<rparr>,
     \<lparr>pv_range = \<lparr>rg_low = 50000000, rg_high = 54000000\<rparr>, pv_emissions = None, pv_rule = Some (section_sign @ ''97.301(a)'')\<rparr>]"

definition US_NOVICE :: "privilege list" where
  "US_NOVICE = [\<lparr>pv_range = \<lparr>rg_low = 3525000, rg_high = 3600000\<rparr>, pv_emissions = Some ([''cw'']), pv_rule = Some (section_sign @ ''97.307(f)(9)'')\<rparr>,
     \<lparr>pv_range = \<lparr>rg_low = 7025000, rg_high = 7125000\<rparr>, pv_emissions = Some ([''cw'']), pv_rule = Some (section_sign @ ''97.307(f)(9)'')\<rparr>,
     \<lparr>pv_range = \<lparr>rg_low = 21025000, rg_high = 21200000\<rparr>, pv_emissions = Some ([''cw'']), pv_rule = Some (section_sign @ ''97.307(f)(9)'')\<rparr>,
     \<lparr>pv_range = \<lparr>rg_low = 28000000, rg_high = 28300000\<rparr>, pv_emissions = Some ([''cw'', ''rtty'', ''data'']), pv_rule = Some (section_sign @ ''97.305(c)(3)(xvii)'')\<rparr>,
     \<lparr>pv_range = \<lparr>rg_low = 28300000, rg_high = 28500000\<rparr>, pv_emissions = Some ([''cw'', ''phone'']), pv_rule = Some (section_sign @ ''97.307(f)(10)'')\<rparr>]"

definition US_PRIVILEGES :: "privileges" where
  "US_PRIVILEGES = \<lparr>ps_extra = US_EXTRA, ps_advanced = US_ADVANCED, ps_general = US_GENERAL,
     ps_technician = US_TECHNICIAN, ps_novice = US_NOVICE, ps_rule = section_sign @ ''97.301(a)-(e)''\<rparr>"

definition US_AUTOMATIC :: "automatic_control" where
  "US_AUTOMATIC = \<lparr>ac_segments = [\<lparr>rg_low = 3585000, rg_high = 3600000\<rparr>,
     \<lparr>rg_low = 7100000, rg_high = 7105000\<rparr>,
     \<lparr>rg_low = 10140000, rg_high = 10150000\<rparr>,
     \<lparr>rg_low = 14095000, rg_high = 14099500\<rparr>,
     \<lparr>rg_low = 14100500, rg_high = 14112000\<rparr>,
     \<lparr>rg_low = 18105000, rg_high = 18110000\<rparr>,
     \<lparr>rg_low = 21090000, rg_high = 21100000\<rparr>,
     \<lparr>rg_low = 24925000, rg_high = 24930000\<rparr>,
     \<lparr>rg_low = 28120000, rg_high = 28189000\<rparr>,
     \<lparr>rg_low = 50000000, rg_high = 54000000\<rparr>],
     ac_segments_rule = section_sign @ ''97.221(b)'',
     ac_elsewhere = Some \<lparr>ew_max_hz = 500, ew_requires_response = True, ew_rule = section_sign @ ''97.221(c)''\<rparr>,
     ac_excluded = [\<lparr>ex_band = ''60 m'', ex_rule = section_sign @ ''97.221(c)'',
       ex_why = section_sign @ ''97.221(c) excepts the 60 m channels of '' @ section_sign @ ''97.303(h) from automatic control, and whether it reaches the 5351.5-5366.5 kHz segment as well is not clear; Aether does not operate automatically anywhere on 60 m.''\<rparr>]\<rparr>"

definition US_POWER :: "power_limit list" where
  "US_POWER = [\<lparr>pl_range = \<lparr>rg_low = 10100000, rg_high = 10150000\<rparr>, pl_max_w = 200, pl_measure = ''PEP'',
       pl_classes = None, pl_rule = section_sign @ ''97.313(c)(1)''\<rparr>,
     \<lparr>pl_range = \<lparr>rg_low = 3525000, rg_high = 3600000\<rparr>, pl_max_w = 200, pl_measure = ''PEP'',
       pl_classes = Some ([''novice'', ''technician'']), pl_rule = section_sign @ ''97.313(c)(2)''\<rparr>,
     \<lparr>pl_range = \<lparr>rg_low = 7025000, rg_high = 7125000\<rparr>, pl_max_w = 200, pl_measure = ''PEP'',
       pl_classes = Some ([''novice'', ''technician'']), pl_rule = section_sign @ ''97.313(c)(2)''\<rparr>,
     \<lparr>pl_range = \<lparr>rg_low = 21025000, rg_high = 21200000\<rparr>, pl_max_w = 200, pl_measure = ''PEP'',
       pl_classes = Some ([''novice'', ''technician'']), pl_rule = section_sign @ ''97.313(c)(2)''\<rparr>,
     \<lparr>pl_range = \<lparr>rg_low = 28000000, rg_high = 28500000\<rparr>, pl_max_w = 200, pl_measure = ''PEP'',
       pl_classes = Some ([''novice'', ''technician'']), pl_rule = section_sign @ ''97.313(c)(2)''\<rparr>,
     \<lparr>pl_range = \<lparr>rg_low = 5351500, rg_high = 5366500\<rparr>, pl_max_w = 9.15, pl_measure = ''ERP'',
       pl_classes = None, pl_rule = section_sign @ ''97.313(i)''\<rparr>,
     \<lparr>pl_range = \<lparr>rg_low = 5330500, rg_high = 5406400\<rparr>, pl_max_w = 100, pl_measure = ''ERP'',
       pl_classes = None, pl_rule = section_sign @ ''97.313(i)''\<rparr>,
     \<lparr>pl_range = \<lparr>rg_low = 1800000, rg_high = 29700000\<rparr>, pl_max_w = 1500, pl_measure = ''PEP'',
       pl_classes = None, pl_rule = section_sign @ ''97.313(b)''\<rparr>,
     \<lparr>pl_range = \<lparr>rg_low = 50000000, rg_high = 54000000\<rparr>, pl_max_w = 1500, pl_measure = ''PEP'',
       pl_classes = None, pl_rule = section_sign @ ''97.313(b)''\<rparr>]"

definition US_BAND_PLAN :: "band_plan" where
  "US_BAND_PLAN = \<lparr>bp_authority = ''ARRL band plan (voluntary)'', bp_source = ''https://www.arrl.org/band-plan'',
     bp_as_of = ''2026-09-25'', bp_data = [\<lparr>pa_range = \<lparr>rg_low = 1800000, rg_high = 1810000\<rparr>, pa_label = ''160 m digital modes''\<rparr>,
     \<lparr>pa_range = \<lparr>rg_low = 3570000, rg_high = 3600000\<rparr>, pa_label = ''80 m RTTY/data''\<rparr>,
     \<lparr>pa_range = \<lparr>rg_low = 5330500, rg_high = 5406400\<rparr>, pa_label = ''60 m: one signal at a time on a channel; the 5351.5-5366.5 kHz segment for several low-power users''\<rparr>,
     \<lparr>pa_range = \<lparr>rg_low = 7080000, rg_high = 7125000\<rparr>, pa_label = ''40 m RTTY/data''\<rparr>,
     \<lparr>pa_range = \<lparr>rg_low = 10130000, rg_high = 10150000\<rparr>, pa_label = ''30 m RTTY and packet''\<rparr>,
     \<lparr>pa_range = \<lparr>rg_low = 14070000, rg_high = 14099500\<rparr>, pa_label = ''20 m RTTY and packet''\<rparr>,
     \<lparr>pa_range = \<lparr>rg_low = 14100500, rg_high = 14112000\<rparr>, pa_label = ''20 m packet''\<rparr>,
     \<lparr>pa_range = \<lparr>rg_low = 18100000, rg_high = 18110000\<rparr>, pa_label = ''17 m RTTY and packet''\<rparr>,
     \<lparr>pa_range = \<lparr>rg_low = 21070000, rg_high = 21110000\<rparr>, pa_label = ''15 m RTTY/data''\<rparr>,
     \<lparr>pa_range = \<lparr>rg_low = 24920000, rg_high = 24930000\<rparr>, pa_label = ''12 m RTTY and packet''\<rparr>,
     \<lparr>pa_range = \<lparr>rg_low = 28070000, rg_high = 28150000\<rparr>, pa_label = ''10 m RTTY''\<rparr>,
     \<lparr>pa_range = \<lparr>rg_low = 28120000, rg_high = 28189000\<rparr>, pa_label = ''10 m automatically controlled data''\<rparr>,
     \<lparr>pa_range = \<lparr>rg_low = 50600000, rg_high = 50800000\<rparr>, pa_label = ''6 m non-voice communications''\<rparr>],
     bp_avoid = [\<lparr>pa_range = \<lparr>rg_low = 14099500, rg_high = 14100500\<rparr>, pa_label = ''the NCDXF/IARU beacons on 14.100 MHz''\<rparr>,
     \<lparr>pa_range = \<lparr>rg_low = 28200000, rg_high = 28300000\<rparr>, pa_label = ''10 m beacons''\<rparr>,
     \<lparr>pa_range = \<lparr>rg_low = 50060000, rg_high = 50080000\<rparr>, pa_label = ''the 6 m beacon sub-band''\<rparr>,
     \<lparr>pa_range = \<lparr>rg_low = 50619000, rg_high = 50621000\<rparr>, pa_label = ''the 6 m digital (packet) calling frequency, 50.62 MHz''\<rparr>,
     \<lparr>pa_range = \<lparr>rg_low = 50800000, rg_high = 51000000\<rparr>, pa_label = ''the 6 m radio remote control channels''\<rparr>]\<rparr>"

definition US_PROFILE :: "profile" where
  "US_PROFILE = \<lparr>pf_id = ''us-fcc-part97'', pf_name = ''United States '' @ em_dash @ '' FCC Part 97'', pf_country = ''US'',
     pf_authority = ''Federal Communications Commission, 47 CFR Part 97 (Amateur Radio Service)'',
     pf_rules_as_of = ''2026-09-23'', pf_last_amended = ''2026-02-13'',
     pf_source = ''https://www.ecfr.gov/current/title-47/chapter-I/subchapter-D/part-97'', pf_itu_region = 2,
     pf_notes = [''Frequencies are hertz, both ends inclusive. Every range was read from the e-CFR text of 47 CFR Part 97 current to 2026-09-23 (last amended 2026-02-13).'',
      ''The HF bands and 6 m are encoded, for a station in ITU Region 2 (the continental United States, Alaska and Hawaii). A station elsewhere is refused rather than judged against the wrong table.'',
      ''The 80 m and 75 m bands of '' @ section_sign @ ''97.301 are one band here, 3.5-4.0 MHz: a signal across 3.600 MHz is outside the data segment, not outside the band.'',
      ''6 m was read from the e-CFR text current to 2026-09-24: '' @ section_sign @ ''97.301(a) gives Technician, General, Advanced and Amateur Extra 50-54 MHz and the Novice none; '' @ section_sign @ ''97.305(c)(4)(i)-(ii) authorize RTTY and data on 50.1-54.0 MHz, 50.0-50.1 MHz being CW only; '' @ section_sign @ ''97.221(b) lets an automatically controlled station send RTTY and data anywhere on 6 m; '' @ section_sign @ ''97.313(b) is its only power limit. '' @ section_sign @ ''97.307(f)(5) authorizes 20 kHz there, and '' @ section_sign @ ''97.307(f)(2) holds a non-phone emission to the bandwidth of a communications-quality phone emission of the same modulation type '' @ em_dash @ '' single sideband, read as the 2.8 kHz the HF rules state '' @ em_dash @ '' so the narrower decides.''],
     pf_bandwidth = \<lparr>br_rule = section_sign @ ''97.3(a)(8)'', br_reading = WiderReading,
       br_why = section_sign @ ''97.3(a)(8) defines bandwidth as the width of a band outside of which the mean power is at least 26 dB below the mean power within it. Read as a ratio of powers it is the band holding all but 1/398 of the power; read as a spectral level it is where the density falls 26 dB below the mean density within the band. The two differ for Aether's narrow emissions (the tone floor: 434-445 Hz against 551-557 Hz), so the wider of the two decides.''\<rparr>,
     pf_data = \<lparr>dl_max_hz = 2800, dl_rule = section_sign @ ''97.307(f)(3)''\<rparr>, pf_cw_id = Some \<lparr>cw_max_wpm = 20, cw_rule = section_sign @ ''97.119(b)(1)''\<rparr>,
     pf_bands = US_BANDS, pf_data_segments = US_DATA_SEGMENTS, pf_channels = Some US_CHANNELS,
     pf_sixty = Some \<lparr>sx_allowed = [''data'', ''rtty'', ''phone'', ''cw''], sx_rule = section_sign @ ''97.307(f)(14)(i)''\<rparr>, pf_privileges = US_PRIVILEGES,
     pf_automatic = US_AUTOMATIC, pf_power = US_POWER, pf_band_plan = Some US_BAND_PLAN\<rparr>"

text \<open>
  \<open>{:?}\<close> of a string: quoted, with quotes, backslashes and control characters escaped; every character
  outside ASCII is taken for a printable one.
\<close>

definition debug_char :: "char \<Rightarrow> string" where
  "debug_char c =
     (let n = of_char c :: nat; low = (\<lambda>d. if d < 10 then char_of (48 + d) else char_of (87 + d))
      in if n = 34 \<or> n = 92 then [CHR 0x5C, c]
         else if n = 0 then [CHR 0x5C, CHR ''0''] else if n = 9 then [CHR 0x5C, CHR ''t'']
         else if n = 10 then [CHR 0x5C, CHR ''n''] else if n = 13 then [CHR 0x5C, CHR ''r'']
         else if n < 32 \<or> n = 127
         then [CHR 0x5C] @ ''u{'' @ (if 16 \<le> n then [low (n div 16)] else []) @ [low (n mod 16)] @ ''}''
         else [c])"

definition debug_str :: "string \<Rightarrow> string" where
  "debug_str s = [CHR 0x22] @ concat (map debug_char s) @ [CHR 0x22]"

definition load_profile :: "string \<Rightarrow> string + profile" where
  "load_profile n =
     (if n = ''us-fcc-part97'' then and_then (profile_check US_PROFILE) (\<lambda>_. Inr US_PROFILE)
      else Inl (''there is no regulatory profile called '' @ debug_str n))"

end
