(* ===== verification/Regulatory.thy ===== *)
theory Regulatory
  imports Regulatory_Profile Callsign
begin

text \<open>
  The regulatory policy, \<open>core/aetherd/src/regulatory/mod.rs\<close>: whether a transmission is lawful where it
  would go, how fast a ladder may be climbed, and where on the bands a signal fits.  The texts for the
  operator are the code's own, byte for byte; \<open>uppercase\<close> is taken of ASCII words only.
\<close>

section \<open>The station and the transmission\<close>

datatype station_control = LocalControl | RemoteControl | AutomaticControl

definition control_parse :: "string \<Rightarrow> station_control option" where
  "control_parse w =
     (if w = ''local'' then Some LocalControl else if w = ''remote'' then Some RemoteControl
      else if w = ''automatic'' then Some AutomaticControl else None)"

definition control_name :: "station_control \<Rightarrow> string" where
  "control_name c = (case c of LocalControl \<Rightarrow> ''local'' | RemoteControl \<Rightarrow> ''remote'' | AutomaticControl \<Rightarrow> ''automatic'')"

datatype license_class = Novice | Technician | General | Advanced | Extra

definition license_parse :: "string \<Rightarrow> license_class option" where
  "license_parse w =
     (if w = ''novice'' then Some Novice else if w = ''technician'' then Some Technician
      else if w = ''general'' then Some General else if w = ''advanced'' then Some Advanced
      else if w = ''extra'' then Some Extra else None)"

definition license_name :: "license_class \<Rightarrow> string" where
  "license_name l = (case l of Novice \<Rightarrow> ''novice'' | Technician \<Rightarrow> ''technician'' | General \<Rightarrow> ''general''
     | Advanced \<Rightarrow> ''advanced'' | Extra \<Rightarrow> ''extra'')"

definition license_title :: "license_class \<Rightarrow> string" where
  "license_title l = (case l of Novice \<Rightarrow> ''Novice'' | Technician \<Rightarrow> ''Technician'' | General \<Rightarrow> ''General''
     | Advanced \<Rightarrow> ''Advanced'' | Extra \<Rightarrow> ''Amateur Extra'')"

datatype sideband = Usb | Lsb

definition sideband_parse :: "string \<Rightarrow> sideband option" where
  "sideband_parse w = (if w = ''usb'' then Some Usb else if w = ''lsb'' then Some Lsb else None)"

definition sideband_name :: "sideband \<Rightarrow> string" where
  "sideband_name sb = (case sb of Usb \<Rightarrow> ''usb'' | Lsb \<Rightarrow> ''lsb'')"

datatype emission_kind = DataEmission | CwEmission | TestEmission | NoEmission

definition emission_name :: "emission_kind \<Rightarrow> string" where
  "emission_name k = (case k of DataEmission \<Rightarrow> ''data'' | CwEmission \<Rightarrow> ''cw'' | TestEmission \<Rightarrow> ''test'' | NoEmission \<Rightarrow> ''nothing'')"

datatype direction = Originate | Respond | Operator
datatype dial_source = RadioDial | DeclaredDial

record reg_settings =
  rs_profile :: string
  rs_control :: "station_control option"
  rs_license :: "license_class option"
  rs_sideband :: "sideband option"
  rs_itu_region :: u8
  rs_margin_hz :: f64
  rs_band_plan :: bool
  rs_dial_hz :: "u64 option"
  rs_log_permitted :: bool

definition settings_unchecked :: reg_settings where
  "settings_unchecked = \<lparr>rs_profile = ''none'', rs_control = Some LocalControl, rs_license = None, rs_sideband = Some Usb,
     rs_itu_region = 2, rs_margin_hz = 50, rs_band_plan = True, rs_dial_hz = None, rs_log_permitted = False\<rparr>"

record situation =
  st_dial_hz :: "f64 option"
  st_dial_source :: "dial_source option"
  st_sideband :: "sideband option"
  st_control :: "station_control option"
  st_license :: "license_class option"
  st_itu_region :: u8
  st_margin_hz :: f64
  st_band_plan :: bool
  st_power_w :: "f64 option"

record emission =
  em_what :: string
  em_kind :: emission_kind
  em_audio :: edges
  em_direction :: direction

section \<open>The decision\<close>

datatype verdict = Legal | Warning | Blocked

record decision =
  dc_verdict :: verdict
  dc_code :: string
  dc_rule :: string
  dc_summary :: string
  dc_detail :: string
  dc_what :: string
  dc_kind :: emission_kind
  dc_direction :: direction
  dc_dial_hz :: "f64 option"
  dc_dial_source :: "dial_source option"
  dc_sideband :: "sideband option"
  dc_control :: "station_control option"
  dc_license :: "license_class option"
  dc_audio_low_hz :: f64
  dc_audio_high_hz :: f64
  dc_rf_low_hz :: "f64 option"
  dc_rf_high_hz :: "f64 option"
  dc_bandwidth_hz :: f64
  dc_margin_hz :: f64
  dc_band :: "string option"
  dc_segment :: "range option"
  dc_segment_rule :: "string option"
  dc_automatic_segment :: "range option"
  dc_guidance :: "string option"
  dc_notes :: "string list"

definition dc_allowed :: "decision \<Rightarrow> bool" where
  "dc_allowed d \<longleftrightarrow> dc_verdict d \<noteq> Blocked"

text \<open>Leave to transmit: made by \<open>authorize\<close> alone.\<close>

datatype authorization = Authorization (au_decision: decision)

record rung_ceiling =
  ce_rung :: "nat option"
  ce_limit :: "decision option"

record safe_dial =
  sd_band :: string
  sd_segment :: range
  sd_rule :: string
  sd_low_hz :: f64
  sd_high_hz :: f64

datatype policy = Unset | NoProfile | Rules profile | Broken string

section \<open>Where a signal lands\<close>

definition rf_range :: "f64 \<Rightarrow> sideband \<Rightarrow> f64 \<Rightarrow> f64 \<Rightarrow> f64 \<times> f64" where
  "rf_range dial sb audio_low audio_high = (case sb of
       Usb \<Rightarrow> (dial + audio_low, dial + audio_high)
     | Lsb \<Rightarrow> (dial - audio_high, dial - audio_low))"

definition dial_range :: "range \<Rightarrow> sideband \<Rightarrow> f64 \<Rightarrow> f64 \<Rightarrow> f64 \<Rightarrow> (f64 \<times> f64) option" where
  "dial_range sg sb audio_low audio_high margin =
     (let (low, high) = (case sb of
           Usb \<Rightarrow> (rg_low sg - audio_low + margin, rg_high sg - audio_high - margin)
         | Lsb \<Rightarrow> (rg_low sg + audio_high + margin, rg_high sg + audio_low - margin))
      in if low \<le> high then Some (low, high) else None)"

definition intersect :: "range \<Rightarrow> range \<Rightarrow> range option" where
  "intersect a b =
     (let low = max (rg_low a) (rg_low b); high = min (rg_high a) (rg_high b)
      in if low < high then Some \<lparr>rg_low = low, rg_high = high\<rparr> else None)"

definition privileges_of :: "profile \<Rightarrow> license_class \<Rightarrow> privilege list" where
  "privileges_of p l = (let ps = pf_privileges p in case l of
       Extra \<Rightarrow> ps_extra ps | Advanced \<Rightarrow> ps_advanced ps | General \<Rightarrow> ps_general ps
     | Technician \<Rightarrow> ps_technician ps | Novice \<Rightarrow> ps_novice ps)"

definition channel_range :: "channels \<Rightarrow> f64 \<Rightarrow> range" where
  "channel_range ch centre = \<lparr>rg_low = centre - ch_width_hz ch / 2, rg_high = centre + ch_width_hz ch / 2\<rparr>"

section \<open>A decision being made\<close>

record draft =
  dr_what :: string
  dr_kind :: emission_kind
  dr_direction :: direction
  dr_s :: situation
  dr_audio :: "f64 \<times> f64"
  dr_rf :: "(f64 \<times> f64) option"
  dr_band :: "string option"
  dr_segment :: "(range \<times> string) option"
  dr_automatic_segment :: "range option"
  dr_notes :: "string list"

definition draft_new :: "situation \<Rightarrow> emission \<Rightarrow> reading \<Rightarrow> draft" where
  "draft_new s tx rd =
     (let audio = edges_range rd (em_audio tx)
      in \<lparr>dr_what = em_what tx, dr_kind = em_kind tx, dr_direction = em_direction tx, dr_s = s, dr_audio = audio,
          dr_rf = (case (st_dial_hz s, st_sideband s) of
              (Some dial, Some sb) \<Rightarrow> Some (rf_range dial sb (fst audio) (snd audio)) | _ \<Rightarrow> None),
          dr_band = None, dr_segment = None, dr_automatic_segment = None, dr_notes = []\<rparr>)"

definition dr_width :: "draft \<Rightarrow> f64" where
  "dr_width d = snd (dr_audio d) - fst (dr_audio d)"

definition finish_draft :: "draft \<Rightarrow> verdict \<Rightarrow> string \<Rightarrow> string \<Rightarrow> string \<Rightarrow> string \<Rightarrow> decision" where
  "finish_draft d v code rule summary detail =
     \<lparr>dc_verdict = v, dc_code = code, dc_rule = rule, dc_summary = summary, dc_detail = detail,
      dc_what = dr_what d, dc_kind = dr_kind d, dc_direction = dr_direction d,
      dc_dial_hz = st_dial_hz (dr_s d), dc_dial_source = st_dial_source (dr_s d), dc_sideband = st_sideband (dr_s d),
      dc_control = st_control (dr_s d), dc_license = st_license (dr_s d),
      dc_audio_low_hz = fst (dr_audio d), dc_audio_high_hz = snd (dr_audio d),
      dc_rf_low_hz = map_option fst (dr_rf d), dc_rf_high_hz = map_option snd (dr_rf d),
      dc_bandwidth_hz = snd (dr_audio d) - fst (dr_audio d), dc_margin_hz = st_margin_hz (dr_s d),
      dc_band = dr_band d, dc_segment = map_option fst (dr_segment d), dc_segment_rule = map_option snd (dr_segment d),
      dc_automatic_segment = dr_automatic_segment d, dc_guidance = None, dc_notes = dr_notes d\<rparr>"

definition blocked :: "draft \<Rightarrow> string \<Rightarrow> string \<Rightarrow> string \<Rightarrow> string \<Rightarrow> decision" where
  "blocked d = finish_draft d Blocked"

definition legal :: "draft \<Rightarrow> string \<Rightarrow> string \<Rightarrow> string \<Rightarrow> string \<Rightarrow> decision" where
  "legal d = finish_draft d Legal"

lemma verdict_made [simp]:
  "dc_verdict (blocked d code rule summary detail) = Blocked" "dc_verdict (legal d code rule summary detail) = Legal"
  "\<not> dc_allowed (blocked d code rule summary detail)" "dc_allowed (legal d code rule summary detail)"
  by (simp_all add: blocked_def legal_def finish_draft_def dc_allowed_def)

definition at_khz :: "f64 \<Rightarrow> string" where
  "at_khz hz = fixed_str 3 (hz / 1000) @ '' kHz''"

section \<open>What the question needs\<close>

record case_facts =
  cf_profile :: profile
  cf_s :: situation
  cf_tx :: emission
  cf_control :: station_control
  cf_license :: license_class
  cf_dial :: f64
  cf_lo :: f64
  cf_hi :: f64
  cf_glo :: f64
  cf_ghi :: f64
  cf_automatic :: bool
  cf_rf_text :: string

record missing =
  ms_code :: string
  ms_rule :: string
  ms_summary :: string
  ms_detail :: string

definition rf_text_of :: "draft \<Rightarrow> f64 \<Rightarrow> f64 \<Rightarrow> f64 \<Rightarrow> sideband \<Rightarrow> string" where
  "rf_text_of d lo hi dial sb =
     dr_what d @ '' occupies '' @ fixed_str 0 (dr_width d) @ '' Hz of audio ('' @ fixed_str 0 (fst (dr_audio d)) @ en_dash @
     fixed_str 0 (snd (dr_audio d)) @ '' Hz), so '' @ at_khz lo @ en_dash @ at_khz hi @ '' on the air with the dial at '' @
     at_khz dial @ '' ('' @ to_ascii_uppercase (sideband_name sb) @ '')''"

definition prerequisites :: "profile \<Rightarrow> situation \<Rightarrow> emission \<Rightarrow> draft \<Rightarrow> missing + case_facts" where
  "prerequisites p s tx d =
     (if st_itu_region s \<noteq> pf_itu_region p
      then Inl \<lparr>ms_code = ''region'', ms_rule = section_sign @ ''97.301'',
        ms_summary = ''TX BLOCKED: this profile does not cover your ITU region'',
        ms_detail = ''The '' @ pf_name p @ '' tables cover ITU Region '' @ decimal (unat (pf_itu_region p)) @
          '' only; this station is set to Region '' @ decimal (unat (st_itu_region s)) @ ''.''\<rparr>
      else case st_control s of
        None \<Rightarrow> Inl \<lparr>ms_code = ''no_control'', ms_rule = section_sign @ ''97.109'',
          ms_summary = ''TX BLOCKED: say how the station is controlled (Setup, step 1)'',
          ms_detail = ''Local, remote or automatic control decides which rules apply ('' @ section_sign @
            ''97.109); Aether does not guess it.''\<rparr>
      | Some control \<Rightarrow> case st_license s of
        None \<Rightarrow> Inl \<lparr>ms_code = ''no_license'', ms_rule = section_sign @ ''97.301'',
          ms_summary = ''TX BLOCKED: set your license class (Setup, step 1)'',
          ms_detail = ''The frequencies a station may use depend on the control operator's license class ('' @ section_sign @
            ''97.301); Aether does not assume one.''\<rparr>
      | Some license \<Rightarrow> case st_sideband s of
        None \<Rightarrow> Inl \<lparr>ms_code = ''no_sideband'', ms_rule = [],
          ms_summary = ''TX BLOCKED: set the sideband the radio transmits on'',
          ms_detail = ''Where the signal lands depends on whether the radio sends the modem's audio on the upper or the lower sideband.''\<rparr>
      | Some sb \<Rightarrow> case (st_dial_hz s, dr_rf d) of
        (Some dial, Some (lo, hi)) \<Rightarrow>
          Inr \<lparr>cf_profile = p, cf_s = s, cf_tx = tx, cf_control = control, cf_license = license, cf_dial = dial,
            cf_lo = lo, cf_hi = hi, cf_glo = lo - st_margin_hz s, cf_ghi = hi + st_margin_hz s,
            cf_automatic = (control = AutomaticControl \<and> em_direction tx \<noteq> Operator),
            cf_rf_text = rf_text_of d lo hi dial sb\<rparr>
      | _ \<Rightarrow> Inl \<lparr>ms_code = ''no_dial'', ms_rule = [],
          ms_summary = ''TX BLOCKED: the dial frequency is not known'',
          ms_detail = ''Aether needs the radio's dial frequency to know where the signal lands. CAT or rigctld keying reads it from the radio; with serial-line keying, enter it on the Session tab (Dial).''\<rparr>)"

end
