(* ===== verification/Regulatory_Judge.thy ===== *)
theory Regulatory_Judge
  imports Regulatory
begin

text \<open>
  The judgement of \<open>core/aetherd/src/regulatory/mod.rs\<close>: \<open>evaluate\<close> and the functions it is made of, the
  policy's \<open>authorize\<close>, the fastest lawful rung, and the dials where a signal fits.
\<close>

section \<open>Advice\<close>

definition advise_power :: "situation \<Rightarrow> license_class \<Rightarrow> f64 \<Rightarrow> f64 \<Rightarrow> power_limit \<Rightarrow> decision \<Rightarrow> decision" where
  "advise_power s license lo hi limit d =
     (let applies = overlaps (pl_range limit) lo hi \<and>
            (case pl_classes limit of None \<Rightarrow> True | Some cs \<Rightarrow> license_name license \<in> set cs)
      in case st_power_w s of
           None \<Rightarrow> d
         | Some w \<Rightarrow>
             if applies \<and> w > pl_max_w limit
             then d\<lparr>dc_verdict := Warning, dc_notes := dc_notes d @
               [''At '' @ fixed_str 0 w @ '' W: '' @
                (if pl_classes limit \<noteq> None then ''a Novice or Technician'' else ''a station'') @ '' is limited to '' @
                plain_str (pl_max_w limit) @ '' W '' @ pl_measure limit @ '' here ('' @ pl_rule limit @ '').'']\<rparr>
             else d)"

definition advise_plan :: "f64 \<Rightarrow> f64 \<Rightarrow> band_plan \<Rightarrow> decision \<Rightarrow> decision" where
  "advise_plan lo hi plan d = (case List.find (\<lambda>a. overlaps (pa_range a) lo hi) (bp_avoid plan) of
       Some avoid \<Rightarrow> d\<lparr>dc_verdict := Warning, dc_guidance :=
         Some (''Legal under Part 97, but on '' @ pa_label avoid @ '' ('' @ bp_authority plan @ '', voluntary).'')\<rparr>
     | None \<Rightarrow> (case List.find (\<lambda>a. holds (pa_range a) lo hi) (bp_data plan) of
         Some area \<Rightarrow> d\<lparr>dc_guidance :=
           Some (''Inside the band plan's '' @ pa_label area @ '' ('' @ bp_authority plan @ '').'')\<rparr>
       | None \<Rightarrow> d\<lparr>dc_verdict := Warning,
           dc_summary := ''FCC warning: legal under Part 97, but outside the customary digital band plan'',
           dc_guidance := Some (''Legal under Part 97; the '' @ bp_authority plan @
             '' puts data elsewhere on this band. It is voluntary.'')\<rparr>))"

definition advise :: "profile \<Rightarrow> situation \<Rightarrow> license_class \<Rightarrow> decision \<Rightarrow> f64 \<Rightarrow> f64 \<Rightarrow> decision" where
  "advise p s license d0 lo hi =
     (let d = fold (advise_power s license lo hi) (pf_power p) d0
      in case pf_band_plan p of
           None \<Rightarrow> d
         | Some plan \<Rightarrow> if st_band_plan s then advise_plan lo hi plan d else d)"

section \<open>Privileges\<close>

definition privilege_refusal ::
  "privilege list \<Rightarrow> license_class \<Rightarrow> f64 \<Rightarrow> f64 \<Rightarrow> string \<Rightarrow> string \<Rightarrow> (string \<times> string \<times> string) option" where
  "privilege_refusal ps license glo ghi emission rf_text =
     (case List.find (\<lambda>p. holds (pv_range p) glo ghi) ps of
        Some p \<Rightarrow>
          if pv_allows p emission then None
          else Some (section_sign @ ''97.307(f)(9)'', ''TX BLOCKED: your license class may send only CW here'',
            rf_text @ '': '' @ license_title license @ '' privileges there allow '' @
            to_ascii_uppercase (join_with '', '' (case pv_emissions p of None \<Rightarrow> [] | Some xs \<Rightarrow> xs)) @ '' only ('' @
            (case pv_rule p of None \<Rightarrow> section_sign @ ''97.301'' | Some r \<Rightarrow> r) @ '').'')
      | None \<Rightarrow> Some (section_sign @ ''97.301'', ''TX BLOCKED: outside your license class's privileges'',
          rf_text @ '': outside the '' @ license_title license @ '' privileges ('' @ section_sign @ ''97.301).''))"

section \<open>Automatic control\<close>

definition automatic_data ::
  "profile \<Rightarrow> situation \<Rightarrow> emission \<Rightarrow> draft \<Rightarrow> f64 \<Rightarrow> f64 \<Rightarrow> string \<Rightarrow> segment \<Rightarrow> decision" where
  "automatic_data p s tx d glo ghi rf_text sg =
     (let width = dr_width d;
          ac = pf_automatic p;
          advised = (\<lambda>dec. advise p s (case st_license s of None \<Rightarrow> Extra | Some l \<Rightarrow> l) dec
                             (glo + st_margin_hz s) (ghi - st_margin_hz s))
      in case List.find (\<lambda>a. holds a glo ghi) (ac_segments ac) of
           Some auto \<Rightarrow>
             advised (legal (d\<lparr>dr_automatic_segment := Some auto\<rparr>) ''automatic_segment'' (ac_segments_rule ac)
               (''FCC: automatic control '' @ em_dash @ '' permitted inside the '' @ section_sign @ ''97.221(b) segment '' @ range_khz auto)
               (rf_text @ '': inside the automatic-control segment '' @ range_khz auto @ '' ('' @ ac_segments_rule ac @
                ''), within the '' @ sg_band sg @ '' data segment ('' @ sg_rule sg @ '').''))
         | None \<Rightarrow> (case ac_elsewhere ac of
             None \<Rightarrow> blocked d ''automatic_outside'' (ac_segments_rule ac)
               ''TX BLOCKED: automatic station outside the automatic-control segments''
               (rf_text @ '': automatic control is allowed only inside the '' @ ac_segments_rule ac @ '' segments.'')
           | Some ew \<Rightarrow>
               if width > ew_max_hz ew
               then blocked d ''automatic_bandwidth'' (ew_rule ew)
                 (''TX BLOCKED: automatic station using a '' @ fixed_str 0 width @ '' Hz emission outside the '' @
                  section_sign @ ''97.221(b) segments'')
                 (rf_text @ '': outside the automatic-control segments ('' @ ac_segments_rule ac @
                  ''), an automatically controlled station may transmit only '' @ fixed_str 0 (ew_max_hz ew) @
                  '' Hz or less ('' @ ew_rule ew @ ''), and '' @ dr_what d @ '' measures '' @ fixed_str 0 width @ '' Hz.'')
               else if ew_requires_response ew \<and> em_direction tx \<noteq> Respond
               then blocked d ''automatic_originate'' (ew_rule ew)
                 (''TX BLOCKED: '' @ fixed_str 0 width @ '' Hz automatic transmission outside '' @ section_sign @
                  ''97.221(b) may only respond to a locally or remotely controlled station'')
                 (rf_text @ '': outside the automatic-control segments ('' @ ac_segments_rule ac @
                  ''), an automatically controlled station may transmit only while responding to interrogation by a station under local or remote control ('' @
                  ew_rule ew @ ''); this transmission would start an exchange.'')
               else advised (legal d ''automatic_response'' (ew_rule ew)
                 (''FCC: automatic control '' @ em_dash @ '' answering at '' @ fixed_str 0 width @ '' Hz, within '' @ section_sign @
                  ''97.221(c)'' @ [CHR 0x27] @ ''s '' @ fixed_str 0 (ew_max_hz ew) @ '' Hz'')
                 (rf_text @ '': outside the automatic-control segments, responding to interrogation with '' @
                  fixed_str 0 width @ '' Hz, no more than '' @ fixed_str 0 (ew_max_hz ew) @ '' Hz ('' @ ew_rule ew @ '').''))))"

section \<open>Data\<close>

text \<open>\<open>Iterator::min_by\<close>: the first of the least.\<close>

definition first_min :: "('a \<Rightarrow> f64) \<Rightarrow> 'a list \<Rightarrow> 'a option" where
  "first_min f xs = (case xs of [] \<Rightarrow> None | y # ys \<Rightarrow> Some (foldl (\<lambda>b x. if f x < f b then x else b) y ys))"

definition outside_segment :: "profile \<Rightarrow> draft \<Rightarrow> f64 \<Rightarrow> f64 \<Rightarrow> f64 \<Rightarrow> string \<Rightarrow> decision" where
  "outside_segment p d lo hi m rf_text =
     (case first_min (\<lambda>sg. max (rg_low (sg_range sg) - lo) 0 + max (hi - rg_high (sg_range sg)) 0)
             (filter (\<lambda>sg. overlaps (sg_range sg) (lo - m) (hi + m)) (pf_data_segments p)) of
        Some sg \<Rightarrow>
          (let below = max (rg_low (sg_range sg) - lo) 0;
               above = max (hi - rg_high (sg_range sg)) 0;
               (by, edge) = (if above \<ge> below then (above, ''upper'') else (below, ''lower''));
               (summary, detail) =
                 (if by > 0
                  then (''TX BLOCKED: signal extends '' @ fixed_str 0 by @ '' Hz beyond the FCC data segment'',
                        rf_text @ '': '' @ fixed_str 0 by @ '' Hz beyond the '' @ edge @ '' edge of the '' @ sg_band sg @
                        '' data segment '' @ range_khz (sg_range sg) @ '' ('' @ sg_rule sg @ '').'')
                  else (''TX BLOCKED: signal too close to the edge of the FCC data segment'',
                        rf_text @ '': inside the '' @ sg_band sg @ '' data segment '' @ range_khz (sg_range sg) @
                        '' but closer than the '' @ fixed_str 0 m @ '' Hz margin to its '' @ edge @ '' edge ('' @ sg_rule sg @ '').''))
           in blocked (d\<lparr>dr_segment := Some (sg_range sg, sg_rule sg)\<rparr>) ''outside_data_segment'' (sg_rule sg) summary detail)
      | None \<Rightarrow> blocked d ''no_data_here'' (section_sign @ ''97.305(c)'')
          ''TX BLOCKED: data is not authorized on this frequency''
          (rf_text @ '': RTTY and data emissions are not authorized there ('' @ section_sign @
           ''97.305(c)); the data segments are the lower parts of the bands.''))"

definition judge_data :: "case_facts \<Rightarrow> string \<Rightarrow> draft \<Rightarrow> decision" where
  "judge_data c band_name d0 =
     (let p = cf_profile c; rf_text = cf_rf_text c; width = dr_width d0;
          found = List.find (\<lambda>sg. holds (sg_range sg) (cf_glo c) (cf_ghi c)) (pf_data_segments p);
          (limit, limit_rule) = (case found of
              None \<Rightarrow> (dl_max_hz (pf_data p), dl_rule (pf_data p)) | Some sg \<Rightarrow> segment_limit sg (pf_data p))
      in if width > limit
         then blocked d0 ''too_wide'' limit_rule
           (''TX BLOCKED: the signal is wider than '' @ fixed_str 1 (limit / 1000) @ '' kHz'')
           (rf_text @ '': '' @ fixed_str 0 width @ '' Hz is wider than the '' @ fixed_str 0 limit @
            '' Hz a RTTY or data emission may occupy.'')
         else case found of
           None \<Rightarrow> outside_segment p d0 (cf_lo c) (cf_hi c) (st_margin_hz (cf_s c)) rf_text
         | Some sg \<Rightarrow>
             let d = d0\<lparr>dr_segment := Some (sg_range sg, sg_rule sg)\<rparr>
             in (case privilege_refusal (privileges_of p (cf_license c)) (cf_license c) (cf_glo c) (cf_ghi c) ''data'' rf_text of
                Some (rule, summary, detail) \<Rightarrow> blocked d ''privilege'' rule summary detail
              | None \<Rightarrow>
                  if cf_automatic c then automatic_data p (cf_s c) (cf_tx c) d (cf_glo c) (cf_ghi c) rf_text sg
                  else
                    (let control_word = (case cf_control c of LocalControl \<Rightarrow> ''local control''
                           | RemoteControl \<Rightarrow> ''remote control'' | AutomaticControl \<Rightarrow> ''an operator at the control point'')
                     in advise p (cf_s c) (cf_license c)
                       (legal d ''permitted'' (sg_rule sg)
                         (''FCC: data permitted '' @ em_dash @ '' occupies '' @ fixed_str 0 width @
                          '' Hz by the FCC's 26 dB measure, inside the '' @ band_name @ '' data segment'')
                         (rf_text @ '': inside the '' @ band_name @ '' data segment '' @ range_khz (sg_range sg) @ '' ('' @
                          sg_rule sg @ ''), within '' @ license_title (cf_license c) @ '' privileges, under '' @ control_word @ ''.''))
                       (cf_lo c) (cf_hi c))))"

section \<open>Morse, tones and keying\<close>

definition judge_other :: "case_facts \<Rightarrow> draft \<Rightarrow> decision" where
  "judge_other c d =
     (let kind = em_kind (cf_tx c);
          ps = privileges_of (cf_profile c) (cf_license c);
          refused =
            (if kind = NoEmission
             then if \<exists>p\<in>set ps. holds (pv_range p) (cf_dial c) (cf_dial c) then None
                  else Some (ps_rule (pf_privileges (cf_profile c)), ''TX BLOCKED: the dial is outside your privileges'',
                    ''The dial, '' @ at_khz (cf_dial c) @ '', is outside the '' @ license_title (cf_license c) @
                    '' privileges: the transmitter is not keyed there, even with no audio.'')
             else privilege_refusal ps (cf_license c) (cf_glo c) (cf_ghi c)
                    (if kind = CwEmission then ''cw'' else ''test'') (cf_rf_text c))
      in case refused of
           Some (rule, summary, detail) \<Rightarrow> blocked d ''privilege'' rule summary detail
         | None \<Rightarrow>
             (let (rule, summary) = (case kind of
                    CwEmission \<Rightarrow> (section_sign @ ''97.305(a)'', ''FCC: CW permitted anywhere in your privileges'')
                  | TestEmission \<Rightarrow> (section_sign @ ''97.305(b)'', ''FCC: a brief test emission, permitted in your privileges'')
                  | _ \<Rightarrow> (section_sign @ ''97.301'', ''FCC: keying only '' @ em_dash @ '' no emission''))
              in legal d ''permitted'' rule summary
                   (cf_rf_text c @ '': within '' @ license_title (cf_license c) @ '' privileges ('' @ rule @ '').'')))"

section \<open>Sixty metres\<close>

definition sixty_channel :: "case_facts \<Rightarrow> channels \<Rightarrow> f64 \<Rightarrow> draft \<Rightarrow> decision" where
  "sixty_channel c chs channel d0 =
     (let rf_text = cf_rf_text c;
          rng = channel_range chs channel;
          d = d0\<lparr>dr_segment := Some (rng, ch_rule chs)\<rparr>;
          carrier = channel - ch_carrier_offset_hz chs;
          (ok, why) =
            (if em_kind (cf_tx c) = CwEmission
             then (\<bar>(cf_lo c + cf_hi c) / 2 - channel\<bar> \<le> ch_carrier_tolerance_hz chs,
                   ''a CW emission's carrier goes on the centre frequency, '' @ at_khz channel)
             else ((case st_sideband (cf_s c) of None \<Rightarrow> False | Some sb \<Rightarrow> sideband_name sb = ch_sideband chs) \<and>
                   \<bar>cf_dial c - carrier\<bar> \<le> ch_carrier_tolerance_hz chs \<and> holds rng (cf_glo c) (cf_ghi c),
                   ''a data emission goes on '' @ to_ascii_uppercase (ch_sideband chs) @
                   '' with its carrier (the dial) at '' @ at_khz carrier @ '' and all of it inside the channel '' @ range_khz rng))
      in if \<not> ok
         then blocked d ''sixty_channel'' (ch_rule chs) ''TX BLOCKED: not set up for the 60 m channel''
           (rf_text @ '': on the 60 m channel centred on '' @ at_khz channel @ '', '' @ why @ '' ('' @ ch_rule chs @ '').'')
         else
           (let over = (case st_power_w (cf_s c) of None \<Rightarrow> None | Some w \<Rightarrow> if w > 100 then Some w else None);
                d1 = (case over of None \<Rightarrow> d | Some w \<Rightarrow> d\<lparr>dr_notes := dr_notes d @
                   [''At '' @ fixed_str 0 w @ '' W: 60 m channels are limited to 100 W ERP ('' @ section_sign @
                    ''97.313(i)); the antenna's gain counts.'']\<rparr>);
                dec = legal d1 ''sixty_channel'' (ch_rule chs)
                  (''FCC: 60 m channel '' @ em_dash @ '' permitted on the channel'')
                  (rf_text @ '': on the 60 m channel '' @ range_khz rng @ '' ('' @ ch_rule chs @ ''). '' @ ch_why chs);
                dec1 = dec\<lparr>dc_notes := dc_notes dec @
                  [''60 m is shared with government stations: keep transmissions short ('' @ section_sign @
                   ''97.307(f)(14)(ii)); only one signal at a time on a channel (band plan).'']\<rparr>
            in if over \<noteq> None then dec1\<lparr>dc_verdict := Warning\<rparr> else dec1))"

definition sixty_segment :: "case_facts \<Rightarrow> segment \<Rightarrow> draft \<Rightarrow> decision" where
  "sixty_segment c sg d0 =
     (let p = cf_profile c; rf_text = cf_rf_text c;
          d = d0\<lparr>dr_segment := Some (sg_range sg, sg_rule sg)\<rparr>
      in if em_kind (cf_tx c) = DataEmission \<and> dr_width d > dl_max_hz (pf_data p)
         then blocked d ''too_wide'' (dl_rule (pf_data p)) ''TX BLOCKED: the signal is wider than 2.8 kHz''
           (rf_text @ '': wider than 2.8 kHz ('' @ dl_rule (pf_data p) @ '').'')
         else
           (let dec = legal d ''sixty_segment'' (sg_rule sg)
                  (''FCC: 60 m segment '' @ em_dash @ '' permitted (9.15 W ERP limit)'')
                  (rf_text @ '': inside the 60 m segment '' @ range_khz (sg_range sg) @ '' ('' @ sg_rule sg @
                   ''). Radiated power there is limited to 9.15 W ERP ('' @ section_sign @ ''97.313(i)).'')
            in case st_power_w (cf_s c) of
                 None \<Rightarrow> dec
               | Some w \<Rightarrow>
                   if w > 9.15
                   then dec\<lparr>dc_verdict := Warning, dc_notes := dc_notes dec @
                     [''At '' @ fixed_str 0 w @ '' W: the 5351.5'' @ en_dash @ ''5366.5 kHz segment is limited to 9.15 W ERP ('' @
                      section_sign @ ''97.313(i)).'']\<rparr>
                   else dec))"

definition sixty :: "case_facts \<Rightarrow> channels \<Rightarrow> draft \<Rightarrow> decision" where
  "sixty c chs d =
     (let p = cf_profile c; rf_text = cf_rf_text c; m = st_margin_hz (cf_s c)
      in if \<not> (\<exists>q\<in>set (privileges_of p (cf_license c)). holds (pv_range q) (cf_lo c) (cf_hi c))
         then blocked d ''privilege'' (section_sign @ ''97.301'') ''TX BLOCKED: outside your license class's privileges''
           (rf_text @ '': outside the '' @ license_title (cf_license c) @ '' privileges ('' @ section_sign @ ''97.301).'')
         else if em_kind (cf_tx c) = NoEmission
         then legal d ''permitted'' (section_sign @ ''97.301'') (''FCC: keying only '' @ em_dash @ '' no emission'') rf_text
         else case (case pf_sixty p of None \<Rightarrow> None
                    | Some sx \<Rightarrow> if emission_name (em_kind (cf_tx c)) \<in> set (sx_allowed sx) then None else Some sx) of
           Some sx \<Rightarrow> blocked d ''sixty_emission'' (sx_rule sx) ''TX BLOCKED: this emission is not allowed on 60 m''
             (rf_text @ '': on 60 m a station may transmit only '' @ to_ascii_uppercase (join_with '', '' (sx_allowed sx)) @ '' ('' @
              sx_rule sx @ ''); tune up on another band.'')
         | None \<Rightarrow> (case List.find (\<lambda>ch. overlaps (channel_range chs ch) (cf_lo c - m) (cf_hi c + m)) (ch_list chs) of
             Some channel \<Rightarrow> sixty_channel c chs channel d
           | None \<Rightarrow> (case List.find (\<lambda>sg. sg_band sg = ch_band chs \<and> holds (sg_range sg) (cf_glo c) (cf_ghi c)) (pf_data_segments p) of
               Some sg \<Rightarrow> sixty_segment c sg d
             | None \<Rightarrow> blocked d ''sixty_off_channel'' (ch_rule chs) ''TX BLOCKED: not on a 60 m channel or in the 60 m segment''
                 (rf_text @ '': on 60 m a station transmits only on the four channels or inside 5351.5'' @ en_dash @
                  ''5366.5 kHz ('' @ ch_rule chs @ '').''))))"

section \<open>The judgement\<close>

definition evaluate :: "profile \<Rightarrow> situation \<Rightarrow> emission \<Rightarrow> draft \<Rightarrow> decision" where
  "evaluate p s tx d0 = (case prerequisites p s tx d0 of
       Inl ms \<Rightarrow> blocked d0 (ms_code ms) (ms_rule ms) (ms_summary ms) (ms_detail ms)
     | Inr c \<Rightarrow> (case band_holding p (cf_glo c) (cf_ghi c) of
         None \<Rightarrow> blocked d0 ''out_of_band'' (section_sign @ ''97.301'') ''TX BLOCKED: the signal is outside the amateur bands''
           (case band_touching p (cf_glo c) (cf_ghi c) of
              Some b \<Rightarrow> cf_rf_text c @ '': it crosses the edge of the '' @ bd_name b @ '' band ('' @ range_khz (bd_range b) @
                ''), counting '' @ fixed_str 0 (st_margin_hz s) @ '' Hz of margin.''
            | None \<Rightarrow> cf_rf_text c @ '': outside the amateur bands this profile covers.'')
       | Some b \<Rightarrow>
           let d = d0\<lparr>dr_band := Some (bd_name b)\<rparr>
           in (case (if cf_automatic c then List.find (\<lambda>x. ex_band x = bd_name b) (ac_excluded (pf_automatic p)) else None) of
              Some x \<Rightarrow> blocked d ''automatic_excluded'' (ex_rule x) (''TX BLOCKED: no automatic operation on '' @ bd_name b) (ex_why x)
            | None \<Rightarrow> (case pf_channels p of
                Some chs \<Rightarrow>
                  if ch_band chs = bd_name b then sixty c chs d
                  else if em_kind tx = DataEmission then judge_data c (bd_name b) d else judge_other c d
              | None \<Rightarrow> if em_kind tx = DataEmission then judge_data c (bd_name b) d else judge_other c d))))"

definition pol_profile :: "policy \<Rightarrow> profile option" where
  "pol_profile pol = (case pol of Rules p \<Rightarrow> Some p | _ \<Rightarrow> None)"

definition pol_id :: "policy \<Rightarrow> string" where
  "pol_id pol = (case pol of Unset \<Rightarrow> [] | NoProfile \<Rightarrow> ''none'' | Rules p \<Rightarrow> pf_id p | Broken _ \<Rightarrow> ''broken'')"

definition from_setting :: "string \<Rightarrow> policy" where
  "from_setting n =
     (let w = trim n
      in if w = [] then Unset else if w = ''none'' then NoProfile
         else case load_profile w of Inr p \<Rightarrow> Rules p | Inl err \<Rightarrow> Broken err)"

definition cw_id_max_wpm :: "policy \<Rightarrow> f64 option" where
  "cw_id_max_wpm pol = Option.bind (pol_profile pol) (\<lambda>p. map_option cw_max_wpm (pf_cw_id p))"

definition pol_reading :: "policy \<Rightarrow> reading" where
  "pol_reading pol = (case pol_profile pol of None \<Rightarrow> WiderReading | Some p \<Rightarrow> br_reading (pf_bandwidth p))"

definition pol_evaluate :: "policy \<Rightarrow> situation \<Rightarrow> emission \<Rightarrow> decision" where
  "pol_evaluate pol s tx =
     (let d = draft_new s tx (pol_reading pol)
      in case pol of
           Unset \<Rightarrow> blocked d ''no_profile'' [] ''TX BLOCKED: choose a regulatory profile (Setup, step 1)''
             (''Aether does not know which rules this station operates under. Choose the United States (FCC Part 97) profile, or '' @
              [CHR 0x22] @ ''none'' @ [CHR 0x22] @
              '' if another administration's rules apply and you will check every transmission yourself.'')
         | Broken err \<Rightarrow> blocked d ''profile_broken'' [] ''TX BLOCKED: the regulatory profile could not be read''
             (err @ ''. Nothing is sent until it can be.'')
         | NoProfile \<Rightarrow> legal d ''no_rules'' [] ''No regulatory profile: you check every transmission''
             ''The operator has chosen no regulatory profile: Aether makes no regulatory checks, and the control operator is responsible for every transmission.''
         | Rules p \<Rightarrow> evaluate p s tx d)"

definition authorize :: "policy \<Rightarrow> situation \<Rightarrow> emission \<Rightarrow> decision + authorization" where
  "authorize pol s tx =
     (let d = pol_evaluate pol s tx in if dc_allowed d then Inr (Authorization d) else Inl d)"

definition unmeasured :: "policy \<Rightarrow> situation \<Rightarrow> string \<Rightarrow> string \<Rightarrow> decision" where
  "unmeasured pol s what why =
     blocked (draft_new s \<lparr>em_what = what, em_kind = DataEmission, em_audio = edges_tone 0 0, em_direction = Originate\<rparr>
         (pol_reading pol))
       ''unmeasured'' [] ''TX BLOCKED: the signal's spectrum is not known''
       (why @ ''. Without it Aether cannot say where the signal lands.'')"

section \<open>The fastest lawful rung\<close>

definition rung_emission :: "nat \<Rightarrow> string \<Rightarrow> edges \<Rightarrow> direction \<Rightarrow> emission" where
  "rung_emission i name e dir =
     \<lparr>em_what = ''rung '' @ decimal i @ '' ('' @ name @ '')'', em_kind = DataEmission, em_audio = e, em_direction = dir\<rparr>"

fun climb :: "policy \<Rightarrow> situation \<Rightarrow> air_occupancy \<Rightarrow> direction \<Rightarrow> (nat \<Rightarrow> bool) \<Rightarrow> nat \<Rightarrow>
    rung_occupancy list \<Rightarrow> edges option \<Rightarrow> nat option \<Rightarrow> rung_ceiling" where
  "climb pol s a dir is_floor i [] envelope best = \<lparr>ce_rung = best, ce_limit = None\<rparr>"
| "climb pol s a dir is_floor i (r # rs) envelope best =
     (let e0 = edges_union (ro_edges r) (air_control (is_floor i) a);
          e = (case envelope of None \<Rightarrow> e0 | Some v \<Rightarrow> edges_union v e0);
          d = pol_evaluate pol s (rung_emission i (ro_name r) e dir)
      in if \<not> dc_allowed d then \<lparr>ce_rung = best, ce_limit = Some d\<rparr>
         else climb pol s a dir is_floor (i + 1) rs (Some e) (Some i))"

definition pol_ceiling :: "policy \<Rightarrow> situation \<Rightarrow> air_occupancy \<Rightarrow> direction \<Rightarrow> (nat \<Rightarrow> bool) \<Rightarrow> rung_ceiling" where
  "pol_ceiling pol s a dir is_floor = climb pol s a dir is_floor 0 (ao_rungs a) None None"

section \<open>Dials where a signal fits\<close>

definition segment_pieces :: "profile \<Rightarrow> bool \<Rightarrow> bool \<Rightarrow> segment \<Rightarrow> range \<Rightarrow> (range \<times> string) list" where
  "segment_pieces p automatic elsewhere_ok sg common =
     (if automatic \<and> \<not> elsewhere_ok
      then map (\<lambda>r. (r, ac_segments_rule (pf_automatic p))) (List.map_filter (intersect common) (ac_segments (pf_automatic p)))
      else [(common, sg_rule sg)])"

definition piece_dial :: "situation \<Rightarrow> sideband \<Rightarrow> f64 \<Rightarrow> f64 \<Rightarrow> string \<Rightarrow> range \<times> string \<Rightarrow> safe_dial option" where
  "piece_dial s sb a_lo a_hi band_name piece =
     map_option (\<lambda>(low, high). \<lparr>sd_band = band_name, sd_segment = fst piece, sd_rule = snd piece, sd_low_hz = low, sd_high_hz = high\<rparr>)
       (dial_range (fst piece) sb a_lo a_hi (st_margin_hz s))"

definition segment_dials ::
  "profile \<Rightarrow> situation \<Rightarrow> sideband \<Rightarrow> f64 \<Rightarrow> f64 \<Rightarrow> bool \<Rightarrow> bool \<Rightarrow> privilege list \<Rightarrow> segment \<Rightarrow> safe_dial list" where
  "segment_dials p s sb a_lo a_hi automatic elsewhere_ok ps sg =
     (if a_hi - a_lo > fst (segment_limit sg (pf_data p)) then []
      else if automatic \<and> (\<exists>x\<in>set (ac_excluded (pf_automatic p)). ex_band x = sg_band sg) then []
      else concat (map (\<lambda>q. case intersect (sg_range sg) (pv_range q) of
          None \<Rightarrow> []
        | Some common \<Rightarrow>
            List.map_filter (piece_dial s sb a_lo a_hi (sg_band sg)) (segment_pieces p automatic elsewhere_ok sg common))
          (filter (\<lambda>q. pv_allows q ''data'') ps)))"

definition channel_dial :: "channels \<Rightarrow> situation \<Rightarrow> sideband \<Rightarrow> f64 \<Rightarrow> f64 \<Rightarrow> f64 \<Rightarrow> safe_dial option" where
  "channel_dial chs s sb a_lo a_hi channel =
     (let dial = channel - ch_carrier_offset_hz chs;
          rng = channel_range chs channel;
          (lo, hi) = rf_range dial sb a_lo a_hi
      in if holds rng (lo - st_margin_hz s) (hi + st_margin_hz s)
         then Some \<lparr>sd_band = ch_band chs, sd_segment = rng, sd_rule = ch_rule chs, sd_low_hz = dial, sd_high_hz = dial\<rparr>
         else None)"

definition channel_dials ::
  "profile \<Rightarrow> situation \<Rightarrow> sideband \<Rightarrow> f64 \<Rightarrow> f64 \<Rightarrow> bool \<Rightarrow> privilege list \<Rightarrow> safe_dial list" where
  "channel_dials p s sb a_lo a_hi automatic ps = (case pf_channels p of
       None \<Rightarrow> []
     | Some chs \<Rightarrow>
         if \<not> automatic \<and> a_hi - a_lo \<le> dl_max_hz (pf_data p) \<and> sb = Usb \<and>
            (\<exists>q\<in>set ps. \<exists>c\<in>set (ch_list chs). holds (pv_range q) c c \<and> pv_allows q ''data'')
         then List.map_filter (channel_dial chs s sb a_lo a_hi) (ch_list chs)
         else [])"

definition safe_dials :: "policy \<Rightarrow> situation \<Rightarrow> edges \<Rightarrow> direction \<Rightarrow> safe_dial list" where
  "safe_dials pol s audio dir = (case (pol, st_sideband s, st_license s, st_control s) of
       (Rules p, Some sb, Some license, Some control) \<Rightarrow>
         (let (a_lo, a_hi) = edges_range (br_reading (pf_bandwidth p)) audio;
              automatic = (control = AutomaticControl \<and> dir \<noteq> Operator);
              elsewhere_ok = (case ac_elsewhere (pf_automatic p) of None \<Rightarrow> False
                | Some e \<Rightarrow> a_hi - a_lo \<le> ew_max_hz e \<and> (dir = Respond \<or> \<not> ew_requires_response e));
              ps = privileges_of p license
          in sort_key sd_low_hz
               (concat (map (segment_dials p s sb a_lo a_hi automatic elsewhere_ok ps) (pf_data_segments p)) @
                channel_dials p s sb a_lo a_hi automatic ps))
     | _ \<Rightarrow> [])"

end
