(* ===== verification/Regulatory_Laws.thy ===== *)
theory Regulatory_Laws
  imports Regulatory_Judge
begin

text \<open>
  What the policy promises.  \<open>lawful\<close> states an administration's rules without the order in which the
  code tries them; \<open>authorize\<close> gives leave exactly when they are kept.  A narrower signal in the same place
  is as lawful, so the ladder's ceiling speaks for every frame below it; and the dials offered are lawful.
\<close>

section \<open>Advice keeps the verdict allowed\<close>

named_theorems judged \<open>which judgements allow\<close>

lemma allowed_verdict: "dc_allowed d \<longleftrightarrow> dc_verdict d \<noteq> Blocked"
  by (simp add: dc_allowed_def)

lemma advise_power_allowed: "dc_allowed d \<Longrightarrow> dc_allowed (advise_power s l lo hi limit d)"
  by (auto simp: advise_power_def allowed_verdict split: option.split)

lemma advise_plan_allowed: "dc_allowed d \<Longrightarrow> dc_allowed (advise_plan lo hi plan d)"
  by (auto simp: advise_plan_def allowed_verdict split: option.split)

lemma advise_allowed [simp]:
  assumes "dc_allowed d" shows "dc_allowed (advise p s l d lo hi)"
proof -
  have "dc_allowed (fold (advise_power s l lo hi) limits d)" for limits
    using assms by (induction limits arbitrary: d) (auto intro: advise_power_allowed)
  then show ?thesis
    by (auto simp: advise_def Let_def advise_plan_allowed split: option.split)
qed

lemma width_upd [simp]:
  "dr_width (d\<lparr>dr_segment := x\<rparr>) = dr_width d" "dr_width (d\<lparr>dr_band := b\<rparr>) = dr_width d"
  "dr_width (d\<lparr>dr_automatic_segment := y\<rparr>) = dr_width d"
  by (simp_all add: dr_width_def)

section \<open>What each judgement asks\<close>

lemma find_ex: "List.find P xs = None \<longleftrightarrow> \<not> (\<exists>x\<in>set xs. P x)"
  by (auto simp: find_None_iff)

lemma refusal_None:
  "privilege_refusal ps l glo ghi emission t = None \<longleftrightarrow>
     (\<exists>q. List.find (\<lambda>q. holds (pv_range q) glo ghi) ps = Some q \<and> pv_allows q emission)"
  by (auto simp: privilege_refusal_def split: option.split)

definition automatic_ok :: "profile \<Rightarrow> direction \<Rightarrow> f64 \<Rightarrow> f64 \<Rightarrow> f64 \<Rightarrow> bool" where
  "automatic_ok p dir width glo ghi \<longleftrightarrow> (\<exists>a\<in>set (ac_segments (pf_automatic p)). holds a glo ghi) \<or>
     (\<exists>ew. ac_elsewhere (pf_automatic p) = Some ew \<and> width \<le> ew_max_hz ew \<and> (ew_requires_response ew \<longrightarrow> dir = Respond))"

lemma automatic_data_allowed [judged]:
  "dc_allowed (automatic_data p s tx d glo ghi t sg) \<longleftrightarrow> automatic_ok p (em_direction tx) (dr_width d) glo ghi"
proof (cases "List.find (\<lambda>a. holds a glo ghi) (ac_segments (pf_automatic p))")
  case None
  then have n: "\<not> (\<exists>a\<in>set (ac_segments (pf_automatic p)). holds a glo ghi)" by (simp add: find_ex)
  show ?thesis
    unfolding automatic_data_def Let_def None
    using n by (auto simp: automatic_ok_def split: option.split)
next
  case (Some a)
  then have "\<exists>a\<in>set (ac_segments (pf_automatic p)). holds a glo ghi" by (auto simp: find_Some_iff)
  then show ?thesis using Some by (auto simp: automatic_data_def Let_def automatic_ok_def)
qed

lemma outside_blocked [simp]: "\<not> dc_allowed (outside_segment p d lo hi m t)"
  by (auto simp: outside_segment_def Let_def split: option.split prod.split)

lemma judge_data_allowed [judged]:
  "dc_allowed (judge_data c bn d) \<longleftrightarrow>
     (\<exists>sg. List.find (\<lambda>sg. holds (sg_range sg) (cf_glo c) (cf_ghi c)) (pf_data_segments (cf_profile c)) = Some sg \<and>
        dr_width d \<le> fst (segment_limit sg (pf_data (cf_profile c))) \<and>
        (\<exists>q. List.find (\<lambda>q. holds (pv_range q) (cf_glo c) (cf_ghi c)) (privileges_of (cf_profile c) (cf_license c)) = Some q \<and>
           pv_allows q ''data'') \<and>
        (cf_automatic c \<longrightarrow> automatic_ok (cf_profile c) (em_direction (cf_tx c)) (dr_width d) (cf_glo c) (cf_ghi c)))"
proof (cases "List.find (\<lambda>sg. holds (sg_range sg) (cf_glo c) (cf_ghi c)) (pf_data_segments (cf_profile c))")
  case None
  then show ?thesis by (simp add: judge_data_def Let_def)
next
  case (Some sg)
  obtain limit rule where l: "segment_limit sg (pf_data (cf_profile c)) = (limit, rule)" by fastforce
  define ref where "ref = privilege_refusal (privileges_of (cf_profile c) (cf_license c)) (cf_license c) (cf_glo c) (cf_ghi c) ''data'' (cf_rf_text c)"
  have r: "ref = None \<longleftrightarrow> (\<exists>q. List.find (\<lambda>q. holds (pv_range q) (cf_glo c) (cf_ghi c)) (privileges_of (cf_profile c) (cf_license c)) = Some q \<and>
      pv_allows q ''data'')"
    unfolding ref_def by (rule refusal_None)
  show ?thesis
    unfolding judge_data_def Let_def Some l option.case prod.case ref_def [symmetric] r [symmetric]
    by (cases ref) (auto simp: automatic_data_allowed l)
qed

lemma judge_other_allowed [judged]:
  "dc_allowed (judge_other c d) \<longleftrightarrow>
     (if em_kind (cf_tx c) = NoEmission
      then \<exists>q\<in>set (privileges_of (cf_profile c) (cf_license c)). holds (pv_range q) (cf_dial c) (cf_dial c)
      else \<exists>q. List.find (\<lambda>q. holds (pv_range q) (cf_glo c) (cf_ghi c)) (privileges_of (cf_profile c) (cf_license c)) = Some q \<and>
        pv_allows q (if em_kind (cf_tx c) = CwEmission then ''cw'' else ''test''))"
proof -
  define ref where "ref = privilege_refusal (privileges_of (cf_profile c) (cf_license c)) (cf_license c) (cf_glo c) (cf_ghi c)
      (if em_kind (cf_tx c) = CwEmission then ''cw'' else ''test'') (cf_rf_text c)"
  have r: "ref = None \<longleftrightarrow> (\<exists>q. List.find (\<lambda>q. holds (pv_range q) (cf_glo c) (cf_ghi c)) (privileges_of (cf_profile c) (cf_license c)) = Some q \<and>
      pv_allows q (if em_kind (cf_tx c) = CwEmission then ''cw'' else ''test''))"
    unfolding ref_def by (rule refusal_None)
  show ?thesis
    unfolding judge_other_def Let_def ref_def [symmetric] r [symmetric]
    by (cases ref) (auto split: prod.split)
qed

definition channel_ok :: "case_facts \<Rightarrow> channels \<Rightarrow> f64 \<Rightarrow> bool" where
  "channel_ok c chs channel \<longleftrightarrow>
     (if em_kind (cf_tx c) = CwEmission then \<bar>(cf_lo c + cf_hi c) / 2 - channel\<bar> \<le> ch_carrier_tolerance_hz chs
      else (\<exists>sb. st_sideband (cf_s c) = Some sb \<and> sideband_name sb = ch_sideband chs) \<and>
        \<bar>cf_dial c - (channel - ch_carrier_offset_hz chs)\<bar> \<le> ch_carrier_tolerance_hz chs \<and>
        holds (channel_range chs channel) (cf_glo c) (cf_ghi c))"

lemma sixty_channel_allowed [judged]: "dc_allowed (sixty_channel c chs channel d) \<longleftrightarrow> channel_ok c chs channel"
  by (cases "em_kind (cf_tx c) = CwEmission")
    (auto simp: sixty_channel_def channel_ok_def Let_def dc_allowed_def split: option.split if_split_asm)

lemma sixty_segment_allowed [judged]:
  "dc_allowed (sixty_segment c sg d) \<longleftrightarrow> (em_kind (cf_tx c) = DataEmission \<longrightarrow> dr_width d \<le> dl_max_hz (pf_data (cf_profile c)))"
  by (auto simp: sixty_segment_def Let_def dc_allowed_def split: option.split)

definition touched :: "case_facts \<Rightarrow> channels \<Rightarrow> f64 \<Rightarrow> bool" where
  "touched c chs ch \<longleftrightarrow> overlaps (channel_range chs ch) (cf_lo c - st_margin_hz (cf_s c)) (cf_hi c + st_margin_hz (cf_s c))"

definition sixty_emission_ok :: "profile \<Rightarrow> emission_kind \<Rightarrow> bool" where
  "sixty_emission_ok p k \<longleftrightarrow> (\<forall>sx. pf_sixty p = Some sx \<longrightarrow> emission_name k \<in> set (sx_allowed sx))"

lemma sixty_allowed [judged]:
  "dc_allowed (sixty c chs d) \<longleftrightarrow>
     (\<exists>q\<in>set (privileges_of (cf_profile c) (cf_license c)). holds (pv_range q) (cf_lo c) (cf_hi c)) \<and>
     (em_kind (cf_tx c) = NoEmission \<or> sixty_emission_ok (cf_profile c) (em_kind (cf_tx c)) \<and>
       (case List.find (touched c chs) (ch_list chs) of
          Some ch \<Rightarrow> channel_ok c chs ch
        | None \<Rightarrow> (em_kind (cf_tx c) = DataEmission \<longrightarrow> dr_width d \<le> dl_max_hz (pf_data (cf_profile c))) \<and>
            (\<exists>sg\<in>set (pf_data_segments (cf_profile c)). sg_band sg = ch_band chs \<and> holds (sg_range sg) (cf_glo c) (cf_ghi c))))"
proof -
  define refused where "refused = (case pf_sixty (cf_profile c) of None \<Rightarrow> None
      | Some sx \<Rightarrow> if emission_name (em_kind (cf_tx c)) \<in> set (sx_allowed sx) then None else Some sx)"
  have r: "refused = None \<longleftrightarrow> sixty_emission_ok (cf_profile c) (em_kind (cf_tx c))"
    by (auto simp: refused_def sixty_emission_ok_def split: option.split)
  define seg where "seg = List.find (\<lambda>sg. sg_band sg = ch_band chs \<and> holds (sg_range sg) (cf_glo c) (cf_ghi c)) (pf_data_segments (cf_profile c))"
  have s: "seg = None \<longleftrightarrow> \<not> (\<exists>sg\<in>set (pf_data_segments (cf_profile c)). sg_band sg = ch_band chs \<and> holds (sg_range sg) (cf_glo c) (cf_ghi c))"
    unfolding seg_def by (rule find_ex)
  have t: "(\<lambda>ch. overlaps (channel_range chs ch) (cf_lo c - st_margin_hz (cf_s c)) (cf_hi c + st_margin_hz (cf_s c))) = touched c chs"
    by (simp add: touched_def fun_eq_iff)
  show ?thesis
    unfolding sixty_def Let_def refused_def [symmetric] seg_def [symmetric] t r [symmetric]
    using s by (cases refused; cases seg) (auto simp: sixty_channel_allowed sixty_segment_allowed split: option.split)
qed

section \<open>The rules, without an order\<close>

definition facts :: "profile \<Rightarrow> situation \<Rightarrow> emission \<Rightarrow> case_facts option" where
  "facts p s tx = (case (st_control s, st_license s, st_sideband s, st_dial_hz s) of
       (Some control, Some license, Some sb, Some dial) \<Rightarrow>
         (let d = draft_new s tx (br_reading (pf_bandwidth p));
              (lo, hi) = rf_range dial sb (fst (dr_audio d)) (snd (dr_audio d))
          in if st_itu_region s = pf_itu_region p
             then Some \<lparr>cf_profile = p, cf_s = s, cf_tx = tx, cf_control = control, cf_license = license, cf_dial = dial,
               cf_lo = lo, cf_hi = hi, cf_glo = lo - st_margin_hz s, cf_ghi = hi + st_margin_hz s,
               cf_automatic = (control = AutomaticControl \<and> em_direction tx \<noteq> Operator),
               cf_rf_text = rf_text_of d lo hi dial sb\<rparr>
             else None)
     | _ \<Rightarrow> None)"

lemma prerequisites_facts:
  "prerequisites p s tx (draft_new s tx (br_reading (pf_bandwidth p))) = Inr c \<longleftrightarrow> facts p s tx = Some c"
  by (auto simp: prerequisites_def facts_def draft_new_def Let_def split: option.splits prod.splits)

definition width_of :: "profile \<Rightarrow> emission \<Rightarrow> f64" where
  "width_of p tx = snd (edges_range (br_reading (pf_bandwidth p)) (em_audio tx)) - fst (edges_range (br_reading (pf_bandwidth p)) (em_audio tx))"

definition lawful_data :: "case_facts \<Rightarrow> f64 \<Rightarrow> bool" where
  "lawful_data c w \<longleftrightarrow>
     (\<exists>sg\<in>set (pf_data_segments (cf_profile c)). holds (sg_range sg) (cf_glo c) (cf_ghi c) \<and> w \<le> fst (segment_limit sg (pf_data (cf_profile c)))) \<and>
     (\<exists>q\<in>set (privileges_of (cf_profile c) (cf_license c)). holds (pv_range q) (cf_glo c) (cf_ghi c) \<and> pv_allows q ''data'') \<and>
     (cf_automatic c \<longrightarrow> automatic_ok (cf_profile c) (em_direction (cf_tx c)) w (cf_glo c) (cf_ghi c))"

definition lawful_other :: "case_facts \<Rightarrow> bool" where
  "lawful_other c \<longleftrightarrow>
     (\<exists>q\<in>set (privileges_of (cf_profile c) (cf_license c)).
        if em_kind (cf_tx c) = NoEmission then holds (pv_range q) (cf_dial c) (cf_dial c)
        else holds (pv_range q) (cf_glo c) (cf_ghi c) \<and> pv_allows q (if em_kind (cf_tx c) = CwEmission then ''cw'' else ''test''))"

definition lawful_sixty :: "case_facts \<Rightarrow> channels \<Rightarrow> f64 \<Rightarrow> bool" where
  "lawful_sixty c chs w \<longleftrightarrow>
     (\<exists>q\<in>set (privileges_of (cf_profile c) (cf_license c)). holds (pv_range q) (cf_lo c) (cf_hi c)) \<and>
     (em_kind (cf_tx c) = NoEmission \<or> sixty_emission_ok (cf_profile c) (em_kind (cf_tx c)) \<and>
       ((\<exists>ch\<in>set (ch_list chs). touched c chs ch \<and> channel_ok c chs ch) \<or>
        (\<forall>ch\<in>set (ch_list chs). \<not> touched c chs ch) \<and> (em_kind (cf_tx c) = DataEmission \<longrightarrow> w \<le> dl_max_hz (pf_data (cf_profile c))) \<and>
        (\<exists>sg\<in>set (pf_data_segments (cf_profile c)). sg_band sg = ch_band chs \<and> holds (sg_range sg) (cf_glo c) (cf_ghi c))))"

definition lawful_in :: "case_facts \<Rightarrow> f64 \<Rightarrow> band \<Rightarrow> bool" where
  "lawful_in c w b \<longleftrightarrow> holds (bd_range b) (cf_glo c) (cf_ghi c) \<and>
     (cf_automatic c \<longrightarrow> (\<forall>x\<in>set (ac_excluded (pf_automatic (cf_profile c))). ex_band x \<noteq> bd_name b)) \<and>
     (case pf_channels (cf_profile c) of
        Some chs \<Rightarrow> if ch_band chs = bd_name b then lawful_sixty c chs w
          else if em_kind (cf_tx c) = DataEmission then lawful_data c w else lawful_other c
      | None \<Rightarrow> if em_kind (cf_tx c) = DataEmission then lawful_data c w else lawful_other c)"

definition lawful :: "profile \<Rightarrow> situation \<Rightarrow> emission \<Rightarrow> bool" where
  "lawful p s tx \<longleftrightarrow> (\<exists>c. facts p s tx = Some c \<and> (\<exists>b\<in>set (pf_bands p). lawful_in c (width_of p tx) b))"

section \<open>The first match\<close>

text \<open>Tables whose ranges are apart: whatever fits one of them fits no other.\<close>

definition apart :: "('a \<Rightarrow> range) \<Rightarrow> 'a list \<Rightarrow> bool" where
  "apart f xs \<longleftrightarrow> sorted_wrt (\<lambda>x y. intersect (f x) (f y) = None) xs"

lemma holds_intersect: "holds a l h \<Longrightarrow> holds b l h \<Longrightarrow> l < h \<Longrightarrow> intersect a b \<noteq> None"
  by (auto simp: holds_def intersect_def Let_def)

lemma find_in: "List.find P xs = Some x \<Longrightarrow> x \<in> set xs \<and> P x"
  by (auto simp: find_Some_iff)

lemma find_apart:
  assumes "apart f xs" "x \<in> set xs" "holds (f x) l h" "l < h"
  shows "List.find (\<lambda>x. holds (f x) l h) xs = Some x"
  using assms holds_intersect by (induction xs) (fastforce simp: apart_def)+

lemma find_holds_iff:
  assumes "apart f xs" "l < h"
  shows "List.find (\<lambda>x. holds (f x) l h) xs = Some x \<longleftrightarrow> x \<in> set xs \<and> holds (f x) l h"
proof
  assume "List.find (\<lambda>x. holds (f x) l h) xs = Some x"
  from find_in [OF this] show "x \<in> set xs \<and> holds (f x) l h" .
next
  assume "x \<in> set xs \<and> holds (f x) l h"
  then show "List.find (\<lambda>x. holds (f x) l h) xs = Some x" using find_apart [OF assms(1) _ _ assms(2)] by simp
qed

section \<open>Leave to transmit\<close>

definition judged_in :: "case_facts \<Rightarrow> band \<Rightarrow> draft \<Rightarrow> bool" where
  "judged_in c b d \<longleftrightarrow>
     (cf_automatic c \<longrightarrow> (\<forall>x\<in>set (ac_excluded (pf_automatic (cf_profile c))). ex_band x \<noteq> bd_name b)) \<and>
     (case pf_channels (cf_profile c) of
        Some chs \<Rightarrow> if ch_band chs = bd_name b then dc_allowed (sixty c chs d)
          else if em_kind (cf_tx c) = DataEmission then dc_allowed (judge_data c (bd_name b) d) else dc_allowed (judge_other c d)
      | None \<Rightarrow> if em_kind (cf_tx c) = DataEmission then dc_allowed (judge_data c (bd_name b) d) else dc_allowed (judge_other c d))"

lemma facts_in: "facts p s tx = Some c \<Longrightarrow> cf_profile c = p \<and> cf_tx c = tx \<and> cf_s c = s"
  by (auto simp: facts_def Let_def split: option.splits prod.splits if_splits)

lemma evaluate_allowed:
  assumes "d = draft_new s tx (br_reading (pf_bandwidth p))"
  shows "dc_allowed (evaluate p s tx d) \<longleftrightarrow>
    (\<exists>c. facts p s tx = Some c \<and> (\<exists>b. band_holding p (cf_glo c) (cf_ghi c) = Some b \<and> judged_in c b (d\<lparr>dr_band := Some (bd_name b)\<rparr>)))"
proof (cases "prerequisites p s tx d")
  case (Inl ms)
  then have "facts p s tx = None" using prerequisites_facts [of p s tx] assms by (cases "facts p s tx") auto
  with Inl show ?thesis by (simp add: evaluate_def)
next
  case (Inr c)
  then have f: "facts p s tx = Some c" using prerequisites_facts assms by simp
  have c: "cf_profile c = p" "cf_tx c = tx" using facts_in [OF f] by auto
  define x where "x b = (if cf_automatic c then List.find (\<lambda>x. ex_band x = bd_name b) (ac_excluded (pf_automatic p)) else None)" for b :: band
  define ok where "ok b \<longleftrightarrow> (cf_automatic c \<longrightarrow> (\<forall>x\<in>set (ac_excluded (pf_automatic p)). ex_band x \<noteq> bd_name b))" for b :: band
  have x: "x b = None \<longleftrightarrow> ok b" for b
    by (auto simp: x_def ok_def find_ex)
  show ?thesis
  proof (cases "band_holding p (cf_glo c) (cf_ghi c)")
    case None
    then show ?thesis by (simp add: evaluate_def Inr f)
  next
    case (Some b)
    have "dc_allowed (evaluate p s tx d) \<longleftrightarrow> judged_in c b (d\<lparr>dr_band := Some (bd_name b)\<rparr>)"
      unfolding evaluate_def Inr sum.case Let_def Some option.case x_def [symmetric] judged_in_def c ok_def [symmetric]
      using x [of b] by (cases "x b"; cases "pf_channels p") simp_all
    with Some f show ?thesis by simp
  qed
qed

lemma draft_width: "dr_width (draft_new s tx (br_reading (pf_bandwidth p))) = width_of p tx"
  by (simp add: dr_width_def draft_new_def Let_def width_of_def)

lemma judged_lawful:
  assumes "judged_in c b d" "holds (bd_range b) (cf_glo c) (cf_ghi c)"
  shows "lawful_in c (dr_width d) b"
proof -
  have s: "dc_allowed (sixty c chs d) \<Longrightarrow> lawful_sixty c chs (dr_width d)" for chs
    by (auto simp: sixty_allowed lawful_sixty_def find_ex dest: find_in split: option.splits)
  have d: "dc_allowed (judge_data c n d) \<Longrightarrow> lawful_data c (dr_width d)" for n
    by (auto simp: judge_data_allowed lawful_data_def dest!: find_in)
  have o: "dc_allowed (judge_other c d) \<Longrightarrow> lawful_other c"
    by (auto simp: judge_other_allowed lawful_other_def dest!: find_in split: if_splits)
  show ?thesis
  proof (cases "pf_channels (cf_profile c)")
    case None
    then show ?thesis
      using assms d [of "bd_name b"] o unfolding judged_in_def lawful_in_def None option.case by (simp split: if_splits)
  next
    case (Some chs)
    then show ?thesis
      using assms s [of chs] d [of "bd_name b"] o unfolding judged_in_def lawful_in_def Some option.case by (simp split: if_splits)
  qed
qed

text \<open>
  An order does not matter to a signal of some width, where the tables are apart; a Morse signal has to
  touch no more than one channel.
\<close>

definition definite :: "case_facts \<Rightarrow> bool" where
  "definite c \<longleftrightarrow> cf_glo c < cf_ghi c \<and>
     (em_kind (cf_tx c) = CwEmission \<longrightarrow> (\<forall>chs. pf_channels (cf_profile c) = Some chs \<longrightarrow>
       (\<forall>x\<in>set (ch_list chs). \<forall>y\<in>set (ch_list chs). touched c chs x \<longrightarrow> touched c chs y \<longrightarrow> x = y)))"

definition channels_apart :: "channels \<Rightarrow> bool" where
  "channels_apart chs \<longleftrightarrow> (\<forall>x\<in>set (ch_list chs). \<forall>y\<in>set (ch_list chs). x \<noteq> y \<longrightarrow>
     \<not> overlaps (channel_range chs x) (rg_low (channel_range chs y)) (rg_high (channel_range chs y)))"

definition orderly :: "profile \<Rightarrow> bool" where
  "orderly p \<longleftrightarrow> apart bd_range (pf_bands p) \<and> apart sg_range (pf_data_segments p) \<and>
     (\<forall>l. apart pv_range (privileges_of p l)) \<and> (\<forall>chs. pf_channels p = Some chs \<longrightarrow> channels_apart chs)"

lemma facts_guard:
  "facts p s tx = Some c \<Longrightarrow> cf_glo c = cf_lo c - st_margin_hz (cf_s c) \<and> cf_ghi c = cf_hi c + st_margin_hz (cf_s c)"
  by (auto simp: facts_def Let_def split: option.splits prod.splits if_splits)

text \<open>No other channel is touched than the one that holds the signal.\<close>

lemma one_channel:
  assumes "channels_apart chs" "x \<in> set (ch_list chs)" "y \<in> set (ch_list chs)"
    "touched c chs x" "touched c chs y" "channel_ok c chs y" "definite c" "pf_channels (cf_profile c) = Some chs"
    "cf_glo c = cf_lo c - st_margin_hz (cf_s c) \<and> cf_ghi c = cf_hi c + st_margin_hz (cf_s c)"
  shows "x = y"
proof (cases "em_kind (cf_tx c) = CwEmission")
  case True
  then show ?thesis using assms unfolding definite_def by blast
next
  case False
  then have "holds (channel_range chs y) (cf_glo c) (cf_ghi c)" using assms(6) by (simp add: channel_ok_def)
  moreover have "overlaps (channel_range chs x) (cf_glo c) (cf_ghi c)" using assms(4,9) by (simp add: touched_def)
  ultimately have "overlaps (channel_range chs x) (rg_low (channel_range chs y)) (rg_high (channel_range chs y))"
    by (auto simp: holds_def overlaps_def)
  then show ?thesis using assms(1-3) unfolding channels_apart_def by blast
qed

lemma lawful_judged:
  assumes "lawful_in c (dr_width d) b" "definite c" "orderly (cf_profile c)"
    "cf_glo c = cf_lo c - st_margin_hz (cf_s c) \<and> cf_ghi c = cf_hi c + st_margin_hz (cf_s c)"
  shows "judged_in c b d"
proof -
  have g: "cf_glo c < cf_ghi c" using assms(2) by (simp add: definite_def)
  note q = find_holds_iff [OF _ g]
  have o: "apart sg_range (pf_data_segments (cf_profile c))" "apart pv_range (privileges_of (cf_profile c) (cf_license c))"
    using assms(3) by (auto simp: orderly_def)
  have s: "dc_allowed (sixty c chs d)" if "lawful_sixty c chs (dr_width d)" "pf_channels (cf_profile c) = Some chs" for chs
  proof (cases "List.find (touched c chs) (ch_list chs)")
    case None
    then have "\<forall>ch\<in>set (ch_list chs). \<not> touched c chs ch" by (simp add: find_ex)
    then show ?thesis using that(1) unfolding sixty_allowed None option.case lawful_sixty_def by auto
  next
    case (Some ch)
    then have "ch \<in> set (ch_list chs)" "touched c chs ch" using find_in [OF Some] by auto
    then have u: "\<not> (\<forall>x\<in>set (ch_list chs). \<not> touched c chs x)" by blast
    have a: "channels_apart chs" using assms(3) that(2) by (simp add: orderly_def)
    have "channel_ok c chs ch" if "\<exists>x\<in>set (ch_list chs). touched c chs x \<and> channel_ok c chs x"
      using that one_channel [OF a \<open>ch \<in> _\<close> _ \<open>touched c chs ch\<close> _ _ assms(2) \<open>pf_channels _ = _\<close> assms(4)] by blast
    with that(1) u show ?thesis
      unfolding sixty_allowed lawful_sixty_def Some option.case by argo
  qed
  have d: "dc_allowed (judge_data c n d)" if "lawful_data c (dr_width d)" for n
    using that by (auto simp: judge_data_allowed lawful_data_def q [OF o(1)] q [OF o(2)])
  have e: "dc_allowed (judge_other c d)" if "lawful_other c"
    using that by (auto simp: judge_other_allowed lawful_other_def q [OF o(2)] split: if_splits)
  show ?thesis
  proof (cases "pf_channels (cf_profile c)")
    case None
    then show ?thesis
      using assms(1) d [of "bd_name b"] e unfolding judged_in_def lawful_in_def None option.case by (simp split: if_splits)
  next
    case (Some chs)
    then show ?thesis
      using assms(1) s [OF _ Some] d [of "bd_name b"] e unfolding judged_in_def lawful_in_def Some option.case
      by (simp split: if_splits)
  qed
qed

lemma authorize_Rules:
  "(\<exists>a. authorize (Rules p) s tx = Inr a) \<longleftrightarrow>
     dc_allowed (evaluate p s tx (draft_new s tx (br_reading (pf_bandwidth p))))"
  by (simp add: authorize_def Let_def pol_evaluate_def pol_reading_def pol_profile_def)

lemma leave_lawful:
  assumes "authorize (Rules p) s tx = Inr a" shows "lawful p s tx"
proof -
  let ?d = "draft_new s tx (br_reading (pf_bandwidth p))"
  have "dc_allowed (evaluate p s tx ?d)" using assms authorize_Rules by blast
  then obtain c b where f: "facts p s tx = Some c" and b: "band_holding p (cf_glo c) (cf_ghi c) = Some b"
      and j: "judged_in c b (?d\<lparr>dr_band := Some (bd_name b)\<rparr>)"
    by (auto simp: evaluate_allowed)
  have "b \<in> set (pf_bands p)" "holds (bd_range b) (cf_glo c) (cf_ghi c)"
    using find_in [OF b [unfolded band_holding_def]] by auto
  with judged_lawful [OF j] f show ?thesis by (auto simp: lawful_def draft_width)
qed

lemma lawful_leave:
  assumes "lawful p s tx" "orderly p" "\<And>c. facts p s tx = Some c \<Longrightarrow> definite c"
  shows "\<exists>a. authorize (Rules p) s tx = Inr a"
proof -
  let ?d = "draft_new s tx (br_reading (pf_bandwidth p))"
  obtain c b where f: "facts p s tx = Some c" and b: "b \<in> set (pf_bands p)" "lawful_in c (width_of p tx) b"
    using assms(1) by (auto simp: lawful_def)
  have "apart bd_range (pf_bands p)" "cf_glo c < cf_ghi c"
    using assms(2) assms(3) [OF f] by (auto simp: orderly_def definite_def)
  then have "band_holding p (cf_glo c) (cf_ghi c) = Some b"
    using b by (simp add: band_holding_def find_holds_iff lawful_in_def)
  moreover have "judged_in c b (?d\<lparr>dr_band := Some (bd_name b)\<rparr>)"
    by (rule lawful_judged) (use b assms(2) assms(3) [OF f] facts_in [OF f] facts_guard [OF f] in \<open>auto simp: draft_width\<close>)
  ultimately show ?thesis using f by (auto simp: authorize_Rules evaluate_allowed)
qed

end
