(* ===== verification/Regulatory_Uses.thy ===== *)
theory Regulatory_Uses
  imports Regulatory_Laws
begin

text \<open>
  What the policy's answers are used for: a ladder climbed no further than the rules let it, and the dials
  a client is offered; and the United States' rules, where they lead.
\<close>

section \<open>A narrower signal\<close>

lemma find_narrower:
  assumes "apart f xs" "List.find (\<lambda>x. holds (f x) l h) xs = Some x" "l \<le> l'" "h' \<le> h" "l' < h'"
  shows "List.find (\<lambda>x. holds (f x) l' h') xs = Some x"
proof -
  have "x \<in> set xs" "holds (f x) l h" using find_in [OF assms(2)] by auto
  then show ?thesis using assms(1,3-5) by (intro find_apart) (auto simp: holds_def)
qed

lemma find_fewer:
  assumes "List.find P xs = Some x" "\<And>y. Q y \<Longrightarrow> P y" "Q x"
  shows "List.find Q xs = Some x"
  using assms by (induction xs) (auto split: if_splits)

text \<open>The same station, the same kind of emission, less of the air.\<close>

definition narrower :: "case_facts \<Rightarrow> case_facts \<Rightarrow> bool" where
  "narrower c c' \<longleftrightarrow> cf_profile c' = cf_profile c \<and> cf_s c' = cf_s c \<and> cf_license c' = cf_license c \<and> cf_dial c' = cf_dial c \<and>
     cf_automatic c' = cf_automatic c \<and> em_kind (cf_tx c') = em_kind (cf_tx c) \<and> em_direction (cf_tx c') = em_direction (cf_tx c) \<and>
     cf_lo c \<le> cf_lo c' \<and> cf_hi c' \<le> cf_hi c \<and> cf_glo c = cf_lo c - st_margin_hz (cf_s c) \<and> cf_ghi c = cf_hi c + st_margin_hz (cf_s c) \<and>
     cf_glo c' = cf_lo c' - st_margin_hz (cf_s c) \<and> cf_ghi c' = cf_hi c' + st_margin_hz (cf_s c)"

lemma touched_iff: "cf_glo c = cf_lo c - st_margin_hz (cf_s c) \<Longrightarrow> cf_ghi c = cf_hi c + st_margin_hz (cf_s c) \<Longrightarrow>
    touched c chs ch \<longleftrightarrow> overlaps (channel_range chs ch) (cf_glo c) (cf_ghi c)"
  by (simp add: touched_def)

lemma holds_narrower: "holds r l h \<Longrightarrow> l \<le> l' \<Longrightarrow> h' \<le> h \<Longrightarrow> holds r l' h'"
  by (auto simp: holds_def)

lemma automatic_narrower:
  "automatic_ok p dir w l h \<Longrightarrow> w' \<le> w \<Longrightarrow> l \<le> l' \<Longrightarrow> h' \<le> h \<Longrightarrow> automatic_ok p dir w' l' h'"
  by (fastforce simp: automatic_ok_def intro: holds_narrower)

lemma lawful_data_narrower:
  assumes "lawful_data c w" "narrower c c'" "w' \<le> w"
  shows "lawful_data c' w'"
proof -
  have g: "cf_glo c \<le> cf_glo c'" "cf_ghi c' \<le> cf_ghi c" using assms(2) by (auto simp: narrower_def)
  have "automatic_ok (cf_profile c) d w' (cf_glo c') (cf_ghi c')" if "automatic_ok (cf_profile c) d w (cf_glo c) (cf_ghi c)" for d
    by (rule automatic_narrower [OF that assms(3) g])
  moreover have "holds r (cf_glo c') (cf_ghi c')" if "holds r (cf_glo c) (cf_ghi c)" for r
    by (rule holds_narrower [OF that g])
  ultimately show ?thesis
    using assms by (auto simp: lawful_data_def narrower_def intro: order_trans)
qed

lemma lawful_sixty_narrower:
  assumes "lawful_sixty c chs w" "narrower c c'" "w' \<le> w" "em_kind (cf_tx c) = DataEmission" "cf_glo c' < cf_ghi c'"
  shows "lawful_sixty c' chs w'"
proof -
  have g: "cf_glo c \<le> cf_glo c'" "cf_ghi c' \<le> cf_ghi c" using assms(2) by (auto simp: narrower_def)
  have h: "holds r (cf_glo c') (cf_ghi c')" if "holds r (cf_glo c) (cf_ghi c)" for r
    by (rule holds_narrower [OF that g])
  have t: "touched c chs ch" if "touched c' chs ch" for ch
    using that assms(2) by (auto simp: touched_def narrower_def overlaps_def)
  have o: "touched c' chs ch \<and> channel_ok c' chs ch" if "channel_ok c chs ch" for ch
  proof -
    have k: "holds (channel_range chs ch) (cf_glo c') (cf_ghi c')" using that assms(4) h by (simp add: channel_ok_def)
    moreover have "touched c' chs ch"
      using k assms(2,5) touched_iff [of c' chs ch] by (auto simp: holds_def overlaps_def narrower_def)
    ultimately show ?thesis using that assms(2,4) by (simp add: channel_ok_def narrower_def)
  qed
  have q: "holds r (cf_lo c') (cf_hi c')" if "holds r (cf_lo c) (cf_hi c)" for r
    using that assms(2) by (auto simp: narrower_def intro: holds_narrower)
  have n: "cf_profile c' = cf_profile c" "cf_license c' = cf_license c" "em_kind (cf_tx c') = DataEmission"
    using assms(2,4) by (auto simp: narrower_def)
  from assms(1) obtain r where r: "r \<in> set (privileges_of (cf_profile c) (cf_license c))" "holds (pv_range r) (cf_lo c) (cf_hi c)"
    by (auto simp: lawful_sixty_def)
  have em: "sixty_emission_ok (cf_profile c) DataEmission" using assms(1,4) by (auto simp: lawful_sixty_def)
  from assms(1) consider
      (channel) ch where "ch \<in> set (ch_list chs)" "channel_ok c chs ch"
    | (segment) sg where "\<forall>ch\<in>set (ch_list chs). \<not> touched c chs ch" "w \<le> dl_max_hz (pf_data (cf_profile c))"
        "sg \<in> set (pf_data_segments (cf_profile c))" "sg_band sg = ch_band chs" "holds (sg_range sg) (cf_glo c) (cf_ghi c)"
    unfolding lawful_sixty_def using assms(4) by auto
  then show ?thesis
  proof cases
    case channel
    then show ?thesis using r(1) q [OF r(2)] em o [of ch] unfolding lawful_sixty_def n by blast
  next
    case segment
    then have "\<forall>ch\<in>set (ch_list chs). \<not> touched c' chs ch" "w' \<le> dl_max_hz (pf_data (cf_profile c))"
        "holds (sg_range sg) (cf_glo c') (cf_ghi c')"
      using t h assms(3) by auto
    with segment(3,4) show ?thesis using r(1) q [OF r(2)] em unfolding lawful_sixty_def n by blast
  qed
qed

lemma lawful_in_narrower:
  assumes "lawful_in c w b" "narrower c c'" "w' \<le> w" "em_kind (cf_tx c) = DataEmission" "cf_glo c' < cf_ghi c'"
  shows "lawful_in c' w' b"
proof -
  have n: "cf_profile c' = cf_profile c" "cf_automatic c' = cf_automatic c" "em_kind (cf_tx c') = DataEmission"
      "cf_glo c \<le> cf_glo c'" "cf_ghi c' \<le> cf_ghi c"
    using assms(2,4) by (auto simp: narrower_def)
  have "holds (bd_range b) (cf_glo c') (cf_ghi c')"
    using assms(1) n holds_narrower by (auto simp: lawful_in_def)
  moreover note d = lawful_data_narrower [OF _ assms(2,3)] and s = lawful_sixty_narrower [OF _ assms(2-5)]
  ultimately show ?thesis
    using assms(1,4) unfolding lawful_in_def n
    by (cases "pf_channels (cf_profile c)") (auto dest: d s split: if_splits)
qed

text \<open>The facts of two emissions of one station.\<close>

lemma facts_narrower:
  assumes "facts p s tx = Some c" "em_kind tx' = em_kind tx" "em_direction tx' = em_direction tx"
    "covers (br_reading (pf_bandwidth p)) (em_audio tx) (em_audio tx')"
  obtains c' where "facts p s tx' = Some c'" "narrower c c'" "cf_ghi c' - cf_glo c' = width_of p tx' + 2 * st_margin_hz s"
proof -
  obtain control license sb dial where s: "st_control s = Some control" "st_license s = Some license" "st_sideband s = Some sb"
      "st_dial_hz s = Some dial" "st_itu_region s = pf_itu_region p"
    using assms(1) by (auto simp: facts_def Let_def split: option.splits prod.splits if_splits)
  obtain c' where c': "facts p s tx' = Some c'"
    using s by (cases sb) (auto simp: facts_def Let_def rf_range_def)
  have "narrower c c'"
    using assms c' s unfolding facts_def narrower_def by (cases sb) (auto simp: Let_def rf_range_def draft_new_def covers_def)
  moreover have "cf_ghi c' - cf_glo c' = width_of p tx' + 2 * st_margin_hz s"
    using c' s unfolding facts_def by (cases sb) (auto simp: Let_def rf_range_def draft_new_def width_of_def)
  ultimately show ?thesis using that c' by blast
qed

lemma width_covers: "covers (br_reading (pf_bandwidth p)) (em_audio tx) (em_audio tx') \<Longrightarrow> width_of p tx' \<le> width_of p tx"
  by (auto simp: covers_def width_of_def)

lemma leave_narrower:
  assumes "authorize (Rules p) s tx = Inr a" "orderly p" "em_kind tx = DataEmission" "em_kind tx' = DataEmission"
    "em_direction tx' = em_direction tx" "covers (br_reading (pf_bandwidth p)) (em_audio tx) (em_audio tx')"
    "0 < width_of p tx'" "0 \<le> st_margin_hz s"
  shows "\<exists>a'. authorize (Rules p) s tx' = Inr a'"
proof -
  obtain c b where c: "facts p s tx = Some c" and b: "b \<in> set (pf_bands p)" "lawful_in c (width_of p tx) b"
    using leave_lawful [OF assms(1)] by (auto simp: lawful_def)
  obtain c' where c': "facts p s tx' = Some c'" and n: "narrower c c'" and w: "cf_ghi c' - cf_glo c' = width_of p tx' + 2 * st_margin_hz s"
    using facts_narrower [OF c _ assms(5,6)] assms(3,4) by auto
  have g: "cf_glo c' < cf_ghi c'" using w assms(7,8) by linarith
  have k: "em_kind (cf_tx c) = DataEmission" "em_kind (cf_tx c') = DataEmission"
    using facts_in [OF c] facts_in [OF c'] assms(3,4) by auto
  have "lawful_in c' (width_of p tx') b"
    by (rule lawful_in_narrower [OF b(2) n width_covers [OF assms(6)] k(1) g])
  then have "lawful p s tx'" using b(1) c' by (auto simp: lawful_def)
  then show ?thesis
    by (rule lawful_leave [OF _ assms(2)]) (use c' g k(2) in \<open>auto simp: definite_def\<close>)
qed

section \<open>The ladder's ceiling\<close>

text \<open>What the rungs up to one occupy together, their control frames included.\<close>

fun envelope :: "air_occupancy \<Rightarrow> (nat \<Rightarrow> bool) \<Rightarrow> nat \<Rightarrow> edges" where
  "envelope a fl 0 = edges_union (ro_edges (ao_rungs a ! 0)) (air_control (fl 0) a)"
| "envelope a fl (Suc i) =
     edges_union (envelope a fl i) (edges_union (ro_edges (ao_rungs a ! Suc i)) (air_control (fl (Suc i)) a))"

lemma envelope_covers:
  "i \<le> k \<Longrightarrow> covers rd (envelope a fl k) (ro_edges (ao_rungs a ! i)) \<and> covers rd (envelope a fl k) (air_control (fl i) a)"
proof (induction k)
  case 0
  then show ?case by (simp add: covers_union)
next
  case (Suc k)
  show ?case
  proof (cases "i = Suc k")
    case True
    then show ?thesis
      using covers_union(1) [of rd "ro_edges (ao_rungs a ! Suc k)" "air_control (fl (Suc k)) a"]
        covers_union(2) [of rd "ro_edges (ao_rungs a ! Suc k)" "air_control (fl (Suc k)) a"]
      by (auto intro: covers_trans [OF covers_union(2)])
  next
    case False
    then show ?thesis using Suc by (auto intro: covers_trans [OF covers_union(1)])
  qed
qed

definition rung_leave :: "policy \<Rightarrow> situation \<Rightarrow> air_occupancy \<Rightarrow> direction \<Rightarrow> (nat \<Rightarrow> bool) \<Rightarrow> nat \<Rightarrow> bool" where
  "rung_leave pol s a dir fl i \<longleftrightarrow>
     dc_allowed (pol_evaluate pol s (rung_emission i (ro_name (ao_rungs a ! i)) (envelope a fl i) dir))"

definition seen :: "air_occupancy \<Rightarrow> (nat \<Rightarrow> bool) \<Rightarrow> nat \<Rightarrow> edges option" where
  "seen a fl i = (case i of 0 \<Rightarrow> None | Suc k \<Rightarrow> Some (envelope a fl k))"

lemma climb_drop:
  assumes "i \<le> length (ao_rungs a)" "\<forall>k<i. rung_leave pol s a dir fl k"
    "c = climb pol s a dir fl i (drop i (ao_rungs a)) (seen a fl i) (case i of 0 \<Rightarrow> None | Suc k \<Rightarrow> Some k)"
    "n = (case ce_rung c of None \<Rightarrow> 0 | Some k \<Rightarrow> Suc k)"
  shows "n \<le> length (ao_rungs a) \<and> (\<forall>k<n. rung_leave pol s a dir fl k) \<and>
    (ce_limit c = None \<longrightarrow> n = length (ao_rungs a)) \<and> (ce_limit c \<noteq> None \<longrightarrow> n < length (ao_rungs a) \<and> \<not> rung_leave pol s a dir fl n)"
  using assms
proof (induction "length (ao_rungs a) - i" arbitrary: i c n)
  case 0
  then have "i = length (ao_rungs a)" by simp
  with 0 show ?case by (auto split: nat.splits)
next
  case (Suc m)
  then have i: "i < length (ao_rungs a)" by linarith
  have d: "drop i (ao_rungs a) = ao_rungs a ! i # drop (Suc i) (ao_rungs a)" using i by (simp add: Cons_nth_drop_Suc)
  have e: "(case seen a fl i of None \<Rightarrow> edges_union (ro_edges (ao_rungs a ! i)) (air_control (fl i) a)
      | Some v \<Rightarrow> edges_union v (edges_union (ro_edges (ao_rungs a ! i)) (air_control (fl i) a))) = envelope a fl i"
    by (cases i) (simp_all add: seen_def)
  show ?case
  proof (cases "rung_leave pol s a dir fl i")
    case True
    have "c = climb pol s a dir fl (Suc i) (drop (Suc i) (ao_rungs a)) (seen a fl (Suc i)) (case Suc i of 0 \<Rightarrow> None | Suc k \<Rightarrow> Some k)"
      unfolding Suc.prems(3) d climb.simps Let_def e using True by (simp add: rung_leave_def seen_def)
    moreover have "\<forall>k<Suc i. rung_leave pol s a dir fl k" using True Suc.prems(2) less_Suc_eq by auto
    ultimately show ?thesis using Suc.hyps(1) [of "Suc i" c n] Suc.hyps(2) i Suc.prems(4) by simp
  next
    case False
    have "c = \<lparr>ce_rung = (case i of 0 \<Rightarrow> None | Suc k \<Rightarrow> Some k),
        ce_limit = Some (pol_evaluate pol s (rung_emission i (ro_name (ao_rungs a ! i)) (envelope a fl i) dir))\<rparr>"
      unfolding Suc.prems(3) d climb.simps Let_def e using False by (simp add: rung_leave_def)
    then show ?thesis using Suc.prems(2,4) False i by (cases i) auto
  qed
qed

lemma ceiling_run:
  assumes "n = (case ce_rung (pol_ceiling pol s a dir fl) of None \<Rightarrow> 0 | Some k \<Rightarrow> Suc k)"
  shows "n \<le> length (ao_rungs a) \<and> (\<forall>k<n. rung_leave pol s a dir fl k) \<and>
    (ce_limit (pol_ceiling pol s a dir fl) = None \<longrightarrow> n = length (ao_rungs a)) \<and>
    (ce_limit (pol_ceiling pol s a dir fl) \<noteq> None \<longrightarrow> n < length (ao_rungs a) \<and> \<not> rung_leave pol s a dir fl n)"
  using climb_drop [of 0 a pol s dir fl "pol_ceiling pol s a dir fl" n] assms by (simp add: pol_ceiling_def seen_def)

section \<open>The dials offered\<close>

text \<open>What the tables owe each other: every segment is in the band it names, and 60 m is one whole.\<close>

definition sixty_coherent :: "profile \<Rightarrow> channels \<Rightarrow> bool" where
  "sixty_coherent p chs \<longleftrightarrow>
     (\<exists>b\<in>set (pf_bands p). bd_name b = ch_band chs \<and>
        (\<forall>ch\<in>set (ch_list chs). holds (bd_range b) (rg_low (channel_range chs ch)) (rg_high (channel_range chs ch)))) \<and>
     (\<forall>sg\<in>set (pf_data_segments p). sg_band sg = ch_band chs \<longrightarrow> sg_max_hz sg = None \<and>
        (\<forall>ch\<in>set (ch_list chs). \<not> overlaps (channel_range chs ch) (rg_low (sg_range sg)) (rg_high (sg_range sg)))) \<and>
     sixty_emission_ok p DataEmission \<and> ch_sideband chs = ''usb'' \<and> 0 \<le> ch_carrier_tolerance_hz chs \<and>
     (\<forall>l. \<forall>q\<in>set (privileges_of p l). (\<exists>ch\<in>set (ch_list chs). holds (pv_range q) ch ch) \<longrightarrow>
        (\<forall>ch\<in>set (ch_list chs). holds (pv_range q) (rg_low (channel_range chs ch)) (rg_high (channel_range chs ch))))"

definition coherent :: "profile \<Rightarrow> bool" where
  "coherent p \<longleftrightarrow> orderly p \<and>
     (\<forall>sg\<in>set (pf_data_segments p). \<exists>b\<in>set (pf_bands p). bd_name b = sg_band sg \<and>
        holds (bd_range b) (rg_low (sg_range sg)) (rg_high (sg_range sg))) \<and>
     (\<forall>chs. pf_channels p = Some chs \<longrightarrow> sixty_coherent p chs)"

lemma dial_range_fits:
  "dial_range rng sb lo hi m = Some (l, h) \<Longrightarrow> l \<le> dial \<Longrightarrow> dial \<le> h \<Longrightarrow>
     holds rng (fst (rf_range dial sb lo hi) - m) (snd (rf_range dial sb lo hi) + m)"
  by (cases sb) (auto simp: dial_range_def rf_range_def holds_def Let_def split: if_splits)

lemma intersect_in: "intersect a b = Some r \<Longrightarrow> holds r l h \<Longrightarrow> holds a l h \<and> holds b l h"
  by (auto simp: intersect_def Let_def holds_def split: if_splits)

lemma holds_trans: "holds a (rg_low b) (rg_high b) \<Longrightarrow> holds b l h \<Longrightarrow> holds a l h"
  by (auto simp: holds_def)

lemma set_map_filter: "y \<in> set (List.map_filter f xs) \<longleftrightarrow> (\<exists>x\<in>set xs. f x = Some y)"
  by (induction xs) (auto simp: map_filter_simps split: option.split)

text \<open>An entry of the segments' dials.\<close>

lemma segment_dials_in:
  assumes "sd \<in> set (segment_dials p s sb lo hi auto els ps sg)"
  obtains q where "q \<in> set ps" "pv_allows q ''data''" "hi - lo \<le> fst (segment_limit sg (pf_data p))"
    "auto \<longrightarrow> (\<forall>x\<in>set (ac_excluded (pf_automatic p)). ex_band x \<noteq> sg_band sg)"
    "dial_range (sd_segment sd) sb lo hi (st_margin_hz s) = Some (sd_low_hz sd, sd_high_hz sd)"
    "\<And>l h. holds (sd_segment sd) l h \<Longrightarrow> holds (sg_range sg) l h \<and> holds (pv_range q) l h \<and>
       (auto \<and> \<not> els \<longrightarrow> (\<exists>a\<in>set (ac_segments (pf_automatic p)). holds a l h))"
proof -
  have w: "hi - lo \<le> fst (segment_limit sg (pf_data p))" "auto \<longrightarrow> (\<forall>x\<in>set (ac_excluded (pf_automatic p)). ex_band x \<noteq> sg_band sg)"
    using assms by (auto simp: segment_dials_def split: if_splits)
  define dials where "dials q = (case intersect (sg_range sg) (pv_range q) of None \<Rightarrow> []
      | Some common \<Rightarrow> List.map_filter (piece_dial s sb lo hi (sg_band sg)) (segment_pieces p auto els sg common))" for q :: privilege
  have "sd \<in> set (concat (map dials (filter (\<lambda>q. pv_allows q ''data'') ps)))"
    using assms unfolding segment_dials_def dials_def by (simp split: if_splits)
  then obtain q0 where q0: "q0 \<in> set ps" "pv_allows q0 ''data''" "sd \<in> set (dials q0)" by auto
  obtain q common where q: "q \<in> set ps" "pv_allows q ''data''" "intersect (sg_range sg) (pv_range q) = Some common"
      and sd: "sd \<in> set (List.map_filter (piece_dial s sb lo hi (sg_band sg)) (segment_pieces p auto els sg common))"
    using q0 that by (cases "intersect (sg_range sg) (pv_range q0)") (auto simp: dials_def)
  obtain piece where piece: "piece \<in> set (segment_pieces p auto els sg common)" "piece_dial s sb lo hi (sg_band sg) piece = Some sd"
    using sd by (auto simp: set_map_filter)
  then have r: "fst piece = sd_segment sd" and d: "dial_range (sd_segment sd) sb lo hi (st_margin_hz s) = Some (sd_low_hz sd, sd_high_hz sd)"
    by (auto simp: piece_dial_def)
  have "holds common l h \<and> (auto \<and> \<not> els \<longrightarrow> (\<exists>a\<in>set (ac_segments (pf_automatic p)). holds a l h))"
    if "holds (sd_segment sd) l h" for l h
  proof (cases "auto \<and> \<not> els")
    case True
    then obtain a where "a \<in> set (ac_segments (pf_automatic p))" "intersect common a = Some (sd_segment sd)"
      using piece(1) r by (auto simp: segment_pieces_def set_map_filter)
    then show ?thesis using intersect_in that by blast
  next
    case False
    then show ?thesis using piece(1) r that by (auto simp: segment_pieces_def)
  qed
  then show ?thesis using that q w d intersect_in [OF q(3)] by blast
qed

text \<open>The facts of a data emission on a dial.\<close>

definition data_emission :: "string \<Rightarrow> edges \<Rightarrow> direction \<Rightarrow> emission" where
  "data_emission what audio dir = \<lparr>em_what = what, em_kind = DataEmission, em_audio = audio, em_direction = dir\<rparr>"

lemma facts_dial:
  assumes "st_control s = Some control" "st_license s = Some license" "st_sideband s = Some sb" "st_itu_region s = pf_itu_region p"
    "edges_range (br_reading (pf_bandwidth p)) audio = (a_lo, a_hi)" "rf_range dial sb a_lo a_hi = (lo, hi)"
  obtains c where "facts p (s\<lparr>st_dial_hz := Some dial\<rparr>) (data_emission what audio dir) = Some c"
    "cf_profile c = p" "cf_tx c = data_emission what audio dir" "cf_license c = license" "cf_dial c = dial" "cf_lo c = lo" "cf_hi c = hi"
    "cf_glo c = lo - st_margin_hz s" "cf_ghi c = hi + st_margin_hz s" "st_margin_hz (cf_s c) = st_margin_hz s"
    "st_sideband (cf_s c) = Some sb" "cf_automatic c \<longleftrightarrow> control = AutomaticControl \<and> dir \<noteq> Operator"
    "width_of p (data_emission what audio dir) = a_hi - a_lo" "hi - lo = a_hi - a_lo"
proof -
  have w: "width_of p (data_emission what audio dir) = a_hi - a_lo" by (simp add: width_of_def data_emission_def assms(5))
  have h: "hi - lo = a_hi - a_lo" using assms(6) by (cases sb) (auto simp: rf_range_def)
  obtain c where c: "facts p (s\<lparr>st_dial_hz := Some dial\<rparr>) (data_emission what audio dir) = Some c"
    using assms by (simp add: facts_def Let_def draft_new_def data_emission_def)
  then have "cf_license c = license" "cf_dial c = dial" "cf_lo c = lo" "cf_hi c = hi" "cf_glo c = lo - st_margin_hz s"
      "cf_ghi c = hi + st_margin_hz s" "cf_automatic c \<longleftrightarrow> control = AutomaticControl \<and> dir \<noteq> Operator"
    using assms by (auto simp: facts_def Let_def draft_new_def data_emission_def)
  with that c w h facts_in [OF c] assms(3) show ?thesis by simp
qed

lemma definite_data:
  assumes "facts p s tx = Some c" "em_kind tx = DataEmission" "cf_glo c < cf_ghi c" "facts p s tx = Some c'"
  shows "definite c'"
  using assms facts_in [OF assms(1)] by (simp add: definite_def)

definition elsewhere_allows :: "profile \<Rightarrow> f64 \<Rightarrow> direction \<Rightarrow> bool" where
  "elsewhere_allows p w dir \<longleftrightarrow> (case ac_elsewhere (pf_automatic p) of None \<Rightarrow> False
     | Some e \<Rightarrow> w \<le> ew_max_hz e \<and> (dir = Respond \<or> \<not> ew_requires_response e))"

lemma segment_dial_lawful:
  assumes coherent: "coherent p" and sg: "sg \<in> set (pf_data_segments p)"
    and s: "st_control s = Some control" "st_license s = Some license" "st_sideband s = Some sb" "st_itu_region s = pf_itu_region p"
    and audio: "edges_range (br_reading (pf_bandwidth p)) audio = (a_lo, a_hi)" and m: "0 \<le> st_margin_hz s"
    and sd: "sd \<in> set (segment_dials p s sb a_lo a_hi (control = AutomaticControl \<and> dir \<noteq> Operator)
          (elsewhere_allows p (a_hi - a_lo) dir) (privileges_of p license) sg)"
    and dial: "sd_low_hz sd \<le> dial" "dial \<le> sd_high_hz sd"
  shows "lawful p (s\<lparr>st_dial_hz := Some dial\<rparr>) (data_emission what audio dir)"
proof -
  obtain lo hi where rf: "rf_range dial sb a_lo a_hi = (lo, hi)" by fastforce
  obtain c where f: "facts p (s\<lparr>st_dial_hz := Some dial\<rparr>) (data_emission what audio dir) = Some c" and c: "cf_profile c = p"
      "cf_tx c = data_emission what audio dir" "cf_license c = license" "cf_lo c = lo" "cf_hi c = hi"
      "cf_glo c = lo - st_margin_hz s" "cf_ghi c = hi + st_margin_hz s" "st_margin_hz (cf_s c) = st_margin_hz s"
      "cf_automatic c \<longleftrightarrow> control = AutomaticControl \<and> dir \<noteq> Operator"
      and w: "width_of p (data_emission what audio dir) = a_hi - a_lo"
    by (rule facts_dial [OF s audio rf, where what = what and dir = dir])
  obtain q where q: "q \<in> set (privileges_of p license)" "pv_allows q ''data''"
      and width: "a_hi - a_lo \<le> fst (segment_limit sg (pf_data p))"
      and x: "control = AutomaticControl \<and> dir \<noteq> Operator \<longrightarrow> (\<forall>x\<in>set (ac_excluded (pf_automatic p)). ex_band x \<noteq> sg_band sg)"
      and d: "dial_range (sd_segment sd) sb a_lo a_hi (st_margin_hz s) = Some (sd_low_hz sd, sd_high_hz sd)"
      and fits: "\<And>l h. holds (sd_segment sd) l h \<Longrightarrow> holds (sg_range sg) l h \<and> holds (pv_range q) l h \<and>
       ((control = AutomaticControl \<and> dir \<noteq> Operator) \<and> \<not> elsewhere_allows p (a_hi - a_lo) dir \<longrightarrow>
          (\<exists>a\<in>set (ac_segments (pf_automatic p)). holds a l h))"
    using sd by (rule segment_dials_in) blast
  have guard: "holds (sd_segment sd) (cf_glo c) (cf_ghi c)"
    using dial_range_fits [OF d dial] by (simp add: rf c)
  note g = fits [OF guard]
  obtain b where b: "b \<in> set (pf_bands p)" "bd_name b = sg_band sg" "holds (bd_range b) (cf_glo c) (cf_ghi c)"
    using coherent sg g holds_trans unfolding coherent_def by metis
  have qlh: "holds (pv_range q) (cf_lo c) (cf_hi c)" using g m by (auto simp: holds_def c)
  have auto_ok: "automatic_ok p dir (a_hi - a_lo) (cf_glo c) (cf_ghi c)" if "cf_automatic c"
    using g that by (cases "elsewhere_allows p (a_hi - a_lo) dir")
      (auto simp: automatic_ok_def elsewhere_allows_def c split: option.splits)
  have data: "lawful_data c (a_hi - a_lo)"
    unfolding lawful_data_def c using sg g width q auto_ok by (auto simp: data_emission_def c)
  have sixty: "lawful_sixty c chs (a_hi - a_lo)" if "pf_channels p = Some chs" "ch_band chs = bd_name b" for chs
  proof -
    have k: "sg_max_hz sg = None" "\<forall>ch\<in>set (ch_list chs). \<not> overlaps (channel_range chs ch) (rg_low (sg_range sg)) (rg_high (sg_range sg))"
        "sixty_emission_ok p DataEmission"
      using coherent that sg b(2) unfolding coherent_def sixty_coherent_def by auto
    have "\<not> touched c chs ch" if "ch \<in> set (ch_list chs)" for ch
      using k(2) that g by (auto simp: touched_def c overlaps_def holds_def)
    moreover have "a_hi - a_lo \<le> dl_max_hz (pf_data p)" using width k(1) by (simp add: segment_limit_def)
    ultimately show ?thesis
      unfolding lawful_sixty_def c(1-3) using k(3) q(1) qlh sg g b(2) that by (auto simp: data_emission_def)
  qed
  have "lawful_in c (a_hi - a_lo) b"
    unfolding lawful_in_def c(1,2) using b x data sixty c(9)
    by (auto simp: data_emission_def split: option.split)
  then show ?thesis unfolding lawful_def w using f b(1) by blast
qed

lemma channel_dial_lawful:
  assumes coherent: "coherent p" 
    and s: "st_control s = Some control" "st_license s = Some license" "st_sideband s = Some sb" "st_itu_region s = pf_itu_region p"
    and audio: "edges_range (br_reading (pf_bandwidth p)) audio = (a_lo, a_hi)" and m: "0 \<le> st_margin_hz s" "a_lo \<le> a_hi"
    and sd: "sd \<in> set (channel_dials p s sb a_lo a_hi (control = AutomaticControl \<and> dir \<noteq> Operator) (privileges_of p license))"
    and dial: "sd_low_hz sd \<le> dial" "dial \<le> sd_high_hz sd"
  shows "lawful p (s\<lparr>st_dial_hz := Some dial\<rparr>) (data_emission what audio dir)"
proof -
  obtain lo hi where rf: "rf_range dial sb a_lo a_hi = (lo, hi)" by fastforce
  obtain c where f: "facts p (s\<lparr>st_dial_hz := Some dial\<rparr>) (data_emission what audio dir) = Some c" and c: "cf_profile c = p"
      "cf_tx c = data_emission what audio dir" "cf_license c = license" "cf_dial c = dial" "cf_lo c = lo" "cf_hi c = hi"
      "cf_glo c = lo - st_margin_hz s" "cf_ghi c = hi + st_margin_hz s" "st_margin_hz (cf_s c) = st_margin_hz s"
      "st_sideband (cf_s c) = Some sb" "cf_automatic c \<longleftrightarrow> control = AutomaticControl \<and> dir \<noteq> Operator"
      and w: "width_of p (data_emission what audio dir) = a_hi - a_lo" "hi - lo = a_hi - a_lo"
    by (rule facts_dial [OF s audio rf, where what = what and dir = dir])
  obtain chs where chs: "pf_channels p = Some chs" using sd by (cases "pf_channels p") (auto simp: channel_dials_def)
  have k: "\<not> (control = AutomaticControl \<and> dir \<noteq> Operator)" "sb = Usb"
      "\<exists>q\<in>set (privileges_of p license). \<exists>ch\<in>set (ch_list chs). holds (pv_range q) ch ch \<and> pv_allows q ''data''"
    using sd unfolding channel_dials_def chs option.case by (auto split: if_splits)
  have "sd \<in> set (List.map_filter (channel_dial chs s sb a_lo a_hi) (ch_list chs))"
    using sd unfolding channel_dials_def chs option.case by (auto split: if_splits)
  then obtain ch where ch: "ch \<in> set (ch_list chs)" and e: "channel_dial chs s sb a_lo a_hi ch = Some sd"
    unfolding set_map_filter by blast
  obtain lo1 hi1 where r: "rf_range (ch - ch_carrier_offset_hz chs) sb a_lo a_hi = (lo1, hi1)" by fastforce
  have "holds (channel_range chs ch) (lo1 - st_margin_hz s) (hi1 + st_margin_hz s)"
      "sd_low_hz sd = ch - ch_carrier_offset_hz chs" "sd_high_hz sd = ch - ch_carrier_offset_hz chs"
    using e by (auto simp: channel_dial_def r Let_def split: if_splits)
  then have dial_ch: "dial = ch - ch_carrier_offset_hz chs" and h: "holds (channel_range chs ch) (cf_glo c) (cf_ghi c)"
    using dial rf r by (auto simp: c)
  have co: "sixty_coherent p chs" using coherent chs by (simp add: coherent_def)
  obtain b where b: "b \<in> set (pf_bands p)" "bd_name b = ch_band chs" "holds (bd_range b) (cf_glo c) (cf_ghi c)"
    using co ch h holds_trans unfolding sixty_coherent_def by metis
  obtain q where q: "q \<in> set (privileges_of p license)" "holds (pv_range q) (rg_low (channel_range chs ch)) (rg_high (channel_range chs ch))"
    using co k(3) ch unfolding sixty_coherent_def by metis
  have qlh: "holds (pv_range q) (cf_lo c) (cf_hi c)" using holds_trans [OF q(2) h] m by (auto simp: holds_def c)
  have "touched c chs ch" using h w(2) m by (auto simp: touched_def overlaps_def holds_def c)
  moreover have "channel_ok c chs ch"
    using co k(2) h dial_ch by (simp add: channel_ok_def c data_emission_def sixty_coherent_def sideband_name_def)
  ultimately have "lawful_sixty c chs (a_hi - a_lo)"
    unfolding lawful_sixty_def c(1-3) using co ch q(1) qlh by (auto simp: sixty_coherent_def data_emission_def)
  then have "lawful_in c (a_hi - a_lo) b"
    unfolding lawful_in_def c(1,2) using b chs k(1) c(11) by auto
  then show ?thesis unfolding lawful_def w(1) using f b(1) by blast
qed

lemma safe_dials_cases:
  assumes "sd \<in> set (safe_dials (Rules p) s audio dir)" "edges_range (br_reading (pf_bandwidth p)) audio = (a_lo, a_hi)"
  obtains control license sb where "st_control s = Some control" "st_license s = Some license" "st_sideband s = Some sb"
    "sd \<in> set (channel_dials p s sb a_lo a_hi (control = AutomaticControl \<and> dir \<noteq> Operator) (privileges_of p license)) \<or>
     (\<exists>sg\<in>set (pf_data_segments p). sd \<in> set (segment_dials p s sb a_lo a_hi (control = AutomaticControl \<and> dir \<noteq> Operator)
          (elsewhere_allows p (a_hi - a_lo) dir) (privileges_of p license) sg))"
proof -
  obtain control license sb where s: "st_control s = Some control" "st_license s = Some license" "st_sideband s = Some sb"
    using assms(1) by (cases "st_control s"; cases "st_license s"; cases "st_sideband s") (auto simp: safe_dials_def)
  then show ?thesis
    using that [OF s] assms(1) by (simp add: safe_dials_def s assms(2) Let_def elsewhere_allows_def [symmetric]) blast
qed

end
