(* ===== verification/Regulatory_Us.thy ===== *)
theory Regulatory_Us
  imports Regulatory_Uses
begin

text \<open>
  The United States' profile and the measured airs: the tables hold together, and where they lead.
\<close>

section \<open>The tables\<close>

lemmas us_tables = US_PROFILE_def US_BANDS_def US_DATA_SEGMENTS_def US_CHANNELS_def US_AUTOMATIC_def US_PRIVILEGES_def

lemma us_bands_apart: "apart bd_range US_BANDS"
  by (simp add: US_BANDS_def apart_def intersect_def Let_def)

lemma us_segments_apart: "apart sg_range US_DATA_SEGMENTS"
  by (simp add: US_DATA_SEGMENTS_def apart_def intersect_def Let_def)

lemma us_privileges_apart: "apart pv_range (privileges_of US_PROFILE l)"
  by (cases l) (simp_all add: privileges_of_def Let_def US_PROFILE_def US_PRIVILEGES_def US_EXTRA_def US_ADVANCED_def US_GENERAL_def
      US_TECHNICIAN_def US_NOVICE_def apart_def intersect_def)

lemma us_channels_apart: "channels_apart US_CHANNELS"
  by (simp add: US_CHANNELS_def channels_apart_def channel_range_def overlaps_def)

lemma us_orderly: "orderly US_PROFILE"
proof -
  have "pf_bands US_PROFILE = US_BANDS" "pf_data_segments US_PROFILE = US_DATA_SEGMENTS" "pf_channels US_PROFILE = Some US_CHANNELS"
    by (simp_all add: US_PROFILE_def)
  then show ?thesis
    using us_bands_apart us_segments_apart us_privileges_apart us_channels_apart by (simp add: orderly_def)
qed

lemma us_segments_banded:
  "\<forall>sg\<in>set US_DATA_SEGMENTS. \<exists>b\<in>set US_BANDS. bd_name b = sg_band sg \<and>
     holds (bd_range b) (rg_low (sg_range sg)) (rg_high (sg_range sg))"
  by (simp add: US_DATA_SEGMENTS_def US_BANDS_def holds_def)

lemma us_channels_whole:
  "\<forall>q\<in>set (privileges_of US_PROFILE l). (\<exists>ch\<in>set (ch_list US_CHANNELS). holds (pv_range q) ch ch) \<longrightarrow>
     (\<forall>ch\<in>set (ch_list US_CHANNELS). holds (pv_range q) (rg_low (channel_range US_CHANNELS ch)) (rg_high (channel_range US_CHANNELS ch)))"
  by (cases l) (simp_all add: privileges_of_def Let_def US_PROFILE_def US_PRIVILEGES_def US_EXTRA_def US_ADVANCED_def US_GENERAL_def
      US_TECHNICIAN_def US_NOVICE_def US_CHANNELS_def channel_range_def holds_def)

lemma us_sixty: "sixty_coherent US_PROFILE US_CHANNELS"
proof -
  have "\<exists>b\<in>set US_BANDS. bd_name b = ch_band US_CHANNELS \<and> (\<forall>ch\<in>set (ch_list US_CHANNELS).
      holds (bd_range b) (rg_low (channel_range US_CHANNELS ch)) (rg_high (channel_range US_CHANNELS ch)))"
    by (simp add: US_BANDS_def US_CHANNELS_def channel_range_def holds_def)
  moreover have "\<forall>sg\<in>set US_DATA_SEGMENTS. sg_band sg = ch_band US_CHANNELS \<longrightarrow> sg_max_hz sg = None \<and>
      (\<forall>ch\<in>set (ch_list US_CHANNELS). \<not> overlaps (channel_range US_CHANNELS ch) (rg_low (sg_range sg)) (rg_high (sg_range sg)))"
    by (simp add: US_DATA_SEGMENTS_def US_CHANNELS_def channel_range_def overlaps_def)
  moreover have "sixty_emission_ok US_PROFILE DataEmission"
    by (simp add: sixty_emission_ok_def US_PROFILE_def emission_name_def)
  moreover have "ch_sideband US_CHANNELS = ''usb''" "0 \<le> ch_carrier_tolerance_hz US_CHANNELS" by (simp_all add: US_CHANNELS_def)
  moreover have "pf_bands US_PROFILE = US_BANDS" "pf_data_segments US_PROFILE = US_DATA_SEGMENTS" by (simp_all add: US_PROFILE_def)
  ultimately show ?thesis using us_channels_whole unfolding sixty_coherent_def by simp
qed

lemma us_coherent: "coherent US_PROFILE"
proof -
  have "pf_bands US_PROFILE = US_BANDS" "pf_data_segments US_PROFILE = US_DATA_SEGMENTS" "pf_channels US_PROFILE = Some US_CHANNELS"
    by (simp_all add: US_PROFILE_def)
  then show ?thesis using us_orderly us_segments_banded us_sixty by (simp add: coherent_def)
qed

text \<open>The profile is the one the policy loads.\<close>

lemma us_check: "profile_check US_PROFILE = Inr ()"
proof -
  have "List.find (\<lambda>(what, r). \<not> rg_low r < rg_high r) (all_ranges US_PROFILE) = None"
    by (simp add: all_ranges_def all_privileges_def us_tables US_EXTRA_def US_ADVANCED_def US_GENERAL_def US_TECHNICIAN_def US_NOVICE_def)
  moreover have "List.find (\<lambda>s. \<not> (\<exists>b\<in>set US_BANDS. holds (bd_range b) (rg_low (sg_range s)) (rg_high (sg_range s)))) US_DATA_SEGMENTS = None"
    using us_segments_banded by (auto simp: find_ex)
  moreover have "pf_bands US_PROFILE = US_BANDS" "pf_data_segments US_PROFILE = US_DATA_SEGMENTS" "dl_max_hz (pf_data US_PROFILE) = 2800"
    by (simp_all add: US_PROFILE_def)
  moreover have "US_BANDS \<noteq> []" "US_DATA_SEGMENTS \<noteq> []" by (simp_all add: US_BANDS_def US_DATA_SEGMENTS_def)
  moreover have "\<not> (\<exists>s\<in>set US_DATA_SEGMENTS. case sg_max_hz s of None \<Rightarrow> False | Some mx \<Rightarrow> mx \<le> 0)"
    by (simp add: US_DATA_SEGMENTS_def)
  ultimately show ?thesis by (simp add: profile_check_def Let_def)
qed

lemma us_loaded: "load_profile ''us-fcc-part97'' = Inr US_PROFILE"
  by (simp add: load_profile_def us_check)

section \<open>The airs\<close>

definition WIDE_AIR :: air_occupancy where "WIDE_AIR = projr (air 2300)"
definition NARROW_AIR :: air_occupancy where "NARROW_AIR = projr (air 500)"

lemmas air_defs = air_def parse_occupancy_def OCCUPANCY_FILE_def air_of_file_def parse_usize_def AIR_2300_def AIR_500_def
  rung_of_file_def file_edges_def shifted_def

definition spans :: "f64 \<Rightarrow> f64 \<Rightarrow> edges \<Rightarrow> bool" where
  "spans lo hi e \<longleftrightarrow> lo \<le> fst (edges_range WiderReading e) \<and> snd (edges_range WiderReading e) \<le> hi"

definition wide_of :: "edges \<Rightarrow> f64" where
  "wide_of e = snd (edges_range WiderReading e) - fst (edges_range WiderReading e)"

lemma air_wide: "air 2300 = Inr WIDE_AIR" "length (ao_rungs WIDE_AIR) = 20"
  by (simp_all add: WIDE_AIR_def air_defs)

lemma air_narrow: "air 500 = Inr NARROW_AIR" "length (ao_rungs NARROW_AIR) = 15"
  by (simp_all add: NARROW_AIR_def air_defs)

lemma air_only: "air hz = Inr a \<Longrightarrow> a = WIDE_AIR \<or> a = NARROW_AIR"
proof -
  assume a: "air hz = Inr a"
  consider "hz = 2300" | "hz = 500" | "hz \<noteq> 2300" "hz \<noteq> 500" by blast
  then show ?thesis
  proof cases
    case 3
    then show ?thesis using a by (simp add: air_defs)
  qed (use a air_wide air_narrow in auto)
qed

lemma rungs_wider: "\<forall>r\<in>set (ao_rungs WIDE_AIR) \<union> set (ao_rungs NARROW_AIR). 500 < wide_of (ro_edges r)"
  by (simp add: WIDE_AIR_def NARROW_AIR_def air_defs wide_of_def edges_range_def)

lemma wide_spans:
  "\<forall>r\<in>set (ao_rungs WIDE_AIR). spans 200 2800 (ro_edges r)"
  "spans 200 2800 (ao_control_ordinary WIDE_AIR)" "spans 200 2800 (ao_control_floor WIDE_AIR)"
  by (simp_all add: WIDE_AIR_def air_defs spans_def edges_range_def)

lemma spans_union: "spans lo hi a \<Longrightarrow> spans lo hi b \<Longrightarrow> spans lo hi (edges_union a b)"
  by (auto simp: spans_def edges_range_def edges_union_def)

lemma wide_envelope: "i < 20 \<Longrightarrow> spans 200 2800 (envelope WIDE_AIR fl i)"
proof (induction i)
  case 0
  then show ?case using wide_spans air_wide(2) by (auto simp: air_control_def intro!: spans_union)
next
  case (Suc i)
  then have "ao_rungs WIDE_AIR ! Suc i \<in> set (ao_rungs WIDE_AIR)" using air_wide(2) by simp
  then show ?case using Suc wide_spans by (auto simp: air_control_def intro!: spans_union)
qed

section \<open>A station on 20 m\<close>

definition us_station :: "station_control \<Rightarrow> situation" where
  "us_station control = \<lparr>st_dial_hz = Some 14104500, st_dial_source = Some RadioDial, st_sideband = Some Usb,
     st_control = Some control, st_license = Some General, st_itu_region = 2, st_margin_hz = 50, st_band_plan = True,
     st_power_w = None\<rparr>"

lemma us_fields:
  "pf_itu_region US_PROFILE = 2" "br_reading (pf_bandwidth US_PROFILE) = WiderReading" "pf_bands US_PROFILE = US_BANDS"
  "pf_data_segments US_PROFILE = US_DATA_SEGMENTS" "pf_channels US_PROFILE = Some US_CHANNELS" "pf_automatic US_PROFILE = US_AUTOMATIC"
  "privileges_of US_PROFILE General = US_GENERAL" "dl_max_hz (pf_data US_PROFILE) = 2800" "ch_band US_CHANNELS = ''60 m''"
  by (simp_all add: US_PROFILE_def privileges_of_def US_PRIVILEGES_def US_CHANNELS_def)

lemma us_width: "width_of US_PROFILE (data_emission what e dir) = wide_of e"
  by (simp add: width_of_def wide_of_def us_fields data_emission_def)

lemma us_station_facts:
  "\<exists>c. facts US_PROFILE (us_station control) (data_emission what e dir) = Some c \<and> cf_profile c = US_PROFILE \<and>
     cf_license c = General \<and> cf_tx c = data_emission what e dir \<and>
     cf_glo c = 14104450 + fst (edges_range WiderReading e) \<and> cf_ghi c = 14104550 + snd (edges_range WiderReading e)"
  by (simp add: facts_def us_station_def us_fields Let_def rf_range_def draft_new_def data_emission_def)

lemma us_station_lawful:
  assumes "spans 200 2800 e" "0 < wide_of e"
  shows "\<exists>l. authorize (Rules US_PROFILE) (us_station control) (data_emission what e dir) = Inr l"
proof -
  obtain c where c: "facts US_PROFILE (us_station control) (data_emission what e dir) = Some c" "cf_profile c = US_PROFILE"
      "cf_license c = General" "cf_tx c = data_emission what e dir"
      "cf_glo c = 14104450 + fst (edges_range WiderReading e)" "cf_ghi c = 14104550 + snd (edges_range WiderReading e)"
    using us_station_facts by blast
  have g: "14104650 \<le> cf_glo c" "cf_ghi c \<le> 14107350" "wide_of e \<le> 2600"
    using assms by (auto simp: spans_def wide_of_def c)
  have seg: "\<lparr>sg_band = ''20 m'', sg_range = \<lparr>rg_low = 14000000, rg_high = 14150000\<rparr>,
      sg_rule = section_sign @ ''97.305(c)(3)(ix)'', sg_max_hz = None, sg_bandwidth_rule = None\<rparr> \<in> set US_DATA_SEGMENTS"
    by (simp add: US_DATA_SEGMENTS_def)
  have priv: "\<lparr>pv_range = \<lparr>rg_low = 14025000, rg_high = 14150000\<rparr>, pv_emissions = None, pv_rule = None\<rparr> \<in> set US_GENERAL"
    by (simp add: US_GENERAL_def)
  have auto: "\<lparr>rg_low = 14100500, rg_high = 14112000\<rparr> \<in> set (ac_segments US_AUTOMATIC)"
    by (simp add: US_AUTOMATIC_def)
  have band: "\<lparr>bd_name = ''20 m'', bd_range = \<lparr>rg_low = 14000000, rg_high = 14350000\<rparr>\<rparr> \<in> set US_BANDS"
    by (simp add: US_BANDS_def)
  have ex: "\<forall>x\<in>set (ac_excluded US_AUTOMATIC). ex_band x \<noteq> ''20 m''" by (simp add: US_AUTOMATIC_def)
  have "lawful_data c (wide_of e)"
    unfolding lawful_data_def c(2,3) us_fields
  proof (intro conjI impI)
    show "automatic_ok US_PROFILE (em_direction (cf_tx c)) (wide_of e) (cf_glo c) (cf_ghi c)"
      unfolding automatic_ok_def us_fields using auto g by (intro disjI1 bexI [OF _ auto]) (simp add: holds_def)
  qed (use g in \<open>auto intro!: bexI [OF _ seg] bexI [OF _ priv] simp: holds_def segment_limit_def us_fields pv_allows_def\<close>)
  then have "lawful_in c (wide_of e) \<lparr>bd_name = ''20 m'', bd_range = \<lparr>rg_low = 14000000, rg_high = 14350000\<rparr>\<rparr>"
    unfolding lawful_in_def c(2) us_fields using g ex by (simp add: holds_def us_fields c data_emission_def)
  then have "lawful US_PROFILE (us_station control) (data_emission what e dir)"
    unfolding lawful_def us_width us_fields using c(1) band by blast
  then show ?thesis
    by (rule lawful_leave [OF _ us_orderly])
      (use c assms(2) in \<open>auto simp: definite_def data_emission_def wide_of_def\<close>)
qed

section \<open>What the policy promises\<close>

text \<open>
  C8: \<^bold>\<open>Leave to transmit.\<close>  Under a profile whose tables are apart, the policy gives leave exactly when the
  rules are kept: the station's region, control, class, sideband and dial known, the signal with its
  margin inside one band, no automatic operation where it is excluded, and in that band inside a segment
  for its emission and width, a privilege of the operator's class, and what automatic control allows; on
  60 m on one channel, set up for it, or in the segment.  With no profile chosen, or a broken one, never.
\<close>

theorem leave_exactly_when_lawful:
  assumes "orderly p" "\<forall>c. facts p s tx = Some c \<longrightarrow> definite c"
  shows "((\<exists>a. authorize (Rules p) s tx = Inr a) \<longleftrightarrow> lawful p s tx) \<and>
    (\<forall>a. authorize Unset s tx \<noteq> Inr a) \<and> (\<forall>e a. authorize (Broken e) s tx \<noteq> Inr a)"
  using leave_lawful lawful_leave [OF _ assms(1)] assms(2) by (fastforce simp: authorize_def pol_evaluate_def)

text \<open>
  C9: \<^bold>\<open>The ladder's ceiling.\<close>  Up to the rung the policy names, every frame of every rung, data and control
  alike, has leave on its own; and the rung above it, where there is one, with all below has none.
\<close>

theorem ceiling_lawful:
  assumes "orderly p" "0 \<le> st_margin_hz s" "ce_rung (pol_ceiling (Rules p) s a dir fl) = Some k" "i \<le> k"
    "e \<in> {ro_edges (ao_rungs a ! i), air_control (fl i) a}" "0 < width_of p (data_emission what e dir)"
  shows "(\<exists>l. authorize (Rules p) s (data_emission what e dir) = Inr l) \<and> k < length (ao_rungs a) \<and>
    (k + 1 < length (ao_rungs a) \<longrightarrow>
      (\<forall>l. authorize (Rules p) s (rung_emission (k + 1) (ro_name (ao_rungs a ! (k + 1))) (envelope a fl (k + 1)) dir) \<noteq> Inr l))"
proof -
  note run = ceiling_run [of "Suc k" "Rules p" s a dir fl]
  have k: "rung_leave (Rules p) s a dir fl k" "Suc k \<le> length (ao_rungs a)" using run assms(3) by auto
  then obtain l where l: "authorize (Rules p) s (rung_emission k (ro_name (ao_rungs a ! k)) (envelope a fl k) dir) = Inr l"
    by (auto simp: rung_leave_def authorize_def)
  have "covers (br_reading (pf_bandwidth p)) (envelope a fl k) e" using envelope_covers [OF assms(4)] assms(5) by auto
  then have "\<exists>l. authorize (Rules p) s (data_emission what e dir) = Inr l"
    using assms(2,6) by (intro leave_narrower [OF l assms(1)]) (simp_all add: rung_emission_def data_emission_def)
  moreover have "\<not> rung_leave (Rules p) s a dir fl (k + 1)" if "k + 1 < length (ao_rungs a)"
    using run assms(3) that by (cases "ce_limit (pol_ceiling (Rules p) s a dir fl)") auto
  ultimately show ?thesis using k(2) by (auto simp: rung_leave_def authorize_def)
qed

text \<open>
  C10: \<^bold>\<open>The dials offered.\<close>  On every dial of every range offered for a signal, that signal has leave, for a
  station in the profile's region.
\<close>

theorem safe_dials_lawful:
  assumes "coherent p" "st_itu_region s = pf_itu_region p" "0 \<le> st_margin_hz s" "0 < width_of p (data_emission what audio dir)"
    "sd \<in> set (safe_dials (Rules p) s audio dir)" "sd_low_hz sd \<le> dial" "dial \<le> sd_high_hz sd"
  shows "\<exists>l. authorize (Rules p) (s\<lparr>st_dial_hz := Some dial\<rparr>) (data_emission what audio dir) = Inr l"
proof -
  obtain a_lo a_hi where a: "edges_range (br_reading (pf_bandwidth p)) audio = (a_lo, a_hi)" by fastforce
  have w: "a_lo < a_hi" using assms(4) by (simp add: width_of_def data_emission_def a)
  obtain control license sb where s: "st_control s = Some control" "st_license s = Some license" "st_sideband s = Some sb"
    and sd: "sd \<in> set (channel_dials p s sb a_lo a_hi (control = AutomaticControl \<and> dir \<noteq> Operator) (privileges_of p license)) \<or>
     (\<exists>sg\<in>set (pf_data_segments p). sd \<in> set (segment_dials p s sb a_lo a_hi (control = AutomaticControl \<and> dir \<noteq> Operator)
          (elsewhere_allows p (a_hi - a_lo) dir) (privileges_of p license) sg))"
    using safe_dials_cases [OF assms(5) a] by blast
  have l: "lawful p (s\<lparr>st_dial_hz := Some dial\<rparr>) (data_emission what audio dir)"
    using sd
  proof
    assume c: "sd \<in> set (channel_dials p s sb a_lo a_hi (control = AutomaticControl \<and> dir \<noteq> Operator) (privileges_of p license))"
    show ?thesis by (rule channel_dial_lawful [OF assms(1) s assms(2) a assms(3) _ c assms(6,7)]) (use w in simp)
  next
    assume "\<exists>sg\<in>set (pf_data_segments p). sd \<in> set (segment_dials p s sb a_lo a_hi (control = AutomaticControl \<and> dir \<noteq> Operator)
          (elsewhere_allows p (a_hi - a_lo) dir) (privileges_of p license) sg)"
    then obtain sg where g: "sg \<in> set (pf_data_segments p)" and d: "sd \<in> set (segment_dials p s sb a_lo a_hi
          (control = AutomaticControl \<and> dir \<noteq> Operator) (elsewhere_allows p (a_hi - a_lo) dir) (privileges_of p license) sg)" by blast
    show ?thesis by (rule segment_dial_lawful [OF assms(1) g s assms(2) a assms(3) d assms(6,7)])
  qed
  show ?thesis
  proof (rule lawful_leave [OF l])
    show "orderly p" using assms(1) by (simp add: coherent_def)
    obtain lo hi where rf: "rf_range dial sb a_lo a_hi = (lo, hi)" by fastforce
    fix c
    assume c: "facts p (s\<lparr>st_dial_hz := Some dial\<rparr>) (data_emission what audio dir) = Some c"
    obtain c' where "facts p (s\<lparr>st_dial_hz := Some dial\<rparr>) (data_emission what audio dir) = Some c'" "cf_glo c' = lo - st_margin_hz s"
        "cf_ghi c' = hi + st_margin_hz s" "hi - lo = a_hi - a_lo"
      by (rule facts_dial [OF s assms(2) a rf, where what = what and dir = dir])
    then show "definite c" using c w assms(3) facts_in [OF c] by (auto simp: definite_def data_emission_def)
  qed
qed

text \<open>Automatic control.\<close>

lemma us_automatic_band:
  "lawful_in c w b \<Longrightarrow> cf_profile c = US_PROFILE \<Longrightarrow> cf_automatic c \<Longrightarrow> em_kind (cf_tx c) = DataEmission \<Longrightarrow> lawful_data c w"
  by (auto simp: lawful_in_def us_fields US_AUTOMATIC_def split: if_splits)

text \<open>
  C11: \<^bold>\<open>No unattended answer elsewhere.\<close>  Under the United States' profile an automatically controlled station has
  leave for no data rung of either measured air, whoever began the exchange, but inside a segment set
  aside for automatic control: every rung is wider than the 500 Hz allowed elsewhere.
\<close>

theorem us_automatic_segments_only:
  assumes "air hz = Inr a" "r \<in> set (ao_rungs a)" "st_control s = Some AutomaticControl" "dir \<noteq> Operator"
    "authorize (Rules US_PROFILE) s (data_emission what (ro_edges r) dir) = Inr l"
  shows "\<exists>c sg. facts US_PROFILE s (data_emission what (ro_edges r) dir) = Some c \<and>
    sg \<in> set (ac_segments US_AUTOMATIC) \<and> holds sg (cf_glo c) (cf_ghi c)"
proof -
  obtain c b where c: "facts US_PROFILE s (data_emission what (ro_edges r) dir) = Some c"
    and b: "lawful_in c (wide_of (ro_edges r)) b"
    using leave_lawful [OF assms(5)] by (auto simp: lawful_def us_width)
  note f = facts_in [OF c]
  have at: "cf_automatic c"
    using c assms(3,4) by (auto simp: facts_def Let_def data_emission_def split: option.splits prod.splits if_splits)
  have "lawful_data c (wide_of (ro_edges r))"
    by (rule us_automatic_band [OF b _ at]) (use f in \<open>auto simp: data_emission_def\<close>)
  then have ok: "automatic_ok US_PROFILE (em_direction (cf_tx c)) (wide_of (ro_edges r)) (cf_glo c) (cf_ghi c)"
    using at f by (simp add: lawful_data_def)
  have "500 < wide_of (ro_edges r)" using rungs_wider air_only [OF assms(1)] assms(2) by auto
  then have "\<exists>sg\<in>set (ac_segments US_AUTOMATIC). holds sg (cf_glo c) (cf_ghi c)"
    using ok by (auto simp: automatic_ok_def us_fields US_AUTOMATIC_def)
  then show ?thesis using c by blast
qed

section \<open>Witnesses\<close>

lemma wide_first: "ao_rungs WIDE_AIR ! 0 \<in> set (ao_rungs WIDE_AIR)"
  using air_wide(2) by simp

theorem us_automatic_segments_only_witness:
  "\<exists>c sg. facts US_PROFILE (us_station AutomaticControl) (data_emission ''an answer'' (ro_edges (ao_rungs WIDE_AIR ! 0)) Respond) = Some c \<and>
    sg \<in> set (ac_segments US_AUTOMATIC) \<and> holds sg (cf_glo c) (cf_ghi c)"
proof -
  have "500 < wide_of (ro_edges (ao_rungs WIDE_AIR ! 0))" "spans 200 2800 (ro_edges (ao_rungs WIDE_AIR ! 0))"
    using rungs_wider wide_spans(1) wide_first by auto
  then obtain l where "authorize (Rules US_PROFILE) (us_station AutomaticControl)
      (data_emission ''an answer'' (ro_edges (ao_rungs WIDE_AIR ! 0)) Respond) = Inr l"
    using us_station_lawful [of "ro_edges (ao_rungs WIDE_AIR ! 0)" AutomaticControl "''an answer''" Respond] by auto
  note l = this
  show ?thesis
    by (rule us_automatic_segments_only [OF air_wide(1) wide_first _ _ l]) (simp_all add: us_station_def)
qed

lemma us_station_ceiling: "ce_rung (pol_ceiling (Rules US_PROFILE) (us_station LocalControl) WIDE_AIR Originate fl) = Some 19"
proof -
  have leave: "rung_leave (Rules US_PROFILE) (us_station LocalControl) WIDE_AIR Originate fl k" if "k < 20" for k
  proof -
    have "ao_rungs WIDE_AIR ! k \<in> set (ao_rungs WIDE_AIR)" using that air_wide(2) by simp
    then have "500 < wide_of (ro_edges (ao_rungs WIDE_AIR ! k))" using rungs_wider by blast
    moreover have "covers WiderReading (envelope WIDE_AIR fl k) (ro_edges (ao_rungs WIDE_AIR ! k))"
      using envelope_covers [of k k] by blast
    ultimately have "0 < wide_of (envelope WIDE_AIR fl k)" by (auto simp: covers_def wide_of_def)
    then show ?thesis
      using us_station_lawful [OF wide_envelope [OF that], of fl LocalControl _ Originate]
      by (fastforce simp: rung_leave_def authorize_def Let_def rung_emission_def data_emission_def split: if_splits)
  qed
  define n where "n = (case ce_rung (pol_ceiling (Rules US_PROFILE) (us_station LocalControl) WIDE_AIR Originate fl) of None \<Rightarrow> 0 | Some k \<Rightarrow> Suc k)"
  have "n = 20"
    using ceiling_run [OF n_def] leave air_wide(2)
    by (cases "ce_limit (pol_ceiling (Rules US_PROFILE) (us_station LocalControl) WIDE_AIR Originate fl)") auto
  then show ?thesis by (auto simp: n_def split: option.splits)
qed

theorem leave_exactly_when_lawful_witness:
  "lawful US_PROFILE (us_station LocalControl) (data_emission ''a call'' (ro_edges (ao_rungs WIDE_AIR ! 0)) Originate)"
proof -
  let ?tx = "data_emission ''a call'' (ro_edges (ao_rungs WIDE_AIR ! 0)) Originate"
  have e: "500 < wide_of (ro_edges (ao_rungs WIDE_AIR ! 0))" "spans 200 2800 (ro_edges (ao_rungs WIDE_AIR ! 0))"
    using rungs_wider wide_spans(1) wide_first by auto
  then have "\<exists>l. authorize (Rules US_PROFILE) (us_station LocalControl) ?tx = Inr l" using us_station_lawful by auto
  moreover have "\<forall>c. facts US_PROFILE (us_station LocalControl) ?tx = Some c \<longrightarrow> definite c"
    using us_station_facts [of LocalControl "''a call''" "ro_edges (ao_rungs WIDE_AIR ! 0)" Originate] e(1)
    by (auto simp: definite_def data_emission_def wide_of_def)
  ultimately show ?thesis using leave_exactly_when_lawful [OF us_orderly, of "us_station LocalControl" ?tx] by blast
qed

lemma wide_controls: "0 < wide_of (ao_control_ordinary WIDE_AIR)" "0 < wide_of (ao_control_floor WIDE_AIR)"
  by (simp_all add: WIDE_AIR_def air_defs wide_of_def edges_range_def)

theorem ceiling_lawful_witness:
  "\<exists>l. authorize (Rules US_PROFILE) (us_station LocalControl) (data_emission ''an acknowledgement'' (ao_control_ordinary WIDE_AIR) Originate) = Inr l"
  using ceiling_lawful [OF us_orderly _ us_station_ceiling [of "\<lambda>i. i < 6"], of 19 "ao_control_ordinary WIDE_AIR" "''an acknowledgement''"]
    wide_controls by (simp add: us_station_def us_width air_control_def)

definition twenty_metres :: safe_dial where
  "twenty_metres = \<lparr>sd_band = ''20 m'', sd_segment = \<lparr>rg_low = 14025000, rg_high = 14150000\<rparr>,
     sd_rule = section_sign @ ''97.305(c)(3)(ix)'', sd_low_hz = 14023800, sd_high_hz = 14148200\<rparr>"

lemma twenty_metres_offered:
  "twenty_metres \<in> set (safe_dials (Rules US_PROFILE) (us_station LocalControl) (edges_tone 1500 250) Originate)"
proof -
  let ?sg = "\<lparr>sg_band = ''20 m'', sg_range = \<lparr>rg_low = 14000000, rg_high = 14150000\<rparr>,
      sg_rule = section_sign @ ''97.305(c)(3)(ix)'', sg_max_hz = None, sg_bandwidth_rule = None\<rparr>"
  let ?q = "\<lparr>pv_range = \<lparr>rg_low = 14025000, rg_high = 14150000\<rparr>, pv_emissions = None, pv_rule = None\<rparr>"
  have sg: "?sg \<in> set US_DATA_SEGMENTS" by (simp add: US_DATA_SEGMENTS_def)
  have q: "?q \<in> set (filter (\<lambda>q. pv_allows q ''data'') US_GENERAL)" by (simp add: US_GENERAL_def pv_allows_def)
  have e: "edges_range WiderReading (edges_tone 1500 250) = (1250, 1750)" by (simp add: edges_range_def edges_tone_def Let_def)
  have i: "intersect (sg_range ?sg) (pv_range ?q) = Some \<lparr>rg_low = 14025000, rg_high = 14150000\<rparr>" by (simp add: intersect_def)
  have "twenty_metres \<in> set (List.map_filter (piece_dial (us_station LocalControl) Usb 1250 1750 ''20 m'')
      (segment_pieces US_PROFILE False els ?sg \<lparr>rg_low = 14025000, rg_high = 14150000\<rparr>))" for els
    by (simp add: set_map_filter segment_pieces_def piece_dial_def dial_range_def us_station_def twenty_metres_def)
  then have "twenty_metres \<in> set (segment_dials US_PROFILE (us_station LocalControl) Usb 1250 1750 False els US_GENERAL ?sg)" for els
    unfolding segment_dials_def using q i by (fastforce simp: segment_limit_def us_fields)
  then show ?thesis
    using sg by (auto simp: safe_dials_def us_fields e us_station_def Let_def)
qed

theorem safe_dials_lawful_witness:
  "\<exists>l. authorize (Rules US_PROFILE) ((us_station LocalControl)\<lparr>st_dial_hz := Some 14100000\<rparr>)
     (data_emission ''a tone'' (edges_tone 1500 250) Originate) = Inr l"
  by (rule safe_dials_lawful [OF us_coherent _ _ _ twenty_metres_offered])
    (simp_all add: us_station_def us_fields us_width twenty_metres_def wide_of_def edges_range_def edges_tone_def Let_def)

end
