(* ===== verification/Spec2Isabelle.thy ===== *)
theory Spec2Isabelle
  imports Dialect Round_Trip Rate_Laws Tone_Laws Session_Laws Sender_Fit Regulatory_Us
begin

text \<open>
  A verification library for the core of Aether HF, a data modem for shortwave radio.  The modelled
  code is Rust, under \<open>src/core\<close>; every path below is relative to it.

  \<^bold>\<open>The program.\<close>  A station is a daemon (\<open>aetherd\<close>) with client interfaces (KISS, VARA, a control
  socket) and a regulatory policy (\<open>aetherd/src/regulatory\<close>) without whose leave it transmits nothing, a link
  layer (\<open>aether-link\<close>), a physical layer (\<open>aether-phy\<close>) and an error-correcting code
  (\<open>aether-fec\<close>).  A client's frame comes in over KISS (\<open>aetherd/src/kiss\<close>) and goes out as datagrams
  (\<open>aether-link/src/datagram.rs\<close>) or, in a session, as numbered blocks of a byte stream
  (\<open>aether-link/src/granted.rs\<close>).  Both travel in the DATA and CONTROL containers of
  \<open>aether-link/src/frames.rs\<close>.  The rate controller (\<open>aether-link/src/rate.rs\<close>) chooses the rung of the
  mode ladder (\<open>aether-phy/src/modes.rs\<close>) at which each frame goes; the frame codec
  (\<open>aether-phy/src/codec.rs\<close>, or the tone floor's in \<open>aether-phy/src/tone.rs\<close>) attaches a CRC, encodes
  with an LDPC code, rate-matches, interleaves and maps to symbols, and reads all of that back with
  soft decisions and combining.

  \<^bold>\<open>Theories and code.\<close>
  \<^item> \<open>Prelude\<close>, \<open>Checked\<close>: results, bytes, positional numbers, rounding; code that may panic as
    options, with a weakest-precondition rule for each construct.
  \<^item> \<open>Callsign\<close>, \<open>Frames\<close>, \<open>Control\<close>: \<open>frames.rs\<close>.  Callsigns; the DATA container and bodies in pieces;
    connect, probe and grant bodies, sequence numbers modulo 256 and what an acknowledgement says.
    Each format is an interpretation of the locale \<open>wire_codec\<close> (or \<open>exact_codec\<close>).
  \<^item> \<open>Datagrams\<close>: \<open>datagram.rs\<close>.  Splitting, the fragment frames, and the reassembler with its
    expiry and eviction as a state machine.
  \<^item> \<open>Kiss\<close>, \<open>Dialect\<close>: \<open>kiss/framing.rs\<close>, \<open>kiss/dialect.rs\<close>.  The incremental decoder and a batch
    specification it refines; what is transmitted.
  \<^item> \<open>Crc\<close>: \<open>aether-fec/src/crc.rs\<close>.  \<open>Ldpc\<close>, \<open>Ldpc_Encode\<close>, \<open>Ldpc_Peel\<close>, \<open>Base_Graphs\<close>, \<open>Nr_Tables\<close>,
    \<open>Ldpc_Decode\<close>: \<open>aether-fec/src/ldpc.rs\<close>, the base graphs an argument of the construction,
    instantiated with the tables the build script compiles in.  \<open>Rate_Match\<close>: \<open>rate_match.rs\<close>.
  \<^item> \<open>Waveform\<close>, \<open>Modes\<close>, \<open>Constellation\<close>, \<open>Codec\<close>, \<open>Round_Trip\<close>: the numerology, the mode tables and
    layouts, the symbol alphabets and the frame codec of \<open>aether-phy\<close>; \<open>Round_Trip\<close> composes CRC,
    LDPC, rate matching, interleaver and constellation end to end.
  \<^item> \<open>Tone\<close>, \<open>Tone_Laws\<close>: the tone floor's frames, codec and waveform, \<open>aether-phy/src/tone.rs\<close>.
  \<^item> \<open>Phy\<close>, \<open>Rate\<close>, \<open>Rate_Laws\<close>: \<open>aether-link/src/phy.rs\<close> and \<open>rate.rs\<close>; the controller's state, every
    operation of it, and the invariant of its reachable states.
  \<^item> The session engine, \<open>aether-link/src/granted.rs\<close>.  \<open>Granted\<close>: constants, configuration, draws,
    timers, slot arithmetic.  \<open>Sender\<close>, \<open>Receiver\<close>: its two halves, the fields and methods that cut,
    lay out, repeat and acknowledge blocks, and those that file and deliver them.  \<open>Engine\<close>: the whole
    state, the events and actions, the transmission with its keying window, slots and answers, the
    session's start and end.  \<open>Engine_Answer\<close> (the slave), \<open>Engine_Leave\<close> (identifiers, the end of a
    session), \<open>Engine_Call\<close> (calls and probes), \<open>Engine_Master\<close> (headers, slots, silence),
    \<open>Engine_Inputs\<close> (frames, preambles, timers, what became of a transmission, settings).  The one
    struct \<open>GrantedEngine\<close> is the record \<open>engine\<close> with its halves as two sub-records; its counters are
    kept in the half that counts.
  \<^item> \<open>Sender_Laws\<close>, \<open>Receiver_Laws\<close>: each half's window.  \<open>Session\<close>, \<open>Session_Laws\<close>: one direction of a
    session over an air that loses, garbles and repeats, as a step relation, and its refinement of a
    byte pipe.
  \<^item> \<open>Engine_View\<close>, \<open>Engine_Keying\<close>, \<open>Engine_Safe\<close>, \<open>Engine_Laws\<close>: what each operation leaves alone, the
    engine's invariant, when it may key, and the step relation of the whole engine.  \<open>Engine_Timeout\<close>:
    a dead link ends.  \<open>Sender_Fit\<close>: what is laid out fits its room.
  \<^item> \<open>Occupancy\<close>, \<open>Regulatory_Profile\<close>, \<open>Regulatory\<close>, \<open>Regulatory_Judge\<close>, \<open>Regulatory_Laws\<close>,
    \<open>Regulatory_Uses\<close>, \<open>Regulatory_Us\<close>:
    \<open>aetherd/src/regulatory/*.rs\<close>.  The rules of an administration as data, the spectrum each transmission
    occupies, the judgement of a transmission, and what leave to transmit means.

  \<^bold>\<open>What the lemmas show.\<close>  The formats: each decoder inverts its encoder, and an encoder refuses
  exactly what its format cannot hold.  The code chain: the encoder gives the one codeword of its
  information bits, the soft chain is sound (it turns no bit the wrong way) and a clean frame decodes
  in every mode of the tables.  The state machines (reassembler, KISS decoder, rate controller, the halves of
  a session, the session engine):
  an invariant of the reachable states, from which follow the absence of panics, bounds on what is
  kept, and the refinement of an abstract specification.  The policy: leave to transmit is given exactly
  when the rules, stated without the order the code tries them in, are kept.

  \<^bold>\<open>Idealisations and bounds.\<close>  An \<open>f64\<close> is a real number: no rounding, no infinity, no NaN; where the
  code uses an infinity it is an option.  A \<open>usize\<close> is a natural number; where the code subtracts
  without a check, a panic is \<open>None\<close>.  Words of 8 to 64 bits keep their width and wrap.  Tables which
  build scripts generate (base graphs, tone tables) are arguments; the theorems instantiate them with
  the repository's data files.  Loops are structural or carry a measure; no fuel is used, except that
  the LDPC decoder takes its iteration limit from the code.  Hash maps are partial functions or
  association lists in the order the code visits them.

  \<^bold>\<open>Not modelled.\<close>  The signal processing between samples and symbols (FFTs, filters, synchronisation,
  noise estimation: \<open>aether-phy/src/{ofdm,rx,sync,preamble,...}.rs\<close> and the tone detector), whose
  correctness is a matter of numerics; channel occupancy detection, PTT, audio, sockets, settings and
  files, which are input and output; the desktop application; the daemon's driver of the session engine
  (\<open>aetherd/src/station.rs\<close>), which is the environment of \<open>engine_step\<close>: any input in any order, but two.
  The settings (\<open>set_max_burst_s\<close> and the like) are modelled and held fixed in \<open>engine_step\<close>, and a call
  is not begun while a probe still waits for its moment: the code's \<open>connect\<close> does not look.
\<close>

end
